(* ===== verification/Prelude.thy ===== *)
theory Prelude
  imports Main "HOL-Library.Word" "HOL-Library.Monad_Syntax"
begin

text \<open>
  Shared vocabulary of the development: the fixed-width integers of
  \<^verbatim>\<open>src/src/common/common_types.h\<close>, the fault monad, the kernel result codes of
  \<^verbatim>\<open>svc_results.h\<close>, alignment helpers of \<^verbatim>\<open>src/src/common/alignment.h\<close>, and the
  generic lemmas on words and lists that the component theories use.

  Faults. A value of type \<open>'a option\<close> is the outcome of C++ code that can fault: \<open>None\<close> is
  a failed \<^verbatim>\<open>ASSERT\<close> (which stops the program when the setting \<^verbatim>\<open>use_debug_asserts\<close> is on,
  see \<^verbatim>\<open>assert_fail_impl\<close> in \<^verbatim>\<open>src/src/common/assert.cpp\<close>), an access outside an array or
  past the end iterator, or \<^verbatim>\<open>UNREACHABLE\<close>. Where the theorems show that an operation is
  \<open>Some\<close>, no assertion fires and the setting makes no difference. Error codes that the
  program returns deliberately are values of type \<open>Result\<close>, not faults.
\<close>

unbundle bit_operations_syntax

type_synonym u8 = "8 word"
type_synonym u16 = "16 word"
type_synonym u32 = "32 word"
type_synonym u64 = "64 word"

named_theorems geometry \<open>unsigned readings of address arithmetic that does not wrap\<close>
named_theorems flag_simps \<open>definitions of flag constants\<close>

section \<open>Faults\<close>

definition ASSERT :: "bool \<Rightarrow> unit option" where
  "ASSERT b = (if b then Some () else None)"

lemma ASSERT_simps [simp]:
  "ASSERT True = Some ()"
  "ASSERT False = None"
  by (simp_all add: ASSERT_def)

lemma ASSERT_eq_Some [simp]: "ASSERT b = Some u \<longleftrightarrow> b"
  by (simp add: ASSERT_def)

lemma bind_ASSERT_eq_Some [simp]:
  "Option.bind (ASSERT b) f = Some y \<longleftrightarrow> b \<and> f () = Some y"
  by (simp add: ASSERT_def)

lemma bind_ASSERT_True: "b \<Longrightarrow> Option.bind (ASSERT b) f = f ()"
  by simp

text \<open>Checked array access: out of range is a fault.\<close>

definition array_get :: "'a list \<Rightarrow> nat \<Rightarrow> 'a option" where
  "array_get xs i = (if i < length xs then Some (xs ! i) else None)"

definition array_set :: "'a list \<Rightarrow> nat \<Rightarrow> 'a \<Rightarrow> 'a list option" where
  "array_set xs i x = (if i < length xs then Some (xs[i := x]) else None)"

lemma array_get_in [simp]: "i < length xs \<Longrightarrow> array_get xs i = Some (xs ! i)"
  by (simp add: array_get_def)

lemma array_get_append_length [simp]: "array_get (xs @ y # ys) (length xs) = Some y"
  by (simp add: array_get_def)

lemma array_get_eq_Some: "array_get xs i = Some y \<longleftrightarrow> i < length xs \<and> y = xs ! i"
  by (auto simp: array_get_def)

lemma array_set_in [simp]: "i < length xs \<Longrightarrow> array_set xs i x = Some (xs[i := x])"
  by (simp add: array_set_def)

lemma array_set_eq_Some: "array_set xs i x = Some ys \<longleftrightarrow> i < length xs \<and> ys = xs[i := x]"
  by (auto simp: array_set_def)

section \<open>Signed integers\<close>

text \<open>Signed integers are integers in range; arithmetic that leaves the range is undefined, a fault.\<close>

type_synonym s32 = int
type_synonym s64 = int

definition s32_range :: "int \<Rightarrow> bool" where
  "s32_range x \<longleftrightarrow> - (2 ^ 31) \<le> x \<and> x < 2 ^ 31"

definition s64_range :: "int \<Rightarrow> bool" where
  "s64_range x \<longleftrightarrow> - (2 ^ 63) \<le> x \<and> x < 2 ^ 63"

definition s32_add :: "s32 \<Rightarrow> s32 \<Rightarrow> s32 option" where
  "s32_add a b = (if s32_range (a + b) then Some (a + b) else None)"

definition s64_add :: "s64 \<Rightarrow> s64 \<Rightarrow> s64 option" where
  "s64_add a b = (if s64_range (a + b) then Some (a + b) else None)"

definition s64_sub :: "s64 \<Rightarrow> s64 \<Rightarrow> s64 option" where
  "s64_sub a b = (if s64_range (a - b) then Some (a - b) else None)"

section \<open>Loops over lists\<close>

text \<open>A \<^verbatim>\<open>for\<close> loop over the given values whose body can fault.\<close>

fun for_each :: "('a \<Rightarrow> 's \<Rightarrow> 's option) \<Rightarrow> 'a list \<Rightarrow> 's \<Rightarrow> 's option" where
  "for_each f [] s = Some s"
| "for_each f (x # xs) s = do { s1 \<leftarrow> f x s; for_each f xs s1 }"

lemma for_each_append: "for_each f (xs @ ys) s = for_each f xs s \<bind> for_each f ys"
  by (induction xs arbitrary: s) (auto simp: bind_eq_None_conv split: Option.bind_splits)

text \<open>An invariant of the body is an invariant of the loop.\<close>

lemma for_each_invariant:
  assumes "for_each f xs s = Some s'" "P s" "\<And>x s s'. x \<in> set xs \<Longrightarrow> P s \<Longrightarrow> f x s = Some s' \<Longrightarrow> P s'"
  shows "P s'"
  using assms
proof (induction xs arbitrary: s)
  case (Cons x xs)
  then obtain s1 where "f x s = Some s1" "for_each f xs s1 = Some s'"
    by (auto simp: bind_eq_Some_conv)
  then show ?case
    using Cons.IH [of s1] Cons.prems(2,3) by auto
qed auto

text \<open>An invariant that speaks of the values visited so far.\<close>

lemma for_each_prefix_invariant:
  assumes "for_each f xs s = Some s'" "P [] s"
    "\<And>ys x s s'. x \<in> set xs \<Longrightarrow> P ys s \<Longrightarrow> f x s = Some s' \<Longrightarrow> P (ys @ [x]) s'"
  shows "P xs s'"
  using assms
proof (induction xs arbitrary: s' rule: rev_induct)
  case (snoc x xs)
  then obtain s1 where "for_each f xs s = Some s1" "f x s1 = Some s'"
    by (auto simp: for_each_append bind_eq_Some_conv)
  moreover from this(1) have "P xs s1"
    by (rule snoc.IH) (use snoc.prems(2,3) in auto)
  ultimately show ?case
    using snoc.prems(3) by simp
qed simp

text \<open>A loop whose body never faults returns.\<close>

lemma for_each_total:
  assumes "P [] s" "\<And>ys x s. x \<in> set xs \<Longrightarrow> P ys s \<Longrightarrow> \<exists>s'. f x s = Some s' \<and> P (ys @ [x]) s'"
  shows "\<exists>s'. for_each f xs s = Some s' \<and> P xs s'"
  using assms
proof (induction xs arbitrary: s rule: rev_induct)
  case (snoc x xs)
  then obtain s1 where "for_each f xs s = Some s1" "P xs s1"
    by (metis UnI1 set_append)
  moreover obtain s2 where "f x s1 = Some s2" "P (xs @ [x]) s2"
    using snoc.prems(2) [of x xs s1] calculation by auto
  ultimately show ?case
    by (simp add: for_each_append)
qed simp

section \<open>Result codes\<close>

datatype Result =
    ResultSuccess
  | ResultInvalidArgument
  | ResultNotImplemented
  | ResultTerminationRequested
  | ResultInvalidSize
  | ResultInvalidAddress
  | ResultOutOfResource
  | ResultOutOfMemory
  | ResultOutOfHandles
  | ResultInvalidCurrentMemory
  | ResultInvalidHandle
  | ResultInvalidCombination
  | ResultTimedOut
  | ResultCancelled
  | ResultOutOfRange
  | ResultInvalidEnumValue
  | ResultNotFound
  | ResultBusy
  | ResultSessionClosed
  | ResultInvalidState
  | ResultReservedUsed
  | ResultPortClosed
  | ResultLimitReached
  | ResultInvalidMemoryRegion

section \<open>Pages and alignment\<close>

definition PageBits :: nat where
  "PageBits = 12"

definition PageSize :: u64 where
  "PageSize = push_bit PageBits 1"

lemma PageSize_eq [simp]: "PageSize = 4096"
  by (simp add: PageSize_def PageBits_def)

definition AlignDown :: "u64 \<Rightarrow> u64 \<Rightarrow> u64" where
  "AlignDown value sz = value - value mod sz"

definition AlignUp :: "u64 \<Rightarrow> u64 \<Rightarrow> u64" where
  "AlignUp value sz =
     (let m = value mod sz; v = value - m in if m = 0 then v else v + sz)"

definition IsAligned :: "u64 \<Rightarrow> u64 \<Rightarrow> bool" where
  "IsAligned value alignment \<longleftrightarrow> value AND (alignment - 1) = 0"

lemma and_mask_eq_0_iff: "(x :: 'a::len word) AND mask n = 0 \<longleftrightarrow> unat x mod 2 ^ n = 0"
proof -
  have "x AND mask n = take_bit n x"
    by (simp add: take_bit_eq_mask)
  moreover have "unat (take_bit n x) = unat x mod 2 ^ n"
    by (metis unsigned_take_bit_eq take_bit_eq_mod)
  ultimately show ?thesis
    by (metis unat_eq_zero)
qed

lemma IsAligned_PageSize_iff: "IsAligned a PageSize \<longleftrightarrow> unat a mod 4096 = 0"
proof -
  have "(4095 :: u64) = mask 12"
    by (simp add: mask_eq_exp_minus_1)
  then show ?thesis
    using and_mask_eq_0_iff [of a 12] by (simp add: IsAligned_def)
qed

lemma unat_AlignDown: "unat (AlignDown v s) = unat v - unat v mod unat s"
  by (simp add: AlignDown_def unat_sub word_le_nat_alt unat_mod_distrib)

lemma AlignDown_le: "AlignDown v s \<le> v"
  by (simp add: word_le_nat_alt unat_AlignDown)

section \<open>Unsigned readings of word arithmetic\<close>

lemma unat_plus_no_wrap: "unat (a :: 'a::len word) + unat b < 2 ^ LENGTH('a) \<Longrightarrow>
    unat (a + b) = unat a + unat b"
  by (simp add: unat_add_lem)

lemma unat_mult_no_wrap: "unat (a :: 'a::len word) * unat b < 2 ^ LENGTH('a) \<Longrightarrow>
    unat (a * b) = unat a * unat b"
  by (simp add: unat_mult_lem)

lemma unat_minus_no_wrap: "unat (b :: 'a::len word) \<le> unat a \<Longrightarrow> unat (a - b) = unat a - unat b"
  by (simp add: unat_sub word_le_nat_alt)

lemma word_eq_unat_iff: "(a :: 'a::len word) = b \<longleftrightarrow> unat a = unat b"
  by (simp add: word_unat_eq_iff)

lemma unat_ucast_32_64: "unat (ucast (x :: u32) :: u64) = unat x"
proof -
  have "unat x < 2 ^ 32"
    using unsigned_less [of x] by simp
  then show ?thesis
    by (simp add: unsigned_ucast_eq take_bit_nat_eq_self_iff)
qed

lemma xor_eq_zeroD: "(a :: 'a::len word) XOR b = 0 \<Longrightarrow> a = b"
  by (simp add: bit_eq_iff bit_xor_iff)

text \<open>Masks of several flags.\<close>

lemma and_or_mask:
  fixes a x m n :: "'a::len word"
  shows "(a OR (x AND (m OR n))) AND m = (a AND m) OR (x AND m)"
    "(a OR (x AND (m OR n))) AND n = (a AND n) OR (x AND n)"
  by (auto intro!: bit_word_eqI simp: bit_simps)

lemma and_or_eq_zeroD:
  fixes x m n :: "'a::len word"
  assumes "x AND (m OR n) = 0"
  shows "x AND m = 0" "x AND n = 0"
proof -
  have "\<not> bit (x AND (m OR n)) i" for i
    using assms by simp
  then show "x AND m = 0" "x AND n = 0"
    by (auto intro!: bit_word_eqI simp: bit_simps)
qed

section \<open>Counting zero bits\<close>

text \<open>\<^verbatim>\<open>std::countr_zero\<close> and \<^verbatim>\<open>std::countl_zero\<close>: the width for a zero argument.\<close>

definition countr_zero :: "'a::len word \<Rightarrow> nat" where
  "countr_zero w = length (takeWhile (\<lambda>i. \<not> bit w i) [0..<LENGTH('a)])"

definition countl_zero :: "'a::len word \<Rightarrow> nat" where
  "countl_zero w = length (takeWhile (\<lambda>i. \<not> bit w (LENGTH('a) - 1 - i)) [0..<LENGTH('a)])"

lemma length_takeWhile_upt_first:
  assumes "P j" "j < n"
  shows "length (takeWhile (\<lambda>i. \<not> P i) [0..<n]) \<le> j"
    and "P (length (takeWhile (\<lambda>i. \<not> P i) [0..<n]))"
    and "k < length (takeWhile (\<lambda>i. \<not> P i) [0..<n]) \<Longrightarrow> \<not> P k"
proof -
  let ?l = "length (takeWhile (\<lambda>i. \<not> P i) [0..<n])"
  have below: "\<not> P k" if "k < ?l" for k
  proof -
    have "k < n"
      using that length_takeWhile_le [of _ "[0..<n]"] by (metis diff_zero le_trans length_upt not_less)
    moreover have "takeWhile (\<lambda>i. \<not> P i) [0..<n] ! k = [0..<n] ! k"
      using that by (rule takeWhile_nth)
    ultimately show ?thesis
      using that nth_mem [of k "takeWhile (\<lambda>i. \<not> P i) [0..<n]"] by (auto dest: set_takeWhileD)
  qed
  show "k < ?l \<Longrightarrow> \<not> P k" by (rule below)
  show le: "?l \<le> j"
    using below assms(1) by (meson not_le)
  then have "?l < length [0..<n]"
    using assms(2) by simp
  from nth_length_takeWhile [OF this] show "P ?l"
    using le assms(2) by simp
qed

lemma countr_zero_props:
  fixes w :: "'a::len word"
  assumes "w \<noteq> 0"
  shows countr_zero_less: "countr_zero w < LENGTH('a)"
    and bit_countr_zero: "bit w (countr_zero w)"
    and countr_zero_le: "bit w j \<Longrightarrow> countr_zero w \<le> j"
proof -
  from assms obtain i where i: "bit w i"
    by (auto simp: bit_eq_iff)
  then have "i < LENGTH('a)"
    by (rule bit_imp_le_length)
  from length_takeWhile_upt_first(1,2) [of "bit w", OF i this]
  show "countr_zero w < LENGTH('a)" "bit w (countr_zero w)"
    using \<open>i < LENGTH('a)\<close> by (simp_all add: countr_zero_def)
  show "countr_zero w \<le> j" if "bit w j" for j
    using length_takeWhile_upt_first(1) [of "bit w", OF that bit_imp_le_length [OF that]]
    by (simp add: countr_zero_def)
qed

section \<open>Lists\<close>

lemma nth_append_length_Cons [simp]: "(xs @ y # ys) ! length xs = y"
  by simp

lemma list_update_append_length [simp]: "(xs @ y # ys)[length xs := z] = xs @ z # ys"
  by simp

end
