(* ===== verification/TinyMT.thy ===== *)
theory TinyMT
  imports Prelude
begin

text \<open>
  The TinyMT random generator, \<^verbatim>\<open>src/src/common/tiny_mt.h\<close>. The state is the array of four
  32-bit words as a list. The byte-filling and floating-point outputs are not modelled (raw
  memory and IEEE arithmetic). Main fact: the generator never enters the all-zero state,
  from which it would emit zeros for ever, because initialisation avoids it and a step
  cannot reach it.
\<close>

definition NumStateWords :: nat where "NumStateWords = 4"

definition ParamMat1 :: u32 where "ParamMat1 = 0x8F7011EE"
definition ParamMat2 :: u32 where "ParamMat2 = 0xFC78FF1F"
definition ParamTmat :: u32 where "ParamTmat = 0x3793FDFF"
definition ParamMult :: u32 where "ParamMult = 0x6C078965"
definition ParamPlus :: u32 where "ParamPlus = 0x0019660D"
definition ParamXor :: u32 where "ParamXor = 0x5D588B65"
definition TopBitmask :: u32 where "TopBitmask = 0x7FFFFFFF"
definition MinimumInitIterations :: nat where "MinimumInitIterations = 8"
definition NumDiscardedInitOutputs :: nat where "NumDiscardedInitOutputs = 8"

definition XorByShifted27 :: "u32 \<Rightarrow> u32" where
  "XorByShifted27 v = v XOR drop_bit 27 v"

definition XorByShifted30 :: "u32 \<Rightarrow> u32" where
  "XorByShifted30 v = v XOR drop_bit 30 v"

type_synonym tiny_state = "u32 list"

text \<open>The state advance and the tempering of \<open>GenerateRandomU32\<close>.\<close>

definition advance_state :: "tiny_state \<Rightarrow> tiny_state" where
  "advance_state d =
     (let x0 = (d ! 0 AND TopBitmask) XOR d ! 1 XOR d ! 2;
          y0 = d ! 3;
          x1 = x0 XOR push_bit 1 x0;
          y1 = y0 XOR drop_bit 1 y0 XOR x1;
          state0 = d ! 1;
          state1 = d ! 2;
          state2 = x1 XOR push_bit 10 y1;
          state3 = y1;
          odd_y = y1 AND 1 \<noteq> 0
      in [state0,
          if odd_y then state1 XOR ParamMat1 else state1,
          if odd_y then state2 XOR ParamMat2 else state2,
          state3])"

definition temper :: "tiny_state \<Rightarrow> u32" where
  "temper d =
     (let t1 = d ! 0 + drop_bit 8 (d ! 2);
          t0 = d ! 3 XOR t1
      in if t1 AND 1 \<noteq> 0 then t0 XOR ParamTmat else t0)"

definition GenerateRandomU32 :: "tiny_state \<Rightarrow> u32 \<times> tiny_state" where
  "GenerateRandomU32 d = (let d' = advance_state d in (temper d', d'))"

definition GenerateRandomU24 :: "tiny_state \<Rightarrow> u32 \<times> tiny_state" where
  "GenerateRandomU24 d = (let (r, d') = GenerateRandomU32 d in (drop_bit 8 r, d'))"

definition GenerateRandomU64 :: "tiny_state \<Rightarrow> u64 \<times> tiny_state" where
  "GenerateRandomU64 d =
     (let (lo, d1) = GenerateRandomU32 d;
          (hi, d2) = GenerateRandomU32 d1
      in (push_bit 32 (ucast hi) OR ucast lo, d2))"

fun discard :: "nat \<Rightarrow> tiny_state \<Rightarrow> tiny_state" where
  "discard 0 d = d"
| "discard (Suc n) d = discard n (snd (GenerateRandomU32 d))"

definition FinalizeInitialization :: "tiny_state \<Rightarrow> tiny_state" where
  "FinalizeInitialization d =
     (let d' = (if d ! 0 AND TopBitmask = 0 \<and> d ! 1 = 0 \<and> d ! 2 = 0 \<and> d ! 3 = 0
                then [0x54, 0x49, 0x4E, 0x59] else d)
      in discard NumDiscardedInitOutputs d')"

definition GenerateInitialValuePlus :: "nat \<Rightarrow> u32 \<Rightarrow> tiny_state \<Rightarrow> tiny_state" where
  "GenerateInitialValuePlus index v d =
     (let i0 = (index + 0) mod NumStateWords;
          i1 = (index + 1) mod NumStateWords;
          i2 = (index + 2) mod NumStateWords;
          i3 = (index + 3) mod NumStateWords;
          x = XorByShifted27 (d ! i0 XOR d ! i1 XOR d ! i3) * ParamPlus;
          y = x + of_nat index + v
      in d[i0 := y, i1 := d ! i1 + x, i2 := d ! i2 + y])"

definition GenerateInitialValueXor :: "nat \<Rightarrow> tiny_state \<Rightarrow> tiny_state" where
  "GenerateInitialValueXor index d =
     (let i0 = (index + 0) mod NumStateWords;
          i1 = (index + 1) mod NumStateWords;
          i2 = (index + 2) mod NumStateWords;
          i3 = (index + 3) mod NumStateWords;
          x = XorByShifted27 (d ! i0 + d ! i1 + d ! i3) * ParamXor;
          y = x - of_nat index
      in d[i0 := y, i1 := d ! i1 XOR x, i2 := d ! i2 XOR y])"

text \<open>\<open>Initialize(u32 seed)\<close>: the loop runs \<open>i = 1 .. MinimumInitIterations - 1\<close>.\<close>

definition seed_step :: "nat \<Rightarrow> tiny_state \<Rightarrow> tiny_state" where
  "seed_step i d =
     (let mixed = XorByShifted30 (d ! ((i - 1) mod NumStateWords))
      in d[i mod NumStateWords := d ! (i mod NumStateWords) XOR (mixed * ParamMult + of_nat i)])"

definition TinyMT_Initialize :: "u32 \<Rightarrow> tiny_state" where
  "TinyMT_Initialize seed =
     FinalizeInitialization
       (fold seed_step [1..<MinimumInitIterations] [seed, ParamMat1, ParamMat2, ParamTmat])"

text \<open>\<open>Initialize(const u32* seed, int seed_count)\<close>.\<close>

definition TinyMT_Initialize_array :: "u32 list \<Rightarrow> tiny_state" where
  "TinyMT_Initialize_array seed =
     (let seed_count = length seed;
          num_init_iterations = max (seed_count + 1) MinimumInitIterations - 1;
          d0 = GenerateInitialValuePlus 0 (of_nat seed_count) [0, ParamMat1, ParamMat2, ParamTmat];
          d1 = fold (\<lambda>i. GenerateInitialValuePlus ((i + 1) mod NumStateWords)
                           (if i < seed_count then seed ! i else 0))
                 [0..<num_init_iterations] d0;
          d2 = fold (\<lambda>i. GenerateInitialValueXor ((i + 1 + num_init_iterations) mod NumStateWords))
                 [0..<NumStateWords] d1
      in FinalizeInitialization d2)"

section \<open>The zero state is never entered\<close>

text \<open>The generator ignores the top bit of the first word, so "zero" is taken modulo it.\<close>

definition zero_state :: "tiny_state \<Rightarrow> bool" where
  "zero_state d \<longleftrightarrow> d ! 0 AND TopBitmask = 0 \<and> d ! 1 = 0 \<and> d ! 2 = 0 \<and> d ! 3 = 0"

lemma xor_push_bit_1_eq_0:
  fixes x :: "'a::len word"
  assumes "x XOR push_bit 1 x = 0"
  shows "x = 0"
proof -
  have eq: "x = push_bit 1 x"
    using assms by (rule xor_eq_zeroD)
  have "\<not> bit x n" if "n < LENGTH('a)" for n
    using that
  proof (induction n)
    case 0
    show ?case by (metis eq bit_push_bit_iff not_one_le_zero)
  next
    case (Suc n)
    then show ?case by (metis Suc_lessD diff_Suc_1 eq bit_push_bit_iff)
  qed
  then show ?thesis
    by (auto simp: bit_eq_iff dest: bit_imp_le_length)
qed

lemma xor_drop_bit_1_eq_0:
  fixes x :: "'a::len word"
  assumes "x XOR drop_bit 1 x = 0"
  shows "x = 0"
proof -
  have eq: "x = drop_bit 1 x"
    using assms by (rule xor_eq_zeroD)
  have step: "bit x n = bit x (Suc n)" for n
    by (subst (1) eq) (simp add: bit_simps)
  have "bit x n = bit x (n + k)" for n k
    by (induction k) (simp_all flip: step)
  then have "bit x n = bit x (n + LENGTH('a))" for n .
  then have "\<not> bit x n" for n
    using bit_imp_le_length [of x "n + LENGTH('a)"] by auto
  then show ?thesis
    by (simp add: bit_eq_iff)
qed

lemma length_advance_state [simp]: "length (advance_state d) = 4"
  by (simp add: advance_state_def Let_def)

lemma zero_state_advanceD:
  assumes zero: "zero_state (advance_state d)"
  shows "zero_state d"
proof -
  define x0 where "x0 = (d ! 0 AND TopBitmask) XOR d ! 1 XOR d ! 2"
  define x1 where "x1 = x0 XOR push_bit 1 x0"
  define y1 where "y1 = d ! 3 XOR drop_bit 1 (d ! 3) XOR x1"
  have eq: "advance_state d =
      [d ! 1,
       if y1 AND 1 \<noteq> 0 then d ! 2 XOR ParamMat1 else d ! 2,
       if y1 AND 1 \<noteq> 0 then (x1 XOR push_bit 10 y1) XOR ParamMat2 else x1 XOR push_bit 10 y1,
       y1]"
    unfolding advance_state_def Let_def x0_def x1_def y1_def by (rule refl)
  from zero have y1: "y1 = 0" and d1: "d ! 1 AND TopBitmask = 0"
    by (simp_all add: zero_state_def eq)
  from zero have d2: "d ! 2 = 0" and x1: "x1 = 0"
    by (simp_all add: zero_state_def eq y1)
  then have "x0 = 0"
    using xor_push_bit_1_eq_0 by (auto simp: x1_def)
  then have d01: "d ! 0 AND TopBitmask = d ! 1"
    using d2 by (auto simp: x0_def intro: xor_eq_zeroD)
  then have "d ! 1 = 0"
    using d1 by (metis and.assoc and.idem and.commute)
  moreover have "d ! 3 = 0"
    using y1 x1 xor_drop_bit_1_eq_0 by (simp add: y1_def)
  ultimately show ?thesis
    using d01 d2 by (simp add: zero_state_def)
qed

lemma advance_state_nonzero: "\<not> zero_state d \<Longrightarrow> \<not> zero_state (advance_state d)"
  using zero_state_advanceD by blast

lemma discard_nonzero: "\<not> zero_state d \<Longrightarrow> \<not> zero_state (discard n d)"
  by (induction n arbitrary: d) (simp_all add: GenerateRandomU32_def Let_def advance_state_nonzero)

lemma FinalizeInitialization_nonzero: "\<not> zero_state (FinalizeInitialization d)"
proof -
  have "\<not> zero_state [0x54, 0x49, 0x4E, 0x59]"
    by (simp add: zero_state_def)
  then show ?thesis
    unfolding FinalizeInitialization_def Let_def zero_state_def [symmetric]
    by (simp add: discard_nonzero)
qed

text \<open>
  C28. However it is seeded (from one word or from an array of words), the generator is never
  in the degenerate all-zero state, whatever number of outputs is drawn from it.
\<close>

theorem TinyMT_never_zero:
  "\<not> zero_state (discard n (TinyMT_Initialize seed)) \<and>
   \<not> zero_state (discard n (TinyMT_Initialize_array seeds))"
  by (auto simp: TinyMT_Initialize_def TinyMT_Initialize_array_def Let_def
      intro!: discard_nonzero FinalizeInitialization_nonzero)

end
