(* ===== verification/KPageBitmap.thy ===== *)
theory KPageBitmap
  imports TinyMT
begin

text \<open>
  The hierarchical free-page bitmap: \<^verbatim>\<open>src/src/core/hle/kernel/k_page_bitmap.h\<close>, with its
  random bit generator. Level \<open>d\<close> is the array \<open>m_bit_storages ! d\<close>; a bit of level \<open>d\<close>
  says whether a word of level \<open>d + 1\<close> is non-zero, and the last level holds one bit per
  block. In the source every level is a pointer into one storage array; here the levels are
  separate lists, and an access past a level's end is a fault. Storage indices and depths
  are natural numbers (they are bounded by the array sizes); the counters are 64-bit words.

  Shifts by the full width of a word are undefined in C++ and are faults here.
\<close>

section \<open>RandomBitGenerator\<close>

record RandomBitGenerator =
  m_rng :: tiny_state
  m_entropy :: u32
  m_bits_available :: u32

definition RandomBitGenerator_ctor :: "u64 \<Rightarrow> RandomBitGenerator" where
  "RandomBitGenerator_ctor random_u64 =
     \<lparr>m_rng = TinyMT_Initialize (ucast random_u64), m_entropy = 0, m_bits_available = 0\<rparr>"

definition RefreshEntropy :: "RandomBitGenerator \<Rightarrow> RandomBitGenerator" where
  "RefreshEntropy g =
     (let (r, d) = GenerateRandomU32 (m_rng g)
      in g\<lparr>m_rng := d, m_entropy := r, m_bits_available := 32\<rparr>)"

definition GenerateRandomBit :: "RandomBitGenerator \<Rightarrow> bool \<times> RandomBitGenerator" where
  "GenerateRandomBit g =
     (let g1 = (if m_bits_available g = 0 then RefreshEntropy g else g)
      in (m_entropy g1 AND 1 \<noteq> 0,
          g1\<lparr>m_entropy := drop_bit 1 (m_entropy g1),
             m_bits_available := m_bits_available g1 - 1\<rparr>))"

fun select_random_bit_loop ::
    "nat \<Rightarrow> u64 \<Rightarrow> nat \<Rightarrow> RandomBitGenerator \<Rightarrow> nat \<times> RandomBitGenerator" where
  "select_random_bit_loop cur_num_bits bitmap selected g =
     (if cur_num_bits = 0 then (selected, g)
      else
        let high = drop_bit cur_num_bits bitmap;
            low = bitmap AND NOT (push_bit cur_num_bits 0xFFFFFFFFFFFFFFFF);
            (choose_high, g1) =
              (if high \<noteq> 0 then (if low = 0 then (True, g) else GenerateRandomBit g) else (False, g))
        in if choose_high
           then select_random_bit_loop (cur_num_bits div 2) high (selected + cur_num_bits) g1
           else select_random_bit_loop (cur_num_bits div 2) low selected g1)"

declare select_random_bit_loop.simps [simp del]

definition SelectRandomBit :: "u64 \<Rightarrow> RandomBitGenerator \<Rightarrow> nat \<times> RandomBitGenerator" where
  "SelectRandomBit bitmap g = select_random_bit_loop (64 div 2) bitmap 0 g"

text \<open>The loop of \<open>GenerateRandomBits\<close>; \<open>m_entropy >>= 32\<close> would be undefined.\<close>

function generate_random_bits_loop ::
    "nat \<Rightarrow> u64 \<Rightarrow> RandomBitGenerator \<Rightarrow> (u64 \<times> RandomBitGenerator) option" where
  "generate_random_bits_loop num_bits result g =
     (if num_bits = 0 then Some (result, g)
      else
        let g1 = (if m_bits_available g = 0 then RefreshEntropy g else g);
            cur_bits = min num_bits (unat (m_bits_available g1));
            msk = push_bit cur_bits 1 - 1;
            result1 = push_bit cur_bits result OR (ucast (m_entropy g1) AND msk)
        in if cur_bits \<ge> 32 then None
           else generate_random_bits_loop (num_bits - cur_bits) result1
                  (g1\<lparr>m_entropy := drop_bit cur_bits (m_entropy g1),
                      m_bits_available := m_bits_available g1 - of_nat cur_bits\<rparr>))"
  by pat_completeness auto
termination
proof (relation "measure (\<lambda>(n, r, g). n)", simp)
  fix n and r :: u64 and g g1 cur_bits msk result1
  assume "n \<noteq> (0::nat)"
    and g1: "g1 = (if m_bits_available g = 0 then RefreshEntropy g else g)"
    and cur: "cur_bits = min n (unat (m_bits_available g1))"
  have "m_bits_available g1 \<noteq> 0"
    by (auto simp: g1 RefreshEntropy_def split: prod.splits)
  then have "0 < cur_bits"
    using \<open>n \<noteq> 0\<close> by (simp add: cur unat_gt_0)
  then show "((n - cur_bits, result1, g1\<lparr>m_entropy := drop_bit cur_bits (m_entropy g1),
      m_bits_available := m_bits_available g1 - of_nat cur_bits\<rparr>), n, r, g)
      \<in> measure (\<lambda>(n, r, g). n)"
    using \<open>n \<noteq> 0\<close> by simp
qed

declare generate_random_bits_loop.simps [simp del]

definition GenerateRandomBits :: "nat \<Rightarrow> RandomBitGenerator \<Rightarrow> (u64 \<times> RandomBitGenerator) option" where
  "GenerateRandomBits num_bits g = generate_random_bits_loop num_bits 0 g"

definition GenerateRandom :: "u64 \<Rightarrow> RandomBitGenerator \<Rightarrow> (u64 \<times> RandomBitGenerator) option" where
  "GenerateRandom mx g =
     do {
       let bits_needed = 1 + (64 - countl_zero mx);
       (rnd, g1) \<leftarrow> GenerateRandomBits bits_needed g;
       ASSERT (mx \<noteq> 0);
       Some (rnd - (rnd div mx) * mx, g1)
     }"

section \<open>KPageBitmap\<close>

record KPageBitmap =
  m_bit_storages :: "u64 list list"
  m_bitmap_rng :: RandomBitGenerator
  m_num_bits :: u64
  m_used_depths :: nat

definition MaxDepth :: nat where "MaxDepth = 4"

fun GetRequiredDepth :: "nat \<Rightarrow> nat" where
  "GetRequiredDepth region_size =
     (if region_size div 64 = 0 then 1 else Suc (GetRequiredDepth (region_size div 64)))"

declare GetRequiredDepth.simps [simp del]

definition words_for :: "nat \<Rightarrow> nat" where
  "words_for n = (if n mod 64 = 0 then n - n mod 64 else n - n mod 64 + 64) div 64"

fun carve_storages :: "nat \<Rightarrow> nat \<Rightarrow> u64 list \<Rightarrow> u64 list list \<Rightarrow> u64 list list \<times> u64 list" where
  "carve_storages 0 sz storage levels = (levels, storage)"
| "carve_storages (Suc depth) sz storage levels =
     (let sz' = words_for sz
      in carve_storages depth sz' (drop sz' storage) (take sz' storage # levels))"

text \<open>\<open>Initialize\<close> takes the storage it is given and returns the bitmap and the storage left.\<close>

definition KPageBitmap_Initialize ::
    "u64 list \<Rightarrow> nat \<Rightarrow> KPageBitmap \<Rightarrow> (KPageBitmap \<times> u64 list) option" where
  "KPageBitmap_Initialize storage sz bm =
     do {
       let used = GetRequiredDepth sz;
       ASSERT (used \<le> MaxDepth);
       let (levels, rest) = carve_storages used sz storage [];
       Some (bm\<lparr>m_num_bits := 0, m_used_depths := used, m_bit_storages := levels\<rparr>, rest)
     }"

fun overhead_loop :: "nat \<Rightarrow> nat \<Rightarrow> nat \<Rightarrow> nat" where
  "overhead_loop 0 region_size overhead_bits = overhead_bits"
| "overhead_loop (Suc depth) region_size overhead_bits =
     (let r = words_for region_size in overhead_loop depth r (overhead_bits + r))"

definition KPageBitmap_CalculateManagementOverheadSize :: "nat \<Rightarrow> nat" where
  "KPageBitmap_CalculateManagementOverheadSize region_size =
     overhead_loop (GetRequiredDepth region_size) region_size 0 * 8"

subsection \<open>Searching\<close>

fun find_free_block_loop ::
    "(u64 \<Rightarrow> RandomBitGenerator \<Rightarrow> nat \<times> RandomBitGenerator) \<Rightarrow> nat \<Rightarrow> u64 list list \<Rightarrow> nat \<Rightarrow>
     RandomBitGenerator \<Rightarrow> (int \<times> RandomBitGenerator) option" where
  "find_free_block_loop select depth [] offset g = Some (int offset, g)"
| "find_free_block_loop select depth (storage # storages) offset g =
     do {
       v \<leftarrow> array_get storage offset;
       if v = 0 then do { ASSERT (depth = 0); Some (-1, g) }
       else
         let (b, g1) = select v g
         in find_free_block_loop select (Suc depth) storages (offset * 64 + b) g1
     }"

definition FindFreeBlock :: "bool \<Rightarrow> KPageBitmap \<Rightarrow> (int \<times> KPageBitmap) option" where
  "FindFreeBlock random bm =
     do {
       (r, g) \<leftarrow> find_free_block_loop
                   (if random then SelectRandomBit else (\<lambda>v g. (countr_zero v, g)))
                   0 (m_bit_storages bm) 0 (m_bitmap_rng bm);
       Some (r, bm\<lparr>m_bitmap_rng := g\<rparr>)
     }"

text \<open>The two nested loops of \<open>FindFreeRange\<close>: the options of one word, then the words.\<close>

fun range_options_loop ::
    "nat \<Rightarrow> nat \<Rightarrow> nat \<Rightarrow> nat \<Rightarrow> u64 \<Rightarrow> nat \<times> int \<times> RandomBitGenerator \<Rightarrow>
     (nat \<times> int \<times> RandomBitGenerator) option" where
  "range_options_loop 0 count storage_index option_ind storage acc = Some acc"
| "range_options_loop (Suc n) count storage_index option_ind storage (num_valid, chosen, g) =
     do {
       let free_mask = push_bit count 1 - 1;
       acc \<leftarrow> (if storage AND free_mask = free_mask then
                 do {
                   let num_valid' = Suc num_valid;
                   let here = int (storage_index * 64 + option_ind * count);
                   if num_valid' = 1 then Some (num_valid', here, g)
                   else
                     do {
                       (r, g1) \<leftarrow> GenerateRandom (of_nat num_valid') g;
                       Some (num_valid', if r = 0 then here else chosen, g1)
                     }
                 }
               else Some (num_valid, chosen, g));
       range_options_loop n count storage_index (Suc option_ind) (drop_bit count storage) acc
     }"

fun range_words_loop ::
    "nat \<Rightarrow> nat \<Rightarrow> nat \<Rightarrow> u64 list \<Rightarrow> nat \<times> int \<times> RandomBitGenerator \<Rightarrow>
     (nat \<times> int \<times> RandomBitGenerator) option" where
  "range_words_loop options count storage_index [] acc = Some acc"
| "range_words_loop options count storage_index (w # ws) acc =
     do {
       acc' \<leftarrow> range_options_loop options count storage_index 0 w acc;
       range_words_loop options count (Suc storage_index) ws acc'
     }"

definition FindFreeRange :: "nat \<Rightarrow> KPageBitmap \<Rightarrow> (int \<times> KPageBitmap) option" where
  "FindFreeRange count bm =
     do {
       storage \<leftarrow> array_get (m_bit_storages bm) (m_used_depths bm - 1);
       if \<not> (0 < length storage \<and> count \<le> 64) then Some (-1, bm)
       else
         do {
           ASSERT (count \<noteq> 0);
           let options_per_storage = max (64 div count) 1;
           ASSERT (count < 64);
           (_, chosen, g) \<leftarrow>
             range_words_loop options_per_storage count 0 storage (0, -1, m_bitmap_rng bm);
           Some (chosen, bm\<lparr>m_bitmap_rng := g\<rparr>)
         }
     }"

subsection \<open>Setting and clearing\<close>

text \<open>The first argument is \<open>depth + 1\<close>: the loops run while \<open>depth >= 0\<close>.\<close>

fun SetBit_from :: "nat \<Rightarrow> nat \<Rightarrow> u64 list list \<Rightarrow> u64 list list option" where
  "SetBit_from 0 offset levels = Some levels"
| "SetBit_from (Suc depth) offset levels =
     do {
       let ind = offset div 64;
       let msk = push_bit (offset mod 64) 1;
       row \<leftarrow> array_get levels depth;
       v \<leftarrow> array_get row ind;
       ASSERT (v AND msk = 0);
       let levels' = levels[depth := row[ind := v OR msk]];
       if v \<noteq> 0 then Some levels' else SetBit_from depth ind levels'
     }"

fun ClearBit_from :: "nat \<Rightarrow> nat \<Rightarrow> u64 list list \<Rightarrow> u64 list list option" where
  "ClearBit_from 0 offset levels = Some levels"
| "ClearBit_from (Suc depth) offset levels =
     do {
       let ind = offset div 64;
       let msk = push_bit (offset mod 64) 1;
       row \<leftarrow> array_get levels depth;
       v \<leftarrow> array_get row ind;
       ASSERT (v AND msk \<noteq> 0);
       let v' = v AND NOT msk;
       let levels' = levels[depth := row[ind := v']];
       if v' \<noteq> 0 then Some levels' else ClearBit_from depth ind levels'
     }"

definition SetBit :: "nat \<Rightarrow> KPageBitmap \<Rightarrow> KPageBitmap option" where
  "SetBit offset bm =
     do {
       levels \<leftarrow> SetBit_from (m_used_depths bm) offset (m_bit_storages bm);
       Some (bm\<lparr>m_bit_storages := levels, m_num_bits := m_num_bits bm + 1\<rparr>)
     }"

definition ClearBit :: "nat \<Rightarrow> KPageBitmap \<Rightarrow> KPageBitmap option" where
  "ClearBit offset bm =
     do {
       levels \<leftarrow> ClearBit_from (m_used_depths bm) offset (m_bit_storages bm);
       Some (bm\<lparr>m_bit_storages := levels, m_num_bits := m_num_bits bm - 1\<rparr>)
     }"

text \<open>The two \<open>do ... while (remaining > 0)\<close> loops of \<open>ClearRange\<close>, on \<open>n\<close> whole words.\<close>

fun all_ones_loop :: "nat \<Rightarrow> nat \<Rightarrow> u64 list \<Rightarrow> bool option" where
  "all_ones_loop 0 i row = Some True"
| "all_ones_loop (Suc n) i row =
     do {
       v \<leftarrow> array_get row i;
       if v \<noteq> NOT 0 then Some False else all_ones_loop n (Suc i) row
     }"

fun clear_words_loop :: "nat \<Rightarrow> nat \<Rightarrow> nat \<Rightarrow> u64 list list \<Rightarrow> u64 list list option" where
  "clear_words_loop 0 depth i levels = Some levels"
| "clear_words_loop (Suc n) depth i levels =
     do {
       row \<leftarrow> array_get levels depth;
       row' \<leftarrow> array_set row i 0;
       levels' \<leftarrow> ClearBit_from depth i (levels[depth := row']);
       clear_words_loop n depth (Suc i) levels'
     }"

definition ClearRange :: "nat \<Rightarrow> nat \<Rightarrow> KPageBitmap \<Rightarrow> (bool \<times> KPageBitmap) option" where
  "ClearRange offset count bm =
     do {
       let depth = m_used_depths bm - 1;
       let levels = m_bit_storages bm;
       bits \<leftarrow> array_get levels depth;
       let bit_ind = offset div 64;
       if count < 64 then
         do {
           let shift = offset mod 64;
           ASSERT (shift + count \<le> 64);
           let msk = push_bit shift (push_bit count 1 - 1);
           v \<leftarrow> array_get bits bit_ind;
           if v AND msk \<noteq> msk then Some (False, bm)
           else
             do {
               let v' = v AND NOT msk;
               let levels' = levels[depth := bits[bit_ind := v']];
               levels'' \<leftarrow> (if v' = 0 then ClearBit_from depth bit_ind levels' else Some levels');
               Some (True, bm\<lparr>m_bit_storages := levels'',
                               m_num_bits := m_num_bits bm - of_nat count\<rparr>)
             }
         }
       else
         do {
           ASSERT (offset mod 64 = 0);
           ASSERT (count mod 64 = 0);
           ok \<leftarrow> all_ones_loop (count div 64) bit_ind bits;
           if \<not> ok then Some (False, bm)
           else
             do {
               levels' \<leftarrow> clear_words_loop (count div 64) depth bit_ind levels;
               Some (True, bm\<lparr>m_bit_storages := levels',
                               m_num_bits := m_num_bits bm - of_nat count\<rparr>)
             }
         }
     }"

section \<open>The invariant and the set of free blocks\<close>

definition level_bit :: "u64 list \<Rightarrow> nat \<Rightarrow> bool" where
  "level_bit row i \<longleftrightarrow> i div 64 < length row \<and> bit (row ! (i div 64)) (i mod 64)"

definition summarises :: "u64 list \<Rightarrow> u64 list \<Rightarrow> bool" where
  "summarises up lo \<longleftrightarrow> (\<forall>i. level_bit up i \<longleftrightarrow> i < length lo \<and> lo ! i \<noteq> 0)"

definition upto_ok :: "nat \<Rightarrow> u64 list list \<Rightarrow> bool" where
  "upto_ok d levels \<longleftrightarrow>
     (\<forall>e. Suc e \<le> d \<longrightarrow> summarises (levels ! e) (levels ! Suc e) \<and>
                       length (levels ! Suc e) \<le> 64 * length (levels ! e))"

definition levels_ok :: "u64 list list \<Rightarrow> bool" where
  "levels_ok levels \<longleftrightarrow>
     levels \<noteq> [] \<and> length (levels ! 0) = 1 \<and> upto_ok (length levels - 1) levels"

definition free_blocks :: "KPageBitmap \<Rightarrow> nat set" where
  "free_blocks bm = {i. level_bit (last (m_bit_storages bm)) i}"

definition capacity :: "KPageBitmap \<Rightarrow> nat" where
  "capacity bm = 64 * length (last (m_bit_storages bm))"

definition bitmap_ok :: "KPageBitmap \<Rightarrow> bool" where
  "bitmap_ok bm \<longleftrightarrow>
     levels_ok (m_bit_storages bm) \<and> m_used_depths bm = length (m_bit_storages bm) \<and>
     m_num_bits bm = of_nat (card (free_blocks bm))"

subsection \<open>Bits of one level\<close>

lemma bit_or_single: "j < 64 \<Longrightarrow> bit ((v :: u64) OR 2 ^ k) j \<longleftrightarrow> bit v j \<or> j = k"
  by (auto simp: bit_or_iff bit_exp_iff)

lemma bit_and_not_single:
  "j < 64 \<Longrightarrow> bit ((v :: u64) AND NOT (2 ^ k)) j \<longleftrightarrow> bit v j \<and> j \<noteq> k"
  by (auto simp: bit_and_iff bit_not_iff bit_exp_iff)

lemma and_single_eq_0_iff: "k < 64 \<Longrightarrow> (v :: u64) AND 2 ^ k = 0 \<longleftrightarrow> \<not> bit v k"
  by (auto simp: bit_eq_iff [of "v AND 2 ^ k" 0] bit_and_iff bit_exp_iff)

lemma or_single_neq_0: "k < 64 \<Longrightarrow> (v :: u64) OR 2 ^ k \<noteq> 0"
  using bit_or_single [of k v k] by fastforce

lemma div_mod_64_eq_iff: "(i :: nat) = j \<longleftrightarrow> i div 64 = j div 64 \<and> i mod 64 = j mod 64"
  by (metis div_mod_decomp)

lemma level_bit_less: "level_bit row i \<Longrightarrow> i < 64 * length row"
  by (auto simp: level_bit_def)

lemma finite_level_bit: "finite {i. level_bit row i}"
  by (rule finite_subset [of _ "{..<64 * length row}"]) (auto dest: level_bit_less)

lemma level_bit_set:
  assumes "off div 64 < length row"
  shows "level_bit (row[off div 64 := row ! (off div 64) OR 2 ^ (off mod 64)]) i \<longleftrightarrow>
         level_bit row i \<or> i = off"
  using assms div_mod_64_eq_iff [of i off]
  by (auto simp: level_bit_def nth_list_update bit_or_single)

lemma level_bit_clear:
  assumes "off div 64 < length row"
  shows "level_bit (row[off div 64 := row ! (off div 64) AND NOT (2 ^ (off mod 64))]) i \<longleftrightarrow>
         level_bit row i \<and> i \<noteq> off"
  using assms div_mod_64_eq_iff [of i off]
  by (auto simp: level_bit_def nth_list_update bit_and_not_single)

lemma summarises_update:
  "summarises up row \<Longrightarrow> row ! ind \<noteq> 0 \<Longrightarrow> v \<noteq> 0 \<Longrightarrow> summarises up (row[ind := v])"
  unfolding summarises_def
  by (metis length_list_update nth_list_update_eq nth_list_update_neq)

lemma summarises_set:
  "summarises up row \<Longrightarrow> ind < length row \<Longrightarrow> v \<noteq> 0 \<Longrightarrow>
   level_bit up i \<or> i = ind \<longleftrightarrow> i < length (row[ind := v]) \<and> row[ind := v] ! i \<noteq> 0"
  by (auto simp: summarises_def nth_list_update)

lemma summarises_reset:
  "summarises up row \<Longrightarrow> ind < length row \<Longrightarrow>
   level_bit up i \<and> i \<noteq> ind \<longleftrightarrow> i < length (row[ind := 0]) \<and> row[ind := 0] ! i \<noteq> 0"
  by (auto simp: summarises_def nth_list_update)

subsection \<open>Setting and clearing one bit through the levels\<close>

lemma upto_ok_D:
  "upto_ok d levels \<Longrightarrow> Suc e \<le> d \<Longrightarrow> summarises (levels ! e) (levels ! Suc e)"
  "upto_ok d levels \<Longrightarrow> Suc e \<le> d \<Longrightarrow> length (levels ! Suc e) \<le> 64 * length (levels ! e)"
  by (auto simp: upto_ok_def)

lemma upto_ok_mono: "upto_ok d levels \<Longrightarrow> e \<le> d \<Longrightarrow> upto_ok e levels"
  by (auto simp: upto_ok_def)

lemma upto_ok_update_above: "upto_ok d levels \<Longrightarrow> upto_ok d (levels[Suc d := row])"
  by (auto simp: upto_ok_def nth_list_update)

lemma upto_ok_Suc:
  "upto_ok (Suc d) levels \<longleftrightarrow>
     upto_ok d levels \<and> summarises (levels ! d) (levels ! Suc d) \<and>
     length (levels ! Suc d) \<le> 64 * length (levels ! d)"
  by (auto simp: upto_ok_def le_Suc_eq)

text \<open>What a call that starts at level \<open>d\<close> achieves: level \<open>d\<close> changes as \<open>f\<close> says, the levels
  below are untouched, the levels above are consistent again, and no level changes length.\<close>

definition level_change :: "nat \<Rightarrow> (nat \<Rightarrow> bool) \<Rightarrow> u64 list list \<Rightarrow> u64 list list \<Rightarrow> bool" where
  "level_change d f levels levels' \<longleftrightarrow>
     map length levels' = map length levels \<and>
     (\<forall>e. d < e \<longrightarrow> e < length levels \<longrightarrow> levels' ! e = levels ! e) \<and>
     (\<forall>i. level_bit (levels' ! d) i \<longleftrightarrow> f i) \<and> upto_ok d levels'"

lemma map_length_update:
  "d < length levels \<Longrightarrow> length row = length (levels ! d) \<Longrightarrow>
   map length (levels[d := row]) = map length levels"
  by (simp add: map_update list_update_same_conv)

lemma level_change_trivial:
  assumes "d < length levels" "length row = length (levels ! d)" "upto_ok d (levels[d := row])"
    and "\<And>i. level_bit row i \<longleftrightarrow> f i"
  shows "level_change d f levels (levels[d := row])"
  using assms by (auto simp: level_change_def map_length_update)

lemma level_change_above:
  assumes "level_change d f (levels[Suc d := row]) levels'"
    and "Suc d < length levels" "length row = length (levels ! Suc d)"
    and "\<And>i. f i \<longleftrightarrow> i < length row \<and> row ! i \<noteq> 0" "\<And>i. level_bit row i \<longleftrightarrow> h i"
    and "length row \<le> 64 * length (levels ! d)"
  shows "level_change (Suc d) h levels levels'"
proof -
  from assms(1-3) have shape: "map length levels' = map length levels"
    by (simp add: level_change_def map_length_update)
  have len: "length (levels' ! e) = length (levels ! e)" if "e < length levels" for e
    using shape that by (metis length_map nth_map)
  from assms(1,2) have row: "levels' ! Suc d = row"
    by (simp add: level_change_def)
  have "summarises (levels' ! d) row"
    using assms(1,4) by (auto simp: level_change_def summarises_def)
  then have "upto_ok (Suc d) levels'"
    using assms(1,2,6) len [of d] by (simp add: upto_ok_Suc row level_change_def)
  then show ?thesis
    using assms(1,5) shape by (auto simp: level_change_def row)
qed

lemma SetBit_from_ok:
  assumes "d < length levels" "off < 64 * length (levels ! d)" "\<not> level_bit (levels ! d) off"
    and "upto_ok d levels"
  shows "\<exists>levels'. SetBit_from (Suc d) off levels = Some levels' \<and>
           level_change d (\<lambda>i. level_bit (levels ! d) i \<or> i = off) levels levels'"
  using assms
proof (induction d arbitrary: off levels)
  case 0
  let ?row = "levels ! 0" and ?k = "off mod 64" and ?ind = "off div 64"
  from 0 have ind: "?ind < length ?row" by auto
  with 0 have "SetBit_from (Suc 0) off levels = Some (levels[0 := ?row[?ind := ?row ! ?ind OR 2 ^ ?k]])"
    by (auto simp: level_bit_def and_single_eq_0_iff Let_def)
  moreover have "level_change 0 (\<lambda>i. level_bit ?row i \<or> i = off) levels
      (levels[0 := ?row[?ind := ?row ! ?ind OR 2 ^ ?k]])"
    using 0 ind by (intro level_change_trivial level_bit_set) (auto simp: upto_ok_def)
  ultimately show ?case by blast
next
  case (Suc d)
  let ?row = "levels ! Suc d" and ?k = "off mod 64" and ?ind = "off div 64"
  let ?row' = "?row[?ind := ?row ! ?ind OR 2 ^ ?k]"
  from Suc.prems have ind: "?ind < length ?row" by auto
  have bits: "level_bit ?row' i \<longleftrightarrow> level_bit ?row i \<or> i = off" for i
    using ind by (rule level_bit_set)
  from Suc.prems(4) have ok: "upto_ok d levels" and sm: "summarises (levels ! d) ?row"
    and len: "length ?row \<le> 64 * length (levels ! d)"
    by (simp_all add: upto_ok_Suc)
  have neq: "?row ! ?ind OR 2 ^ ?k \<noteq> 0"
    by (simp add: or_single_neq_0)
  show ?case
  proof (cases "?row ! ?ind = 0")
    case False
    then have "summarises (levels ! d) ?row'"
      by (rule summarises_update [OF sm _ neq])
    then have "upto_ok (Suc d) (levels[Suc d := ?row'])"
      using Suc.prems(1) len upto_ok_update_above [OF ok] by (simp add: upto_ok_Suc)
    then have "level_change (Suc d) (\<lambda>i. level_bit ?row i \<or> i = off) levels (levels[Suc d := ?row'])"
      using Suc.prems(1) bits by (intro level_change_trivial) auto
    moreover have "SetBit_from (Suc (Suc d)) off levels = Some (levels[Suc d := ?row'])"
      using False Suc.prems(1,3) ind by (simp add: level_bit_def and_single_eq_0_iff Let_def)
    ultimately show ?thesis by blast
  next
    case True
    then have "\<not> level_bit (levels ! d) ?ind"
      using sm by (simp add: summarises_def)
    then obtain levels' where l': "SetBit_from (Suc d) ?ind (levels[Suc d := ?row']) = Some levels'"
      and ch: "level_change d (\<lambda>i. level_bit (levels ! d) i \<or> i = ?ind) (levels[Suc d := ?row']) levels'"
      using Suc.IH [of "levels[Suc d := ?row']" ?ind] Suc.prems(1) ind len upto_ok_update_above [OF ok]
      by auto
    have "level_change (Suc d) (\<lambda>i. level_bit ?row i \<or> i = off) levels levels'"
    proof (rule level_change_above [OF ch])
      show "level_bit (levels ! d) i \<or> i = ?ind \<longleftrightarrow> i < length ?row' \<and> ?row' ! i \<noteq> 0" for i
        using sm ind neq by (rule summarises_set)
    qed (use Suc.prems(1) bits len in auto)
    moreover have "SetBit_from (Suc (Suc d)) off levels = Some levels'"
      using True Suc.prems(1,3) ind l' by (simp add: level_bit_def and_single_eq_0_iff Let_def)
    ultimately show ?thesis by blast
  qed
qed

lemma ClearBit_from_ok:
  assumes "d < length levels" "level_bit (levels ! d) off" "upto_ok d levels"
  shows "\<exists>levels'. ClearBit_from (Suc d) off levels = Some levels' \<and>
           level_change d (\<lambda>i. level_bit (levels ! d) i \<and> i \<noteq> off) levels levels'"
  using assms
proof (induction d arbitrary: off levels)
  case 0
  let ?row = "levels ! 0" and ?k = "off mod 64" and ?ind = "off div 64"
  from 0 have ind: "?ind < length ?row" and "bit (?row ! ?ind) ?k" by (auto simp: level_bit_def)
  with 0 have "ClearBit_from (Suc 0) off levels =
      Some (levels[0 := ?row[?ind := ?row ! ?ind AND NOT (2 ^ ?k)]])"
    by (auto simp: and_single_eq_0_iff Let_def)
  moreover have "level_change 0 (\<lambda>i. level_bit ?row i \<and> i \<noteq> off) levels
      (levels[0 := ?row[?ind := ?row ! ?ind AND NOT (2 ^ ?k)]])"
    using 0 ind by (intro level_change_trivial level_bit_clear) (auto simp: upto_ok_def)
  ultimately show ?case by blast
next
  case (Suc d)
  let ?row = "levels ! Suc d" and ?k = "off mod 64" and ?ind = "off div 64"
  let ?v' = "?row ! ?ind AND NOT (2 ^ ?k)"
  let ?row' = "?row[?ind := ?v']"
  from Suc.prems have ind: "?ind < length ?row" and b: "bit (?row ! ?ind) ?k"
    by (auto simp: level_bit_def)
  then have nz: "?row ! ?ind \<noteq> 0" by auto
  have bits: "level_bit ?row' i \<longleftrightarrow> level_bit ?row i \<and> i \<noteq> off" for i
    using ind by (rule level_bit_clear)
  from Suc.prems(3) have ok: "upto_ok d levels" and sm: "summarises (levels ! d) ?row"
    and len: "length ?row \<le> 64 * length (levels ! d)"
    by (simp_all add: upto_ok_Suc)
  show ?case
  proof (cases "?v' = 0")
    case False
    then have "summarises (levels ! d) ?row'"
      by (rule summarises_update [OF sm nz])
    then have "upto_ok (Suc d) (levels[Suc d := ?row'])"
      using Suc.prems(1) len upto_ok_update_above [OF ok] by (simp add: upto_ok_Suc)
    then have "level_change (Suc d) (\<lambda>i. level_bit ?row i \<and> i \<noteq> off) levels (levels[Suc d := ?row'])"
      using Suc.prems(1) bits by (intro level_change_trivial) auto
    moreover have "ClearBit_from (Suc (Suc d)) off levels = Some (levels[Suc d := ?row'])"
      using False Suc.prems(1) ind b by (simp add: and_single_eq_0_iff Let_def)
    ultimately show ?thesis by blast
  next
    case True
    have "level_bit (levels ! d) ?ind"
      using sm nz ind by (simp add: summarises_def)
    then obtain levels' where l': "ClearBit_from (Suc d) ?ind (levels[Suc d := ?row']) = Some levels'"
      and ch: "level_change d (\<lambda>i. level_bit (levels ! d) i \<and> i \<noteq> ?ind) (levels[Suc d := ?row']) levels'"
      using Suc.IH [of "levels[Suc d := ?row']" ?ind] Suc.prems(1) upto_ok_update_above [OF ok]
      by auto
    have "level_change (Suc d) (\<lambda>i. level_bit ?row i \<and> i \<noteq> off) levels levels'"
    proof (rule level_change_above [OF ch])
      show "level_bit (levels ! d) i \<and> i \<noteq> ?ind \<longleftrightarrow> i < length ?row' \<and> ?row' ! i \<noteq> 0" for i
        unfolding True using sm ind by (rule summarises_reset)
    qed (use Suc.prems(1) bits len in auto)
    moreover have "ClearBit_from (Suc (Suc d)) off levels = Some levels'"
      using True Suc.prems(1) ind b l' by (simp add: and_single_eq_0_iff Let_def)
    ultimately show ?thesis by blast
  qed
qed

subsection \<open>Consequences at the last level\<close>

lemma level_change_last:
  assumes "levels_ok levels" "level_change (length levels - 1) f levels levels'"
  shows "levels_ok levels'" "{i. level_bit (last levels') i} = Collect f"
    "length (last levels') = length (last levels)" "length levels' = length levels"
proof -
  from assms(2) have shape: "map length levels' = map length levels"
    by (simp add: level_change_def)
  then show len: "length levels' = length levels"
    by (metis length_map)
  from assms(1) have ne: "levels \<noteq> []"
    by (simp add: levels_ok_def)
  with len have ne': "levels' \<noteq> []" by auto
  have lens: "length (levels' ! e) = length (levels ! e)" if "e < length levels" for e
    using shape that len by (metis nth_map)
  show "length (last levels') = length (last levels)"
    using ne ne' len lens by (simp add: last_conv_nth)
  show "levels_ok levels'"
    using assms ne ne' len lens [of 0] by (simp add: levels_ok_def level_change_def)
  show "{i. level_bit (last levels') i} = Collect f"
    using assms(2) ne' len by (auto simp: level_change_def last_conv_nth)
qed

lemma levels_ok_last:
  "levels_ok levels \<Longrightarrow> levels ! (length levels - 1) = last levels"
  "levels_ok levels \<Longrightarrow> length levels - 1 < length levels"
  "levels_ok levels \<Longrightarrow> upto_ok (length levels - 1) levels"
  by (auto simp: levels_ok_def last_conv_nth)

lemma bitmap_okI:
  assumes "bitmap_ok bm" "level_change (length (m_bit_storages bm) - 1) f (m_bit_storages bm) levels"
    and "n = of_nat (card (Collect f))"
  shows "bitmap_ok (bm\<lparr>m_bit_storages := levels, m_num_bits := n\<rparr>)"
    and "free_blocks (bm\<lparr>m_bit_storages := levels, m_num_bits := n\<rparr>) = Collect f"
    and "capacity (bm\<lparr>m_bit_storages := levels, m_num_bits := n\<rparr>) = capacity bm"
  using level_change_last [OF _ assms(2)] assms(1,3)
  by (auto simp: bitmap_ok_def free_blocks_def capacity_def)

lemma finite_free_blocks [simp]: "finite (free_blocks bm)"
  by (simp add: free_blocks_def finite_level_bit)

lemma SetBit_ok:
  assumes "bitmap_ok bm" "offset < capacity bm" "offset \<notin> free_blocks bm"
  shows "\<exists>bm'. SetBit offset bm = Some bm' \<and> bitmap_ok bm' \<and>
           free_blocks bm' = insert offset (free_blocks bm) \<and> capacity bm' = capacity bm"
proof -
  let ?ls = "m_bit_storages bm" and ?d = "length (m_bit_storages bm) - 1"
  let ?f = "\<lambda>i. level_bit (last ?ls) i \<or> i = offset"
  from assms(1) have ok: "levels_ok ?ls" and used: "m_used_depths bm = Suc ?d"
    by (auto simp: bitmap_ok_def levels_ok_def)
  obtain levels where set: "SetBit_from (Suc ?d) offset ?ls = Some levels"
    and ch: "level_change ?d ?f ?ls levels"
    using SetBit_from_ok [of ?d ?ls offset] levels_ok_last [OF ok] assms(2,3)
    by (auto simp: capacity_def free_blocks_def)
  have f: "Collect ?f = insert offset (free_blocks bm)"
    by (auto simp: free_blocks_def)
  have "m_num_bits bm + 1 = of_nat (card (Collect ?f))"
    using assms(1,3) by (simp add: f bitmap_ok_def)
  note bitmap_okI [OF assms(1) ch this]
  then show ?thesis
    using set used f by (auto simp: SetBit_def)
qed

lemma ClearBit_ok:
  assumes "bitmap_ok bm" "offset \<in> free_blocks bm"
  shows "\<exists>bm'. ClearBit offset bm = Some bm' \<and> bitmap_ok bm' \<and>
           free_blocks bm' = free_blocks bm - {offset} \<and> capacity bm' = capacity bm"
proof -
  let ?ls = "m_bit_storages bm" and ?d = "length (m_bit_storages bm) - 1"
  let ?f = "\<lambda>i. level_bit (last ?ls) i \<and> i \<noteq> offset"
  from assms(1) have ok: "levels_ok ?ls" and used: "m_used_depths bm = Suc ?d"
    by (auto simp: bitmap_ok_def levels_ok_def)
  obtain levels where set: "ClearBit_from (Suc ?d) offset ?ls = Some levels"
    and ch: "level_change ?d ?f ?ls levels"
    using ClearBit_from_ok [of ?d ?ls offset] levels_ok_last [OF ok] assms(2)
    by (auto simp: free_blocks_def)
  have f: "Collect ?f = free_blocks bm - {offset}"
    by (auto simp: free_blocks_def)
  have "0 < card (free_blocks bm)"
    using assms(2) by (auto simp: card_gt_0_iff)
  then have "m_num_bits bm - 1 = of_nat (card (Collect ?f))"
    using assms by (simp add: f bitmap_ok_def of_nat_diff)
  note bitmap_okI [OF assms(1) ch this]
  then show ?thesis
    using set used f by (auto simp: ClearBit_def)
qed

subsection \<open>Selecting a bit\<close>

lemma bit_low_half: "bit ((w :: u64) AND NOT (push_bit n 0xFFFFFFFFFFFFFFFF)) j \<longleftrightarrow> bit w j \<and> j < n"
proof -
  have ones: "(0xFFFFFFFFFFFFFFFF :: u64) = - 1" by simp
  show ?thesis
    unfolding ones by (auto simp: bit_and_iff bit_not_iff bit_push_bit_iff bit_mask_iff dest: bit_imp_le_length)
qed

lemma select_random_bit_loop_bit:
  assumes "bitmap \<noteq> 0" "\<And>j. bit bitmap j \<Longrightarrow> j < (if n = 0 then 1 else 2 * n)"
    and "n = 0 \<or> (\<exists>k. n = 2 ^ k)"
  shows "\<exists>b. fst (select_random_bit_loop n bitmap selected g) = selected + b \<and> bit bitmap b"
  using assms
proof (induction n bitmap selected g rule: select_random_bit_loop.induct)
  case (1 n bitmap selected g)
  show ?case
  proof (cases "n = 0")
    case True
    obtain j where "bit bitmap j"
      using "1.prems"(1) by (auto simp: bit_eq_iff)
    moreover from this have "j = 0"
      using "1.prems"(2) True by fastforce
    ultimately show ?thesis
      using True by (auto simp: select_random_bit_loop.simps)
  next
    case False
    let ?high = "drop_bit n bitmap" and ?low = "bitmap AND NOT (push_bit n 0xFFFFFFFFFFFFFFFF)"
    let ?ch = "if ?high \<noteq> 0 then (if ?low = 0 then (True, g) else GenerateRandomBit g) else (False, g)"
    obtain c g1 where ch: "?ch = (c, g1)" by fastforce
    from False "1.prems"(3) obtain k where k: "n = 2 ^ k" by auto
    then have half: "(if n div 2 = 0 then 1 else 2 * (n div 2)) = n"
      by (cases k) auto
    have half2: "n div 2 = 0 \<or> (\<exists>k. n div 2 = 2 ^ k)"
      using k by (cases k) auto
    have hb: "bit ?high j \<longleftrightarrow> bit bitmap (n + j)" for j
      by (simp add: bit_drop_bit_eq)
    have eq: "select_random_bit_loop n bitmap selected g =
        (if c then select_random_bit_loop (n div 2) ?high (selected + n) g1
         else select_random_bit_loop (n div 2) ?low selected g1)"
      unfolding select_random_bit_loop.simps [of n bitmap selected g] Let_def ch using False by simp
    show ?thesis
    proof (cases c)
      case True
      then have "?high \<noteq> 0" using ch by (auto split: if_splits)
      moreover have "j < n" if "bit ?high j" for j
        using "1.prems"(2) [of "n + j"] that False by (simp add: hb)
      ultimately obtain b where "fst (select_random_bit_loop (n div 2) ?high (selected + n) g1) = selected + n + b"
        "bit ?high b"
        using "1.IH"(1) [OF False refl refl ch [symmetric] refl True] half half2 by auto
      then show ?thesis
        using eq True by (intro exI [of _ "n + b"]) (simp add: hb)
    next
      case cF: False
      have "?low \<noteq> 0"
      proof
        assume low: "?low = 0"
        with ch cF have "?high = 0" by (auto split: if_splits)
        obtain j where j: "bit bitmap j"
          using "1.prems"(1) by (auto simp: bit_eq_iff)
        show False
        proof (cases "j < n")
          case True
          then show ?thesis using low j bit_low_half [of bitmap n j] by simp
        next
          case False
          then show ?thesis using \<open>?high = 0\<close> j hb [of "j - n"] by simp
        qed
      qed
      moreover have "j < n" if "bit ?low j" for j
        using that by (simp only: bit_low_half)
      ultimately obtain b where "fst (select_random_bit_loop (n div 2) ?low selected g1) = selected + b"
        "bit ?low b"
        using "1.IH"(2) [OF False refl refl ch [symmetric] refl cF] half half2 by auto
      then show ?thesis
        using eq cF bit_low_half [of bitmap n b] by auto
    qed
  qed
qed

lemma SelectRandomBit_bit: "v \<noteq> 0 \<Longrightarrow> bit v (fst (SelectRandomBit v g))"
  using select_random_bit_loop_bit [of v 32 0 g]
  by (force simp: SelectRandomBit_def dest: bit_imp_le_length intro: exI [of _ "5::nat"])

subsection \<open>Finding a free block\<close>

fun chain_ok :: "u64 list list \<Rightarrow> bool" where
  "chain_ok [] \<longleftrightarrow> True"
| "chain_ok [r] \<longleftrightarrow> True"
| "chain_ok (r # r' # rs) \<longleftrightarrow> summarises r r' \<and> chain_ok (r' # rs)"

lemma upto_ok_chain_ok: "upto_ok (length levels - 1) levels \<Longrightarrow> chain_ok levels"
proof (induction levels rule: chain_ok.induct)
  case (3 r r' rs)
  have "summarises r r'"
    using upto_ok_D(1) [OF "3.prems", of 0] by simp
  moreover have "upto_ok (length (r' # rs) - 1) (r' # rs)"
    using "3.prems" unfolding upto_ok_def by (metis Suc_le_mono diff_Suc_1 length_Cons nth_Cons_Suc)
  ultimately show ?case
    using "3.IH" by simp
qed simp_all

lemma div_pow_Suc: "j div 64 ^ Suc n = j div 64 ^ n div (64::nat)"
  by (metis div_mult2_eq power_Suc2)

lemma level_bit_ancestor:
  "chain_ok (st # sts) \<Longrightarrow> level_bit (last (st # sts)) j \<Longrightarrow> level_bit st (j div 64 ^ length sts)"
proof (induction sts arbitrary: st)
  case Nil
  then show ?case by simp
next
  case (Cons st' sts)
  then have "level_bit st' (j div 64 ^ length sts)" by simp
  then have lt: "j div 64 ^ length sts div 64 < length st'"
    and "st' ! (j div 64 ^ length sts div 64) \<noteq> 0"
    by (auto simp: level_bit_def)
  moreover have "j div 64 ^ length sts div 64 = j div 64 ^ length (st' # sts)"
    by (simp add: div_pow_Suc del: power_Suc)
  ultimately show ?case
    using Cons.prems(1) by (simp add: summarises_def del: power_Suc)
qed

lemma level_bit_word: "level_bit st (off * 64 + b) \<longleftrightarrow> off < length st \<and> bit (st ! off) b"
  if "b < 64" for b :: nat
  using that by (simp add: level_bit_def)

lemma find_free_block_loop_ok:
  assumes sel: "\<And>v g. v \<noteq> 0 \<Longrightarrow> bit v (fst (select v g))"
    and "chain_ok (st # sts)" "off < length st" "st ! off \<noteq> 0"
  shows "\<exists>r g'. find_free_block_loop select depth (st # sts) off g = Some (int r, g') \<and>
           level_bit (last (st # sts)) r \<and> r div 64 ^ length (st # sts) = off"
  using assms(2-)
proof (induction sts arbitrary: st off depth g)
  case Nil
  obtain b g1 where s: "select (st ! off) g = (b, g1)" by fastforce
  then have b: "bit (st ! off) b"
    using sel [OF Nil(3), of g] by simp
  then have "b < 64"
    using bit_imp_le_length [OF b] by simp
  with Nil s b show ?case
    by (intro exI [of _ "off * 64 + b"]) (simp add: level_bit_word)
next
  case (Cons st' sts)
  obtain b g1 where s: "select (st ! off) g = (b, g1)" by fastforce
  then have b: "bit (st ! off) b"
    using sel [OF Cons.prems(3), of g] by simp
  then have lt: "b < 64"
    using bit_imp_le_length [OF b] by simp
  with b Cons.prems have "level_bit st (off * 64 + b)"
    by (simp add: level_bit_word)
  with Cons.prems(1) have "off * 64 + b < length st'" "st' ! (off * 64 + b) \<noteq> 0" "chain_ok (st' # sts)"
    by (auto simp: summarises_def)
  from Cons.IH [OF this(3,1,2), of "Suc depth" g1] obtain r g' where
    r: "find_free_block_loop select (Suc depth) (st' # sts) (off * 64 + b) g1 = Some (int r, g')"
      "level_bit (last (st' # sts)) r" "r div 64 ^ length (st' # sts) = off * 64 + b"
    by blast
  have "r div 64 ^ length (st # st' # sts) = r div 64 ^ length (st' # sts) div 64"
    by (simp add: div_pow_Suc del: power_Suc)
  also have "\<dots> = off"
    using r(3) lt by simp
  finally show ?case
    using r(1,2) s Cons.prems(2,3) by auto
qed

lemma div_eq_less_imp_less: "(a::nat) div c < b div c \<Longrightarrow> a < b"
  by (meson div_le_mono leD leI)

lemma find_least_ok:
  assumes "chain_ok (st # sts)" "off < length st" "st ! off \<noteq> 0"
    and "find_free_block_loop (\<lambda>v g. (countr_zero v, g)) depth (st # sts) off g = Some (int r, g')"
    and "level_bit (last (st # sts)) j" "j div 64 ^ length (st # sts) = off"
  shows "r \<le> j"
  using assms
proof (induction sts arbitrary: st off depth)
  case Nil
  from Nil(3,4) have r: "r = off * 64 + countr_zero (st ! off)"
    using Nil(2) by simp
  from Nil(5,6) have "bit (st ! off) (j mod 64)" "j = off * 64 + j mod 64"
    by (auto simp: level_bit_def)
  then show ?case
    using countr_zero_le [OF Nil(3), of "j mod 64"] r by simp
next
  case (Cons st' sts)
  let ?q = "j div 64 ^ length (st' # sts)" and ?b = "countr_zero (st ! off)"
  have q64: "?q div 64 = off"
    using Cons.prems(6) by (simp add: div_pow_Suc del: power_Suc)
  have qbit: "level_bit st ?q"
    using level_bit_ancestor [OF Cons.prems(1,5)] by simp
  then have "bit (st ! off) (?q mod 64)"
    using q64 by (simp add: level_bit_def)
  then have le: "?b \<le> ?q mod 64"
    by (rule countr_zero_le [OF Cons.prems(3)])
  have qeq: "?q = off * 64 + ?q mod 64"
    using q64 div_mult_mod_eq [of ?q 64] by simp
  have b: "bit (st ! off) ?b" "?b < 64"
    using bit_countr_zero [OF Cons.prems(3)] countr_zero_less [OF Cons.prems(3)] by auto
  then have "level_bit st (off * 64 + ?b)"
    using Cons.prems(2) by (simp add: level_bit_word)
  then have nxt: "chain_ok (st' # sts)" "off * 64 + ?b < length st'" "st' ! (off * 64 + ?b) \<noteq> 0"
    using Cons.prems(1) by (auto simp: summarises_def)
  have run: "find_free_block_loop (\<lambda>v g. (countr_zero v, g)) (Suc depth) (st' # sts) (off * 64 + ?b) g
      = Some (int r, g')"
    using Cons.prems(2,3,4) by simp
  show ?case
  proof (cases "?q = off * 64 + ?b")
    case True
    then show ?thesis
      using Cons.IH [OF nxt run] Cons.prems(5) by simp
  next
    case False
    then have "off * 64 + ?b < ?q"
      using qeq le by linarith
    moreover have "r div 64 ^ length (st' # sts) = off * 64 + ?b"
      using find_free_block_loop_ok [of "\<lambda>v g. (countr_zero v, g)", OF _ nxt, of "Suc depth" g] run
      by (auto simp: bit_countr_zero)
    ultimately show ?thesis
      using div_eq_less_imp_less [of r "64 ^ length (st' # sts)" j] by simp
  qed
qed

lemma FindFreeBlock_ok:
  assumes "bitmap_ok bm"
  shows "free_blocks bm = {} \<Longrightarrow> FindFreeBlock random bm = Some (-1, bm)"
    and "free_blocks bm \<noteq> {} \<Longrightarrow>
         \<exists>r g. FindFreeBlock random bm = Some (int r, bm\<lparr>m_bitmap_rng := g\<rparr>) \<and> r \<in> free_blocks bm \<and>
               (\<not> random \<longrightarrow> r = Min (free_blocks bm))"
proof -
  let ?sel = "if random then SelectRandomBit else (\<lambda>v g. (countr_zero v, g))"
  from assms have ok: "levels_ok (m_bit_storages bm)" by (simp add: bitmap_ok_def)
  then obtain st sts where ls: "m_bit_storages bm = st # sts"
    by (auto simp: levels_ok_def neq_Nil_conv)
  from ok have one: "length st = 1" and chain: "chain_ok (st # sts)"
    using upto_ok_chain_ok [OF levels_ok_last(3) [OF ok]] by (auto simp: levels_ok_def ls)
  have sel: "\<And>v g. v \<noteq> 0 \<Longrightarrow> bit v (fst (?sel v g))"
    by (simp add: SelectRandomBit_bit bit_countr_zero)
  have found: "\<exists>r g'. find_free_block_loop ?sel 0 (st # sts) 0 (m_bitmap_rng bm) = Some (int r, g') \<and>
      r \<in> free_blocks bm" if "st ! 0 \<noteq> 0"
    using find_free_block_loop_ok [of ?sel, OF sel chain _ that, of 0 "m_bitmap_rng bm"] one
    unfolding free_blocks_def ls by auto
  have top: "j div 64 ^ length (st # sts) = 0" "st ! 0 \<noteq> 0" if "j \<in> free_blocks bm" for j
  proof -
    from level_bit_ancestor [OF chain] that have a: "level_bit st (j div 64 ^ length sts)"
      by (simp add: free_blocks_def ls)
    then have z: "j div 64 ^ length sts div 64 = 0"
      using one by (simp add: level_bit_def)
    then show "j div 64 ^ length (st # sts) = 0"
      by (simp add: div_pow_Suc del: power_Suc)
    show "st ! 0 \<noteq> 0"
      using a z by (auto simp: level_bit_def)
  qed
  show "FindFreeBlock random bm = Some (-1, bm)" if "free_blocks bm = {}"
  proof -
    have "st ! 0 = 0"
      using found that by auto
    then show ?thesis
      using one by (simp add: FindFreeBlock_def ls)
  qed
  show "\<exists>r g. FindFreeBlock random bm = Some (int r, bm\<lparr>m_bitmap_rng := g\<rparr>) \<and> r \<in> free_blocks bm \<and>
               (\<not> random \<longrightarrow> r = Min (free_blocks bm))" if ne: "free_blocks bm \<noteq> {}"
  proof -
    from ne have nz: "st ! 0 \<noteq> 0" using top(2) by blast
    then obtain r g where r: "find_free_block_loop ?sel 0 (st # sts) 0 (m_bitmap_rng bm) = Some (int r, g)"
      "r \<in> free_blocks bm"
      using found by blast
    have "r = Min (free_blocks bm)" if "\<not> random"
    proof (rule Min_eqI [symmetric])
      fix j assume j: "j \<in> free_blocks bm"
      show "r \<le> j"
        using find_least_ok [OF chain _ nz, of 0 "m_bitmap_rng bm" r g j] r(1) that one j top(1) [OF j]
        by (simp add: free_blocks_def ls)
    qed (use r(2) in auto)
    with r show ?thesis
      by (auto simp: FindFreeBlock_def ls)
  qed
qed

subsection \<open>Clearing a range\<close>

lemma word_update_ok:
  assumes ok: "levels_ok ls" and "i < length (last ls)" "last ls ! i \<noteq> 0" and d: "d = length ls - 1"
  shows "\<exists>ls'. (if v' = 0 then ClearBit_from d i (ls[d := (last ls)[i := v']])
                else Some (ls[d := (last ls)[i := v']])) = Some ls' \<and>
           level_change d (level_bit ((last ls)[i := v'])) ls ls'"
proof (cases d)
  case 0
  have "level_change d (level_bit ((last ls)[i := v'])) ls (ls[d := (last ls)[i := v']])"
    using levels_ok_last [OF ok] 0 d by (intro level_change_trivial) (auto simp: upto_ok_def)
  then show ?thesis
    using 0 by (cases "v' = 0") auto
next
  case (Suc e)
  let ?row' = "(last ls)[i := v']"
  have len: "Suc e < length ls" and row: "ls ! Suc e = last ls" and upto: "upto_ok (Suc e) ls"
    using levels_ok_last [OF ok] Suc d by auto
  then have sm: "summarises (ls ! e) (last ls)" and le: "length (last ls) \<le> 64 * length (ls ! e)"
    and upto': "upto_ok e (ls[Suc e := ?row'])"
    by (auto simp: upto_ok_Suc intro: upto_ok_update_above)
  show ?thesis
  proof (cases "v' = 0")
    case False
    have "summarises (ls ! e) ?row'"
      by (rule summarises_update [OF sm assms(3) False])
    then have "level_change (Suc e) (level_bit ?row') ls (ls[Suc e := ?row'])"
      using len row le upto' by (intro level_change_trivial) (auto simp: upto_ok_Suc)
    then show ?thesis
      using False Suc by simp
  next
    case True
    have "level_bit (ls ! e) i"
      using sm assms(2,3) by (simp add: summarises_def)
    then obtain ls' where "ClearBit_from (Suc e) i (ls[Suc e := ?row']) = Some ls'"
      and ch: "level_change e (\<lambda>j. level_bit (ls ! e) j \<and> j \<noteq> i) (ls[Suc e := ?row']) ls'"
      using ClearBit_from_ok [of e "ls[Suc e := ?row']" i] len upto' by auto
    moreover have "level_change (Suc e) (level_bit ?row') ls ls'"
    proof (rule level_change_above [OF ch len])
      show "level_bit (ls ! e) j \<and> j \<noteq> i \<longleftrightarrow> j < length ?row' \<and> ?row' ! j \<noteq> 0" for j
        unfolding True using sm assms(2) by (rule summarises_reset)
    qed (use row le in auto)
    ultimately show ?thesis
      using True Suc by simp
  qed
qed

lemma bit_range_mask:
  "j < 64 \<Longrightarrow> c < 64 \<Longrightarrow> bit (push_bit s (push_bit c 1 - 1) :: u64) j \<longleftrightarrow> s \<le> j \<and> j < s + c"
proof -
  have ones: "push_bit c 1 - 1 = (mask c :: u64)"
    by (simp add: mask_eq_exp_minus_1)
  show "j < 64 \<Longrightarrow> c < 64 \<Longrightarrow> bit (push_bit s (push_bit c 1 - 1) :: u64) j \<longleftrightarrow> s \<le> j \<and> j < s + c"
    unfolding ones by (auto simp: bit_push_bit_iff bit_mask_iff)
qed

lemma mem_range_iff:
  fixes off j c :: nat
  assumes "off mod 64 + c \<le> 64"
  shows "j \<in> {off..<off + c} \<longleftrightarrow>
         j div 64 = off div 64 \<and> off mod 64 \<le> j mod 64 \<and> j mod 64 < off mod 64 + c"
proof
  assume "j \<in> {off..<off + c}"
  then have b: "off \<le> j" "j < off + c" by auto
  have "64 * (off div 64) \<le> j" "j < 64 * (off div 64) + 64"
    using assms b div_mult_mod_eq [of off 64] by linarith+
  then have "j div 64 = off div 64"
    by (intro div_nat_eqI) simp_all
  then show "j div 64 = off div 64 \<and> off mod 64 \<le> j mod 64 \<and> j mod 64 < off mod 64 + c"
    using b div_mult_mod_eq [of off 64] div_mult_mod_eq [of j 64] by linarith
next
  assume "j div 64 = off div 64 \<and> off mod 64 \<le> j mod 64 \<and> j mod 64 < off mod 64 + c"
  then show "j \<in> {off..<off + c}"
    using div_mult_mod_eq [of off 64] div_mult_mod_eq [of j 64] unfolding atLeastLessThan_iff
    by linarith
qed

lemma level_bit_clear_mask:
  assumes "off div 64 < length row" "c < 64" "off mod 64 + c \<le> 64"
  shows "level_bit (row[off div 64 := row ! (off div 64) AND NOT (push_bit (off mod 64) (push_bit c 1 - 1))]) j
         \<longleftrightarrow> level_bit row j \<and> j \<notin> {off..<off + c}"
  using assms bit_range_mask [of "j mod 64" c "off mod 64"] unfolding mem_range_iff [OF assms(3)]
  by (auto simp: level_bit_def nth_list_update bit_and_iff bit_not_iff simp del: push_bit_of_1)

lemma mask_subset_iff:
  assumes "off div 64 < length row" "c < 64" "off mod 64 + c \<le> 64"
  shows "row ! (off div 64) AND push_bit (off mod 64) (push_bit c 1 - 1) =
           push_bit (off mod 64) (push_bit c 1 - 1) \<longleftrightarrow> {off..<off + c} \<subseteq> {i. level_bit row i}"
    (is "?v AND ?m = ?m \<longleftrightarrow> _")
proof -
  have "?v AND ?m = ?m \<longleftrightarrow> (\<forall>j<64. bit ?m j \<longrightarrow> bit ?v j)"
    by (auto simp: bit_eq_iff [of "?v AND ?m"] bit_and_iff simp del: push_bit_of_1)
  also have "\<dots> \<longleftrightarrow> (\<forall>j<64. off mod 64 \<le> j \<and> j < off mod 64 + c \<longrightarrow> bit ?v j)"
    using bit_range_mask [OF _ assms(2)] by simp
  also have "\<dots> \<longleftrightarrow> (\<forall>j. j \<in> {off..<off + c} \<longrightarrow> level_bit row j)"
  proof (intro iffI allI impI)
    fix j assume "\<forall>j<64. off mod 64 \<le> j \<and> j < off mod 64 + c \<longrightarrow> bit ?v j" "j \<in> {off..<off + c}"
    then show "level_bit row j"
      using mem_range_iff [OF assms(3), of j] assms(1) by (simp add: level_bit_def)
  next
    fix j assume *: "\<forall>j. j \<in> {off..<off + c} \<longrightarrow> level_bit row j"
      and j: "j < 64" "off mod 64 \<le> j \<and> j < off mod 64 + c"
    have "off div 64 * 64 + j \<in> {off..<off + c}"
      using j div_mult_mod_eq [of off 64] unfolding atLeastLessThan_iff by linarith
    with * have "level_bit row (off div 64 * 64 + j)" by blast
    then show "bit ?v j"
      using j(1) by (simp add: level_bit_def)
  qed
  finally show ?thesis by auto
qed

lemma card_Diff_range:
  "finite A \<Longrightarrow> {off..<off + c} \<subseteq> A \<Longrightarrow>
   of_nat (card (A - {off..<off + c})) = (of_nat (card A) - of_nat c :: u64)"
  using card_mono [of A "{off..<off + c}"] by (simp add: card_Diff_subset of_nat_diff)

lemma ClearRange_small_ok:
  assumes ok: "bitmap_ok bm" and "0 < count" "count < 64" "offset mod 64 + count \<le> 64"
    and "offset + count \<le> capacity bm"
  shows "\<not> {offset..<offset + count} \<subseteq> free_blocks bm \<Longrightarrow> ClearRange offset count bm = Some (False, bm)"
    and "{offset..<offset + count} \<subseteq> free_blocks bm \<Longrightarrow>
      \<exists>bm'. ClearRange offset count bm = Some (True, bm') \<and> bitmap_ok bm' \<and>
        free_blocks bm' = free_blocks bm - {offset..<offset + count} \<and> capacity bm' = capacity bm"
proof -
  let ?ls = "m_bit_storages bm" and ?d = "length (m_bit_storages bm) - 1"
  let ?row = "last ?ls" and ?ind = "offset div 64"
  let ?m = "push_bit (offset mod 64) (push_bit count 1 - 1) :: u64"
  from ok have lok: "levels_ok ?ls" and used: "m_used_depths bm = length ?ls"
    by (auto simp: bitmap_ok_def)
  from assms(2,5) have ind: "?ind < length ?row"
    by (simp add: capacity_def)
  note last = levels_ok_last [OF lok]
  have sub: "?row ! ?ind AND ?m = ?m \<longleftrightarrow> {offset..<offset + count} \<subseteq> free_blocks bm"
    unfolding free_blocks_def by (rule mask_subset_iff [OF ind assms(3,4)])
  have eq: "ClearRange offset count bm =
      (if ?row ! ?ind AND ?m \<noteq> ?m then Some (False, bm)
       else do {
         levels'' \<leftarrow> (if ?row ! ?ind AND NOT ?m = 0
                       then ClearBit_from ?d ?ind (?ls[?d := ?row[?ind := ?row ! ?ind AND NOT ?m]])
                       else Some (?ls[?d := ?row[?ind := ?row ! ?ind AND NOT ?m]]));
         Some (True, bm\<lparr>m_bit_storages := levels'', m_num_bits := m_num_bits bm - of_nat count\<rparr>)
       })"
    using assms(3,4) ind last(1,2) by (simp add: ClearRange_def used Let_def del: push_bit_of_1)
  show "ClearRange offset count bm = Some (False, bm)"
    if "\<not> {offset..<offset + count} \<subseteq> free_blocks bm"
    using that sub eq by simp
  assume inc: "{offset..<offset + count} \<subseteq> free_blocks bm"
  then have "level_bit ?row offset"
    using assms(2) by (auto simp: free_blocks_def subset_eq)
  then have nz: "?row ! ?ind \<noteq> 0"
    by (auto simp: level_bit_def)
  obtain ls' where ls': "(if ?row ! ?ind AND NOT ?m = 0
         then ClearBit_from ?d ?ind (?ls[?d := ?row[?ind := ?row ! ?ind AND NOT ?m]])
         else Some (?ls[?d := ?row[?ind := ?row ! ?ind AND NOT ?m]])) = Some ls'"
    and ch: "level_change ?d (level_bit (?row[?ind := ?row ! ?ind AND NOT ?m])) ?ls ls'"
    using word_update_ok [OF lok ind nz refl] by blast
  have set: "Collect (level_bit (?row[?ind := ?row ! ?ind AND NOT ?m])) =
      free_blocks bm - {offset..<offset + count}"
    unfolding free_blocks_def
    by (rule set_eqI) (simp only: mem_Collect_eq Diff_iff level_bit_clear_mask [OF ind assms(3,4)])
  have "m_num_bits bm - of_nat count =
      of_nat (card (Collect (level_bit (?row[?ind := ?row ! ?ind AND NOT ?m]))))"
    unfolding set using ok card_Diff_range [OF finite_free_blocks inc] by (simp add: bitmap_ok_def)
  note bitmap_okI [OF ok ch this]
  then show "\<exists>bm'. ClearRange offset count bm = Some (True, bm') \<and> bitmap_ok bm' \<and>
        free_blocks bm' = free_blocks bm - {offset..<offset + count} \<and> capacity bm' = capacity bm"
    unfolding eq ls' set using sub inc by simp
qed

lemma row_eqI:
  assumes "length a = length b" "\<And>i. level_bit a i \<longleftrightarrow> level_bit b i"
  shows "a = b"
proof (rule nth_equalityI [OF assms(1)])
  fix k assume k: "k < length a"
  show "a ! k = b ! k"
  proof (rule bit_word_eqI)
    fix j assume "j < LENGTH(64)"
    then have "j < 64" by simp
    then show "bit (a ! k) j \<longleftrightarrow> bit (b ! k) j"
      using assms(1) assms(2) [of "k * 64 + j"] k by (simp add: level_bit_word)
  qed
qed

lemma level_change_last_row:
  assumes "levels_ok ls" "d = length ls - 1" "level_change d (level_bit row) ls ls'"
    "length row = length (last ls)"
  shows "last ls' = row"
  using level_change_last [OF assms(1), of "level_bit row" ls'] assms
  by (intro row_eqI) auto

lemma level_change_trans_last:
  assumes "d = length ls - 1" "level_change d f ls ls1" "level_change d g ls1 ls2"
  shows "level_change d g ls ls2"
  using assms by (auto simp: level_change_def)

lemma level_bit_update_0:
  "i < length row \<Longrightarrow> level_bit (row[i := 0]) j \<longleftrightarrow> level_bit row j \<and> j div 64 \<noteq> i"
  by (auto simp: level_bit_def nth_list_update)

lemma clear_words_loop_ok:
  assumes "levels_ok ls" "d = length ls - 1" "i + n \<le> length (last ls)"
    "\<And>k. k < n \<Longrightarrow> last ls ! (i + k) \<noteq> 0"
  shows "\<exists>ls'. clear_words_loop n d i ls = Some ls' \<and>
    level_change d (\<lambda>j. level_bit (last ls) j \<and> \<not> (i \<le> j div 64 \<and> j div 64 < i + n)) ls ls'"
  using assms
proof (induction n arbitrary: i ls)
  case 0
  then show ?case
    using levels_ok_last [OF 0(1)] by (auto simp: level_change_def)
next
  case (Suc n)
  let ?row' = "(last ls)[i := 0]"
  note last = levels_ok_last [OF Suc.prems(1), folded Suc.prems(2)]
  have i: "i < length (last ls)" and nz: "last ls ! i \<noteq> 0"
    using Suc.prems(3) Suc.prems(4) [of 0] by auto
  obtain ls1 where ls1: "ClearBit_from d i (ls[d := ?row']) = Some ls1"
    and ch1: "level_change d (level_bit ?row') ls ls1"
    using word_update_ok [OF Suc.prems(1) i nz Suc.prems(2), of 0] by auto
  note lc = level_change_last [OF Suc.prems(1) ch1 [unfolded Suc.prems(2)]]
  have row1: "last ls1 = ?row'"
    by (rule level_change_last_row [OF Suc.prems(1,2) ch1]) simp
  obtain ls2 where ls2: "clear_words_loop n d (Suc i) ls1 = Some ls2"
    and ch2: "level_change d (\<lambda>j. level_bit ?row' j \<and> \<not> (Suc i \<le> j div 64 \<and> j div 64 < Suc i + n)) ls1 ls2"
    using Suc.IH [OF lc(1), of "Suc i"] Suc.prems(2,3) Suc.prems(4) [of "Suc _"] lc(4) row1 by auto
  have eq: "(\<lambda>j. level_bit ?row' j \<and> \<not> (Suc i \<le> j div 64 \<and> j div 64 < Suc i + n)) =
      (\<lambda>j. level_bit (last ls) j \<and> \<not> (i \<le> j div 64 \<and> j div 64 < i + Suc n))"
    unfolding level_bit_update_0 [OF i] by (rule ext) arith
  have "level_change d (\<lambda>j. level_bit (last ls) j \<and> \<not> (i \<le> j div 64 \<and> j div 64 < i + Suc n)) ls ls2"
    using level_change_trans_last [OF Suc.prems(2) ch1 ch2] unfolding eq .
  moreover have "clear_words_loop (Suc n) d i ls = Some ls2"
    using last(1,2) i ls1 ls2 by simp
  ultimately show ?case by blast
qed

lemma all_ones_loop_eq:
  "i + n \<le> length row \<Longrightarrow> all_ones_loop n i row = Some (\<forall>k<n. row ! (i + k) = NOT 0)"
  by (induction n i row rule: all_ones_loop.induct) (auto simp: All_less_Suc2)

lemma ClearRange_large_ok:
  assumes ok: "bitmap_ok bm" and n: "0 < n" and i: "offset = 64 * i"
    and cap: "offset + 64 * n \<le> capacity bm"
  shows "\<not> {offset..<offset + 64 * n} \<subseteq> free_blocks bm \<Longrightarrow>
         ClearRange offset (64 * n) bm = Some (False, bm)"
    and "{offset..<offset + 64 * n} \<subseteq> free_blocks bm \<Longrightarrow>
      \<exists>bm'. ClearRange offset (64 * n) bm = Some (True, bm') \<and> bitmap_ok bm' \<and>
        free_blocks bm' = free_blocks bm - {offset..<offset + 64 * n} \<and> capacity bm' = capacity bm"
proof -
  let ?ls = "m_bit_storages bm" and ?d = "length (m_bit_storages bm) - 1"
  let ?row = "last ?ls" and ?R = "{offset..<offset + 64 * n}"
  from ok have lok: "levels_ok ?ls" and used: "m_used_depths bm = length ?ls"
    by (auto simp: bitmap_ok_def)
  note last = levels_ok_last [OF lok]
  have len: "i + n \<le> length ?row"
    using cap i by (simp add: capacity_def)
  have mem: "j \<in> ?R \<longleftrightarrow> i \<le> j div 64 \<and> j div 64 < i + n" for j
    using i by (auto simp: div_less_iff_less_mult less_eq_div_iff_mult_less_eq algebra_simps)
  have ones: "(\<forall>k<n. ?row ! (i + k) = NOT 0) \<longleftrightarrow> ?R \<subseteq> free_blocks bm"
  proof
    assume *: "\<forall>k<n. ?row ! (i + k) = NOT 0"
    show "?R \<subseteq> free_blocks bm"
    proof
      fix j assume "j \<in> ?R"
      then have b: "i \<le> j div 64" "j div 64 < i + n" using mem by auto
      then have "?row ! (i + (j div 64 - i)) = NOT 0"
        using * by (metis add_less_cancel_left le_add_diff_inverse)
      then show "j \<in> free_blocks bm"
        using b len by (simp add: free_blocks_def level_bit_def)
    qed
  next
    assume sub: "?R \<subseteq> free_blocks bm"
    show "\<forall>k<n. ?row ! (i + k) = NOT 0"
    proof (intro allI impI bit_word_eqI)
      fix k j assume "k < n" "j < LENGTH(64)"
      then have kj: "(i + k) * 64 + j \<in> ?R" "j < 64"
        using i by auto
      then have "level_bit ?row ((i + k) * 64 + j)"
        using sub by (auto simp: free_blocks_def)
      then have "bit (?row ! (i + k)) j"
        using kj(2) level_bit_word by blast
      then show "bit (?row ! (i + k)) j \<longleftrightarrow> bit (NOT 0 :: u64) j"
        using kj(2) by simp
    qed
  qed
  have eq: "ClearRange offset (64 * n) bm =
      (if \<not> ?R \<subseteq> free_blocks bm then Some (False, bm)
       else do {
         levels' \<leftarrow> clear_words_loop n ?d i ?ls;
         Some (True, bm\<lparr>m_bit_storages := levels', m_num_bits := m_num_bits bm - of_nat (64 * n)\<rparr>)
       })"
    using n i last(1,2) all_ones_loop_eq [OF len] ones by (simp add: ClearRange_def used Let_def)
  show "ClearRange offset (64 * n) bm = Some (False, bm)" if "\<not> ?R \<subseteq> free_blocks bm"
    using that eq by simp
  assume inc: "?R \<subseteq> free_blocks bm"
  then have nz: "\<And>k. k < n \<Longrightarrow> ?row ! (i + k) \<noteq> 0"
    using ones by simp
  let ?f = "\<lambda>j. level_bit ?row j \<and> \<not> (i \<le> j div 64 \<and> j div 64 < i + n)"
  obtain ls' where ls': "clear_words_loop n ?d i ?ls = Some ls'" and ch: "level_change ?d ?f ?ls ls'"
    using clear_words_loop_ok [OF lok refl len nz] by blast
  have set: "Collect ?f = free_blocks bm - ?R"
    unfolding free_blocks_def by (rule set_eqI) (simp only: mem_Collect_eq Diff_iff mem)
  have "m_num_bits bm - of_nat (64 * n) = of_nat (card (Collect ?f))"
    unfolding set using ok card_Diff_range [OF finite_free_blocks inc] by (simp add: bitmap_ok_def)
  note bitmap_okI [OF ok ch this]
  then show "\<exists>bm'. ClearRange offset (64 * n) bm = Some (True, bm') \<and> bitmap_ok bm' \<and>
        free_blocks bm' = free_blocks bm - ?R \<and> capacity bm' = capacity bm"
    unfolding eq ls' set using inc by simp
qed

subsection \<open>Initialisation\<close>

lemma words_for_eq: "words_for n = (n + 63) div 64"
proof -
  have n: "n = 64 * (n div 64) + n mod 64" by simp
  have "(n + 63) div 64 = (if n mod 64 = 0 then n div 64 else Suc (n div 64))"
    by (cases "n mod 64 = 0"; intro div_nat_eqI; simp; insert n mod_less_divisor [of 64 n]; linarith)
  then show ?thesis
    by (simp add: words_for_def minus_mod_eq_mult_div)
qed

lemma GetRequiredDepth_bound: "n < 64 ^ GetRequiredDepth n" "0 < GetRequiredDepth n"
proof -
  show "n < 64 ^ GetRequiredDepth n"
  proof (induction n rule: GetRequiredDepth.induct)
    case (1 n)
    show ?case
    proof (cases "n div 64 = 0")
      case True
      then show ?thesis by (subst GetRequiredDepth.simps) (simp add: div_eq_0_iff)
    next
      case False
      with 1 have "n div 64 < 64 ^ GetRequiredDepth (n div 64)" by simp
      then show ?thesis
        using False by (subst GetRequiredDepth.simps) (simp add: div_less_iff_less_mult mult.commute)
    qed
  qed
  show "0 < GetRequiredDepth n"
    by (subst GetRequiredDepth.simps) simp
qed

lemma GetRequiredDepth_le: "n < 64 ^ k \<Longrightarrow> 0 < k \<Longrightarrow> GetRequiredDepth n \<le> k"
proof (induction k arbitrary: n)
  case (Suc k)
  show ?case
  proof (cases "n div 64 = 0")
    case True
    then show ?thesis by (subst GetRequiredDepth.simps) simp
  next
    case False
    then have "64 \<le> n" by (simp add: div_eq_0_iff)
    with Suc.prems(1) have "0 < k" by (cases k) auto
    moreover have "n div 64 < 64 ^ k"
      using Suc.prems(1) by (simp add: div_less_iff_less_mult mult.commute)
    ultimately have "GetRequiredDepth (n div 64) \<le> k"
      by (intro Suc.IH)
    then show ?thesis
      using False by (subst GetRequiredDepth.simps) simp
  qed
qed simp

lemma words_for_funpow_1: "0 < n \<Longrightarrow> n \<le> 64 ^ d \<Longrightarrow> (words_for ^^ d) n = 1"
proof (induction d arbitrary: n)
  case 0
  then show ?case by simp
next
  case (Suc d)
  have "0 < words_for n"
    using Suc.prems(1) by (simp add: words_for_eq div_greater_zero_iff)
  moreover have "words_for n \<le> 64 ^ d"
    using Suc.prems(2) by (simp add: words_for_eq div_le_mono2 less_Suc_eq_le [symmetric] div_less_iff_less_mult)
  ultimately show ?case
    using Suc.IH by (simp add: funpow_swap1)
qed

text \<open>The words that \<open>carve_storages\<close> consumes: \<open>CalculateManagementOverheadSize\<close> divided by 8.\<close>

lemma overhead_loop_acc: "overhead_loop d n a = a + overhead_loop d n 0"
proof (induction d arbitrary: n a)
  case (Suc d)
  show ?case
    using Suc [of "words_for n" "a + words_for n"] Suc [of "words_for n" "words_for n"]
    by (simp add: Let_def)
qed simp

lemma carve_storages_ok:
  assumes "overhead_loop d sz 0 \<le> length storage"
  shows "\<exists>new. carve_storages d sz storage levels = (new @ levels, drop (overhead_loop d sz 0) storage) \<and>
    length new = d \<and> (\<forall>e<d. length (new ! e) = (words_for ^^ (d - e)) sz) \<and>
    (\<forall>row\<in>set new. set row \<subseteq> set storage)"
  using assms
proof (induction d arbitrary: sz storage levels)
  case 0
  then show ?case by simp
next
  case (Suc d)
  let ?w = "words_for sz"
  have need: "overhead_loop (Suc d) sz 0 = ?w + overhead_loop d ?w 0"
    using overhead_loop_acc [of d ?w ?w] by (simp add: Let_def)
  have "overhead_loop d ?w 0 \<le> length (drop ?w storage)"
    using Suc.prems unfolding need by simp
  from Suc.IH [OF this, of "take ?w storage # levels"] obtain new where
    new: "carve_storages d ?w (drop ?w storage) (take ?w storage # levels) =
        (new @ take ?w storage # levels, drop (overhead_loop d ?w 0) (drop ?w storage))"
      "length new = d" "\<forall>e<d. length (new ! e) = (words_for ^^ (d - e)) ?w"
      "\<forall>row\<in>set new. set row \<subseteq> set (drop ?w storage)"
    by blast
  have "length ((new @ [take ?w storage]) ! e) = (words_for ^^ (Suc d - e)) sz" if "e < Suc d" for e
    using that new(2,3) need Suc.prems by (auto simp: nth_append less_Suc_eq Suc_diff_le funpow_swap1)
  moreover have "\<forall>row\<in>set (new @ [take ?w storage]). set row \<subseteq> set storage"
    using new(4) by (auto dest: in_set_takeD in_set_dropD)
  ultimately show ?case
    using new(1,2) need by (intro exI [of _ "new @ [take ?w storage]"]) (simp add: Let_def add.commute)
qed

text \<open>
  Initialisation: for a region of \<open>sz\<close> blocks that fits four levels, zeroed storage of at
  least the size that \<open>CalculateManagementOverheadSize\<close> computes is enough: \<open>Initialize\<close> raises
  no assertion, consumes exactly that much storage, and yields a consistent bitmap with no free
  block that can hold the whole region.
\<close>

lemma KPageBitmap_Initialize_ok:
  assumes "0 < sz" "sz < 64 ^ MaxDepth"
    and "KPageBitmap_CalculateManagementOverheadSize sz \<le> 8 * length storage"
    and "set storage \<subseteq> {0}"
  shows "\<exists>bm' rest. KPageBitmap_Initialize storage sz bm = Some (bm', rest) \<and> bitmap_ok bm' \<and>
    free_blocks bm' = {} \<and> sz \<le> capacity bm' \<and>
    8 * length rest = 8 * length storage - KPageBitmap_CalculateManagementOverheadSize sz"
proof -
  let ?d = "GetRequiredDepth sz" and ?need = "overhead_loop (GetRequiredDepth sz) sz 0"
  have d: "?d \<le> MaxDepth"
    using GetRequiredDepth_le [OF assms(2)] by (simp add: MaxDepth_def)
  from assms(3) have need: "?need \<le> length storage"
    by (simp add: KPageBitmap_CalculateManagementOverheadSize_def)
  obtain ls where carve: "carve_storages ?d sz storage [] = (ls, drop ?need storage)"
    and len: "length ls = ?d" and lens: "\<forall>e<?d. length (ls ! e) = (words_for ^^ (?d - e)) sz"
    and zero: "\<forall>row\<in>set ls. set row \<subseteq> set storage"
    using carve_storages_ok [OF need, of "[]"] by auto
  have pos: "0 < ?d" by (rule GetRequiredDepth_bound)
  have zrow: "row ! i = 0" if "row \<in> set ls" "i < length row" for row i
    using zero that assms(4) nth_mem by blast
  have nobit: "\<not> level_bit (ls ! e) i" if "e < ?d" for e i
    using zrow [of "ls ! e" "i div 64"] that len by (auto simp: level_bit_def)
  have "summarises (ls ! e) (ls ! Suc e) \<and> length (ls ! Suc e) \<le> 64 * length (ls ! e)" if "Suc e < ?d" for e
  proof
    show "summarises (ls ! e) (ls ! Suc e)"
      using nobit [of e] zrow [of "ls ! Suc e"] that len by (auto simp: summarises_def)
    have "(words_for ^^ (?d - e)) sz = words_for ((words_for ^^ (?d - Suc e)) sz)"
      using that by (metis Suc_diff_Suc Suc_lessD comp_apply funpow.simps(2))
    then show "length (ls ! Suc e) \<le> 64 * length (ls ! e)"
      using lens that by (simp add: words_for_eq)
  qed
  then have "upto_ok (length ls - 1) ls"
    using len by (auto simp: upto_ok_def)
  moreover have "length (ls ! 0) = 1"
    using lens pos words_for_funpow_1 [OF assms(1), of ?d] GetRequiredDepth_bound(1) [of sz] by simp
  ultimately have lok: "levels_ok ls"
    using len pos by (auto simp: levels_ok_def)
  have last: "last ls = ls ! (?d - 1)"
    using len pos by (metis last_conv_nth length_0_conv less_irrefl)
  let ?bm = "bm\<lparr>m_num_bits := 0, m_used_depths := ?d, m_bit_storages := ls\<rparr>"
  have free: "free_blocks ?bm = {}"
    using nobit [of "?d - 1"] pos by (simp add: free_blocks_def last)
  then have "bitmap_ok ?bm"
    using lok len by (simp add: bitmap_ok_def)
  moreover have "sz \<le> capacity ?bm"
    using lens pos by (simp add: capacity_def last words_for_eq)
  moreover have "KPageBitmap_Initialize storage sz bm = Some (?bm, drop ?need storage)"
    using d carve by (simp add: KPageBitmap_Initialize_def Let_def)
  ultimately show ?thesis
    using free need
    by (intro exI [of _ ?bm] exI [of _ "drop ?need storage"])
      (simp add: KPageBitmap_CalculateManagementOverheadSize_def diff_mult_distrib2 mult.commute)
qed

section \<open>The interface for allocators\<close>

text \<open>
  What the page manager and the page heap rely on: a set of free block numbers below a
  capacity, with insertion, removal and choice. Their common step is to choose a free block
  and remove it.
\<close>

locale page_set =
  fixes inv :: "'b \<Rightarrow> bool" and free :: "'b \<Rightarrow> nat set" and cap :: "'b \<Rightarrow> nat"
    and set_bit :: "nat \<Rightarrow> 'b \<Rightarrow> 'b option" and clear_bit :: "nat \<Rightarrow> 'b \<Rightarrow> 'b option"
    and find_block :: "bool \<Rightarrow> 'b \<Rightarrow> (int \<times> 'b) option"
  assumes set_ok: "inv b \<Longrightarrow> i < cap b \<Longrightarrow> i \<notin> free b \<Longrightarrow>
      \<exists>b'. set_bit i b = Some b' \<and> inv b' \<and> free b' = insert i (free b) \<and> cap b' = cap b"
    and clear_ok: "inv b \<Longrightarrow> i \<in> free b \<Longrightarrow>
      \<exists>b'. clear_bit i b = Some b' \<and> inv b' \<and> free b' = free b - {i} \<and> cap b' = cap b"
    and find_none: "inv b \<Longrightarrow> free b = {} \<Longrightarrow> find_block r b = Some (-1, b)"
    and find_some: "inv b \<Longrightarrow> free b \<noteq> {} \<Longrightarrow>
      \<exists>i b'. find_block r b = Some (int i, b') \<and> inv b' \<and> free b' = free b \<and> cap b' = cap b \<and>
             i \<in> free b \<and> (\<not> r \<longrightarrow> i = Min (free b))"
    and free_less_cap: "inv b \<Longrightarrow> i \<in> free b \<Longrightarrow> i < cap b"
begin

lemma pop_ok:
  assumes "inv b" "free b \<noteq> {}"
  shows "\<exists>i b1 b2. find_block r b = Some (int i, b1) \<and> clear_bit i b1 = Some b2 \<and> inv b2 \<and>
    i \<in> free b \<and> free b2 = free b - {i} \<and> cap b2 = cap b \<and> (\<not> r \<longrightarrow> i = Min (free b))"
proof -
  from find_some [OF assms, of r] obtain i b1 where b1: "find_block r b = Some (int i, b1)" "inv b1"
    "free b1 = free b" "cap b1 = cap b" "i \<in> free b" "\<not> r \<longrightarrow> i = Min (free b)"
    by blast
  with clear_ok [of b1 i] obtain b2 where "clear_bit i b1 = Some b2" "inv b2"
    "free b2 = free b - {i}" "cap b2 = cap b"
    by auto
  with b1 show ?thesis by blast
qed

lemma push_then_pop:
  assumes "inv b" "free b = {}" "i < cap b"
  shows "\<exists>b1 b2 b3. set_bit i b = Some b1 \<and> find_block r b1 = Some (int i, b2) \<and>
    clear_bit i b2 = Some b3 \<and> inv b3 \<and> free b3 = {}"
proof -
  from set_ok [OF assms(1,3)] assms(2) obtain b1 where "set_bit i b = Some b1" "inv b1" "free b1 = {i}"
    by auto
  with pop_ok [of b1 r] show ?thesis by auto
qed

end

lemma free_blocks_less_capacity: "i \<in> free_blocks bm \<Longrightarrow> i < capacity bm"
  by (auto simp: free_blocks_def capacity_def dest: level_bit_less)

lemma rng_update_simps [simp]:
  "bitmap_ok (bm\<lparr>m_bitmap_rng := g\<rparr>) = bitmap_ok bm"
  "free_blocks (bm\<lparr>m_bitmap_rng := g\<rparr>) = free_blocks bm"
  "capacity (bm\<lparr>m_bitmap_rng := g\<rparr>) = capacity bm"
  by (simp_all add: bitmap_ok_def free_blocks_def capacity_def)

interpretation page_bitmap: page_set bitmap_ok free_blocks capacity SetBit ClearBit FindFreeBlock
proof
  fix b :: KPageBitmap and i r
  show "bitmap_ok b \<Longrightarrow> free_blocks b \<noteq> {} \<Longrightarrow>
      \<exists>i b'. FindFreeBlock r b = Some (int i, b') \<and> bitmap_ok b' \<and> free_blocks b' = free_blocks b \<and>
        capacity b' = capacity b \<and> i \<in> free_blocks b \<and> (\<not> r \<longrightarrow> i = Min (free_blocks b))"
    using FindFreeBlock_ok(2) [of b r] by fastforce
qed (simp_all add: SetBit_ok ClearBit_ok FindFreeBlock_ok(1) free_blocks_less_capacity)

section \<open>Properties\<close>

text \<open>
  C19. Freeing and taking a block: on a consistent bitmap, \<open>SetBit\<close> of a block that is in range
  and not free raises no assertion and adds exactly that block to the set of free blocks, and
  \<open>ClearBit\<close> of a free block raises no assertion and removes exactly that block; both keep
  every summary level and the free count consistent.
\<close>

theorem SetBit_ClearBit_correct:
  assumes "bitmap_ok bm"
  shows "(offset < capacity bm \<and> offset \<notin> free_blocks bm \<longrightarrow>
           (\<exists>bm'. SetBit offset bm = Some bm' \<and> bitmap_ok bm' \<and>
              free_blocks bm' = insert offset (free_blocks bm) \<and> capacity bm' = capacity bm)) \<and>
         (offset \<in> free_blocks bm \<longrightarrow>
           (\<exists>bm'. ClearBit offset bm = Some bm' \<and> bitmap_ok bm' \<and>
              free_blocks bm' = free_blocks bm - {offset} \<and> capacity bm' = capacity bm))"
  using page_bitmap.set_ok [OF assms] page_bitmap.clear_ok [OF assms] by blast

text \<open>
  C20. Choosing a block: on a consistent bitmap, \<open>FindFreeBlock\<close> returns -1 exactly when no block
  is free; otherwise it returns a free block, the lowest one when the choice is not random, and
  it changes nothing but the random generator.
\<close>

theorem FindFreeBlock_correct:
  assumes "bitmap_ok bm"
  shows "\<exists>r g. FindFreeBlock random bm = Some (r, bm\<lparr>m_bitmap_rng := g\<rparr>) \<and>
    (r = -1 \<longleftrightarrow> free_blocks bm = {}) \<and>
    (r \<noteq> -1 \<longrightarrow> 0 \<le> r \<and> nat r \<in> free_blocks bm) \<and>
    (\<not> random \<and> free_blocks bm \<noteq> {} \<longrightarrow> r = int (Min (free_blocks bm)))"
proof (cases "free_blocks bm = {}")
  case True
  with FindFreeBlock_ok(1) [OF assms True] show ?thesis
    by (intro exI [of _ "-1"] exI [of _ "m_bitmap_rng bm"]) simp
next
  case False
  then show ?thesis
    using FindFreeBlock_ok(2) [OF assms False, of random] by fastforce
qed

text \<open>
  C21. Taking a range: for a range of \<open>count\<close> blocks inside one word, or of whole words,
  \<open>ClearRange\<close> returns false and changes nothing when some block of the range is not free, and
  otherwise returns true and removes exactly the range from the free blocks.
\<close>

theorem ClearRange_correct:
  assumes ok: "bitmap_ok bm" and cap: "offset + count \<le> capacity bm" and pos: "0 < count"
    and shape: "count < 64 \<and> offset mod 64 + count \<le> 64 \<or> offset mod 64 = 0 \<and> count mod 64 = 0"
  shows "if {offset..<offset + count} \<subseteq> free_blocks bm
    then \<exists>bm'. ClearRange offset count bm = Some (True, bm') \<and> bitmap_ok bm' \<and>
           free_blocks bm' = free_blocks bm - {offset..<offset + count} \<and> capacity bm' = capacity bm
    else ClearRange offset count bm = Some (False, bm)"
proof (cases "count < 64")
  case True
  with shape have "offset mod 64 + count \<le> 64" by auto
  with ClearRange_small_ok [OF ok pos True _ cap] show ?thesis by simp
next
  case False
  with shape have "offset = 64 * (offset div 64)" "count = 64 * (count div 64)" by auto
  with ClearRange_large_ok [OF ok, of "count div 64" offset "offset div 64"] pos cap False show ?thesis
    by (simp add: div_greater_zero_iff)
qed

subsection \<open>Witnesses\<close>

definition empty_generator :: RandomBitGenerator where
  "empty_generator = \<lparr>m_rng = [1, 2, 3, 4], m_entropy = 0, m_bits_available = 0\<rparr>"

definition sample_bitmap :: KPageBitmap where
  "sample_bitmap = \<lparr>m_bit_storages = [[3], [6, 1]], m_bitmap_rng = empty_generator,
                    m_num_bits = 3, m_used_depths = 2\<rparr>"

lemma sample_free: "free_blocks sample_bitmap = {1, 2, 64}"
proof -
  have "level_bit [6, 1] i \<longleftrightarrow> i \<in> {1, 2, 64}" for i
  proof (cases "i < 128")
    case True
    then have "i \<in> set [0..<128]" by simp
    moreover have "\<forall>i\<in>set [0..<128]. level_bit [6, 1] i \<longleftrightarrow> i \<in> {1, 2, 64}"
      unfolding level_bit_def by code_simp
    ultimately show ?thesis by blast
  next
    case False
    then show ?thesis by (auto dest: level_bit_less)
  qed
  then show ?thesis by (auto simp: free_blocks_def sample_bitmap_def)
qed

lemma sample_ok: "bitmap_ok sample_bitmap" "capacity sample_bitmap = 128"
proof -
  have "level_bit [3] i \<longleftrightarrow> i < length [6, 1 :: u64] \<and> [6, 1 :: u64] ! i \<noteq> 0" for i
  proof (cases "i < 64")
    case True
    then have "i \<in> set [0..<64]" by simp
    moreover have "\<forall>i\<in>set [0..<64]. level_bit [3] i \<longleftrightarrow> i < length [6, 1 :: u64] \<and> [6, 1 :: u64] ! i \<noteq> 0"
      unfolding level_bit_def by code_simp
    ultimately show ?thesis by blast
  next
    case False
    then show ?thesis by (auto dest: level_bit_less)
  qed
  then have "levels_ok (m_bit_storages sample_bitmap)"
    by (auto simp: levels_ok_def upto_ok_def summarises_def sample_bitmap_def)
  then show "bitmap_ok sample_bitmap"
    using sample_free by (simp add: bitmap_ok_def) (simp add: sample_bitmap_def)
  show "capacity sample_bitmap = 128"
    by (simp add: capacity_def sample_bitmap_def)
qed

theorem SetBit_ClearBit_correct_witness:
  "(\<exists>bm'. SetBit 5 sample_bitmap = Some bm' \<and> free_blocks bm' = {5, 1, 2, 64}) \<and>
   (\<exists>bm'. ClearBit 64 sample_bitmap = Some bm' \<and> free_blocks bm' = {1, 2})"
  using SetBit_ClearBit_correct [OF sample_ok(1), of 5] SetBit_ClearBit_correct [OF sample_ok(1), of 64]
  by (auto simp: sample_free sample_ok(2))

theorem FindFreeBlock_correct_witness:
  "\<exists>g. FindFreeBlock False sample_bitmap = Some (1, sample_bitmap\<lparr>m_bitmap_rng := g\<rparr>)"
  using FindFreeBlock_correct [OF sample_ok(1), of False] by (auto simp: sample_free)

theorem ClearRange_correct_witness:
  "\<exists>bm'. ClearRange 1 2 sample_bitmap = Some (True, bm') \<and> free_blocks bm' = {64}"
proof -
  have range: "{1..<1 + 2} = {1, 2::nat}" by auto
  then have "{1..<1 + 2} \<subseteq> free_blocks sample_bitmap" "free_blocks sample_bitmap - {1..<1 + 2} = {64}"
    by (auto simp: sample_free)
  then show ?thesis
    using ClearRange_correct [OF sample_ok(1), of 1 2] by (auto simp: sample_ok(2))
qed

end
