(* ===== verification/KDynamicPageManager.thy ===== *)
theory KDynamicPageManager
  imports KPageBitmap
begin

text \<open>
  The kernel's page allocator for its own objects, \<^verbatim>\<open>k_dynamic_page_manager.h\<close>, on top of the
  page bitmap. \<open>dpm_backing\<close> is the host address \<^verbatim>\<open>m_backing_memory.data()\<close> of the vector that
  backs the pages; the contents of the pages are not modelled. The allocator only uses the
  bitmap through the interface \<open>page_set\<close>.
\<close>

record KDynamicPageManager =
  dpm_page_bitmap :: KPageBitmap
  dpm_used :: u64
  dpm_peak :: u64
  dpm_count :: u64
  dpm_address :: u64
  dpm_aligned_address :: u64
  dpm_size :: u64
  dpm_backing :: u64

definition GetPointer :: "KDynamicPageManager \<Rightarrow> u64 \<Rightarrow> u64" where
  "GetPointer m addr = dpm_backing m + (addr - dpm_address m)"

fun free_pages_loop :: "nat \<Rightarrow> nat \<Rightarrow> u64 \<Rightarrow> u64 \<Rightarrow> KPageBitmap \<Rightarrow> KPageBitmap option" where
  "free_pages_loop 0 i address aligned bm = Some bm"
| "free_pages_loop (Suc n) i address aligned bm =
     do {
       bm' \<leftarrow> SetBit (unat ((address + of_nat i * PageSize - aligned) div PageSize)) bm;
       free_pages_loop n (Suc i) address aligned bm'
     }"

text \<open>\<open>data\<close> is the host address that \<^verbatim>\<open>m_backing_memory.resize(size)\<close> obtains.\<close>

definition KDynamicPageManager_Initialize ::
    "u64 \<Rightarrow> u64 \<Rightarrow> u64 \<Rightarrow> u64 \<Rightarrow> KDynamicPageManager \<Rightarrow> (Result \<times> KDynamicPageManager) option" where
  "KDynamicPageManager_Initialize data memory sz align m =
     (if \<not> sz > 0 then Some (ResultOutOfMemory, m)
      else
        let aligned = AlignDown memory align;
            m1 = m\<lparr>dpm_backing := data, dpm_address := memory, dpm_aligned_address := aligned\<rparr>;
            managed_size = memory + sz - aligned;
            overhead_size =
              AlignUp (of_nat (KPageBitmap_CalculateManagementOverheadSize
                                 (unat (managed_size div PageSize)))) PageSize
        in if \<not> overhead_size < sz then Some (ResultOutOfMemory, m1)
           else do {
             let m_size = AlignDown (sz - overhead_size) PageSize;
             let count = m_size div PageSize;
             let allocatable_region_size = (memory + sz - overhead_size) - aligned;
             ASSERT (allocatable_region_size \<ge> PageSize);
             (bm, _) \<leftarrow> KPageBitmap_Initialize (replicate (unat overhead_size div 8) 0)
                           (unat (allocatable_region_size div PageSize)) (dpm_page_bitmap m1);
             bm' \<leftarrow> free_pages_loop (unat count) 0 memory aligned bm;
             Some (ResultSuccess, m1\<lparr>dpm_size := m_size, dpm_count := count, dpm_page_bitmap := bm'\<rparr>)
           })"

text \<open>A null pointer result is \<open>None\<close> inside the pair.\<close>

definition KDynamicPageManager_Allocate ::
    "KDynamicPageManager \<Rightarrow> (u64 option \<times> KDynamicPageManager) option" where
  "KDynamicPageManager_Allocate m =
     do {
       (soffset, bm) \<leftarrow> FindFreeBlock True (dpm_page_bitmap m);
       let m1 = m\<lparr>dpm_page_bitmap := bm\<rparr>;
       if soffset < 0 then Some (None, m1)
       else do {
         let offset = nat soffset;
         bm' \<leftarrow> ClearBit offset (dpm_page_bitmap m1);
         let m2 = m1\<lparr>dpm_page_bitmap := bm', dpm_used := dpm_used m1 + 1,
                      dpm_peak := max (dpm_peak m1) (dpm_used m1 + 1)\<rparr>;
         Some (Some (GetPointer m2 (dpm_aligned_address m2) + of_nat offset * PageSize), m2)
       }
     }"

definition KDynamicPageManager_Allocate_count ::
    "nat \<Rightarrow> KDynamicPageManager \<Rightarrow> (u64 option \<times> KDynamicPageManager) option" where
  "KDynamicPageManager_Allocate_count count m =
     do {
       (soffset, bm) \<leftarrow> FindFreeRange count (dpm_page_bitmap m);
       let m1 = m\<lparr>dpm_page_bitmap := bm\<rparr>;
       if soffset < 0 then Some (None, m1)
       else do {
         let offset = nat soffset;
         (_, bm') \<leftarrow> ClearRange offset count (dpm_page_bitmap m1);
         let m2 = m1\<lparr>dpm_page_bitmap := bm', dpm_used := dpm_used m1 + of_nat count,
                      dpm_peak := max (dpm_peak m1) (dpm_used m1 + of_nat count)\<rparr>;
         Some (Some (GetPointer m2 (dpm_aligned_address m2) + of_nat offset * PageSize), m2)
       }
     }"

definition KDynamicPageManager_Free :: "u64 \<Rightarrow> KDynamicPageManager \<Rightarrow> KDynamicPageManager option" where
  "KDynamicPageManager_Free pb m =
     do {
       let offset = unat ((pb - dpm_aligned_address m) div PageSize);
       bm \<leftarrow> SetBit offset (dpm_page_bitmap m);
       Some (m\<lparr>dpm_page_bitmap := bm, dpm_used := dpm_used m - 1\<rparr>)
     }"

section \<open>Allocation\<close>

definition free_pages :: "KDynamicPageManager \<Rightarrow> nat set" where
  "free_pages m = free_blocks (dpm_page_bitmap m)"

definition page_manager_ok :: "KDynamicPageManager \<Rightarrow> bool" where
  "page_manager_ok m \<longleftrightarrow> bitmap_ok (dpm_page_bitmap m)"

definition page_pointer :: "KDynamicPageManager \<Rightarrow> nat \<Rightarrow> u64" where
  "page_pointer m i = GetPointer m (dpm_aligned_address m) + of_nat i * PageSize"

lemma Allocate_none:
  assumes "page_manager_ok m" "free_pages m = {}"
  shows "KDynamicPageManager_Allocate m = Some (None, m)"
  using page_bitmap.find_none [of "dpm_page_bitmap m" True] assms
  by (simp add: KDynamicPageManager_Allocate_def page_manager_ok_def free_pages_def)

lemma Allocate_some:
  assumes "page_manager_ok m" "free_pages m \<noteq> {}"
  shows "\<exists>i m'. KDynamicPageManager_Allocate m = Some (Some (page_pointer m i), m') \<and>
    i \<in> free_pages m \<and> page_manager_ok m' \<and> free_pages m' = free_pages m - {i} \<and>
    page_pointer m' = page_pointer m \<and> dpm_used m' = dpm_used m + 1 \<and>
    dpm_used m' \<le> dpm_peak m'"
proof -
  from page_bitmap.pop_ok [of "dpm_page_bitmap m" True] assms obtain i b1 b2 where
    "FindFreeBlock True (dpm_page_bitmap m) = Some (int i, b1)" "ClearBit i b1 = Some b2"
    "bitmap_ok b2" "i \<in> free_pages m" "free_blocks b2 = free_pages m - {i}"
    by (auto simp: page_manager_ok_def free_pages_def)
  then show ?thesis
    by (auto simp: KDynamicPageManager_Allocate_def page_manager_ok_def free_pages_def
        page_pointer_def GetPointer_def fun_eq_iff)
qed

text \<open>
  C27. The page allocator fails only when no page is free, and otherwise hands out the address
  of a page that was free, which is then no longer free; all other pages keep their status and
  no assertion fires.
\<close>

theorem KDynamicPageManager_Allocate_correct:
  assumes "page_manager_ok m"
  shows "if free_pages m = {} then KDynamicPageManager_Allocate m = Some (None, m)
    else \<exists>i m'. KDynamicPageManager_Allocate m = Some (Some (page_pointer m i), m') \<and>
      i \<in> free_pages m \<and> page_manager_ok m' \<and> free_pages m' = free_pages m - {i} \<and>
      page_pointer m' = page_pointer m \<and> dpm_used m' = dpm_used m + 1 \<and> dpm_used m' \<le> dpm_peak m'"
  using Allocate_none [OF assms] Allocate_some [OF assms] by simp

definition sample_page_manager :: KDynamicPageManager where
  "sample_page_manager =
     \<lparr>dpm_page_bitmap = sample_bitmap, dpm_used = 0, dpm_peak = 0, dpm_count = 3,
      dpm_address = 0x80000000, dpm_aligned_address = 0x80000000, dpm_size = 0x3000,
      dpm_backing = 0x7F0000000000\<rparr>"

theorem KDynamicPageManager_Allocate_correct_witness:
  "\<exists>i m'. KDynamicPageManager_Allocate sample_page_manager =
     Some (Some (page_pointer sample_page_manager i), m') \<and>
     i \<in> {1, 2, 64} \<and> free_pages m' = {1, 2, 64} - {i}"
proof -
  have "page_manager_ok sample_page_manager" "free_pages sample_page_manager = {1, 2, 64}"
    by (simp_all add: page_manager_ok_def free_pages_def sample_page_manager_def sample_ok sample_free)
  then show ?thesis
    using KDynamicPageManager_Allocate_correct [of sample_page_manager] by auto
qed

text \<open>
  \<open>Free\<close> computes the page number by subtracting the guest address \<open>m_aligned_address\<close> from the
  pointer, while \<open>Allocate\<close> returns a pointer into the host vector. Freeing what was allocated
  gives back the same page when the host and the guest addresses coincide.
\<close>

lemma Free_Allocate_same_base:
  assumes "page_manager_ok m" "dpm_backing m = dpm_address m" "i < capacity (dpm_page_bitmap m)"
    and "i \<notin> free_pages m" "i < 2 ^ 52"
  shows "\<exists>m'. KDynamicPageManager_Free (page_pointer m i) m = Some m' \<and> page_manager_ok m' \<and>
    free_pages m' = insert i (free_pages m)"
proof -
  have "unat ((of_nat i * 4096 :: u64) div 4096) = i"
  proof -
    have "unat (of_nat i * 4096 :: u64) = i * 4096"
      using assms(5) by (simp add: unat_word_ariths unat_of_nat)
    then show ?thesis
      by (simp add: unat_div_distrib)
  qed
  then have "unat ((page_pointer m i - dpm_aligned_address m) div PageSize) = i"
    using assms(2) by (simp add: page_pointer_def GetPointer_def)
  with page_bitmap.set_ok [of "dpm_page_bitmap m" i] assms show ?thesis
    by (auto simp: KDynamicPageManager_Free_def page_manager_ok_def free_pages_def Let_def)
qed

end
