(* ===== verification/KSlabHeap.thy ===== *)
theory KSlabHeap
  imports KDynamicPageManager
begin

text \<open>
  Slab heaps: \<open>KSlabHeapImpl\<close> of \<^verbatim>\<open>k_slab_heap.h\<close> (the intrusive singly linked free list,
  here the list of its nodes from \<^verbatim>\<open>m_head\<close>), \<open>KDynamicSlabHeap\<close> of
  \<^verbatim>\<open>k_dynamic_slab_heap.h\<close>, which refills itself from the page allocator, and
  \<open>KDynamicResourceManager\<close> of \<^verbatim>\<open>k_dynamic_resource_manager.h\<close>, which pairs a slab heap with its
  page allocator. \<open>sizeof(T)\<close> is the parameter \<open>obj_size\<close>. Atomic updates are taken as one
  step: the compare-and-swap loop that maintains the peak is a maximum.
\<close>

section \<open>KSlabHeapImpl\<close>

type_synonym slab_list = "u64 list"

definition KSlabHeapImpl_Allocate :: "slab_list \<Rightarrow> u64 option \<times> slab_list" where
  "KSlabHeapImpl_Allocate head = (case head of [] \<Rightarrow> (None, []) | ret # nxt \<Rightarrow> (Some ret, nxt))"

definition KSlabHeapImpl_Free :: "u64 \<Rightarrow> slab_list \<Rightarrow> slab_list" where
  "KSlabHeapImpl_Free obj head = obj # head"

section \<open>KDynamicSlabHeap\<close>

record KDynamicSlabHeap =
  dsh_head :: slab_list
  dsh_used :: u64
  dsh_peak :: u64
  dsh_count :: u64
  dsh_address :: u64
  dsh_size :: u64

definition IsInRange :: "KDynamicSlabHeap \<Rightarrow> u64 \<Rightarrow> bool" where
  "IsInRange h addr \<longleftrightarrow> dsh_address h \<le> addr \<and> addr \<le> dsh_address h + dsh_size h - 1"

fun free_objects :: "nat \<Rightarrow> nat \<Rightarrow> nat \<Rightarrow> u64 \<Rightarrow> slab_list \<Rightarrow> slab_list" where
  "free_objects 0 i obj_size allocated head = head"
| "free_objects (Suc n) i obj_size allocated head =
     free_objects n (Suc i) obj_size allocated
       (KSlabHeapImpl_Free (allocated + of_nat (i * obj_size)) head)"

definition objects_per_page :: "nat \<Rightarrow> nat" where
  "objects_per_page obj_size = 4096 div obj_size"

text \<open>The loop of \<open>Initialize\<close>: the model stops with a fault when the page allocator is exhausted
  (the assertion), so each round either takes a page or stops.\<close>

partial_function (option) slab_initialize_loop ::
    "nat \<Rightarrow> nat \<Rightarrow> KDynamicSlabHeap \<Rightarrow> KDynamicPageManager \<Rightarrow>
     (KDynamicSlabHeap \<times> KDynamicPageManager) option" where
  "slab_initialize_loop obj_size num_objects h pm =
     (if unat (dsh_count h) < num_objects then
        Option.bind (KDynamicPageManager_Allocate pm) (\<lambda>(page, pm').
          case page of None \<Rightarrow> None
          | Some allocated \<Rightarrow>
              slab_initialize_loop obj_size num_objects
                (h\<lparr>dsh_head := free_objects (objects_per_page obj_size) 0 obj_size allocated (dsh_head h),
                   dsh_count := dsh_count h + of_nat (objects_per_page obj_size)\<rparr>) pm')
      else Some (h, pm))"

definition KDynamicSlabHeap_Initialize ::
    "nat \<Rightarrow> nat \<Rightarrow> KDynamicSlabHeap \<Rightarrow> KDynamicPageManager \<Rightarrow>
     (KDynamicSlabHeap \<times> KDynamicPageManager) option" where
  "KDynamicSlabHeap_Initialize obj_size num_objects h pm =
     do {
       let h1 = h\<lparr>dsh_address := dpm_address pm, dsh_size := dpm_size pm\<rparr>;
       ASSERT (dsh_head h1 = []);
       slab_initialize_loop obj_size num_objects h1 pm
     }"

text \<open>\<open>None\<close> as the page allocator is the null pointer.\<close>

definition KDynamicSlabHeap_Allocate ::
    "nat \<Rightarrow> KDynamicSlabHeap \<Rightarrow> KDynamicPageManager option \<Rightarrow>
     (u64 option \<times> KDynamicSlabHeap \<times> KDynamicPageManager option) option" where
  "KDynamicSlabHeap_Allocate obj_size h page_allocator =
     do {
       let (allocated0, head1) = KSlabHeapImpl_Allocate (dsh_head h);
       let h1 = h\<lparr>dsh_head := head1\<rparr>;
       (allocated, h2, pa) \<leftarrow>
         (case (allocated0, page_allocator) of
            (None, Some pm) \<Rightarrow>
              do {
                (page, pm') \<leftarrow> KDynamicPageManager_Allocate pm;
                Some (case page of
                        None \<Rightarrow> (None, h1, Some pm')
                      | Some p \<Rightarrow>
                          (Some p,
                           h1\<lparr>dsh_head := free_objects (objects_per_page obj_size - 1) 1 obj_size p (dsh_head h1),
                              dsh_count := dsh_count h1 + of_nat (objects_per_page obj_size)\<rparr>,
                           Some pm'))
              }
          | _ \<Rightarrow> Some (allocated0, h1, page_allocator));
       Some (allocated,
             (case allocated of
                None \<Rightarrow> h2
              | Some _ \<Rightarrow> h2\<lparr>dsh_used := dsh_used h2 + 1,
                             dsh_peak := max (dsh_peak h2) (dsh_used h2 + 1)\<rparr>),
             pa)
     }"

definition KDynamicSlabHeap_Free :: "u64 \<Rightarrow> KDynamicSlabHeap \<Rightarrow> KDynamicSlabHeap" where
  "KDynamicSlabHeap_Free t h =
     h\<lparr>dsh_head := KSlabHeapImpl_Free t (dsh_head h), dsh_used := dsh_used h - 1\<rparr>"

section \<open>KDynamicResourceManager\<close>

record KDynamicResourceManager =
  drm_page_allocator :: "KDynamicPageManager option"
  drm_slab_heap :: KDynamicSlabHeap

definition KDynamicResourceManager_Allocate ::
    "nat \<Rightarrow> KDynamicResourceManager \<Rightarrow> (u64 option \<times> KDynamicResourceManager) option" where
  "KDynamicResourceManager_Allocate obj_size m =
     do {
       (r, h, pa) \<leftarrow> KDynamicSlabHeap_Allocate obj_size (drm_slab_heap m) (drm_page_allocator m);
       Some (r, m\<lparr>drm_slab_heap := h, drm_page_allocator := pa\<rparr>)
     }"

definition KDynamicResourceManager_Free :: "u64 \<Rightarrow> KDynamicResourceManager \<Rightarrow> KDynamicResourceManager" where
  "KDynamicResourceManager_Free t m = m\<lparr>drm_slab_heap := KDynamicSlabHeap_Free t (drm_slab_heap m)\<rparr>"

definition free_nodes :: "KDynamicResourceManager \<Rightarrow> u64 list" where
  "free_nodes m = dsh_head (drm_slab_heap m)"

lemma free_nodes_Free [simp]: "free_nodes (KDynamicResourceManager_Free t m) = t # free_nodes m"
  by (simp add: free_nodes_def KDynamicResourceManager_Free_def KDynamicSlabHeap_Free_def
      KSlabHeapImpl_Free_def)

lemma Allocate_from_list:
  assumes "free_nodes m = p # ps"
  shows "\<exists>m'. KDynamicResourceManager_Allocate obj_size m = Some (Some p, m') \<and> free_nodes m' = ps \<and>
    drm_page_allocator m' = drm_page_allocator m \<and>
    dsh_used (drm_slab_heap m') = dsh_used (drm_slab_heap m) + 1"
  using assms
  by (auto simp: KDynamicResourceManager_Allocate_def KDynamicSlabHeap_Allocate_def free_nodes_def
      KSlabHeapImpl_Allocate_def Let_def)

lemma free_objects_eq:
  "free_objects n i obj_size p head =
     rev (map (\<lambda>k. p + of_nat ((i + k) * obj_size)) [0..<n]) @ head"
proof (induction n arbitrary: i head)
  case (Suc n)
  have "map (\<lambda>k. p + of_nat ((i + k) * obj_size)) [0..<Suc n] =
      (p + of_nat (i * obj_size)) # map (\<lambda>k. p + of_nat ((Suc i + k) * obj_size)) [0..<n]"
    by (simp add: map_upt_Suc algebra_simps del: upt_Suc)
  then show ?case
    by (simp add: Suc KSlabHeapImpl_Free_def del: upt_Suc of_nat_mult of_nat_add)
qed simp

lemma Allocate_refill:
  assumes "free_nodes m = []" "drm_page_allocator m = Some pm"
    and "page_manager_ok pm" "free_pages pm \<noteq> {}"
  shows "\<exists>i m' pm'. KDynamicResourceManager_Allocate obj_size m = Some (Some (page_pointer pm i), m') \<and>
    i \<in> free_pages pm \<and> drm_page_allocator m' = Some pm' \<and> page_manager_ok pm' \<and>
    free_pages pm' = free_pages pm - {i} \<and>
    free_nodes m' = rev (map (\<lambda>k. page_pointer pm i + of_nat (Suc k * obj_size))
      [0..<objects_per_page obj_size - 1])"
proof -
  from Allocate_some [OF assms(3,4)] obtain i pm' where
    "KDynamicPageManager_Allocate pm = Some (Some (page_pointer pm i), pm')" "i \<in> free_pages pm"
    "page_manager_ok pm'" "free_pages pm' = free_pages pm - {i}"
    by blast
  then show ?thesis
    using assms(1,2)
    by (auto simp: KDynamicResourceManager_Allocate_def KDynamicSlabHeap_Allocate_def free_nodes_def
        KSlabHeapImpl_Allocate_def Let_def free_objects_eq)
qed

end
