(* ===== verification/KMemoryBlock.thy ===== *)
theory KMemoryBlock
  imports Prelude
begin

text \<open>
  Memory blocks of the emulated kernel: \<^verbatim>\<open>src/src/core/hle/kernel/k_memory_block.h\<close>.
  The flag enumerations are words of the enumeration's underlying type, one constant per
  enumerator; \<open>KMemoryBlock\<close> is the class as a record and every method is one definition.
  The lemmas at the end say what each method does to the six properties that decide
  merging, to the block's extent, and which assertions it needs.
\<close>

section \<open>Enumerations\<close>

subsection \<open>KMemoryState\<close>

text \<open>The values of \<^verbatim>\<open>Svc::MemoryState\<close> (\<^verbatim>\<open>svc_types.h\<close>) appear as their numbers.\<close>

definition KMemoryState_None :: u32 where [flag_simps]:
  "KMemoryState_None = 0"

definition KMemoryState_Mask :: u32 where [flag_simps]:
  "KMemoryState_Mask = 0xFF"

definition KMemoryState_All :: u32 where [flag_simps]:
  "KMemoryState_All = NOT KMemoryState_None"

definition KMemoryState_FlagCanReprotect :: u32 where [flag_simps]:
  "KMemoryState_FlagCanReprotect = push_bit 8 1"

definition KMemoryState_FlagCanDebug :: u32 where [flag_simps]:
  "KMemoryState_FlagCanDebug = push_bit 9 1"

definition KMemoryState_FlagCanUseIpc :: u32 where [flag_simps]:
  "KMemoryState_FlagCanUseIpc = push_bit 10 1"

definition KMemoryState_FlagCanUseNonDeviceIpc :: u32 where [flag_simps]:
  "KMemoryState_FlagCanUseNonDeviceIpc = push_bit 11 1"

definition KMemoryState_FlagCanUseNonSecureIpc :: u32 where [flag_simps]:
  "KMemoryState_FlagCanUseNonSecureIpc = push_bit 12 1"

definition KMemoryState_FlagMapped :: u32 where [flag_simps]:
  "KMemoryState_FlagMapped = push_bit 13 1"

definition KMemoryState_FlagCode :: u32 where [flag_simps]:
  "KMemoryState_FlagCode = push_bit 14 1"

definition KMemoryState_FlagCanAlias :: u32 where [flag_simps]:
  "KMemoryState_FlagCanAlias = push_bit 15 1"

definition KMemoryState_FlagCanCodeAlias :: u32 where [flag_simps]:
  "KMemoryState_FlagCanCodeAlias = push_bit 16 1"

definition KMemoryState_FlagCanTransfer :: u32 where [flag_simps]:
  "KMemoryState_FlagCanTransfer = push_bit 17 1"

definition KMemoryState_FlagCanQueryPhysical :: u32 where [flag_simps]:
  "KMemoryState_FlagCanQueryPhysical = push_bit 18 1"

definition KMemoryState_FlagCanDeviceMap :: u32 where [flag_simps]:
  "KMemoryState_FlagCanDeviceMap = push_bit 19 1"

definition KMemoryState_FlagCanAlignedDeviceMap :: u32 where [flag_simps]:
  "KMemoryState_FlagCanAlignedDeviceMap = push_bit 20 1"

definition KMemoryState_FlagCanIpcUserBuffer :: u32 where [flag_simps]:
  "KMemoryState_FlagCanIpcUserBuffer = push_bit 21 1"

definition KMemoryState_FlagReferenceCounted :: u32 where [flag_simps]:
  "KMemoryState_FlagReferenceCounted = push_bit 22 1"

definition KMemoryState_FlagCanMapProcess :: u32 where [flag_simps]:
  "KMemoryState_FlagCanMapProcess = push_bit 23 1"

definition KMemoryState_FlagCanChangeAttribute :: u32 where [flag_simps]:
  "KMemoryState_FlagCanChangeAttribute = push_bit 24 1"

definition KMemoryState_FlagCanCodeMemory :: u32 where [flag_simps]:
  "KMemoryState_FlagCanCodeMemory = push_bit 25 1"

definition KMemoryState_FlagLinearMapped :: u32 where [flag_simps]:
  "KMemoryState_FlagLinearMapped = push_bit 26 1"

definition KMemoryState_FlagCanPermissionLock :: u32 where [flag_simps]:
  "KMemoryState_FlagCanPermissionLock = push_bit 27 1"

definition KMemoryState_FlagsData :: u32 where [flag_simps]:
  "KMemoryState_FlagsData = KMemoryState_FlagCanReprotect OR KMemoryState_FlagCanUseIpc OR
     KMemoryState_FlagCanUseNonDeviceIpc OR KMemoryState_FlagCanUseNonSecureIpc OR
     KMemoryState_FlagMapped OR KMemoryState_FlagCanAlias OR KMemoryState_FlagCanTransfer OR
     KMemoryState_FlagCanQueryPhysical OR KMemoryState_FlagCanDeviceMap OR
     KMemoryState_FlagCanAlignedDeviceMap OR KMemoryState_FlagCanIpcUserBuffer OR
     KMemoryState_FlagReferenceCounted OR KMemoryState_FlagCanChangeAttribute OR
     KMemoryState_FlagLinearMapped"

definition KMemoryState_FlagsCode :: u32 where [flag_simps]:
  "KMemoryState_FlagsCode = KMemoryState_FlagCanDebug OR KMemoryState_FlagCanUseIpc OR
     KMemoryState_FlagCanUseNonDeviceIpc OR KMemoryState_FlagCanUseNonSecureIpc OR
     KMemoryState_FlagMapped OR KMemoryState_FlagCode OR KMemoryState_FlagCanQueryPhysical OR
     KMemoryState_FlagCanDeviceMap OR KMemoryState_FlagCanAlignedDeviceMap OR
     KMemoryState_FlagReferenceCounted OR KMemoryState_FlagLinearMapped"

definition KMemoryState_FlagsMisc :: u32 where [flag_simps]:
  "KMemoryState_FlagsMisc = KMemoryState_FlagMapped OR KMemoryState_FlagReferenceCounted OR
     KMemoryState_FlagCanQueryPhysical OR KMemoryState_FlagCanDeviceMap OR
     KMemoryState_FlagLinearMapped"

definition KMemoryState_Free :: u32 where [flag_simps]:
  "KMemoryState_Free = 0x00"

definition KMemoryState_IoMemory :: u32 where [flag_simps]:
  "KMemoryState_IoMemory = 0x01 OR KMemoryState_FlagMapped OR KMemoryState_FlagCanDeviceMap OR
     KMemoryState_FlagCanAlignedDeviceMap"

definition KMemoryState_IoRegister :: u32 where [flag_simps]:
  "KMemoryState_IoRegister = 0x01 OR KMemoryState_FlagCanDeviceMap OR KMemoryState_FlagCanAlignedDeviceMap"

definition KMemoryState_Static :: u32 where [flag_simps]:
  "KMemoryState_Static = 0x02 OR KMemoryState_FlagMapped OR KMemoryState_FlagCanQueryPhysical"

definition KMemoryState_Code :: u32 where [flag_simps]:
  "KMemoryState_Code = 0x03 OR KMemoryState_FlagsCode OR KMemoryState_FlagCanMapProcess"

definition KMemoryState_CodeData :: u32 where [flag_simps]:
  "KMemoryState_CodeData = 0x04 OR KMemoryState_FlagsData OR KMemoryState_FlagCanMapProcess OR
     KMemoryState_FlagCanCodeMemory OR KMemoryState_FlagCanPermissionLock"

definition KMemoryState_Normal :: u32 where [flag_simps]:
  "KMemoryState_Normal = 0x05 OR KMemoryState_FlagsData OR KMemoryState_FlagCanCodeMemory"

definition KMemoryState_Shared :: u32 where [flag_simps]:
  "KMemoryState_Shared = 0x06 OR KMemoryState_FlagMapped OR KMemoryState_FlagReferenceCounted OR
     KMemoryState_FlagLinearMapped"

definition KMemoryState_AliasCode :: u32 where [flag_simps]:
  "KMemoryState_AliasCode = 0x08 OR KMemoryState_FlagsCode OR KMemoryState_FlagCanMapProcess OR
     KMemoryState_FlagCanCodeAlias"

definition KMemoryState_AliasCodeData :: u32 where [flag_simps]:
  "KMemoryState_AliasCodeData = 0x09 OR KMemoryState_FlagsData OR KMemoryState_FlagCanMapProcess OR
     KMemoryState_FlagCanCodeAlias OR KMemoryState_FlagCanCodeMemory OR
     KMemoryState_FlagCanPermissionLock"

definition KMemoryState_Ipc :: u32 where [flag_simps]:
  "KMemoryState_Ipc = 0x0A OR KMemoryState_FlagsMisc OR KMemoryState_FlagCanAlignedDeviceMap OR
     KMemoryState_FlagCanUseIpc OR KMemoryState_FlagCanUseNonSecureIpc OR
     KMemoryState_FlagCanUseNonDeviceIpc"

definition KMemoryState_Stack :: u32 where [flag_simps]:
  "KMemoryState_Stack = 0x0B OR KMemoryState_FlagsMisc OR KMemoryState_FlagCanAlignedDeviceMap OR
     KMemoryState_FlagCanUseIpc OR KMemoryState_FlagCanUseNonSecureIpc OR
     KMemoryState_FlagCanUseNonDeviceIpc"

definition KMemoryState_ThreadLocal :: u32 where [flag_simps]:
  "KMemoryState_ThreadLocal = 0x0C OR KMemoryState_FlagLinearMapped"

definition KMemoryState_Transferred :: u32 where [flag_simps]:
  "KMemoryState_Transferred = 0x0D OR KMemoryState_FlagsMisc OR KMemoryState_FlagCanAlignedDeviceMap OR
     KMemoryState_FlagCanChangeAttribute OR KMemoryState_FlagCanUseIpc OR
     KMemoryState_FlagCanUseNonSecureIpc OR KMemoryState_FlagCanUseNonDeviceIpc"

definition KMemoryState_SharedTransferred :: u32 where [flag_simps]:
  "KMemoryState_SharedTransferred = 0x0E OR KMemoryState_FlagsMisc OR KMemoryState_FlagCanAlignedDeviceMap OR
     KMemoryState_FlagCanUseNonSecureIpc OR KMemoryState_FlagCanUseNonDeviceIpc"

definition KMemoryState_SharedCode :: u32 where [flag_simps]:
  "KMemoryState_SharedCode = 0x0F OR KMemoryState_FlagMapped OR KMemoryState_FlagReferenceCounted OR
     KMemoryState_FlagLinearMapped OR KMemoryState_FlagCanUseNonSecureIpc OR
     KMemoryState_FlagCanUseNonDeviceIpc"

definition KMemoryState_Inaccessible :: u32 where [flag_simps]:
  "KMemoryState_Inaccessible = 0x10"

definition KMemoryState_NonSecureIpc :: u32 where [flag_simps]:
  "KMemoryState_NonSecureIpc = 0x11 OR KMemoryState_FlagsMisc OR KMemoryState_FlagCanAlignedDeviceMap OR
     KMemoryState_FlagCanUseNonSecureIpc OR KMemoryState_FlagCanUseNonDeviceIpc"

definition KMemoryState_NonDeviceIpc :: u32 where [flag_simps]:
  "KMemoryState_NonDeviceIpc = 0x12 OR KMemoryState_FlagsMisc OR KMemoryState_FlagCanUseNonDeviceIpc"

definition KMemoryState_Kernel :: u32 where [flag_simps]:
  "KMemoryState_Kernel = 0x13"

definition KMemoryState_GeneratedCode :: u32 where [flag_simps]:
  "KMemoryState_GeneratedCode = 0x14 OR KMemoryState_FlagMapped OR KMemoryState_FlagReferenceCounted OR
     KMemoryState_FlagCanDebug OR KMemoryState_FlagLinearMapped"

definition KMemoryState_CodeOut :: u32 where [flag_simps]:
  "KMemoryState_CodeOut = 0x15 OR KMemoryState_FlagMapped OR KMemoryState_FlagReferenceCounted OR
     KMemoryState_FlagLinearMapped"

definition KMemoryState_Coverage :: u32 where [flag_simps]:
  "KMemoryState_Coverage = 0x16 OR KMemoryState_FlagMapped"

definition KMemoryState_Insecure :: u32 where [flag_simps]:
  "KMemoryState_Insecure = 0x17 OR KMemoryState_FlagMapped OR KMemoryState_FlagReferenceCounted OR
     KMemoryState_FlagLinearMapped OR KMemoryState_FlagCanChangeAttribute OR
     KMemoryState_FlagCanDeviceMap OR KMemoryState_FlagCanAlignedDeviceMap OR
     KMemoryState_FlagCanQueryPhysical OR KMemoryState_FlagCanUseNonSecureIpc OR
     KMemoryState_FlagCanUseNonDeviceIpc"

subsection \<open>KMemoryPermission\<close>

definition KMemoryPermission_None :: u8 where [flag_simps]:
  "KMemoryPermission_None = 0"

definition KMemoryPermission_All :: u8 where [flag_simps]:
  "KMemoryPermission_All = NOT KMemoryPermission_None"

definition KMemoryPermission_KernelShift :: nat where [flag_simps]:
  "KMemoryPermission_KernelShift = 3"

definition KMemoryPermission_KernelRead :: u8 where [flag_simps]:
  "KMemoryPermission_KernelRead = push_bit KMemoryPermission_KernelShift 1"

definition KMemoryPermission_KernelWrite :: u8 where [flag_simps]:
  "KMemoryPermission_KernelWrite = push_bit KMemoryPermission_KernelShift 2"

definition KMemoryPermission_KernelExecute :: u8 where [flag_simps]:
  "KMemoryPermission_KernelExecute = push_bit KMemoryPermission_KernelShift 4"

definition KMemoryPermission_NotMapped :: u8 where [flag_simps]:
  "KMemoryPermission_NotMapped = push_bit (2 * KMemoryPermission_KernelShift) 1"

definition KMemoryPermission_KernelReadWrite :: u8 where [flag_simps]:
  "KMemoryPermission_KernelReadWrite = KMemoryPermission_KernelRead OR KMemoryPermission_KernelWrite"

definition KMemoryPermission_KernelReadExecute :: u8 where [flag_simps]:
  "KMemoryPermission_KernelReadExecute = KMemoryPermission_KernelRead OR KMemoryPermission_KernelExecute"

definition KMemoryPermission_UserRead :: u8 where [flag_simps]:
  "KMemoryPermission_UserRead = 1 OR KMemoryPermission_KernelRead"

definition KMemoryPermission_UserWrite :: u8 where [flag_simps]:
  "KMemoryPermission_UserWrite = 2 OR KMemoryPermission_KernelWrite"

definition KMemoryPermission_UserExecute :: u8 where [flag_simps]:
  "KMemoryPermission_UserExecute = 4"

definition KMemoryPermission_UserReadWrite :: u8 where [flag_simps]:
  "KMemoryPermission_UserReadWrite = KMemoryPermission_UserRead OR KMemoryPermission_UserWrite"

definition KMemoryPermission_UserReadExecute :: u8 where [flag_simps]:
  "KMemoryPermission_UserReadExecute = KMemoryPermission_UserRead OR KMemoryPermission_UserExecute"

definition KMemoryPermission_UserMask :: u8 where [flag_simps]:
  "KMemoryPermission_UserMask = 1 OR 2 OR 4"

definition KMemoryPermission_IpcLockChangeMask :: u8 where [flag_simps]:
  "KMemoryPermission_IpcLockChangeMask = KMemoryPermission_NotMapped OR KMemoryPermission_UserReadWrite"

text \<open>The argument is a \<^verbatim>\<open>Svc::MemoryPermission\<close> (32 bits), cast to 8 bits as in the source.\<close>

definition ConvertToKMemoryPermission :: "u32 \<Rightarrow> u8" where
  "ConvertToKMemoryPermission perm =
     (ucast perm AND KMemoryPermission_UserMask) OR
     KMemoryPermission_KernelRead OR
     push_bit KMemoryPermission_KernelShift (ucast perm AND KMemoryPermission_UserWrite) OR
     (if perm = 0 then KMemoryPermission_NotMapped else KMemoryPermission_None)"

subsection \<open>KMemoryAttribute and KMemoryBlockDisableMergeAttribute\<close>

definition KMemoryAttribute_None :: u8 where [flag_simps]:
  "KMemoryAttribute_None = 0x00"

definition KMemoryAttribute_All :: u8 where [flag_simps]:
  "KMemoryAttribute_All = 0xFF"

definition KMemoryAttribute_UserMask :: u8 where [flag_simps]:
  "KMemoryAttribute_UserMask = KMemoryAttribute_All"

definition KMemoryAttribute_Locked :: u8 where [flag_simps]:
  "KMemoryAttribute_Locked = push_bit 0 1"

definition KMemoryAttribute_IpcLocked :: u8 where [flag_simps]:
  "KMemoryAttribute_IpcLocked = push_bit 1 1"

definition KMemoryAttribute_DeviceShared :: u8 where [flag_simps]:
  "KMemoryAttribute_DeviceShared = push_bit 2 1"

definition KMemoryAttribute_Uncached :: u8 where [flag_simps]:
  "KMemoryAttribute_Uncached = push_bit 3 1"

definition KMemoryAttribute_PermissionLocked :: u8 where [flag_simps]:
  "KMemoryAttribute_PermissionLocked = push_bit 4 1"

definition KMemoryAttribute_SetMask :: u8 where [flag_simps]:
  "KMemoryAttribute_SetMask = KMemoryAttribute_Uncached OR KMemoryAttribute_PermissionLocked"

definition DisableMergeAttribute_None :: u8 where [flag_simps]:
  "DisableMergeAttribute_None = 0"

definition DisableMergeAttribute_Normal :: u8 where [flag_simps]:
  "DisableMergeAttribute_Normal = push_bit 0 1"

definition DisableMergeAttribute_DeviceLeft :: u8 where [flag_simps]:
  "DisableMergeAttribute_DeviceLeft = push_bit 1 1"

definition DisableMergeAttribute_IpcLeft :: u8 where [flag_simps]:
  "DisableMergeAttribute_IpcLeft = push_bit 2 1"

definition DisableMergeAttribute_Locked :: u8 where [flag_simps]:
  "DisableMergeAttribute_Locked = push_bit 3 1"

definition DisableMergeAttribute_DeviceRight :: u8 where [flag_simps]:
  "DisableMergeAttribute_DeviceRight = push_bit 4 1"

definition DisableMergeAttribute_AllLeft :: u8 where [flag_simps]:
  "DisableMergeAttribute_AllLeft = DisableMergeAttribute_Normal OR DisableMergeAttribute_DeviceLeft OR DisableMergeAttribute_IpcLeft OR DisableMergeAttribute_Locked"

definition DisableMergeAttribute_AllRight :: u8 where [flag_simps]:
  "DisableMergeAttribute_AllRight = DisableMergeAttribute_DeviceRight"


section \<open>The class KMemoryBlock\<close>

text \<open>
  \<open>this_ptr\<close> is the address of the object: blocks are created and destroyed through
  pointers, which the update allocator hands out and takes back.
\<close>

record KMemoryBlock =
  this_ptr :: u64
  m_device_disable_merge_left_count :: u16
  m_device_disable_merge_right_count :: u16
  m_address :: u64
  m_num_pages :: u64
  m_memory_state :: u32
  m_ipc_lock_count :: u16
  m_device_use_count :: u16
  m_ipc_disable_merge_count :: u16
  m_permission :: u8
  m_original_permission :: u8
  m_attribute :: u8
  m_disable_merge_attribute :: u8

definition GetSize :: "KMemoryBlock \<Rightarrow> u64" where
  "GetSize b = m_num_pages b * PageSize"

definition GetEndAddress :: "KMemoryBlock \<Rightarrow> u64" where
  "GetEndAddress b = m_address b + GetSize b"

definition GetLastAddress :: "KMemoryBlock \<Rightarrow> u64" where
  "GetLastAddress b = GetEndAddress b - 1"

definition KMemoryBlock_Compare :: "KMemoryBlock \<Rightarrow> KMemoryBlock \<Rightarrow> int" where
  "KMemoryBlock_Compare lhs rhs =
     (if m_address lhs < m_address rhs then -1
      else if m_address lhs \<le> GetLastAddress rhs then 0
      else 1)"

text \<open>The constructor with arguments: the members it does not list have initialiser zero.\<close>

definition KMemoryBlock_ctor :: "u64 \<Rightarrow> u64 \<Rightarrow> u64 \<Rightarrow> u32 \<Rightarrow> u8 \<Rightarrow> u8 \<Rightarrow> KMemoryBlock" where
  "KMemoryBlock_ctor this addr np ms p attr =
     \<lparr>this_ptr = this,
      m_device_disable_merge_left_count = 0, m_device_disable_merge_right_count = 0,
      m_address = addr, m_num_pages = np, m_memory_state = ms,
      m_ipc_lock_count = 0, m_device_use_count = 0, m_ipc_disable_merge_count = 0,
      m_permission = p, m_original_permission = KMemoryPermission_None,
      m_attribute = attr, m_disable_merge_attribute = DisableMergeAttribute_None\<rparr>"

text \<open>\<open>Initialize\<close> leaves \<open>m_ipc_disable_merge_count\<close> as it was, like the source.\<close>

definition KMemoryBlock_Initialize :: "u64 \<Rightarrow> u64 \<Rightarrow> u32 \<Rightarrow> u8 \<Rightarrow> u8 \<Rightarrow> KMemoryBlock \<Rightarrow> KMemoryBlock" where
  "KMemoryBlock_Initialize addr np ms p attr b =
     b\<lparr>m_device_disable_merge_left_count := 0, m_device_disable_merge_right_count := 0,
       m_address := addr, m_num_pages := np, m_memory_state := ms,
       m_ipc_lock_count := 0, m_device_use_count := 0,
       m_permission := p, m_original_permission := KMemoryPermission_None,
       m_attribute := attr, m_disable_merge_attribute := DisableMergeAttribute_None\<rparr>"

definition AttributeIgnoreMask :: u8 where [flag_simps]:
  "AttributeIgnoreMask = KMemoryAttribute_IpcLocked OR KMemoryAttribute_DeviceShared"

definition HasProperties :: "KMemoryBlock \<Rightarrow> u32 \<Rightarrow> u8 \<Rightarrow> u8 \<Rightarrow> bool" where
  "HasProperties b s p a \<longleftrightarrow>
     m_memory_state b = s \<and> m_permission b = p \<and>
     (m_attribute b OR AttributeIgnoreMask) = (a OR AttributeIgnoreMask)"

definition HasSameProperties :: "KMemoryBlock \<Rightarrow> KMemoryBlock \<Rightarrow> bool" where
  "HasSameProperties b rhs \<longleftrightarrow>
     m_memory_state b = m_memory_state rhs \<and> m_permission b = m_permission rhs \<and>
     m_original_permission b = m_original_permission rhs \<and>
     m_attribute b = m_attribute rhs \<and> m_ipc_lock_count b = m_ipc_lock_count rhs \<and>
     m_device_use_count b = m_device_use_count rhs"

definition CanMergeWith :: "KMemoryBlock \<Rightarrow> KMemoryBlock \<Rightarrow> bool" where
  "CanMergeWith b rhs \<longleftrightarrow>
     HasSameProperties b rhs \<and>
     m_disable_merge_attribute b AND DisableMergeAttribute_AllRight = DisableMergeAttribute_None \<and>
     m_disable_merge_attribute rhs AND DisableMergeAttribute_AllLeft = DisableMergeAttribute_None"

definition KMemoryBlock_Contains :: "KMemoryBlock \<Rightarrow> u64 \<Rightarrow> bool" where
  "KMemoryBlock_Contains b addr \<longleftrightarrow> m_address b \<le> addr \<and> addr \<le> GetEndAddress b"

definition KMemoryBlock_Add :: "KMemoryBlock \<Rightarrow> KMemoryBlock \<Rightarrow> KMemoryBlock option" where
  "KMemoryBlock_Add b added =
     do {
       ASSERT (m_num_pages added > 0);
       ASSERT (m_address b + GetSize added - 1 < GetEndAddress b + GetSize added - 1);
       Some (b\<lparr>m_num_pages := m_num_pages b + m_num_pages added,
               m_disable_merge_attribute :=
                 m_disable_merge_attribute b OR m_disable_merge_attribute added,
               m_device_disable_merge_right_count := m_device_disable_merge_right_count added\<rparr>)
     }"

definition KMemoryBlock_Update ::
    "u32 \<Rightarrow> u8 \<Rightarrow> u8 \<Rightarrow> bool \<Rightarrow> u8 \<Rightarrow> u8 \<Rightarrow> KMemoryBlock \<Rightarrow> KMemoryBlock option" where
  "KMemoryBlock_Update s p a set_disable_merge_attr set_mask clear_mask b =
     do {
       ASSERT (m_original_permission b = KMemoryPermission_None);
       ASSERT (m_attribute b AND KMemoryAttribute_IpcLocked = KMemoryAttribute_None);
       let b1 = b\<lparr>m_memory_state := s, m_permission := p,
                  m_attribute := a OR (m_attribute b AND
                    (KMemoryAttribute_IpcLocked OR KMemoryAttribute_DeviceShared))\<rparr>;
       let b2 = (if set_disable_merge_attr \<and> set_mask \<noteq> 0
                 then b1\<lparr>m_disable_merge_attribute := m_disable_merge_attribute b1 OR set_mask\<rparr>
                 else b1);
       Some (if clear_mask \<noteq> 0
             then b2\<lparr>m_disable_merge_attribute := m_disable_merge_attribute b2 AND NOT clear_mask\<rparr>
             else b2)
     }"

definition KMemoryBlock_UpdateAttribute :: "u8 \<Rightarrow> u8 \<Rightarrow> KMemoryBlock \<Rightarrow> KMemoryBlock option" where
  "KMemoryBlock_UpdateAttribute msk attr b =
     do {
       ASSERT (msk AND KMemoryAttribute_IpcLocked = 0);
       ASSERT (msk AND KMemoryAttribute_DeviceShared = 0);
       Some (b\<lparr>m_attribute := (m_attribute b AND NOT msk) OR attr\<rparr>)
     }"

text \<open>\<open>Split\<close> fills the new block (at pointer \<open>blk\<close>) with the part before \<open>addr\<close>; the result is
  the pair of the new block and of the rest, which is the block itself.\<close>

definition KMemoryBlock_Split ::
    "u64 \<Rightarrow> u64 \<Rightarrow> KMemoryBlock \<Rightarrow> (KMemoryBlock \<times> KMemoryBlock) option" where
  "KMemoryBlock_Split blk addr b =
     do {
       ASSERT (m_address b < addr);
       ASSERT (KMemoryBlock_Contains b addr);
       ASSERT (IsAligned addr PageSize);
       let np = (addr - m_address b) div PageSize;
       Some
         (\<lparr>this_ptr = blk,
           m_device_disable_merge_left_count = m_device_disable_merge_left_count b,
           m_device_disable_merge_right_count = 0,
           m_address = m_address b, m_num_pages = np,
           m_memory_state = m_memory_state b,
           m_ipc_lock_count = m_ipc_lock_count b,
           m_device_use_count = m_device_use_count b,
           m_ipc_disable_merge_count = m_ipc_disable_merge_count b,
           m_permission = m_permission b,
           m_original_permission = m_original_permission b,
           m_attribute = m_attribute b,
           m_disable_merge_attribute = m_disable_merge_attribute b AND DisableMergeAttribute_AllLeft\<rparr>,
          b\<lparr>m_address := addr, m_num_pages := m_num_pages b - np,
            m_ipc_disable_merge_count := 0,
            m_device_disable_merge_left_count := 0,
            m_disable_merge_attribute :=
              m_disable_merge_attribute b AND DisableMergeAttribute_AllRight\<rparr>)
     }"

subsection \<open>Sharing with devices\<close>

definition UpdateDeviceDisableMergeStateForShareLeft ::
    "u8 \<Rightarrow> bool \<Rightarrow> bool \<Rightarrow> KMemoryBlock \<Rightarrow> KMemoryBlock option" where
  "UpdateDeviceDisableMergeStateForShareLeft new_perm left right b =
     (if left then
        do {
          let n = m_device_disable_merge_left_count b + 1;
          ASSERT (n > 0);
          Some (b\<lparr>m_disable_merge_attribute :=
                    m_disable_merge_attribute b OR DisableMergeAttribute_DeviceLeft,
                  m_device_disable_merge_left_count := n\<rparr>)
        }
      else Some b)"

definition UpdateDeviceDisableMergeStateForShareRight ::
    "u8 \<Rightarrow> bool \<Rightarrow> bool \<Rightarrow> KMemoryBlock \<Rightarrow> KMemoryBlock option" where
  "UpdateDeviceDisableMergeStateForShareRight new_perm left right b =
     (if right then
        do {
          let n = m_device_disable_merge_right_count b + 1;
          ASSERT (n > 0);
          Some (b\<lparr>m_disable_merge_attribute :=
                    m_disable_merge_attribute b OR DisableMergeAttribute_DeviceRight,
                  m_device_disable_merge_right_count := n\<rparr>)
        }
      else Some b)"

definition UpdateDeviceDisableMergeStateForShare ::
    "u8 \<Rightarrow> bool \<Rightarrow> bool \<Rightarrow> KMemoryBlock \<Rightarrow> KMemoryBlock option" where
  "UpdateDeviceDisableMergeStateForShare new_perm left right b =
     do {
       b1 \<leftarrow> UpdateDeviceDisableMergeStateForShareLeft new_perm left right b;
       UpdateDeviceDisableMergeStateForShareRight new_perm left right b1
     }"

definition ShareToDevice :: "u8 \<Rightarrow> bool \<Rightarrow> bool \<Rightarrow> KMemoryBlock \<Rightarrow> KMemoryBlock option" where
  "ShareToDevice new_perm left right b =
     do {
       ASSERT (m_attribute b AND KMemoryAttribute_DeviceShared = KMemoryAttribute_DeviceShared \<or>
               m_device_use_count b = 0);
       let new_count = m_device_use_count b + 1;
       ASSERT (new_count > 0);
       let b1 = b\<lparr>m_device_use_count := new_count,
                  m_attribute := m_attribute b OR KMemoryAttribute_DeviceShared\<rparr>;
       UpdateDeviceDisableMergeStateForShare new_perm left right b1
     }"

definition UpdateDeviceDisableMergeStateForUnshareLeft ::
    "u8 \<Rightarrow> bool \<Rightarrow> bool \<Rightarrow> KMemoryBlock \<Rightarrow> KMemoryBlock option" where
  "UpdateDeviceDisableMergeStateForUnshareLeft new_perm left right b =
     (if left \<and> m_device_disable_merge_left_count b = 0 then Some b
      else
        let n0 = (if left then m_device_disable_merge_left_count b - 1
                  else m_device_disable_merge_left_count b);
            n = min n0 (m_device_use_count b);
            b1 = b\<lparr>m_device_disable_merge_left_count := n\<rparr>
        in Some (if n = 0
                 then b1\<lparr>m_disable_merge_attribute :=
                           m_disable_merge_attribute b1 AND NOT DisableMergeAttribute_DeviceLeft\<rparr>
                 else b1))"

definition UpdateDeviceDisableMergeStateForUnshareRight ::
    "u8 \<Rightarrow> bool \<Rightarrow> bool \<Rightarrow> KMemoryBlock \<Rightarrow> KMemoryBlock option" where
  "UpdateDeviceDisableMergeStateForUnshareRight new_perm left right b =
     (if right then
        do {
          let old = m_device_disable_merge_right_count b;
          let b1 = b\<lparr>m_device_disable_merge_right_count := old - 1\<rparr>;
          ASSERT (old > 0);
          Some (if old = 1
                then b1\<lparr>m_disable_merge_attribute :=
                          m_disable_merge_attribute b1 AND NOT DisableMergeAttribute_DeviceRight\<rparr>
                else b1)
        }
      else Some b)"

definition UpdateDeviceDisableMergeStateForUnshare ::
    "u8 \<Rightarrow> bool \<Rightarrow> bool \<Rightarrow> KMemoryBlock \<Rightarrow> KMemoryBlock option" where
  "UpdateDeviceDisableMergeStateForUnshare new_perm left right b =
     do {
       b1 \<leftarrow> UpdateDeviceDisableMergeStateForUnshareLeft new_perm left right b;
       UpdateDeviceDisableMergeStateForUnshareRight new_perm left right b1
     }"

definition UnshareToDevice :: "u8 \<Rightarrow> bool \<Rightarrow> bool \<Rightarrow> KMemoryBlock \<Rightarrow> KMemoryBlock option" where
  "UnshareToDevice new_perm left right b =
     do {
       ASSERT (m_attribute b AND KMemoryAttribute_DeviceShared = KMemoryAttribute_DeviceShared);
       let old_count = m_device_use_count b;
       ASSERT (old_count > 0);
       let b1 = b\<lparr>m_device_use_count := old_count - 1\<rparr>;
       let b2 = (if old_count = 1
                 then b1\<lparr>m_attribute := m_attribute b1 AND NOT KMemoryAttribute_DeviceShared\<rparr>
                 else b1);
       UpdateDeviceDisableMergeStateForUnshare new_perm left right b2
     }"

definition UnshareToDeviceRight :: "u8 \<Rightarrow> bool \<Rightarrow> bool \<Rightarrow> KMemoryBlock \<Rightarrow> KMemoryBlock option" where
  "UnshareToDeviceRight new_perm left right b =
     do {
       ASSERT (m_attribute b AND KMemoryAttribute_DeviceShared = KMemoryAttribute_DeviceShared);
       let old_count = m_device_use_count b;
       ASSERT (old_count > 0);
       let b1 = b\<lparr>m_device_use_count := old_count - 1\<rparr>;
       let b2 = (if old_count = 1
                 then b1\<lparr>m_attribute := m_attribute b1 AND NOT KMemoryAttribute_DeviceShared\<rparr>
                 else b1);
       UpdateDeviceDisableMergeStateForUnshareRight new_perm left right b2
     }"

subsection \<open>Locking for IPC\<close>

definition LockForIpc :: "u8 \<Rightarrow> bool \<Rightarrow> bool \<Rightarrow> KMemoryBlock \<Rightarrow> KMemoryBlock option" where
  "LockForIpc new_perm left right b =
     do {
       ASSERT (m_attribute b AND KMemoryAttribute_IpcLocked = KMemoryAttribute_IpcLocked \<or>
               m_ipc_lock_count b = 0);
       let new_lock_count = m_ipc_lock_count b + 1;
       ASSERT (new_lock_count > 0);
       let b1 = b\<lparr>m_ipc_lock_count := new_lock_count\<rparr>;
       b2 \<leftarrow> (if new_lock_count = 1 then
                do {
                  ASSERT (m_original_permission b1 = KMemoryPermission_None);
                  ASSERT ((m_permission b1 OR new_perm OR KMemoryPermission_NotMapped) =
                          (m_permission b1 OR KMemoryPermission_NotMapped));
                  ASSERT (m_permission b1 AND KMemoryPermission_UserExecute \<noteq>
                            KMemoryPermission_UserExecute \<or>
                          new_perm = KMemoryPermission_UserRead);
                  Some (b1\<lparr>m_original_permission := m_permission b1,
                           m_permission := (new_perm AND KMemoryPermission_IpcLockChangeMask) OR
                             (m_permission b1 AND NOT KMemoryPermission_IpcLockChangeMask)\<rparr>)
                }
              else Some b1);
       let b3 = b2\<lparr>m_attribute := m_attribute b2 OR KMemoryAttribute_IpcLocked\<rparr>;
       if left then
         do {
           let n = m_ipc_disable_merge_count b3 + 1;
           ASSERT (n > 0);
           Some (b3\<lparr>m_disable_merge_attribute :=
                      m_disable_merge_attribute b3 OR DisableMergeAttribute_IpcLeft,
                    m_ipc_disable_merge_count := n\<rparr>)
         }
       else Some b3
     }"

definition UnlockForIpc :: "u8 \<Rightarrow> bool \<Rightarrow> bool \<Rightarrow> KMemoryBlock \<Rightarrow> KMemoryBlock option" where
  "UnlockForIpc new_perm left right b =
     do {
       ASSERT (m_attribute b AND KMemoryAttribute_IpcLocked = KMemoryAttribute_IpcLocked);
       let old_lock_count = m_ipc_lock_count b;
       ASSERT (old_lock_count > 0);
       let b1 = b\<lparr>m_ipc_lock_count := old_lock_count - 1\<rparr>;
       b2 \<leftarrow> (if old_lock_count = 1 then
                do {
                  ASSERT (m_original_permission b1 \<noteq> KMemoryPermission_None);
                  Some (b1\<lparr>m_permission := m_original_permission b1,
                           m_original_permission := KMemoryPermission_None,
                           m_attribute := m_attribute b1 AND NOT KMemoryAttribute_IpcLocked\<rparr>)
                }
              else Some b1);
       if left then
         do {
           let old = m_ipc_disable_merge_count b2;
           let b3 = b2\<lparr>m_ipc_disable_merge_count := old - 1\<rparr>;
           ASSERT (old > 0);
           Some (if old = 1
                 then b3\<lparr>m_disable_merge_attribute :=
                           m_disable_merge_attribute b3 AND NOT DisableMergeAttribute_IpcLeft\<rparr>
                 else b3)
         }
       else Some b2
     }"


section \<open>Memory information\<close>

text \<open>\<open>KMemoryInfo\<close> and the structure \<^verbatim>\<open>Svc::MemoryInfo\<close> that memory queries report to the guest.\<close>

record KMemoryInfo =
  mi_address :: u64
  mi_size :: u64
  mi_state :: u32
  mi_device_disable_merge_left_count :: u16
  mi_device_disable_merge_right_count :: u16
  mi_ipc_lock_count :: u16
  mi_device_use_count :: u16
  mi_ipc_disable_merge_count :: u16
  mi_permission :: u8
  mi_attribute :: u8
  mi_original_permission :: u8
  mi_disable_merge_attribute :: u8

record SvcMemoryInfo =
  svc_base_address :: u64
  svc_size :: u64
  svc_state :: u32
  svc_attribute :: u32
  svc_permission :: u32
  svc_ipc_count :: u32
  svc_device_count :: u32

definition GetMemoryInfo :: "KMemoryBlock \<Rightarrow> KMemoryInfo" where
  "GetMemoryInfo b =
     \<lparr>mi_address = m_address b, mi_size = GetSize b, mi_state = m_memory_state b,
      mi_device_disable_merge_left_count = m_device_disable_merge_left_count b,
      mi_device_disable_merge_right_count = m_device_disable_merge_right_count b,
      mi_ipc_lock_count = m_ipc_lock_count b, mi_device_use_count = m_device_use_count b,
      mi_ipc_disable_merge_count = m_ipc_disable_merge_count b,
      mi_permission = m_permission b, mi_attribute = m_attribute b,
      mi_original_permission = m_original_permission b,
      mi_disable_merge_attribute = m_disable_merge_attribute b\<rparr>"

definition GetSvcMemoryInfo :: "KMemoryInfo \<Rightarrow> SvcMemoryInfo" where
  "GetSvcMemoryInfo i =
     \<lparr>svc_base_address = mi_address i, svc_size = mi_size i,
      svc_state = mi_state i AND KMemoryState_Mask,
      svc_attribute = ucast (mi_attribute i AND KMemoryAttribute_UserMask),
      svc_permission = ucast (mi_permission i AND KMemoryPermission_UserMask),
      svc_ipc_count = ucast (mi_ipc_lock_count i), svc_device_count = ucast (mi_device_use_count i)\<rparr>"

section \<open>Extent and properties of a block\<close>

definition bstart :: "KMemoryBlock \<Rightarrow> nat" where "bstart b = unat (m_address b)"
definition bpages :: "KMemoryBlock \<Rightarrow> nat" where "bpages b = unat (m_num_pages b)"
definition bend :: "KMemoryBlock \<Rightarrow> nat" where "bend b = bstart b + bpages b * 4096"

definition block_wf :: "KMemoryBlock \<Rightarrow> bool" where
  "block_wf b \<longleftrightarrow> 0 < bpages b \<and> bstart b mod 4096 = 0 \<and> bend b < 2 ^ 64"

lemma block_wf_less: "block_wf b \<Longrightarrow> bstart b < bend b"
  by (simp add: block_wf_def bend_def)

lemma bend_aligned: "block_wf b \<Longrightarrow> bend b mod 4096 = 0"
  by (simp add: block_wf_def bend_def)

lemma unat_GetSize [geometry]: "block_wf b \<Longrightarrow> unat (GetSize b) = bpages b * 4096"
  by (simp add: GetSize_def block_wf_def bend_def bpages_def unat_mult_no_wrap)

lemma unat_GetEndAddress [geometry]: "block_wf b \<Longrightarrow> unat (GetEndAddress b) = bend b"
  using unat_GetSize [of b]
  by (simp add: GetEndAddress_def block_wf_def bend_def bstart_def unat_plus_no_wrap)

lemma unat_GetLastAddress [geometry]: "block_wf b \<Longrightarrow> unat (GetLastAddress b) = bend b - 1"
  using unat_GetEndAddress [of b] block_wf_less [of b]
  by (simp add: GetLastAddress_def unat_minus_no_wrap)

lemma Compare_eq:
  assumes "block_wf x"
  shows "KMemoryBlock_Compare k x = (if bstart k < bstart x then -1 else if bstart k < bend x then 0 else 1)"
  using assms block_wf_less [OF assms] unat_GetLastAddress [OF assms]
  by (auto simp: KMemoryBlock_Compare_def word_less_nat_alt word_le_nat_alt bstart_def)

text \<open>The properties that two blocks must share to be merged.\<close>

record MemProps =
  p_state :: u32
  p_permission :: u8
  p_original_permission :: u8
  p_attribute :: u8
  p_ipc_lock_count :: u16
  p_device_use_count :: u16

definition props_of :: "KMemoryBlock \<Rightarrow> MemProps" where
  "props_of b =
     \<lparr>p_state = m_memory_state b, p_permission = m_permission b,
      p_original_permission = m_original_permission b, p_attribute = m_attribute b,
      p_ipc_lock_count = m_ipc_lock_count b, p_device_use_count = m_device_use_count b\<rparr>"

lemma HasSameProperties_iff: "HasSameProperties b c \<longleftrightarrow> props_of b = props_of c"
  by (auto simp: HasSameProperties_def props_of_def)

definition left_bits :: "KMemoryBlock \<Rightarrow> u8" where
  "left_bits b = m_disable_merge_attribute b AND DisableMergeAttribute_AllLeft"

definition right_bits :: "KMemoryBlock \<Rightarrow> u8" where
  "right_bits b = m_disable_merge_attribute b AND DisableMergeAttribute_AllRight"

lemma CanMergeWith_iff:
  "CanMergeWith b c \<longleftrightarrow> props_of b = props_of c \<and> right_bits b = 0 \<and> left_bits c = 0"
  by (auto simp: CanMergeWith_def HasSameProperties_iff right_bits_def left_bits_def
      DisableMergeAttribute_None_def)

lemma and_self_mask: "((x :: 'a::len word) AND m) AND m = x AND m"
  by (simp add: and.assoc)

lemma KMemoryBlock_Split_ok:
  assumes "block_wf b" "bstart b < unat addr" "unat addr < bend b" "unat addr mod 4096 = 0"
  obtains l r where "KMemoryBlock_Split p addr b = Some (l, r)"
    "block_wf l" "bstart l = bstart b" "bend l = unat addr" "this_ptr l = p"
    "block_wf r" "bstart r = unat addr" "bend r = bend b" "this_ptr r = this_ptr b"
    "props_of l = props_of b" "props_of r = props_of b"
    "left_bits l = left_bits b" "right_bits r = right_bits b"
    "m_address r = addr"
proof -
  let ?np = "(addr - m_address b) div PageSize"
  have d: "unat (addr - m_address b) = unat addr - bstart b"
    using assms(2) by (simp add: bstart_def unat_minus_no_wrap)
  have al: "bstart b mod 4096 = 0"
    using assms(1) by (simp add: block_wf_def)
  have np: "unat ?np * 4096 = unat addr - bstart b"
  proof -
    have "unat ?np = (unat addr - bstart b) div 4096"
      using d by (simp add: unat_div_distrib)
    then show ?thesis
      using assms(4) al by (simp add: mod_eq_0_iff_dvd dvd_diff_nat)
  qed
  have rest: "unat (m_num_pages b - ?np) = bpages b - unat ?np" "unat ?np \<le> bpages b"
  proof -
    have "unat ?np * 4096 \<le> bpages b * 4096"
      using np assms(3) by (simp add: bend_def)
    then show le: "unat ?np \<le> bpages b" by simp
    then show "unat (m_num_pages b - ?np) = bpages b - unat ?np"
      by (simp add: bpages_def unat_minus_no_wrap)
  qed
  have "KMemoryBlock_Contains b addr"
    using assms unat_GetEndAddress [OF assms(1)]
    by (simp add: KMemoryBlock_Contains_def word_le_nat_alt bstart_def)
  moreover have "IsAligned addr PageSize" "m_address b < addr"
    using assms(2,4) by (simp_all add: IsAligned_PageSize_iff [simplified] bstart_def word_less_nat_alt)
  ultimately obtain l r where lr: "KMemoryBlock_Split p addr b = Some (l, r)"
    and l: "m_address l = m_address b" "m_num_pages l = ?np" "this_ptr l = p" "props_of l = props_of b"
      "m_disable_merge_attribute l = left_bits b"
    and r: "m_address r = addr" "m_num_pages r = m_num_pages b - ?np" "this_ptr r = this_ptr b"
      "props_of r = props_of b" "m_disable_merge_attribute r = right_bits b"
    by (simp add: KMemoryBlock_Split_def Let_def props_of_def left_bits_def right_bits_def)
  have bl: "bstart l = bstart b" "bend l = unat addr" and br: "bstart r = unat addr" "bend r = bend b"
    using l r np rest assms(2,3)
    by (auto simp: bstart_def bend_def bpages_def diff_mult_distrib)
  have "0 < unat ?np"
    using np assms(2) by (metis mult_0 not_gr0 zero_less_diff less_irrefl)
  moreover have "0 < bpages b - unat ?np"
  proof -
    have "unat ?np * 4096 < bpages b * 4096"
      using np assms(2,3) bend_def [of b] by linarith
    then show ?thesis by simp
  qed
  ultimately have "block_wf l" "block_wf r"
    using bl br assms al l(2) r(2) rest by (auto simp: block_wf_def bpages_def)
  moreover have "left_bits l = left_bits b" "right_bits r = right_bits b"
    using l(5) r(5) by (simp_all add: left_bits_def right_bits_def and_self_mask)
  ultimately show ?thesis
    using lr l(3,4) r(1,3,4) bl br by (intro that [of l r])
qed

lemma KMemoryBlock_Add_ok:
  assumes "block_wf b" "block_wf c" "bend b = bstart c"
  obtains d where "KMemoryBlock_Add b c = Some d" "block_wf d" "bstart d = bstart b" "bend d = bend c"
    "props_of d = props_of b" "this_ptr d = this_ptr b"
    "m_disable_merge_attribute d = m_disable_merge_attribute b OR m_disable_merge_attribute c"
proof -
  have sz: "unat (m_address b + GetSize c) = bstart b + bpages c * 4096"
    "unat (GetEndAddress b + GetSize c) = bend c"
    using assms by (simp_all add: unat_plus_no_wrap geometry bstart_def block_wf_def bend_def)
  have pg: "unat (m_num_pages b + m_num_pages c) = bpages b + bpages c"
    using assms by (simp add: bpages_def unat_plus_no_wrap block_wf_def bend_def)
  have "m_address b + GetSize c - 1 < GetEndAddress b + GetSize c - 1"
    using assms(1,2) sz block_wf_less [OF assms(2)]
    by (auto simp: word_less_nat_alt unat_minus_no_wrap block_wf_def bend_def assms(3) [symmetric])
  moreover have "m_num_pages c > 0"
    using assms(2) by (simp add: block_wf_def bpages_def word_less_nat_alt)
  ultimately have "KMemoryBlock_Add b c = Some
      (b\<lparr>m_num_pages := m_num_pages b + m_num_pages c,
         m_disable_merge_attribute := m_disable_merge_attribute b OR m_disable_merge_attribute c,
         m_device_disable_merge_right_count := m_device_disable_merge_right_count c\<rparr>)"
    (is "_ = Some ?d") by (simp add: KMemoryBlock_Add_def)
  then show ?thesis
  proof (rule that)
    show "bstart ?d = bstart b" "bend ?d = bend c" "props_of ?d = props_of b" "this_ptr ?d = this_ptr b"
      "m_disable_merge_attribute ?d = m_disable_merge_attribute b OR m_disable_merge_attribute c"
      using pg assms(3) by (simp_all add: bstart_def bend_def bpages_def props_of_def algebra_simps)
    then show "block_wf ?d"
      using assms pg by (simp add: block_wf_def bpages_def)
  qed
qed

end
