(* ===== verification/KMemoryBlockManager.thy ===== *)
theory KMemoryBlockManager
  imports KMemoryBlock KSlabHeap "HOL-Library.Multiset"
begin

text \<open>
  \<open>KMemoryBlockManager\<close> and its update allocator
  (\<^verbatim>\<open>k_memory_block_manager.h\<close>, \<^verbatim>\<open>k_memory_block_manager.cpp\<close>): the ordered set of blocks
  that tile the address space of a process.

  The intrusive red-black tree is represented by the list of its nodes in order, an iterator by
  an index into that list, and the end iterator by its length. \<open>tree_find\<close> and
  \<open>tree_insert\<close> use the comparison of the source: \<^verbatim>\<open>RB_FIND\<close> stops at a node that compares
  equal, and \<^verbatim>\<open>RB_INSERT\<close> does not link a node that compares equal to one in the tree, in which
  case the iterator that \<open>insert\<close> returns points outside the tree (a fault here).
  Stepping before the first node or dereferencing the end iterator is a fault too.

  The four update operations share one loop body in the source, which differs only in the test
  that selects a block and in the change made to it; these are the parameters \<open>needs\<close> and
  \<open>act\<close> of \<open>update_step\<close> and \<open>update_loop\<close>.
\<close>

section \<open>The tree\<close>

definition tree_find :: "KMemoryBlock \<Rightarrow> KMemoryBlock list \<Rightarrow> nat" where
  "tree_find k t = length (takeWhile (\<lambda>b. KMemoryBlock_Compare k b \<noteq> 0) t)"

definition tree_insert :: "KMemoryBlock \<Rightarrow> KMemoryBlock list \<Rightarrow> (nat \<times> KMemoryBlock list) option" where
  "tree_insert b t =
     (let i = length (takeWhile (\<lambda>x. KMemoryBlock_Compare b x > 0) t)
      in if i < length t \<and> KMemoryBlock_Compare b (t ! i) = 0 then None
         else Some (i, take i t @ b # drop i t))"

definition tree_erase :: "nat \<Rightarrow> KMemoryBlock list \<Rightarrow> KMemoryBlock list option" where
  "tree_erase i t = (if i < length t then Some (take i t @ drop (Suc i) t) else None)"

section \<open>The update allocator\<close>

definition MaxBlocks :: nat where "MaxBlocks = 2"

record UpdateAllocator =
  ua_blocks :: "u64 option list"
  ua_index :: nat
  ua_slab :: KDynamicResourceManager

fun ua_initialize_loop ::
    "nat \<Rightarrow> nat \<Rightarrow> nat \<Rightarrow> UpdateAllocator \<Rightarrow> (Result \<times> UpdateAllocator) option" where
  "ua_initialize_loop obj_size 0 i a = Some (ResultSuccess, a)"
| "ua_initialize_loop obj_size (Suc n) i a =
     do {
       (p, slab) \<leftarrow> KDynamicResourceManager_Allocate obj_size (ua_slab a);
       bs \<leftarrow> array_set (ua_blocks a) (ua_index a + i) p;
       let a1 = a\<lparr>ua_slab := slab, ua_blocks := bs\<rparr>;
       if p = None then Some (ResultOutOfResource, a1)
       else ua_initialize_loop obj_size n (Suc i) a1
     }"

definition UpdateAllocator_Initialize ::
    "nat \<Rightarrow> nat \<Rightarrow> UpdateAllocator \<Rightarrow> (Result \<times> UpdateAllocator) option" where
  "UpdateAllocator_Initialize obj_size num_blocks a =
     do {
       ASSERT (num_blocks \<le> MaxBlocks);
       ua_initialize_loop obj_size num_blocks 0 (a\<lparr>ua_index := MaxBlocks - num_blocks\<rparr>)
     }"

definition UpdateAllocator_ctor ::
    "nat \<Rightarrow> KDynamicResourceManager \<Rightarrow> nat \<Rightarrow> (Result \<times> UpdateAllocator) option" where
  "UpdateAllocator_ctor obj_size sm num_blocks =
     UpdateAllocator_Initialize obj_size num_blocks
       \<lparr>ua_blocks = replicate MaxBlocks None, ua_index = MaxBlocks, ua_slab = sm\<rparr>"

fun free_held :: "u64 option list \<Rightarrow> KDynamicResourceManager \<Rightarrow> KDynamicResourceManager" where
  "free_held [] sm = sm"
| "free_held (None # bs) sm = free_held bs sm"
| "free_held (Some p # bs) sm = free_held bs (KDynamicResourceManager_Free p sm)"

definition UpdateAllocator_dtor :: "UpdateAllocator \<Rightarrow> KDynamicResourceManager" where
  "UpdateAllocator_dtor a = free_held (ua_blocks a) (ua_slab a)"

definition UpdateAllocator_Allocate :: "UpdateAllocator \<Rightarrow> (u64 \<times> UpdateAllocator) option" where
  "UpdateAllocator_Allocate a =
     do {
       ASSERT (ua_index a < MaxBlocks);
       b \<leftarrow> array_get (ua_blocks a) (ua_index a);
       p \<leftarrow> b;
       bs \<leftarrow> array_set (ua_blocks a) (ua_index a) None;
       Some (p, a\<lparr>ua_blocks := bs, ua_index := ua_index a + 1\<rparr>)
     }"

definition UpdateAllocator_Free :: "u64 \<Rightarrow> UpdateAllocator \<Rightarrow> UpdateAllocator option" where
  "UpdateAllocator_Free p a =
     do {
       ASSERT (ua_index a \<le> MaxBlocks);
       if ua_index a = 0 then Some (a\<lparr>ua_slab := KDynamicResourceManager_Free p (ua_slab a)\<rparr>)
       else
         do {
           bs \<leftarrow> array_set (ua_blocks a) (ua_index a - 1) (Some p);
           Some (a\<lparr>ua_blocks := bs, ua_index := ua_index a - 1\<rparr>)
         }
     }"

section \<open>The manager\<close>

record KMemoryBlockManager =
  m_memory_block_tree :: "KMemoryBlock list"
  m_start_address :: u64
  m_end_address :: u64

definition null_ptr :: u64 where "null_ptr = 0"

definition FindIterator :: "KMemoryBlockManager \<Rightarrow> u64 \<Rightarrow> nat" where
  "FindIterator m address =
     tree_find (KMemoryBlock_ctor null_ptr address 1 KMemoryState_Free KMemoryPermission_None
                  KMemoryAttribute_None)
       (m_memory_block_tree m)"

definition FindBlock :: "KMemoryBlockManager \<Rightarrow> u64 \<Rightarrow> KMemoryBlock option" where
  "FindBlock m address = array_get (m_memory_block_tree m) (FindIterator m address)"

text \<open>A block fresh from the slab heap is default constructed.\<close>

definition fresh_block :: "u64 \<Rightarrow> KMemoryBlock" where
  "fresh_block p =
     KMemoryBlock_ctor p 0 0 KMemoryState_None KMemoryPermission_None KMemoryAttribute_None"

definition KMemoryBlockManager_Initialize ::
    "nat \<Rightarrow> u64 \<Rightarrow> u64 \<Rightarrow> KMemoryBlockManager \<Rightarrow> KDynamicResourceManager \<Rightarrow>
     (Result \<times> KMemoryBlockManager \<times> KDynamicResourceManager) option" where
  "KMemoryBlockManager_Initialize obj_size st nd m slab_manager =
     do {
       (start_block, slab) \<leftarrow> KDynamicResourceManager_Allocate obj_size slab_manager;
       case start_block of
         None \<Rightarrow> Some (ResultOutOfResource, m, slab)
       | Some p \<Rightarrow>
           do {
             ASSERT (IsAligned st PageSize);
             ASSERT (IsAligned nd PageSize);
             let b = KMemoryBlock_Initialize st ((nd - st) div PageSize) KMemoryState_Free
                       KMemoryPermission_None KMemoryAttribute_None (fresh_block p);
             (it, t) \<leftarrow> tree_insert b (m_memory_block_tree m);
             Some (ResultSuccess,
                   m\<lparr>m_start_address := st, m_end_address := nd, m_memory_block_tree := t\<rparr>, slab)
           }
     }"

text \<open>\<open>Finalize\<close>: the calls of \<open>block_callback\<close> are returned in order.\<close>

fun finalize_loop ::
    "KMemoryBlock list \<Rightarrow> KDynamicResourceManager \<Rightarrow> (u64 \<times> u64) list \<times> KDynamicResourceManager" where
  "finalize_loop [] slab = ([], slab)"
| "finalize_loop (b # t) slab =
     (let (calls, slab') = finalize_loop t (KDynamicResourceManager_Free (this_ptr b) slab)
      in ((m_address b, GetSize b) # calls, slab'))"

definition KMemoryBlockManager_Finalize ::
    "KMemoryBlockManager \<Rightarrow> KDynamicResourceManager \<Rightarrow>
     (u64 \<times> u64) list \<times> KMemoryBlockManager \<times> KDynamicResourceManager" where
  "KMemoryBlockManager_Finalize m slab =
     (let (calls, slab') = finalize_loop (m_memory_block_tree m) slab
      in (calls, m\<lparr>m_memory_block_tree := []\<rparr>, slab'))"

subsection \<open>FindFreeArea\<close>

definition free_area_in ::
    "u64 \<Rightarrow> u64 \<Rightarrow> u64 \<Rightarrow> u64 \<Rightarrow> u64 \<Rightarrow> u64 \<Rightarrow> KMemoryBlock \<Rightarrow> u64 option" where
  "free_area_in region_start region_last num_pages alignment offset guard_pages b =
     (let area0 = (if m_address b \<le> region_start then region_start else m_address b);
          area1 = area0 + guard_pages * PageSize;
          offset_area = AlignDown area1 alignment + offset;
          area = (if area1 \<le> offset_area then offset_area else offset_area + alignment);
          area_end = area + num_pages * PageSize + guard_pages * PageSize;
          area_last = area_end - 1
      in if m_address b \<le> area \<and> area < area_last \<and> area_last \<le> region_last \<and>
            area_last \<le> GetLastAddress b
         then Some area else None)"

fun find_free_area_loop ::
    "u64 \<Rightarrow> u64 \<Rightarrow> u64 \<Rightarrow> u64 \<Rightarrow> u64 \<Rightarrow> u64 \<Rightarrow> KMemoryBlock list \<Rightarrow> u64" where
  "find_free_area_loop region_start region_last num_pages alignment offset guard_pages [] = 0"
| "find_free_area_loop region_start region_last num_pages alignment offset guard_pages (b # t) =
     (if region_last < m_address b then 0
      else if m_memory_state b \<noteq> KMemoryState_Free then
        find_free_area_loop region_start region_last num_pages alignment offset guard_pages t
      else
        case free_area_in region_start region_last num_pages alignment offset guard_pages b of
          Some area \<Rightarrow> area
        | None \<Rightarrow> find_free_area_loop region_start region_last num_pages alignment offset guard_pages t)"

definition FindFreeArea ::
    "KMemoryBlockManager \<Rightarrow> u64 \<Rightarrow> u64 \<Rightarrow> u64 \<Rightarrow> u64 \<Rightarrow> u64 \<Rightarrow> u64 \<Rightarrow> u64" where
  "FindFreeArea m region_start region_num_pages num_pages alignment offset guard_pages =
     (if num_pages > 0 then
        let region_end = region_start + region_num_pages * PageSize;
            region_last = region_end - 1
        in find_free_area_loop region_start region_last num_pages alignment offset guard_pages
             (drop (FindIterator m region_start) (m_memory_block_tree m))
      else 0)"

subsection \<open>Updates\<close>

definition split_at ::
    "nat \<Rightarrow> u64 \<Rightarrow> KMemoryBlock list \<Rightarrow> UpdateAllocator \<Rightarrow>
     (nat \<times> KMemoryBlock list \<times> UpdateAllocator) option" where
  "split_at it addr t al =
     do {
       (new_block, al1) \<leftarrow> UpdateAllocator_Allocate al;
       b \<leftarrow> array_get t it;
       (l, r) \<leftarrow> KMemoryBlock_Split new_block addr b;
       (it', t') \<leftarrow> tree_insert l (t[it := r]);
       Some (it', t', al1)
     }"

text \<open>``If we need to, create a new block before and insert it'': the iterator moves to the right part.\<close>

definition split_before ::
    "u64 \<Rightarrow> nat \<Rightarrow> KMemoryBlock list \<Rightarrow> UpdateAllocator \<Rightarrow>
     (u64 \<times> nat \<times> KMemoryBlock list \<times> UpdateAllocator) option" where
  "split_before cur_address it t al =
     do {
       b \<leftarrow> array_get t it;
       if m_address b \<noteq> cur_address then
         do {
           (i, t1, al1) \<leftarrow> split_at it cur_address t al;
           b1 \<leftarrow> array_get t1 (i + 1);
           Some (m_address b1, i + 1, t1, al1)
         }
       else Some (cur_address, it, t, al)
     }"

text \<open>``If we need to, create a new block after and insert it'': the iterator moves to the left part.\<close>

definition split_after ::
    "u64 \<Rightarrow> u64 \<Rightarrow> nat \<Rightarrow> KMemoryBlock list \<Rightarrow> UpdateAllocator \<Rightarrow>
     (nat \<times> KMemoryBlock list \<times> UpdateAllocator) option" where
  "split_after cur_address remaining_size it t al =
     do {
       b \<leftarrow> array_get t it;
       if GetSize b > remaining_size then split_at it (cur_address + remaining_size) t al
       else Some (it, t, al)
     }"

definition update_step ::
    "(KMemoryBlock \<Rightarrow> bool) \<Rightarrow> (KMemoryBlock \<Rightarrow> KMemoryBlock option) \<Rightarrow>
     u64 \<Rightarrow> u64 \<Rightarrow> nat \<Rightarrow> KMemoryBlock list \<Rightarrow> UpdateAllocator \<Rightarrow>
     (u64 \<times> u64 \<times> nat \<times> KMemoryBlock list \<times> UpdateAllocator) option" where
  "update_step needs act cur_address remaining_pages it t al =
     do {
       let remaining_size = remaining_pages * PageSize;
       b \<leftarrow> array_get t it;
       if \<not> needs b then
         Some (if cur_address + remaining_size < GetEndAddress b
               then (cur_address + remaining_size, 0, it + 1, t, al)
               else (GetEndAddress b,
                     (cur_address + remaining_size - GetEndAddress b) div PageSize, it + 1, t, al))
       else
         do {
           (cur1, it1, t1, al1) \<leftarrow> split_before cur_address it t al;
           (it2, t2, al2) \<leftarrow> split_after cur1 remaining_size it1 t1 al1;
           b2 \<leftarrow> array_get t2 it2;
           b3 \<leftarrow> act b2;
           Some (cur1 + GetSize b2, remaining_pages - GetSize b2 div PageSize, it2 + 1,
                 t2[it2 := b3], al2)
         }
     }"

partial_function (option) update_loop ::
    "(KMemoryBlock \<Rightarrow> bool) \<Rightarrow> (KMemoryBlock \<Rightarrow> KMemoryBlock option) \<Rightarrow>
     u64 \<Rightarrow> u64 \<Rightarrow> nat \<Rightarrow> KMemoryBlock list \<Rightarrow> UpdateAllocator \<Rightarrow>
     (KMemoryBlock list \<times> UpdateAllocator) option" where
  "update_loop needs act cur_address remaining_pages it t al =
     (if remaining_pages > 0 then
        Option.bind (update_step needs act cur_address remaining_pages it t al)
          (\<lambda>(cur', rem', it', t', al'). update_loop needs act cur' rem' it' t' al')
      else Some (t, al))"

partial_function (option) coalesce_loop ::
    "u64 \<Rightarrow> nat \<Rightarrow> KMemoryBlock list \<Rightarrow> UpdateAllocator \<Rightarrow>
     (KMemoryBlock list \<times> UpdateAllocator) option" where
  "coalesce_loop end_addr it t al =
     (if it + 1 = length t then Some (t, al)
      else
        Option.bind (array_get t it) (\<lambda>prev. Option.bind (array_get t (it + 1)) (\<lambda>block.
          Option.bind
            (if CanMergeWith prev block then
               Option.bind (tree_erase (it + 1) t) (\<lambda>t1.
               Option.bind (KMemoryBlock_Add prev block) (\<lambda>prev'.
               Option.bind (UpdateAllocator_Free (this_ptr block) al) (\<lambda>al1.
               Some (it, t1[it := prev'], al1))))
             else Some (it + 1, t, al))
            (\<lambda>(it', t', al').
               Option.bind (array_get t' it') (\<lambda>cur.
               if end_addr < GetEndAddress cur then Some (t', al')
               else coalesce_loop end_addr it' t' al')))))"

definition CoalesceForUpdate ::
    "u64 \<Rightarrow> u64 \<Rightarrow> KMemoryBlockManager \<Rightarrow> UpdateAllocator \<Rightarrow>
     (KMemoryBlockManager \<times> UpdateAllocator) option" where
  "CoalesceForUpdate address num_pages m al =
     do {
       let it0 = FindIterator m address;
       it \<leftarrow> (if address \<noteq> m_start_address m
              then (if it0 = 0 then None else Some (it0 - 1)) else Some it0);
       (t, al') \<leftarrow> coalesce_loop (address + num_pages * PageSize) it (m_memory_block_tree m) al;
       Some (m\<lparr>m_memory_block_tree := t\<rparr>, al')
     }"

definition update_with ::
    "(KMemoryBlock \<Rightarrow> bool) \<Rightarrow> (KMemoryBlock \<Rightarrow> KMemoryBlock option) \<Rightarrow>
     u64 \<Rightarrow> u64 \<Rightarrow> KMemoryBlockManager \<Rightarrow> UpdateAllocator \<Rightarrow>
     (KMemoryBlockManager \<times> UpdateAllocator) option" where
  "update_with needs act address num_pages m al =
     do {
       (t, al') \<leftarrow> update_loop needs act address num_pages (FindIterator m address)
                    (m_memory_block_tree m) al;
       CoalesceForUpdate address num_pages (m\<lparr>m_memory_block_tree := t\<rparr>) al'
     }"

definition KMemoryBlockManager_Update ::
    "u64 \<Rightarrow> u64 \<Rightarrow> u32 \<Rightarrow> u8 \<Rightarrow> u8 \<Rightarrow> u8 \<Rightarrow> u8 \<Rightarrow> KMemoryBlockManager \<Rightarrow> UpdateAllocator \<Rightarrow>
     (KMemoryBlockManager \<times> UpdateAllocator) option" where
  "KMemoryBlockManager_Update address num_pages state perm attr set_disable_attr clear_disable_attr m al =
     do {
       ASSERT (IsAligned address PageSize);
       ASSERT (attr AND (KMemoryAttribute_IpcLocked OR KMemoryAttribute_DeviceShared) =
               KMemoryAttribute_None);
       update_with (\<lambda>b. \<not> HasProperties b state perm attr)
         (\<lambda>b. KMemoryBlock_Update state perm attr (m_address b = address) set_disable_attr
                clear_disable_attr b)
         address num_pages m al
     }"

definition KMemoryBlockManager_UpdateIfMatch ::
    "u64 \<Rightarrow> u64 \<Rightarrow> u32 \<Rightarrow> u8 \<Rightarrow> u8 \<Rightarrow> u32 \<Rightarrow> u8 \<Rightarrow> u8 \<Rightarrow> u8 \<Rightarrow> u8 \<Rightarrow>
     KMemoryBlockManager \<Rightarrow> UpdateAllocator \<Rightarrow> (KMemoryBlockManager \<times> UpdateAllocator) option" where
  "KMemoryBlockManager_UpdateIfMatch address num_pages test_state test_perm test_attr state perm attr
       set_disable_attr clear_disable_attr m al =
     do {
       ASSERT (IsAligned address PageSize);
       ASSERT (attr AND (KMemoryAttribute_IpcLocked OR KMemoryAttribute_DeviceShared) =
               KMemoryAttribute_None);
       update_with (\<lambda>b. HasProperties b test_state test_perm test_attr \<and>
                        \<not> HasProperties b state perm attr)
         (KMemoryBlock_Update state perm attr False set_disable_attr clear_disable_attr)
         address num_pages m al
     }"

definition KMemoryBlockManager_UpdateLock ::
    "u64 \<Rightarrow> u64 \<Rightarrow> (u8 \<Rightarrow> bool \<Rightarrow> bool \<Rightarrow> KMemoryBlock \<Rightarrow> KMemoryBlock option) \<Rightarrow> u8 \<Rightarrow>
     KMemoryBlockManager \<Rightarrow> UpdateAllocator \<Rightarrow> (KMemoryBlockManager \<times> UpdateAllocator) option" where
  "KMemoryBlockManager_UpdateLock address num_pages lock_func perm m al =
     do {
       ASSERT (IsAligned address PageSize);
       let end_address = address + num_pages * PageSize;
       update_with (\<lambda>b. True)
         (\<lambda>b. lock_func perm (m_address b = address) (GetEndAddress b = end_address) b)
         address num_pages m al
     }"

definition KMemoryBlockManager_UpdateAttribute ::
    "u64 \<Rightarrow> u64 \<Rightarrow> u8 \<Rightarrow> u8 \<Rightarrow> KMemoryBlockManager \<Rightarrow> UpdateAllocator \<Rightarrow>
     (KMemoryBlockManager \<times> UpdateAllocator) option" where
  "KMemoryBlockManager_UpdateAttribute address num_pages msk attr m al =
     do {
       ASSERT (IsAligned address PageSize);
       update_with (\<lambda>b. m_attribute b AND msk \<noteq> attr) (KMemoryBlock_UpdateAttribute msk attr)
         address num_pages m al
     }"

subsection \<open>CheckState\<close>

definition counts_ok :: "KMemoryBlock \<Rightarrow> bool" where
  "counts_ok b \<longleftrightarrow>
     \<not> (m_attribute b AND KMemoryAttribute_IpcLocked \<noteq> KMemoryAttribute_None \<and> m_ipc_lock_count b = 0) \<and>
     \<not> (m_attribute b AND KMemoryAttribute_DeviceShared \<noteq> KMemoryAttribute_None \<and>
        m_device_use_count b = 0)"

fun check_state_loop :: "KMemoryBlock \<Rightarrow> KMemoryBlock list \<Rightarrow> bool" where
  "check_state_loop prev [] = counts_ok prev"
| "check_state_loop prev (cur # t) =
     (if CanMergeWith prev cur then False
      else if GetEndAddress prev \<noteq> m_address cur then False
      else if \<not> counts_ok cur then False
      else check_state_loop cur t)"

text \<open>On an empty tree the source increments the end iterator: a fault.\<close>

definition CheckState :: "KMemoryBlockManager \<Rightarrow> bool option" where
  "CheckState m = (case m_memory_block_tree m of [] \<Rightarrow> None | b # t \<Rightarrow> Some (check_state_loop b t))"


section \<open>Laws of the update allocator\<close>

definition ua_ok :: "UpdateAllocator \<Rightarrow> bool" where
  "ua_ok a \<longleftrightarrow> length (ua_blocks a) = MaxBlocks \<and> ua_index a \<le> MaxBlocks \<and>
     (\<forall>i < MaxBlocks. (ua_blocks a ! i = None) = (i < ua_index a))"

definition available :: "UpdateAllocator \<Rightarrow> nat" where
  "available a = MaxBlocks - ua_index a"

text \<open>Every block pointer the allocator can reach: those it holds and those free in the slab.\<close>

definition owned :: "UpdateAllocator \<Rightarrow> u64 multiset" where
  "owned a = mset (List.map_filter id (ua_blocks a)) + mset (free_nodes (ua_slab a))"

definition held_by_index :: "UpdateAllocator \<Rightarrow> u64 list" where
  "held_by_index a = List.map_filter id (drop (ua_index a) (ua_blocks a))"

lemma map_filter_update_None:
  "i < length xs \<Longrightarrow> xs ! i = Some p \<Longrightarrow>
   mset (List.map_filter id (xs[i := None])) + {#p#} = mset (List.map_filter id xs)"
proof (induction xs arbitrary: i)
  case (Cons x xs)
  then show ?case
    by (cases i) (auto simp: List.map_filter_simps split: option.splits)
qed simp

lemma map_filter_update_Some:
  "i < length xs \<Longrightarrow> xs ! i = None \<Longrightarrow>
   mset (List.map_filter id (xs[i := Some p])) = mset (List.map_filter id xs) + {#p#}"
proof (induction xs arbitrary: i)
  case (Cons x xs)
  then show ?case
    by (cases i) (auto simp: List.map_filter_simps split: option.splits)
qed simp

lemma UpdateAllocator_Allocate_ok:
  assumes "ua_ok a" "0 < available a"
  obtains p a' where "UpdateAllocator_Allocate a = Some (p, a')" "ua_ok a'"
    "available a = Suc (available a')" "owned a = add_mset p (owned a')" "ua_slab a' = ua_slab a"
proof -
  have i: "ua_index a < MaxBlocks" "ua_index a < length (ua_blocks a)"
    using assms by (auto simp: ua_ok_def available_def)
  then obtain p where p: "ua_blocks a ! ua_index a = Some p"
    using assms(1) by (auto simp: ua_ok_def)
  let ?a = "a\<lparr>ua_blocks := (ua_blocks a)[ua_index a := None], ua_index := ua_index a + 1\<rparr>"
  have "UpdateAllocator_Allocate a = Some (p, ?a)"
    using i p by (simp add: UpdateAllocator_Allocate_def)
  moreover have "ua_ok ?a"
    using assms(1) i by (auto simp: ua_ok_def nth_list_update)
  moreover have "available a = Suc (available ?a)"
    using i by (simp add: available_def)
  moreover have "owned a = add_mset p (owned ?a)"
    using map_filter_update_None [OF i(2) p] by (simp add: owned_def add.commute)
  ultimately show ?thesis
    by (rule that) simp
qed

lemma UpdateAllocator_Free_ok:
  assumes "ua_ok a"
  obtains a' where "UpdateAllocator_Free p a = Some a'" "ua_ok a'" "owned a' = add_mset p (owned a)"
proof (cases "ua_index a = 0")
  case True
  have "UpdateAllocator_Free p a = Some (a\<lparr>ua_slab := KDynamicResourceManager_Free p (ua_slab a)\<rparr>)"
    (is "_ = Some ?a") using True by (simp add: UpdateAllocator_Free_def)
  moreover have "ua_ok ?a" "owned ?a = add_mset p (owned a)"
    using assms by (simp_all add: ua_ok_def owned_def)
  ultimately show ?thesis by (rule that)
next
  case False
  let ?i = "ua_index a - 1"
  have i: "?i < length (ua_blocks a)" "ua_blocks a ! ?i = None" "ua_index a \<le> MaxBlocks"
    using assms False by (auto simp: ua_ok_def)
  let ?a = "a\<lparr>ua_blocks := (ua_blocks a)[?i := Some p], ua_index := ?i\<rparr>"
  have "UpdateAllocator_Free p a = Some ?a"
    using i False by (simp add: UpdateAllocator_Free_def)
  moreover have "ua_ok ?a"
    using assms i False by (auto simp: ua_ok_def nth_list_update)
  moreover have "owned ?a = add_mset p (owned a)"
    using map_filter_update_Some [OF i(1,2)] by (simp add: owned_def)
  ultimately show ?thesis by (rule that)
qed

section \<open>Contiguous blocks and the page map\<close>

fun chain :: "nat \<Rightarrow> KMemoryBlock list \<Rightarrow> nat \<Rightarrow> bool" where
  "chain s [] e \<longleftrightarrow> s = e"
| "chain s (b # t) e \<longleftrightarrow> block_wf b \<and> bstart b = s \<and> chain (bend b) t e"

lemma chain_append: "chain s (t @ u) e \<longleftrightarrow> (\<exists>m. chain s t m \<and> chain m u e)"
  by (induction t arbitrary: s) auto

lemma chain_le: "chain s t e \<Longrightarrow> s \<le> e"
  by (induction t arbitrary: s) (auto dest!: block_wf_less intro: le_trans less_imp_le)

lemma chain_less: "chain s t e \<Longrightarrow> t \<noteq> [] \<Longrightarrow> s < e"
  by (cases t) (auto dest!: chain_le block_wf_less)

lemma chain_member: "chain s t e \<Longrightarrow> b \<in> set t \<Longrightarrow> block_wf b \<and> s \<le> bstart b \<and> bend b \<le> e"
proof (induction t arbitrary: s)
  case (Cons a t)
  then show ?case
    using chain_le [of "bend a" t e] block_wf_less [of a] by fastforce
qed simp

lemma chain_end: "chain s t e \<Longrightarrow> chain s t e' \<Longrightarrow> e = e'"
  by (induction t arbitrary: s) auto

text \<open>The properties that the tree gives the byte at an address.\<close>

fun page_at :: "KMemoryBlock list \<Rightarrow> nat \<Rightarrow> MemProps option" where
  "page_at [] x = None"
| "page_at (b # t) x = (if bstart b \<le> x \<and> x < bend b then Some (props_of b) else page_at t x)"

lemma page_at_append: "page_at (t @ u) x = (case page_at t x of None \<Rightarrow> page_at u x | Some q \<Rightarrow> Some q)"
  by (induction t) auto

lemma page_at_outside: "chain s t e \<Longrightarrow> x < s \<or> e \<le> x \<Longrightarrow> page_at t x = None"
proof (induction t arbitrary: s)
  case (Cons a t)
  then show ?case
    using chain_le [of "bend a" t e] block_wf_less [of a] by fastforce
qed simp

lemma page_at_inside: "chain s t e \<Longrightarrow> s \<le> x \<Longrightarrow> x < e \<Longrightarrow> \<exists>b\<in>set t. page_at t x = Some (props_of b) \<and> bstart b \<le> x \<and> x < bend b"
  by (induction t arbitrary: s) (auto simp: not_less)

lemma page_at_chain_append:
  assumes "chain s t m" "chain m u e"
  shows "page_at (t @ u) x = (if x < m then page_at t x else page_at u x)"
proof (cases "x < m")
  case True
  then have "page_at u x = None"
    using page_at_outside assms(2) by blast
  then show ?thesis
    using True by (simp add: page_at_append split: option.splits)
next
  case False
  then have "page_at t x = None"
    using page_at_outside assms(1) by simp
  then show ?thesis
    using False by (simp add: page_at_append)
qed

text \<open>Adjacent pairs whose common boundary satisfies \<open>P\<close> cannot be merged.\<close>

fun unmergeable :: "(nat \<Rightarrow> bool) \<Rightarrow> KMemoryBlock list \<Rightarrow> bool" where
  "unmergeable P (x # y # t) \<longleftrightarrow> (P (bend x) \<longrightarrow> \<not> CanMergeWith x y) \<and> unmergeable P (y # t)"
| "unmergeable P t \<longleftrightarrow> True"

lemma unmergeable_append:
  "unmergeable P (xs @ y # ys) \<longleftrightarrow> unmergeable P (xs @ [y]) \<and> unmergeable P (y # ys)"
proof (induction xs)
  case (Cons a xs)
  then show ?case by (cases xs) auto
qed simp

lemma unmergeable_snoc_cong:
  "props_of y = props_of z \<Longrightarrow> left_bits y = left_bits z \<Longrightarrow>
   unmergeable P (xs @ [y]) = unmergeable P (xs @ [z])"
proof (induction xs)
  case (Cons a xs)
  then show ?case by (cases xs) (auto simp: CanMergeWith_iff)
qed simp

lemma unmergeable_Cons_cong:
  "bend y = bend z \<Longrightarrow> props_of y = props_of z \<Longrightarrow> right_bits y = right_bits z \<Longrightarrow>
   unmergeable P (y # ys) = unmergeable P (z # ys)"
  by (cases ys) (auto simp: CanMergeWith_iff)

lemma unmergeable_mono: "unmergeable P t \<Longrightarrow> (\<And>x. Q x \<Longrightarrow> P x) \<Longrightarrow> unmergeable Q t"
  by (induction P t rule: unmergeable.induct) auto

lemma unmergeable_bound:
  "unmergeable P t \<Longrightarrow> chain s t e \<Longrightarrow> (\<And>x. s < x \<Longrightarrow> x < e \<Longrightarrow> Q x \<Longrightarrow> P x) \<Longrightarrow> unmergeable Q t"
proof (induction P t arbitrary: s rule: unmergeable.induct)
  case (1 P x y t)
  have *: "s < bend x" "bend x < e"
    using "1.prems"(2) chain_less [of "bend x" "y # t" e] block_wf_less [of x] by auto
  moreover have "unmergeable Q (y # t)"
  proof (rule "1.IH")
    show "unmergeable P (y # t)" "chain (bend x) (y # t) e"
      using "1.prems"(1,2) by auto
    show "\<And>z. bend x < z \<Longrightarrow> z < e \<Longrightarrow> Q z \<Longrightarrow> P z"
      using * "1.prems"(3) by auto
  qed
  ultimately show ?case
    using "1.prems"(1,3) by auto
qed auto


section \<open>Searching and inserting\<close>

lemma takeWhile_prefix:
  "(\<And>x. x \<in> set pre \<Longrightarrow> P x) \<Longrightarrow> \<not> P y \<Longrightarrow> takeWhile P (pre @ y # post) = pre"
  by (simp add: takeWhile_append2)

lemma chain_before:
  assumes "chain s pre m" "x \<in> set pre" "m \<le> bstart k"
  shows "KMemoryBlock_Compare k x = 1"
  using chain_member [OF assms(1,2)] assms(3) block_wf_less [of x] by (simp add: Compare_eq)

lemma FindIterator_eq:
  assumes "m_memory_block_tree m = pre @ b # post" "chain s (m_memory_block_tree m) e"
    "bstart b \<le> unat a" "unat a < bend b"
  shows "FindIterator m a = length pre"
proof -
  let ?k = "KMemoryBlock_ctor null_ptr a 1 KMemoryState_Free KMemoryPermission_None KMemoryAttribute_None"
  have k: "bstart ?k = unat a"
    by (simp add: bstart_def KMemoryBlock_ctor_def)
  obtain q where q: "chain s pre q" "q = bstart b" "block_wf b"
    using assms(1,2) by (auto simp: chain_append)
  have "KMemoryBlock_Compare ?k x = 1" if "x \<in> set pre" for x
    using chain_before [OF q(1) that] q(2) k assms(3) by simp
  moreover have "KMemoryBlock_Compare ?k b = 0"
    using Compare_eq [OF q(3)] k assms(3,4) by simp
  ultimately show ?thesis
    unfolding FindIterator_def tree_find_def assms(1) by (subst takeWhile_prefix) auto
qed

lemma tree_insert_between:
  assumes "chain s pre (bstart l)" "block_wf r" "bstart l < bstart r"
  shows "tree_insert l (pre @ r # post) = Some (length pre, pre @ l # r # post)"
proof -
  have "takeWhile (\<lambda>x. 0 < KMemoryBlock_Compare l x) (pre @ r # post) = pre"
    using chain_before [OF assms(1) _ order_refl] assms(2,3)
    by (intro takeWhile_prefix) (auto simp: Compare_eq)
  then show ?thesis
    using assms(2,3) by (simp add: tree_insert_def Compare_eq)
qed

lemma split_at_ok:
  assumes "chain s pre (bstart b)" "block_wf b"
    "bstart b < unat addr" "unat addr < bend b" "unat addr mod 4096 = 0"
    "ua_ok al" "0 < available al"
  obtains l r al' where
    "split_at (length pre) addr (pre @ b # post) al = Some (length pre, pre @ l # r # post, al')"
    "KMemoryBlock_Split (this_ptr l) addr b = Some (l, r)"
    "chain (bstart b) [l] (unat addr)" "chain (unat addr) [r] (bend b)"
    "props_of l = props_of b" "props_of r = props_of b"
    "left_bits l = left_bits b" "right_bits r = right_bits b" "this_ptr r = this_ptr b"
    "m_address r = addr"
    "ua_ok al'" "available al = Suc (available al')" "owned al = add_mset (this_ptr l) (owned al')"
    "ua_slab al' = ua_slab al"
proof -
  obtain p al' where al: "UpdateAllocator_Allocate al = Some (p, al')" "ua_ok al'"
    "available al = Suc (available al')" "owned al = add_mset p (owned al')" "ua_slab al' = ua_slab al"
    using UpdateAllocator_Allocate_ok [OF assms(6,7)] .
  obtain l r where lr: "KMemoryBlock_Split p addr b = Some (l, r)"
    "block_wf l" "bstart l = bstart b" "bend l = unat addr" "this_ptr l = p"
    "block_wf r" "bstart r = unat addr" "bend r = bend b" "this_ptr r = this_ptr b"
    "props_of l = props_of b" "props_of r = props_of b"
    "left_bits l = left_bits b" "right_bits r = right_bits b" "m_address r = addr"
    using KMemoryBlock_Split_ok [OF assms(2-5)] .
  have "tree_insert l (pre @ r # post) = Some (length pre, pre @ l # r # post)"
    using assms(1,3) lr by (intro tree_insert_between [where s = s]) auto
  then have "split_at (length pre) addr (pre @ b # post) al =
      Some (length pre, pre @ l # r # post, al')"
    using al(1) lr(1) by (simp add: split_at_def)
  then show ?thesis
    using lr al by (intro that [of l r al']) auto
qed

text \<open>The two optional splits at the ends of the range.\<close>

lemma split_before_ok:
  assumes "chain s pre (bstart b)" "block_wf b" "bstart b \<le> unat cur" "unat cur < bend b"
    "unat cur mod 4096 = 0" "ua_ok al" "(if bstart b = unat cur then 0 else 1) \<le> available al"
  obtains ls c al' where
    "split_before cur (length pre) (pre @ b # post) al =
       Some (cur, length (pre @ ls), (pre @ ls) @ c # post, al')"
    "chain (bstart b) ls (unat cur)" "block_wf c" "bstart c = unat cur" "bend c = bend b"
    "props_of c = props_of b" "right_bits c = right_bits b"
    "ls = [] \<and> c = b \<or> (\<exists>l. ls = [l] \<and> props_of l = props_of b \<and> left_bits l = left_bits b \<and>
       KMemoryBlock_Split (this_ptr l) cur b = Some (l, c))"
    "ua_ok al'" "available al = available al' + (if bstart b = unat cur then 0 else 1)"
    "mset (map this_ptr (ls @ [c])) + owned al' = add_mset (this_ptr b) (owned al)"
    "ua_slab al' = ua_slab al"
proof (cases "bstart b = unat cur")
  case True
  then have "m_address b = cur"
    by (simp add: bstart_def word_eq_unat_iff)
  then have "split_before cur (length pre) (pre @ b # post) al =
      Some (cur, length (pre @ []), (pre @ []) @ b # post, al)"
    by (simp add: split_before_def)
  then show ?thesis
    by (rule that) (use True assms in auto)
next
  case False
  then have lt: "bstart b < unat cur" and ne: "m_address b \<noteq> cur"
    using assms(3) by (auto simp: bstart_def)
  obtain l r al' where sp:
    "split_at (length pre) cur (pre @ b # post) al = Some (length pre, pre @ l # r # post, al')"
    "KMemoryBlock_Split (this_ptr l) cur b = Some (l, r)"
    "chain (bstart b) [l] (unat cur)" "chain (unat cur) [r] (bend b)"
    "props_of l = props_of b" "props_of r = props_of b"
    "left_bits l = left_bits b" "right_bits r = right_bits b" "this_ptr r = this_ptr b"
    "m_address r = cur"
    "ua_ok al'" "available al = Suc (available al')" "owned al = add_mset (this_ptr l) (owned al')"
    "ua_slab al' = ua_slab al"
    using assms False by (elim split_at_ok [OF assms(1,2) lt, where post = post]) auto
  have "split_before cur (length pre) (pre @ b # post) al =
      Some (cur, length (pre @ [l]), (pre @ [l]) @ r # post, al')"
    using sp(1,10) ne by (simp add: split_before_def nth_append)
  then show ?thesis
    by (rule that) (use sp False in auto)
qed

lemma split_after_ok:
  assumes "chain s pre (bstart c)" "block_wf c" "bstart c = unat cur" "unat sz mod 4096 = 0"
    "0 < unat sz" "unat cur + unat sz < 2 ^ 64" "ua_ok al"
    "(if unat cur + unat sz < bend c then 1 else 0) \<le> available al"
  obtains d rs al' where
    "split_after cur sz (length pre) (pre @ c # post) al = Some (length pre, pre @ d # rs @ post, al')"
    "block_wf d" "bstart d = unat cur" "bend d = min (bend c) (unat cur + unat sz)"
    "chain (bend d) rs (bend c)" "props_of d = props_of c" "left_bits d = left_bits c"
    "rs = [] \<and> d = c \<or> (\<exists>r. rs = [r] \<and> props_of r = props_of c \<and> right_bits r = right_bits c \<and>
       KMemoryBlock_Split (this_ptr d) (cur + sz) c = Some (d, r))"
    "ua_ok al'" "available al = available al' + (if unat cur + unat sz < bend c then 1 else 0)"
    "mset (map this_ptr (d # rs)) + owned al' = add_mset (this_ptr c) (owned al)"
    "ua_slab al' = ua_slab al"
proof (cases "unat cur + unat sz < bend c")
  case False
  then have "\<not> sz < GetSize c"
    using assms(2,3) by (simp add: word_less_nat_alt unat_GetSize bend_def)
  then have "split_after cur sz (length pre) (pre @ c # post) al =
      Some (length pre, pre @ c # [] @ post, al)"
    by (simp add: split_after_def)
  then show ?thesis
    by (rule that) (use False assms in \<open>auto simp: min_def\<close>)
next
  case True
  have e: "unat (cur + sz) = unat cur + unat sz"
    using assms(6) by (simp add: unat_plus_no_wrap)
  have gt: "sz < GetSize c"
    using True assms(2,3) by (simp add: word_less_nat_alt unat_GetSize bend_def)
  have "bstart c mod 4096 = 0"
    using assms(2) by (simp add: block_wf_def)
  then have al: "unat (cur + sz) mod 4096 = 0"
    using e assms(3,4) by (simp add: mod_eq_0_iff_dvd)
  have lo: "bstart c < unat (cur + sz)" and hi: "unat (cur + sz) < bend c" and av: "0 < available al"
    using e True assms(3,5,8) by auto
  obtain l r al' where sp:
    "split_at (length pre) (cur + sz) (pre @ c # post) al =
       Some (length pre, pre @ l # r # post, al')"
    "KMemoryBlock_Split (this_ptr l) (cur + sz) c = Some (l, r)"
    "chain (bstart c) [l] (unat (cur + sz))" "chain (unat (cur + sz)) [r] (bend c)"
    "props_of l = props_of c" "props_of r = props_of c"
    "left_bits l = left_bits c" "right_bits r = right_bits c" "this_ptr r = this_ptr c"
    "m_address r = cur + sz" "ua_ok al'" "available al = Suc (available al')" "owned al = add_mset (this_ptr l) (owned al')"
    "ua_slab al' = ua_slab al"
    using split_at_ok [OF assms(1,2) lo hi al assms(7) av, where post = post] .
  have "split_after cur sz (length pre) (pre @ c # post) al =
      Some (length pre, pre @ l # [r] @ post, al')"
    using sp(1) gt by (simp add: split_after_def)
  then show ?thesis
    by (rule that) (use sp True assms(3) e in \<open>auto simp: min_def\<close>)
qed

section \<open>The update loop\<close>

text \<open>The pieces \<open>ls\<close> that replace the block \<open>b\<close> when the range \<open>[cur, e)\<close> is updated.\<close>

definition pieces :: "(MemProps \<Rightarrow> MemProps) \<Rightarrow> nat \<Rightarrow> nat \<Rightarrow> KMemoryBlock \<Rightarrow> KMemoryBlock list \<Rightarrow> bool" where
  "pieces eff cur e b ls \<longleftrightarrow>
     chain (bstart b) ls (bend b) \<and> ls \<noteq> [] \<and>
     (\<forall>x. page_at ls x = (if cur \<le> x \<and> x < e then map_option eff (page_at [b] x) else page_at [b] x)) \<and>
     unmergeable (\<lambda>x. x < cur \<or> e < x) ls \<and>
     (bstart b < cur \<longrightarrow> props_of (hd ls) = props_of b \<and> left_bits (hd ls) = left_bits b) \<and>
     (e < bend b \<longrightarrow> props_of (last ls) = props_of b \<and> right_bits (last ls) = right_bits b)"

lemma pieces_unchanged:
  assumes "block_wf b" "eff (props_of b) = props_of b"
  shows "pieces eff cur e b [b]"
  using assms by (simp add: pieces_def)

lemma pieces_changed:
  assumes "chain (bstart b) ls cur" "chain cur [d] m" "chain m rs (bend b)"
    "m = min (bend b) e" "bstart b \<le> cur" "cur < bend b" "props_of d = eff (props_of b)"
    "ls = [] \<or> (\<exists>l. ls = [l] \<and> props_of l = props_of b \<and> left_bits l = left_bits b)"
    "rs = [] \<or> (\<exists>r. rs = [r] \<and> props_of r = props_of b \<and> right_bits r = right_bits b)"
  shows "pieces eff cur e b (ls @ d # rs)"
proof -
  have lt: "cur < m"
    using assms(2) block_wf_less [of d] by auto
  have "chain (bstart b) (ls @ d # rs) (bend b)"
    using assms(1-3) by (auto simp: chain_append)
  moreover have "unmergeable (\<lambda>x. x < cur \<or> e < x) (ls @ d # rs)"
    using assms(1-4,8,9) lt by (auto split: if_splits)
  moreover have "page_at (ls @ d # rs) x =
      (if cur \<le> x \<and> x < e then map_option eff (page_at [b] x) else page_at [b] x)" for x
    using assms lt by (auto split: if_splits)
  moreover have "bstart b < cur \<Longrightarrow> ls \<noteq> []" "e < bend b \<Longrightarrow> rs \<noteq> []"
    using assms(1-4) by auto
  ultimately show ?thesis
    using assms(8,9) by (auto simp: pieces_def)
qed

lemma unmergeable_snoc_skip:
  "chain s xs m \<Longrightarrow> \<not> P m \<Longrightarrow> unmergeable P (xs @ [y]) = unmergeable P (xs @ [z])"
proof (induction xs arbitrary: s)
  case (Cons a xs)
  then show ?case by (cases xs) auto
qed simp

lemma unmergeable_Cons_skip:
  "\<not> P (bend y) \<Longrightarrow> bend y = bend z \<Longrightarrow> unmergeable P (y # ys) = unmergeable P (z # ys)"
  by (cases ys) auto

lemma unmergeable_pieces:
  assumes "unmergeable (\<lambda>x. x < a \<or> e < x) (pre @ b # post)" "chain s pre (bstart b)"
    "pieces eff cur e b ls" "a \<le> cur" "cur \<le> e" "bstart b = cur \<or> a = cur" "bstart b \<le> cur"
    "cur \<le> bend b"
  shows "unmergeable (\<lambda>x. x < a \<or> e < x) (pre @ ls @ post)" (is "unmergeable ?P _")
proof -
  obtain y ys where ys: "ls = y # ys"
    using assms(3) by (cases ls) (auto simp: pieces_def)
  obtain zs z where zs: "ls = zs @ [z]"
    using assms(3) by (cases ls rule: rev_cases) (auto simp: pieces_def)
  have old: "unmergeable ?P (pre @ [b])" "unmergeable ?P (b # post)"
    using assms(1) unmergeable_append by blast+
  have "unmergeable ?P (pre @ [y])"
  proof (cases "bstart b < cur")
    case True
    then have "props_of y = props_of b" "left_bits y = left_bits b"
      using assms(3) ys by (auto simp: pieces_def)
    then show ?thesis
      using old(1) unmergeable_snoc_cong by blast
  next
    case False
    then show ?thesis
      using old(1) unmergeable_snoc_skip [OF assms(2), of ?P y b] assms(4,5,7) by simp
  qed
  moreover have "bend z = bend b"
    using assms(3) zs by (auto simp: pieces_def chain_append)
  then have "unmergeable ?P (z # post)"
  proof (cases "e < bend b")
    case True
    then have "props_of z = props_of b" "right_bits z = right_bits b"
      using assms(3) zs by (auto simp: pieces_def)
    then show ?thesis
      using old(2) unmergeable_Cons_cong \<open>bend z = bend b\<close> by blast
  next
    case False
    then show ?thesis
      using old(2) unmergeable_Cons_skip [of ?P z b post] assms(4,8) \<open>bend z = bend b\<close> by auto
  qed
  moreover have "unmergeable ?P ls"
    using assms(3,4) by (auto simp: pieces_def intro: unmergeable_mono)
  ultimately have "unmergeable ?P (ls @ post)"
    using zs unmergeable_append [of ?P zs z post] by simp
  then show ?thesis
    using \<open>unmergeable ?P (pre @ [y])\<close> ys unmergeable_append [of ?P pre y "ys @ post"] by simp
qed

lemma pieces_page_at:
  assumes "pieces eff cur e b ls" "chain (bend b) post E"
    and "\<forall>x. page_at res x = (if bend b \<le> x \<and> x < e then map_option eff (page_at post x) else page_at post x)"
    and "chain (bend b) res E" "cur \<le> bend b"
  shows "page_at (ls @ res) x =
    (if cur \<le> x \<and> x < e then map_option eff (page_at (b # post) x) else page_at (b # post) x)"
proof -
  have ch: "chain (bstart b) ls (bend b)"
    and pg: "page_at ls x = (if cur \<le> x \<and> x < e then map_option eff (page_at [b] x) else page_at [b] x)"
    using assms(1) by (auto simp: pieces_def)
  have pb: "page_at (b # post) x = (if x < bend b then page_at [b] x else page_at post x)"
    using page_at_outside [OF assms(2), of x] by auto
  show ?thesis
    using page_at_chain_append [OF ch assms(4), of x] pg pb assms(3,5) by auto
qed

text \<open>
  What the loop relies on: the change keeps the extent and the pointer of a block, acts on
  its properties as \<open>eff\<close>, succeeds where \<open>ok\<close> holds, and a block that is skipped already has the
  properties the change would give it.
\<close>

locale update_action =
  fixes needs :: "KMemoryBlock \<Rightarrow> bool"
    and act :: "KMemoryBlock \<Rightarrow> KMemoryBlock option"
    and eff :: "MemProps \<Rightarrow> MemProps"
    and ok :: "KMemoryBlock \<Rightarrow> bool"
  assumes act_ok: "block_wf b \<Longrightarrow> ok b \<Longrightarrow> needs b \<Longrightarrow>
      \<exists>b'. act b = Some b' \<and> m_address b' = m_address b \<and> m_num_pages b' = m_num_pages b \<and>
           this_ptr b' = this_ptr b \<and> props_of b' = eff (props_of b)"
    and needs_props: "props_of b = props_of c \<Longrightarrow> needs b = needs c"
    and ok_split: "ok b \<Longrightarrow> block_wf b \<Longrightarrow> bstart b < unat x \<Longrightarrow> unat x < bend b \<Longrightarrow>
      unat x mod 4096 = 0 \<Longrightarrow> KMemoryBlock_Split p x b = Some (l, r) \<Longrightarrow> ok l \<and> ok r"
    and skip_eff: "\<not> needs b \<Longrightarrow> eff (props_of b) = props_of b"
begin

lemma act_piece:
  assumes "block_wf b" "ok b" "needs b"
  obtains b' where "act b = Some b'" "block_wf b'" "bstart b' = bstart b" "bend b' = bend b"
    "this_ptr b' = this_ptr b" "props_of b' = eff (props_of b)"
proof -
  obtain b' where b': "act b = Some b'" "m_address b' = m_address b" "m_num_pages b' = m_num_pages b"
    "this_ptr b' = this_ptr b" "props_of b' = eff (props_of b)"
    using act_ok [OF assms] by auto
  then have "bstart b' = bstart b" "bend b' = bend b" "bpages b' = bpages b"
    by (simp_all add: bstart_def bend_def bpages_def)
  with b' assms(1) show ?thesis
    by (intro that [of b']) (auto simp: block_wf_def)
qed

lemma update_step_ok:
  assumes "chain s pre (bstart b)" "block_wf b" "bstart b \<le> unat cur" "unat cur < bend b"
    "unat cur mod 4096 = 0" "0 < unat rem" "unat cur + unat rem * 4096 < 2 ^ 64"
    "needs b \<longrightarrow> ok b" "ua_ok al"
    "(if bstart b = unat cur then 0 else 1) + (if unat cur + unat rem * 4096 < bend b then 1 else 0)
       \<le> available al"
    and e_def: "e = unat cur + unat rem * 4096"
  obtains ls al' cur' rem' it' where
    "update_step needs act cur rem (length pre) (pre @ b # post) al =
       Some (cur', rem', it', pre @ ls @ post, al')"
    "pieces eff (unat cur) e b ls" "unat rem' * 4096 = e - bend b"
    "bend b < e \<longrightarrow> it' = length (pre @ ls) \<and> unat cur' = bend b"
    "ua_ok al'" "ua_slab al' = ua_slab al"
    "available al \<le> available al' + (if bstart b = unat cur then 0 else 1) + (if e < bend b then 1 else 0)"
    "mset (map this_ptr ls) + owned al' = add_mset (this_ptr b) (owned al)"
    "needs b \<longrightarrow> (\<exists>x\<in>set ls. bstart x = unat cur)"
proof (cases "needs b")
  case False
  have sz: "unat (cur + rem * PageSize) = e"
    using assms(7) by (simp add: e_def unat_plus_no_wrap unat_mult_no_wrap)
  have ge: "unat (GetEndAddress b) = bend b"
    using assms(2) by (rule unat_GetEndAddress)
  have pc: "pieces eff (unat cur) e b [b]"
    using pieces_unchanged assms(2) skip_eff [OF False] by blast
  show ?thesis
  proof (cases "e < bend b")
    case True
    then have "cur + rem * PageSize < GetEndAddress b"
      using sz ge by (simp only: word_less_nat_alt)
    then have "update_step needs act cur rem (length pre) (pre @ b # post) al =
        Some (cur + rem * PageSize, 0, length pre + 1, pre @ [b] @ post, al)"
      using False by (simp add: update_step_def)
    then show ?thesis
      by (rule that) (use pc True assms(9) False in auto)
  next
    case le: False
    then have nl: "\<not> cur + rem * PageSize < GetEndAddress b"
      using sz ge by (simp only: word_less_nat_alt simp_thms)
    have d: "unat (cur + rem * PageSize - GetEndAddress b) = e - bend b"
      using sz ge le by (subst unat_minus_no_wrap) auto
    have "(e - bend b) mod 4096 = 0"
      using bend_aligned [OF assms(2)] assms(5) by (simp add: e_def mod_eq_0_iff_dvd dvd_diff_nat)
    then have r: "unat ((cur + rem * PageSize - GetEndAddress b) div PageSize) * 4096 = e - bend b"
      using d by (simp add: unat_div_distrib mod_eq_0_iff_dvd)
    have "update_step needs act cur rem (length pre) (pre @ b # post) al =
        Some (GetEndAddress b, (cur + rem * PageSize - GetEndAddress b) div PageSize, length pre + 1,
          pre @ [b] @ post, al)"
      using False nl by (simp add: update_step_def)
    then show ?thesis
      by (rule that) (use pc le assms(9) ge r False in auto)
  qed
next
  case True
  then have okb: "ok b"
    using assms(8) by simp
  have sz: "unat (rem * PageSize) = unat rem * 4096"
    using assms(7) by (simp add: unat_mult_no_wrap)
  have av: "(if bstart b = unat cur then 0 else 1) \<le> available al"
    using assms(10) by auto
  obtain ls c al1 where b1:
    "split_before cur (length pre) (pre @ b # post) al =
       Some (cur, length (pre @ ls), (pre @ ls) @ c # post, al1)"
    "chain (bstart b) ls (unat cur)" "block_wf c" "bstart c = unat cur" "bend c = bend b"
    "props_of c = props_of b" "right_bits c = right_bits b"
    "ls = [] \<and> c = b \<or> (\<exists>l. ls = [l] \<and> props_of l = props_of b \<and> left_bits l = left_bits b \<and>
       KMemoryBlock_Split (this_ptr l) cur b = Some (l, c))"
    "ua_ok al1" "available al = available al1 + (if bstart b = unat cur then 0 else 1)"
    "mset (map this_ptr (ls @ [c])) + owned al1 = add_mset (this_ptr b) (owned al)"
    "ua_slab al1 = ua_slab al"
    using split_before_ok [OF assms(1-5,9) av] .
  have okc: "ok c"
  proof (cases "ls = []")
    case False
    then have "bstart b < unat cur"
      using b1(2) chain_less by blast
    then show ?thesis
      using b1(8) False okb ok_split [OF okb assms(2) _ assms(4,5)] by blast
  qed (use b1(8) okb in simp)
  have ch: "chain s (pre @ ls) (bstart c)"
    using assms(1) b1(2,4) by (auto simp: chain_append)
  have pr: "unat (rem * PageSize) mod 4096 = 0" "0 < unat (rem * PageSize)"
    "unat cur + unat (rem * PageSize) < 2 ^ 64"
    "(if unat cur + unat (rem * PageSize) < bend c then 1 else 0) \<le> available al1"
    using sz assms(6,7,10) b1(5,10) by auto
  obtain d rs al2 where b2:
    "split_after cur (rem * PageSize) (length (pre @ ls)) ((pre @ ls) @ c # post) al1 =
       Some (length (pre @ ls), (pre @ ls) @ d # rs @ post, al2)"
    "block_wf d" "bstart d = unat cur" "bend d = min (bend c) (unat cur + unat (rem * PageSize))"
    "chain (bend d) rs (bend c)" "props_of d = props_of c" "left_bits d = left_bits c"
    "rs = [] \<and> d = c \<or> (\<exists>r. rs = [r] \<and> props_of r = props_of c \<and> right_bits r = right_bits c \<and>
       KMemoryBlock_Split (this_ptr d) (cur + rem * PageSize) c = Some (d, r))"
    "ua_ok al2" "available al1 = available al2 + (if unat cur + unat (rem * PageSize) < bend c then 1 else 0)"
    "mset (map this_ptr (d # rs)) + owned al2 = add_mset (this_ptr c) (owned al1)"
    "ua_slab al2 = ua_slab al1"
    using split_after_ok [OF ch b1(3,4) pr(1-3) b1(9) pr(4)] .
  have nd: "needs d"
    using needs_props b2(6) b1(6) True by metis
  have okd: "ok d"
  proof (cases "rs = []")
    case False
    then have lt: "bend d < bend c"
      using b2(5) chain_less by blast
    then have bd: "bend d = unat (cur + rem * PageSize)"
      using b2(4) pr(3) by (simp add: unat_plus_no_wrap)
    have "ok d \<and> ok (hd rs)"
    proof (rule ok_split [OF okc b1(3)])
      show "bstart c < unat (cur + rem * PageSize)" "unat (cur + rem * PageSize) < bend c"
        "unat (cur + rem * PageSize) mod 4096 = 0"
        using bd lt block_wf_less [OF b2(2)] b2(3) b1(4) bend_aligned [OF b2(2)] by simp_all
      show "KMemoryBlock_Split (this_ptr d) (cur + rem * PageSize) c = Some (d, hd rs)"
        using b2(8) False by auto
    qed
    then show ?thesis ..
  qed (use b2(8) okc in simp)
  obtain d' where d': "act d = Some d'" "block_wf d'" "bstart d' = bstart d" "bend d' = bend d"
    "this_ptr d' = this_ptr d" "props_of d' = eff (props_of d)"
    using act_piece [OF b2(2) okd nd] .
  have bd: "bend d = min (bend b) e"
    using b2(4) b1(5) sz by (simp add: e_def)
  have gs: "unat (GetSize d) = bend d - unat cur"
    using unat_GetSize [OF b2(2)] b2(3) by (simp add: bend_def)
  have "update_step needs act cur rem (length pre) (pre @ b # post) al =
      Some (cur + GetSize d, rem - GetSize d div PageSize, length (pre @ ls) + 1,
        pre @ (ls @ d' # rs) @ post, al2)"
    using True b1(1) b2(1) d'(1) by (simp add: update_step_def nth_append list_update_append)
  then show ?thesis
  proof (rule that)
    show "pieces eff (unat cur) e b (ls @ d' # rs)"
    proof (rule pieces_changed [where m = "bend d"])
      show "chain (unat cur) [d'] (bend d)"
        using d' b2(3) by simp
      show "chain (bend d) rs (bend b)" "chain (bstart b) ls (unat cur)" "bend d = min (bend b) e"
        "bstart b \<le> unat cur" "unat cur < bend b" "props_of d' = eff (props_of b)"
        using b1 b2 bd d' assms(3,4) by auto
      show "ls = [] \<or> (\<exists>l. ls = [l] \<and> props_of l = props_of b \<and> left_bits l = left_bits b)"
        using b1(8) by blast
      show "rs = [] \<or> (\<exists>r. rs = [r] \<and> props_of r = props_of b \<and> right_bits r = right_bits b)"
        using b2(8) b1(6,7) by auto
    qed
    have pg: "unat (GetSize d div PageSize) = bpages d"
      using unat_GetSize [OF b2(2)] by (simp add: unat_div_distrib)
    have bp: "bpages d * 4096 = bend d - unat cur"
      using b2(3) by (simp add: bend_def)
    then have le: "bpages d \<le> unat rem"
      using bd by (simp add: e_def)
    have "unat (rem - GetSize d div PageSize) * 4096 = unat rem * 4096 - bpages d * 4096"
      using pg le by (simp add: unat_minus_no_wrap diff_mult_distrib)
    then show "unat (rem - GetSize d div PageSize) * 4096 = e - bend b"
      using bp bd assms(4) by (auto simp: e_def min_def)
    show "bend b < e \<longrightarrow> length (pre @ ls) + 1 = length (pre @ ls @ d' # rs) \<and>
        unat (cur + GetSize d) = bend b"
    proof
      assume "bend b < e"
      then have be: "bend d = bend b" and "rs = []"
        using bd b2(5) b1(5) by (auto dest: chain_less)
      moreover have "unat (cur + GetSize d) = bend b"
        using gs be assms(4) assms(2) by (subst unat_plus_no_wrap) (auto simp: block_wf_def)
      ultimately show "length (pre @ ls) + 1 = length (pre @ ls @ d' # rs) \<and>
          unat (cur + GetSize d) = bend b" by simp
    qed
    show "ua_ok al2" "ua_slab al2 = ua_slab al"
      using b1 b2 by auto
    show "available al \<le> available al2 + (if bstart b = unat cur then 0 else 1) + (if e < bend b then 1 else 0)"
      using b1(5,10) b2(10) sz by (simp add: e_def)
    show "mset (map this_ptr (ls @ d' # rs)) + owned al2 = add_mset (this_ptr b) (owned al)"
    proof -
      have "mset (map this_ptr (ls @ d' # rs)) + owned al2 =
          mset (map this_ptr ls) + (mset (map this_ptr (d # rs)) + owned al2)"
        using d'(5) by (simp add: ac_simps)
      also have "\<dots> = mset (map this_ptr (ls @ [c])) + owned al1"
        by (simp only: b2(11)) simp
      finally show ?thesis
        by (simp only: b1(11))
    qed
    show "needs b \<longrightarrow> (\<exists>x\<in>set (ls @ d' # rs). bstart x = unat cur)"
      using d'(3) b2(3) by simp
  qed
qed

lemma update_loop_ok:
  assumes "chain s pre (bstart b)" "chain (bstart b) (b # post) E" "E < 2 ^ 64"
    "bstart b \<le> unat cur" "unat cur < bend b" "unat cur mod 4096 = 0" "0 < unat rem"
    "e = unat cur + unat rem * 4096" "e \<le> E"
    "\<forall>x\<in>set (b # post). bstart x < e \<longrightarrow> needs x \<longrightarrow> ok x" "ua_ok al"
    "(if bstart b = unat cur then 0 else 1) + (if e \<in> bend ` set (b # post) then 0 else 1) \<le> available al"
    "unmergeable (\<lambda>x. x < a \<or> e < x) (pre @ b # post)" "a \<le> unat cur" "bstart b = unat cur \<or> a = unat cur"
  shows "\<exists>res al'. update_loop needs act cur rem (length pre) (pre @ b # post) al = Some (pre @ res, al') \<and>
    chain (bstart b) res E \<and> res \<noteq> [] \<and>
    (\<forall>x. page_at res x =
      (if unat cur \<le> x \<and> x < e then map_option eff (page_at (b # post) x) else page_at (b # post) x)) \<and>
    unmergeable (\<lambda>x. x < a \<or> e < x) (pre @ res) \<and> ua_ok al' \<and> ua_slab al' = ua_slab al \<and>
    mset (map this_ptr res) + owned al' = mset (map this_ptr (b # post)) + owned al \<and>
    (needs b \<longrightarrow> (\<exists>x\<in>set res. bstart x = unat cur))"
  using assms
proof (induction post arbitrary: pre b cur rem al)
  case Nil
  note p = Nil.prems
  have wf: "block_wf b" "bend b = E"
    using p(2) by auto
  have av: "(if bstart b = unat cur then 0 else 1) + (if unat cur + unat rem * 4096 < bend b then 1 else 0)
      \<le> available al"
    using p(8,12) by (auto split: if_splits)
  have lt: "unat cur + unat rem * 4096 < 2 ^ 64" and okb: "needs b \<longrightarrow> ok b"
    using p(3,4,7,8,9,10) by auto
  obtain ls al' cur' rem' it' where st:
    "update_step needs act cur rem (length pre) (pre @ b # []) al =
       Some (cur', rem', it', pre @ ls @ [], al')"
    "pieces eff (unat cur) e b ls" "unat rem' * 4096 = e - bend b"
    "bend b < e \<longrightarrow> it' = length (pre @ ls) \<and> unat cur' = bend b"
    "ua_ok al'" "ua_slab al' = ua_slab al"
    "available al \<le> available al' + (if bstart b = unat cur then 0 else 1) + (if e < bend b then 1 else 0)"
    "mset (map this_ptr ls) + owned al' = add_mset (this_ptr b) (owned al)"
    "needs b \<longrightarrow> (\<exists>x\<in>set ls. bstart x = unat cur)"
    using update_step_ok [OF p(1) wf(1) p(4-7) lt okb p(11) av p(8), where post = "[]"] .
  have "rem' = 0"
    using st(3) p(9) wf(2) by (simp add: unat_eq_zero)
  then have "update_loop needs act cur rem (length pre) (pre @ b # []) al = Some (pre @ ls, al')"
    using st(1) p(7) by (simp add: update_loop.simps [of needs act cur] update_loop.simps [of needs act cur'] word_gt_0 unat_gt_0)
  moreover have "unmergeable (\<lambda>x. x < a \<or> e < x) (pre @ ls)"
    using unmergeable_pieces [OF p(13,1) st(2) p(14) _ p(15,4)] p(5,8) by simp
  ultimately show ?case
    using st(2,5,6,8,9) wf(2) by (auto simp: pieces_def)
next
  case (Cons c post)
  note p = Cons.prems
  have wf: "block_wf b" "chain (bend b) (c # post) E" "bstart c = bend b" "block_wf c"
    using p(2) by auto
  have ec: "bend b \<noteq> e \<Longrightarrow> e \<in> bend ` set (b # c # post) \<longleftrightarrow> e \<in> bend ` set (c # post)"
    by auto
  have nb: "e < bend b \<Longrightarrow> e \<notin> bend ` set (b # c # post)"
    using chain_member [OF wf(2)] block_wf_less by fastforce
  have av: "(if bstart b = unat cur then 0 else 1) + (if unat cur + unat rem * 4096 < bend b then 1 else 0)
      \<le> available al"
    using p(8,12) nb by (auto split: if_splits)
  have lt: "unat cur + unat rem * 4096 < 2 ^ 64" and okb: "needs b \<longrightarrow> ok b"
    using p(3,4,7,8,9,10) by auto
  obtain ls al' cur' rem' it' where st:
    "update_step needs act cur rem (length pre) (pre @ b # c # post) al =
       Some (cur', rem', it', pre @ ls @ c # post, al')"
    "pieces eff (unat cur) e b ls" "unat rem' * 4096 = e - bend b"
    "bend b < e \<longrightarrow> it' = length (pre @ ls) \<and> unat cur' = bend b"
    "ua_ok al'" "ua_slab al' = ua_slab al"
    "available al \<le> available al' + (if bstart b = unat cur then 0 else 1) + (if e < bend b then 1 else 0)"
    "mset (map this_ptr ls) + owned al' = add_mset (this_ptr b) (owned al)"
    "needs b \<longrightarrow> (\<exists>x\<in>set ls. bstart x = unat cur)"
    using update_step_ok [OF p(1) wf(1) p(4-7) lt okb p(11) av p(8), where post = "c # post"] .
  have chls: "chain (bstart b) ls (bend b)"
    using st(2) by (simp add: pieces_def)
  have um: "unmergeable (\<lambda>x. x < a \<or> e < x) (pre @ ls @ c # post)"
    using unmergeable_pieces [OF p(13,1) st(2) p(14) _ p(15,4)] p(5,8) by simp
  have unf: "update_loop needs act cur rem (length pre) (pre @ b # c # post) al =
      update_loop needs act cur' rem' it' (pre @ ls @ c # post) al'"
    using st(1) p(7) by (subst update_loop.simps) (simp add: word_gt_0 unat_gt_0)
  show ?case
  proof (cases "bend b < e")
    case False
    then have "rem' = 0"
      using st(3) by (simp add: unat_eq_zero)
    then have "update_loop needs act cur rem (length pre) (pre @ b # c # post) al =
        Some (pre @ (ls @ c # post), al')"
      using unf by (simp add: update_loop.simps)
    moreover have "page_at (ls @ c # post) x =
        (if unat cur \<le> x \<and> x < e then map_option eff (page_at (b # c # post) x)
         else page_at (b # c # post) x)" for x
    proof (rule pieces_page_at [OF st(2) wf(2) _ wf(2)])
      show "\<forall>x. page_at (c # post) x = (if bend b \<le> x \<and> x < e
          then map_option eff (page_at (c # post) x) else page_at (c # post) x)"
        using False by auto
    qed (use p(5) in simp)
    moreover have "chain (bstart b) (ls @ c # post) E"
      using chls wf(2) by (auto simp: chain_append)
    ultimately show ?thesis
      using um st(5,6,8,9) by (intro exI [of _ "ls @ c # post"] exI [of _ al']) auto
  next
    case True
    have cur': "unat cur' = bend b" "it' = length (pre @ ls)"
      using st(4) True by auto
    have "\<exists>res al2. update_loop needs act cur' rem' (length (pre @ ls)) ((pre @ ls) @ c # post) al' =
          Some ((pre @ ls) @ res, al2) \<and> chain (bstart c) res E \<and> res \<noteq> [] \<and>
        (\<forall>x. page_at res x = (if unat cur' \<le> x \<and> x < e then map_option eff (page_at (c # post) x)
           else page_at (c # post) x)) \<and>
        unmergeable (\<lambda>x. x < a \<or> e < x) ((pre @ ls) @ res) \<and> ua_ok al2 \<and> ua_slab al2 = ua_slab al' \<and>
        mset (map this_ptr res) + owned al2 = mset (map this_ptr (c # post)) + owned al' \<and>
        (needs c \<longrightarrow> (\<exists>x\<in>set res. bstart x = unat cur'))"
    proof (rule Cons.IH)
      show "chain s (pre @ ls) (bstart c)"
        using p(1) chls wf(3) by (auto simp: chain_append)
      show "chain (bstart c) (c # post) E" "E < 2 ^ 64" "e \<le> E" "ua_ok al'"
        using p(3,9) wf st(5) by auto
      show "bstart c \<le> unat cur'" "unat cur' < bend c" "unat cur' mod 4096 = 0"
        "bstart c = unat cur' \<or> a = unat cur'" "a \<le> unat cur'"
        using cur' wf(3) block_wf_less [OF wf(4)] bend_aligned [OF wf(1)] p(5,14) by auto
      show "0 < unat rem'" "e = unat cur' + unat rem' * 4096"
        using st(3) True cur' by auto
      show "\<forall>x\<in>set (c # post). bstart x < e \<longrightarrow> needs x \<longrightarrow> ok x"
        using p(10) by auto
      show "(if bstart c = unat cur' then 0 else 1) + (if e \<in> bend ` set (c # post) then 0 else 1)
          \<le> available al'"
        using p(12) st(7) True ec cur' wf(3) by (auto split: if_splits)
      show "unmergeable (\<lambda>x. x < a \<or> e < x) ((pre @ ls) @ c # post)"
        using um by simp
    qed
    then obtain res al2 where r:
      "update_loop needs act cur' rem' it' (pre @ ls @ c # post) al' = Some (pre @ ls @ res, al2)"
      "chain (bend b) res E" "res \<noteq> []"
      "\<forall>x. page_at res x = (if bend b \<le> x \<and> x < e then map_option eff (page_at (c # post) x)
           else page_at (c # post) x)"
      "unmergeable (\<lambda>x. x < a \<or> e < x) (pre @ ls @ res)" "ua_ok al2" "ua_slab al2 = ua_slab al'"
      "mset (map this_ptr res) + owned al2 = mset (map this_ptr (c # post)) + owned al'"
      using cur' wf(3) by auto
    have "page_at (ls @ res) x =
        (if unat cur \<le> x \<and> x < e then map_option eff (page_at (b # c # post) x)
         else page_at (b # c # post) x)" for x
      using pieces_page_at [OF st(2) wf(2) r(4,2)] p(5) by simp
    moreover have "chain (bstart b) (ls @ res) E"
      using chls r(2) by (auto simp: chain_append)
    moreover have "mset (map this_ptr (ls @ res)) + owned al2 =
        mset (map this_ptr (b # c # post)) + owned al"
    proof -
      have "mset (map this_ptr (ls @ res)) + owned al2 =
          mset (map this_ptr ls) + (mset (map this_ptr (c # post)) + owned al')"
        using r(8) by (simp add: ac_simps)
      also have "\<dots> = mset (map this_ptr (c # post)) + (mset (map this_ptr ls) + owned al')"
        by (simp add: ac_simps)
      finally show ?thesis
        by (simp only: st(8)) simp
    qed
    ultimately show ?thesis
      using r st(6,9) unf by (intro exI [of _ "ls @ res"] exI [of _ al2]) auto
  qed
qed

end

section \<open>Coalescing\<close>

abbreviation coalesced :: "KMemoryBlock list \<Rightarrow> bool" where
  "coalesced \<equiv> unmergeable (\<lambda>_. True)"

lemma unmergeable_above:
  assumes "unmergeable (\<lambda>x. e < x) (b # t)" "chain s (b # t) E" "e < bend b"
  shows "coalesced (b # t)"
proof (cases t)
  case (Cons c u)
  have "coalesced (c # u)"
  proof (rule unmergeable_bound)
    show "unmergeable (\<lambda>x. e < x) (c # u)" "chain (bend b) (c # u) E"
      using assms(1,2) Cons by auto
  qed (use assms(3) in simp)
  then show ?thesis
    using assms(1,3) Cons by simp
qed simp

lemma merge_ok:
  assumes "CanMergeWith p c" "block_wf p" "block_wf c" "bstart c = bend p"
  obtains d where "KMemoryBlock_Add p c = Some d" "block_wf d" "bstart d = bstart p" "bend d = bend c"
    "this_ptr d = this_ptr p" "props_of d = props_of p" "props_of d = props_of c"
    "left_bits d = left_bits p" "right_bits d = right_bits c"
proof -
  obtain d where d: "KMemoryBlock_Add p c = Some d" "block_wf d" "bstart d = bstart p" "bend d = bend c"
    "props_of d = props_of p" "this_ptr d = this_ptr p"
    "m_disable_merge_attribute d = m_disable_merge_attribute p OR m_disable_merge_attribute c"
    using KMemoryBlock_Add_ok [OF assms(2,3)] assms(4) by auto
  have "right_bits p = 0" "left_bits c = 0" "props_of p = props_of c"
    using assms(1) by (auto simp: CanMergeWith_iff)
  then have "left_bits d = left_bits p" "right_bits d = right_bits c" "props_of d = props_of c"
    using d(5,7) by (simp_all add: left_bits_def right_bits_def bit.conj_disj_distrib2)
  with d show ?thesis
    by (intro that [of d])
qed

text \<open>One round of the loop, on the two sides of the merge test.\<close>

lemma coalesce_loop_last: "coalesce_loop end_addr (length pre) (pre @ [p]) al = Some (pre @ [p], al)"
  by (simp add: coalesce_loop.simps)

lemma coalesce_loop_keep:
  assumes "\<not> CanMergeWith p c"
  shows "coalesce_loop end_addr (length pre) (pre @ p # c # post) al =
    (if end_addr < GetEndAddress c then Some (pre @ p # c # post, al)
     else coalesce_loop end_addr (length (pre @ [p])) ((pre @ [p]) @ c # post) al)"
  using assms by (subst coalesce_loop.simps) (simp add: nth_append)

lemma coalesce_loop_merge:
  assumes "CanMergeWith p c" "KMemoryBlock_Add p c = Some d"
    "UpdateAllocator_Free (this_ptr c) al = Some al'"
  shows "coalesce_loop end_addr (length pre) (pre @ p # c # post) al =
    (if end_addr < GetEndAddress d then Some (pre @ d # post, al')
     else coalesce_loop end_addr (length pre) (pre @ d # post) al')"
  using assms by (subst coalesce_loop.simps) (simp add: nth_append tree_erase_def list_update_append)

lemma coalesce_loop_ok:
  assumes "chain (bstart p) (p # post) E" "E < 2 ^ 64" "unmergeable (\<lambda>x. unat end_addr < x) (p # post)"
    "coalesced (pre @ [p])" "ua_ok al"
  shows "\<exists>res al'. coalesce_loop end_addr (length pre) (pre @ p # post) al = Some (pre @ res, al') \<and>
    chain (bstart p) res E \<and> res \<noteq> [] \<and> (\<forall>x. page_at res x = page_at (p # post) x) \<and>
    coalesced (pre @ res) \<and> ua_ok al' \<and>
    mset (map this_ptr res) + owned al' = mset (map this_ptr (p # post)) + owned al"
  using assms
proof (induction post arbitrary: pre p al)
  case Nil
  then show ?case
    by (intro exI [of _ "[p]"] exI [of _ al]) (simp add: coalesce_loop_last)
next
  case (Cons c post)
  note prems = Cons.prems
  have wf: "block_wf p" "block_wf c" "bstart c = bend p" "chain (bend p) (c # post) E"
    using prems(1) by auto
  show ?case
  proof (cases "CanMergeWith p c")
    case False
    have co: "coalesced ((pre @ [p]) @ [c])"
      using prems(4) False unmergeable_append [of "\<lambda>_. True" pre p "[c]"] by simp
    show ?thesis
    proof (cases "end_addr < GetEndAddress c")
      case True
      then have "unat end_addr < bend c"
        using unat_GetEndAddress [OF wf(2)] by (simp add: word_less_nat_alt)
      then have "coalesced (c # post)"
        using prems(3) wf(4) by (intro unmergeable_above [of "unat end_addr"]) auto
      then have "coalesced (pre @ p # c # post)"
        using co unmergeable_append [of "\<lambda>_. True" "pre @ [p]" c post] by simp
      then show ?thesis
        using True False prems(1,5)
        by (intro exI [of _ "p # c # post"] exI [of _ al]) (simp add: coalesce_loop_keep)
    next
      case go: False
      have "\<exists>res al'. coalesce_loop end_addr (length (pre @ [p])) ((pre @ [p]) @ c # post) al =
            Some ((pre @ [p]) @ res, al') \<and> chain (bstart c) res E \<and> res \<noteq> [] \<and>
          (\<forall>x. page_at res x = page_at (c # post) x) \<and> coalesced ((pre @ [p]) @ res) \<and> ua_ok al' \<and>
          mset (map this_ptr res) + owned al' = mset (map this_ptr (c # post)) + owned al"
        by (rule Cons.IH) (use prems wf co in auto)
      then obtain res al' where r: "coalesce_loop end_addr (length (pre @ [p])) ((pre @ [p]) @ c # post) al =
            Some ((pre @ [p]) @ res, al')" "chain (bstart c) res E"
          "\<forall>x. page_at res x = page_at (c # post) x" "coalesced ((pre @ [p]) @ res)" "ua_ok al'"
          "mset (map this_ptr res) + owned al' = mset (map this_ptr (c # post)) + owned al"
        by blast
      show ?thesis
        using r go False wf by (intro exI [of _ "p # res"] exI [of _ al']) (simp add: coalesce_loop_keep)
    qed
  next
    case True
    obtain d where d: "KMemoryBlock_Add p c = Some d" "block_wf d" "bstart d = bstart p" "bend d = bend c"
      "this_ptr d = this_ptr p" "props_of d = props_of p" "props_of d = props_of c"
      "left_bits d = left_bits p" "right_bits d = right_bits c"
      using merge_ok [OF True wf(1,2,3)] .
    obtain al1 where al1: "UpdateAllocator_Free (this_ptr c) al = Some al1" "ua_ok al1"
      "owned al1 = add_mset (this_ptr c) (owned al)"
      using UpdateAllocator_Free_ok [OF prems(5)] .
    have chd: "chain (bstart d) (d # post) E"
      using d(2,4) wf(4) by simp
    have und: "unmergeable (\<lambda>x. unat end_addr < x) (d # post)"
      using prems(3) unmergeable_Cons_cong [OF d(4,7,9)] by simp
    have co: "coalesced (pre @ [d])"
      using prems(4) unmergeable_snoc_cong [OF d(6,8)] by blast
    have pg: "page_at (d # post) x = page_at (p # c # post) x" for x
      using d(3,4,6,7) wf(3) block_wf_less [OF wf(1)] block_wf_less [OF wf(2)] by auto
    have ms: "mset (map this_ptr (d # post)) + owned al1 = mset (map this_ptr (p # c # post)) + owned al"
      using d(5) al1(3) by simp
    show ?thesis
    proof (cases "end_addr < GetEndAddress d")
      case stop: True
      then have "unat end_addr < bend d"
        using unat_GetEndAddress [OF d(2)] by (simp add: word_less_nat_alt)
      then have "coalesced (d # post)"
        using und chd by (intro unmergeable_above)
      then have "coalesced (pre @ d # post)"
        using co unmergeable_append [of "\<lambda>_. True" pre d post] by simp
      then show ?thesis
        using stop True d(1,3) al1 chd pg ms
        by (intro exI [of _ "d # post"] exI [of _ al1]) (simp add: coalesce_loop_merge)
    next
      case go: False
      have "\<exists>res al'. coalesce_loop end_addr (length pre) (pre @ d # post) al1 = Some (pre @ res, al') \<and>
          chain (bstart d) res E \<and> res \<noteq> [] \<and> (\<forall>x. page_at res x = page_at (d # post) x) \<and>
          coalesced (pre @ res) \<and> ua_ok al' \<and>
          mset (map this_ptr res) + owned al' = mset (map this_ptr (d # post)) + owned al1"
        using chd prems(2) und co al1(2) by (rule Cons.IH)
      then show ?thesis
        using coalesce_loop_merge [OF True d(1) al1(1), of end_addr pre post] go
        by (simp only: pg ms d(3) if_False)
    qed
  qed
qed

section \<open>The manager invariant and the update operations\<close>

definition manager_ok :: "KMemoryBlockManager \<Rightarrow> bool" where
  "manager_ok m \<longleftrightarrow>
     m_memory_block_tree m \<noteq> [] \<and>
     chain (unat (m_start_address m)) (m_memory_block_tree m) (unat (m_end_address m)) \<and>
     coalesced (m_memory_block_tree m)"

text \<open>The number of blocks an update of \<open>[a, e)\<close> may have to allocate.\<close>

definition blocks_needed :: "KMemoryBlock list \<Rightarrow> nat \<Rightarrow> nat \<Rightarrow> nat" where
  "blocks_needed t a e =
     (if a \<in> bstart ` set t then 0 else 1) + (if e \<in> bend ` set t then 0 else 1)"

text \<open>The pages of a tree after \<open>eff\<close> has been applied to the range \<open>[a, e)\<close>.\<close>

definition page_update ::
    "(MemProps \<Rightarrow> MemProps) \<Rightarrow> nat \<Rightarrow> nat \<Rightarrow> (nat \<Rightarrow> MemProps option) \<Rightarrow> nat \<Rightarrow> MemProps option" where
  "page_update eff a e pg x = (if a \<le> x \<and> x < e then map_option eff (pg x) else pg x)"

text \<open>
  When an update of \<open>n\<close> pages at \<open>a\<close> is admissible: the invariants, an aligned non-empty range
  inside the address space, blocks that accept the change, enough preallocated blocks, and
  (see \<open>Update_before_first_block\<close> below) a block before the range unless it starts the space.
\<close>

definition can_update ::
    "(KMemoryBlock \<Rightarrow> bool) \<Rightarrow> (KMemoryBlock \<Rightarrow> bool) \<Rightarrow> u64 \<Rightarrow> u64 \<Rightarrow> KMemoryBlockManager \<Rightarrow>
     UpdateAllocator \<Rightarrow> bool" where
  "can_update needs ok a n m al \<longleftrightarrow>
     (let e = unat a + unat n * 4096 in
      manager_ok m \<and> ua_ok al \<and> unat a mod 4096 = 0 \<and> 0 < unat n \<and>
      unat (m_start_address m) \<le> unat a \<and> e \<le> unat (m_end_address m) \<and>
      (\<forall>b\<in>set (m_memory_block_tree m). bstart b < e \<longrightarrow> unat a < bend b \<longrightarrow> needs b \<longrightarrow> ok b) \<and>
      blocks_needed (m_memory_block_tree m) (unat a) e \<le> available al \<and>
      (a = m_start_address m \<or> bend (hd (m_memory_block_tree m)) \<le> unat a \<or>
       needs (hd (m_memory_block_tree m))))"

text \<open>
  What an update achieves: the tree still tiles the address space and is coalesced, every
  page of the range has its properties changed by \<open>eff\<close> and no other page changes, and no block
  is leaked or duplicated.
\<close>

definition updated ::
    "(MemProps \<Rightarrow> MemProps) \<Rightarrow> u64 \<Rightarrow> u64 \<Rightarrow> KMemoryBlockManager \<Rightarrow> UpdateAllocator \<Rightarrow>
     KMemoryBlockManager \<Rightarrow> UpdateAllocator \<Rightarrow> bool" where
  "updated eff a n m al m' al' \<longleftrightarrow>
     manager_ok m' \<and> m_start_address m' = m_start_address m \<and> m_end_address m' = m_end_address m \<and>
     page_at (m_memory_block_tree m') =
       page_update eff (unat a) (unat a + unat n * 4096) (page_at (m_memory_block_tree m)) \<and>
     ua_ok al' \<and>
     mset (map this_ptr (m_memory_block_tree m')) + owned al' =
       mset (map this_ptr (m_memory_block_tree m)) + owned al"

lemma chain_locate:
  assumes "chain s t e" "s \<le> x" "x < e"
  obtains pre b post where "t = pre @ b # post" "bstart b \<le> x" "x < bend b"
proof -
  obtain b where "b \<in> set t" "bstart b \<le> x" "x < bend b"
    using page_at_inside [OF assms] by blast
  then show ?thesis
    using that by (metis split_list)
qed

lemma chain_at_start:
  assumes "chain s (pre @ b # post) e" "bstart b \<le> s"
  shows "pre = []"
proof (rule ccontr)
  assume "pre \<noteq> []"
  moreover have "chain s pre (bstart b)"
    using assms(1) by (auto simp: chain_append)
  ultimately show False
    using chain_less assms(2) by force
qed

lemma CoalesceForUpdate_ok:
  assumes ch: "chain (unat (m_start_address m)) (m_memory_block_tree m) (unat (m_end_address m))"
    and um: "unmergeable (\<lambda>x. x < unat a \<or> unat (a + n * PageSize) < x) (m_memory_block_tree m)"
    and rng: "unat (m_start_address m) \<le> unat a" "unat a < unat (m_end_address m)"
    and prev: "a = m_start_address m \<or> bend (hd (m_memory_block_tree m)) \<le> unat a"
    and al: "ua_ok al"
  shows "\<exists>t al'. CoalesceForUpdate a n m al = Some (m\<lparr>m_memory_block_tree := t\<rparr>, al') \<and>
    chain (unat (m_start_address m)) t (unat (m_end_address m)) \<and> t \<noteq> [] \<and> coalesced t \<and>
    (\<forall>x. page_at t x = page_at (m_memory_block_tree m) x) \<and> ua_ok al' \<and>
    mset (map this_ptr t) + owned al' = mset (map this_ptr (m_memory_block_tree m)) + owned al"
proof -
  obtain pre c post where t: "m_memory_block_tree m = pre @ c # post" "bstart c \<le> unat a" "unat a < bend c"
    using chain_locate [OF ch rng] .
  have it: "FindIterator m a = length pre"
    using FindIterator_eq [OF t(1) ch t(2,3)] .
  have chs: "chain (unat (m_start_address m)) pre (bstart c)"
      "chain (bstart c) (c # post) (unat (m_end_address m))"
    using ch t(1) by (auto simp: chain_append)
  have E: "unat (m_end_address m) < 2 ^ 64"
    using unsigned_less [of "m_end_address m"] by simp
  let ?P = "\<lambda>x. x < unat a \<or> unat (a + n * PageSize) < x"
  have umc: "unmergeable ?P (pre @ [c])" "unmergeable ?P (c # post)"
    using um t(1) unmergeable_append [of ?P pre c post] by auto
  show ?thesis
  proof (cases "a = m_start_address m")
    case True
    then have p: "pre = []"
      using chain_at_start ch t(1,2) by auto
    have "unmergeable (\<lambda>x. unat (a + n * PageSize) < x) (c # post)"
      using umc(2) by (auto intro: unmergeable_mono)
    from coalesce_loop_ok [OF chs(2) E this _ al, of "[]"] obtain res al' where
      "coalesce_loop (a + n * PageSize) 0 (c # post) al = Some (res, al')"
      and r: "chain (bstart c) res (unat (m_end_address m))" "res \<noteq> []"
        "\<forall>x. page_at res x = page_at (c # post) x" "coalesced res" "ua_ok al'"
        "mset (map this_ptr res) + owned al' = mset (map this_ptr (c # post)) + owned al"
      by auto
    then have "CoalesceForUpdate a n m al = Some (m\<lparr>m_memory_block_tree := res\<rparr>, al')"
      using True t(1) it p by (simp add: CoalesceForUpdate_def)
    then show ?thesis
      using r t(1) p chs(1) by (intro exI [of _ res] exI [of _ al']) simp
  next
    case False
    then have "pre \<noteq> []"
      using prev t(1,3) by auto
    then obtain pre' p where p: "pre = pre' @ [p]"
      by (cases pre rule: rev_cases) auto
    have chp: "chain (unat (m_start_address m)) pre' (bstart p)"
        "chain (bstart p) (p # c # post) (unat (m_end_address m))"
      using chs p by (auto simp: chain_append)
    have "unmergeable ?P pre"
      using umc(1) p unmergeable_append [of ?P pre' p "[c]"] by simp
    then have co: "coalesced (pre' @ [p])"
      using chs(1) t(2) p by (auto intro: unmergeable_bound)
    have "unmergeable ?P (p # c # post)"
      using um t(1) p unmergeable_append [of ?P pre' p "c # post"] by simp
    then have "unmergeable (\<lambda>x. unat (a + n * PageSize) < x) (p # c # post)"
      by (auto intro: unmergeable_mono)
    from coalesce_loop_ok [OF chp(2) E this co al] obtain res al' where
      "coalesce_loop (a + n * PageSize) (length pre') (pre' @ p # c # post) al = Some (pre' @ res, al')"
      and r: "chain (bstart p) res (unat (m_end_address m))" "res \<noteq> []"
        "\<forall>x. page_at res x = page_at (p # c # post) x" "coalesced (pre' @ res)" "ua_ok al'"
        "mset (map this_ptr res) + owned al' = mset (map this_ptr (p # c # post)) + owned al"
      by blast
    then have "CoalesceForUpdate a n m al = Some (m\<lparr>m_memory_block_tree := pre' @ res\<rparr>, al')"
      using False t(1) it p by (simp add: CoalesceForUpdate_def)
    moreover have "page_at (pre' @ res) x = page_at (m_memory_block_tree m) x" for x
      using r(3) t(1) p by (simp add: page_at_append split: option.split)
    moreover have "mset (map this_ptr (pre' @ res)) + owned al' =
        mset (map this_ptr (m_memory_block_tree m)) + owned al"
      using r(6) t(1) p by (simp add: add.assoc)
    moreover have "chain (unat (m_start_address m)) (pre' @ res) (unat (m_end_address m))"
      using chp(1) r(1) by (auto simp: chain_append)
    ultimately show ?thesis
      using r by (intro exI [of _ "pre' @ res"] exI [of _ al']) simp
  qed
qed

lemma blocks_needed_located:
  assumes "chain s pre (bstart b)" "chain (bstart b) (b # post) E" "bstart b \<le> a" "a < bend b" "a < e"
  shows "blocks_needed (pre @ b # post) a e =
    (if bstart b = a then 0 else 1) + (if e \<in> bend ` set (b # post) then 0 else 1)"
proof -
  have pre: "bstart x < bstart b" "bend x \<le> a" if "x \<in> set pre" for x
    using chain_member [OF assms(1) that] block_wf_less [of x] assms(3) by auto
  have post: "bend b \<le> bstart x" if "x \<in> set post" for x
    using assms(2) chain_member [of "bend b" post E x] that by auto
  have "a \<in> bstart ` set (pre @ b # post) \<longleftrightarrow> bstart b = a"
    using pre post assms(3,4) by fastforce
  moreover have "e \<in> bend ` set (pre @ b # post) \<longleftrightarrow> e \<in> bend ` set (b # post)"
    using pre assms(5) by fastforce
  ultimately show ?thesis
    by (simp add: blocks_needed_def)
qed

lemma first_block_before:
  assumes "chain s pre (bstart b)" "chain (bstart b) res E" "bstart b \<le> a" "res \<noteq> []"
    "pre = [] \<Longrightarrow> s < a \<Longrightarrow> \<exists>x\<in>set res. bstart x = a" "s < a"
  shows "bend (hd (pre @ res)) \<le> a"
proof (cases pre)
  case Nil
  then obtain x c cs where x: "x \<in> set res" "bstart x = a" "res = c # cs"
    using assms(4,5,6) by (cases res) auto
  then have "x \<in> set cs"
    using assms(1,2,6) Nil by auto
  then show ?thesis
    using x assms(2) Nil chain_member [of "bend c" cs E x] by auto
next
  case (Cons p ps)
  then show ?thesis
    using chain_member [OF assms(1), of p] assms(3) by simp
qed

context update_action
begin

lemma update_with_ok:
  assumes "can_update needs ok a n m al"
  shows "\<exists>m' al'. update_with needs act a n m al = Some (m', al') \<and> updated eff a n m al m' al'"
proof -
  let ?t = "m_memory_block_tree m" and ?s = "unat (m_start_address m)" and ?E = "unat (m_end_address m)"
  define e where e: "e = unat a + unat n * 4096"
  have ch: "chain ?s ?t ?E" and co: "coalesced ?t" and al: "ua_ok al" "unat a mod 4096 = 0" "0 < unat n"
    and rng: "?s \<le> unat a" "e \<le> ?E"
    and ok: "\<forall>b\<in>set ?t. bstart b < e \<longrightarrow> unat a < bend b \<longrightarrow> needs b \<longrightarrow> ok b"
    and av: "blocks_needed ?t (unat a) e \<le> available al"
    and prev: "a = m_start_address m \<or> bend (hd ?t) \<le> unat a \<or> needs (hd ?t)"
    using assms by (auto simp: manager_ok_def can_update_def Let_def e)
  have E: "?E < 2 ^ 64"
    using unsigned_less [of "m_end_address m"] by simp
  have aE: "unat a < ?E"
    using al(3) e rng(2) by linarith
  have ea: "unat (a + n * PageSize) = e"
    using e rng(2) E by (simp add: unat_plus_no_wrap unat_mult_no_wrap)
  obtain pre b post where t: "?t = pre @ b # post" "bstart b \<le> unat a" "unat a < bend b"
    using chain_locate [OF ch rng(1) aE] .
  have chs: "chain ?s pre (bstart b)" "chain (bstart b) (b # post) ?E"
    using ch t(1) by (auto simp: chain_append)
  have okb: "\<forall>x\<in>set (b # post). bstart x < e \<longrightarrow> needs x \<longrightarrow> ok x"
  proof (intro ballI impI)
    fix x assume x: "x \<in> set (b # post)" "bstart x < e" "needs x"
    then have "unat a < bend x"
      using t(3) chain_member [of "bend b" post ?E x] chs(2) block_wf_less [of x] by auto
    then show "ok x"
      using ok x t(1) by auto
  qed
  have avb: "(if bstart b = unat a then 0 else 1) + (if e \<in> bend ` set (b # post) then 0 else 1)
      \<le> available al"
    using av blocks_needed_located [OF chs t(2,3), of e] al(3) e t(1) by simp
  have umb: "unmergeable (\<lambda>x. x < unat a \<or> e < x) (pre @ b # post)"
    using co t(1) by (auto intro: unmergeable_mono)
  from update_loop_ok [OF chs E t(2,3) al(2,3) e rng(2) okb al(1) avb umb] obtain res al1 where
    lp: "update_loop needs act a n (length pre) (pre @ b # post) al = Some (pre @ res, al1)"
    "chain (bstart b) res ?E" "res \<noteq> []"
    "\<forall>x. page_at res x =
      (if unat a \<le> x \<and> x < e then map_option eff (page_at (b # post) x) else page_at (b # post) x)"
    "unmergeable (\<lambda>x. x < unat a \<or> e < x) (pre @ res)" "ua_ok al1"
    "mset (map this_ptr res) + owned al1 = mset (map this_ptr (b # post)) + owned al"
    "needs b \<longrightarrow> (\<exists>x\<in>set res. bstart x = unat a)"
    by auto
  let ?m = "m\<lparr>m_memory_block_tree := pre @ res\<rparr>"
  have ch': "chain ?s (pre @ res) ?E"
    using chs(1) lp(2) by (auto simp: chain_append)
  have prev': "a = m_start_address m \<or> bend (hd (pre @ res)) \<le> unat a"
  proof (cases "a = m_start_address m")
    case False
    then have "?s < unat a"
      using rng(1) by (simp add: word_eq_unat_iff)
    moreover have "needs b" if "pre = []"
      using that prev t(1,3) False by auto
    ultimately show ?thesis
      using first_block_before [OF chs(1) lp(2) t(2) lp(3)] lp(8) by blast
  qed simp
  have "\<exists>t al'. CoalesceForUpdate a n ?m al1 = Some (?m\<lparr>m_memory_block_tree := t\<rparr>, al') \<and>
    chain (unat (m_start_address ?m)) t (unat (m_end_address ?m)) \<and> t \<noteq> [] \<and> coalesced t \<and>
    (\<forall>x. page_at t x = page_at (m_memory_block_tree ?m) x) \<and> ua_ok al' \<and>
    mset (map this_ptr t) + owned al' = mset (map this_ptr (m_memory_block_tree ?m)) + owned al1"
    using ch' lp(5,6) rng(1) aE prev' ea by (intro CoalesceForUpdate_ok) (simp_all del: PageSize_eq)
  then obtain t al2 where c: "CoalesceForUpdate a n ?m al1 = Some (?m\<lparr>m_memory_block_tree := t\<rparr>, al2)"
    "chain ?s t ?E" "t \<noteq> []" "coalesced t" "\<forall>x. page_at t x = page_at (pre @ res) x" "ua_ok al2"
    "mset (map this_ptr t) + owned al2 = mset (map this_ptr (pre @ res)) + owned al1"
    by auto
  have "update_with needs act a n m al = Some (m\<lparr>m_memory_block_tree := t\<rparr>, al2)"
    using lp(1) c(1) FindIterator_eq [OF t(1) ch t(2,3)] t(1) by (simp add: update_with_def)
  moreover have "page_at t = page_update eff (unat a) e (page_at ?t)"
  proof
    fix x
    show "page_at t x = page_update eff (unat a) e (page_at ?t) x"
      using c(5) lp(4) t(1,2) page_at_chain_append [OF chs, of x] page_at_chain_append [OF chs(1) lp(2), of x]
      by (auto simp: page_update_def simp del: page_at.simps)
  qed
  moreover have "mset (map this_ptr t) + owned al2 = mset (map this_ptr ?t) + owned al"
    using c(7) lp(7) t(1) by (simp add: add.assoc)
  ultimately show ?thesis
    using c e
    by (intro exI [of _ "m\<lparr>m_memory_block_tree := t\<rparr>"] exI [of _ al2]) (simp add: manager_ok_def updated_def)
qed

end

section \<open>The four update operations\<close>

definition has_properties :: "MemProps \<Rightarrow> u32 \<Rightarrow> u8 \<Rightarrow> u8 \<Rightarrow> bool" where
  "has_properties q s p a \<longleftrightarrow>
     p_state q = s \<and> p_permission q = p \<and>
     (p_attribute q OR AttributeIgnoreMask) = (a OR AttributeIgnoreMask)"

lemma HasProperties_props: "HasProperties b s p a = has_properties (props_of b) s p a"
  by (simp add: HasProperties_def has_properties_def props_of_def)

definition set_properties :: "u32 \<Rightarrow> u8 \<Rightarrow> u8 \<Rightarrow> MemProps \<Rightarrow> MemProps" where
  "set_properties s p a q =
     q\<lparr>p_state := s, p_permission := p, p_attribute := a OR (p_attribute q AND AttributeIgnoreMask)\<rparr>"

definition set_attribute :: "u8 \<Rightarrow> u8 \<Rightarrow> MemProps \<Rightarrow> MemProps" where
  "set_attribute msk attr q = q\<lparr>p_attribute := (p_attribute q AND NOT msk) OR attr\<rparr>"

definition updatable :: "KMemoryBlock \<Rightarrow> bool" where
  "updatable b \<longleftrightarrow> m_original_permission b = KMemoryPermission_None \<and>
     m_attribute b AND KMemoryAttribute_IpcLocked = KMemoryAttribute_None"

lemma or_mask_eqD:
  fixes x a m :: u8
  assumes "x OR m = a OR m" "a AND m = 0"
  shows "a OR (x AND m) = x"
proof (rule bit_word_eqI)
  fix i
  have "bit (x OR m) i = bit (a OR m) i" "bit (a AND m) i = bit (0 :: u8) i"
    using assms by simp_all
  then show "bit (a OR (x AND m)) i = bit x i"
    by (auto simp: bit_or_iff bit_and_iff)
qed

lemma set_properties_same:
  assumes "has_properties q s p a" "a AND AttributeIgnoreMask = 0"
  shows "set_properties s p a q = q"
  using assms or_mask_eqD [of "p_attribute q" AttributeIgnoreMask a]
  by (simp add: has_properties_def set_properties_def)

lemma set_attribute_same: "p_attribute q AND msk = attr \<Longrightarrow> set_attribute msk attr q = q"
proof -
  assume "p_attribute q AND msk = attr"
  moreover have "(p_attribute q AND NOT msk) OR (p_attribute q AND msk) = p_attribute q"
    by (rule bit_word_eqI) (auto simp: bit_or_iff bit_and_iff bit_not_iff)
  ultimately show ?thesis
    by (simp add: set_attribute_def)
qed

lemma Split_fields:
  "KMemoryBlock_Split p x b = Some (l, r) \<Longrightarrow>
   props_of l = props_of b \<and> props_of r = props_of b \<and>
   m_ipc_disable_merge_count l = m_ipc_disable_merge_count b \<and> m_ipc_disable_merge_count r = 0 \<and>
   m_address l = m_address b \<and> m_address r = x \<and> m_address b < x"
  by (auto simp: KMemoryBlock_Split_def Let_def props_of_def)

lemma updatable_props: "updatable b \<longleftrightarrow>
    p_original_permission (props_of b) = 0 \<and> p_attribute (props_of b) AND KMemoryAttribute_IpcLocked = 0"
  by (simp add: updatable_def props_of_def KMemoryPermission_None_def KMemoryAttribute_None_def)

lemma KMemoryBlock_Update_ok:
  assumes "updatable b"
  shows "\<exists>b'. KMemoryBlock_Update s p a l sm cm b = Some b' \<and> m_address b' = m_address b \<and>
    m_num_pages b' = m_num_pages b \<and> this_ptr b' = this_ptr b \<and>
    props_of b' = set_properties s p a (props_of b)"
  using assms
  by (auto simp: updatable_def KMemoryBlock_Update_def Let_def props_of_def set_properties_def
      AttributeIgnoreMask_def)

interpretation update: update_action
  "\<lambda>b. \<not> HasProperties b s p a"
  "\<lambda>b. KMemoryBlock_Update s p a (m_address b = addr) sm cm b"
  "\<lambda>q. if has_properties q s p a then q else set_properties s p a q"
  updatable
  for s p a addr sm cm
  by unfold_locales
    (auto simp: HasProperties_props updatable_props dest: Split_fields
      intro: KMemoryBlock_Update_ok [unfolded updatable_props])

interpretation update_if_match: update_action
  "\<lambda>b. HasProperties b ts tp ta \<and> \<not> HasProperties b s p a"
  "KMemoryBlock_Update s p a False sm cm"
  "\<lambda>q. if has_properties q ts tp ta \<and> \<not> has_properties q s p a then set_properties s p a q else q"
  updatable
  for ts tp ta s p a sm cm
  by unfold_locales
    (auto simp: HasProperties_props updatable_props dest: Split_fields
      intro: KMemoryBlock_Update_ok [unfolded updatable_props])

interpretation update_attribute: update_action
  "\<lambda>b. m_attribute b AND msk \<noteq> attr"
  "KMemoryBlock_UpdateAttribute msk attr"
  "\<lambda>q. if p_attribute q AND msk = attr then q else set_attribute msk attr q"
  "\<lambda>b. msk AND KMemoryAttribute_IpcLocked = 0 \<and> msk AND KMemoryAttribute_DeviceShared = 0"
  for msk attr
  by unfold_locales
    (auto simp: KMemoryBlock_UpdateAttribute_def props_of_def set_attribute_def)

subsection \<open>Locking\<close>

definition lockable :: "u8 \<Rightarrow> KMemoryBlock \<Rightarrow> bool" where
  "lockable new_perm b \<longleftrightarrow>
     (m_attribute b AND KMemoryAttribute_IpcLocked = KMemoryAttribute_IpcLocked \<or> m_ipc_lock_count b = 0) \<and>
     m_ipc_lock_count b + 1 \<noteq> 0 \<and> m_ipc_disable_merge_count b + 1 \<noteq> 0 \<and>
     (m_ipc_lock_count b = 0 \<longrightarrow>
       m_original_permission b = KMemoryPermission_None \<and>
       (m_permission b OR new_perm OR KMemoryPermission_NotMapped) =
         (m_permission b OR KMemoryPermission_NotMapped) \<and>
       (m_permission b AND KMemoryPermission_UserExecute \<noteq> KMemoryPermission_UserExecute \<or>
        new_perm = KMemoryPermission_UserRead))"

definition lock_props :: "u8 \<Rightarrow> MemProps \<Rightarrow> MemProps" where
  "lock_props new_perm q =
     (if p_ipc_lock_count q = 0
      then q\<lparr>p_original_permission := p_permission q,
             p_permission := (new_perm AND KMemoryPermission_IpcLockChangeMask) OR
               (p_permission q AND NOT KMemoryPermission_IpcLockChangeMask),
             p_attribute := p_attribute q OR KMemoryAttribute_IpcLocked, p_ipc_lock_count := 1\<rparr>
      else q\<lparr>p_attribute := p_attribute q OR KMemoryAttribute_IpcLocked,
             p_ipc_lock_count := p_ipc_lock_count q + 1\<rparr>)"

definition unlockable :: "u64 \<Rightarrow> KMemoryBlock \<Rightarrow> bool" where
  "unlockable address b \<longleftrightarrow>
     m_attribute b AND KMemoryAttribute_IpcLocked = KMemoryAttribute_IpcLocked \<and>
     0 < m_ipc_lock_count b \<and>
     (m_ipc_lock_count b = 1 \<longrightarrow> m_original_permission b \<noteq> KMemoryPermission_None) \<and>
     (bstart b \<le> unat address \<longrightarrow> unat address < bend b \<longrightarrow>
        bstart b = unat address \<and> 0 < m_ipc_disable_merge_count b)"

definition unlock_props :: "MemProps \<Rightarrow> MemProps" where
  "unlock_props q =
     (if p_ipc_lock_count q = 1
      then q\<lparr>p_permission := p_original_permission q, p_original_permission := KMemoryPermission_None,
             p_attribute := p_attribute q AND NOT KMemoryAttribute_IpcLocked, p_ipc_lock_count := 0\<rparr>
      else q\<lparr>p_ipc_lock_count := p_ipc_lock_count q - 1\<rparr>)"

lemma plus_1_eq_1_iff: "(x :: 'a::len word) + 1 = 1 \<longleftrightarrow> x = 0"
  by (metis add_cancel_left_left)

lemma LockForIpc_ok:
  assumes "lockable new_perm b"
  shows "\<exists>b'. LockForIpc new_perm left right b = Some b' \<and> m_address b' = m_address b \<and>
    m_num_pages b' = m_num_pages b \<and> this_ptr b' = this_ptr b \<and>
    props_of b' = lock_props new_perm (props_of b)"
  using assms
  by (cases "m_ipc_lock_count b = 0")
    (auto simp: lockable_def LockForIpc_def Let_def props_of_def lock_props_def word_gt_0 plus_1_eq_1_iff)

lemma UnlockForIpc_ok:
  assumes "unlockable address b" "block_wf b"
  shows "\<exists>b'. UnlockForIpc new_perm (m_address b = address) right b = Some b' \<and> m_address b' = m_address b \<and>
    m_num_pages b' = m_num_pages b \<and> this_ptr b' = this_ptr b \<and>
    props_of b' = unlock_props (props_of b)"
  using assms block_wf_less [of b]
  by (cases "m_ipc_lock_count b = 1")
    (auto simp: unlockable_def UnlockForIpc_def Let_def props_of_def unlock_props_def bstart_def)

lemma lockable_split:
  assumes "lockable np b" "KMemoryBlock_Split p x b = Some (l, r)"
  shows "lockable np l \<and> lockable np r"
  using assms Split_fields [OF assms(2)] by (auto simp: lockable_def props_of_def)

lemma unlockable_split:
  assumes "unlockable a b" "block_wf b" "bstart b < unat x" "unat x < bend b" "unat x mod 4096 = 0"
    "KMemoryBlock_Split p x b = Some (l, r)"
  shows "unlockable a l \<and> unlockable a r"
proof -
  have "bstart l = bstart b" "bend l = unat x" "bstart r = unat x" "bend r = bend b"
    using KMemoryBlock_Split_ok [OF assms(2-5), of p] assms(6) by auto
  then show ?thesis
    using assms(1,3,4) Split_fields [OF assms(6)] by (auto simp: unlockable_def props_of_def)
qed

interpretation lock_ipc: update_action
  "\<lambda>b. True" "\<lambda>b. LockForIpc np (m_address b = addr) (GetEndAddress b = ed) b"
  "lock_props np" "lockable np"
  for np addr ed
proof (unfold_locales, goal_cases)
  case (1 b)
  then show ?case by (intro LockForIpc_ok)
next
  case (3 b x p l r)
  then show ?case by (intro lockable_split)
qed simp_all

interpretation unlock_ipc: update_action
  "\<lambda>b. True" "\<lambda>b. UnlockForIpc np (m_address b = addr) (GetEndAddress b = ed) b"
  unlock_props "unlockable addr"
  for np addr ed
proof (unfold_locales, goal_cases)
  case (1 b)
  then show ?case by (intro UnlockForIpc_ok)
next
  case (3 b x p l r)
  then show ?case by (intro unlockable_split)
qed simp_all

section \<open>CheckState\<close>

definition props_counts_ok :: "MemProps \<Rightarrow> bool" where
  "props_counts_ok q \<longleftrightarrow>
     (p_attribute q AND KMemoryAttribute_IpcLocked = 0 \<or> p_ipc_lock_count q \<noteq> 0) \<and>
     (p_attribute q AND KMemoryAttribute_DeviceShared = 0 \<or> p_device_use_count q \<noteq> 0)"

lemma counts_ok_props: "counts_ok b = props_counts_ok (props_of b)"
  by (auto simp: counts_ok_def props_counts_ok_def props_of_def KMemoryAttribute_None_def)

lemma page_at_member: "chain s t e \<Longrightarrow> b \<in> set t \<Longrightarrow> page_at t (bstart b) = Some (props_of b)"
proof (induction t arbitrary: s)
  case (Cons c t)
  then show ?case
    using chain_member [of "bend c" t e b] block_wf_less [of c] by auto
qed simp

lemma check_state_loop_ok:
  "chain s (b # t) e \<Longrightarrow> coalesced (b # t) \<Longrightarrow> \<forall>c\<in>set (b # t). counts_ok c \<Longrightarrow> check_state_loop b t"
proof (induction t arbitrary: s b)
  case (Cons c t)
  have "GetEndAddress b = m_address c"
    using Cons.prems(1) unat_GetEndAddress [of b] by (simp add: word_eq_unat_iff bstart_def)
  then show ?case
    using Cons by auto
qed simp

lemma CheckState_ok:
  assumes "manager_ok m" "\<forall>b\<in>set (m_memory_block_tree m). counts_ok b"
  shows "CheckState m = Some True"
  using assms check_state_loop_ok by (cases "m_memory_block_tree m") (auto simp: CheckState_def manager_ok_def)

lemma updated_counts:
  assumes "updated eff a n m al m' al'" "manager_ok m" "\<forall>b\<in>set (m_memory_block_tree m). counts_ok b"
    "\<And>q. props_counts_ok q \<Longrightarrow> props_counts_ok (eff q)"
  shows "\<forall>b\<in>set (m_memory_block_tree m'). counts_ok b"
proof
  fix b assume b: "b \<in> set (m_memory_block_tree m')"
  let ?s = "unat (m_start_address m)" and ?e = "unat (m_end_address m)"
  have ch': "chain ?s (m_memory_block_tree m') ?e" and ch: "chain ?s (m_memory_block_tree m) ?e"
    using assms(1,2) by (auto simp: updated_def manager_ok_def)
  have "?s \<le> bstart b" "bstart b < ?e"
    using chain_member [OF ch' b] block_wf_less [of b] by auto
  then obtain c where c: "c \<in> set (m_memory_block_tree m)"
    "page_at (m_memory_block_tree m) (bstart b) = Some (props_of c)"
    using page_at_inside [OF ch] by blast
  then have "props_of b = props_of c \<or> props_of b = eff (props_of c)"
    using page_at_member [OF ch' b] assms(1) by (auto simp: updated_def page_update_def split: if_splits)
  then show "counts_ok b"
    using c(1) assms(3,4) counts_ok_props by auto
qed

lemma set_properties_counts:
  assumes "a AND AttributeIgnoreMask = 0" "props_counts_ok q"
  shows "props_counts_ok (set_properties s p a q)"
proof -
  have "a AND KMemoryAttribute_IpcLocked = 0" "a AND KMemoryAttribute_DeviceShared = 0"
    using and_or_eq_zeroD assms(1) by (auto simp: AttributeIgnoreMask_def)
  then show ?thesis
    using assms(2) by (simp add: props_counts_ok_def set_properties_def AttributeIgnoreMask_def and_or_mask)
qed

section \<open>FindFreeArea\<close>

text \<open>The least address above \<open>a1\<close> that is congruent to \<open>off\<close> modulo \<open>al\<close>.\<close>

definition least_congruent :: "nat \<Rightarrow> nat \<Rightarrow> nat \<Rightarrow> nat" where
  "least_congruent a1 al off =
     (let o1 = a1 - a1 mod al + off in if a1 \<le> o1 then o1 else o1 + al)"

lemma least_congruent:
  assumes "off < al"
  shows "a1 \<le> least_congruent a1 al off" "least_congruent a1 al off mod al = off"
    "a1 \<le> x \<Longrightarrow> x mod al = off \<Longrightarrow> least_congruent a1 al off \<le> x"
proof -
  obtain q r where a1: "a1 = q * al + r" "r < al"
    using assms by (metis div_mult_mod_eq mod_less_divisor not_less_zero neq0_conv)
  then have m: "a1 mod al = r" by simp
  have lc: "least_congruent a1 al off = (if r \<le> off then q * al + off else q * al + off + al)"
    using a1 m by (auto simp: least_congruent_def Let_def)
  show "a1 \<le> least_congruent a1 al off"
    using a1 lc by auto
  show "least_congruent a1 al off mod al = off"
    using lc assms by (auto simp: mod_add_eq)
  show "least_congruent a1 al off \<le> x" if x: "a1 \<le> x" "x mod al = off"
  proof -
    define p where "p = x div al"
    have xp: "x = p * al + off"
      using x(2) by (metis p_def div_mult_mod_eq)
    have "q * al \<le> p * al + off"
      using x(1) a1 xp by linarith
    then have "q * al < Suc p * al"
      using assms by simp
    then have qp: "q \<le> p"
      by (meson less_Suc_eq_le mult_less_cancel2)
    show ?thesis
    proof (cases "r \<le> off")
      case True
      then show ?thesis using lc xp qp by simp
    next
      case False
      then have "q \<noteq> p"
        using x(1) a1(1) xp by auto
      then have "Suc q * al \<le> p * al"
        using qp by (intro mult_le_mono1) simp
      then show ?thesis using lc xp False by simp
    qed
  qed
qed

text \<open>
  The specification of the search: \<open>x\<close> is a fit when the pages \<open>[x, x + num_pages)\<close>, with
  \<open>guard\<close> bytes on either side, lie in one free block and in the region, and
  \<open>x\<close> is congruent to the offset modulo the alignment.
\<close>

definition fits_in ::
    "nat \<Rightarrow> nat \<Rightarrow> nat \<Rightarrow> nat \<Rightarrow> nat \<Rightarrow> nat \<Rightarrow> KMemoryBlock \<Rightarrow> nat \<Rightarrow> bool" where
  "fits_in rs re len al off guard b x \<longleftrightarrow>
     m_memory_state b = KMemoryState_Free \<and> max (bstart b) rs + guard \<le> x \<and>
     x + len + guard \<le> bend b \<and> x + len + guard \<le> re \<and> x mod al = off"

definition least_fit :: "(nat \<Rightarrow> bool) \<Rightarrow> nat" where
  "least_fit P = (if \<exists>x. P x then (LEAST x. P x) else 0)"

lemma least_fit_cong: "(\<And>x. P x = Q x) \<Longrightarrow> least_fit P = least_fit Q"
  by presburger

lemma wrapped_last:
  fixes x y z :: u64
  assumes "2 ^ 64 \<le> unat x + unat y" "unat z < 2 ^ 64 - 1"
  shows "\<not> x < x + y - 1 \<or> \<not> x + y - 1 \<le> z"
proof (cases "x + y = 0")
  case True
  then have "unat (x + y - 1) = 2 ^ 64 - 1"
    by (simp add: unsigned_minus_1_eq_mask mask_eq_exp_minus_1)
  then show ?thesis
    using assms(2) by (simp add: word_le_nat_alt)
next
  case False
  have "\<not> x \<le> x + y"
    using assms(1) by (simp add: no_olen_add_nat)
  moreover have "x + y - 1 \<le> x + y"
    using False by (simp add: word_le_nat_alt unat_minus_one)
  ultimately show ?thesis
    by force
qed

lemma free_area_in_eq:
  fixes rs :: u64 and rl num al off guard :: u64
  assumes wf: "block_wf b" and re: "re = unat rl + 1" and ol: "unat off < unat al" and n: "0 < unat num"
    and ov: "max (bstart b) (unat rs) + unat guard * 4096 + unat al + unat off < 2 ^ 64"
    and len: "unat num * 4096 + unat guard * 4096 < 2 ^ 64"
  defines "c \<equiv> least_congruent (max (bstart b) (unat rs) + unat guard * 4096) (unat al) (unat off)"
  shows "free_area_in rs rl num al off guard b =
    (if c + unat num * 4096 + unat guard * 4096 \<le> min (bend b) re then Some (of_nat c) else None)"
proof -
  define g where "g = unat guard * 4096"
  define a1 where "a1 = max (bstart b) (unat rs) + g"
  define area0 where "area0 = (if m_address b \<le> rs then rs else m_address b)"
  define area1 where "area1 = area0 + guard * PageSize"
  define oa where "oa = AlignDown area1 al + off"
  define area where "area = (if area1 \<le> oa then oa else oa + al)"
  have gp: "unat (guard * PageSize) = g"
    using len by (simp add: g_def unat_mult_no_wrap)
  have np: "unat (num * PageSize) = unat num * 4096"
    using len by (simp add: unat_mult_no_wrap)
  have "unat area0 = max (bstart b) (unat rs)"
    by (auto simp: area0_def bstart_def word_le_nat_alt)
  then have u1: "unat area1 = a1"
    using ov gp by (simp add: area1_def a1_def g_def unat_plus_no_wrap del: PageSize_eq)
  have u2: "unat oa = a1 - a1 mod unat al + unat off"
    using ov u1 by (simp add: oa_def unat_plus_no_wrap unat_AlignDown a1_def g_def)
  then have ua: "unat area = c"
    using ov u1 by (simp add: area_def least_congruent_def Let_def c_def word_le_nat_alt
        unat_plus_no_wrap a1_def g_def)
  have cge: "bstart b \<le> c"
    using least_congruent(1) [OF ol, of "max (bstart b) (unat rs) + unat guard * 4096"] by (simp add: c_def)
  have bl: "unat (GetLastAddress b) = bend b - 1" "bend b < 2 ^ 64"
    using wf by (auto simp: unat_GetLastAddress block_wf_def)
  have "m_address b \<le> area \<and> area < area + num * PageSize + guard * PageSize - 1 \<and>
      area + num * PageSize + guard * PageSize - 1 \<le> rl \<and>
      area + num * PageSize + guard * PageSize - 1 \<le> GetLastAddress b \<longleftrightarrow>
      c + unat num * 4096 + g \<le> min (bend b) re" (is "?L = ?R")
  proof (cases "c + unat num * 4096 + g < 2 ^ 64")
    case True
    have ue: "unat (area + num * PageSize + guard * PageSize) = c + unat num * 4096 + g"
      using True ua np gp by (simp add: unat_plus_no_wrap del: PageSize_eq)
    then have "unat (area + num * PageSize + guard * PageSize - 1) = c + unat num * 4096 + g - 1"
      using n by (subst unat_minus_no_wrap) auto
    then show ?thesis
      using ua cge bl re n by (auto simp: word_le_nat_alt word_less_nat_alt bstart_def simp del: PageSize_eq)
  next
    case False
    define w where "w = area + (num * PageSize + guard * PageSize)"
    have sz: "unat (num * PageSize + guard * PageSize) = unat num * 4096 + g"
      using np gp len by (simp add: unat_plus_no_wrap g_def del: PageSize_eq)
    have "\<not> area < w - 1 \<or> \<not> w - 1 \<le> GetLastAddress b"
      using wrapped_last [of area "num * PageSize + guard * PageSize" "GetLastAddress b"] False ua sz bl
        block_wf_less [OF wf] by (simp add: w_def add.assoc del: PageSize_eq)
    moreover have "\<not> ?R"
      using False bl by simp
    ultimately show ?thesis
      by (auto simp: w_def add.assoc simp del: PageSize_eq)
  qed
  moreover have "area = of_nat c"
    by (simp flip: ua)
  moreover have "free_area_in rs rl num al off guard b = (if ?L then Some area else None)"
    by (simp only: free_area_in_def Let_def area0_def area1_def oa_def area_def)
  ultimately show ?thesis
    by (simp only: g_def)
qed

lemma find_free_area_loop_eq:
  fixes rs rl num al off guard :: u64
  assumes ol: "unat off < unat al" and n: "0 < unat num"
    and ov: "max E (unat rs) + unat guard * 4096 + unat al + unat off < 2 ^ 64"
    and len: "unat num * 4096 + unat guard * 4096 < 2 ^ 64"
    and ch: "chain s t E"
  shows "find_free_area_loop rs rl num al off guard t =
    of_nat (least_fit (\<lambda>x. \<exists>b\<in>set t. fits_in (unat rs) (unat rl + 1) (unat num * 4096) (unat al)
      (unat off) (unat guard * 4096) b x))"
  using ch
proof (induction t arbitrary: s)
  case Nil
  then show ?case by (simp add: least_fit_def)
next
  case (Cons b t)
  let ?F = "fits_in (unat rs) (unat rl + 1) (unat num * 4096) (unat al) (unat off) (unat guard * 4096)"
  let ?c = "least_congruent (max (bstart b) (unat rs) + unat guard * 4096) (unat al) (unat off)"
  have wf: "block_wf b" and ct: "chain (bend b) t E"
    using Cons.prems by auto
  have later: "bend b \<le> bstart c" if "c \<in> set t" for c
    using chain_member [OF ct that] by simp
  have IH: "find_free_area_loop rs rl num al off guard t = of_nat (least_fit (\<lambda>x. \<exists>b\<in>set t. ?F b x))"
    using Cons.IH [OF ct] .
  have "bstart b \<le> E"
    using chain_le [OF ct] block_wf_less [OF wf] by simp
  then have fa: "free_area_in rs rl num al off guard b =
      (if ?c + unat num * 4096 + unat guard * 4096 \<le> min (bend b) (unat rl + 1) then Some (of_nat ?c) else None)"
    using ov by (intro free_area_in_eq [OF wf refl ol n _ len]) auto
  consider (beyond) "unat rl < bstart b" | (other) "\<not> unat rl < bstart b" "m_memory_state b \<noteq> KMemoryState_Free"
    | (free) "\<not> unat rl < bstart b" "m_memory_state b = KMemoryState_Free" by blast
  then show ?case
  proof cases
    case beyond
    then have "\<not> ?F c x" if "c \<in> set (b # t)" for c x
      using that n later [of c] block_wf_less [OF wf] by (auto simp: fits_in_def)
    then have "least_fit (\<lambda>x. \<exists>c\<in>set (b # t). ?F c x) = 0"
      by (simp add: least_fit_def)
    then show ?thesis
      using beyond by (simp add: bstart_def word_less_nat_alt)
  next
    case other
    then have "least_fit (\<lambda>x. \<exists>c\<in>set (b # t). ?F c x) = least_fit (\<lambda>x. \<exists>c\<in>set t. ?F c x)"
      by (intro least_fit_cong) (auto simp: fits_in_def)
    then show ?thesis
      using other IH by (simp add: bstart_def word_less_nat_alt)
  next
    case free
    show ?thesis
    proof (cases "?c + unat num * 4096 + unat guard * 4096 \<le> min (bend b) (unat rl + 1)")
      case True
      have Fc: "?F b ?c"
        using True free least_congruent(1,2) [OF ol] by (simp add: fits_in_def)
      have "(LEAST x. \<exists>c\<in>set (b # t). ?F c x) = ?c"
      proof (rule Least_equality)
        show "\<exists>c\<in>set (b # t). ?F c ?c"
          using Fc by auto
        fix y assume "\<exists>c\<in>set (b # t). ?F c y"
        then obtain c where c: "c \<in> set (b # t)" "?F c y" by blast
        show "?c \<le> y"
        proof (cases "c = b")
          case True
          then show ?thesis
            using c(2) least_congruent(3) [OF ol] by (simp add: fits_in_def)
        next
          case False
          then have "bend b \<le> y"
            using c later [of c] by (auto simp: fits_in_def)
          then show ?thesis
            using Fc by (simp add: fits_in_def)
        qed
      qed
      then have "least_fit (\<lambda>x. \<exists>c\<in>set (b # t). ?F c x) = ?c"
        using Fc unfolding least_fit_def by auto
      then show ?thesis
        using free fa True by (simp add: bstart_def word_less_nat_alt)
    next
      case False
      then have "\<not> ?F b x" for x
        using least_congruent(3) [OF ol, of "max (bstart b) (unat rs) + unat guard * 4096" x]
        by (auto simp: fits_in_def)
      then have "least_fit (\<lambda>x. \<exists>c\<in>set (b # t). ?F c x) = least_fit (\<lambda>x. \<exists>c\<in>set t. ?F c x)"
        by (intro least_fit_cong) auto
      moreover have "free_area_in rs rl num al off guard b = None"
        using fa False by simp
      ultimately show ?thesis
        using free IH by (simp add: bstart_def word_less_nat_alt)
    qed
  qed
qed

section \<open>Properties\<close>

definition sample_manager :: KMemoryBlockManager where
  "sample_manager =
     \<lparr>m_memory_block_tree =
        [KMemoryBlock_ctor 0x100 0x1000 8 KMemoryState_Free KMemoryPermission_None KMemoryAttribute_None],
      m_start_address = 0x1000, m_end_address = 0x9000\<rparr>"

definition sample_slab :: KDynamicResourceManager where
  "sample_slab =
     \<lparr>drm_page_allocator = None,
      drm_slab_heap = \<lparr>dsh_head = [], dsh_used = 0, dsh_peak = 0, dsh_count = 0, dsh_address = 0, dsh_size = 0\<rparr>\<rparr>"

definition sample_allocator :: UpdateAllocator where
  "sample_allocator = \<lparr>ua_blocks = [Some 0x200, Some 0x300], ua_index = 0, ua_slab = sample_slab\<rparr>"

lemmas sample_defs = sample_manager_def sample_allocator_def manager_ok_def block_wf_def bstart_def
  bend_def bpages_def KMemoryBlock_ctor_def ua_ok_def MaxBlocks_def available_def blocks_needed_def

lemma sample_manager_ok: "manager_ok sample_manager" "ua_ok sample_allocator"
proof -
  show "manager_ok sample_manager"
    by (simp add: sample_defs)
  show "ua_ok sample_allocator"
    by (auto simp: sample_defs dest!: less_2_cases)
qed

lemma sample_needed: "blocks_needed (m_memory_block_tree sample_manager) a e \<le> available sample_allocator"
  by (simp add: sample_defs)



text \<open>
  C2. UpdateIfMatch changes exactly those pages of the range that have the tested properties,
  and has the same guarantees as \<open>Update\<close> otherwise.
\<close>

theorem UpdateIfMatch_correct:
  assumes "can_update (\<lambda>b. HasProperties b test_state test_perm test_attr \<and>
      \<not> HasProperties b state perm attr) updatable address num_pages m al"
    and "attr AND (KMemoryAttribute_IpcLocked OR KMemoryAttribute_DeviceShared) = KMemoryAttribute_None"
  shows "\<exists>m' al'.
    KMemoryBlockManager_UpdateIfMatch address num_pages test_state test_perm test_attr state perm attr
      set_disable_attr clear_disable_attr m al = Some (m', al') \<and>
    updated (\<lambda>q. if has_properties q test_state test_perm test_attr
                 then set_properties state perm attr q else q) address num_pages m al m' al'"
proof -
  have "(\<lambda>q. if has_properties q test_state test_perm test_attr \<and> \<not> has_properties q state perm attr
        then set_properties state perm attr q else q) =
      (\<lambda>q. if has_properties q test_state test_perm test_attr then set_properties state perm attr q else q)"
    using assms(2) set_properties_same [of _ state perm attr]
    by (auto simp: AttributeIgnoreMask_def KMemoryAttribute_None_def)
  moreover have "IsAligned address PageSize"
    using assms(1) by (simp add: can_update_def Let_def IsAligned_PageSize_iff [simplified])
  ultimately show ?thesis
    using update_if_match.update_with_ok [OF assms(1), of set_disable_attr clear_disable_attr] assms(2)
    by (simp add: KMemoryBlockManager_UpdateIfMatch_def)
qed

theorem UpdateIfMatch_correct_witness:
  "\<exists>m' al'.
    KMemoryBlockManager_UpdateIfMatch 0x1000 2 KMemoryState_Free KMemoryPermission_None
      KMemoryAttribute_None KMemoryState_Normal KMemoryPermission_UserReadWrite
      KMemoryAttribute_None 0 0 sample_manager sample_allocator = Some (m', al') \<and>
    updated (\<lambda>q. if has_properties q KMemoryState_Free KMemoryPermission_None KMemoryAttribute_None
                 then set_properties KMemoryState_Normal KMemoryPermission_UserReadWrite
                   KMemoryAttribute_None q else q)
      0x1000 2 sample_manager sample_allocator m' al'"
proof (rule UpdateIfMatch_correct)
  show "can_update (\<lambda>b. HasProperties b KMemoryState_Free KMemoryPermission_None KMemoryAttribute_None \<and>
      \<not> HasProperties b KMemoryState_Normal KMemoryPermission_UserReadWrite
      KMemoryAttribute_None) updatable 0x1000 2 sample_manager sample_allocator"
    using sample_manager_ok sample_needed
    by (simp add: can_update_def updatable_def sample_manager_def bstart_def bend_def bpages_def
        HasProperties_def KMemoryBlock_ctor_def flag_simps)
qed (simp add: flag_simps)

text \<open>
  C5. UpdateAttribute replaces the attribute bits of the mask on exactly the pages of the range,
  with the same guarantees.
\<close>

theorem UpdateAttribute_correct:
  assumes "can_update (\<lambda>b. m_attribute b AND msk \<noteq> attr)
      (\<lambda>b. msk AND KMemoryAttribute_IpcLocked = 0 \<and> msk AND KMemoryAttribute_DeviceShared = 0)
      address num_pages m al"
  shows "\<exists>m' al'. KMemoryBlockManager_UpdateAttribute address num_pages msk attr m al = Some (m', al') \<and>
    updated (set_attribute msk attr) address num_pages m al m' al'"
proof -
  have "(\<lambda>q. if p_attribute q AND msk = attr then q else set_attribute msk attr q) = set_attribute msk attr"
    by (intro ext) (auto simp: set_attribute_same)
  moreover have "IsAligned address PageSize"
    using assms(1) by (simp add: can_update_def Let_def IsAligned_PageSize_iff [simplified])
  ultimately show ?thesis
    using update_attribute.update_with_ok [OF assms]
    by (simp add: KMemoryBlockManager_UpdateAttribute_def)
qed

theorem UpdateAttribute_correct_witness:
  "\<exists>m' al'. KMemoryBlockManager_UpdateAttribute 0x3000 2 KMemoryAttribute_Uncached KMemoryAttribute_Uncached
      sample_manager sample_allocator = Some (m', al') \<and>
    updated (set_attribute KMemoryAttribute_Uncached KMemoryAttribute_Uncached)
      0x3000 2 sample_manager sample_allocator m' al'"
proof (rule UpdateAttribute_correct)
  show "can_update (\<lambda>b. m_attribute b AND KMemoryAttribute_Uncached \<noteq> KMemoryAttribute_Uncached)
      (\<lambda>b. KMemoryAttribute_Uncached AND KMemoryAttribute_IpcLocked = 0 \<and>
           KMemoryAttribute_Uncached AND KMemoryAttribute_DeviceShared = 0)
      0x3000 2 sample_manager sample_allocator"
    using sample_manager_ok sample_needed
    by (simp add: can_update_def sample_manager_def bstart_def bend_def bpages_def
        KMemoryBlock_ctor_def flag_simps)
qed

text \<open>
  C3. UpdateLock with \<open>LockForIpc\<close> locks exactly the pages of the range: the lock count
  grows by one, and the first lock saves the permission and restricts it.
\<close>

theorem UpdateLock_LockForIpc_correct:
  assumes "can_update (\<lambda>b. True) (lockable perm) address num_pages m al"
  shows "\<exists>m' al'. KMemoryBlockManager_UpdateLock address num_pages LockForIpc perm m al = Some (m', al') \<and>
    updated (lock_props perm) address num_pages m al m' al'"
proof -
  have "IsAligned address PageSize"
    using assms(1) by (simp add: can_update_def Let_def IsAligned_PageSize_iff [simplified])
  then show ?thesis
    using lock_ipc.update_with_ok [OF assms, of address "address + num_pages * PageSize"]
    by (simp add: KMemoryBlockManager_UpdateLock_def)
qed

theorem UpdateLock_LockForIpc_correct_witness:
  "\<exists>m' al'. KMemoryBlockManager_UpdateLock 0x3000 2 LockForIpc 0 sample_manager sample_allocator =
      Some (m', al') \<and>
    updated (lock_props 0) 0x3000 2 sample_manager sample_allocator m' al'"
proof (rule UpdateLock_LockForIpc_correct)
  show "can_update (\<lambda>b. True) (lockable 0) 0x3000 2 sample_manager sample_allocator"
    using sample_manager_ok sample_needed
    by (simp add: can_update_def sample_manager_def bstart_def bend_def bpages_def lockable_def
        KMemoryBlock_ctor_def flag_simps)
qed

text \<open>
  C4. UpdateLock with \<open>UnlockForIpc\<close> undoes one lock on exactly the pages of the range: the
  count drops by one, and the last unlock restores the saved permission and clears the flag.
\<close>

theorem UpdateLock_UnlockForIpc_correct:
  assumes "can_update (\<lambda>b. True) (unlockable address) address num_pages m al"
  shows "\<exists>m' al'. KMemoryBlockManager_UpdateLock address num_pages UnlockForIpc perm m al = Some (m', al') \<and>
    updated unlock_props address num_pages m al m' al'"
proof -
  have "IsAligned address PageSize"
    using assms(1) by (simp add: can_update_def Let_def IsAligned_PageSize_iff [simplified])
  then show ?thesis
    using unlock_ipc.update_with_ok [OF assms, of perm "address + num_pages * PageSize"]
    by (simp add: KMemoryBlockManager_UpdateLock_def)
qed

definition sample_locked_manager :: KMemoryBlockManager where
  "sample_locked_manager =
     \<lparr>m_memory_block_tree =
        [(KMemoryBlock_ctor 0x100 0x1000 8 KMemoryState_Normal KMemoryPermission_UserRead
           KMemoryAttribute_IpcLocked)
         \<lparr>m_ipc_lock_count := 1, m_ipc_disable_merge_count := 1,
          m_original_permission := KMemoryPermission_UserReadWrite\<rparr>],
      m_start_address = 0x1000, m_end_address = 0x9000\<rparr>"

theorem UpdateLock_UnlockForIpc_correct_witness:
  "\<exists>m' al'. KMemoryBlockManager_UpdateLock 0x1000 3 UnlockForIpc 0 sample_locked_manager sample_allocator =
      Some (m', al') \<and>
    updated unlock_props 0x1000 3 sample_locked_manager sample_allocator m' al'"
proof (rule UpdateLock_UnlockForIpc_correct)
  have "blocks_needed (m_memory_block_tree sample_locked_manager) a e \<le> available sample_allocator" for a e
    by (simp add: blocks_needed_def available_def sample_allocator_def MaxBlocks_def)
  then show "can_update (\<lambda>b. True) (unlockable 0x1000) 0x1000 3 sample_locked_manager sample_allocator"
    using sample_manager_ok(2)
    by (simp add: can_update_def sample_locked_manager_def manager_ok_def block_wf_def bstart_def bend_def
        bpages_def unlockable_def KMemoryBlock_ctor_def flag_simps)
qed

text \<open>
  C6. FindFreeArea returns the lowest address at which the requested pages, with their guard
  pages on both sides, fit into one free block and into the region at the requested alignment and
  offset, and zero when there is none. The hypotheses rule out wrap-around.
\<close>

theorem FindFreeArea_correct:
  assumes "manager_ok m" "unat (m_start_address m) \<le> unat region_start"
    "unat region_start < unat (m_end_address m)"
    "0 < num_pages" "offset < alignment" "0 < region_num_pages"
    "unat region_start + unat region_num_pages * 4096 < 2 ^ 64"
    "unat (m_end_address m) + unat guard_pages * 4096 + unat alignment + unat offset < 2 ^ 64"
    "unat num_pages * 4096 + unat guard_pages * 4096 < 2 ^ 64"
  shows "FindFreeArea m region_start region_num_pages num_pages alignment offset guard_pages =
    of_nat (least_fit (\<lambda>x. \<exists>b\<in>set (m_memory_block_tree m).
      fits_in (unat region_start) (unat region_start + unat region_num_pages * 4096)
        (unat num_pages * 4096) (unat alignment) (unat offset) (unat guard_pages * 4096) b x))"
proof -
  let ?E = "unat (m_end_address m)" and ?t = "m_memory_block_tree m"
  let ?rl = "region_start + region_num_pages * PageSize - 1"
  have ch: "chain (unat (m_start_address m)) ?t ?E"
    using assms(1) by (simp add: manager_ok_def)
  obtain pre b post where t: "?t = pre @ b # post" "bstart b \<le> unat region_start" "unat region_start < bend b"
    using chain_locate [OF ch assms(2,3)] .
  have it: "FindIterator m region_start = length pre"
    using FindIterator_eq [OF t(1) ch t(2,3)] .
  have chs: "chain (unat (m_start_address m)) pre (bstart b)" "chain (bstart b) (b # post) ?E"
    using ch t(1) by (auto simp: chain_append)
  have np: "0 < unat num_pages" "unat offset < unat alignment" "0 < unat region_num_pages"
    using assms(4-6) by (simp_all add: word_less_nat_alt)
  have "unat (region_start + region_num_pages * PageSize) = unat region_start + unat region_num_pages * 4096"
    using assms(7) by (simp add: unat_plus_no_wrap unat_mult_no_wrap)
  then have rl: "unat ?rl + 1 = unat region_start + unat region_num_pages * 4096"
    using np(3) by (subst unat_minus_no_wrap) auto
  have "find_free_area_loop region_start ?rl num_pages alignment offset guard_pages (b # post) =
    of_nat (least_fit (\<lambda>x. \<exists>b\<in>set (b # post).
      fits_in (unat region_start) (unat ?rl + 1) (unat num_pages * 4096) (unat alignment) (unat offset)
        (unat guard_pages * 4096) b x))"
    by (rule find_free_area_loop_eq [OF np(2,1) _ assms(9) chs(2)]) (use assms(3,8) in auto)
  moreover have "\<not> fits_in (unat region_start) re len al off g c x" if "c \<in> set pre" "0 < len"
    for c re len al off g x
    using chain_member [OF chs(1) that(1)] t(2) that(2) by (auto simp: fits_in_def)
  then have "least_fit (\<lambda>x. \<exists>b\<in>set (b # post). fits_in (unat region_start) (unat ?rl + 1)
        (unat num_pages * 4096) (unat alignment) (unat offset) (unat guard_pages * 4096) b x) =
      least_fit (\<lambda>x. \<exists>b\<in>set ?t. fits_in (unat region_start) (unat ?rl + 1)
        (unat num_pages * 4096) (unat alignment) (unat offset) (unat guard_pages * 4096) b x)"
    using np(1) t(1) by (intro least_fit_cong) auto
  ultimately show ?thesis
    using t(1) it assms(4) by (simp add: FindFreeArea_def Let_def flip: rl)
qed

theorem FindFreeArea_correct_witness:
  "FindFreeArea sample_manager 0x1000 8 2 0x4000 0x1000 1 =
    of_nat (least_fit (\<lambda>x. \<exists>b\<in>set (m_memory_block_tree sample_manager).
      fits_in 0x1000 (0x1000 + 8 * 4096) (2 * 4096) 0x4000 0x1000 (1 * 4096) b x))"
proof -
  have "FindFreeArea sample_manager 0x1000 8 2 0x4000 0x1000 1 =
    of_nat (least_fit (\<lambda>x. \<exists>b\<in>set (m_memory_block_tree sample_manager).
      fits_in (unat (0x1000 :: u64)) (unat (0x1000 :: u64) + unat (8 :: u64) * 4096)
        (unat (2 :: u64) * 4096) (unat (0x4000 :: u64)) (unat (0x1000 :: u64)) (unat (1 :: u64) * 4096) b x))"
    by (rule FindFreeArea_correct) (use sample_manager_ok(1) in \<open>simp_all add: sample_manager_def\<close>)
  then show ?thesis
    by simp
qed

text \<open>
  C7. The audit \<open>CheckState\<close> succeeds after every admissible \<open>Update\<close>, when the lock and device
  counts of the tree agreed with its flags before.
\<close>

theorem Update_CheckState:
  assumes "can_update (\<lambda>b. \<not> HasProperties b state perm attr) updatable address num_pages m al"
    and "attr AND (KMemoryAttribute_IpcLocked OR KMemoryAttribute_DeviceShared) = KMemoryAttribute_None"
    and "\<forall>b\<in>set (m_memory_block_tree m). counts_ok b"
  shows "\<exists>m' al'.
    KMemoryBlockManager_Update address num_pages state perm attr set_disable_attr clear_disable_attr m al =
      Some (m', al') \<and> CheckState m' = Some True"
proof -
  let ?eff = "\<lambda>q. if has_properties q state perm attr then q else set_properties state perm attr q"
  have "IsAligned address PageSize" and mo: "manager_ok m"
    using assms(1) by (simp_all add: can_update_def Let_def IsAligned_PageSize_iff [simplified])
  then obtain m' al' where u: "KMemoryBlockManager_Update address num_pages state perm attr
      set_disable_attr clear_disable_attr m al = Some (m', al')" "updated ?eff address num_pages m al m' al'"
    using update.update_with_ok [OF assms(1), of address set_disable_attr clear_disable_attr] assms(2)
    by (auto simp: KMemoryBlockManager_Update_def)
  have "\<forall>b\<in>set (m_memory_block_tree m'). counts_ok b"
    using assms(2) set_properties_counts
    by (intro updated_counts [OF u(2) mo assms(3)]) (simp add: AttributeIgnoreMask_def KMemoryAttribute_None_def)
  then have "CheckState m' = Some True"
    using u(2) by (intro CheckState_ok) (simp_all add: updated_def)
  then show ?thesis
    using u(1) by blast
qed

theorem Update_CheckState_witness:
  "\<exists>m' al'.
    KMemoryBlockManager_Update 0x1000 8 KMemoryState_Normal KMemoryPermission_UserReadWrite
      KMemoryAttribute_None 0 0 sample_manager sample_allocator = Some (m', al') \<and>
    CheckState m' = Some True"
proof (rule Update_CheckState)
  show "can_update (\<lambda>b. \<not> HasProperties b KMemoryState_Normal KMemoryPermission_UserReadWrite
      KMemoryAttribute_None) updatable 0x1000 8 sample_manager sample_allocator"
    using sample_manager_ok sample_needed
    by (simp add: can_update_def updatable_def sample_manager_def bstart_def bend_def bpages_def
        HasProperties_def KMemoryBlock_ctor_def flag_simps)
qed (simp_all add: flag_simps sample_manager_def counts_ok_def KMemoryBlock_ctor_def)


text \<open>
  CheckState never looks at the counts of the first block of a tree with several blocks:
  the loop checks the second and later blocks and the final test checks the last one again.
\<close>

theorem CheckState_misses_first:
  "CheckState
     (sample_manager\<lparr>m_memory_block_tree :=
       [KMemoryBlock_ctor 0x100 0x1000 4 KMemoryState_Normal KMemoryPermission_None KMemoryAttribute_IpcLocked,
        KMemoryBlock_ctor 0x200 0x5000 4 KMemoryState_Free KMemoryPermission_None KMemoryAttribute_None]\<rparr>) =
     Some True \<and>
   \<not> counts_ok (KMemoryBlock_ctor 0x100 0x1000 4 KMemoryState_Normal KMemoryPermission_None
       KMemoryAttribute_IpcLocked)"
  by (simp add: CheckState_def counts_ok_def KMemoryBlock_ctor_def CanMergeWith_def HasSameProperties_def
      GetEndAddress_def GetSize_def flag_simps)

end
