(* ===== verification/KResourceLimit.thy ===== *)
theory KResourceLimit
  imports Prelude
begin

text \<open>
  \<open>KResourceLimit\<close> (\<^verbatim>\<open>k_resource_limit.h\<close>, \<^verbatim>\<open>k_resource_limit.cpp\<close>). The 64-bit signed counters are
  integers; signed arithmetic that would leave the 64-bit range is a fault (undefined
  behaviour), and \<^verbatim>\<open>WrappingAdd\<close> of \<^verbatim>\<open>overflow.h\<close> wraps. A resource is an index into the arrays.

  \<open>Reserve\<close> can block on the condition variable with the lock released. What happens
  meanwhile is the environment: a list with, for every time the loop consults the timer, the tick it
  reads and the effect of the other threads during the wait. When the list ends, the call is
  still waiting.
\<close>

definition WrappingAdd :: "s64 \<Rightarrow> s64 \<Rightarrow> s64" where
  "WrappingAdd lhs rhs = sint (word_of_int lhs + word_of_int rhs :: 64 word)"

section \<open>State and operations\<close>

datatype LimitableResource =
  PhysicalMemoryMax | ThreadCountMax | EventCountMax | TransferMemoryCountMax | SessionCountMax

definition ResourceCount :: nat where "ResourceCount = 5"

fun resource_index :: "LimitableResource \<Rightarrow> nat" where
  "resource_index PhysicalMemoryMax = 0"
| "resource_index ThreadCountMax = 1"
| "resource_index EventCountMax = 2"
| "resource_index TransferMemoryCountMax = 3"
| "resource_index SessionCountMax = 4"

record KResourceLimit =
  m_limit_values :: "s64 list"
  m_current_values :: "s64 list"
  m_current_hints :: "s64 list"
  m_peak_values :: "s64 list"
  m_waiter_count :: int

definition KResourceLimit_ctor :: KResourceLimit where
  "KResourceLimit_ctor =
     \<lparr>m_limit_values = replicate ResourceCount 0, m_current_values = replicate ResourceCount 0,
      m_current_hints = replicate ResourceCount 0, m_peak_values = replicate ResourceCount 0,
      m_waiter_count = 0\<rparr>"





definition SetLimitValue :: "LimitableResource \<Rightarrow> s64 \<Rightarrow> KResourceLimit \<Rightarrow> Result \<times> KResourceLimit" where
  "SetLimitValue which value r =
     (let i = resource_index which in
      if \<not> m_current_values r ! i \<le> value then (ResultInvalidState, r)
      else (ResultSuccess,
            r\<lparr>m_limit_values := (m_limit_values r)[i := value],
              m_peak_values := (m_peak_values r)[i := m_current_values r ! i]\<rparr>))"

text \<open>The outcome of \<open>Reserve\<close>: its boolean result, or that it still waits.\<close>

datatype ReserveOutcome = Returned bool | Waiting

type_synonym environment = "(s64 \<times> (KResourceLimit \<Rightarrow> KResourceLimit)) list"

text \<open>One round of the loop: refuse, grant, or wait while the deadline allows it.\<close>

datatype ReserveDecision = Refuse | Grant KResourceLimit | WaitForRelease

definition reserve_round :: "nat \<Rightarrow> s64 \<Rightarrow> KResourceLimit \<Rightarrow> ReserveDecision option" where
  "reserve_round i value r =
     do {
       ASSERT (m_current_values r ! i \<le> m_limit_values r ! i);
       ASSERT (m_current_hints r ! i \<le> m_current_values r ! i);
       if WrappingAdd (m_current_values r ! i) value \<le> m_current_values r ! i then Some Refuse
       else
         do {
           sum \<leftarrow> s64_add (m_current_values r ! i) value;
           hint_sum \<leftarrow> s64_add (m_current_hints r ! i) value;
           Some
             (if sum \<le> m_limit_values r ! i then
                Grant (r\<lparr>m_current_values := (m_current_values r)[i := sum],
                         m_current_hints := (m_current_hints r)[i := hint_sum],
                         m_peak_values := (m_peak_values r)[i := max (m_peak_values r ! i) sum]\<rparr>)
              else if hint_sum \<le> m_limit_values r ! i then WaitForRelease
              else Refuse)
         }
     }"

fun reserve_loop ::
    "nat \<Rightarrow> s64 \<Rightarrow> s64 \<Rightarrow> environment \<Rightarrow> KResourceLimit \<Rightarrow> (ReserveOutcome \<times> KResourceLimit) option" where
  "reserve_loop i value timeout [] r =
     (case reserve_round i value r of
        None \<Rightarrow> None
      | Some Refuse \<Rightarrow> Some (Returned False, r)
      | Some (Grant r') \<Rightarrow> Some (Returned True, r')
      | Some WaitForRelease \<Rightarrow> Some (Waiting, r))"
| "reserve_loop i value timeout ((tick, effect) # env) r =
     (case reserve_round i value r of
        None \<Rightarrow> None
      | Some Refuse \<Rightarrow> Some (Returned False, r)
      | Some (Grant r') \<Rightarrow> Some (Returned True, r')
      | Some WaitForRelease \<Rightarrow>
          if timeout < 0 \<or> tick < timeout then
            (let r1 = effect (r\<lparr>m_waiter_count := m_waiter_count r + 1\<rparr>)
             in reserve_loop i value timeout env (r1\<lparr>m_waiter_count := m_waiter_count r1 - 1\<rparr>))
          else Some (Returned False, r))"

definition Reserve_timeout ::
    "LimitableResource \<Rightarrow> s64 \<Rightarrow> s64 \<Rightarrow> environment \<Rightarrow> KResourceLimit \<Rightarrow>
     (ReserveOutcome \<times> KResourceLimit) option" where
  "Reserve_timeout which value timeout env r =
     do {
       ASSERT (value \<ge> 0);
       let i = resource_index which;
       ASSERT (m_current_hints r ! i \<le> m_current_values r ! i);
       if m_current_hints r ! i \<ge> m_limit_values r ! i then Some (Returned False, r)
       else reserve_loop i value timeout env r
     }"

definition DefaultTimeout :: s64 where "DefaultTimeout = 10000000000"

text \<open>\<open>now\<close> is the tick read when the call starts.\<close>

definition Reserve ::
    "LimitableResource \<Rightarrow> s64 \<Rightarrow> s64 \<Rightarrow> environment \<Rightarrow> KResourceLimit \<Rightarrow>
     (ReserveOutcome \<times> KResourceLimit) option" where
  "Reserve which value now env r =
     do {
       timeout \<leftarrow> s64_add now DefaultTimeout;
       Reserve_timeout which value timeout env r
     }"

text \<open>The boolean of the result says whether the waiters are woken.\<close>

definition Release_hint ::
    "LimitableResource \<Rightarrow> s64 \<Rightarrow> s64 \<Rightarrow> KResourceLimit \<Rightarrow> (bool \<times> KResourceLimit) option" where
  "Release_hint which value hint r =
     do {
       ASSERT (value \<ge> 0);
       ASSERT (hint \<ge> 0);
       let i = resource_index which;
       ASSERT (m_current_values r ! i \<le> m_limit_values r ! i);
       ASSERT (m_current_hints r ! i \<le> m_current_values r ! i);
       ASSERT (value \<le> m_current_values r ! i);
       ASSERT (hint \<le> m_current_hints r ! i);
       Some (m_waiter_count r \<noteq> 0,
             r\<lparr>m_current_values := (m_current_values r)[i := m_current_values r ! i - value],
               m_current_hints := (m_current_hints r)[i := m_current_hints r ! i - hint]\<rparr>)
     }"

definition Release :: "LimitableResource \<Rightarrow> s64 \<Rightarrow> KResourceLimit \<Rightarrow> (bool \<times> KResourceLimit) option" where
  "Release which value r = Release_hint which value value r"

definition CreateResourceLimitForProcess :: "s64 \<Rightarrow> KResourceLimit option" where
  "CreateResourceLimitForProcess physical_memory_size =
     do {
       let (res0, r0) = SetLimitValue PhysicalMemoryMax physical_memory_size KResourceLimit_ctor;
       ASSERT (res0 = ResultSuccess);
       let (res1, r1) = SetLimitValue ThreadCountMax 800 r0;
       ASSERT (res1 = ResultSuccess);
       let (res2, r2) = SetLimitValue EventCountMax 900 r1;
       ASSERT (res2 = ResultSuccess);
       let (res3, r3) = SetLimitValue TransferMemoryCountMax 200 r2;
       ASSERT (res3 = ResultSuccess);
       let (res4, r4) = SetLimitValue SessionCountMax 1133 r3;
       ASSERT (res4 = ResultSuccess);
       Some r4
     }"

section \<open>Invariant\<close>

definition limit_ok :: "KResourceLimit \<Rightarrow> bool" where
  "limit_ok r \<longleftrightarrow>
     length (m_limit_values r) = ResourceCount \<and> length (m_current_values r) = ResourceCount \<and>
     length (m_current_hints r) = ResourceCount \<and> length (m_peak_values r) = ResourceCount \<and>
     (\<forall>i < ResourceCount.
        0 \<le> m_current_hints r ! i \<and> m_current_hints r ! i \<le> m_current_values r ! i \<and>
        m_current_values r ! i \<le> m_peak_values r ! i \<and> m_peak_values r ! i \<le> m_limit_values r ! i \<and>
        m_limit_values r ! i < 2 ^ 63)"

lemma limit_okD:
  assumes "limit_ok r" "i < ResourceCount"
  shows "0 \<le> m_current_hints r ! i" "m_current_hints r ! i \<le> m_current_values r ! i"
    "m_current_values r ! i \<le> m_peak_values r ! i" "m_peak_values r ! i \<le> m_limit_values r ! i"
    "m_limit_values r ! i < 2 ^ 63"
    "i < length (m_limit_values r)" "i < length (m_current_values r)"
    "i < length (m_current_hints r)" "i < length (m_peak_values r)"
  using assms by (auto simp: limit_ok_def)

lemma resource_index_less: "resource_index w < ResourceCount"
  by (cases w) (simp_all add: ResourceCount_def)

lemma resource_index_inj: "resource_index v = resource_index w \<longleftrightarrow> v = w"
  by (cases v; cases w) simp_all

lemma limit_ok_waiters [simp]: "limit_ok (r\<lparr>m_waiter_count := n\<rparr>) = limit_ok r"
  by (simp add: limit_ok_def)

lemma limit_ok_ctor: "limit_ok KResourceLimit_ctor"
  by (simp add: limit_ok_def KResourceLimit_ctor_def)

lemma WrappingAdd_le_iff:
  assumes "0 \<le> c" "c < 2 ^ 63" "0 \<le> v" "v < 2 ^ 63"
  shows "WrappingAdd c v \<le> c \<longleftrightarrow> v = 0 \<or> 2 ^ 63 \<le> c + v"
proof -
  have "WrappingAdd c v = signed_take_bit 63 (c + v)"
    unfolding WrappingAdd_def of_int_add [symmetric] by (subst sint_sbintrunc') simp
  also have "\<dots> = (c + v + 2 ^ 63) mod 2 ^ 64 - 2 ^ 63"
    by (simp add: signed_take_bit_eq_take_bit_shift take_bit_eq_mod)
  finally have e: "WrappingAdd c v = (c + v + 2 ^ 63) mod 2 ^ 64 - 2 ^ 63" .
  show ?thesis
  proof (cases "c + v < 2 ^ 63")
    case True
    then have "(c + v + 2 ^ 63) mod 2 ^ 64 = c + v + 2 ^ 63"
      using assms by (intro mod_pos_pos_trivial) auto
    then show ?thesis using e True assms by auto
  next
    case False
    have "(c + v + 2 ^ 63) mod 2 ^ 64 = (c + v + 2 ^ 63 - 2 ^ 64) mod 2 ^ 64"
      by (simp only: minus_mod_self2)
    also have "\<dots> = c + v + 2 ^ 63 - 2 ^ 64"
      using False assms by (intro mod_pos_pos_trivial) auto
    finally show ?thesis using e False assms by auto
  qed
qed

text \<open>The update of one resource keeps the invariant when it keeps the order of its four values.\<close>

lemma limit_ok_update:
  assumes "limit_ok r" "0 \<le> h" "h \<le> c" "c \<le> p" "p \<le> l" "l < 2 ^ 63" "i < ResourceCount"
  shows "limit_ok (r\<lparr>m_limit_values := (m_limit_values r)[i := l],
    m_current_values := (m_current_values r)[i := c], m_current_hints := (m_current_hints r)[i := h],
    m_peak_values := (m_peak_values r)[i := p]\<rparr>)"
  using assms by (simp add: limit_ok_def nth_list_update)

lemma limit_ok_set:
  assumes "limit_ok r" "m_current_values r ! i \<le> v" "v < 2 ^ 63" "i < ResourceCount"
  shows "limit_ok (r\<lparr>m_limit_values := (m_limit_values r)[i := v],
    m_peak_values := (m_peak_values r)[i := m_current_values r ! i]\<rparr>)"
  using limit_ok_update [OF assms(1), of "m_current_hints r ! i" "m_current_values r ! i"
      "m_current_values r ! i" v i] limit_okD [OF assms(1,4)] assms(2,3,4) by simp

lemma limit_ok_reserve:
  assumes "limit_ok r" "0 \<le> v" "m_current_values r ! i + v \<le> m_limit_values r ! i" "i < ResourceCount"
  shows "limit_ok (r\<lparr>m_current_values := (m_current_values r)[i := m_current_values r ! i + v],
    m_current_hints := (m_current_hints r)[i := m_current_hints r ! i + v],
    m_peak_values := (m_peak_values r)[i := max (m_peak_values r ! i) (m_current_values r ! i + v)]\<rparr>)"
  using limit_ok_update [OF assms(1), of "m_current_hints r ! i + v" "m_current_values r ! i + v"
      "max (m_peak_values r ! i) (m_current_values r ! i + v)" "m_limit_values r ! i" i]
    limit_okD [OF assms(1,4)] assms(2,3,4) by simp

lemma limit_ok_release:
  assumes "limit_ok r" "0 \<le> v" "v \<le> m_current_values r ! i" "h \<le> m_current_hints r ! i"
    "m_current_hints r ! i - h \<le> m_current_values r ! i - v" "i < ResourceCount"
  shows "limit_ok (r\<lparr>m_current_values := (m_current_values r)[i := m_current_values r ! i - v],
    m_current_hints := (m_current_hints r)[i := m_current_hints r ! i - h]\<rparr>)"
  using limit_ok_update [OF assms(1), of "m_current_hints r ! i - h" "m_current_values r ! i - v"
      "m_peak_values r ! i" "m_limit_values r ! i" i] limit_okD [OF assms(1,6)] assms(2-6) by simp


lemma reserve_round_eq:
  assumes "limit_ok r" "i < ResourceCount" "0 \<le> v" "v < 2 ^ 63"
  shows "reserve_round i v r = Some
    (if v = 0 \<or> 2 ^ 63 \<le> m_current_values r ! i + v then Refuse
     else if m_current_values r ! i + v \<le> m_limit_values r ! i then
       Grant (r\<lparr>m_current_values := (m_current_values r)[i := m_current_values r ! i + v],
           m_current_hints := (m_current_hints r)[i := m_current_hints r ! i + v],
           m_peak_values := (m_peak_values r)[i := max (m_peak_values r ! i) (m_current_values r ! i + v)]\<rparr>)
     else if m_current_hints r ! i + v \<le> m_limit_values r ! i then WaitForRelease else Refuse)"
proof -
  note b = limit_okD [OF assms(1,2)]
  have "WrappingAdd (m_current_values r ! i) v \<le> m_current_values r ! i \<longleftrightarrow>
      v = 0 \<or> 2 ^ 63 \<le> m_current_values r ! i + v"
    using b assms by (intro WrappingAdd_le_iff) auto
  then show ?thesis
    using b assms by (simp add: reserve_round_def s64_add_def s64_range_def)
qed



section \<open>Reachable states\<close>

text \<open>
  The states a resource limit can reach through its operations, with a ledger of what clients
  hold of each resource: a successful reservation adds to it, and clients release only what
  they hold.
\<close>

inductive reachable :: "KResourceLimit \<Rightarrow> (LimitableResource \<Rightarrow> s64) \<Rightarrow> bool" where
  init: "reachable KResourceLimit_ctor (\<lambda>_. 0)"
| set_limit: "reachable r g \<Longrightarrow> v < 2 ^ 63 \<Longrightarrow> SetLimitValue w v r = (res, r') \<Longrightarrow> reachable r' g"
| reserve: "reachable r g \<Longrightarrow> v < 2 ^ 63 \<Longrightarrow> Reserve_timeout w v t [] r = Some (Returned True, r') \<Longrightarrow>
    reachable r' (g(w := g w + v))"
| refuse: "reachable r g \<Longrightarrow> v < 2 ^ 63 \<Longrightarrow> Reserve_timeout w v t [] r = Some (Returned False, r') \<Longrightarrow>
    reachable r' g"
| release: "reachable r g \<Longrightarrow> 0 \<le> v \<Longrightarrow> v \<le> g w \<Longrightarrow> Release w v r = Some (wake, r') \<Longrightarrow>
    reachable r' (g(w := g w - v))"

definition ledger_ok :: "KResourceLimit \<Rightarrow> (LimitableResource \<Rightarrow> s64) \<Rightarrow> bool" where
  "ledger_ok r g \<longleftrightarrow> limit_ok r \<and>
     (\<forall>w. m_current_values r ! resource_index w = g w \<and> m_current_hints r ! resource_index w = g w)"

text \<open>With no environment a call decides on the spot.\<close>

lemma Reserve_now:
  assumes "limit_ok r" "0 \<le> v" "v < 2 ^ 63" "i = resource_index w"
  shows "Reserve_timeout w v t [] r =
    (if m_limit_values r ! i \<le> m_current_hints r ! i \<or> v = 0 then Some (Returned False, r)
     else if m_current_values r ! i + v \<le> m_limit_values r ! i then
       Some (Returned True,
         r\<lparr>m_current_values := (m_current_values r)[i := m_current_values r ! i + v],
           m_current_hints := (m_current_hints r)[i := m_current_hints r ! i + v],
           m_peak_values := (m_peak_values r)[i := max (m_peak_values r ! i) (m_current_values r ! i + v)]\<rparr>)
     else if 2 ^ 63 \<le> m_current_values r ! i + v \<or> m_limit_values r ! i < m_current_hints r ! i + v
       then Some (Returned False, r)
     else Some (Waiting, r))"
proof -
  have i: "i < ResourceCount"
    using assms(4) resource_index_less by simp
  show ?thesis
    using limit_okD [OF assms(1) i] assms(2) reserve_round_eq [OF assms(1) i assms(2,3)]
      reserve_round_eq [OF assms(1) i, of 0]
    by (auto simp: Reserve_timeout_def Let_def simp flip: assms(4))
qed

lemma reachable_ledger: "reachable r g \<Longrightarrow> ledger_ok r g"
proof (induction rule: reachable.induct)
  case init
  have "KResourceLimit_ctor = KResourceLimit_ctor" ..
  then show ?case
    using limit_ok_ctor resource_index_less by (simp add: ledger_ok_def KResourceLimit_ctor_def)
next
  case (set_limit r g v w res r')
  then show ?case
    using limit_ok_set [of r "resource_index w" v] resource_index_less [of w]
    by (auto simp: SetLimitValue_def ledger_ok_def Let_def split: if_splits)
next
  case (reserve r g v w t r')
  let ?i = "resource_index w"
  have lo: "limit_ok r" and v: "0 \<le> v"
    using reserve by (auto simp: ledger_ok_def Reserve_timeout_def)
  then have le: "m_current_values r ! ?i + v \<le> m_limit_values r ! ?i"
    and r': "r' = r\<lparr>m_current_values := (m_current_values r)[?i := m_current_values r ! ?i + v],
           m_current_hints := (m_current_hints r)[?i := m_current_hints r ! ?i + v],
           m_peak_values := (m_peak_values r)[?i := max (m_peak_values r ! ?i) (m_current_values r ! ?i + v)]\<rparr>"
    using reserve.hyps(2,3) Reserve_now [OF lo v, of ?i w t] by (auto split: if_splits)
  then show ?case
    using limit_ok_reserve [OF lo v le] limit_okD(7,8) [OF lo] resource_index_less reserve.IH
    by (auto simp: ledger_ok_def nth_list_update resource_index_inj)
next
  case (refuse r g v w t r')
  then have "0 \<le> v" by (simp add: Reserve_timeout_def)
  then have "r' = r"
    using refuse Reserve_now [of r v "resource_index w" w t] by (auto simp: ledger_ok_def split: if_splits)
  then show ?case
    using refuse by simp
next
  case (release r g v w wake r')
  let ?i = "resource_index w"
  have lo: "limit_ok r" and eq: "m_current_values r ! ?i = g w" "m_current_hints r ! ?i = g w"
    using release.IH by (auto simp: ledger_ok_def)
  have r': "r' = r\<lparr>m_current_values := (m_current_values r)[?i := m_current_values r ! ?i - v],
               m_current_hints := (m_current_hints r)[?i := m_current_hints r ! ?i - v]\<rparr>"
    using release.hyps(4) by (auto simp: Release_def Release_hint_def Let_def)
  then show ?case
    using limit_ok_release [OF lo release.hyps(2), of ?i v] eq release.hyps(3) release.IH
      limit_okD(7,8) [OF lo] resource_index_less
    by (auto simp: ledger_ok_def nth_list_update resource_index_inj)
qed

section \<open>Properties\<close>


definition sample_limit :: KResourceLimit where
  "sample_limit = snd (SetLimitValue ThreadCountMax 800 KResourceLimit_ctor)"

lemma sample_limit_reachable: "reachable sample_limit (\<lambda>_. 0)"
  unfolding sample_limit_def
  by (rule set_limit [OF init, of 800 ThreadCountMax "fst (SetLimitValue ThreadCountMax 800 KResourceLimit_ctor)"])
    simp_all




text \<open>
  C18. Reserving and then releasing the same amount restores the current values and the hints.
\<close>

theorem Reserve_Release:
  assumes "limit_ok r" "value < 2 ^ 63" "Reserve_timeout which value timeout [] r = Some (Returned True, r')"
  shows "\<exists>wake r''. Release which value r' = Some (wake, r'') \<and>
    m_current_values r'' = m_current_values r \<and> m_current_hints r'' = m_current_hints r \<and>
    m_limit_values r'' = m_limit_values r"
proof -
  let ?i = "resource_index which"
  have v: "0 \<le> value"
    using assms(3) by (simp add: Reserve_timeout_def)
  have r': "r' = r\<lparr>m_current_values := (m_current_values r)[?i := m_current_values r ! ?i + value],
           m_current_hints := (m_current_hints r)[?i := m_current_hints r ! ?i + value],
           m_peak_values := (m_peak_values r)[?i := max (m_peak_values r ! ?i) (m_current_values r ! ?i + value)]\<rparr>"
    and le: "m_current_values r ! ?i + value \<le> m_limit_values r ! ?i"
    using assms(3) Reserve_now [OF assms(1) v assms(2), of ?i which timeout] by (auto split: if_splits)
  then show ?thesis
    using v limit_okD [OF assms(1) resource_index_less [of which]]
    by (simp add: Release_def Release_hint_def Let_def)
qed

theorem Reserve_Release_witness:
  "\<exists>wake r''. Release ThreadCountMax 3 (snd (the (Reserve_timeout ThreadCountMax 3 100 [] sample_limit))) =
      Some (wake, r'') \<and>
    m_current_values r'' = m_current_values sample_limit \<and> m_current_hints r'' = m_current_hints sample_limit \<and>
    m_limit_values r'' = m_limit_values sample_limit"
proof (rule Reserve_Release)
  show "limit_ok sample_limit"
    using reachable_ledger [OF sample_limit_reachable] by (simp add: ledger_ok_def)
  show "Reserve_timeout ThreadCountMax 3 100 [] sample_limit =
      Some (Returned True, snd (the (Reserve_timeout ThreadCountMax 3 100 [] sample_limit)))"
    by code_simp
qed simp

text \<open>
  A reservation of zero is always refused, although nothing would overflow: the overflow
  test is \<open>\<le>\<close>, not \<open><\<close>.
\<close>

theorem Reserve_zero_refused:
  assumes "limit_ok r"
  shows "Reserve_timeout which 0 timeout env r = Some (Returned False, r)"
proof -
  have "reserve_round (resource_index which) 0 r = Some Refuse"
    using reserve_round_eq [OF assms resource_index_less, of 0] by simp
  then have "reserve_loop (resource_index which) 0 timeout env r = Some (Returned False, r)"
    by (cases env) auto
  then show ?thesis
    using limit_okD [OF assms resource_index_less [of which]] by (simp add: Reserve_timeout_def Let_def)
qed

theorem Reserve_zero_refused_witness:
  "Reserve_timeout ThreadCountMax 0 100 [] sample_limit = Some (Returned False, sample_limit)"
  using reachable_ledger [OF sample_limit_reachable]
  by (intro Reserve_zero_refused) (simp add: ledger_ok_def)

end
