(* ===== verification/KHandleTable.thy ===== *)
theory KHandleTable
  imports Prelude
begin

text \<open>
  Reference counting of kernel objects (\<^verbatim>\<open>k_auto_object.h\<close>) and \<open>KHandleTable\<close>
  (\<^verbatim>\<open>k_handle_table.h\<close>, \<^verbatim>\<open>k_handle_table.cpp\<close>). An object is its address; the reference counts, the
  kernel's set of in-use objects and the objects destroyed so far are the record \<open>AutoObjects\<close>.
  The union \<^verbatim>\<open>EntryInfo\<close> is its sixteen raw bits, read as a linear id or, signed, as the next free
  index. The spin lock makes every operation atomic; compare-and-swap loops are one step. Lookups
  return the object's address; the extra reference that the scoped pointer around it holds while
  it lives is not part of the table and is left out.
\<close>

section \<open>Reference counts\<close>

record AutoObjects =
  m_ref_count :: "u64 \<Rightarrow> u32"
  in_use_objects :: "u64 set"
  destroyed :: "u64 list"

definition KAutoObject_Open :: "u64 \<Rightarrow> AutoObjects \<Rightarrow> (bool \<times> AutoObjects) option" where
  "KAutoObject_Open p h =
     (let cur_ref_count = m_ref_count h p in
      if cur_ref_count = 0 then Some (False, h)
      else
        do {
          ASSERT (cur_ref_count < cur_ref_count + 1);
          Some (True, h\<lparr>m_ref_count := (m_ref_count h)(p := cur_ref_count + 1)\<rparr>)
        })"

definition KAutoObject_Close :: "u64 \<Rightarrow> AutoObjects \<Rightarrow> AutoObjects option" where
  "KAutoObject_Close p h =
     do {
       let cur_ref_count = m_ref_count h p;
       ASSERT (cur_ref_count > 0);
       let h1 = h\<lparr>m_ref_count := (m_ref_count h)(p := cur_ref_count - 1)\<rparr>;
       Some (if cur_ref_count - 1 = 0 then h1\<lparr>destroyed := p # destroyed h1\<rparr> else h1)
     }"

definition UnregisterInUseObject :: "u64 \<Rightarrow> AutoObjects \<Rightarrow> AutoObjects" where
  "UnregisterInUseObject p h = h\<lparr>in_use_objects := in_use_objects h - {p}\<rparr>"

section \<open>Handles\<close>

text \<open>\<^verbatim>\<open>BitField<position, bits, u32>\<close> of \<^verbatim>\<open>bit_field.h\<close>.\<close>

definition BitField_mask :: "nat \<Rightarrow> nat \<Rightarrow> u32" where
  "BitField_mask position bits = push_bit position (drop_bit (32 - bits) (NOT 0))"

definition BitField_value :: "nat \<Rightarrow> nat \<Rightarrow> u32 \<Rightarrow> u32" where
  "BitField_value position bits raw = drop_bit position (raw AND BitField_mask position bits)"

definition BitField_Assign :: "nat \<Rightarrow> nat \<Rightarrow> u32 \<Rightarrow> u32 \<Rightarrow> u32" where
  "BitField_Assign position bits v raw =
     (raw AND NOT (BitField_mask position bits)) OR
     (push_bit position v AND BitField_mask position bits)"

definition HandlePack_index :: "u32 \<Rightarrow> u32" where "HandlePack_index = BitField_value 0 15"
definition HandlePack_linear_id :: "u32 \<Rightarrow> u32" where "HandlePack_linear_id = BitField_value 15 15"
definition HandlePack_reserved :: "u32 \<Rightarrow> u32" where "HandlePack_reserved = BitField_value 30 2"

definition EncodeHandle :: "u16 \<Rightarrow> u16 \<Rightarrow> u32" where
  "EncodeHandle index linear_id =
     BitField_Assign 30 2 0
       (BitField_Assign 15 15 (ucast linear_id) (BitField_Assign 0 15 (ucast index) 0))"

definition PseudoHandle_CurrentThread :: u32 where "PseudoHandle_CurrentThread = 0xFFFF8000"
definition PseudoHandle_CurrentProcess :: u32 where "PseudoHandle_CurrentProcess = 0xFFFF8001"

definition IsPseudoHandle :: "u32 \<Rightarrow> bool" where
  "IsPseudoHandle h \<longleftrightarrow> h = PseudoHandle_CurrentProcess \<or> h = PseudoHandle_CurrentThread"

section \<open>The table\<close>

definition MaxTableSize :: nat where "MaxTableSize = 1024"
definition MinLinearId :: u16 where "MinLinearId = 1"
definition MaxLinearId :: u16 where "MaxLinearId = 0x7FFF"

record KHandleTable =
  m_entry_infos :: "u16 list"
  m_objects :: "u64 option list"
  m_free_head_index :: int
  m_table_size :: u16
  m_max_count :: u16
  m_next_linear_id :: u16
  m_count :: u16

definition GetNextFreeIndex :: "u16 \<Rightarrow> int" where "GetNextFreeIndex e = sint e"

definition KHandleTable_ctor :: KHandleTable where
  "KHandleTable_ctor =
     \<lparr>m_entry_infos = replicate MaxTableSize 0, m_objects = replicate MaxTableSize None,
      m_free_head_index = 0, m_table_size = 0, m_max_count = 0, m_next_linear_id = 0, m_count = 0\<rparr>"

text \<open>An \<^verbatim>\<open>s32\<close> used as an array index.\<close>

definition index_nat :: "int \<Rightarrow> nat option" where
  "index_nat i = (if i < 0 then None else Some (nat i))"

fun initialize_entries :: "nat \<Rightarrow> nat \<Rightarrow> KHandleTable \<Rightarrow> KHandleTable option" where
  "initialize_entries 0 i t = Some t"
| "initialize_entries (Suc n) i t =
     do {
       objs \<leftarrow> array_set (m_objects t) i None;
       infos \<leftarrow> array_set (m_entry_infos t) i (word_of_int (int i - 1));
       initialize_entries n (Suc i)
         (t\<lparr>m_objects := objs, m_entry_infos := infos, m_free_head_index := int i\<rparr>)
     }"

definition KHandleTable_Initialize :: "int \<Rightarrow> KHandleTable \<Rightarrow> (Result \<times> KHandleTable) option" where
  "KHandleTable_Initialize sz t =
     (if \<not> sz \<le> int MaxTableSize then Some (ResultOutOfMemory, t)
      else
        do {
          let ts = ((if sz \<le> 0 then of_nat MaxTableSize else word_of_int sz) :: u16);
          let t1 = t\<lparr>m_max_count := 0, m_table_size := ts, m_next_linear_id := MinLinearId,
                     m_count := 0, m_free_head_index := -1\<rparr>;
          t2 \<leftarrow> initialize_entries (unat ts) 0 t1;
          Some (ResultSuccess, t2)
        })"

definition AllocateEntry :: "KHandleTable \<Rightarrow> (int \<times> KHandleTable) option" where
  "AllocateEntry t =
     do {
       ASSERT (m_count t < m_table_size t);
       let index = m_free_head_index t;
       i \<leftarrow> index_nat index;
       e \<leftarrow> array_get (m_entry_infos t) i;
       let n = m_count t + 1;
       Some (index, t\<lparr>m_free_head_index := GetNextFreeIndex e, m_count := n,
                      m_max_count := max (m_max_count t) n\<rparr>)
     }"

definition FreeEntry :: "int \<Rightarrow> KHandleTable \<Rightarrow> KHandleTable option" where
  "FreeEntry index t =
     do {
       ASSERT (m_count t > 0);
       i \<leftarrow> index_nat index;
       objs \<leftarrow> array_set (m_objects t) i None;
       infos \<leftarrow> array_set (m_entry_infos t) i (word_of_int (m_free_head_index t));
       Some (t\<lparr>m_objects := objs, m_entry_infos := infos, m_free_head_index := index,
               m_count := m_count t - 1\<rparr>)
     }"

definition AllocateLinearId :: "KHandleTable \<Rightarrow> u16 \<times> KHandleTable" where
  "AllocateLinearId t =
     (let ident = m_next_linear_id t; n = ident + 1
      in (ident, t\<lparr>m_next_linear_id := (if n > MaxLinearId then MinLinearId else n)\<rparr>))"

definition IsValidHandle :: "u32 \<Rightarrow> KHandleTable \<Rightarrow> bool option" where
  "IsValidHandle h t =
     do {
       let index = HandlePack_index h;
       let linear_id = HandlePack_linear_id h;
       ASSERT (HandlePack_reserved h = 0);
       if h = 0 then Some False
       else if linear_id = 0 then Some False
       else if \<not> index < ucast (m_table_size t) then Some False
       else
         do {
           obj \<leftarrow> array_get (m_objects t) (unat index);
           case obj of
             None \<Rightarrow> Some False
           | Some _ \<Rightarrow>
               do {
                 e \<leftarrow> array_get (m_entry_infos t) (unat index);
                 Some (ucast e = linear_id)
               }
         }
     }"

definition GetObjectImpl :: "u32 \<Rightarrow> KHandleTable \<Rightarrow> u64 option option" where
  "GetObjectImpl h t =
     (if HandlePack_reserved h \<noteq> 0 then Some None
      else
        do {
          valid \<leftarrow> IsValidHandle h t;
          if valid then array_get (m_objects t) (unat (HandlePack_index h)) else Some None
        })"

definition GetObjectByIndexImpl :: "nat \<Rightarrow> KHandleTable \<Rightarrow> (u32 \<times> u64) option option" where
  "GetObjectByIndexImpl index t =
     (if \<not> index < unat (m_table_size t) then Some None
      else
        do {
          obj \<leftarrow> array_get (m_objects t) index;
          case obj of
            None \<Rightarrow> Some None
          | Some p \<Rightarrow>
              do {
                e \<leftarrow> array_get (m_entry_infos t) index;
                Some (Some (EncodeHandle (of_nat index) e, p))
              }
        })"

fun close_objects :: "nat \<Rightarrow> nat \<Rightarrow> u64 option list \<Rightarrow> AutoObjects \<Rightarrow> AutoObjects option" where
  "close_objects 0 i objs h = Some h"
| "close_objects (Suc n) i objs h =
     do {
       obj \<leftarrow> array_get objs i;
       h' \<leftarrow> (case obj of None \<Rightarrow> Some h | Some p \<Rightarrow> KAutoObject_Close p h);
       close_objects n (Suc i) objs h'
     }"

definition KHandleTable_Finalize ::
    "KHandleTable \<Rightarrow> AutoObjects \<Rightarrow> (Result \<times> KHandleTable \<times> AutoObjects) option" where
  "KHandleTable_Finalize t h =
     do {
       let saved_table_size = m_table_size t;
       h' \<leftarrow> close_objects (unat saved_table_size) 0 (m_objects t) h;
       Some (ResultSuccess, t\<lparr>m_table_size := 0\<rparr>, h')
     }"

definition KHandleTable_Remove ::
    "u32 \<Rightarrow> KHandleTable \<Rightarrow> AutoObjects \<Rightarrow> (bool \<times> KHandleTable \<times> AutoObjects) option" where
  "KHandleTable_Remove h t heap =
     (if IsPseudoHandle h then Some (False, t, heap)
      else if HandlePack_reserved h \<noteq> 0 then Some (False, t, heap)
      else
        do {
          valid \<leftarrow> IsValidHandle h t;
          if \<not> valid then Some (False, t, heap)
          else
            do {
              let index = unat (HandlePack_index h);
              obj \<leftarrow> array_get (m_objects t) index;
              p \<leftarrow> obj;
              t' \<leftarrow> FreeEntry (int index) t;
              heap' \<leftarrow> KAutoObject_Close p (UnregisterInUseObject p heap);
              Some (True, t', heap')
            }
        })"

text \<open>\<open>None\<close> as the handle: the output parameter is not written.\<close>

definition KHandleTable_Add ::
    "u64 \<Rightarrow> KHandleTable \<Rightarrow> AutoObjects \<Rightarrow>
     (Result \<times> u32 option \<times> KHandleTable \<times> AutoObjects) option" where
  "KHandleTable_Add obj t heap =
     (if \<not> m_count t < m_table_size t then Some (ResultOutOfHandles, None, t, heap)
      else
        do {
          let (linear_id, t1) = AllocateLinearId t;
          (index, t2) \<leftarrow> AllocateEntry t1;
          i \<leftarrow> index_nat index;
          infos \<leftarrow> array_set (m_entry_infos t2) i linear_id;
          objs \<leftarrow> array_set (m_objects t2) i (Some obj);
          (opened, heap') \<leftarrow> KAutoObject_Open obj heap;
          Some (ResultSuccess, Some (EncodeHandle (of_int index) linear_id),
                t2\<lparr>m_entry_infos := infos, m_objects := objs\<rparr>, heap')
        })"

definition KHandleTable_Reserve :: "KHandleTable \<Rightarrow> (Result \<times> u32 option \<times> KHandleTable) option" where
  "KHandleTable_Reserve t =
     (if \<not> m_count t < m_table_size t then Some (ResultOutOfHandles, None, t)
      else
        do {
          (index, t1) \<leftarrow> AllocateEntry t;
          let (linear_id, t2) = AllocateLinearId t1;
          Some (ResultSuccess, Some (EncodeHandle (of_int index) linear_id), t2)
        })"

definition KHandleTable_Unreserve :: "u32 \<Rightarrow> KHandleTable \<Rightarrow> KHandleTable option" where
  "KHandleTable_Unreserve h t =
     do {
       let index = HandlePack_index h;
       ASSERT (HandlePack_reserved h = 0);
       ASSERT (HandlePack_linear_id h \<noteq> 0);
       if index < ucast (m_table_size t) then
         do {
           obj \<leftarrow> array_get (m_objects t) (unat index);
           ASSERT (obj = None);
           FreeEntry (uint index) t
         }
       else Some t
     }"

definition KHandleTable_Register ::
    "u32 \<Rightarrow> u64 \<Rightarrow> KHandleTable \<Rightarrow> AutoObjects \<Rightarrow> (KHandleTable \<times> AutoObjects) option" where
  "KHandleTable_Register h obj t heap =
     do {
       let index = HandlePack_index h;
       let linear_id = HandlePack_linear_id h;
       ASSERT (HandlePack_reserved h = 0);
       ASSERT (linear_id \<noteq> 0);
       if index < ucast (m_table_size t) then
         do {
           old \<leftarrow> array_get (m_objects t) (unat index);
           ASSERT (old = None);
           infos \<leftarrow> array_set (m_entry_infos t) (unat index) (ucast linear_id);
           objs \<leftarrow> array_set (m_objects t) (unat index) (Some obj);
           (opened, heap') \<leftarrow> KAutoObject_Open obj heap;
           Some (t\<lparr>m_entry_infos := infos, m_objects := objs\<rparr>, heap')
         }
       else Some (t, heap)
     }"

text \<open>The arguments \<open>cur_process\<close> and \<open>cur_thread\<close> are the caller's objects.\<close>

definition GetObjectForIpc :: "u64 option \<Rightarrow> u64 \<Rightarrow> u32 \<Rightarrow> KHandleTable \<Rightarrow> u64 option option" where
  "GetObjectForIpc cur_process cur_thread h t =
     (if h = PseudoHandle_CurrentProcess then
        do {
          ASSERT (cur_process \<noteq> None);
          Some cur_process
        }
      else if h = PseudoHandle_CurrentThread then Some (Some cur_thread)
      else GetObjectImpl h t)"

text \<open>\<open>GetMultipleObjects\<close>: \<open>castable p\<close> says whether the dynamic cast of \<open>p\<close> succeeds. The result lists
  the objects opened before the first failure.\<close>

fun open_objects ::
    "(u64 \<Rightarrow> bool) \<Rightarrow> u32 list \<Rightarrow> KHandleTable \<Rightarrow> AutoObjects \<Rightarrow> (u64 list \<times> AutoObjects) option" where
  "open_objects castable [] t heap = Some ([], heap)"
| "open_objects castable (h # hs) t heap =
     do {
       obj \<leftarrow> GetObjectImpl h t;
       case obj of
         None \<Rightarrow> Some ([], heap)
       | Some p \<Rightarrow>
           if \<not> castable p then Some ([], heap)
           else
             do {
               (opened, heap1) \<leftarrow> KAutoObject_Open p heap;
               (ps, heap2) \<leftarrow> open_objects castable hs t heap1;
               Some (p # ps, heap2)
             }
     }"

fun close_list :: "u64 list \<Rightarrow> AutoObjects \<Rightarrow> AutoObjects option" where
  "close_list [] heap = Some heap"
| "close_list (p # ps) heap =
     do {
       heap' \<leftarrow> KAutoObject_Close p heap;
       close_list ps heap'
     }"

definition GetMultipleObjects ::
    "(u64 \<Rightarrow> bool) \<Rightarrow> u32 list \<Rightarrow> KHandleTable \<Rightarrow> AutoObjects \<Rightarrow>
     (u64 list option \<times> AutoObjects) option" where
  "GetMultipleObjects castable handles t heap =
     do {
       (ps, heap1) \<leftarrow> open_objects castable handles t heap;
       if length ps = length handles then Some (Some ps, heap1)
       else
         do {
           heap2 \<leftarrow> close_list ps heap1;
           Some (None, heap2)
         }
     }"

section \<open>Packing handles\<close>

lemma BitField_masks:
  "BitField_mask 0 15 = mask 15" "BitField_mask 15 15 = push_bit 15 (mask 15)"
  "BitField_mask 30 2 = push_bit 30 (mask 2)"
  by (simp_all add: BitField_mask_def mask_eq_exp_minus_1)

lemma HandlePack_eqs:
  "HandlePack_index h = take_bit 15 h"
  "HandlePack_linear_id h = take_bit 15 (drop_bit 15 h)"
  "HandlePack_reserved h = take_bit 2 (drop_bit 30 h)"
  by (auto intro!: bit_word_eqI
      simp: HandlePack_index_def HandlePack_linear_id_def HandlePack_reserved_def BitField_value_def
        BitField_masks bit_simps)

lemma EncodeHandle_eq:
  "EncodeHandle i l = take_bit 15 (ucast i) OR push_bit 15 (take_bit 15 (ucast l))"
  by (auto intro!: bit_word_eqI simp: EncodeHandle_def BitField_Assign_def BitField_masks bit_simps)

lemma bit_less_exp:
  assumes "unat (w :: 'a::len word) < 2 ^ k" "bit w n"
  shows "n < k"
proof -
  have "take_bit k w = w"
    using assms(1) by (simp add: word_eq_unat_iff unsigned_take_bit_eq take_bit_nat_eq_self_iff)
  then have "bit (take_bit k w) n"
    using assms(2) by simp
  then show ?thesis
    by (simp add: bit_take_bit_iff)
qed

lemma unpack_EncodeHandle:
  fixes i l :: u16
  assumes "unat i < 2 ^ 15" "unat l < 2 ^ 15"
  shows "HandlePack_index (EncodeHandle i l) = ucast i" "HandlePack_linear_id (EncodeHandle i l) = ucast l"
    "HandlePack_reserved (EncodeHandle i l) = 0"
proof -
  have b: "bit i n \<Longrightarrow> n < 15" "bit l n \<Longrightarrow> n < 15" for n
    using assms bit_less_exp by blast+
  show "HandlePack_index (EncodeHandle i l) = ucast i" "HandlePack_linear_id (EncodeHandle i l) = ucast l"
    "HandlePack_reserved (EncodeHandle i l) = 0"
    using b by (auto intro!: bit_word_eqI simp: HandlePack_eqs EncodeHandle_eq bit_simps) fastforce+
qed

lemma HandlePack_inject:
  assumes "HandlePack_index g = HandlePack_index h" "HandlePack_linear_id g = HandlePack_linear_id h"
    "HandlePack_reserved g = HandlePack_reserved h"
  shows "g = h"
proof (rule bit_word_eqI)
  fix n assume n: "n < LENGTH(32)"
  have b: "bit (HandlePack_index g) k = bit (HandlePack_index h) k"
    "bit (HandlePack_linear_id g) k = bit (HandlePack_linear_id h) k"
    "bit (HandlePack_reserved g) k = bit (HandlePack_reserved h) k" for k
    using assms by simp_all
  consider "n < 15" | "15 \<le> n" "n < 30" | "30 \<le> n" by linarith
  then show "bit g n = bit h n"
  proof cases
    case 1
    then show ?thesis using b(1) [of n] by (simp add: HandlePack_eqs bit_simps)
  next
    case 2
    then have "n - 15 < 15" by linarith
    then show ?thesis using 2 b(2) [of "n - 15"] by (auto simp: HandlePack_eqs bit_simps)
  next
    case 3
    then have "n - 30 < 2" using n by simp
    then show ?thesis using 3 b(3) [of "n - 30"] by (auto simp: HandlePack_eqs bit_simps)
  qed
qed

section \<open>Invariant\<close>

text \<open>The free list: \<open>fl\<close> is the sequence of indices from the head along \<open>next_free_index\<close>.\<close>

fun free_path :: "u16 list \<Rightarrow> int \<Rightarrow> nat list \<Rightarrow> bool" where
  "free_path es head [] \<longleftrightarrow> head = -1"
| "free_path es head (i # fl) \<longleftrightarrow> head = int i \<and> free_path es (GetNextFreeIndex (es ! i)) fl"

text \<open>Entries without an object are either on the free list or reserved (\<open>rsv\<close>).\<close>

definition table_ok :: "KHandleTable \<Rightarrow> nat list \<Rightarrow> nat list \<Rightarrow> bool" where
  "table_ok t fl rsv \<longleftrightarrow>
     length (m_entry_infos t) = MaxTableSize \<and> length (m_objects t) = MaxTableSize \<and>
     unat (m_table_size t) \<le> MaxTableSize \<and>
     1 \<le> unat (m_next_linear_id t) \<and> unat (m_next_linear_id t) < 2 ^ 15 \<and>
     free_path (m_entry_infos t) (m_free_head_index t) fl \<and> distinct (fl @ rsv) \<and>
     set fl \<union> set rsv = {i. i < unat (m_table_size t) \<and> m_objects t ! i = None} \<and>
     unat (m_count t) + length fl = unat (m_table_size t) \<and>
     (\<forall>i < unat (m_table_size t). m_objects t ! i \<noteq> None \<longrightarrow>
        1 \<le> unat (m_entry_infos t ! i) \<and> unat (m_entry_infos t ! i) < 2 ^ 15)"

definition lookup :: "KHandleTable \<Rightarrow> u32 \<Rightarrow> u64 option" where
  "lookup t h =
     (let i = unat (HandlePack_index h) in
      if HandlePack_reserved h = 0 \<and> HandlePack_linear_id h \<noteq> 0 \<and> i < unat (m_table_size t) \<and>
         ucast (m_entry_infos t ! i) = HandlePack_linear_id h
      then m_objects t ! i else None)"

lemma HandlePack_zero: "HandlePack_linear_id 0 = 0"
  by (simp add: HandlePack_eqs)

lemma unat_ucast_u16_u32 [simp]: "unat (ucast (s :: u16) :: u32) = unat s"
proof -
  have "unat s < 2 ^ 32"
    using unsigned_less [of s, where 'a = nat] by simp
  then show ?thesis
    by (simp add: unsigned_ucast_eq take_bit_nat_eq_self)
qed

lemma ucast_u16_u32_less: "(h :: u32) < ucast (s :: u16) \<longleftrightarrow> unat h < unat s"
  by (simp add: word_less_nat_alt)

lemma GetObjectImpl_lookup:
  assumes "table_ok t fl rsv"
  shows "GetObjectImpl h t = Some (lookup t h)"
  using assms HandlePack_zero
  by (auto simp: GetObjectImpl_def IsValidHandle_def lookup_def Let_def table_ok_def ucast_u16_u32_less
      split: option.splits)

lemma free_path_cong:
  "(\<forall>i\<in>set fl. es ! i = es' ! i) \<Longrightarrow> free_path es h fl = free_path es' h fl"
  by (induction fl arbitrary: h) auto

lemma free_path_update: "i \<notin> set fl \<Longrightarrow> free_path (es[i := e]) h fl = free_path es h fl"
  by (intro free_path_cong) (metis nth_list_update_neq)

lemma table_ok_bounds:
  assumes "table_ok t fl rsv" "i \<in> set fl \<union> set rsv"
  shows "i < unat (m_table_size t)" "i < MaxTableSize" "m_objects t ! i = None"
    "i < length (m_entry_infos t)" "i < length (m_objects t)"
  using assms by (auto simp: table_ok_def)

lemma AllocateLinearId_ok:
  assumes "1 \<le> unat (m_next_linear_id t)" "unat (m_next_linear_id t) < 2 ^ 15"
  obtains n where "AllocateLinearId t = (m_next_linear_id t, t\<lparr>m_next_linear_id := n\<rparr>)"
    "1 \<le> unat n" "unat n < 2 ^ 15"
proof -
  let ?n = "m_next_linear_id t"
  have u: "unat (?n + 1) = unat ?n + 1"
    using assms by (simp add: unat_plus_no_wrap)
  let ?n' = "if ?n + 1 > MaxLinearId then MinLinearId else ?n + 1"
  have "AllocateLinearId t = (?n, t\<lparr>m_next_linear_id := ?n'\<rparr>)"
    by (simp add: AllocateLinearId_def Let_def)
  moreover have "1 \<le> unat ?n'" "unat ?n' < 2 ^ 15"
    using u assms by (auto simp: MaxLinearId_def MinLinearId_def word_less_nat_alt not_less)
  ultimately show ?thesis by (rule that)
qed

lemma AllocateEntry_ok:
  assumes "table_ok t (i # fl) rsv"
  shows "AllocateEntry t = Some (int i,
    t\<lparr>m_free_head_index := GetNextFreeIndex (m_entry_infos t ! i), m_count := m_count t + 1,
      m_max_count := max (m_max_count t) (m_count t + 1)\<rparr>)"
    and "unat (m_count t + 1) = unat (m_count t) + 1" and "m_count t < m_table_size t"
proof -
  have c: "unat (m_count t) + length (i # fl) = unat (m_table_size t)" and h: "m_free_head_index t = int i"
    and ts: "unat (m_table_size t) \<le> 1024"
    using assms by (auto simp: table_ok_def MaxTableSize_def)
  have i: "i < length (m_entry_infos t)"
    using table_ok_bounds [OF assms] by simp
  show lt: "m_count t < m_table_size t"
    using c by (simp add: word_less_nat_alt)
  then show "AllocateEntry t = Some (int i,
      t\<lparr>m_free_head_index := GetNextFreeIndex (m_entry_infos t ! i), m_count := m_count t + 1,
        m_max_count := max (m_max_count t) (m_count t + 1)\<rparr>)"
    using h i by (simp add: AllocateEntry_def index_nat_def Let_def)
  show "unat (m_count t + 1) = unat (m_count t) + 1"
    using c ts by (simp add: unat_plus_no_wrap)
qed

lemma next_free_roundtrip: "-1 \<le> x \<Longrightarrow> x < 2 ^ 15 \<Longrightarrow> GetNextFreeIndex (word_of_int x) = x"
  unfolding GetNextFreeIndex_def by (subst sint_sbintrunc') (simp add: signed_take_bit_int_eq_self)

lemma free_path_head:
  "free_path es h fl \<Longrightarrow> \<forall>i\<in>set fl. i < n \<Longrightarrow> -1 \<le> h \<and> h < int n \<or> fl = [] \<and> h = -1"
  by (cases fl) auto

lemma FreeEntry_ok:
  assumes ok: "table_ok t fl rsv" and i: "i < unat (m_table_size t)" "i \<notin> set fl"
  obtains t' where "FreeEntry (int i) t = Some t'" "table_ok t' (i # fl) (removeAll i rsv)"
    "m_objects t' = (m_objects t)[i := None]" "m_table_size t' = m_table_size t"
    "\<forall>j. j \<noteq> i \<longrightarrow> m_entry_infos t' ! j = m_entry_infos t ! j"
proof -
  let ?ts = "unat (m_table_size t)"
  let ?t = "t\<lparr>m_objects := (m_objects t)[i := None],
    m_entry_infos := (m_entry_infos t)[i := word_of_int (m_free_head_index t)],
    m_free_head_index := int i, m_count := m_count t - 1\<rparr>"
  have len: "length (m_entry_infos t) = 1024" "length (m_objects t) = 1024" "?ts \<le> 1024"
    and path: "free_path (m_entry_infos t) (m_free_head_index t) fl" and di: "distinct (fl @ rsv)"
    and free: "set fl \<union> set rsv = {i. i < ?ts \<and> m_objects t ! i = None}"
    and cnt: "unat (m_count t) + length fl = ?ts"
    and lin: "\<forall>j<?ts. m_objects t ! j \<noteq> None \<longrightarrow>
        1 \<le> unat (m_entry_infos t ! j) \<and> unat (m_entry_infos t ! j) < 2 ^ 15"
    using ok by (auto simp: table_ok_def MaxTableSize_def)
  have il: "i < length (m_entry_infos t)" "i < length (m_objects t)"
    using i(1) len by simp_all
  have "set fl \<subseteq> {..<?ts} - {i}"
    using free i(2) by auto
  then have "length fl \<le> card ({..<?ts} - {i})"
    using di by (metis card_mono distinct_append distinct_card finite_Diff finite_lessThan)
  then have "length fl < ?ts"
    using i(1) by simp
  then have c: "0 < unat (m_count t)"
    using cnt by simp
  then have uc: "unat (m_count t - 1) = unat (m_count t) - 1"
    by (subst unat_minus_no_wrap) auto
  have hd: "GetNextFreeIndex (word_of_int (m_free_head_index t)) = m_free_head_index t"
  proof -
    have "\<forall>i\<in>set fl. i < 1024"
      using table_ok_bounds(2) [OF ok] by (simp add: MaxTableSize_def)
    then have "-1 \<le> m_free_head_index t \<and> m_free_head_index t < 1024"
      using free_path_head [OF path, of 1024] by auto
    then show ?thesis
      by (intro next_free_roundtrip) auto
  qed
  have "FreeEntry (int i) t = Some ?t"
    using c i(1) len by (simp add: FreeEntry_def index_nat_def word_gt_0 unat_gt_0)
  moreover have "table_ok ?t (i # fl) (removeAll i rsv)"
    unfolding table_ok_def
  proof (intro conjI)
    show "free_path (m_entry_infos ?t) (m_free_head_index ?t) (i # fl)"
      using hd path i len by (simp add: free_path_update)
    show "distinct ((i # fl) @ removeAll i rsv)"
      using di i(2) by (auto simp: distinct_removeAll)
    show "set (i # fl) \<union> set (removeAll i rsv) = {j. j < unat (m_table_size ?t) \<and> m_objects ?t ! j = None}"
      using free i(1) il by (auto simp: nth_list_update)
    show "unat (m_count ?t) + length (i # fl) = unat (m_table_size ?t)"
      using uc cnt c by simp
    show "\<forall>j<unat (m_table_size ?t). m_objects ?t ! j \<noteq> None \<longrightarrow>
        1 \<le> unat (m_entry_infos ?t ! j) \<and> unat (m_entry_infos ?t ! j) < 2 ^ 15"
      using lin il by (simp add: nth_list_update)
  qed (use ok in \<open>auto simp: table_ok_def\<close>)
  ultimately show ?thesis
    by (rule that) simp_all
qed

definition opened :: "u64 \<Rightarrow> AutoObjects \<Rightarrow> AutoObjects" where
  "opened p h = (if m_ref_count h p = 0 then h else h\<lparr>m_ref_count := (m_ref_count h)(p := m_ref_count h p + 1)\<rparr>)"

lemma Open_ok:
  assumes "m_ref_count h p + 1 \<noteq> 0"
  shows "\<exists>b. KAutoObject_Open p h = Some (b, opened p h)"
proof -
  have "m_ref_count h p < m_ref_count h p + 1"
    using assms unatSuc [of "m_ref_count h p"] by (simp add: word_less_nat_alt add.commute)
  then show ?thesis
    by (auto simp: KAutoObject_Open_def opened_def Let_def)
qed

lemma lookup_update:
  assumes "i < length (m_entry_infos t)" "i < length (m_objects t)" "i < unat (m_table_size t)" "i < 2 ^ 15"
    "1 \<le> unat l" "unat l < 2 ^ 15" "m_objects t ! i = None"
  shows "lookup (t\<lparr>m_entry_infos := (m_entry_infos t)[i := l], m_objects := (m_objects t)[i := Some p]\<rparr>) =
    (lookup t)(EncodeHandle (of_nat i) l := Some p)"
proof
  fix h
  have ui: "unat (of_nat i :: u16) = i"
    using assms(4) by (simp add: unsigned_of_nat take_bit_nat_eq_self)
  note up = unpack_EncodeHandle [of "of_nat i" l, unfolded ui, OF assms(4,6)]
  have uh: "unat (HandlePack_index (EncodeHandle (of_nat i) l)) = i"
    using up(1) ui by simp
  have l0: "(ucast l :: u32) \<noteq> 0"
    using assms(5) by (metis unat_0 unat_ucast_u16_u32 not_one_le_zero)
  show "lookup (t\<lparr>m_entry_infos := (m_entry_infos t)[i := l], m_objects := (m_objects t)[i := Some p]\<rparr>) h =
      ((lookup t)(EncodeHandle (of_nat i) l := Some p)) h"
  proof (cases "h = EncodeHandle (of_nat i) l")
    case True
    then show ?thesis
      using up uh l0 assms by (simp add: lookup_def Let_def)
  next
    case False
    have "\<not> (unat (HandlePack_index h) = i \<and> HandlePack_linear_id h = ucast l \<and> HandlePack_reserved h = 0)"
      using HandlePack_inject [of h "EncodeHandle (of_nat i) l"] False up uh by (auto simp: word_eq_unat_iff)
    then show ?thesis
      using False assms by (auto simp: lookup_def Let_def nth_list_update)
  qed
qed

lemma Add_ok:
  assumes ok: "table_ok t (i # fl) rsv" and ref: "m_ref_count heap p + 1 \<noteq> 0"
  obtains h t' where "KHandleTable_Add p t heap = Some (ResultSuccess, Some h, t', opened p heap)"
    "table_ok t' fl rsv" "lookup t' = (lookup t)(h := Some p)" "lookup t h = None"
    "m_table_size t' = m_table_size t"
proof -
  let ?l = "m_next_linear_id t"
  have lin: "1 \<le> unat ?l" "unat ?l < 2 ^ 15"
    using ok by (auto simp: table_ok_def)
  obtain n where n: "AllocateLinearId t = (?l, t\<lparr>m_next_linear_id := n\<rparr>)" "1 \<le> unat n" "unat n < 2 ^ 15"
    using AllocateLinearId_ok [OF lin] .
  let ?t1 = "t\<lparr>m_next_linear_id := n\<rparr>"
  have ok1: "table_ok ?t1 (i # fl) rsv"
    using ok n(2,3) by (simp add: table_ok_def)
  note b = table_ok_bounds [OF ok1, of i, simplified]
  let ?t2 = "?t1\<lparr>m_free_head_index := GetNextFreeIndex (m_entry_infos t ! i), m_count := m_count t + 1,
      m_max_count := max (m_max_count t) (m_count t + 1)\<rparr>"
  let ?t3 = "?t2\<lparr>m_entry_infos := (m_entry_infos t)[i := ?l], m_objects := (m_objects t)[i := Some p]\<rparr>"
  let ?h = "EncodeHandle (of_nat i) ?l"
  note ae = AllocateEntry_ok [OF ok1, simplified]
  obtain bb where op: "KAutoObject_Open p heap = Some (bb, opened p heap)"
    using Open_ok [OF ref] by blast
  have "KHandleTable_Add p t heap = Some (ResultSuccess, Some ?h, ?t3, opened p heap)"
    using ae b op n(1) by (simp add: KHandleTable_Add_def index_nat_def Let_def)
  moreover have "table_ok ?t3 fl rsv"
    unfolding table_ok_def
  proof (intro conjI)
    have path: "free_path (m_entry_infos t) (GetNextFreeIndex (m_entry_infos t ! i)) fl" "distinct ((i # fl) @ rsv)"
      and free: "set (i # fl) \<union> set rsv = {j. j < unat (m_table_size t) \<and> m_objects t ! j = None}"
      and cnt: "unat (m_count t) + length (i # fl) = unat (m_table_size t)"
      and old: "\<forall>j<unat (m_table_size t). m_objects t ! j \<noteq> None \<longrightarrow>
        1 \<le> unat (m_entry_infos t ! j) \<and> unat (m_entry_infos t ! j) < 2 ^ 15"
      using ok by (auto simp: table_ok_def)
    show "free_path (m_entry_infos ?t3) (m_free_head_index ?t3) fl" "distinct (fl @ rsv)"
      using path by (auto simp: free_path_update)
    show "set fl \<union> set rsv = {j. j < unat (m_table_size ?t3) \<and> m_objects ?t3 ! j = None}"
    proof -
      have "set fl \<union> set rsv = set (i # fl) \<union> set rsv - {i}"
        using path(2) by auto
      also have "\<dots> = {j. j < unat (m_table_size t) \<and> m_objects t ! j = None} - {i}"
        by (simp only: free)
      also have "\<dots> = {j. j < unat (m_table_size ?t3) \<and> m_objects ?t3 ! j = None}"
        using b by (auto simp: nth_list_update)
      finally show ?thesis .
    qed
    show "unat (m_count ?t3) + length fl = unat (m_table_size ?t3)"
      using cnt ae(2) by simp
    show "\<forall>j<unat (m_table_size ?t3). m_objects ?t3 ! j \<noteq> None \<longrightarrow>
        1 \<le> unat (m_entry_infos ?t3 ! j) \<and> unat (m_entry_infos ?t3 ! j) < 2 ^ 15"
      using old lin b by (simp add: nth_list_update)
  qed (use ok n(2,3) in \<open>auto simp: table_ok_def\<close>)
  moreover have "lookup ?t3 = (lookup t)(?h := Some p)"
  proof -
    have "lookup ?t3 = lookup (t\<lparr>m_entry_infos := (m_entry_infos t)[i := ?l], m_objects := (m_objects t)[i := Some p]\<rparr>)"
      by (simp add: lookup_def fun_eq_iff Let_def)
    also have "\<dots> = (lookup t)(?h := Some p)"
      using b lin by (intro lookup_update) (auto simp: MaxTableSize_def)
    finally show ?thesis .
  qed
  moreover have "lookup t ?h = None"
  proof -
    have ui: "unat (of_nat i :: u16) = i"
      using b by (simp add: unsigned_of_nat take_bit_nat_eq_self MaxTableSize_def)
    have "unat (HandlePack_index ?h) = i"
      using unpack_EncodeHandle(1) [of "of_nat i" ?l] ui b lin by (simp add: MaxTableSize_def)
    then show ?thesis
      using b by (simp add: lookup_def)
  qed
  ultimately show ?thesis
    by (rule that) simp
qed

lemma Add_full:
  assumes "table_ok t [] rsv"
  shows "KHandleTable_Add p t heap = Some (ResultOutOfHandles, None, t, heap)"
  using assms by (simp add: KHandleTable_Add_def table_ok_def word_less_nat_alt)

definition closed_ref :: "u64 \<Rightarrow> AutoObjects \<Rightarrow> AutoObjects" where
  "closed_ref p h =
     (let h1 = h\<lparr>in_use_objects := in_use_objects h - {p}, m_ref_count := (m_ref_count h)(p := m_ref_count h p - 1)\<rparr>
      in if m_ref_count h p = 1 then h1\<lparr>destroyed := p # destroyed h\<rparr> else h1)"

lemma Remove_ok:
  assumes ok: "table_ok t fl rsv" and lk: "lookup t h = Some p" and ref: "0 < m_ref_count heap p"
  obtains t' i where "KHandleTable_Remove h t heap = Some (True, t', closed_ref p heap)"
    "table_ok t' (i # fl) rsv" "lookup t' = (lookup t)(h := None)" "m_table_size t' = m_table_size t"
proof -
  let ?i = "unat (HandlePack_index h)"
  have lkd: "HandlePack_reserved h = 0" "HandlePack_linear_id h \<noteq> 0" "?i < unat (m_table_size t)"
    "ucast (m_entry_infos t ! ?i) = HandlePack_linear_id h" "m_objects t ! ?i = Some p"
    using lk by (auto simp: lookup_def Let_def split: if_splits)
  have ts: "unat (m_table_size t) \<le> 1024" "length (m_objects t) = 1024" "length (m_entry_infos t) = 1024"
    using ok by (auto simp: table_ok_def MaxTableSize_def)
  have nf: "?i \<notin> set fl" "?i \<notin> set rsv"
    using table_ok_bounds(3) [OF ok, of ?i] lkd(5) by auto
  obtain t' where t': "FreeEntry (int ?i) t = Some t'" "table_ok t' (?i # fl) (removeAll ?i rsv)"
    "m_objects t' = (m_objects t)[?i := None]" "m_table_size t' = m_table_size t"
    "\<forall>j. j \<noteq> ?i \<longrightarrow> m_entry_infos t' ! j = m_entry_infos t ! j"
    using FreeEntry_ok [OF ok lkd(3) nf(1)] .
  have rs: "removeAll ?i rsv = rsv"
    using nf(2) by simp
  have ps: "\<not> IsPseudoHandle h"
  proof -
    have "HandlePack_reserved PseudoHandle_CurrentProcess \<noteq> 0" "HandlePack_reserved PseudoHandle_CurrentThread \<noteq> 0"
      by code_simp+
    then show ?thesis
      using lkd(1) by (auto simp: IsPseudoHandle_def)
  qed
  have h0: "h \<noteq> 0"
    using lkd(2) HandlePack_zero by auto
  have "KHandleTable_Remove h t heap = Some (True, t', closed_ref p heap)"
    using ps lkd t'(1) ts ref h0
    by (simp add: KHandleTable_Remove_def IsValidHandle_def Let_def ucast_u16_u32_less
        KAutoObject_Close_def UnregisterInUseObject_def closed_ref_def)
  moreover have "lookup t' = (lookup t)(h := None)"
  proof
    fix g
    show "lookup t' g = ((lookup t)(h := None)) g"
    proof (cases "unat (HandlePack_index g) = ?i")
      case True
      then have "HandlePack_index g = HandlePack_index h"
        by (simp add: word_eq_unat_iff)
      then have "g \<noteq> h \<Longrightarrow> lookup t g = None"
        using HandlePack_inject [of g h] lkd by (auto simp: lookup_def Let_def)
      moreover have "m_objects t' ! unat (HandlePack_index g) = None"
        using True t'(3) lkd(3) ts by simp
      then have "lookup t' g = None"
        by (simp add: lookup_def Let_def)
      ultimately show ?thesis
        by (cases "g = h") simp_all
    next
      case False
      then have "g \<noteq> h" "m_entry_infos t' ! unat (HandlePack_index g) = m_entry_infos t ! unat (HandlePack_index g)"
        "m_objects t' ! unat (HandlePack_index g) = m_objects t ! unat (HandlePack_index g)"
        using t'(3,5) by auto
      then show ?thesis
        using t'(4) by (simp add: lookup_def Let_def)
    qed
  qed
  ultimately show ?thesis
    using t'(2,4) rs by (intro that [of t' ?i]) simp_all
qed

section \<open>Initialisation\<close>

lemma initialize_entries_ok:
  assumes "i + n \<le> MaxTableSize" "length (m_entry_infos t) = MaxTableSize" "length (m_objects t) = MaxTableSize"
    "free_path (m_entry_infos t) (m_free_head_index t) (rev [0..<i])" "m_free_head_index t = int i - 1"
    "\<forall>j<i. m_objects t ! j = None"
  shows "\<exists>t'. initialize_entries n i t = Some t' \<and>
    length (m_entry_infos t') = MaxTableSize \<and> length (m_objects t') = MaxTableSize \<and>
    free_path (m_entry_infos t') (m_free_head_index t') (rev [0..<i + n]) \<and>
    (\<forall>j<i + n. m_objects t' ! j = None) \<and> m_table_size t' = m_table_size t \<and>
    m_next_linear_id t' = m_next_linear_id t \<and> m_count t' = m_count t"
  using assms
proof (induction n arbitrary: i t)
  case (Suc n)
  let ?t = "t\<lparr>m_objects := (m_objects t)[i := None], m_entry_infos := (m_entry_infos t)[i := word_of_int (int i - 1)],
    m_free_head_index := int i\<rparr>"
  have i: "i < length (m_objects t)" "i < length (m_entry_infos t)" "i < 2 ^ 15"
    using Suc.prems by (auto simp: MaxTableSize_def)
  have "GetNextFreeIndex (word_of_int (int i - 1)) = int i - 1"
    using i by (intro next_free_roundtrip) auto
  then have "free_path (m_entry_infos ?t) (m_free_head_index ?t) (rev [0..<Suc i])"
    using Suc.prems(4,5) i by (simp add: free_path_update)
  then have "\<exists>t'. initialize_entries n (Suc i) ?t = Some t' \<and>
      length (m_entry_infos t') = MaxTableSize \<and> length (m_objects t') = MaxTableSize \<and>
      free_path (m_entry_infos t') (m_free_head_index t') (rev [0..<Suc i + n]) \<and>
      (\<forall>j<Suc i + n. m_objects t' ! j = None) \<and> m_table_size t' = m_table_size ?t \<and>
      m_next_linear_id t' = m_next_linear_id ?t \<and> m_count t' = m_count ?t"
    using Suc.prems i by (intro Suc.IH) (auto simp: less_Suc_eq nth_list_update)
  then show ?case
    using i by simp
qed simp

lemma Initialize_ok:
  assumes "length (m_entry_infos t) = MaxTableSize" "length (m_objects t) = MaxTableSize" "sz \<le> int MaxTableSize"
  obtains t' fl where "KHandleTable_Initialize sz t = Some (ResultSuccess, t')" "table_ok t' fl []"
    "m_count t' = 0" "int (unat (m_table_size t')) = (if sz \<le> 0 then 1024 else sz)" "lookup t' = (\<lambda>_. None)"
proof -
  define ts where "ts = ((if sz \<le> 0 then of_nat MaxTableSize else word_of_int sz) :: u16)"
  have uts: "int (unat ts) = (if sz \<le> 0 then 1024 else sz)"
    using assms(3) by (auto simp: ts_def MaxTableSize_def unsigned_of_int take_bit_int_eq_self)
  then have ts: "unat ts \<le> MaxTableSize"
    using assms(3) by (simp add: MaxTableSize_def split: if_splits del: of_nat_unat)
  let ?t1 = "t\<lparr>m_max_count := 0, m_table_size := ts, m_next_linear_id := MinLinearId,
                     m_count := 0, m_free_head_index := -1\<rparr>"
  obtain t' where t': "initialize_entries (unat ts) 0 ?t1 = Some t'"
    "length (m_entry_infos t') = MaxTableSize" "length (m_objects t') = MaxTableSize"
    "free_path (m_entry_infos t') (m_free_head_index t') (rev [0..<unat ts])"
    "\<forall>j<unat ts. m_objects t' ! j = None" "m_table_size t' = ts"
    "m_next_linear_id t' = MinLinearId" "m_count t' = 0"
    using initialize_entries_ok [of 0 "unat ts" ?t1] assms ts by auto
  have "KHandleTable_Initialize sz t = Some (ResultSuccess, t')"
    using assms(3) t'(1) by (simp add: KHandleTable_Initialize_def Let_def flip: ts_def)
  moreover have "table_ok t' (rev [0..<unat ts]) []"
    unfolding table_ok_def using t' ts by (auto simp: MinLinearId_def)
  moreover have "lookup t' = (\<lambda>_. None)"
    using t'(5,6) by (auto simp: lookup_def Let_def fun_eq_iff)
  ultimately show ?thesis
    using t'(6,8) uts by (intro that) simp_all
qed

section \<open>The handle space interface\<close>

text \<open>What the users of a handle table rely on.\<close>

locale handle_space =
  fixes inv :: "'t \<Rightarrow> bool"
    and find :: "'t \<Rightarrow> u32 \<Rightarrow> u64 option"
    and add :: "u64 \<Rightarrow> 't \<Rightarrow> (u32 \<times> 't) option"
    and remove :: "u32 \<Rightarrow> 't \<Rightarrow> 't option"
  assumes add_inv: "inv t \<Longrightarrow> add p t = Some (h, t') \<Longrightarrow> inv t'"
    and add_find: "inv t \<Longrightarrow> add p t = Some (h, t') \<Longrightarrow> find t' = (find t)(h := Some p)"
    and add_fresh: "inv t \<Longrightarrow> add p t = Some (h, t') \<Longrightarrow> find t h = None"
    and remove_inv: "inv t \<Longrightarrow> remove h t = Some t' \<Longrightarrow> inv t'"
    and remove_find: "inv t \<Longrightarrow> remove h t = Some t' \<Longrightarrow> find t' = (find t)(h := None)"

text \<open>A history: additions with the handle they returned, and removals.\<close>

datatype handle_op = AddOp u64 u32 | RemoveOp u32

fun replay :: "handle_op list \<Rightarrow> (u32 \<Rightarrow> u64 option) \<Rightarrow> u32 \<Rightarrow> u64 option" where
  "replay [] f = f"
| "replay (AddOp p h # ops) f = replay ops (f(h := Some p))"
| "replay (RemoveOp h # ops) f = replay ops (f(h := None))"

fun fresh_handles :: "handle_op list \<Rightarrow> (u32 \<Rightarrow> u64 option) \<Rightarrow> bool" where
  "fresh_handles [] f \<longleftrightarrow> True"
| "fresh_handles (AddOp p h # ops) f \<longleftrightarrow> f h = None \<and> fresh_handles ops (f(h := Some p))"
| "fresh_handles (RemoveOp h # ops) f \<longleftrightarrow> fresh_handles ops (f(h := None))"

fun performs ::
    "(u64 \<Rightarrow> 't \<Rightarrow> (u32 \<times> 't) option) \<Rightarrow> (u32 \<Rightarrow> 't \<Rightarrow> 't option) \<Rightarrow> handle_op list \<Rightarrow> 't \<Rightarrow> 't \<Rightarrow> bool" where
  "performs add remove [] t t' \<longleftrightarrow> t' = t"
| "performs add remove (AddOp p h # ops) t t' \<longleftrightarrow>
     (case add p t of Some (h1, t1) \<Rightarrow> h1 = h \<and> performs add remove ops t1 t' | None \<Rightarrow> False)"
| "performs add remove (RemoveOp h # ops) t t' \<longleftrightarrow>
     (case remove h t of Some t1 \<Rightarrow> performs add remove ops t1 t' | None \<Rightarrow> False)"

context handle_space
begin

lemma history:
  "inv t \<Longrightarrow> performs add remove ops t t' \<Longrightarrow>
     inv t' \<and> find t' = replay ops (find t) \<and> fresh_handles ops (find t)"
proof (induction ops arbitrary: t)
  case (Cons op ops)
  show ?case
  proof (cases op)
    case (AddOp p h)
    then obtain t1 where t1: "add p t = Some (h, t1)" "performs add remove ops t1 t'"
      using Cons.prems by (auto split: option.splits)
    then show ?thesis
      using Cons.IH [of t1] Cons.prems(1) AddOp add_inv [of t p h t1] add_find [of t p h t1] add_fresh [of t p h t1]
      by (simp del: fun_upd_apply)
  next
    case (RemoveOp h)
    then obtain t1 where t1: "remove h t = Some t1" "performs add remove ops t1 t'"
      using Cons.prems by (auto split: option.splits)
    then show ?thesis
      using Cons.IH [of t1] Cons.prems(1) RemoveOp remove_inv [of t h t1] remove_find [of t h t1]
      by (simp del: fun_upd_apply)
  qed
qed simp

end

text \<open>The table with the reference counts; an operation that reports an error is not a step.\<close>

definition table_inv :: "KHandleTable \<times> AutoObjects \<Rightarrow> bool" where
  "table_inv s \<longleftrightarrow> (\<exists>fl rsv. table_ok (fst s) fl rsv)"

definition table_add ::
    "u64 \<Rightarrow> KHandleTable \<times> AutoObjects \<Rightarrow> (u32 \<times> KHandleTable \<times> AutoObjects) option" where
  "table_add p s =
     (case KHandleTable_Add p (fst s) (snd s) of
        Some (ResultSuccess, Some h, t', heap') \<Rightarrow> Some (h, t', heap')
      | _ \<Rightarrow> None)"

definition table_remove ::
    "u32 \<Rightarrow> KHandleTable \<times> AutoObjects \<Rightarrow> (KHandleTable \<times> AutoObjects) option" where
  "table_remove h s =
     (case KHandleTable_Remove h (fst s) (snd s) of
        Some (True, t', heap') \<Rightarrow> Some (t', heap')
      | _ \<Rightarrow> None)"

definition table_find :: "KHandleTable \<times> AutoObjects \<Rightarrow> u32 \<Rightarrow> u64 option" where
  "table_find s h = (case GetObjectImpl h (fst s) of Some r \<Rightarrow> r | None \<Rightarrow> None)"

lemma table_find_lookup: "table_inv s \<Longrightarrow> table_find s = lookup (fst s)"
  using GetObjectImpl_lookup by (auto simp: table_find_def table_inv_def fun_eq_iff)

lemma table_addE:
  assumes "table_inv s" "table_add p s = Some (h, s')"
  shows "table_inv s' \<and> lookup (fst s') = (lookup (fst s))(h := Some p) \<and> lookup (fst s) h = None"
proof -
  obtain fl rsv where ok: "table_ok (fst s) fl rsv"
    using assms(1) by (auto simp: table_inv_def)
  obtain i fl' where fl: "fl = i # fl'"
    using assms(2) Add_full ok by (cases fl) (auto simp: table_add_def)
  have ref: "m_ref_count (snd s) p + 1 \<noteq> 0"
  proof
    assume "m_ref_count (snd s) p + 1 = 0"
    then have "KAutoObject_Open p (snd s) = None"
      by (auto simp: KAutoObject_Open_def Let_def)
    then have "KHandleTable_Add p (fst s) (snd s) = None \<or>
        fst (the (KHandleTable_Add p (fst s) (snd s))) = ResultOutOfHandles"
      by (simp add: KHandleTable_Add_def Let_def split: prod.splits bind_splits)
    then show False
      using assms(2) by (auto simp: table_add_def split: option.splits Result.splits)
  qed
  obtain g t' where "KHandleTable_Add p (fst s) (snd s) = Some (ResultSuccess, Some g, t', opened p (snd s))"
    "table_ok t' fl' rsv" "lookup t' = (lookup (fst s))(g := Some p)" "lookup (fst s) g = None"
    using Add_ok [OF ok [unfolded fl] ref] by metis
  then show ?thesis
    using assms(2) by (simp add: table_add_def table_inv_def) (metis fst_conv)
qed

lemma Remove_invalid:
  assumes "table_ok t fl rsv" "lookup t h = None"
  shows "KHandleTable_Remove h t heap = Some (False, t, heap)"
  using assms HandlePack_zero
  by (auto simp: KHandleTable_Remove_def IsValidHandle_def lookup_def Let_def table_ok_def ucast_u16_u32_less
      split: option.splits if_splits)

lemma table_removeE:
  assumes "table_inv s" "table_remove h s = Some s'"
  shows "table_inv s' \<and> lookup (fst s') = (lookup (fst s))(h := None)"
proof -
  obtain fl rsv where ok: "table_ok (fst s) fl rsv"
    using assms(1) by (auto simp: table_inv_def)
  obtain p where p: "lookup (fst s) h = Some p"
    using Remove_invalid [OF ok] assms(2) by (cases "lookup (fst s) h") (auto simp: table_remove_def)
  have lk: "m_objects (fst s) ! unat (HandlePack_index h) = Some p"
    using p by (auto simp: lookup_def Let_def split: if_splits)
  have "0 < m_ref_count (snd s) p"
  proof (rule ccontr)
    assume "\<not> 0 < m_ref_count (snd s) p"
    then have "KAutoObject_Close p (UnregisterInUseObject p (snd s)) = None"
      by (simp add: KAutoObject_Close_def UnregisterInUseObject_def Let_def)
    then have "KHandleTable_Remove h (fst s) (snd s) = None \<or>
        \<not> fst (the (KHandleTable_Remove h (fst s) (snd s)))"
      using lk by (auto simp: KHandleTable_Remove_def Let_def array_get_def split: bind_splits)
    then show False
      using assms(2) by (auto simp: table_remove_def split: option.splits bool.splits)
  qed
  from Remove_ok [OF ok p this] obtain t' i where
    "KHandleTable_Remove h (fst s) (snd s) = Some (True, t', closed_ref p (snd s))"
    "table_ok t' (i # fl) rsv" "lookup t' = (lookup (fst s))(h := None)" by metis
  then show ?thesis
    using assms(2) by (simp add: table_remove_def table_inv_def) (metis fst_conv)
qed

interpretation handles: handle_space table_inv table_find table_add table_remove
proof (unfold_locales, goal_cases)
  case (1 t p h t')
  then show ?case using table_addE by blast
next
  case (2 t p h t')
  then show ?case using table_addE [of t p h t'] by (simp add: table_find_lookup)
next
  case (3 t p h t')
  then show ?case using table_addE [of t p h t'] by (simp add: table_find_lookup)
next
  case (4 t h t')
  then show ?case using table_removeE by blast
next
  case (5 t h t')
  then show ?case using table_removeE [of t h t'] by (simp add: table_find_lookup)
qed

section \<open>Properties\<close>

text \<open>
  C9. Every history of additions and removals on a handle table acts as on a finite map: the
  lookups afterwards are those of the replayed history, and every handle an addition returns was
  invalid at that moment, so two live handles never coincide.
\<close>

theorem handle_table_refines_map:
  assumes "table_ok t fl rsv" "performs table_add table_remove ops (t, heap) (t', heap')"
  shows "(\<forall>h. GetObjectImpl h t' =
      Some (replay ops (\<lambda>g. case GetObjectImpl g t of Some r \<Rightarrow> r | None \<Rightarrow> None) h)) \<and>
    fresh_handles ops (\<lambda>g. case GetObjectImpl g t of Some r \<Rightarrow> r | None \<Rightarrow> None)"
proof -
  have i: "table_inv (t, heap)"
    using assms(1) by (auto simp: table_inv_def)
  note hist = handles.history [OF i assms(2)]
  have "(\<lambda>g. case GetObjectImpl g t of Some r \<Rightarrow> r | None \<Rightarrow> None) = table_find (t, heap)"
    by (simp add: table_find_def fun_eq_iff)
  moreover have "GetObjectImpl h t' = Some (table_find (t', heap') h)" for h
  proof -
    obtain fl' rsv' where "table_ok t' fl' rsv'"
      using hist by (auto simp: table_inv_def)
    then show ?thesis
      using GetObjectImpl_lookup by (simp add: table_find_def)
  qed
  ultimately show ?thesis
    using hist by simp
qed

definition sample_table :: KHandleTable where
  "sample_table = snd (the (KHandleTable_Initialize 4 KHandleTable_ctor))"

definition sample_heap :: AutoObjects where
  "sample_heap = \<lparr>m_ref_count = (\<lambda>_. 1), in_use_objects = {}, destroyed = []\<rparr>"

lemma sample_table_ok: "\<exists>fl. table_ok sample_table fl [] \<and> fl \<noteq> []"
proof -
  obtain t' fl where "KHandleTable_Initialize 4 KHandleTable_ctor = Some (ResultSuccess, t')" "table_ok t' fl []"
    "m_count t' = 0" "int (unat (m_table_size t')) = 4"
    by (rule Initialize_ok [of KHandleTable_ctor 4]) (simp_all add: KHandleTable_ctor_def MaxTableSize_def)
  moreover from this(4) have "unat (m_table_size t') = 4"
    by linarith
  then have "fl \<noteq> []"
    using calculation(2,3) by (auto simp: table_ok_def)
  ultimately show ?thesis
    by (auto simp: sample_table_def)
qed

lemma sample_add_handle:
  "map_option (\<lambda>(h, t, hp). h) (table_add 0x1000 (sample_table, sample_heap)) = Some 0x8003"
  by code_simp

theorem handle_table_refines_map_witness:
  "\<exists>t' heap'. performs table_add table_remove [AddOp 0x1000 0x8003] (sample_table, sample_heap) (t', heap') \<and>
    (\<forall>h. GetObjectImpl h t' =
      Some (replay [AddOp 0x1000 0x8003]
        (\<lambda>g. case GetObjectImpl g sample_table of Some r \<Rightarrow> r | None \<Rightarrow> None) h)) \<and>
    fresh_handles [AddOp 0x1000 0x8003]
      (\<lambda>g. case GetObjectImpl g sample_table of Some r \<Rightarrow> r | None \<Rightarrow> None)"
proof -
  obtain fl where ok: "table_ok sample_table fl []"
    using sample_table_ok by blast
  obtain t' heap' where "table_add 0x1000 (sample_table, sample_heap) = Some (0x8003, t', heap')"
    using sample_add_handle by auto
  then have "performs table_add table_remove [AddOp 0x1000 0x8003] (sample_table, sample_heap) (t', heap')"
    by simp
  then show ?thesis
    using handle_table_refines_map [OF ok] by blast
qed

text \<open>
  C10. Add on a table that is not full returns a handle that finds the object, opens one
  reference to it and keeps the table consistent; on a full table it reports
  \<open>ResultOutOfHandles\<close> and changes nothing.
\<close>

theorem KHandleTable_Add_correct:
  assumes "table_ok t fl rsv" "m_ref_count heap p + 1 \<noteq> 0"
  shows "case fl of
      [] \<Rightarrow> KHandleTable_Add p t heap = Some (ResultOutOfHandles, None, t, heap)
    | i # fl' \<Rightarrow> (\<exists>h t'. KHandleTable_Add p t heap = Some (ResultSuccess, Some h, t', opened p heap) \<and>
        table_ok t' fl' rsv \<and> GetObjectImpl h t = Some None \<and> GetObjectImpl h t' = Some (Some p) \<and>
        (\<forall>g. g \<noteq> h \<longrightarrow> GetObjectImpl g t' = GetObjectImpl g t))"
proof (cases fl)
  case Nil
  then show ?thesis
    using Add_full assms(1) by simp
next
  case (Cons i fl')
  obtain h t' where h: "KHandleTable_Add p t heap = Some (ResultSuccess, Some h, t', opened p heap)"
    "table_ok t' fl' rsv" "lookup t' = (lookup t)(h := Some p)" "lookup t h = None"
    using Add_ok [OF assms(1) [unfolded Cons] assms(2)] by metis
  then show ?thesis
    using Cons GetObjectImpl_lookup [OF assms(1)] GetObjectImpl_lookup [OF h(2)]
    by (intro exI [of _ h] exI [of _ t'] | simp)+
qed

theorem KHandleTable_Add_correct_witness:
  "\<exists>fl. (case fl of
      [] \<Rightarrow> KHandleTable_Add 0x1000 sample_table sample_heap =
        Some (ResultOutOfHandles, None, sample_table, sample_heap)
    | i # fl' \<Rightarrow> (\<exists>h t'. KHandleTable_Add 0x1000 sample_table sample_heap =
        Some (ResultSuccess, Some h, t', opened 0x1000 sample_heap) \<and>
        table_ok t' fl' [] \<and> GetObjectImpl h sample_table = Some None \<and> GetObjectImpl h t' = Some (Some 0x1000) \<and>
        (\<forall>g. g \<noteq> h \<longrightarrow> GetObjectImpl g t' = GetObjectImpl g sample_table)))"
proof -
  obtain fl where "table_ok sample_table fl []"
    using sample_table_ok by blast
  moreover have "m_ref_count sample_heap 0x1000 + 1 \<noteq> 0"
    by (simp add: sample_heap_def)
  ultimately show ?thesis
    using KHandleTable_Add_correct by blast
qed



end
