(* ===== verification/MacroInterpreter.thy ===== *)
theory MacroInterpreter
  imports Prelude
begin

text \<open>
  The GPU macro interpreter (\<^verbatim>\<open>video_core/macro/macro.h\<close>,
  \<^verbatim>\<open>video_core/macro/macro_interpreter.cpp\<close>): a machine with eight registers, a carry flag, branch delay
  slots and a parameter queue. The 3D engine it drives is seen through its two entry points: the calls of
  \<^verbatim>\<open>CallMethod\<close> are recorded in order (newest first), and \<^verbatim>\<open>GetRegisterValue\<close> is the parameter
  \<open>engine_read\<close>, a function of those calls and the register number. Undefined behaviour (shifts by 32 or
  more, an access past the code or the parameters) and \<^verbatim>\<open>UNIMPLEMENTED\<close> are faults.
\<close>

section \<open>Encoding\<close>

definition NUM_MACRO_REGISTERS :: nat where "NUM_MACRO_REGISTERS = 8"

definition field :: "nat \<Rightarrow> nat \<Rightarrow> u32 \<Rightarrow> u32" where
  "field position bits raw = take_bit bits (drop_bit position raw)"

definition op_operation :: "u32 \<Rightarrow> nat" where "op_operation raw = unat (field 0 3 raw)"
definition op_result_operation :: "u32 \<Rightarrow> nat" where "op_result_operation raw = unat (field 4 3 raw)"
definition op_branch_condition :: "u32 \<Rightarrow> nat" where "op_branch_condition raw = unat (field 4 1 raw)"
definition op_branch_annul :: "u32 \<Rightarrow> bool" where "op_branch_annul raw \<longleftrightarrow> field 5 1 raw \<noteq> 0"
definition op_is_exit :: "u32 \<Rightarrow> bool" where "op_is_exit raw \<longleftrightarrow> field 7 1 raw \<noteq> 0"
definition op_dst :: "u32 \<Rightarrow> nat" where "op_dst raw = unat (field 8 3 raw)"
definition op_src_a :: "u32 \<Rightarrow> nat" where "op_src_a raw = unat (field 11 3 raw)"
definition op_src_b :: "u32 \<Rightarrow> nat" where "op_src_b raw = unat (field 14 3 raw)"
definition op_immediate :: "u32 \<Rightarrow> u32" where "op_immediate raw = signed_drop_bit 14 raw"
definition op_alu_operation :: "u32 \<Rightarrow> nat" where "op_alu_operation raw = unat (field 17 5 raw)"
definition op_bf_src_bit :: "u32 \<Rightarrow> nat" where "op_bf_src_bit raw = unat (field 17 5 raw)"
definition op_bf_size :: "u32 \<Rightarrow> nat" where "op_bf_size raw = unat (field 22 5 raw)"
definition op_bf_dst_bit :: "u32 \<Rightarrow> nat" where "op_bf_dst_bit raw = unat (field 27 5 raw)"

definition GetBitfieldMask :: "u32 \<Rightarrow> u32" where
  "GetBitfieldMask raw = push_bit (op_bf_size raw) 1 - 1"

definition GetBranchTarget :: "u32 \<Rightarrow> u32" where
  "GetBranchTarget raw = op_immediate raw * 4"

section \<open>State\<close>

record MacroInterpreterImpl =
  pc :: u32
  delayed_pc :: "u32 option"
  registers :: "u32 list"
  method_address :: u32
  parameters :: "u32 list"
  next_parameter_index :: nat
  carry_flag :: bool
  engine_calls :: "(u32 \<times> u32) list"

definition Reset :: "MacroInterpreterImpl \<Rightarrow> MacroInterpreterImpl" where
  "Reset s =
     s\<lparr>registers := replicate NUM_MACRO_REGISTERS 0, pc := 0, delayed_pc := None, method_address := 0,
       parameters := [], next_parameter_index := 1, carry_flag := False\<rparr>"

definition GetOpcode :: "u32 list \<Rightarrow> MacroInterpreterImpl \<Rightarrow> u32 option" where
  "GetOpcode code s =
     do {
       ASSERT (unat (pc s) mod 4 = 0);
       ASSERT (unat (pc s) < length code * 4);
       array_get code (unat (pc s) div 4)
     }"

definition GetRegister :: "nat \<Rightarrow> MacroInterpreterImpl \<Rightarrow> u32 option" where
  "GetRegister register_id s = array_get (registers s) register_id"

definition SetRegister :: "nat \<Rightarrow> u32 \<Rightarrow> MacroInterpreterImpl \<Rightarrow> MacroInterpreterImpl option" where
  "SetRegister register_id value s =
     (if register_id = 0 then Some s
      else
        do {
          rs \<leftarrow> array_set (registers s) register_id value;
          Some (s\<lparr>registers := rs\<rparr>)
        })"

definition SetMethodAddress :: "u32 \<Rightarrow> MacroInterpreterImpl \<Rightarrow> MacroInterpreterImpl" where
  "SetMethodAddress address s = s\<lparr>method_address := address\<rparr>"

text \<open>The method address is a 12-bit address and a 6-bit increment.\<close>

definition Send :: "u32 \<Rightarrow> MacroInterpreterImpl \<Rightarrow> MacroInterpreterImpl" where
  "Send value s =
     (let raw = method_address s;
          addr = field 0 12 raw;
          incr = field 12 6 raw
      in s\<lparr>engine_calls := (addr, value) # engine_calls s,
           method_address := (raw AND NOT (mask 12)) OR take_bit 12 (addr + incr)\<rparr>)"

definition FetchParameter :: "MacroInterpreterImpl \<Rightarrow> (u32 \<times> MacroInterpreterImpl) option" where
  "FetchParameter s =
     do {
       ASSERT (next_parameter_index s < length (parameters s));
       v \<leftarrow> array_get (parameters s) (next_parameter_index s);
       Some (v, s\<lparr>next_parameter_index := next_parameter_index s + 1\<rparr>)
     }"

section \<open>Instructions\<close>

definition GetALUResult ::
    "nat \<Rightarrow> u32 \<Rightarrow> u32 \<Rightarrow> MacroInterpreterImpl \<Rightarrow> (u32 \<times> MacroInterpreterImpl) option" where
  "GetALUResult operation src_a src_b s =
     (if operation = 0 then
        let result = (ucast src_a :: u64) + ucast src_b
        in Some (ucast result, s\<lparr>carry_flag := result > 0xffffffff\<rparr>)
      else if operation = 1 then
        let result = (ucast src_a :: u64) + ucast src_b + (if carry_flag s then 1 else 0)
        in Some (ucast result, s\<lparr>carry_flag := result > 0xffffffff\<rparr>)
      else if operation = 2 then
        let result = (ucast src_a :: u64) - ucast src_b
        in Some (ucast result, s\<lparr>carry_flag := result < 0x100000000\<rparr>)
      else if operation = 3 then
        let result = (ucast src_a :: u64) - ucast src_b - (if carry_flag s then 0 else 1)
        in Some (ucast result, s\<lparr>carry_flag := result < 0x100000000\<rparr>)
      else if operation = 8 then Some (src_a XOR src_b, s)
      else if operation = 9 then Some (src_a OR src_b, s)
      else if operation = 10 then Some (src_a AND src_b, s)
      else if operation = 11 then Some (src_a AND NOT src_b, s)
      else if operation = 12 then Some (NOT (src_a AND src_b), s)
      else None)"

definition ProcessResult ::
    "nat \<Rightarrow> nat \<Rightarrow> u32 \<Rightarrow> MacroInterpreterImpl \<Rightarrow> MacroInterpreterImpl option" where
  "ProcessResult operation reg result s =
     (if operation = 0 then
        do {
          (v, s1) \<leftarrow> FetchParameter s;
          SetRegister reg v s1
        }
      else if operation = 1 then SetRegister reg result s
      else if operation = 2 then
        do {
          s1 \<leftarrow> SetRegister reg result s;
          Some (SetMethodAddress result s1)
        }
      else if operation = 3 then
        do {
          (v, s1) \<leftarrow> FetchParameter s;
          s2 \<leftarrow> SetRegister reg v s1;
          Some (Send result s2)
        }
      else if operation = 4 then
        do {
          s1 \<leftarrow> SetRegister reg result s;
          Some (Send result s1)
        }
      else if operation = 5 then
        do {
          (v, s1) \<leftarrow> FetchParameter s;
          s2 \<leftarrow> SetRegister reg v s1;
          Some (SetMethodAddress result s2)
        }
      else if operation = 6 then
        do {
          s1 \<leftarrow> SetRegister reg result s;
          let s2 = SetMethodAddress result s1;
          (v, s3) \<leftarrow> FetchParameter s2;
          Some (Send v s3)
        }
      else if operation = 7 then
        do {
          s1 \<leftarrow> SetRegister reg result s;
          Some (Send (drop_bit 12 result AND 0x3F) (SetMethodAddress result s1))
        }
      else None)"

definition EvaluateBranchCondition :: "nat \<Rightarrow> u32 \<Rightarrow> bool option" where
  "EvaluateBranchCondition cond value =
     (if cond = 0 then Some (value = 0) else if cond = 1 then Some (value \<noteq> 0) else None)"

text \<open>A shift by a register value: undefined from 32 on.\<close>

definition shift_amount :: "u32 \<Rightarrow> nat option" where
  "shift_amount v = (if unat v < 32 then Some (unat v) else None)"

text \<open>The part of \<open>Step\<close> inside the switch for every operation but the branch.\<close>

definition execute_operation ::
    "((u32 \<times> u32) list \<Rightarrow> u32 \<Rightarrow> u32) \<Rightarrow> u32 \<Rightarrow> MacroInterpreterImpl \<Rightarrow> MacroInterpreterImpl option" where
  "execute_operation engine_read opcode s =
     (if op_operation opcode = 0 then
        do {
          a \<leftarrow> GetRegister (op_src_a opcode) s;
          b \<leftarrow> GetRegister (op_src_b opcode) s;
          (result, s1) \<leftarrow> GetALUResult (op_alu_operation opcode) a b s;
          ProcessResult (op_result_operation opcode) (op_dst opcode) result s1
        }
      else if op_operation opcode = 1 then
        do {
          a \<leftarrow> GetRegister (op_src_a opcode) s;
          ProcessResult (op_result_operation opcode) (op_dst opcode) (a + op_immediate opcode) s
        }
      else if op_operation opcode = 2 then
        do {
          dst \<leftarrow> GetRegister (op_src_a opcode) s;
          src \<leftarrow> GetRegister (op_src_b opcode) s;
          let src1 = drop_bit (op_bf_src_bit opcode) src AND GetBitfieldMask opcode;
          let dst1 = dst AND NOT (push_bit (op_bf_dst_bit opcode) (GetBitfieldMask opcode));
          let dst2 = dst1 OR push_bit (op_bf_dst_bit opcode) src1;
          ProcessResult (op_result_operation opcode) (op_dst opcode) dst2 s
        }
      else if op_operation opcode = 3 then
        do {
          dst \<leftarrow> GetRegister (op_src_a opcode) s;
          src \<leftarrow> GetRegister (op_src_b opcode) s;
          n \<leftarrow> shift_amount dst;
          ProcessResult (op_result_operation opcode) (op_dst opcode)
            (push_bit (op_bf_dst_bit opcode) (drop_bit n src AND GetBitfieldMask opcode)) s
        }
      else if op_operation opcode = 4 then
        do {
          dst \<leftarrow> GetRegister (op_src_a opcode) s;
          src \<leftarrow> GetRegister (op_src_b opcode) s;
          n \<leftarrow> shift_amount dst;
          ProcessResult (op_result_operation opcode) (op_dst opcode)
            (push_bit n (drop_bit (op_bf_src_bit opcode) src AND GetBitfieldMask opcode)) s
        }
      else if op_operation opcode = 5 then
        do {
          a \<leftarrow> GetRegister (op_src_a opcode) s;
          ProcessResult (op_result_operation opcode) (op_dst opcode)
            (engine_read (engine_calls s) (a + op_immediate opcode)) s
        }
      else None)"

text \<open>
  \<open>Step\<close>. The instruction in a delay slot is the recursive call \<^verbatim>\<open>Step(true)\<close>: there a branch is a fault and
  the exit flag is ignored, so it never recurs again and \<open>step_delay_slot\<close> is that call.
\<close>

definition fetch :: "u32 list \<Rightarrow> bool \<Rightarrow> MacroInterpreterImpl \<Rightarrow> (u32 \<times> MacroInterpreterImpl) option" where
  "fetch code is_delay_slot s =
     do {
       opcode \<leftarrow> GetOpcode code s;
       case delayed_pc s of
         None \<Rightarrow> Some (opcode, s\<lparr>pc := pc s + 4\<rparr>)
       | Some target \<Rightarrow>
           do {
             ASSERT is_delay_slot;
             Some (opcode, s\<lparr>pc := target, delayed_pc := None\<rparr>)
           }
     }"

definition step_delay_slot ::
    "((u32 \<times> u32) list \<Rightarrow> u32 \<Rightarrow> u32) \<Rightarrow> u32 list \<Rightarrow> MacroInterpreterImpl \<Rightarrow> MacroInterpreterImpl option" where
  "step_delay_slot engine_read code s =
     do {
       (opcode, s1) \<leftarrow> fetch code True s;
       if op_operation opcode = 7 then None else execute_operation engine_read opcode s1
     }"

text \<open>The boolean says whether to keep executing.\<close>

definition Step ::
    "((u32 \<times> u32) list \<Rightarrow> u32 \<Rightarrow> u32) \<Rightarrow> u32 list \<Rightarrow> MacroInterpreterImpl \<Rightarrow>
     (bool \<times> MacroInterpreterImpl) option" where
  "Step engine_read code s =
     do {
       let base_address = pc s;
       (opcode, s1) \<leftarrow> fetch code False s;
       if op_operation opcode = 7 then
         do {
           value \<leftarrow> GetRegister (op_src_a opcode) s1;
           taken \<leftarrow> EvaluateBranchCondition (op_branch_condition opcode) value;
           if taken then
             if op_branch_annul opcode then
               Some (True, s1\<lparr>pc := base_address + GetBranchTarget opcode\<rparr>)
             else
               do {
                 s2 \<leftarrow> step_delay_slot engine_read code
                        (s1\<lparr>delayed_pc := Some (base_address + GetBranchTarget opcode)\<rparr>);
                 Some (True, s2)
               }
           else if op_is_exit opcode then
             do {
               s2 \<leftarrow> step_delay_slot engine_read code s1;
               Some (False, s2)
             }
           else Some (True, s1)
         }
       else
         do {
           s2 \<leftarrow> execute_operation engine_read opcode s1;
           if op_is_exit opcode then
             do {
               s3 \<leftarrow> step_delay_slot engine_read code s2;
               Some (False, s3)
             }
           else Some (True, s2)
         }
     }"

text \<open>The loop of \<open>Execute\<close> with fuel; \<open>Inl\<close> is a run that has not finished.\<close>

fun run ::
    "nat \<Rightarrow> ((u32 \<times> u32) list \<Rightarrow> u32 \<Rightarrow> u32) \<Rightarrow> u32 list \<Rightarrow> MacroInterpreterImpl \<Rightarrow>
     (MacroInterpreterImpl + MacroInterpreterImpl) option" where
  "run 0 engine_read code s = Some (Inl s)"
| "run (Suc n) engine_read code s =
     do {
       (keep_executing, s1) \<leftarrow> Step engine_read code s;
       if keep_executing then run n engine_read code s1 else Some (Inr s1)
     }"

definition macro_start :: "u32 list \<Rightarrow> MacroInterpreterImpl \<Rightarrow> MacroInterpreterImpl option" where
  "macro_start params s =
     do {
       p0 \<leftarrow> array_get params 0;
       rs \<leftarrow> array_set (registers (Reset s)) 1 p0;
       Some ((Reset s)\<lparr>registers := rs, parameters := params\<rparr>)
     }"

definition Execute ::
    "nat \<Rightarrow> ((u32 \<times> u32) list \<Rightarrow> u32 \<Rightarrow> u32) \<Rightarrow> u32 list \<Rightarrow> u32 list \<Rightarrow> MacroInterpreterImpl \<Rightarrow>
     (MacroInterpreterImpl + MacroInterpreterImpl) option" where
  "Execute fuel engine_read code params s =
     do {
       s1 \<leftarrow> macro_start params s;
       r \<leftarrow> run fuel engine_read code s1;
       case r of
         Inl s2 \<Rightarrow> Some (Inl s2)
       | Inr s2 \<Rightarrow>
           do {
             ASSERT (next_parameter_index s2 = length (parameters s2));
             Some (Inr s2)
           }
     }"

section \<open>Invariant\<close>

text \<open>The zero register holds zero, the registers are eight, and the parameter index is in range.\<close>

definition regs_ok :: "MacroInterpreterImpl \<Rightarrow> bool" where
  "regs_ok s \<longleftrightarrow> length (registers s) = NUM_MACRO_REGISTERS \<and> registers s ! 0 = 0 \<and>
     next_parameter_index s \<le> length (parameters s)"

text \<open>What executing one operation leaves alone.\<close>

definition same_control :: "MacroInterpreterImpl \<Rightarrow> MacroInterpreterImpl \<Rightarrow> bool" where
  "same_control s s' \<longleftrightarrow> pc s' = pc s \<and> delayed_pc s' = delayed_pc s \<and> parameters s' = parameters s \<and>
     next_parameter_index s \<le> next_parameter_index s' \<and>
     (\<exists>new. engine_calls s' = new @ engine_calls s)"

lemma same_control_refl [simp]: "same_control s s"
  by (simp add: same_control_def)

lemma same_control_trans: "same_control s t \<Longrightarrow> same_control t u \<Longrightarrow> same_control s u"
  by (auto simp: same_control_def)

definition keeps :: "MacroInterpreterImpl \<Rightarrow> MacroInterpreterImpl \<Rightarrow> bool" where
  "keeps s s' \<longleftrightarrow> (regs_ok s \<longrightarrow> regs_ok s') \<and> same_control s s'"

lemma keeps_refl [simp]: "keeps s s"
  by (simp add: keeps_def)

lemma keeps_trans: "keeps s t \<Longrightarrow> keeps t u \<Longrightarrow> keeps s u"
  using same_control_trans by (auto simp: keeps_def)

named_theorems keeps_intros

lemma SetRegister_keeps [keeps_intros]: "SetRegister r v s = Some s' \<Longrightarrow> keeps s s'"
  by (auto simp: SetRegister_def keeps_def regs_ok_def same_control_def array_set_eq_Some bind_eq_Some_conv
      split: if_splits)

lemma FetchParameter_keeps [keeps_intros]: "FetchParameter s = Some (v, s') \<Longrightarrow> keeps s s'"
  by (auto simp: FetchParameter_def keeps_def regs_ok_def same_control_def bind_eq_Some_conv)

lemma Send_keeps [keeps_intros]: "keeps s (Send v s)"
  by (simp add: Send_def keeps_def regs_ok_def same_control_def Let_def)

lemma SetMethodAddress_keeps [keeps_intros]: "keeps s (SetMethodAddress v s)"
  by (simp add: SetMethodAddress_def keeps_def regs_ok_def same_control_def)

lemma GetALUResult_keeps [keeps_intros]: "GetALUResult f a b s = Some (v, s') \<Longrightarrow> keeps s s'"
  by (auto simp: GetALUResult_def keeps_def regs_ok_def same_control_def Let_def split: if_splits)

lemma ProcessResult_keeps [keeps_intros]: "ProcessResult f r v s = Some s' \<Longrightarrow> keeps s s'"
  unfolding ProcessResult_def
  by (auto simp: bind_eq_Some_conv Let_def split: if_splits)
    (meson keeps_intros keeps_trans)+

lemma execute_operation_keeps: "execute_operation er opc s = Some s' \<Longrightarrow> keeps s s'"
  unfolding execute_operation_def
  by (auto simp: bind_eq_Some_conv Let_def split: if_splits intro: ProcessResult_keeps)
    (meson keeps_intros keeps_trans)+

definition macro_ok :: "MacroInterpreterImpl \<Rightarrow> bool" where
  "macro_ok s \<longleftrightarrow> regs_ok s \<and> delayed_pc s = None \<and> 4 dvd unat (pc s)"

lemma dvd4_add: "4 dvd unat (x :: u32) \<Longrightarrow> 4 dvd unat y \<Longrightarrow> 4 dvd unat (x + y)"
  by (simp add: unat_word_ariths dvd_mod)


lemma fetch_ok:
  assumes "fetch code d s = Some (opc, s1)" "regs_ok s" "4 dvd unat (pc s)"
    "\<forall>t. delayed_pc s = Some t \<longrightarrow> 4 dvd unat t"
  shows "regs_ok s1 \<and> delayed_pc s1 = None \<and> 4 dvd unat (pc s1) \<and> parameters s1 = parameters s \<and>
    engine_calls s1 = engine_calls s \<and> next_parameter_index s1 = next_parameter_index s"
  using assms dvd4_add [of "pc s" 4]
  by (cases "delayed_pc s") (auto simp: fetch_def regs_ok_def bind_eq_Some_conv)

lemma macro_ok_keeps: "keeps s s' \<Longrightarrow> macro_ok s \<Longrightarrow> macro_ok s'"
  by (auto simp: macro_ok_def keeps_def same_control_def)

lemma step_delay_slot_ok:
  assumes "step_delay_slot er code s = Some s'" "regs_ok s" "4 dvd unat (pc s)"
    "\<forall>t. delayed_pc s = Some t \<longrightarrow> 4 dvd unat t"
  shows "macro_ok s' \<and> parameters s' = parameters s \<and> next_parameter_index s \<le> next_parameter_index s' \<and>
    (\<exists>new. engine_calls s' = new @ engine_calls s)"
proof -
  obtain opc s1 where f: "fetch code True s = Some (opc, s1)" "execute_operation er opc s1 = Some s'"
    using assms(1) by (auto simp: step_delay_slot_def bind_eq_Some_conv split: if_splits)
  have k: "keeps s1 s'"
    using execute_operation_keeps f(2) .
  moreover have "macro_ok s1"
    using fetch_ok [OF f(1) assms(2-4)] by (simp add: macro_ok_def)
  ultimately show ?thesis
    using macro_ok_keeps [OF k] fetch_ok [OF f(1) assms(2-4)] by (auto simp: keeps_def same_control_def)
qed


section \<open>Arithmetic\<close>

declare unat_ucast_32_64 [simp]

lemma unat_ucast_64_32: "unat (ucast (x :: u64) :: u32) = unat x mod 2 ^ 32"
  by (simp add: unsigned_ucast_eq take_bit_eq_mod)

lemma u32_bound: "unat (x :: u32) < 2 ^ 32"
  using unsigned_less [of x, where 'a = nat] by simp

text \<open>The two additions and the two subtractions on natural numbers: result and carry.\<close>

lemma ALU_add:
  assumes "GetALUResult f a b s = Some (r, s')" "f = 0 \<and> c = 0 \<or> f = 1 \<and> c = (if carry_flag s then 1 else 0)"
  shows "unat r = (unat a + unat b + c) mod 2 ^ 32" "carry_flag s' \<longleftrightarrow> 2 ^ 32 \<le> unat a + unat b + c"
proof -
  let ?r = "(ucast a :: u64) + ucast b + of_nat c"
  have c: "c \<le> 1" "unat (of_nat c :: u64) = c"
    using assms(2) by auto
  have u: "unat ?r = unat a + unat b + c"
    using c u32_bound [of a] u32_bound [of b] by (simp add: unat_plus_no_wrap)
  have "r = ucast ?r" "carry_flag s' \<longleftrightarrow> 0xffffffff < ?r"
    using assms by (auto simp: GetALUResult_def Let_def)
  then show "unat r = (unat a + unat b + c) mod 2 ^ 32" "carry_flag s' \<longleftrightarrow> 2 ^ 32 \<le> unat a + unat b + c"
    using u by (simp_all add: unat_ucast_64_32 word_less_nat_alt del: unat_of_nat) linarith
qed

lemma u32_diff_bounds:
  fixes a b :: u32
  assumes "c \<le> 1"
  shows "- (2 ^ 32) \<le> int (unat a) - int (unat b) - int c" "int (unat a) - int (unat b) - int c < 2 ^ 32"
proof -
  have "unat a < 4294967296" "unat b < 4294967296"
    using u32_bound [of a] u32_bound [of b] by simp_all
  then have "- 4294967296 \<le> int (unat a) - int (unat b) - int c \<and> int (unat a) - int (unat b) - int c < 4294967296"
    using assms by linarith
  then show "- (2 ^ 32) \<le> int (unat a) - int (unat b) - int c" "int (unat a) - int (unat b) - int c < 2 ^ 32"
    by (simp_all del: of_nat_unat)
qed

lemma u64_diff:
  fixes a b :: u32
  assumes "c \<le> 1"
  defines "D \<equiv> int (unat a) - int (unat b) - int c"
  shows "int (unat ((ucast a :: u64) - ucast b - of_nat c)) = (if 0 \<le> D then D else D + 2 ^ 64)"
proof -
  have b: "- (2 ^ 32) \<le> D" "D < 2 ^ 32"
    using u32_diff_bounds [OF assms(1)] unfolding D_def .
  have "unat (of_nat c :: u64) = c"
    using assms(1) by (auto simp: le_Suc_eq)
  then have c: "uint (of_nat c :: u64) = int c"
    by (metis of_nat_unat)
  have ab: "uint (ucast a :: u64) = int (unat a)" "uint (ucast b :: u64) = int (unat b)"
    by (metis of_nat_unat unat_ucast_32_64)+
  have "uint ((ucast a :: u64) - ucast b - of_nat c) = D mod 2 ^ 64"
    by (simp only: uint_word_ariths ab c D_def mod_diff_left_eq) simp
  moreover have "D mod 2 ^ 64 = (if 0 \<le> D then D else D + 2 ^ 64)"
  proof (cases "0 \<le> D")
    case False
    have "(D + 2 ^ 64) mod 2 ^ 64 = D + 2 ^ 64"
      using b False by (intro mod_pos_pos_trivial) auto
    then show ?thesis
      using False by simp
  qed (use b in simp)
  ultimately show ?thesis
    by (simp only: of_nat_unat)
qed

lemma ALU_sub:
  assumes "GetALUResult f a b s = Some (r, s')" "f = 2 \<and> c = 0 \<or> f = 3 \<and> c = (if carry_flag s then 0 else 1)"
  shows "int (unat r) = (int (unat a) - int (unat b) - int c) mod 2 ^ 32"
    "carry_flag s' \<longleftrightarrow> unat b + c \<le> unat a"
proof -
  define R where "R = (ucast a :: u64) - ucast b - of_nat c"
  define D where "D = int (unat a) - int (unat b) - int c"
  have c: "c \<le> 1"
    using assms(2) by auto
  have u: "int (unat R) = (if 0 \<le> D then D else D + 2 ^ 64)"
    using u64_diff [OF c] unfolding R_def D_def .
  have b: "- (2 ^ 32) \<le> D" "D < 2 ^ 32"
    using u32_diff_bounds [OF c] unfolding D_def .
  have r: "r = ucast R" "carry_flag s' \<longleftrightarrow> R < 0x100000000"
    using assms by (auto simp: R_def GetALUResult_def Let_def)
  have "int (unat r) = int (unat R) mod 2 ^ 32"
    using r(1) by (simp add: unat_ucast_64_32 zmod_int del: of_nat_unat)
  then show "int (unat r) = (int (unat a) - int (unat b) - int c) mod 2 ^ 32"
    using u mod_mult_self2 [of D "2 ^ 32" "2 ^ 32"] by (simp add: D_def split: if_splits)
  have "R < 0x100000000 \<longleftrightarrow> unat R < 2 ^ 32"
    by (simp add: word_less_nat_alt)
  moreover have "unat R < 2 ^ 32 \<longleftrightarrow> int (unat R) < 2 ^ 32"
    using of_nat_less_iff [of "unat R" "2 ^ 32", where 'a = int] by (simp del: of_nat_unat of_nat_less_iff)
  moreover have "int (unat R) < 2 ^ 32 \<longleftrightarrow> 0 \<le> D"
    using u b by (simp del: of_nat_unat split: if_splits)
  ultimately show "carry_flag s' \<longleftrightarrow> unat b + c \<le> unat a"
    using r(2) unfolding D_def by linarith
qed

section \<open>Properties\<close>



lemma macro_start_ok:
  assumes "macro_start params s = Some s1"
  shows "macro_ok s1 \<and> parameters s1 = params \<and> next_parameter_index s1 = 1 \<and> registers s1 ! 1 = params ! 0 \<and>
    engine_calls s1 = engine_calls s \<and> pc s1 = 0 \<and> params \<noteq> []"
  using assms
  by (auto simp: macro_start_def macro_ok_def regs_ok_def Reset_def NUM_MACRO_REGISTERS_def array_get_def
      array_set_eq_Some bind_eq_Some_conv Suc_le_eq split: if_splits)


text \<open>
  A macro of three instructions: \<open>r2 := 0x100\<close> as the method address; \<open>r1 := r1 + 5\<close>, sent, with the exit flag;
  \<open>r3 := 0\<close> in the delay slot.
\<close>

definition sample_macro :: "u32 list" where
  "sample_macro = [0x00400221, 0x000149C1, 0x00000311]"

definition sample_state :: MacroInterpreterImpl where
  "sample_state = \<lparr>pc = 0, delayed_pc = None, registers = replicate 8 0, method_address = 0, parameters = [],
     next_parameter_index = 0, carry_flag = False, engine_calls = []\<rparr>"




section \<open>Straight-line macros\<close>

text \<open>
  An opcode without a branch, without a shift by a register and with a known operation; and how many parameters
  it fetches.
\<close>

definition straight :: "u32 \<Rightarrow> bool" where
  "straight opc \<longleftrightarrow> op_operation opc \<in> {1, 2, 5} \<or>
     op_operation opc = 0 \<and> op_alu_operation opc \<in> {0, 1, 2, 3, 8, 9, 10, 11, 12}"

definition fetches :: "u32 \<Rightarrow> nat" where
  "fetches opc = (if op_result_operation opc \<in> {0, 3, 5, 6} then 1 else 0)"

lemma field_bound: "unat (field p 3 raw) < 8"
proof -
  have "unat (take_bit 3 (drop_bit p raw)) = take_bit 3 (unat (drop_bit p raw))"
    by (simp add: unsigned_take_bit_eq)
  then show ?thesis
    by (simp add: field_def take_bit_eq_mod)
qed

lemma GetRegister_total: "regs_ok s \<Longrightarrow> r < 8 \<Longrightarrow> \<exists>v. GetRegister r s = Some v"
  by (simp add: GetRegister_def regs_ok_def NUM_MACRO_REGISTERS_def)

lemma SetRegister_total:
  "regs_ok s \<Longrightarrow> r < 8 \<Longrightarrow> \<exists>rs. length rs = 8 \<and> SetRegister r v s = Some (s\<lparr>registers := rs\<rparr>)"
  by (cases "r = 0")
    (auto simp: SetRegister_def regs_ok_def NUM_MACRO_REGISTERS_def array_set_def
      intro: exI [of _ "registers s"] exI [of _ "(registers s)[r := v]"])

lemma ProcessResult_total:
  assumes "regs_ok s" "r < 8" "f < 8" "next_parameter_index s + (if f \<in> {0, 3, 5, 6} then 1 else 0) \<le> length (parameters s)"
  shows "\<exists>s'. ProcessResult f r v s = Some s' \<and>
    next_parameter_index s' = next_parameter_index s + (if f \<in> {0, 3, 5, 6} then 1 else 0)"
proof -
  have set_ok: "\<exists>s'. SetRegister r v' s = Some s' \<and> next_parameter_index s' = next_parameter_index s \<and>
      parameters s' = parameters s" for v'
    using SetRegister_total [OF assms(1,2)] by fastforce
  have "regs_ok (s\<lparr>next_parameter_index := Suc (next_parameter_index s)\<rparr>)"
    if "next_parameter_index s < length (parameters s)"
    using assms(1) that by (simp add: regs_ok_def)
  then have fetch_set: "\<exists>s'. FetchParameter s \<bind> (\<lambda>(v, s1). SetRegister r v s1) = Some s' \<and>
      next_parameter_index s' = Suc (next_parameter_index s)"
    if "next_parameter_index s < length (parameters s)"
    using that SetRegister_total [OF _ assms(2), of "s\<lparr>next_parameter_index := Suc (next_parameter_index s)\<rparr>"]
    by (fastforce simp: FetchParameter_def)
  consider "f = 0" | "f = 1" | "f = 2" | "f = 3" | "f = 4" | "f = 5" | "f = 6" | "f = 7"
    using assms(3) by linarith
  then show ?thesis
    using assms(4) set_ok [of v] fetch_set
    by cases (auto simp: ProcessResult_def SetMethodAddress_def Send_def FetchParameter_def Let_def bind_eq_Some_conv)
qed

lemma GetALUResult_total:
  "f \<in> {0, 1, 2, 3, 8, 9, 10, 11, 12} \<Longrightarrow> \<exists>v s1. GetALUResult f a b s = Some (v, s1)"
  by (elim insertE) (simp_all add: GetALUResult_def Let_def)

lemma GetALUResult_index:
  "GetALUResult f a b s = Some (v, s1) \<Longrightarrow> next_parameter_index s1 = next_parameter_index s"
  by (auto simp: GetALUResult_def Let_def split: if_splits)

lemma execute_operation_total:
  assumes "regs_ok s" "straight opc" "next_parameter_index s + fetches opc \<le> length (parameters s)"
  shows "\<exists>s'. execute_operation er opc s = Some s' \<and> next_parameter_index s' = next_parameter_index s + fetches opc"
proof -
  have f: "op_dst opc < 8" "op_result_operation opc < 8" "op_src_a opc < 8" "op_src_b opc < 8"
    by (simp_all add: op_dst_def op_result_operation_def op_src_a_def op_src_b_def field_bound)
  obtain a b where ab: "GetRegister (op_src_a opc) s = Some a" "GetRegister (op_src_b opc) s = Some b"
    using GetRegister_total assms(1) f by meson
  note total = ProcessResult_total [OF _ f(1,2), folded fetches_def]
  show ?thesis
  proof (cases "op_operation opc = 0")
    case True
    then have "op_alu_operation opc \<in> {0, 1, 2, 3, 8, 9, 10, 11, 12}"
      using assms(2) by (auto simp: straight_def)
    then obtain v s1 where v: "GetALUResult (op_alu_operation opc) a b s = Some (v, s1)"
      using GetALUResult_total by blast
    moreover have "regs_ok s1" "parameters s1 = parameters s" "next_parameter_index s1 = next_parameter_index s"
      using GetALUResult_keeps [OF v] GetALUResult_index [OF v] assms(1) by (auto simp: keeps_def same_control_def)
    moreover have "execute_operation er opc s = ProcessResult (op_result_operation opc) (op_dst opc) v s1"
      using True ab v by (simp add: execute_operation_def)
    ultimately show ?thesis
      using total [of s1 v] assms(3) by simp
  next
    case False
    then have "\<exists>v. execute_operation er opc s = ProcessResult (op_result_operation opc) (op_dst opc) v s"
      using assms(2) ab unfolding straight_def execute_operation_def by (elim disjE insertE) (simp_all, blast+)
    then show ?thesis
      using total [OF assms(1,3)] by metis
  qed
qed

text \<open>What fetching does when no delayed branch is pending.\<close>

lemma fetch_at:
  assumes "macro_ok s" "unat (pc s) = 4 * i" "i < length code" "length code < 2 ^ 30"
  shows "fetch code d s = Some (code ! i, s\<lparr>pc := pc s + 4\<rparr>)" "unat (pc s + 4) = 4 * Suc i"
proof -
  have "4 * i + 4 < 2 ^ 32"
    using assms(3,4) by simp
  then have "unat (pc s) + unat (4 :: u32) < 2 ^ LENGTH(32)"
    using assms(2) by simp
  then show "unat (pc s + 4) = 4 * Suc i"
    using assms(2) by (simp add: unat_plus_no_wrap)
  show "fetch code d s = Some (code ! i, s\<lparr>pc := pc s + 4\<rparr>)"
    using assms(1-3) by (simp add: fetch_def GetOpcode_def macro_ok_def)
qed

lemma straight_not_branch: "straight opc \<Longrightarrow> op_operation opc \<noteq> 7"
  by (auto simp: straight_def)

lemma delay_slot_total:
  assumes "macro_ok s" "unat (pc s) = 4 * i" "i < length code" "length code < 2 ^ 30" "straight (code ! i)"
    "next_parameter_index s + fetches (code ! i) \<le> length (parameters s)"
  shows "\<exists>s'. step_delay_slot er code s = Some s' \<and> next_parameter_index s' = next_parameter_index s + fetches (code ! i)"
  using execute_operation_total [of "s\<lparr>pc := pc s + 4\<rparr>" "code ! i" er] fetch_at [OF assms(1-4)] assms
    straight_not_branch [OF assms(5)]
  by (simp add: step_delay_slot_def macro_ok_def regs_ok_def)

lemma Step_straight:
  assumes "macro_ok s" "unat (pc s) = 4 * i" "i < length code" "length code < 2 ^ 30" "straight (code ! i)"
    "next_parameter_index s + fetches (code ! i) \<le> length (parameters s)"
  shows "\<exists>s2. macro_ok s2 \<and> unat (pc s2) = 4 * Suc i \<and> parameters s2 = parameters s \<and>
    next_parameter_index s2 = next_parameter_index s + fetches (code ! i) \<and>
    Step er code s =
       (if op_is_exit (code ! i)
        then do { s3 \<leftarrow> step_delay_slot er code s2; Some (False, s3) } else Some (True, s2))"
proof -
  let ?s = "s\<lparr>pc := pc s + 4\<rparr>"
  note f = fetch_at [OF assms(1-4)]
  have ok: "macro_ok ?s"
    using assms(1) f(2) by (simp add: macro_ok_def regs_ok_def)
  obtain s2 where s2: "execute_operation er (code ! i) ?s = Some s2"
      "next_parameter_index s2 = next_parameter_index s + fetches (code ! i)"
    using execute_operation_total [of ?s "code ! i" er] assms(5,6) ok by (auto simp: macro_ok_def)
  have k: "keeps ?s s2"
    using execute_operation_keeps s2(1) .
  have "Step er code s =
       (if op_is_exit (code ! i)
        then do { s3 \<leftarrow> step_delay_slot er code s2; Some (False, s3) } else Some (True, s2))"
    using s2(1) f(1) straight_not_branch [OF assms(5)] by (simp add: Step_def)
  then show ?thesis
    using s2(2) macro_ok_keeps [OF k ok] k f(2) by (intro exI [of _ s2]) (simp add: keeps_def same_control_def)
qed

lemma run_straight:
  assumes "macro_ok s" "unat (pc s) = 4 * i" "i + d + 1 < length code" "length code < 2 ^ 30"
    "\<forall>j \<le> i + d + 1. straight (code ! j)" "\<forall>j < i + d. \<not> op_is_exit (code ! j)" "op_is_exit (code ! (i + d))"
    "next_parameter_index s + (\<Sum>j = i..i + d + 1. fetches (code ! j)) = length (parameters s)"
  shows "\<exists>s'. run (Suc d) er code s = Some (Inr s') \<and> next_parameter_index s' = length (parameters s')"
  using assms
proof (induction d arbitrary: i s)
  case 0
  have p: "straight (code ! i)" "straight (code ! Suc i)"
    "next_parameter_index s + fetches (code ! i) + fetches (code ! Suc i) = length (parameters s)"
    using 0 by auto
  obtain s2 where s2: "macro_ok s2" "unat (pc s2) = 4 * Suc i" "parameters s2 = parameters s"
      "next_parameter_index s2 = next_parameter_index s + fetches (code ! i)"
      "Step er code s = do { s3 \<leftarrow> step_delay_slot er code s2; Some (False, s3) }"
    using Step_straight [OF 0(1,2) _ 0(4) p(1), of er] 0 p by auto
  obtain s3 where "step_delay_slot er code s2 = Some s3"
      "next_parameter_index s3 = next_parameter_index s2 + fetches (code ! Suc i)"
    using delay_slot_total [OF s2(1,2) _ 0(4) p(2), of er] 0 s2(3,4) p(3) by auto
  moreover from this have "parameters s3 = parameters s2"
    using step_delay_slot_ok [of er code s2 s3] s2(1) by (simp add: macro_ok_def)
  ultimately show ?case
    using s2 p(3) by simp
next
  case (Suc d)
  have split: "(\<Sum>j = i..i + Suc d + 1. fetches (code ! j)) =
      fetches (code ! i) + (\<Sum>j = Suc i..Suc i + d + 1. fetches (code ! j))"
    by (subst sum.atLeast_Suc_atMost) auto
  have p: "straight (code ! i)" "\<not> op_is_exit (code ! i)" "i < length code"
    using Suc.prems by auto
  obtain s2 where s2: "macro_ok s2" "unat (pc s2) = 4 * Suc i" "parameters s2 = parameters s"
      "next_parameter_index s2 = next_parameter_index s + fetches (code ! i)" "Step er code s = Some (True, s2)"
    using Step_straight [OF Suc.prems(1,2) p(3) Suc.prems(4) p(1), of er] Suc.prems(8) p(2) split by auto
  have "\<exists>s'. run (Suc d) er code s2 = Some (Inr s') \<and> next_parameter_index s' = length (parameters s')"
    using Suc.prems s2 split by (intro Suc.IH [of s2 "Suc i"]) auto
  then show ?case
    using s2(5) by simp
qed

text \<open>
  C30: A straight-line macro terminates: when its first exit flag is at instruction \<open>d\<close>, with an instruction left for
  the delay slot, no branch and no unknown operation up to there, and the instructions executed fetch the
  parameters after the first, \<open>d + 1\<close> rounds of the loop return, and the final assertion on the parameters holds.
\<close>

theorem straight_line_macro_returns:
  assumes "params \<noteq> []" "d + 1 < length code" "length code < 2 ^ 30" "\<forall>j \<le> d + 1. straight (code ! j)"
    "\<forall>j < d. \<not> op_is_exit (code ! j)" "op_is_exit (code ! d)"
    "1 + (\<Sum>j \<le> d + 1. fetches (code ! j)) = length params"
  shows "\<exists>s'. Execute (Suc d) er code params s = Some (Inr s')"
proof -
  obtain s1 where s1: "macro_start params s = Some s1"
    using assms(1) by (simp add: macro_start_def Reset_def NUM_MACRO_REGISTERS_def array_get_def array_set_def)
  note ok = macro_start_ok [OF s1]
  have "\<exists>s'. run (Suc d) er code s1 = Some (Inr s') \<and> next_parameter_index s' = length (parameters s')"
    using assms ok by (intro run_straight [of s1 0 d code er]) (auto simp: atMost_atLeast0)
  then show ?thesis
    using s1 by (auto simp: Execute_def simp del: run.simps)
qed

lemma sample_straight:
  "straight (sample_macro ! 0)" "straight (sample_macro ! 1)" "straight (sample_macro ! 2)"
  "\<not> op_is_exit (sample_macro ! 0)" "op_is_exit (sample_macro ! 1)"
  "fetches (sample_macro ! 0) = 0" "fetches (sample_macro ! 1) = 0" "fetches (sample_macro ! 2) = 0"
  "length sample_macro = 3"
  by code_simp+

theorem straight_line_macro_returns_witness:
  "\<exists>s'. Execute (Suc 1) (\<lambda>_ _. 0) sample_macro [7] sample_state = Some (Inr s')"
proof (rule straight_line_macro_returns)
  show "\<forall>j \<le> 1 + 1. straight (sample_macro ! j)"
    using sample_straight by (auto simp: le_Suc_eq numeral_2_eq_2)
  show "1 + (\<Sum>j \<le> 1 + 1. fetches (sample_macro ! j)) = length [7 :: u32]"
    using sample_straight by (simp add: numeral_2_eq_2)
qed (use sample_straight in auto)

section \<open>Double-word arithmetic\<close>

text \<open>A 64-bit number in two words.\<close>

definition dword :: "u32 \<Rightarrow> u32 \<Rightarrow> nat" where
  "dword hi lo = unat hi * 2 ^ 32 + unat lo"

lemma mod_once: "x < 2 * n \<Longrightarrow> x mod n = (if x < n then x else x - n)" for x n :: nat
  by (simp add: le_mod_geq)

lemma dword_add:
  fixes W a b A B c :: nat
  assumes "a < W" "b < W" "A < W" "B < W" "c = (if W \<le> a + b then 1 else 0)"
  shows "((A + B + c) mod W) * W + (a + b) mod W = (A * W + a + (B * W + b)) mod (W * W)"
    "W \<le> A + B + c \<longleftrightarrow> W * W \<le> A * W + a + (B * W + b)"
proof -
  let ?S = "A * W + a + (B * W + b)"
  have S: "?S = (A + B + c) * W + (a + b) mod W"
    using assms by (simp add: mod_once algebra_simps)
  have lo: "(a + b) mod W < W"
    using assms(1) by simp
  have "?S mod (W * W) = W * (?S div W mod W) + ?S mod W"
    by (rule mod_mult2_eq)
  then show "((A + B + c) mod W) * W + (a + b) mod W = ?S mod (W * W)"
    using lo by (simp add: S mult.commute)
  have "W \<le> A + B + c \<longleftrightarrow> W \<le> ?S div W"
    using lo by (simp add: S)
  then show "W \<le> A + B + c \<longleftrightarrow> W * W \<le> ?S"
    using assms(1) by (simp add: less_eq_div_iff_mult_less_eq)
qed

lemma dword_sub:
  fixes W a b A B c :: int
  assumes "0 \<le> a" "a < W" "0 \<le> b" "b < W" "c = (if b \<le> a then 0 else 1)"
  shows "((A - B - c) mod W) * W + (a - b) mod W = (A * W + a - (B * W + b)) mod (W * W)"
    "B + c \<le> A \<longleftrightarrow> B * W + b \<le> A * W + a"
proof -
  let ?S = "A * W + a - (B * W + b)"
  have "(a - b) mod W = a - b + c * W"
  proof (cases "b \<le> a")
    case False
    have "(a - b + W) mod W = a - b + W"
      using assms False by (intro mod_pos_pos_trivial) auto
    then show ?thesis
      using assms(5) False by simp
  qed (use assms in simp)
  then have S: "?S = (A - B - c) * W + (a - b) mod W"
    by (simp add: algebra_simps)
  have lo: "(a - b) mod W < W" "0 \<le> (a - b) mod W"
    using assms by simp_all
  have div: "?S div W = A - B - c" "?S mod W = (a - b) mod W"
    using lo assms(1,2) by (simp_all add: S)
  have "?S mod (W * W) = W * (?S div W mod W) + ?S mod W"
    using assms(1,2) by (intro zmod_zmult2_eq) auto
  then show "((A - B - c) mod W) * W + (a - b) mod W = ?S mod (W * W)"
    by (simp add: div mult.commute)
  have "0 \<le> A - B - c \<longleftrightarrow> 0 \<le> ?S div W"
    by (simp add: div)
  then show "B + c \<le> A \<longleftrightarrow> B * W + b \<le> A * W + a"
    using assms(1,2) pos_imp_zdiv_nonneg_iff [of W ?S] by auto
qed

text \<open>
  C31: The carry flag chains: \<^verbatim>\<open>Add\<close> on the low words and then \<^verbatim>\<open>AddWithCarry\<close> on the high words add
  64-bit numbers modulo \<open>2 ^ 64\<close> with the carry out in the flag; \<^verbatim>\<open>Subtract\<close> and then
  \<^verbatim>\<open>SubtractWithBorrow\<close> subtract them, and the flag says that no borrow is left.
\<close>

theorem ALU_double_word:
  assumes "GetALUResult f lo_a lo_b s = Some (lo, s1)" "GetALUResult (f + 1) hi_a hi_b s1 = Some (hi, s2)"
  shows "(f = 0 \<longrightarrow> dword hi lo = (dword hi_a lo_a + dword hi_b lo_b) mod 2 ^ 64 \<and>
      (carry_flag s2 \<longleftrightarrow> 2 ^ 64 \<le> dword hi_a lo_a + dword hi_b lo_b)) \<and>
    (f = 2 \<longrightarrow> int (dword hi lo) = (int (dword hi_a lo_a) - int (dword hi_b lo_b)) mod 2 ^ 64 \<and>
      (carry_flag s2 \<longleftrightarrow> dword hi_b lo_b \<le> dword hi_a lo_a))"
proof (intro conjI impI)
  note bounds = u32_bound [of lo_a] u32_bound [of lo_b] u32_bound [of hi_a] u32_bound [of hi_b]
  let ?c = "if carry_flag s1 then 1 else 0 :: nat"
  let ?b = "if carry_flag s1 then 0 else 1 :: nat"
  have W: "(2 :: nat) ^ 64 = 2 ^ 32 * 2 ^ 32" "(2 :: int) ^ 64 = 2 ^ 32 * 2 ^ 32"
    by simp_all
  {
    assume f: "f = 0"
    have lo: "unat lo = (unat lo_a + unat lo_b) mod 2 ^ 32" "carry_flag s1 \<longleftrightarrow> 2 ^ 32 \<le> unat lo_a + unat lo_b"
      using ALU_add [OF assms(1), of 0] f by simp_all
    have hi: "unat hi = (unat hi_a + unat hi_b + ?c) mod 2 ^ 32" "carry_flag s2 \<longleftrightarrow> 2 ^ 32 \<le> unat hi_a + unat hi_b + ?c"
      using ALU_add [OF assms(2), of ?c] f by simp_all
    note add = dword_add [OF bounds, of ?c]
    show "dword hi lo = (dword hi_a lo_a + dword hi_b lo_b) mod 2 ^ 64"
      using add(1) lo hi(1) unfolding dword_def W by simp
    show "carry_flag s2 \<longleftrightarrow> 2 ^ 64 \<le> dword hi_a lo_a + dword hi_b lo_b"
      using add(2) lo(2) hi(2) unfolding dword_def W by simp
  next
    assume f: "f = 2"
    have lo: "int (unat lo) = (int (unat lo_a) - int (unat lo_b)) mod 2 ^ 32"
      "carry_flag s1 \<longleftrightarrow> unat lo_b \<le> unat lo_a"
      using ALU_sub [OF assms(1), of 0] f by (simp_all del: of_nat_unat)
    have hi: "int (unat hi) = (int (unat hi_a) - int (unat hi_b) - int ?b) mod 2 ^ 32"
      "carry_flag s2 \<longleftrightarrow> unat hi_b + ?b \<le> unat hi_a"
      using ALU_sub [OF assms(2), of ?b] f by (simp_all del: of_nat_unat)
    have "int (unat lo_a) < 2 ^ 32" "int (unat lo_b) < 2 ^ 32" "int ?b = (if int (unat lo_b) \<le> int (unat lo_a) then 0 else 1)"
      using bounds lo(2) by (simp_all del: of_nat_unat)
    note sub = dword_sub [OF _ this(1) _ this(2,3), where A = "int (unat hi_a)" and B = "int (unat hi_b)"]
    show "int (dword hi lo) = (int (dword hi_a lo_a) - int (dword hi_b lo_b)) mod 2 ^ 64"
      using sub(1) unfolding dword_def W of_nat_add of_nat_mult lo(1) hi(1) by simp
    have "carry_flag s2 \<longleftrightarrow> int (unat hi_b) + int ?b \<le> int (unat hi_a)"
      using hi(2) by linarith
    also have "\<dots> \<longleftrightarrow> int (dword hi_b lo_b) \<le> int (dword hi_a lo_a)"
      using sub(2) unfolding dword_def of_nat_add of_nat_mult by simp
    finally show "carry_flag s2 \<longleftrightarrow> dword hi_b lo_b \<le> dword hi_a lo_a"
      by linarith
  }
qed

theorem ALU_double_word_witness:
  "(let (lo, s1) = the (GetALUResult 0 0xFFFFFFFF 1 sample_state); (hi, s2) = the (GetALUResult 1 2 3 s1)
    in dword hi lo = 6 * 2 ^ 32 \<and> \<not> carry_flag s2)"
proof -
  let ?s1 = "sample_state\<lparr>carry_flag := True\<rparr>"
  have lo: "GetALUResult 0 0xFFFFFFFF 1 sample_state = Some (0, ?s1)"
    by code_simp
  have hi: "GetALUResult (0 + 1) 2 3 ?s1 = Some (6, sample_state)"
    by code_simp
  show ?thesis
    using ALU_double_word [OF lo hi] lo hi by (simp add: dword_def)
qed

end
