(* ===== verification/BufferQueueCore.thy ===== *)
theory BufferQueueCore
  imports Prelude
begin

text \<open>
  The buffer queue between a guest application and the display (\<^verbatim>\<open>core/hle/service/nvnflinger\<close>): slots, queue
  items and the shared core (\<^verbatim>\<open>buffer_slot.h\<close>, \<^verbatim>\<open>buffer_item.h\<close>, \<^verbatim>\<open>buffer_queue_core.h\<close>,
  \<^verbatim>\<open>buffer_queue_core.cpp\<close>).

  Graphic buffers are objects with identity: the store \<open>graphic_buffers\<close> holds them in the order of their
  construction, a shared pointer is a position in it, and the null pointer is \<open>None\<close>. Listeners are objects outside
  the queue; the calls made to them are recorded in \<open>listener_calls\<close>, newest first. Slot numbers are signed, and a
  slot access outside the array is a fault.
\<close>

section \<open>Data\<close>

subsection \<open>Status codes\<close>

text \<open>The codes are numbers, because \<open>DequeueBuffer\<close> combines them as flags.\<close>

type_synonym Status = int

definition Status_None :: Status where "Status_None = 0"
definition Status_NoError :: Status where "Status_NoError = 0"
definition Status_StaleBufferSlot :: Status where "Status_StaleBufferSlot = 1"
definition Status_NoBufferAvailable :: Status where "Status_NoBufferAvailable = 2"
definition Status_PresentLater :: Status where "Status_PresentLater = 3"
definition Status_WouldBlock :: Status where "Status_WouldBlock = - 11"
definition Status_NoMemory :: Status where "Status_NoMemory = - 12"
definition Status_Busy :: Status where "Status_Busy = - 16"
definition Status_NoInit :: Status where "Status_NoInit = - 19"
definition Status_BadValue :: Status where "Status_BadValue = - 22"
definition Status_InvalidOperation :: Status where "Status_InvalidOperation = - 38"
definition Status_BufferNeedsReallocation :: Status where "Status_BufferNeedsReallocation = 1"
definition Status_ReleaseAllBuffers :: Status where "Status_ReleaseAllBuffers = 2"

named_theorems status_simps \<open>the numeric values of the status codes\<close>

lemmas status_values [status_simps] =
  Status_None_def Status_NoError_def Status_StaleBufferSlot_def Status_NoBufferAvailable_def
  Status_PresentLater_def Status_WouldBlock_def Status_NoMemory_def Status_Busy_def Status_NoInit_def
  Status_BadValue_def Status_InvalidOperation_def Status_BufferNeedsReallocation_def
  Status_ReleaseAllBuffers_def

subsection \<open>Fences, buffers, rectangles\<close>

record NvFence =
  fence_id :: s32
  fence_value :: u32

record Fence =
  num_fences :: u32
  fences :: "NvFence list"

definition NoFence :: Fence where
  "NoFence = \<lparr>num_fences = 0, fences = replicate 4 \<lparr>fence_id = - 1, fence_value = 0\<rparr>\<rparr>"

definition PixelFormat_NoFormat :: u32 where "PixelFormat_NoFormat = 0"
definition PixelFormat_Rgba8888 :: u32 where "PixelFormat_Rgba8888 = 1"

record NvGraphicBuffer =
  magic :: u32
  gb_width :: s32
  gb_height :: s32
  gb_stride :: s32
  gb_format :: u32
  gb_usage :: s32
  gb_index :: u32
  buffer_id :: u32
  external_format :: u32
  handle :: u32
  gb_offset :: u32

definition NvGraphicBuffer_default :: NvGraphicBuffer where
  "NvGraphicBuffer_default =
     \<lparr>magic = 0, gb_width = 0, gb_height = 0, gb_stride = 0, gb_format = PixelFormat_NoFormat, gb_usage = 0,
      gb_index = 0, buffer_id = 0, external_format = PixelFormat_NoFormat, handle = 0, gb_offset = 0\<rparr>"

definition NvGraphicBuffer_ctor :: "u32 \<Rightarrow> u32 \<Rightarrow> u32 \<Rightarrow> u32 \<Rightarrow> NvGraphicBuffer" where
  "NvGraphicBuffer_ctor width height fmt usage =
     NvGraphicBuffer_default\<lparr>gb_width := sint width, gb_height := sint height, gb_format := fmt,
       gb_usage := sint usage\<rparr>"

definition Width :: "NvGraphicBuffer \<Rightarrow> u32" where "Width b = word_of_int (gb_width b)"
definition Height :: "NvGraphicBuffer \<Rightarrow> u32" where "Height b = word_of_int (gb_height b)"
definition Usage :: "NvGraphicBuffer \<Rightarrow> u32" where "Usage b = word_of_int (gb_usage b)"

text \<open>The buffer a \<^verbatim>\<open>GraphicBuffer\<close> starts as: a copy of the given one, or the default.\<close>

definition GetBuffer :: "NvGraphicBuffer option \<Rightarrow> NvGraphicBuffer" where
  "GetBuffer b = (case b of Some x \<Rightarrow> x | None \<Rightarrow> NvGraphicBuffer_default)"

record Rectangle =
  rect_left :: s32
  rect_top :: s32
  rect_right :: s32
  rect_bottom :: s32

definition Rectangle_of_size :: "s32 \<Rightarrow> s32 \<Rightarrow> Rectangle" where
  "Rectangle_of_size width height = \<lparr>rect_left = 0, rect_top = 0, rect_right = width, rect_bottom = height\<rparr>"

text \<open>The rectangle \<open>Intersect\<close> stores; its boolean result is unused by the queue.\<close>

definition Intersect :: "Rectangle \<Rightarrow> Rectangle \<Rightarrow> Rectangle" where
  "Intersect r r' =
     \<lparr>rect_left = max (rect_left r) (rect_left r'), rect_top = max (rect_top r) (rect_top r'),
      rect_right = min (rect_right r) (rect_right r'), rect_bottom = min (rect_bottom r) (rect_bottom r')\<rparr>"

subsection \<open>Window parameters\<close>

definition NativeWindow_Width :: s32 where "NativeWindow_Width = 0"
definition NativeWindow_Height :: s32 where "NativeWindow_Height = 1"
definition NativeWindow_Format :: s32 where "NativeWindow_Format = 2"
definition NativeWindow_MinUndequeedBuffers :: s32 where "NativeWindow_MinUndequeedBuffers = 3"
definition NativeWindow_ConsumerRunningBehind :: s32 where "NativeWindow_ConsumerRunningBehind = 9"
definition NativeWindow_ConsumerUsageBits :: s32 where "NativeWindow_ConsumerUsageBits = 10"
definition NativeWindow_StickyTransform :: s32 where "NativeWindow_StickyTransform = 11"

definition NativeWindowApi_NoConnectedApi :: s32 where "NativeWindowApi_NoConnectedApi = 0"
definition NativeWindowApi_Egl :: s32 where "NativeWindowApi_Egl = 1"
definition NativeWindowApi_Cpu :: s32 where "NativeWindowApi_Cpu = 2"
definition NativeWindowApi_Media :: s32 where "NativeWindowApi_Media = 3"
definition NativeWindowApi_Camera :: s32 where "NativeWindowApi_Camera = 4"

definition NativeWindowScalingMode_Freeze :: s32 where "NativeWindowScalingMode_Freeze = 0"
definition NativeWindowScalingMode_ScaleToWindow :: s32 where "NativeWindowScalingMode_ScaleToWindow = 1"
definition NativeWindowScalingMode_ScaleCrop :: s32 where "NativeWindowScalingMode_ScaleCrop = 2"
definition NativeWindowScalingMode_NoScaleCrop :: s32 where "NativeWindowScalingMode_NoScaleCrop = 3"
definition NativeWindowScalingMode_PreserveAspectRatio :: s32 where
  "NativeWindowScalingMode_PreserveAspectRatio = 4"

definition NativeWindowTransform_None :: u32 where "NativeWindowTransform_None = 0"
definition NativeWindowTransform_InverseDisplay :: u32 where "NativeWindowTransform_InverseDisplay = 0x08"

subsection \<open>Slots and items\<close>

datatype BufferState = Free | Dequeued | Queued | Acquired

record BufferSlot =
  graphic_buffer :: "nat option"
  buffer_state :: BufferState
  request_buffer_called :: bool
  frame_number :: u64
  fence :: Fence
  acquire_called :: bool
  needs_cleanup_on_release :: bool
  attached_by_consumer :: bool
  is_preallocated :: bool

definition default_fence :: Fence where
  "default_fence = \<lparr>num_fences = 0, fences = replicate 4 \<lparr>fence_id = 0, fence_value = 0\<rparr>\<rparr>"

definition BufferSlot_default :: BufferSlot where
  "BufferSlot_default =
     \<lparr>graphic_buffer = None, buffer_state = Free, request_buffer_called = False, frame_number = 0,
      fence = default_fence, acquire_called = False, needs_cleanup_on_release = False,
      attached_by_consumer = False, is_preallocated = False\<rparr>"

definition INVALID_BUFFER_SLOT :: s32 where "INVALID_BUFFER_SLOT = - 1"

record BufferItem =
  item_graphic_buffer :: "nat option"
  item_fence :: Fence
  crop :: Rectangle
  transform :: u32
  scaling_mode :: u32
  timestamp :: s64
  is_auto_timestamp :: bool
  item_frame_number :: u64
  item_slot :: s32
  is_droppable :: bool
  item_acquire_called :: bool
  transform_to_display_inverse :: bool
  swap_interval :: s32

datatype ListenerCall =
    OnFrameAvailable nat BufferItem
  | OnFrameReplaced nat BufferItem
  | OnBuffersReleased nat
  | OnBufferReleased nat

section \<open>The core\<close>

definition NUM_BUFFER_SLOTS :: s32 where "NUM_BUFFER_SLOTS = 64"

record BufferQueueCore =
  is_abandoned :: bool
  consumer_controlled_by_app :: bool
  consumer_listener :: "nat option"
  consumer_usage_bit :: u32
  connected_api :: s32
  connected_producer_listener :: "nat option"
  slots :: "BufferSlot list"
  queue :: "BufferItem list"
  override_max_buffer_count :: s32
  dequeue_possible :: bool
  dequeue_buffer_cannot_block :: bool
  default_buffer_format :: u32
  default_width :: u32
  default_height :: u32
  default_max_buffer_count :: s32
  buffer_has_been_queued :: bool
  frame_counter :: u64
  transform_hint :: u32
  is_allocating :: bool
  graphic_buffers :: "NvGraphicBuffer list"
  listener_calls :: "ListenerCall list"

text \<open>The two \<^verbatim>\<open>const\<close> members keep their initial values.\<close>

definition use_async_buffer :: bool where "use_async_buffer = False"
definition max_acquired_buffer_count :: s32 where "max_acquired_buffer_count = 0"

definition BufferQueueCore_ctor :: BufferQueueCore where
  "BufferQueueCore_ctor =
     \<lparr>is_abandoned = False, consumer_controlled_by_app = False, consumer_listener = None, consumer_usage_bit = 0,
      connected_api = NativeWindowApi_NoConnectedApi, connected_producer_listener = None,
      slots = replicate (nat NUM_BUFFER_SLOTS) BufferSlot_default, queue = [], override_max_buffer_count = 0,
      dequeue_possible = False, dequeue_buffer_cannot_block = False,
      default_buffer_format = PixelFormat_Rgba8888, default_width = 1, default_height = 1,
      default_max_buffer_count = 2, buffer_has_been_queued = False, frame_counter = 0, transform_hint = 0,
      is_allocating = False, graphic_buffers = [], listener_calls = []\<rparr>"

subsection \<open>Slot access\<close>

definition slot_at :: "s32 \<Rightarrow> BufferQueueCore \<Rightarrow> BufferSlot option" where
  "slot_at s c = (if 0 \<le> s then array_get (slots c) (nat s) else None)"

definition slot_update ::
    "s32 \<Rightarrow> (BufferSlot \<Rightarrow> BufferSlot) \<Rightarrow> BufferQueueCore \<Rightarrow> BufferQueueCore option" where
  "slot_update s f c =
     do {
       x \<leftarrow> slot_at s c;
       Some (c\<lparr>slots := (slots c)[nat s := f x]\<rparr>)
     }"

definition new_graphic_buffer :: "NvGraphicBuffer \<Rightarrow> BufferQueueCore \<Rightarrow> nat \<times> BufferQueueCore" where
  "new_graphic_buffer b c =
     (length (graphic_buffers c), c\<lparr>graphic_buffers := graphic_buffers c @ [b]\<rparr>)"

subsection \<open>Operations\<close>

definition SignalDequeueCondition :: "BufferQueueCore \<Rightarrow> BufferQueueCore" where
  "SignalDequeueCondition c = c\<lparr>dequeue_possible := True\<rparr>"

text \<open>
  The wait releases the lock. The script lists what the other threads do to the core, one entry per time slice;
  when it ends before \<open>dequeue_possible\<close> holds, the caller is still blocked.
\<close>

type_synonym interference = "(BufferQueueCore \<Rightarrow> BufferQueueCore) list"

datatype 'a wait_outcome = Finished 'a | Blocked BufferQueueCore

fun WaitForDequeueCondition ::
    "interference \<Rightarrow> BufferQueueCore \<Rightarrow> (interference \<times> BufferQueueCore) wait_outcome" where
  "WaitForDequeueCondition [] c =
     (if dequeue_possible c then Finished ([], c\<lparr>dequeue_possible := False\<rparr>) else Blocked c)"
| "WaitForDequeueCondition (f # env) c =
     (if dequeue_possible c then Finished (f # env, c\<lparr>dequeue_possible := False\<rparr>)
      else WaitForDequeueCondition env (f c))"

definition GetMinUndequeuedBufferCountLocked :: "bool \<Rightarrow> BufferQueueCore \<Rightarrow> s32" where
  "GetMinUndequeuedBufferCountLocked async c =
     (if \<not> use_async_buffer then 0
      else if dequeue_buffer_cannot_block c \<or> async then max_acquired_buffer_count + 1
      else max_acquired_buffer_count)"

definition GetMinMaxBufferCountLocked :: "bool \<Rightarrow> BufferQueueCore \<Rightarrow> s32" where
  "GetMinMaxBufferCountLocked async c = GetMinUndequeuedBufferCountLocked async c"

definition GetMaxBufferCountLocked :: "bool \<Rightarrow> BufferQueueCore \<Rightarrow> s32 option" where
  "GetMaxBufferCountLocked async c =
     (let min_buffer_count = GetMinMaxBufferCountLocked async c;
          max_buffer_count = max (default_max_buffer_count c) min_buffer_count
      in if override_max_buffer_count c \<noteq> 0 then
           do {
             ASSERT (override_max_buffer_count c \<ge> min_buffer_count);
             Some (override_max_buffer_count c)
           }
         else
           for_each
             (\<lambda>slot m. do {
                x \<leftarrow> slot_at slot c;
                Some (if buffer_state x = Queued \<or> buffer_state x = Dequeued then slot + 1 else m)
              })
             [max_buffer_count..NUM_BUFFER_SLOTS - 1] max_buffer_count)"

definition GetPreallocatedBufferCountLocked :: "BufferQueueCore \<Rightarrow> s32" where
  "GetPreallocatedBufferCountLocked c = int (length (filter is_preallocated (slots c)))"

definition free_buffer :: "BufferSlot \<Rightarrow> BufferSlot" where
  "free_buffer x =
     x\<lparr>graphic_buffer := None,
       needs_cleanup_on_release := (buffer_state x = Acquired \<or> needs_cleanup_on_release x),
       buffer_state := Free, frame_number := 0xFFFFFFFF, acquire_called := False, fence := NoFence\<rparr>"

definition FreeBufferLocked :: "s32 \<Rightarrow> BufferQueueCore \<Rightarrow> BufferQueueCore option" where
  "FreeBufferLocked slot c = slot_update slot free_buffer c"

definition FreeAllBuffersLocked :: "BufferQueueCore \<Rightarrow> BufferQueueCore option" where
  "FreeAllBuffersLocked c =
     for_each FreeBufferLocked [0..NUM_BUFFER_SLOTS - 1] (c\<lparr>buffer_has_been_queued := False\<rparr>)"

definition StillTracking :: "BufferItem \<Rightarrow> BufferQueueCore \<Rightarrow> bool option" where
  "StillTracking item c =
     do {
       x \<leftarrow> slot_at (item_slot item) c;
       Some (graphic_buffer x \<noteq> None \<and> item_graphic_buffer item = graphic_buffer x)
     }"

text \<open>Nothing in the program sets \<open>is_allocating\<close>; a caller that finds it set waits.\<close>

definition WaitWhileAllocatingLocked :: "BufferQueueCore \<Rightarrow> unit wait_outcome" where
  "WaitWhileAllocatingLocked c = (if is_allocating c then Blocked c else Finished ())"

end
