(* ===== verification/BufferQueueConsumer.thy ===== *)
theory BufferQueueConsumer
  imports BufferQueueCore
begin

text \<open>
  The consumer's side of the buffer queue (\<^verbatim>\<open>buffer_queue_consumer.cpp\<close>) and the consumer that caches the buffers
  it has seen (\<^verbatim>\<open>consumer_base.cpp\<close>, \<^verbatim>\<open>buffer_item_consumer.cpp\<close>). Every operation runs under the core's
  mutex; callbacks made after it is released are recorded in \<open>listener_calls\<close>.
\<close>

section \<open>Operations\<close>

definition MAX_REASONABLE_NSEC :: s64 where "MAX_REASONABLE_NSEC = 1000000000"

text \<open>The loop that drops front items, on the contents of the queue.\<close>

fun drop_loop :: "s64 \<Rightarrow> BufferItem list \<Rightarrow> BufferQueueCore \<Rightarrow> BufferQueueCore option" where
  "drop_loop expected_present (front # item # rest) c =
     (if is_auto_timestamp front then Some (c\<lparr>queue := front # item # rest\<rparr>)
      else
        do {
          earliest \<leftarrow> s64_sub expected_present MAX_REASONABLE_NSEC;
          if timestamp item < earliest \<or> timestamp item > expected_present then
            Some (c\<lparr>queue := front # item # rest\<rparr>)
          else
            do {
              tracked \<leftarrow> StillTracking front c;
              c1 \<leftarrow> (if tracked then slot_update (item_slot front) (\<lambda>x. x\<lparr>buffer_state := Free\<rparr>) c else Some c);
              drop_loop expected_present (item # rest) c1
            }
        })"
| "drop_loop expected_present q c = Some (c\<lparr>queue := q\<rparr>)"

text \<open>Whether the front buffer is deferred.\<close>

definition present_later :: "s64 \<Rightarrow> BufferItem \<Rightarrow> bool option" where
  "present_later expected_present front =
     (if timestamp front > expected_present then
        do {
          limit \<leftarrow> s64_add expected_present MAX_REASONABLE_NSEC;
          Some (timestamp front < limit)
        }
      else Some False)"

text \<open>What happens to the front item once it is accepted.\<close>

definition acquire_front :: "BufferQueueCore \<Rightarrow> (Status \<times> BufferItem option \<times> BufferQueueCore) option" where
  "acquire_front c =
     do {
       front \<leftarrow> array_get (queue c) 0;
       tracked \<leftarrow> StillTracking front c;
       c1 \<leftarrow> (if tracked then
                slot_update (item_slot front)
                  (\<lambda>x. x\<lparr>acquire_called := True, needs_cleanup_on_release := False, buffer_state := Acquired\<rparr>) c
              else Some c);
       let out = (if item_acquire_called front then front\<lparr>item_graphic_buffer := None\<rparr> else front);
       Some (Status_NoError, Some out, SignalDequeueCondition (c1\<lparr>queue := tl (queue c1)\<rparr>))
     }"

definition AcquireBuffer ::
    "s64 \<Rightarrow> BufferQueueCore \<Rightarrow> (Status \<times> BufferItem option \<times> BufferQueueCore) option" where
  "AcquireBuffer expected_present c =
     (let num_acquired_buffers = int (length (filter (\<lambda>x. buffer_state x = Acquired) (slots c)))
      in if num_acquired_buffers \<ge> max_acquired_buffer_count + 1 then Some (Status_InvalidOperation, None, c)
         else if queue c = [] then Some (Status_NoBufferAvailable, None, c)
         else if expected_present \<noteq> 0 then
           do {
             c1 \<leftarrow> drop_loop expected_present (queue c) c;
             front \<leftarrow> array_get (queue c1) 0;
             later \<leftarrow> present_later expected_present front;
             if later then Some (Status_PresentLater, None, c1) else acquire_front c1
           }
         else acquire_front c)"

definition ReleaseBuffer ::
    "s32 \<Rightarrow> u64 \<Rightarrow> Fence \<Rightarrow> BufferQueueCore \<Rightarrow> (Status \<times> BufferQueueCore) option" where
  "ReleaseBuffer slot frame release_fence c =
     (if slot < 0 \<or> slot \<ge> NUM_BUFFER_SLOTS then Some (Status_BadValue, c)
      else
        do {
          x \<leftarrow> slot_at slot c;
          if frame \<noteq> frame_number x then Some (Status_StaleBufferSlot, c)
          else if list_ex (\<lambda>item. item_slot item = slot) (queue c) then Some (Status_BadValue, c)
          else if buffer_state x = Acquired then
            do {
              c1 \<leftarrow> slot_update slot (\<lambda>x. x\<lparr>buffer_state := Free\<rparr>) c;
              let c2 = SignalDequeueCondition c1;
              Some (Status_NoError,
                case connected_producer_listener c of
                  None \<Rightarrow> c2
                | Some l \<Rightarrow> c2\<lparr>listener_calls := OnBufferReleased l # listener_calls c2\<rparr>)
            }
          else if needs_cleanup_on_release x then
            do {
              c1 \<leftarrow> slot_update slot (\<lambda>x. x\<lparr>needs_cleanup_on_release := False\<rparr>) c;
              Some (Status_StaleBufferSlot, c1)
            }
          else Some (Status_BadValue, c)
        })"

definition Consumer_Connect :: "nat option \<Rightarrow> bool \<Rightarrow> BufferQueueCore \<Rightarrow> Status \<times> BufferQueueCore" where
  "Consumer_Connect listener controlled_by_app c =
     (if listener = None then (Status_BadValue, c)
      else if is_abandoned c then (Status_NoInit, c)
      else (Status_NoError,
            c\<lparr>consumer_listener := listener, consumer_controlled_by_app := controlled_by_app\<rparr>))"

definition Consumer_Disconnect :: "BufferQueueCore \<Rightarrow> (Status \<times> BufferQueueCore) option" where
  "Consumer_Disconnect c =
     (if consumer_listener c = None then Some (Status_BadValue, c)
      else
        do {
          c1 \<leftarrow> FreeAllBuffersLocked (c\<lparr>is_abandoned := True, consumer_listener := None, queue := []\<rparr>);
          Some (Status_NoError, SignalDequeueCondition c1)
        })"

text \<open>The slot mask; a shift by a slot number outside the word is a fault.\<close>

definition slot_mask_bit :: "s32 \<Rightarrow> u64 option" where
  "slot_mask_bit s = (if 0 \<le> s \<and> s < 64 then Some (push_bit (nat s) 1) else None)"

definition GetReleasedBuffers :: "BufferQueueCore \<Rightarrow> (Status \<times> u64 option) option" where
  "GetReleasedBuffers c =
     (if is_abandoned c then Some (Status_NoInit, None)
      else
        do {
          mask1 \<leftarrow> for_each
                    (\<lambda>s m. do {
                       x \<leftarrow> slot_at s c;
                       b \<leftarrow> slot_mask_bit s;
                       Some (if \<not> acquire_called x then m OR b else m)
                     })
                    [0..NUM_BUFFER_SLOTS - 1] 0;
          mask2 \<leftarrow> for_each
                    (\<lambda>item m.
                       if item_acquire_called item then
                         do {
                           b \<leftarrow> slot_mask_bit (item_slot item);
                           Some (m AND NOT b)
                         }
                       else Some m)
                    (queue c) mask1;
          Some (Status_NoError, Some mask2)
        })"

section \<open>The caching consumer\<close>

record Slot =
  cached_buffer :: "nat option"
  cached_fence :: Fence
  cached_frame_number :: u64

definition Slot_default :: Slot where
  "Slot_default = \<lparr>cached_buffer = None, cached_fence = default_fence, cached_frame_number = 0\<rparr>"

text \<open>\<open>connected\<close> says that the pointer to the buffer queue consumer is not null.\<close>

record ConsumerBase =
  consumer_abandoned :: bool
  connected :: bool
  cached_slots :: "Slot list"

definition ConsumerBase_ctor :: ConsumerBase where
  "ConsumerBase_ctor =
     \<lparr>consumer_abandoned = False, connected = True,
      cached_slots = replicate (nat NUM_BUFFER_SLOTS) Slot_default\<rparr>"

definition cached_update ::
    "s32 \<Rightarrow> (Slot \<Rightarrow> Slot) \<Rightarrow> ConsumerBase \<Rightarrow> ConsumerBase option" where
  "cached_update s f b =
     do {
       ASSERT (0 \<le> s);
       x \<leftarrow> array_get (cached_slots b) (nat s);
       Some (b\<lparr>cached_slots := (cached_slots b)[nat s := f x]\<rparr>)
     }"

definition ConsumerBase_FreeBufferLocked :: "s32 \<Rightarrow> ConsumerBase \<Rightarrow> ConsumerBase option" where
  "ConsumerBase_FreeBufferLocked slot_index b =
     cached_update slot_index (\<lambda>x. x\<lparr>cached_buffer := None, cached_fence := NoFence, cached_frame_number := 0\<rparr>) b"

definition AbandonLocked ::
    "ConsumerBase \<Rightarrow> BufferQueueCore \<Rightarrow> (ConsumerBase \<times> BufferQueueCore) option" where
  "AbandonLocked b c =
     do {
       b1 \<leftarrow> for_each ConsumerBase_FreeBufferLocked [0..NUM_BUFFER_SLOTS - 1] b;
       ASSERT (connected b1);
       (_, c1) \<leftarrow> Consumer_Disconnect c;
       Some (b1\<lparr>connected := False\<rparr>, c1)
     }"

definition Abandon :: "ConsumerBase \<Rightarrow> BufferQueueCore \<Rightarrow> (ConsumerBase \<times> BufferQueueCore) option" where
  "Abandon b c =
     (if consumer_abandoned b then Some (b, c)
      else
        do {
          (b1, c1) \<leftarrow> AbandonLocked b c;
          Some (b1\<lparr>consumer_abandoned := True\<rparr>, c1)
        })"

definition OnBuffersReleased_handler :: "ConsumerBase \<Rightarrow> BufferQueueCore \<Rightarrow> ConsumerBase option" where
  "OnBuffersReleased_handler b c =
     (if consumer_abandoned b then Some b
      else
        do {
          ASSERT (connected b);
          (_, out) \<leftarrow> GetReleasedBuffers c;
          let mask = (case out of Some m \<Rightarrow> m | None \<Rightarrow> 0);
          for_each
            (\<lambda>i b. if bit mask (nat i) then ConsumerBase_FreeBufferLocked i b else Some b)
            [0..NUM_BUFFER_SLOTS - 1] b
        })"

definition AcquireBufferLocked ::
    "s64 \<Rightarrow> ConsumerBase \<Rightarrow> BufferQueueCore \<Rightarrow>
     (Status \<times> BufferItem option \<times> ConsumerBase \<times> BufferQueueCore) option" where
  "AcquireBufferLocked present_when b c =
     do {
       ASSERT (connected b);
       (err, out, c1) \<leftarrow> AcquireBuffer present_when c;
       case out of
         None \<Rightarrow> Some (err, None, b, c1)
       | Some item \<Rightarrow>
           do {
             b1 \<leftarrow> cached_update (item_slot item)
                    (\<lambda>x. x\<lparr>cached_buffer :=
                           (if item_graphic_buffer item \<noteq> None then item_graphic_buffer item else cached_buffer x),
                         cached_frame_number := item_frame_number item, cached_fence := item_fence item\<rparr>) b;
             Some (err, Some item, b1, c1)
           }
     }"

text \<open>
  \<open>BufferItemConsumer::AcquireBuffer\<close> with \<^verbatim>\<open>wait_for_fence\<close> false, the only case the code implements: the item
  receives the cached buffer.
\<close>

definition BufferItemConsumer_AcquireBuffer ::
    "s64 \<Rightarrow> bool \<Rightarrow> ConsumerBase \<Rightarrow> BufferQueueCore \<Rightarrow>
     (Status \<times> BufferItem option \<times> ConsumerBase \<times> BufferQueueCore) option" where
  "BufferItemConsumer_AcquireBuffer present_when wait_for_fence b c =
     do {
       (status, out, b1, c1) \<leftarrow> AcquireBufferLocked present_when b c;
       if status \<noteq> Status_NoError then Some (status, None, b1, c1)
       else
         do {
           ASSERT (\<not> wait_for_fence);
           item \<leftarrow> out;
           ASSERT (0 \<le> item_slot item);
           x \<leftarrow> array_get (cached_slots b1) (nat (item_slot item));
           Some (Status_NoError, Some (item\<lparr>item_graphic_buffer := cached_buffer x\<rparr>), b1, c1)
         }
     }"

text \<open>The handles of the two buffers are compared, so the argument is dereferenced.\<close>

definition ConsumerBase_StillTracking ::
    "s32 \<Rightarrow> nat option \<Rightarrow> ConsumerBase \<Rightarrow> BufferQueueCore \<Rightarrow> bool option" where
  "ConsumerBase_StillTracking slot buffer b c =
     (if slot < 0 \<or> slot \<ge> NUM_BUFFER_SLOTS then Some False
      else
        do {
          x \<leftarrow> array_get (cached_slots b) (nat slot);
          case cached_buffer x of
            None \<Rightarrow> Some False
          | Some p \<Rightarrow>
              do {
                g \<leftarrow> array_get (graphic_buffers c) p;
                q \<leftarrow> buffer;
                h \<leftarrow> array_get (graphic_buffers c) q;
                Some (handle g = handle h)
              }
        })"

definition AddReleaseFenceLocked ::
    "s32 \<Rightarrow> nat option \<Rightarrow> Fence \<Rightarrow> ConsumerBase \<Rightarrow> BufferQueueCore \<Rightarrow> (Status \<times> ConsumerBase) option" where
  "AddReleaseFenceLocked slot buffer f b c =
     do {
       tracking \<leftarrow> ConsumerBase_StillTracking slot buffer b c;
       if \<not> tracking then Some (Status_NoError, b)
       else
         do {
           b1 \<leftarrow> cached_update slot (\<lambda>x. x\<lparr>cached_fence := f\<rparr>) b;
           Some (Status_NoError, b1)
         }
     }"

definition ReleaseBufferLocked ::
    "s32 \<Rightarrow> nat option \<Rightarrow> ConsumerBase \<Rightarrow> BufferQueueCore \<Rightarrow> (Status \<times> ConsumerBase \<times> BufferQueueCore) option" where
  "ReleaseBufferLocked slot buffer b c =
     do {
       tracking \<leftarrow> ConsumerBase_StillTracking slot buffer b c;
       if \<not> tracking then Some (Status_NoError, b, c)
       else
         do {
           ASSERT (connected b);
           x \<leftarrow> array_get (cached_slots b) (nat slot);
           (err, c1) \<leftarrow> ReleaseBuffer slot (cached_frame_number x) (cached_fence x) c;
           b1 \<leftarrow> (if err = Status_StaleBufferSlot then ConsumerBase_FreeBufferLocked slot b else Some b);
           b2 \<leftarrow> cached_update slot (\<lambda>x. x\<lparr>cached_fence := NoFence\<rparr>) b1;
           Some (err, b2, c1)
         }
     }"

definition BufferItemConsumer_ReleaseBuffer ::
    "BufferItem \<Rightarrow> Fence \<Rightarrow> ConsumerBase \<Rightarrow> BufferQueueCore \<Rightarrow>
     (Status \<times> ConsumerBase \<times> BufferQueueCore) option" where
  "BufferItemConsumer_ReleaseBuffer item release_fence b c =
     do {
       (_, b1) \<leftarrow> AddReleaseFenceLocked (item_slot item) (item_graphic_buffer item) release_fence b c;
       ReleaseBufferLocked (item_slot item) (item_graphic_buffer item) b1 c
     }"

end
