(* ===== verification/BufferQueueProducer.thy ===== *)
theory BufferQueueProducer
  imports BufferQueueConsumer
begin

text \<open>
  The producer's side of the buffer queue (\<^verbatim>\<open>buffer_queue_producer.cpp\<close>). An operation that waits takes the
  script of what other threads do meanwhile; \<open>DequeueBuffer\<close> drops the mutex before it stores a new buffer, and
  \<open>QueueBuffer\<close> before it calls the listener, so both take the effect of the other threads at that point. The
  event \<^verbatim>\<open>buffer_wait_event\<close> is the count of its signals.
\<close>

section \<open>State\<close>

record BufferQueueProducer =
  core :: BufferQueueCore
  sticky_transform :: u32
  next_callback_ticket :: s32
  current_callback_ticket :: s32
  buffer_wait_event :: nat

definition BufferQueueProducer_ctor :: "BufferQueueCore \<Rightarrow> BufferQueueProducer" where
  "BufferQueueProducer_ctor c =
     \<lparr>core = c, sticky_transform = 0, next_callback_ticket = 0, current_callback_ticket = 0,
      buffer_wait_event = 0\<rparr>"

definition Signal :: "BufferQueueProducer \<Rightarrow> BufferQueueProducer" where
  "Signal p = p\<lparr>buffer_wait_event := Suc (buffer_wait_event p)\<rparr>"

definition notify :: "(nat \<Rightarrow> ListenerCall) \<Rightarrow> nat option \<Rightarrow> BufferQueueCore \<Rightarrow> BufferQueueCore" where
  "notify call listener c =
     (case listener of None \<Rightarrow> c | Some l \<Rightarrow> c\<lparr>listener_calls := call l # listener_calls c\<rparr>)"

record QueueBufferInput =
  input_timestamp :: s64
  input_is_auto_timestamp :: s32
  input_crop :: Rectangle
  input_scaling_mode :: s32
  input_transform :: u32
  input_sticky_transform :: u32
  input_async :: s32
  input_swap_interval :: s32
  input_fence :: Fence

record QueueBufferOutput =
  output_width :: u32
  output_height :: u32
  output_transform_hint :: u32
  num_pending_buffers :: u32

section \<open>Requesting and counting buffers\<close>

definition RequestBuffer ::
    "s32 \<Rightarrow> BufferQueueProducer \<Rightarrow> (Status \<times> nat option \<times> BufferQueueProducer) option" where
  "RequestBuffer slot p =
     (if is_abandoned (core p) then Some (Status_NoInit, None, p)
      else if slot < 0 \<or> slot \<ge> NUM_BUFFER_SLOTS then Some (Status_BadValue, None, p)
      else
        do {
          x \<leftarrow> slot_at slot (core p);
          if buffer_state x \<noteq> Dequeued then Some (Status_BadValue, None, p)
          else
            do {
              c1 \<leftarrow> slot_update slot (\<lambda>x. x\<lparr>request_buffer_called := True\<rparr>) (core p);
              Some (Status_NoError, graphic_buffer x, p\<lparr>core := c1\<rparr>)
            }
        })"

definition SetBufferCount ::
    "s32 \<Rightarrow> BufferQueueProducer \<Rightarrow> (Status \<times> BufferQueueProducer) wait_outcome option" where
  "SetBufferCount buffer_count p =
     (case WaitWhileAllocatingLocked (core p) of
        Blocked c \<Rightarrow> Some (Blocked c)
      | Finished _ \<Rightarrow>
          if is_abandoned (core p) then Some (Finished (Status_NoInit, p))
          else if buffer_count > NUM_BUFFER_SLOTS then Some (Finished (Status_BadValue, p))
          else if list_ex (\<lambda>x. buffer_state x = Dequeued) (slots (core p)) then
            Some (Finished (Status_BadValue, p))
          else if buffer_count = 0 then
            Some (Finished (Status_NoError,
              p\<lparr>core := SignalDequeueCondition ((core p)\<lparr>override_max_buffer_count := 0\<rparr>)\<rparr>))
          else if buffer_count < GetMinMaxBufferCountLocked False (core p) then
            Some (Finished (Status_BadValue, p))
          else
            do {
              c1 \<leftarrow> (if GetPreallocatedBufferCountLocked (core p) \<le> 0 then FreeAllBuffersLocked (core p)
                     else Some (core p));
              let c2 = SignalDequeueCondition (c1\<lparr>override_max_buffer_count := buffer_count\<rparr>);
              Some (Finished (Status_NoError,
                Signal (p\<lparr>core := notify OnBuffersReleased (consumer_listener c2) c2\<rparr>)))
            })"

section \<open>Waiting for a free slot\<close>

text \<open>The first inner loop: buffers in slots beyond the maximum are freed.\<close>

definition release_excess_slot :: "s32 \<Rightarrow> Status \<times> BufferQueueCore \<Rightarrow> (Status \<times> BufferQueueCore) option" where
  "release_excess_slot s = (\<lambda>(return_flags, c).
     do {
       x \<leftarrow> slot_at s c;
       ASSERT (buffer_state x = Free);
       if graphic_buffer x \<noteq> None \<and> buffer_state x = Free \<and> \<not> is_preallocated x then
         do {
           c1 \<leftarrow> FreeBufferLocked s c;
           Some (return_flags OR Status_ReleaseAllBuffers, c1)
         }
       else Some (return_flags, c)
     })"

text \<open>The second: the oldest free slot, and how many are dequeued and acquired.\<close>

definition scan_slot ::
    "BufferQueueCore \<Rightarrow> s32 \<Rightarrow> s32 \<times> s32 \<times> s32 \<Rightarrow> (s32 \<times> s32 \<times> s32) option" where
  "scan_slot c s = (\<lambda>(found, dequeued_count, acquired_count).
     do {
       x \<leftarrow> slot_at s c;
       case buffer_state x of
         Dequeued \<Rightarrow> Some (found, dequeued_count + 1, acquired_count)
       | Acquired \<Rightarrow> Some (found, dequeued_count, acquired_count + 1)
       | Free \<Rightarrow>
           if found = INVALID_BUFFER_SLOT then Some (s, dequeued_count, acquired_count)
           else
             do {
               y \<leftarrow> slot_at found c;
               Some (if frame_number x < frame_number y then s else found, dequeued_count, acquired_count)
             }
       | Queued \<Rightarrow> Some (found, dequeued_count, acquired_count)
     })"

text \<open>One round of the outer loop: a result, or the decision to wait.\<close>

datatype WaitDecision = Decide Status s32 Status BufferQueueCore | Wait s32 Status BufferQueueCore

definition wait_round :: "bool \<Rightarrow> s32 \<Rightarrow> Status \<Rightarrow> BufferQueueCore \<Rightarrow> WaitDecision option" where
  "wait_round async found return_flags c =
     (if is_abandoned c then Some (Decide Status_NoInit found return_flags c)
      else
        do {
          max_buffer_count \<leftarrow> GetMaxBufferCountLocked async c;
          if async \<and> override_max_buffer_count c \<noteq> 0 \<and> override_max_buffer_count c < max_buffer_count then
            Some (Decide Status_BadValue INVALID_BUFFER_SLOT return_flags c)
          else
            do {
              (flags1, c1) \<leftarrow> for_each release_excess_slot [max_buffer_count..NUM_BUFFER_SLOTS - 1] (return_flags, c);
              (found1, dequeued_count, acquired_count) \<leftarrow>
                for_each (scan_slot c1) [0..max_buffer_count - 1] (INVALID_BUFFER_SLOT, 0, 0);
              if override_max_buffer_count c1 = 0 \<and> dequeued_count \<noteq> 0 then
                Some (Decide Status_InvalidOperation found1 flags1 c1)
              else if buffer_has_been_queued c1 \<and>
                  max_buffer_count - (dequeued_count + 1) < GetMinUndequeuedBufferCountLocked async c1 then
                Some (Decide Status_InvalidOperation found1 flags1 c1)
              else
                let too_many_buffers = int (length (queue c1)) > max_buffer_count
                in if found1 = INVALID_BUFFER_SLOT \<or> too_many_buffers then
                     if dequeue_buffer_cannot_block c1 \<and> acquired_count \<le> max_acquired_buffer_count then
                       Some (Decide Status_WouldBlock found1 flags1 c1)
                     else Some (Wait found1 flags1 c1)
                   else Some (Decide Status_NoError found1 flags1 c1)
            }
        })"

text \<open>
  Every wait consumes the flag \<open>dequeue_possible\<close> or an entry of the script, so the loop with a script ends.
\<close>

lemma release_excess_slot_possible:
  "release_excess_slot s (fl, c) = Some (fl', c') \<Longrightarrow> dequeue_possible c' = dequeue_possible c"
  by (auto simp: release_excess_slot_def FreeBufferLocked_def slot_update_def bind_eq_Some_conv split: if_splits)

lemma release_excess_possible:
  assumes "for_each release_excess_slot ss (fl, c) = Some (fl', c')"
  shows "dequeue_possible c' = dequeue_possible c"
  using for_each_invariant [OF assms, of "\<lambda>(_, d). dequeue_possible d = dequeue_possible c"]
    release_excess_slot_possible by fastforce

lemma wait_round_possible:
  "wait_round async found fl c = Some (Wait found' fl' c') \<Longrightarrow> dequeue_possible c' = dequeue_possible c"
  by (auto simp: wait_round_def bind_eq_Some_conv Let_def split: if_splits dest: release_excess_possible)

lemma WaitForDequeueCondition_length:
  "WaitForDequeueCondition env c = Finished (env', c') \<Longrightarrow>
   \<not> dequeue_possible c' \<and> (length env' < length env \<or> env' = env \<and> dequeue_possible c)"
  by (induction env c rule: WaitForDequeueCondition.induct) (fastforce split: if_splits)+

function WaitForFreeSlotThenRelock ::
    "bool \<Rightarrow> interference \<Rightarrow> s32 \<Rightarrow> Status \<Rightarrow> BufferQueueCore \<Rightarrow>
     (Status \<times> s32 \<times> Status \<times> BufferQueueCore) wait_outcome option" where
  "WaitForFreeSlotThenRelock async env found return_flags c =
     (case wait_round async found return_flags c of
        None \<Rightarrow> None
      | Some (Decide status found1 flags1 c1) \<Rightarrow> Some (Finished (status, found1, flags1, c1))
      | Some (Wait found1 flags1 c1) \<Rightarrow>
          (case WaitForDequeueCondition env c1 of
             Blocked c2 \<Rightarrow> Some (Blocked c2)
           | Finished (env1, c2) \<Rightarrow> WaitForFreeSlotThenRelock async env1 found1 flags1 c2))"
  by pat_completeness auto
termination
  by (relation "measure (\<lambda>(async, env, found, fl, c). 2 * length env + (if dequeue_possible c then 1 else 0))")
    (auto dest!: wait_round_possible WaitForDequeueCondition_length)

declare WaitForFreeSlotThenRelock.simps [simp del]

section \<open>Dequeueing\<close>

text \<open>The part of \<open>DequeueBuffer\<close> under the first lock, once a slot is found.\<close>

definition needs_reallocation :: "nat option \<Rightarrow> u32 \<Rightarrow> u32 \<Rightarrow> u32 \<Rightarrow> u32 \<Rightarrow> BufferQueueCore \<Rightarrow> bool option" where
  "needs_reallocation buffer width height fmt usage c =
     (case buffer of
        None \<Rightarrow> Some True
      | Some b \<Rightarrow>
          do {
            g \<leftarrow> array_get (graphic_buffers c) b;
            Some (Width g \<noteq> width \<or> Height g \<noteq> height \<or> gb_format g \<noteq> fmt \<or> Usage g AND usage \<noteq> usage)
          })"

definition take_slot ::
    "s32 \<Rightarrow> u32 \<Rightarrow> u32 \<Rightarrow> u32 \<Rightarrow> u32 \<Rightarrow> BufferQueueCore \<Rightarrow> (bool \<times> Fence \<times> BufferQueueCore) option" where
  "take_slot found width height fmt usage c =
     do {
       x \<leftarrow> slot_at found c;
       realloc \<leftarrow> needs_reallocation (graphic_buffer x) width height fmt usage c;
       let x1 = x\<lparr>buffer_state := Dequeued\<rparr>;
       let x2 = (if realloc then
                   x1\<lparr>acquire_called := False, graphic_buffer := None, request_buffer_called := False, fence := NoFence\<rparr>
                 else x1);
       c1 \<leftarrow> slot_update found (\<lambda>_. x2\<lparr>fence := NoFence\<rparr>) c;
       Some (realloc, fence x2, c1)
     }"

text \<open>
  The result holds the status or flags, the slot and the fence. The function \<open>between\<close> is what other threads do to the
  core while the new buffer is made.
\<close>

type_synonym dequeue_result = "Status \<times> s32 option \<times> Fence option \<times> BufferQueueCore"

definition store_new_buffer ::
    "s32 \<Rightarrow> u32 \<Rightarrow> u32 \<Rightarrow> u32 \<Rightarrow> u32 \<Rightarrow> BufferQueueCore \<Rightarrow> (bool \<times> BufferQueueCore) option" where
  "store_new_buffer slot width height fmt usage c =
     (if is_abandoned c then Some (False, c)
      else
        let (b, c1) = new_graphic_buffer (NvGraphicBuffer_ctor width height fmt usage) c
        in do {
             c2 \<leftarrow> slot_update slot (\<lambda>x. x\<lparr>frame_number := 0xFFFFFFFF, graphic_buffer := Some b\<rparr>) c1;
             Some (True, c2)
           })"

definition dequeue_found ::
    "s32 \<Rightarrow> Status \<Rightarrow> u32 \<Rightarrow> u32 \<Rightarrow> u32 \<Rightarrow> u32 \<Rightarrow> (BufferQueueCore \<Rightarrow> BufferQueueCore) \<Rightarrow> BufferQueueCore \<Rightarrow>
     dequeue_result option" where
  "dequeue_found found return_flags width height fmt usage between c =
     do {
       x \<leftarrow> slot_at found c;
       let w = (if width = 0 \<and> height = 0 then default_width c else width);
       let h = (if width = 0 \<and> height = 0 then default_height c else height);
       (realloc, out_fence, c1) \<leftarrow> take_slot found w h fmt usage c;
       let flags1 = (if realloc then return_flags OR Status_BufferNeedsReallocation else return_flags);
       (stored, c2) \<leftarrow> (if flags1 AND Status_BufferNeedsReallocation \<noteq> Status_None
                        then store_new_buffer found w h fmt usage (between c1) else Some (True, c1));
       let flags2 = (if attached_by_consumer x then flags1 OR Status_BufferNeedsReallocation else flags1);
       Some (if stored then (flags2, Some found, Some out_fence, c2)
             else (Status_NoInit, Some found, Some out_fence, c2))
     }"

definition DequeueBuffer ::
    "bool \<Rightarrow> u32 \<Rightarrow> u32 \<Rightarrow> u32 \<Rightarrow> u32 \<Rightarrow> interference \<Rightarrow> (BufferQueueCore \<Rightarrow> BufferQueueCore) \<Rightarrow>
     BufferQueueCore \<Rightarrow> dequeue_result wait_outcome option" where
  "DequeueBuffer async width height format usage env between c =
     (if width \<noteq> 0 \<and> height = 0 \<or> width = 0 \<and> height \<noteq> 0 then Some (Finished (Status_BadValue, None, None, c))
      else
        case WaitWhileAllocatingLocked c of
          Blocked c1 \<Rightarrow> Some (Blocked c1)
        | Finished _ \<Rightarrow>
            let fmt = (if format = PixelFormat_NoFormat then default_buffer_format c else format);
                usage1 = usage OR consumer_usage_bit c
            in do {
                 r \<leftarrow> WaitForFreeSlotThenRelock async env 0 Status_NoError c;
                 case r of
                   Blocked c1 \<Rightarrow> Some (Blocked c1)
                 | Finished (status, found, flags, c1) \<Rightarrow>
                     if status \<noteq> Status_NoError then Some (Finished (status, None, None, c1))
                     else if found = INVALID_BUFFER_SLOT then Some (Finished (Status_Busy, None, None, c1))
                     else map_option Finished (dequeue_found found flags width height fmt usage1 between c1)
               })"

definition DetachBuffer :: "s32 \<Rightarrow> BufferQueueCore \<Rightarrow> (Status \<times> BufferQueueCore) option" where
  "DetachBuffer slot c =
     (if is_abandoned c then Some (Status_NoInit, c)
      else if slot < 0 \<or> slot \<ge> NUM_BUFFER_SLOTS then Some (Status_BadValue, c)
      else
        do {
          x \<leftarrow> slot_at slot c;
          if buffer_state x \<noteq> Dequeued then Some (Status_BadValue, c)
          else if \<not> request_buffer_called x then Some (Status_BadValue, c)
          else
            do {
              c1 \<leftarrow> FreeBufferLocked slot c;
              Some (Status_NoError, SignalDequeueCondition c1)
            }
        })"

definition oldest_free_buffer :: "BufferQueueCore \<Rightarrow> s32 \<Rightarrow> s32 \<Rightarrow> s32 option" where
  "oldest_free_buffer c s found =
     do {
       x \<leftarrow> slot_at s c;
       if buffer_state x = Free \<and> graphic_buffer x \<noteq> None then
         if found = INVALID_BUFFER_SLOT then Some s
         else
           do {
             y \<leftarrow> slot_at found c;
             Some (if frame_number x < frame_number y then s else found)
           }
       else Some found
     }"

definition DetachNextBuffer ::
    "BufferQueueCore \<Rightarrow> (Status \<times> nat option \<times> Fence option \<times> BufferQueueCore) wait_outcome option" where
  "DetachNextBuffer c =
     (case WaitWhileAllocatingLocked c of
        Blocked c1 \<Rightarrow> Some (Blocked c1)
      | Finished _ \<Rightarrow>
          if is_abandoned c then Some (Finished (Status_NoInit, None, None, c))
          else
            do {
              found \<leftarrow> for_each (oldest_free_buffer c) [0..NUM_BUFFER_SLOTS - 1] INVALID_BUFFER_SLOT;
              if found = INVALID_BUFFER_SLOT then Some (Finished (Status_NoMemory, None, None, c))
              else
                do {
                  x \<leftarrow> slot_at found c;
                  c1 \<leftarrow> FreeBufferLocked found c;
                  Some (Finished (Status_NoError, graphic_buffer x, Some (fence x), c1))
                }
            })"

definition AttachBuffer ::
    "nat option \<Rightarrow> interference \<Rightarrow> BufferQueueCore \<Rightarrow>
     (Status \<times> s32 option \<times> BufferQueueCore) wait_outcome option" where
  "AttachBuffer buffer env c =
     (if buffer = None then Some (Finished (Status_BadValue, None, c))
      else
        case WaitWhileAllocatingLocked c of
          Blocked c1 \<Rightarrow> Some (Blocked c1)
        | Finished _ \<Rightarrow>
            do {
              r \<leftarrow> WaitForFreeSlotThenRelock False env 0 Status_NoError c;
              case r of
                Blocked c1 \<Rightarrow> Some (Blocked c1)
              | Finished (status, found, flags, c1) \<Rightarrow>
                  if status \<noteq> Status_NoError then Some (Finished (status, None, c1))
                  else if found = INVALID_BUFFER_SLOT then Some (Finished (Status_Busy, None, c1))
                  else
                    do {
                      c2 \<leftarrow> slot_update found
                             (\<lambda>x. x\<lparr>graphic_buffer := buffer, buffer_state := Dequeued, fence := NoFence,
                                  request_buffer_called := True\<rparr>) c1;
                      Some (Finished (flags, Some found, c2))
                    }
            })"

section \<open>Queueing\<close>

definition known_scaling_mode :: "s32 \<Rightarrow> bool" where
  "known_scaling_mode m \<longleftrightarrow>
     m = NativeWindowScalingMode_Freeze \<or> m = NativeWindowScalingMode_ScaleToWindow \<or>
     m = NativeWindowScalingMode_ScaleCrop \<or> m = NativeWindowScalingMode_NoScaleCrop \<or>
     m = NativeWindowScalingMode_PreserveAspectRatio"

text \<open>The checks on the slot: the index, the owner, the request and the crop rectangle.\<close>

definition queue_checks :: "s32 \<Rightarrow> s32 \<Rightarrow> Rectangle \<Rightarrow> BufferQueueCore \<Rightarrow> bool option" where
  "queue_checks slot max_buffer_count crp c =
     (if slot < 0 \<or> slot \<ge> max_buffer_count then Some False
      else
        do {
          x \<leftarrow> slot_at slot c;
          if buffer_state x \<noteq> Dequeued \<or> \<not> request_buffer_called x then Some False
          else
            do {
              b \<leftarrow> graphic_buffer x;
              g \<leftarrow> array_get (graphic_buffers c) b;
              Some (Intersect crp (Rectangle_of_size (sint (Width g)) (sint (Height g))) = crp)
            }
        })"

definition queue_item :: "s32 \<Rightarrow> QueueBufferInput \<Rightarrow> BufferSlot \<Rightarrow> BufferQueueCore \<Rightarrow> BufferItem" where
  "queue_item slot input x c =
     \<lparr>item_graphic_buffer = graphic_buffer x, item_fence = input_fence input, crop = input_crop input,
      transform = input_transform input AND NOT NativeWindowTransform_InverseDisplay,
      scaling_mode = word_of_int (input_scaling_mode input), timestamp = input_timestamp input,
      is_auto_timestamp = (input_is_auto_timestamp input \<noteq> 0), item_frame_number = frame_counter c,
      item_slot = slot, is_droppable = (dequeue_buffer_cannot_block c \<or> input_async input \<noteq> 0),
      item_acquire_called = acquire_called x,
      transform_to_display_inverse =
        (input_transform input AND NativeWindowTransform_InverseDisplay \<noteq> NativeWindowTransform_None),
      swap_interval = input_swap_interval input\<rparr>"

text \<open>
  Insertion into the queue: a droppable front item is replaced, otherwise the item goes to the end. The boolean says that
  a frame was replaced.
\<close>

definition push_item :: "BufferItem \<Rightarrow> BufferQueueCore \<Rightarrow> (bool \<times> BufferQueueCore) option" where
  "push_item item c =
     (case queue c of
        [] \<Rightarrow> Some (False, c\<lparr>queue := [item]\<rparr>)
      | front # rest \<Rightarrow>
          if is_droppable front then
            do {
              tracked \<leftarrow> StillTracking front c;
              c1 \<leftarrow> (if tracked then
                       slot_update (item_slot front) (\<lambda>x. x\<lparr>buffer_state := Free, frame_number := 0\<rparr>) c
                     else Some c);
              Some (True, c1\<lparr>queue := item # rest\<rparr>)
            }
          else Some (False, c\<lparr>queue := queue c @ [item]\<rparr>))"

text \<open>What happens under the lock: an error status, or the callback that is due.\<close>

datatype QueueLocked =
    QueueError Status
  | QueueDone (replaced: bool) (listener: "nat option") (ticket: s32) (queued: BufferItem)
      (queue_output: QueueBufferOutput)

definition queue_locked ::
    "s32 \<Rightarrow> QueueBufferInput \<Rightarrow> BufferQueueProducer \<Rightarrow> (QueueLocked \<times> BufferQueueProducer) option" where
  "queue_locked slot input p =
     (let c = core p; async = (input_async input \<noteq> 0)
      in if is_abandoned c then Some (QueueError Status_NoInit, p)
         else
           do {
             max_buffer_count \<leftarrow> GetMaxBufferCountLocked async c;
             if async \<and> override_max_buffer_count c \<noteq> 0 \<and> override_max_buffer_count c < max_buffer_count then
               Some (QueueError Status_BadValue, p)
             else
               do {
                 ok \<leftarrow> queue_checks slot max_buffer_count (input_crop input) c;
                 if \<not> ok then Some (QueueError Status_BadValue, p)
                 else
                   do {
                     let counter = frame_counter c + 1;
                     c1 \<leftarrow> slot_update slot
                            (\<lambda>x. x\<lparr>fence := input_fence input, buffer_state := Queued, frame_number := counter\<rparr>)
                            (c\<lparr>frame_counter := counter\<rparr>);
                     x \<leftarrow> slot_at slot c1;
                     let item = queue_item slot input x c1;
                     (repl, c2) \<leftarrow> push_item item c1;
                     let c3 = SignalDequeueCondition (c2\<lparr>buffer_has_been_queued := True\<rparr>);
                     let output =
                       \<lparr>output_width = default_width c3, output_height = default_height c3,
                        output_transform_hint = transform_hint c3,
                        num_pending_buffers = word_of_nat (length (queue c3))\<rparr>;
                     next \<leftarrow> s32_add (next_callback_ticket p) 1;
                     Some (QueueDone repl (consumer_listener c3) (next_callback_ticket p) item output,
                       p\<lparr>core := c3, sticky_transform := input_sticky_transform input,
                         next_callback_ticket := next\<rparr>)
                   }
               }
           })"

text \<open>
  The callback under the callback lock, in the order of the tickets: it is due when the ticket is the current one.
\<close>

definition queue_callback ::
    "bool \<Rightarrow> nat option \<Rightarrow> s32 \<Rightarrow> BufferItem \<Rightarrow> BufferQueueProducer \<Rightarrow> BufferQueueProducer wait_outcome option" where
  "queue_callback repl lst tkt item p =
     (if tkt \<noteq> current_callback_ticket p then Some (Blocked (core p))
      else
        do {
          let sent = item\<lparr>item_graphic_buffer := None, item_slot := INVALID_BUFFER_SLOT\<rparr>;
          next \<leftarrow> s32_add (current_callback_ticket p) 1;
          Some (Finished (p\<lparr>core := notify (\<lambda>l. if repl then OnFrameReplaced l sent else OnFrameAvailable l sent)
                                    lst (core p),
                           current_callback_ticket := next\<rparr>))
        })"

definition QueueBuffer ::
    "s32 \<Rightarrow> QueueBufferInput \<Rightarrow> (BufferQueueProducer \<Rightarrow> BufferQueueProducer) \<Rightarrow> BufferQueueProducer \<Rightarrow>
     (Status \<times> QueueBufferOutput option \<times> BufferQueueProducer) wait_outcome option" where
  "QueueBuffer slot input between p =
     (if \<not> known_scaling_mode (input_scaling_mode input) then Some (Finished (Status_BadValue, None, p))
      else
        do {
          (r, p1) \<leftarrow> queue_locked slot input p;
          case r of
            QueueError status \<Rightarrow> Some (Finished (status, None, p1))
          | QueueDone repl lst tkt item output \<Rightarrow>
              do {
                w \<leftarrow> queue_callback repl lst tkt item (between p1);
                case w of
                  Blocked c \<Rightarrow> Some (Blocked c)
                | Finished p2 \<Rightarrow> Some (Finished (Status_NoError, Some output, p2))
              }
        })"

definition CancelBuffer :: "s32 \<Rightarrow> Fence \<Rightarrow> BufferQueueProducer \<Rightarrow> BufferQueueProducer option" where
  "CancelBuffer slot f p =
     (if is_abandoned (core p) then Some p
      else if slot < 0 \<or> slot \<ge> NUM_BUFFER_SLOTS then Some p
      else
        do {
          x \<leftarrow> slot_at slot (core p);
          if buffer_state x \<noteq> Dequeued then Some p
          else
            do {
              c1 \<leftarrow> slot_update slot (\<lambda>x. x\<lparr>buffer_state := Free, frame_number := 0, fence := f\<rparr>) (core p);
              Some (Signal (p\<lparr>core := SignalDequeueCondition c1\<rparr>))
            }
        })"

definition Query :: "s32 \<Rightarrow> BufferQueueProducer \<Rightarrow> (Status \<times> s32 option) option" where
  "Query what p =
     (let c = core p
      in if is_abandoned c then Some (Status_NoInit, None)
         else if what = NativeWindow_Width then Some (Status_NoError, Some (sint (default_width c)))
         else if what = NativeWindow_Height then Some (Status_NoError, Some (sint (default_height c)))
         else if what = NativeWindow_Format then Some (Status_NoError, Some (sint (default_buffer_format c)))
         else if what = NativeWindow_MinUndequeedBuffers then
           Some (Status_NoError, Some (GetMinUndequeuedBufferCountLocked False c))
         else if what = NativeWindow_StickyTransform then Some (Status_NoError, Some (sint (sticky_transform p)))
         else if what = NativeWindow_ConsumerRunningBehind then
           Some (Status_NoError, Some (if length (queue c) > 1 then 1 else 0))
         else if what = NativeWindow_ConsumerUsageBits then
           Some (Status_NoError, Some (sint (consumer_usage_bit c)))
         else None)"

section \<open>Connecting\<close>

definition known_api :: "s32 \<Rightarrow> bool" where
  "known_api api \<longleftrightarrow> api = NativeWindowApi_Egl \<or> api = NativeWindowApi_Cpu \<or> api = NativeWindowApi_Media \<or>
     api = NativeWindowApi_Camera"

definition Producer_Connect ::
    "nat option \<Rightarrow> s32 \<Rightarrow> bool \<Rightarrow> BufferQueueCore \<Rightarrow> Status \<times> QueueBufferOutput option \<times> BufferQueueCore" where
  "Producer_Connect lst api producer_controlled_by_app c =
     (if is_abandoned c then (Status_NoInit, None, c)
      else if consumer_listener c = None then (Status_NoInit, None, c)
      else if connected_api c \<noteq> NativeWindowApi_NoConnectedApi then (Status_BadValue, None, c)
      else
        let (status, output, c1) =
          (if known_api api then
             (Status_NoError,
              Some \<lparr>output_width = default_width c, output_height = default_height c,
                    output_transform_hint = transform_hint c,
                    num_pending_buffers = word_of_nat (length (queue c))\<rparr>,
              c\<lparr>connected_api := api, connected_producer_listener := lst\<rparr>)
           else (Status_BadValue, None, c))
        in (status, output,
            c1\<lparr>buffer_has_been_queued := False,
               dequeue_buffer_cannot_block := consumer_controlled_by_app c1 \<and> producer_controlled_by_app\<rparr>))"

definition Producer_Disconnect ::
    "s32 \<Rightarrow> BufferQueueProducer \<Rightarrow> (Status \<times> BufferQueueProducer) wait_outcome option" where
  "Producer_Disconnect api p =
     (case WaitWhileAllocatingLocked (core p) of
        Blocked c \<Rightarrow> Some (Blocked c)
      | Finished _ \<Rightarrow>
          if is_abandoned (core p) then Some (Finished (Status_NoError, p))
          else if \<not> known_api api then Some (Finished (Status_BadValue, p))
          else if connected_api (core p) \<noteq> api then Some (Finished (Status_BadValue, p))
          else
            do {
              c1 \<leftarrow> FreeAllBuffersLocked ((core p)\<lparr>queue := []\<rparr>);
              let c2 = SignalDequeueCondition
                         (c1\<lparr>connected_producer_listener := None, connected_api := NativeWindowApi_NoConnectedApi\<rparr>);
              Some (Finished (Status_NoError,
                Signal (p\<lparr>core := notify OnBuffersReleased (consumer_listener c2) c2\<rparr>)))
            })"

definition SetPreallocatedBuffer ::
    "s32 \<Rightarrow> NvGraphicBuffer option \<Rightarrow> BufferQueueProducer \<Rightarrow> (Status \<times> BufferQueueProducer) option" where
  "SetPreallocatedBuffer slot buffer p =
     (if slot < 0 \<or> slot \<ge> NUM_BUFFER_SLOTS then Some (Status_BadValue, p)
      else
        let (b, c) = new_graphic_buffer (GetBuffer buffer) (core p)
        in do {
             c1 \<leftarrow> slot_update slot
                    (\<lambda>_. BufferSlot_default\<lparr>fence := NoFence, graphic_buffer := Some b, frame_number := 0\<rparr>) c;
             c2 \<leftarrow> (case buffer of
                      None \<Rightarrow> Some c1
                    | Some nv \<Rightarrow>
                        do {
                          d \<leftarrow> slot_update slot (\<lambda>x. x\<lparr>is_preallocated := True\<rparr>) c1;
                          Some (d\<lparr>override_max_buffer_count := GetPreallocatedBufferCountLocked d,
                                  default_width := Width nv, default_height := Height nv,
                                  default_buffer_format := gb_format nv\<rparr>)
                        });
             Some (Status_NoError, Signal (p\<lparr>core := SignalDequeueCondition c2\<rparr>))
           })"

end
