(* ===== verification/BufferQueue.thy ===== *)
theory BufferQueue
  imports BufferQueueProducer
begin

text \<open>
  Safety of the buffer queue: an invariant that ties the items in the queue to the states of the slots, kept by every
  operation of the producer and the consumer in any order, and what follows for dequeueing, queueing, acquiring and
  releasing a buffer.
\<close>

section \<open>The invariant\<close>

text \<open>The slot of an item still holds the item's buffer.\<close>

definition tracks :: "BufferSlot list \<Rightarrow> BufferItem \<Rightarrow> bool" where
  "tracks sl item \<longleftrightarrow> (\<exists>b. graphic_buffer (sl ! nat (item_slot item)) = Some b \<and> item_graphic_buffer item = Some b)"

definition acquired_count :: "BufferSlot list \<Rightarrow> nat" where
  "acquired_count sl = length (filter (\<lambda>x. buffer_state x = Acquired) sl)"

definition item_ok :: "BufferSlot list \<Rightarrow> nat \<Rightarrow> BufferItem \<Rightarrow> bool" where
  "item_ok sl n item \<longleftrightarrow>
     0 \<le> item_slot item \<and> item_slot item < 64 \<and> (\<exists>b < n. item_graphic_buffer item = Some b) \<and>
     (tracks sl item \<longrightarrow>
       buffer_state (sl ! nat (item_slot item)) = Queued \<and>
       frame_number (sl ! nat (item_slot item)) = item_frame_number item)"

text \<open>
  The invariant on the slots, the queue and the number of buffers made: a tracked item's slot is queued with the item's
  frame number, no two tracked items share a slot, and at most one slot is acquired.
\<close>

definition bq_inv :: "BufferSlot list \<Rightarrow> BufferItem list \<Rightarrow> nat \<Rightarrow> bool" where
  "bq_inv sl q n \<longleftrightarrow>
     length sl = 64 \<and> (\<forall>i < 64. \<forall>b. graphic_buffer (sl ! i) = Some b \<longrightarrow> b < n) \<and> acquired_count sl \<le> 1 \<and>
     (\<forall>item \<in> set q. item_ok sl n item) \<and> distinct (map item_slot (filter (tracks sl) q))"

definition bq_ok :: "BufferQueueCore \<Rightarrow> bool" where
  "bq_ok c \<longleftrightarrow> bq_inv (slots c) (queue c) (length (graphic_buffers c)) \<and>
     0 \<le> override_max_buffer_count c \<and> override_max_buffer_count c \<le> 64 \<and> default_max_buffer_count c = 2"

lemma bq_ok_ctor: "bq_ok BufferQueueCore_ctor"
  by (simp add: bq_ok_def bq_inv_def BufferQueueCore_ctor_def NUM_BUFFER_SLOTS_def acquired_count_def
      BufferSlot_default_def)

text \<open>A slot that is not queued is tracked by no item.\<close>

definition untracked :: "nat \<Rightarrow> nat option \<Rightarrow> BufferItem list \<Rightarrow> bool" where
  "untracked s b q \<longleftrightarrow> (\<forall>item \<in> set q. nat (item_slot item) = s \<longrightarrow> b \<noteq> None \<longrightarrow> item_graphic_buffer item \<noteq> b)"

lemma untracked_None [simp]: "untracked s None q"
  by (simp add: untracked_def)

lemma untracked_subset: "untracked s b q \<Longrightarrow> set q' \<subseteq> set q \<Longrightarrow> untracked s b q'"
  by (auto simp: untracked_def)

lemma not_queued_untracked:
  "bq_inv sl q n \<Longrightarrow> buffer_state (sl ! s) \<noteq> Queued \<Longrightarrow> untracked s (graphic_buffer (sl ! s)) q"
  by (fastforce simp: untracked_def bq_inv_def item_ok_def tracks_def)

lemma fresh_untracked: "bq_inv sl q n \<Longrightarrow> n \<le> b \<Longrightarrow> untracked s (Some b) q"
  by (fastforce simp: untracked_def bq_inv_def item_ok_def)

lemma acquired_count_update:
  "s < length sl \<Longrightarrow> acquired_count (sl[s := x]) \<le> acquired_count sl + (if buffer_state x = Acquired then 1 else 0)"
  unfolding acquired_count_def
proof (induction sl arbitrary: s)
  case (Cons y sl)
  then show ?case by (cases s) auto
qed simp

lemma acquired_count_keep:
  "s < length sl \<Longrightarrow> buffer_state x = buffer_state (sl ! s) \<Longrightarrow> acquired_count (sl[s := x]) = acquired_count sl"
  unfolding acquired_count_def
proof (induction sl arbitrary: s)
  case (Cons y sl)
  then show ?case by (cases s) auto
qed simp

text \<open>A slot change that keeps the buffer, the state and the frame number.\<close>

definition same_key :: "BufferSlot \<Rightarrow> BufferSlot \<Rightarrow> bool" where
  "same_key x y \<longleftrightarrow> graphic_buffer x = graphic_buffer y \<and> buffer_state x = buffer_state y \<and>
     frame_number x = frame_number y"

lemma bq_inv_same_key:
  assumes "bq_inv sl q n" "s < 64" "same_key x (sl ! s)"
  shows "bq_inv (sl[s := x]) q n"
proof -
  have l: "length sl = 64"
    using assms(1) by (simp add: bq_inv_def)
  have eq: "graphic_buffer (sl[s := x] ! i) = graphic_buffer (sl ! i)"
    "buffer_state (sl[s := x] ! i) = buffer_state (sl ! i)"
    "frame_number (sl[s := x] ! i) = frame_number (sl ! i)" for i
    using assms(2,3) l by (cases "i = s"; simp add: same_key_def)+
  have "tracks (sl[s := x]) = tracks sl"
    by (rule ext) (simp add: tracks_def eq)
  moreover have "acquired_count (sl[s := x]) = acquired_count sl"
    using assms(2,3) l by (intro acquired_count_keep) (simp_all add: same_key_def)
  ultimately show ?thesis
    using assms(1) by (simp add: bq_inv_def item_ok_def eq)
qed

text \<open>A slot change after which no item tracks the slot.\<close>

lemma bq_inv_update:
  assumes "bq_inv sl q n" "s < 64" "untracked s (graphic_buffer x) q"
    "\<And>b. graphic_buffer x = Some b \<Longrightarrow> b < n"
    "buffer_state x = Acquired \<Longrightarrow> acquired_count sl = 0 \<or> buffer_state (sl ! s) = Acquired"
  shows "bq_inv (sl[s := x]) q n"
proof -
  have l: "length sl = 64"
    using assms(1) by (simp add: bq_inv_def)
  have tr: "tracks (sl[s := x]) item \<longleftrightarrow> tracks sl item \<and> nat (item_slot item) \<noteq> s" if "item \<in> set q" for item
    using that assms(2,3) l by (cases "nat (item_slot item) = s") (auto simp: tracks_def untracked_def)
  have ac: "acquired_count (sl[s := x]) \<le> 1"
  proof (cases "buffer_state x = buffer_state (sl ! s)")
    case True
    then show ?thesis
      using acquired_count_keep assms(1,2) l by (simp add: bq_inv_def)
  next
    case False
    then show ?thesis
      using acquired_count_update [of s sl x] assms(1,2,5) l by (auto simp: bq_inv_def split: if_splits)
  qed
  have "filter (tracks (sl[s := x])) q = filter (\<lambda>i. nat (item_slot i) \<noteq> s) (filter (tracks sl) q)"
    using tr by (auto simp: intro: filter_cong)
  moreover have "distinct (map item_slot (filter P xs))" if "distinct (map item_slot xs)" for P and xs :: "BufferItem list"
    using that by (induction xs) auto
  ultimately have "distinct (map item_slot (filter (tracks (sl[s := x])) q))"
    using assms(1) by (simp add: bq_inv_def del: filter_filter)
  moreover have "item_ok (sl[s := x]) n item" if "item \<in> set q" for item
  proof -
    have "item_ok sl n item"
      using assms(1) that by (simp add: bq_inv_def)
    then show ?thesis
      using tr [OF that] by (auto simp: item_ok_def)
  qed
  moreover have "\<forall>i < 64. \<forall>b. graphic_buffer (sl[s := x] ! i) = Some b \<longrightarrow> b < n"
    using assms(1,2,4) l by (auto simp: bq_inv_def nth_list_update split: if_splits)
  ultimately show ?thesis
    using ac l by (simp add: bq_inv_def)
qed

lemma bq_inv_mono: "bq_inv sl q n \<Longrightarrow> n \<le> n' \<Longrightarrow> bq_inv sl q n'"
  by (fastforce simp: bq_inv_def item_ok_def)

lemma bq_inv_tail: "bq_inv sl (item # q) n \<Longrightarrow> bq_inv sl q n"
  by (auto simp: bq_inv_def split: if_splits)

lemma bq_inv_no_queue: "bq_inv sl q n \<Longrightarrow> bq_inv sl [] n"
  by (simp add: bq_inv_def)

text \<open>The front item, when it is tracked, is the only one at its slot.\<close>

lemma front_untracked:
  assumes "bq_inv sl (front # q) n" "tracks sl front"
  shows "untracked (nat (item_slot front)) (graphic_buffer (sl ! nat (item_slot front))) q"
proof -
  have "item_slot i \<noteq> item_slot front" if "i \<in> set q" "tracks sl i" for i
    using assms that by (auto simp: bq_inv_def) (metis (mono_tags, lifting) image_eqI mem_Collect_eq)
  moreover have "0 \<le> item_slot i" if "i \<in> set (front # q)" for i
    using assms(1) that by (auto simp: bq_inv_def item_ok_def)
  ultimately show ?thesis
    by (fastforce simp: untracked_def tracks_def eq_nat_nat_iff)
qed

text \<open>Adding an item for a slot no other item tracks, at either end.\<close>

lemma bq_inv_add:
  assumes "bq_inv sl q n" "item_ok sl n item" "untracked (nat (item_slot item)) (graphic_buffer (sl ! nat (item_slot item))) q"
  shows "bq_inv sl (q @ [item]) n" "bq_inv sl (item # q) n"
proof -
  have "item_slot i \<noteq> item_slot item" if "i \<in> set q" "tracks sl i" for i
    using assms(3) that by (fastforce simp: untracked_def tracks_def)
  then show "bq_inv sl (q @ [item]) n" "bq_inv sl (item # q) n"
    using assms(1,2) by (auto simp: bq_inv_def) metis+
qed

section \<open>Core and consumer operations keep it\<close>

lemma slot_at_iff: "slot_at s c = Some x \<longleftrightarrow> 0 \<le> s \<and> nat s < length (slots c) \<and> x = slots c ! nat s"
  by (auto simp: slot_at_def array_get_def)

lemma slot_update_iff:
  "slot_update s f c = Some c' \<longleftrightarrow>
   0 \<le> s \<and> nat s < length (slots c) \<and> c' = c\<lparr>slots := (slots c)[nat s := f (slots c ! nat s)]\<rparr>"
  by (auto simp: slot_update_def bind_eq_Some_conv slot_at_iff)

lemma StillTracking_iff:
  "StillTracking item c = Some t \<longleftrightarrow>
   0 \<le> item_slot item \<and> nat (item_slot item) < length (slots c) \<and> t = tracks (slots c) item"
  by (auto simp: StillTracking_def bind_eq_Some_conv slot_at_iff tracks_def)

lemmas slot_simps = slot_at_iff slot_update_iff StillTracking_iff bind_eq_Some_conv

lemma bq_inv_length: "bq_inv sl q n \<Longrightarrow> length sl = 64"
  by (simp add: bq_inv_def)

lemma bq_inv_pointer: "bq_inv sl q n \<Longrightarrow> s < 64 \<Longrightarrow> graphic_buffer (sl ! s) = Some b \<Longrightarrow> b < n"
  by (simp add: bq_inv_def)

text \<open>What no operation on slots and queue touches.\<close>

definition same_config :: "BufferQueueCore \<Rightarrow> BufferQueueCore \<Rightarrow> bool" where
  "same_config c c' \<longleftrightarrow> graphic_buffers c' = graphic_buffers c \<and>
     override_max_buffer_count c' = override_max_buffer_count c \<and>
     default_max_buffer_count c' = default_max_buffer_count c"

lemma same_config_refl [simp]: "same_config c c"
  by (simp add: same_config_def)

lemma bq_ok_config:
  "bq_ok c \<Longrightarrow> same_config c c' \<Longrightarrow> bq_inv (slots c') (queue c') (length (graphic_buffers c)) \<Longrightarrow> bq_ok c'"
  by (simp add: bq_ok_def same_config_def)

lemma drop_loop_ok:
  assumes "drop_loop e q c = Some c'" "bq_inv (slots c) q n"
  shows "bq_inv (slots c') (queue c') n \<and> same_config c c' \<and> (\<exists>k. queue c' = drop k q) \<and>
    acquired_count (slots c') \<le> acquired_count (slots c)"
  using assms
proof (induction e q c rule: drop_loop.induct)
  case (1 e front item rest c)
  show ?case
  proof (cases "c' = c\<lparr>queue := front # item # rest\<rparr>")
    case True
    then show ?thesis
      using 1(3) by (auto simp: same_config_def intro: exI [of _ 0])
  next
    case False
    then obtain lo t c1 where step: "s64_sub e MAX_REASONABLE_NSEC = Some lo" "\<not> is_auto_timestamp front"
        "\<not> (timestamp item < lo \<or> timestamp item > e)" "StillTracking front c = Some t"
        "(if t then slot_update (item_slot front) (\<lambda>x. x\<lparr>buffer_state := Free\<rparr>) c else Some c) = Some c1"
        "drop_loop e (item # rest) c1 = Some c'"
      using 1(2) by (auto simp: bind_eq_Some_conv split: if_splits)
    have c1: "bq_inv (slots c1) (item # rest) n \<and> same_config c c1 \<and>
        acquired_count (slots c1) \<le> acquired_count (slots c)"
    proof (cases t)
      case True
      let ?s = "nat (item_slot front)"
      have tr: "tracks (slots c) front" "?s < 64" "c1 = c\<lparr>slots := (slots c)[?s := (slots c ! ?s)\<lparr>buffer_state := Free\<rparr>]\<rparr>"
        using step(4,5) True bq_inv_length [OF 1(3)] by (auto simp: slot_simps)
      then show ?thesis
        using bq_inv_update [OF bq_inv_tail [OF 1(3)] tr(2), of "(slots c ! ?s)\<lparr>buffer_state := Free\<rparr>"]
          front_untracked [OF 1(3) tr(1)] bq_inv_pointer [OF 1(3) tr(2)] bq_inv_length [OF 1(3)]
          acquired_count_update [of ?s "slots c" "(slots c ! ?s)\<lparr>buffer_state := Free\<rparr>"]
        by (simp add: same_config_def)
    next
      case False
      then show ?thesis
        using step(5) bq_inv_tail [OF 1(3)] by simp
    qed
    have "bq_inv (slots c') (queue c') n \<and> same_config c1 c' \<and> (\<exists>k. queue c' = drop k (item # rest)) \<and>
        acquired_count (slots c') \<le> acquired_count (slots c1)"
      using 1(1) [of lo t c1] step c1 by blast
    then obtain k where k: "bq_inv (slots c') (queue c') n" "same_config c1 c'" "queue c' = drop (Suc k) (front # item # rest)"
        "acquired_count (slots c') \<le> acquired_count (slots c1)"
      by auto
    then have "same_config c c'" "acquired_count (slots c') \<le> acquired_count (slots c)"
      using c1 by (auto simp: same_config_def)
    then show ?thesis
      using k(1,3) by blast
  qed
qed (auto simp: same_config_def intro: exI [of _ 0])

lemma acquire_front_ok:
  assumes "acquire_front c = Some (st, out, c')" "bq_ok c" "acquired_count (slots c) = 0"
  shows "bq_ok c'"
proof -
  have inv: "bq_inv (slots c) (queue c) (length (graphic_buffers c))"
    using assms(2) by (simp add: bq_ok_def)
  obtain front q where q: "queue c = front # q"
    using assms(1) by (cases "queue c") (auto simp: acquire_front_def array_get_def)
  let ?s = "nat (item_slot front)"
  let ?x = "(slots c ! ?s)\<lparr>acquire_called := True, needs_cleanup_on_release := False, buffer_state := Acquired\<rparr>"
  show ?thesis
  proof (cases "tracks (slots c) front")
    case True
    then have "c' = SignalDequeueCondition (c\<lparr>slots := (slots c)[?s := ?x], queue := q\<rparr>)" "?s < 64"
      using assms(1) q bq_inv_length [OF inv] by (auto simp: acquire_front_def slot_simps Let_def)
    moreover have "bq_inv ((slots c)[?s := ?x]) q (length (graphic_buffers c))"
      using bq_inv_update [OF bq_inv_tail [OF inv [unfolded q]] calculation(2), of ?x] assms(3)
        front_untracked [OF inv [unfolded q] True] bq_inv_pointer [OF inv calculation(2)] by simp
    ultimately show ?thesis
      using assms(2) by (simp add: bq_ok_def SignalDequeueCondition_def)
  next
    case False
    then have "c' = SignalDequeueCondition (c\<lparr>queue := q\<rparr>)"
      using assms(1) q by (auto simp: acquire_front_def slot_simps Let_def)
    then show ?thesis
      using assms(2) bq_inv_tail [OF inv [unfolded q]] by (simp add: bq_ok_def SignalDequeueCondition_def)
  qed
qed

lemma AcquireBuffer_ok:
  assumes "AcquireBuffer e c = Some (st, out, c')" "bq_ok c"
  shows "bq_ok c'"
proof (cases "acquired_count (slots c) = 0 \<and> queue c \<noteq> [] \<and> e \<noteq> 0")
  case True
  then obtain c1 where c1: "drop_loop e (queue c) c = Some c1" "c' = c1 \<or> acquire_front c1 = Some (st, out, c')"
    using assms(1) by (auto simp: AcquireBuffer_def max_acquired_buffer_count_def acquired_count_def bind_eq_Some_conv
        split: if_splits)
  have "bq_ok c1 \<and> acquired_count (slots c1) = 0"
    using drop_loop_ok [OF c1(1)] assms(2) True bq_ok_config [of c c1] by (auto simp: bq_ok_def)
  then show ?thesis
    using c1(2) acquire_front_ok by blast
next
  case False
  then have "c' = c \<or> acquired_count (slots c) = 0 \<and> acquire_front c = Some (st, out, c')"
    using assms(1)
    by (auto simp: AcquireBuffer_def max_acquired_buffer_count_def acquired_count_def Suc_le_eq split: if_splits)
  then show ?thesis
    using assms(2) acquire_front_ok by blast
qed

lemma ReleaseBuffer_ok:
  assumes "ReleaseBuffer slot frame f c = Some (st, c')" "bq_ok c"
  shows "bq_ok c'"
proof -
  have inv: "bq_inv (slots c) (queue c) (length (graphic_buffers c))"
    using assms(2) by (simp add: bq_ok_def)
  let ?s = "nat slot"
  let ?x = "slots c ! ?s"
  show ?thesis
  proof (cases "slot < 0 \<or> slot \<ge> 64 \<or> frame \<noteq> frame_number ?x \<or> list_ex (\<lambda>i. item_slot i = slot) (queue c)")
    case True
    then show ?thesis
      using assms bq_inv_length [OF inv] by (auto simp: ReleaseBuffer_def NUM_BUFFER_SLOTS_def slot_at_def split: if_splits)
  next
    case False
    then have s: "?s < 64" "slot_at slot c = Some ?x"
      using bq_inv_length [OF inv] by (auto simp: slot_at_def)
    have upd: "slot_update slot g c = Some (c\<lparr>slots := (slots c)[?s := g ?x]\<rparr>)" for g
      using s(2) by (simp add: slot_update_def)
    have "bq_inv ((slots c)[?s := ?x\<lparr>buffer_state := Free\<rparr>]) (queue c) (length (graphic_buffers c))" if "buffer_state ?x = Acquired"
      using that not_queued_untracked [OF inv, of ?s] bq_inv_pointer [OF inv s(1)]
      by (intro bq_inv_update [OF inv s(1)]) simp_all
    moreover have "bq_inv ((slots c)[?s := ?x\<lparr>needs_cleanup_on_release := False\<rparr>]) (queue c) (length (graphic_buffers c))"
      by (intro bq_inv_same_key [OF inv s(1)]) (simp add: same_key_def)
    ultimately show ?thesis
      using assms False s(2)
      by (auto simp: ReleaseBuffer_def NUM_BUFFER_SLOTS_def upd bq_ok_def SignalDequeueCondition_def Let_def
          split: if_splits option.splits)
  qed
qed

text \<open>The slot changes of the operations, as rules on the core.\<close>

lemma slot_update_untracked_ok:
  assumes "slot_update s f c = Some c'" "bq_ok c"
    "untracked (nat s) (graphic_buffer (f (slots c ! nat s))) (queue c)"
    "\<And>b. graphic_buffer (f (slots c ! nat s)) = Some b \<Longrightarrow> b < length (graphic_buffers c)"
    "buffer_state (f (slots c ! nat s)) = Acquired \<Longrightarrow> buffer_state (slots c ! nat s) = Acquired"
  shows "bq_ok c'"
proof -
  have inv: "bq_inv (slots c) (queue c) (length (graphic_buffers c))"
    using assms(2) by (simp add: bq_ok_def)
  have c': "nat s < 64" "c' = c\<lparr>slots := (slots c)[nat s := f (slots c ! nat s)]\<rparr>"
    using assms(1) bq_inv_length [OF inv] by (auto simp: slot_update_iff)
  have "bq_inv (slots c') (queue c') (length (graphic_buffers c))"
    using bq_inv_update [OF inv c'(1) assms(3)] assms(4,5) c'(2) by auto
  then show ?thesis
    using assms(2) c'(2) by (simp add: bq_ok_def)
qed

text \<open>A slot that was not queued may keep its buffer.\<close>

lemma slot_update_keep_ok:
  assumes "slot_update s f c = Some c'" "bq_ok c" "buffer_state (slots c ! nat s) \<noteq> Queued"
    "graphic_buffer (f (slots c ! nat s)) \<in> {None, graphic_buffer (slots c ! nat s)}"
    "buffer_state (f (slots c ! nat s)) \<noteq> Acquired"
  shows "bq_ok c'"
proof (rule slot_update_untracked_ok [OF assms(1,2)])
  have inv: "bq_inv (slots c) (queue c) (length (graphic_buffers c))"
    using assms(2) by (simp add: bq_ok_def)
  show "untracked (nat s) (graphic_buffer (f (slots c ! nat s))) (queue c)"
    using not_queued_untracked [OF inv assms(3)] assms(4) by auto
  show "b < length (graphic_buffers c)" if "graphic_buffer (f (slots c ! nat s)) = Some b" for b
    using that assms(1,4) bq_inv_pointer [OF inv, of "nat s" b] bq_inv_length [OF inv] by (auto simp: slot_update_iff)
qed (use assms(5) in simp)

lemma slot_update_same_ok:
  assumes "slot_update s f c = Some c'" "bq_ok c" "same_key (f (slots c ! nat s)) (slots c ! nat s)"
  shows "bq_ok c'"
proof -
  have inv: "bq_inv (slots c) (queue c) (length (graphic_buffers c))"
    using assms(2) by (simp add: bq_ok_def)
  have c': "nat s < 64" "c' = c\<lparr>slots := (slots c)[nat s := f (slots c ! nat s)]\<rparr>"
    using assms(1) bq_inv_length [OF inv] by (auto simp: slot_update_iff)
  then show ?thesis
    using assms(2) bq_inv_same_key [OF inv c'(1) assms(3)] by (simp add: bq_ok_def)
qed

lemma SignalDequeueCondition_ok [simp]: "bq_ok (SignalDequeueCondition c) = bq_ok c"
  by (simp add: bq_ok_def SignalDequeueCondition_def)

lemma notify_ok [simp]: "bq_ok (notify f l c) = bq_ok c"
  by (simp add: bq_ok_def notify_def split: option.split)

lemma FreeBufferLocked_ok: "FreeBufferLocked s c = Some c' \<Longrightarrow> bq_ok c \<Longrightarrow> bq_ok c'"
  unfolding FreeBufferLocked_def
  by (erule slot_update_untracked_ok) (simp_all add: free_buffer_def)

lemma FreeAllBuffersLocked_ok:
  assumes "FreeAllBuffersLocked c = Some c'" "bq_ok c"
  shows "bq_ok c'"
  using assms FreeBufferLocked_ok for_each_invariant [of FreeBufferLocked _ "c\<lparr>buffer_has_been_queued := False\<rparr>" c' bq_ok]
  by (simp add: FreeAllBuffersLocked_def bq_ok_def)

lemma clear_queue_ok: "bq_ok c \<Longrightarrow> bq_ok (c\<lparr>queue := []\<rparr>)"
  using bq_inv_no_queue by (auto simp: bq_ok_def)

lemma Consumer_Connect_ok: "Consumer_Connect l b c = (st, c') \<Longrightarrow> bq_ok c \<Longrightarrow> bq_ok c'"
  by (auto simp: Consumer_Connect_def bq_ok_def split: if_splits)

lemma Consumer_Disconnect_ok:
  assumes "Consumer_Disconnect c = Some (st, c')" "bq_ok c"
  shows "bq_ok c'"
proof -
  have "bq_ok (c\<lparr>is_abandoned := True, consumer_listener := None, queue := []\<rparr>)"
    using clear_queue_ok [OF assms(2)] by (simp add: bq_ok_def)
  then show ?thesis
    using assms FreeAllBuffersLocked_ok by (auto simp: Consumer_Disconnect_def bind_eq_Some_conv split: if_splits)
qed

section \<open>Producer operations keep it\<close>

lemma RequestBuffer_ok:
  assumes "RequestBuffer slot p = Some (st, b, p')" "bq_ok (core p)"
  shows "bq_ok (core p')"
  using assms slot_update_same_ok [of slot "\<lambda>x. x\<lparr>request_buffer_called := True\<rparr>" "core p"]
  by (auto simp: RequestBuffer_def bind_eq_Some_conv same_key_def split: if_splits)

lemma SetBufferCount_ok:
  assumes "SetBufferCount n p = Some (Finished (st, p'))" "bq_ok (core p)"
  shows "bq_ok (core p')"
proof -
  have set: "bq_ok c \<Longrightarrow> 0 \<le> k \<Longrightarrow> k \<le> 64 \<Longrightarrow> bq_ok (c\<lparr>override_max_buffer_count := k\<rparr>)" for c k
    by (simp add: bq_ok_def)
  show ?thesis
    using assms set FreeAllBuffersLocked_ok
    by (auto simp: SetBufferCount_def WaitWhileAllocatingLocked_def bind_eq_Some_conv Let_def Signal_def
        GetMinMaxBufferCountLocked_def GetMinUndequeuedBufferCountLocked_def use_async_buffer_def NUM_BUFFER_SLOTS_def
        split: if_splits)
qed

lemma release_excess_ok:
  assumes "for_each release_excess_slot ss (fl, c) = Some (fl', c')" "bq_ok c"
  shows "bq_ok c'"
proof -
  have "bq_ok (snd r')" if "release_excess_slot s r = Some r'" "bq_ok (snd r)" for s r r'
    using that FreeBufferLocked_ok
    by (auto simp: release_excess_slot_def bind_eq_Some_conv split: if_splits prod.splits)
  then have "bq_ok (snd (fl', c'))"
    using for_each_invariant [OF assms(1), of "\<lambda>r. bq_ok (snd r)"] assms(2) by simp
  then show ?thesis by simp
qed

subsection \<open>Waiting for a free slot\<close>

text \<open>The slot found is the free one with the least frame number, or invalid when none is free.\<close>

definition oldest_free :: "BufferSlot list \<Rightarrow> s32 set \<Rightarrow> s32 \<Rightarrow> bool" where
  "oldest_free sl S found \<longleftrightarrow>
     (if found = INVALID_BUFFER_SLOT then \<forall>s \<in> S. buffer_state (sl ! nat s) \<noteq> Free
      else found \<in> S \<and> 0 \<le> found \<and> nat found < length sl \<and> buffer_state (sl ! nat found) = Free \<and>
        (\<forall>s \<in> S. buffer_state (sl ! nat s) = Free \<longrightarrow> frame_number (sl ! nat found) \<le> frame_number (sl ! nat s)))"

lemma scan_slot_step:
  assumes "scan_slot c s (found, d, a) = Some (found', d', a')" "oldest_free (slots c) S found"
  shows "oldest_free (slots c) (insert s S) found'"
proof -
  have s: "0 \<le> s" "nat s < length (slots c)" "s \<noteq> INVALID_BUFFER_SLOT"
    using assms(1) by (auto simp: scan_slot_def slot_simps INVALID_BUFFER_SLOT_def)
  show ?thesis
  proof (cases "buffer_state (slots c ! nat s) = Free")
    case True
    then have "found' = (if found = INVALID_BUFFER_SLOT \<or> frame_number (slots c ! nat s) < frame_number (slots c ! nat found)
        then s else found)"
      using assms(1) by (auto simp: scan_slot_def slot_simps split: if_splits)
    then show ?thesis
      using assms(2) True s by (auto simp: oldest_free_def split: if_splits)
  next
    case False
    then have "found' = found"
      using assms(1) by (auto simp: scan_slot_def slot_simps split: BufferState.splits)
    then show ?thesis
      using assms(2) False by (simp add: oldest_free_def)
  qed
qed

lemma scan_slots:
  assumes "for_each (scan_slot c) ss (INVALID_BUFFER_SLOT, 0, 0) = Some (found, d, a)"
  shows "oldest_free (slots c) (set ss) found"
proof -
  have "oldest_free (slots c) (set ss) (fst (found, d, a))"
  proof (rule for_each_prefix_invariant [OF assms, of "\<lambda>ys r. oldest_free (slots c) (set ys) (fst r)"])
    show "oldest_free (slots c) (set []) (fst (INVALID_BUFFER_SLOT, 0, 0))"
      by (simp add: oldest_free_def)
    show "oldest_free (slots c) (set (ys @ [x])) (fst r')"
      if "oldest_free (slots c) (set ys) (fst r)" "scan_slot c x r = Some r'" for ys x r r'
      using that scan_slot_step [of c x "fst r" "fst (snd r)" "snd (snd r)" "fst r'" "fst (snd r')" "snd (snd r')"]
      by simp
  qed
  then show ?thesis by simp
qed

text \<open>
  A round that settles on a slot has found the oldest free slot below the maximum count, and the queue is not longer than
  that count.
\<close>

definition slot_granted :: "bool \<Rightarrow> s32 \<Rightarrow> BufferQueueCore \<Rightarrow> bool" where
  "slot_granted async found c \<longleftrightarrow>
     (\<exists>m. oldest_free (slots c) {0..m - 1} found \<and> found \<noteq> INVALID_BUFFER_SLOT \<and> int (length (queue c)) \<le> m)"

lemma wait_round_ok:
  assumes "wait_round async found fl c = Some r" "bq_ok c"
  shows "case r of
      Decide st found1 fl1 c1 \<Rightarrow> bq_ok c1 \<and> (st = Status_NoError \<longrightarrow> slot_granted async found1 c1)
    | Wait found1 fl1 c1 \<Rightarrow> bq_ok c1"
proof (cases "r = Decide Status_NoInit found fl c \<or> r = Decide Status_BadValue INVALID_BUFFER_SLOT fl c")
  case True
  then show ?thesis
    using assms(2) by (auto simp: status_simps)
next
  case False
  then have na: "\<not> is_abandoned c"
    using assms(1) by (auto simp: wait_round_def)
  then obtain m where "GetMaxBufferCountLocked async c = Some m"
    using assms(1) by (cases "GetMaxBufferCountLocked async c") (simp_all add: wait_round_def)
  note head = na this
  then obtain fl1 c1 where m1: "for_each release_excess_slot [m..NUM_BUFFER_SLOTS - 1] (fl, c) = Some (fl1, c1)"
    using assms(1) False
    by (cases "for_each release_excess_slot [m..NUM_BUFFER_SLOTS - 1] (fl, c)") (auto simp: wait_round_def split: if_splits)
  then obtain found1 d a where m2: "for_each (scan_slot c1) [0..m - 1] (INVALID_BUFFER_SLOT, 0, 0) = Some (found1, d, a)"
    using assms(1) False head
    by (cases "for_each (scan_slot c1) [0..m - 1] (INVALID_BUFFER_SLOT, 0, 0)") (auto simp: wait_round_def split: if_splits)
  note m = m1 m2
  have r: "r \<in> {Decide Status_InvalidOperation found1 fl1 c1, Decide Status_WouldBlock found1 fl1 c1, Wait found1 fl1 c1} \<or>
      r = Decide Status_NoError found1 fl1 c1 \<and> found1 \<noteq> INVALID_BUFFER_SLOT \<and> int (length (queue c1)) \<le> m"
    using assms(1) False head m unfolding wait_round_def by (simp add: Let_def split: if_split_asm)
  have "bq_ok c1"
    using release_excess_ok [OF m(1) assms(2)] .
  moreover have "oldest_free (slots c1) {0..m - 1} found1"
    using scan_slots [OF m(2)] by simp
  ultimately show ?thesis
    using r by (auto simp: slot_granted_def status_simps)
qed

definition keeps_ok :: "interference \<Rightarrow> bool" where
  "keeps_ok env \<longleftrightarrow> (\<forall>f \<in> set env. \<forall>c. bq_ok c \<longrightarrow> bq_ok (f c))"

lemma WaitForDequeueCondition_ok:
  "WaitForDequeueCondition env c = Finished (env', c') \<Longrightarrow> bq_ok c \<Longrightarrow> keeps_ok env \<Longrightarrow> bq_ok c' \<and> keeps_ok env'"
  by (induction env c rule: WaitForDequeueCondition.induct) (auto simp: keeps_ok_def bq_ok_def split: if_splits)

lemma WaitForFreeSlot_ok:
  assumes "WaitForFreeSlotThenRelock async env found fl c = Some (Finished (st, found', fl', c'))" "bq_ok c" "keeps_ok env"
  shows "bq_ok c' \<and> (st = Status_NoError \<longrightarrow> slot_granted async found' c')"
  using assms
proof (induction async env found fl c rule: WaitForFreeSlotThenRelock.induct)
  case (1 async env found fl c)
  then obtain r where r: "wait_round async found fl c = Some r"
    by (cases "wait_round async found fl c") (simp_all add: WaitForFreeSlotThenRelock.simps)
  note ok = wait_round_ok [OF r 1(3)]
  show ?case
  proof (cases r)
    case (Decide st1 found1 fl1 c1)
    then show ?thesis
      using 1(2) r ok by (simp add: WaitForFreeSlotThenRelock.simps)
  next
    case (Wait found1 fl1 c1)
    then obtain env1 c2 where w: "WaitForDequeueCondition env c1 = Finished (env1, c2)"
        "WaitForFreeSlotThenRelock async env1 found1 fl1 c2 = Some (Finished (st, found', fl', c'))"
      using 1(2) r by (subst (asm) WaitForFreeSlotThenRelock.simps) (auto split: wait_outcome.splits)
    moreover have "bq_ok c2 \<and> keeps_ok env1"
      using WaitForDequeueCondition_ok [OF w(1)] ok Wait 1(4) by simp
    ultimately show ?thesis
      using 1(1) [OF r Wait] by blast
  qed
qed

subsection \<open>Dequeueing\<close>

lemma take_slot_ok:
  assumes "take_slot s w h fmt u c = Some (realloc, f, c')" "bq_ok c" "buffer_state (slots c ! nat s) = Free"
  shows "bq_ok c'" "buffer_state (slots c' ! nat s) = Dequeued"
proof -
  let ?x = "slots c ! nat s"
  obtain y where y: "slot_update s (\<lambda>_. y) c = Some c'" "buffer_state y = Dequeued"
      "graphic_buffer y \<in> {None, graphic_buffer ?x}"
    using assms(1) by (auto simp: take_slot_def bind_eq_Some_conv slot_at_iff Let_def split: if_splits)
  then show "bq_ok c'"
    using slot_update_keep_ok [OF y(1) assms(2)] assms(3) by simp
  show "buffer_state (slots c' ! nat s) = Dequeued"
    using y(1,2) by (auto simp: slot_update_iff)
qed

lemma store_new_buffer_ok:
  assumes "store_new_buffer s w h fmt u c = Some (stored, c')" "bq_ok c"
  shows "bq_ok c'"
proof (cases "is_abandoned c")
  case False
  let ?g = "NvGraphicBuffer_ctor w h fmt u"
  let ?c = "c\<lparr>graphic_buffers := graphic_buffers c @ [?g]\<rparr>"
  have inv: "bq_inv (slots c) (queue c) (length (graphic_buffers c))"
    using assms(2) by (simp add: bq_ok_def)
  have upd: "slot_update s (\<lambda>x. x\<lparr>frame_number := 0xFFFFFFFF, graphic_buffer := Some (length (graphic_buffers c))\<rparr>) ?c = Some c'"
    using assms(1) False by (auto simp: store_new_buffer_def new_graphic_buffer_def bind_eq_Some_conv)
  have "bq_ok ?c"
    using assms(2) bq_inv_mono [OF inv] by (simp add: bq_ok_def)
  then show ?thesis
    using fresh_untracked [OF inv order_refl] by (intro slot_update_untracked_ok [OF upd]) auto
qed (use assms in \<open>auto simp: store_new_buffer_def\<close>)

lemma dequeue_found_ok:
  assumes "dequeue_found s fl w h fmt u between c = Some (st, slot, f, c')" "bq_ok c"
    "buffer_state (slots c ! nat s) = Free" "\<forall>c. bq_ok c \<longrightarrow> bq_ok (between c)"
  shows "bq_ok c' \<and> slot = Some s"
proof -
  define w' where "w' = (if w = 0 \<and> h = 0 then default_width c else w)"
  define h' where "h' = (if w = 0 \<and> h = 0 then default_height c else h)"
  obtain x where x: "slot_at s c = Some x"
    using assms(1) by (cases "slot_at s c") (simp_all add: dequeue_found_def)
  note eq = assms(1) [unfolded dequeue_found_def x Let_def, folded w'_def h'_def, simplified]
  obtain realloc f' c1 where c1: "take_slot s w' h' fmt u c = Some (realloc, f', c1)"
    using eq by (cases "take_slot s w' h' fmt u c") auto
  note eq1 = eq [unfolded c1, simplified]
  have "slot = Some s \<and> (c' = c1 \<or> (\<exists>stored. store_new_buffer s w' h' fmt u (between c1) = Some (stored, c')))"
    using eq1 by (auto simp: bind_eq_Some_conv split: if_split_asm)
  then show ?thesis
    using take_slot_ok [OF c1 assms(2,3)] assms(4) store_new_buffer_ok by blast
qed

lemma slot_granted_free:
  "slot_granted async s c \<Longrightarrow> 0 \<le> s \<and> nat s < length (slots c) \<and> buffer_state (slots c ! nat s) = Free"
  by (auto simp: slot_granted_def oldest_free_def)

text \<open>What a finished \<open>DequeueBuffer\<close> went through.\<close>

lemma DequeueBuffer_elim:
  assumes "DequeueBuffer async w h fmt u env between c = Some (Finished (st, slot, f, c'))" "bq_ok c" "keeps_ok env"
  obtains (refused) "slot = None" "bq_ok c'"
    | (granted) s fl w' h' fmt' u' c1 where "bq_ok c1" "slot_granted async s c1"
      "dequeue_found s fl w' h' fmt' u' between c1 = Some (st, slot, f, c')"
proof (cases "slot = None \<and> c' = c")
  case True
  then show thesis
    using refused assms(2) by blast
next
  case False
  define fmt' where "fmt' = (if fmt = PixelFormat_NoFormat then default_buffer_format c else fmt)"
  define u' where "u' = u OR consumer_usage_bit c"
  from False assms(1) obtain r where r: "WaitForFreeSlotThenRelock async env 0 Status_NoError c = Some r"
    by (cases "WaitForFreeSlotThenRelock async env 0 Status_NoError c")
      (simp_all add: DequeueBuffer_def WaitWhileAllocatingLocked_def split: if_split_asm)
  with False assms(1) obtain st1 s fl c1 where w: "WaitForFreeSlotThenRelock async env 0 Status_NoError c = Some (Finished (st1, s, fl, c1))"
      "slot = None \<and> c' = c1 \<or> st1 = Status_NoError \<and> s \<noteq> INVALID_BUFFER_SLOT \<and>
        dequeue_found s fl w h fmt' u' between c1 = Some (st, slot, f, c')"
    unfolding fmt'_def u'_def
    by (cases r) (auto simp: DequeueBuffer_def WaitWhileAllocatingLocked_def Let_def split: if_split_asm)
  then show thesis
    using WaitForFreeSlot_ok [OF w(1) assms(2,3)] refused granted by blast
qed

lemma DequeueBuffer_ok:
  assumes "DequeueBuffer async w h fmt u env between c = Some (Finished (st, slot, f, c'))" "bq_ok c" "keeps_ok env"
    "\<forall>c. bq_ok c \<longrightarrow> bq_ok (between c)"
  shows "bq_ok c'"
  using assms(1-3)
proof (cases rule: DequeueBuffer_elim)
  case (granted s fl w' h' fmt' u' c1)
  then show ?thesis
    using dequeue_found_ok [OF granted(3,1)] slot_granted_free [OF granted(2)] assms(4) by blast
qed

lemma DetachBuffer_ok: "DetachBuffer slot c = Some (st, c') \<Longrightarrow> bq_ok c \<Longrightarrow> bq_ok c'"
  using FreeBufferLocked_ok by (auto simp: DetachBuffer_def bind_eq_Some_conv split: if_splits)

lemma DetachNextBuffer_ok:
  "DetachNextBuffer c = Some (Finished (st, b, f, c')) \<Longrightarrow> bq_ok c \<Longrightarrow> bq_ok c'"
  using FreeBufferLocked_ok
  by (auto simp: DetachNextBuffer_def WaitWhileAllocatingLocked_def bind_eq_Some_conv split: if_splits)

text \<open>Attaching is safe for a buffer that no item of the queue holds.\<close>

lemma AttachBuffer_ok:
  assumes "AttachBuffer (Some b) env c = Some (Finished (st, slot, c'))" "bq_ok c" "keeps_ok env"
    "b < length (graphic_buffers c')" "\<forall>item \<in> set (queue c'). item_graphic_buffer item \<noteq> Some b"
  shows "bq_ok c'"
proof -
  let ?f = "\<lambda>x. x\<lparr>graphic_buffer := Some b, buffer_state := Dequeued, fence := NoFence, request_buffer_called := True\<rparr>"
  obtain r where r: "WaitForFreeSlotThenRelock False env 0 Status_NoError c = Some r"
    using assms(1) by (cases "WaitForFreeSlotThenRelock False env 0 Status_NoError c")
      (simp_all add: AttachBuffer_def WaitWhileAllocatingLocked_def split: if_split_asm)
  then obtain st1 s fl c1 where w: "WaitForFreeSlotThenRelock False env 0 Status_NoError c = Some (Finished (st1, s, fl, c1))"
      "c' = c1 \<or> slot_update s ?f c1 = Some c'"
    using assms(1)
    by (cases r) (auto simp: AttachBuffer_def WaitWhileAllocatingLocked_def bind_eq_Some_conv split: if_split_asm)
  have ok: "bq_ok c1"
    using WaitForFreeSlot_ok [OF w(1) assms(2,3)] by simp
  show ?thesis
  proof (cases "c' = c1")
    case False
    then have upd: "slot_update s ?f c1 = Some c'"
      using w(2) by simp
    then have "queue c' = queue c1" "graphic_buffers c' = graphic_buffers c1"
      by (auto simp: slot_update_iff)
    then show ?thesis
      using assms(4,5) by (intro slot_update_untracked_ok [OF upd ok]) (auto simp: untracked_def)
  qed (use ok in simp)
qed

subsection \<open>Queueing\<close>

lemma item_ok_other_slot:
  "item_ok sl n item \<Longrightarrow> s \<noteq> nat (item_slot item) \<Longrightarrow> item_ok (sl[s := x]) n item"
  by (simp add: item_ok_def tracks_def)

lemma push_item_ok:
  assumes "push_item item c = Some (repl, c')" "bq_ok c" "item_ok (slots c) (length (graphic_buffers c)) item"
    "untracked (nat (item_slot item)) (graphic_buffer (slots c ! nat (item_slot item))) (queue c)"
  shows "bq_ok c'"
proof (cases "\<exists>front rest. queue c = front # rest \<and> is_droppable front")
  case True
  then obtain front rest where q: "queue c = front # rest" "is_droppable front"
    by blast
  have inv: "bq_inv (slots c) (front # rest) (length (graphic_buffers c))"
    using assms(2) q by (simp add: bq_ok_def)
  have un: "untracked (nat (item_slot item)) (graphic_buffer (slots c ! nat (item_slot item))) rest"
    using untracked_subset [OF assms(4)] q by auto
  let ?s = "nat (item_slot front)"
  let ?x = "(slots c ! ?s)\<lparr>buffer_state := Free, frame_number := 0\<rparr>"
  show ?thesis
  proof (cases "tracks (slots c) front")
    case tr: True
    then have c': "?s < 64" "c' = c\<lparr>slots := (slots c)[?s := ?x], queue := item # rest\<rparr>"
      using assms(1) q bq_inv_length [OF inv] by (auto simp: push_item_def slot_simps)
    have "nat (item_slot item) \<noteq> ?s"
    proof
      assume "nat (item_slot item) = ?s"
      then show False
        using assms(4) tr q(1) by (auto simp: untracked_def tracks_def)
    qed
    moreover have "bq_inv ((slots c)[?s := ?x]) rest (length (graphic_buffers c))"
      using front_untracked [OF inv tr] bq_inv_pointer [OF inv c'(1)]
      by (intro bq_inv_update [OF bq_inv_tail [OF inv] c'(1)]) simp_all
    ultimately have "bq_inv ((slots c)[?s := ?x]) (item # rest) (length (graphic_buffers c))"
      using item_ok_other_slot [OF assms(3), of ?s ?x] un by (intro bq_inv_add(2)) simp_all
    then show ?thesis
      using assms(2) c'(2) by (simp add: bq_ok_def)
  next
    case False
    then have "c' = c\<lparr>queue := item # rest\<rparr>"
      using assms(1) q by (auto simp: push_item_def slot_simps)
    then show ?thesis
      using bq_inv_add(2) [OF bq_inv_tail [OF inv] assms(3) un] assms(2) by (simp add: bq_ok_def)
  qed
next
  case False
  then have "c' = c\<lparr>queue := queue c @ [item]\<rparr>"
    using assms(1) by (auto simp: push_item_def split: list.splits)
  then show ?thesis
    using assms(2) bq_inv_add(1) [OF _ assms(3,4)] by (simp add: bq_ok_def)
qed

text \<open>What the locked part of \<open>QueueBuffer\<close> went through when it queued the buffer.\<close>

lemma queue_locked_elim:
  assumes "queue_locked slot input p = Some (QueueDone repl lst tkt item out, p')"
  obtains x b c1 c2 where "slot_at slot (core p) = Some x" "buffer_state x = Dequeued" "graphic_buffer x = Some b"
    "slot_update slot (\<lambda>x. x\<lparr>fence := input_fence input, buffer_state := Queued, frame_number := frame_counter (core p) + 1\<rparr>)
      ((core p)\<lparr>frame_counter := frame_counter (core p) + 1\<rparr>) = Some c1"
    "item = queue_item slot input (slots c1 ! nat slot) c1" "push_item item c1 = Some (repl, c2)"
    "core p' = SignalDequeueCondition (c2\<lparr>buffer_has_been_queued := True\<rparr>)" "tkt = next_callback_ticket p"
    "next_callback_ticket p' = next_callback_ticket p + 1" "current_callback_ticket p' = current_callback_ticket p"
    "lst = consumer_listener c2" "\<not> is_abandoned (core p)"
proof -
  let ?f = "\<lambda>x. x\<lparr>fence := input_fence input, buffer_state := Queued, frame_number := frame_counter (core p) + 1\<rparr>"
  let ?c = "(core p)\<lparr>frame_counter := frame_counter (core p) + 1\<rparr>"
  have na: "\<not> is_abandoned (core p)"
    using assms by (auto simp: queue_locked_def Let_def)
  obtain m where max: "GetMaxBufferCountLocked (input_async input \<noteq> 0) (core p) = Some m"
    using assms na by (cases "GetMaxBufferCountLocked (input_async input \<noteq> 0) (core p)") (simp_all add: queue_locked_def Let_def)
  have "queue_checks slot m (input_crop input) (core p) = Some True"
    using assms na max
    by (cases "queue_checks slot m (input_crop input) (core p)") (auto simp: queue_locked_def Let_def split: if_split_asm)
  note m = na max this
  obtain x b where x: "slot_at slot (core p) = Some x" "buffer_state x = Dequeued" "graphic_buffer x = Some b"
    using m(3) by (auto simp: queue_checks_def bind_eq_Some_conv split: if_split_asm)
  note eq = assms [unfolded queue_locked_def Let_def m(2,3)]
  obtain c1 where c1: "slot_update slot ?f ?c = Some c1"
    using eq m by (cases "slot_update slot ?f ?c") (simp_all split: if_split_asm)
  have c1x: "slot_at slot c1 = Some (slots c1 ! nat slot)"
    using c1 by (auto simp: slot_update_iff slot_at_iff)
  let ?item = "queue_item slot input (slots c1 ! nat slot) c1"
  obtain r c2 where c2: "push_item ?item c1 = Some (r, c2)"
    using eq m c1 c1x by (cases "push_item ?item c1") (auto split: if_split_asm)
  show thesis
    using that [OF x c1 _ _ _ _ _ _ _ m(1)] eq m c1 c1x c2
    by (auto simp: bind_eq_Some_conv s32_add_def SignalDequeueCondition_def split: if_split_asm)
qed

lemma queue_locked_ok:
  assumes "queue_locked slot input p = Some (r, p')" "bq_ok (core p)"
  shows "bq_ok (core p')"
proof (cases r)
  case (QueueError st)
  then show ?thesis
    using assms by (auto simp: queue_locked_def Let_def bind_eq_Some_conv split: if_split_asm)
next
  case (QueueDone repl lst tkt item out)
  obtain x b c1 c2 where s: "slot_at slot (core p) = Some x" "buffer_state x = Dequeued" "graphic_buffer x = Some b"
    "slot_update slot (\<lambda>x. x\<lparr>fence := input_fence input, buffer_state := Queued, frame_number := frame_counter (core p) + 1\<rparr>)
      ((core p)\<lparr>frame_counter := frame_counter (core p) + 1\<rparr>) = Some c1"
    "item = queue_item slot input (slots c1 ! nat slot) c1" "push_item item c1 = Some (repl, c2)"
    "core p' = SignalDequeueCondition (c2\<lparr>buffer_has_been_queued := True\<rparr>)"
    using queue_locked_elim [OF assms(1) [unfolded QueueDone]] by metis
  have inv: "bq_inv (slots (core p)) (queue (core p)) (length (graphic_buffers (core p)))"
    using assms(2) by (simp add: bq_ok_def)
  have x: "x = slots (core p) ! nat slot" "0 \<le> slot" "nat slot < 64"
    using s(1) bq_inv_length [OF inv] by (auto simp: slot_at_iff)
  have "bq_ok ((core p)\<lparr>frame_counter := frame_counter (core p) + 1\<rparr>)"
    using assms(2) by (simp add: bq_ok_def)
  then have ok1: "bq_ok c1"
    using s(2) x(1) by (intro slot_update_keep_ok [OF s(4)]) simp_all
  have same: "graphic_buffer (slots c1 ! nat slot) = Some b" "buffer_state (slots c1 ! nat slot) = Queued"
    "frame_number (slots c1 ! nat slot) = frame_counter c1" "queue c1 = queue (core p)"
    "graphic_buffers c1 = graphic_buffers (core p)"
    using s(3,4) x(1) by (auto simp: slot_update_iff)
  have "item_ok (slots c1) (length (graphic_buffers c1)) item"
    using x(2,3) same bq_inv_pointer [OF inv x(3)] s(3) x(1) by (simp add: s(5) item_ok_def queue_item_def)
  moreover have "untracked (nat (item_slot item)) (graphic_buffer (slots c1 ! nat (item_slot item))) (queue c1)"
    using not_queued_untracked [OF inv, of "nat slot"] s(2,3) x(1) same by (simp add: s(5) queue_item_def)
  ultimately have "bq_ok c2"
    using push_item_ok [OF s(6) ok1] by blast
  then show ?thesis
    using s(7) by (simp add: bq_ok_def SignalDequeueCondition_def)
qed

lemma queue_callback_ok:
  assumes "queue_callback repl lst tkt item p = Some (Finished p')" "bq_ok (core p)"
  shows "bq_ok (core p')"
  using assms by (auto simp: queue_callback_def Let_def bind_eq_Some_conv split: if_split_asm)

lemma QueueBuffer_ok:
  assumes "QueueBuffer slot input between p = Some (Finished (st, out, p'))" "bq_ok (core p)"
    "\<forall>p. bq_ok (core p) \<longrightarrow> bq_ok (core (between p))"
  shows "bq_ok (core p')"
proof (cases "known_scaling_mode (input_scaling_mode input)")
  case True
  then obtain r p1 where r: "queue_locked slot input p = Some (r, p1)"
    using assms(1) by (auto simp: QueueBuffer_def bind_eq_Some_conv)
  have ok: "bq_ok (core p1)"
    using queue_locked_ok [OF r assms(2)] .
  show ?thesis
  proof (cases r)
    case (QueueError st1)
    then show ?thesis
      using assms(1) True r ok by (simp add: QueueBuffer_def)
  next
    case (QueueDone repl lst tkt item out1)
    then obtain w where w: "queue_callback repl lst tkt item (between p1) = Some w"
      using assms(1) True r by (auto simp: QueueBuffer_def bind_eq_Some_conv)
    then have "w = Finished p'"
      using assms(1) True r QueueDone by (cases w) (simp_all add: QueueBuffer_def)
    then show ?thesis
      using queue_callback_ok w assms(3) ok by blast
  qed
qed (use assms in \<open>auto simp: QueueBuffer_def\<close>)

lemma Signal_core [simp]: "core (Signal p) = core p"
  by (simp add: Signal_def)

lemma CancelBuffer_ok:
  assumes "CancelBuffer slot f p = Some p'" "bq_ok (core p)"
  shows "bq_ok (core p')"
proof (cases "p' = p")
  case False
  then obtain c1 where c1: "slot_update slot (\<lambda>x. x\<lparr>buffer_state := Free, frame_number := 0, fence := f\<rparr>) (core p) = Some c1"
      "buffer_state (slots (core p) ! nat slot) = Dequeued" "core p' = SignalDequeueCondition c1"
    using assms(1) by (auto simp: CancelBuffer_def bind_eq_Some_conv slot_at_iff split: if_split_asm)
  then show ?thesis
    using slot_update_keep_ok [OF c1(1) assms(2)] by simp
qed (use assms in simp)

lemma Producer_Connect_ok: "Producer_Connect l api b c = (st, out, c') \<Longrightarrow> bq_ok c \<Longrightarrow> bq_ok c'"
  by (auto simp: Producer_Connect_def bq_ok_def Let_def split: if_split_asm)

lemma Producer_Disconnect_ok:
  assumes "Producer_Disconnect api p = Some (Finished (st, p'))" "bq_ok (core p)"
  shows "bq_ok (core p')"
proof (cases "p' = p")
  case False
  then obtain c1 where c1: "FreeAllBuffersLocked ((core p)\<lparr>queue := []\<rparr>) = Some c1"
      "core p' = notify OnBuffersReleased (consumer_listener c1) (SignalDequeueCondition
         (c1\<lparr>connected_producer_listener := None, connected_api := NativeWindowApi_NoConnectedApi\<rparr>))"
    using assms(1)
    by (auto simp: Producer_Disconnect_def WaitWhileAllocatingLocked_def bind_eq_Some_conv Let_def
        SignalDequeueCondition_def split: if_split_asm)
  have "bq_ok c1"
    using FreeAllBuffersLocked_ok [OF c1(1) clear_queue_ok [OF assms(2)]] .
  then show ?thesis
    using c1(2) by (simp add: bq_ok_def SignalDequeueCondition_def notify_def split: option.split)
qed (use assms in simp)

lemma preallocated_bound: "length sl = 64 \<Longrightarrow> int (length (filter is_preallocated sl)) \<le> 64"
  using length_filter_le [of is_preallocated sl] by linarith

lemma SetPreallocatedBuffer_ok:
  assumes "SetPreallocatedBuffer slot buffer p = Some (st, p')" "bq_ok (core p)"
  shows "bq_ok (core p')"
proof (cases "p' = p")
  case False
  let ?n = "length (graphic_buffers (core p))"
  let ?c = "(core p)\<lparr>graphic_buffers := graphic_buffers (core p) @ [GetBuffer buffer]\<rparr>"
  let ?new = "\<lambda>_. BufferSlot_default\<lparr>fence := NoFence, graphic_buffer := Some ?n, frame_number := 0\<rparr>"
  have inv: "bq_inv (slots (core p)) (queue (core p)) ?n"
    using assms(2) by (simp add: bq_ok_def)
  obtain c1 where c1: "slot_update slot ?new ?c = Some c1"
    using assms(1) False by (auto simp: SetPreallocatedBuffer_def new_graphic_buffer_def bind_eq_Some_conv split: if_split_asm)
  have "bq_ok ?c"
    using assms(2) bq_inv_mono [OF inv] by (simp add: bq_ok_def)
  then have ok1: "bq_ok c1"
    using fresh_untracked [OF inv order_refl]
    by (intro slot_update_untracked_ok [OF c1]) (auto simp: BufferSlot_default_def)
  show ?thesis
  proof (cases buffer)
    case None
    then have "core p' = SignalDequeueCondition c1"
      using assms(1) False c1 by (auto simp: SetPreallocatedBuffer_def new_graphic_buffer_def split: if_split_asm)
    then show ?thesis
      using ok1 by simp
  next
    case (Some nv)
    then obtain d where d: "slot_update slot (\<lambda>x. x\<lparr>is_preallocated := True\<rparr>) c1 = Some d"
        "core p' = SignalDequeueCondition
           (d\<lparr>override_max_buffer_count := GetPreallocatedBufferCountLocked d, default_width := Width nv,
              default_height := Height nv, default_buffer_format := gb_format nv\<rparr>)"
      using assms(1) False c1
      by (auto simp: SetPreallocatedBuffer_def new_graphic_buffer_def bind_eq_Some_conv split: if_split_asm)
    have "bq_ok d"
      using slot_update_same_ok [OF d(1) ok1] by (simp add: same_key_def)
    then show ?thesis
      using d(2) preallocated_bound [of "slots d"]
      by (auto simp: bq_ok_def GetPreallocatedBufferCountLocked_def SignalDequeueCondition_def dest: bq_inv_length)
  qed
qed (use assms in simp)

section \<open>Interleavings\<close>

text \<open>
  A step is one section of an operation under the lock, by any thread; the events record the items that enter the queue
  and those the consumer receives. Attaching is restricted to buffers that are not in the queue.
\<close>

datatype bq_event = Enter BufferItem | Receive BufferItem | Internal

inductive bq_step :: "BufferQueueProducer \<Rightarrow> bq_event \<Rightarrow> BufferQueueProducer \<Rightarrow> bool" where
  request: "RequestBuffer slot p = Some (st, b, p') \<Longrightarrow> bq_step p Internal p'"
| set_count: "SetBufferCount n p = Some (Finished (st, p')) \<Longrightarrow> bq_step p Internal p'"
| dequeue_wait: "wait_round async found fl (core p) = Some (Wait found' fl' c1) \<Longrightarrow> bq_step p Internal (p\<lparr>core := c1\<rparr>)"
| dequeue_wake: "dequeue_possible (core p) \<Longrightarrow> bq_step p Internal (p\<lparr>core := (core p)\<lparr>dequeue_possible := False\<rparr>\<rparr>)"
| dequeue_refuse: "wait_round async found fl (core p) = Some (Decide st s fl' c1) \<Longrightarrow> st \<noteq> Status_NoError \<Longrightarrow>
    bq_step p Internal (p\<lparr>core := c1\<rparr>)"
| dequeue_take: "wait_round async found fl (core p) = Some (Decide Status_NoError s fl' c1) \<Longrightarrow>
    take_slot s w h fmt u c1 = Some (realloc, f, c2) \<Longrightarrow> bq_step p Internal (p\<lparr>core := c2\<rparr>)"
| dequeue_store: "store_new_buffer s w h fmt u (core p) = Some (stored, c1) \<Longrightarrow> bq_step p Internal (p\<lparr>core := c1\<rparr>)"
| attach: "AttachBuffer (Some b) [] (core p) = Some (Finished (st, s, c1)) \<Longrightarrow> b < length (graphic_buffers c1) \<Longrightarrow>
    \<forall>item \<in> set (queue c1). item_graphic_buffer item \<noteq> Some b \<Longrightarrow> bq_step p Internal (p\<lparr>core := c1\<rparr>)"
| detach: "DetachBuffer slot (core p) = Some (st, c1) \<Longrightarrow> bq_step p Internal (p\<lparr>core := c1\<rparr>)"
| detach_next: "DetachNextBuffer (core p) = Some (Finished (st, b, f, c1)) \<Longrightarrow> bq_step p Internal (p\<lparr>core := c1\<rparr>)"
| queue_fail: "queue_locked slot input p = Some (QueueError st, p') \<Longrightarrow> bq_step p Internal p'"
| queue: "queue_locked slot input p = Some (QueueDone repl lst tkt item out, p') \<Longrightarrow> bq_step p (Enter item) p'"
| callback: "queue_callback repl lst tkt item p = Some (Finished p') \<Longrightarrow> bq_step p Internal p'"
| cancel: "CancelBuffer slot f p = Some p' \<Longrightarrow> bq_step p Internal p'"
| connect: "Producer_Connect lst api b (core p) = (st, out, c1) \<Longrightarrow> bq_step p Internal (p\<lparr>core := c1\<rparr>)"
| disconnect: "Producer_Disconnect api p = Some (Finished (st, p')) \<Longrightarrow> bq_step p Internal p'"
| preallocate: "SetPreallocatedBuffer slot buffer p = Some (st, p') \<Longrightarrow> bq_step p Internal p'"
| acquire: "AcquireBuffer e (core p) = Some (st, Some item, c1) \<Longrightarrow> bq_step p (Receive item) (p\<lparr>core := c1\<rparr>)"
| acquire_fail: "AcquireBuffer e (core p) = Some (st, None, c1) \<Longrightarrow> bq_step p Internal (p\<lparr>core := c1\<rparr>)"
| release: "ReleaseBuffer slot frame f (core p) = Some (st, c1) \<Longrightarrow> bq_step p Internal (p\<lparr>core := c1\<rparr>)"
| consumer_connect: "Consumer_Connect lst b (core p) = (st, c1) \<Longrightarrow> bq_step p Internal (p\<lparr>core := c1\<rparr>)"
| consumer_disconnect: "Consumer_Disconnect (core p) = Some (st, c1) \<Longrightarrow> bq_step p Internal (p\<lparr>core := c1\<rparr>)"

inductive bq_run :: "bq_event list \<Rightarrow> BufferQueueProducer \<Rightarrow> bool" where
  start: "bq_run [] (BufferQueueProducer_ctor BufferQueueCore_ctor)"
| step: "bq_run evs p \<Longrightarrow> bq_step p ev p' \<Longrightarrow> bq_run (evs @ [ev]) p'"

lemma bq_step_ok:
  assumes "bq_step p ev p'" "bq_ok (core p)"
  shows "bq_ok (core p')"
  using assms
proof (induction rule: bq_step.induct)
  case (dequeue_take async found fl p s fl' c1 w h fmt u realloc f c2)
  then show ?case
    using wait_round_ok [OF dequeue_take(1)] slot_granted_free take_slot_ok(1) [OF dequeue_take(2)]
    by (simp add: status_simps) blast
next
  case (attach b p st s c1)
  then show ?case
    using AttachBuffer_ok [OF attach(1)] by (simp add: keeps_ok_def)
next
  case (dequeue_wake p)
  then show ?case by (simp add: bq_ok_def)
qed (auto intro: RequestBuffer_ok SetBufferCount_ok store_new_buffer_ok DetachBuffer_ok DetachNextBuffer_ok
    queue_locked_ok queue_callback_ok CancelBuffer_ok Producer_Connect_ok Producer_Disconnect_ok
    SetPreallocatedBuffer_ok AcquireBuffer_ok ReleaseBuffer_ok Consumer_Connect_ok Consumer_Disconnect_ok
    dest: wait_round_ok)

lemma bq_run_ok: "bq_run evs p \<Longrightarrow> bq_ok (core p)"
  by (induction rule: bq_run.induct) (auto simp: BufferQueueProducer_ctor_def bq_ok_ctor intro: bq_step_ok)

end
