(* ===== verification/BufferQueueOrder.thy ===== *)
theory BufferQueueOrder
  imports BufferQueue "HOL-Library.Sublist"
begin

text \<open>
  Order and progress of the buffer queue: the consumer receives frames in the order in which they entered the queue, a
  producer that asks for a slot while one is free gets the oldest one, and callbacks follow the order of the queue.
\<close>

section \<open>Order\<close>

text \<open>An item is identified by its slot and its frame number; the consumer may receive it without its buffer.\<close>

definition key :: "BufferItem \<Rightarrow> s32 \<times> u64" where
  "key item = (item_slot item, item_frame_number item)"

definition entered :: "bq_event list \<Rightarrow> (s32 \<times> u64) list" where
  "entered evs = concat (map (\<lambda>ev. case ev of Enter item \<Rightarrow> [key item] | _ \<Rightarrow> []) evs)"

definition received :: "bq_event list \<Rightarrow> (s32 \<times> u64) list" where
  "received evs = concat (map (\<lambda>ev. case ev of Receive item \<Rightarrow> [key item] | _ \<Rightarrow> []) evs)"

lemma entered_snoc [simp]: "entered (evs @ [ev]) = entered evs @ (case ev of Enter item \<Rightarrow> [key item] | _ \<Rightarrow> [])"
  by (simp add: entered_def)

lemma received_snoc [simp]: "received (evs @ [ev]) = received evs @ (case ev of Receive item \<Rightarrow> [key item] | _ \<Rightarrow> [])"
  by (simp add: received_def)

text \<open>An internal step removes items at the front of the queue at most.\<close>

definition queue_suffix :: "BufferQueueCore \<Rightarrow> BufferQueueCore \<Rightarrow> bool" where
  "queue_suffix c c' \<longleftrightarrow> (\<exists>k. queue c' = drop k (queue c))"

lemma queue_suffix_same [intro]: "queue c' = queue c \<Longrightarrow> queue_suffix c c'"
  unfolding queue_suffix_def by (rule exI [of _ 0]) simp

lemma queue_suffix_cleared [intro]: "queue c' = [] \<Longrightarrow> queue_suffix c c'"
  unfolding queue_suffix_def by (rule exI [of _ "length (queue c)"]) simp

named_theorems queue_kept \<open>operations that leave the queue as it is\<close>

lemma slot_update_queue [queue_kept]: "slot_update s f c = Some c' \<Longrightarrow> queue c' = queue c"
  by (auto simp: slot_update_iff)

lemma FreeBufferLocked_queue [queue_kept]: "FreeBufferLocked s c = Some c' \<Longrightarrow> queue c' = queue c"
  by (simp add: FreeBufferLocked_def slot_update_queue)

lemma FreeAllBuffersLocked_queue [queue_kept]: "FreeAllBuffersLocked c = Some c' \<Longrightarrow> queue c' = queue c"
  using for_each_invariant [of FreeBufferLocked _ "c\<lparr>buffer_has_been_queued := False\<rparr>" c' "\<lambda>d. queue d = queue c"]
  by (auto simp: FreeAllBuffersLocked_def queue_kept)

lemma release_excess_queue [queue_kept]:
  assumes "for_each release_excess_slot ss (fl, c) = Some (fl', c')"
  shows "queue c' = queue c"
proof -
  have step: "queue (snd r') = queue (snd r)" if "release_excess_slot s r = Some r'" for s r r'
    using that FreeBufferLocked_queue [of s "snd r"]
    by (auto simp: release_excess_slot_def bind_eq_Some_conv split: if_split_asm prod.splits)
  have "queue (snd (fl', c')) = queue c"
    by (rule for_each_invariant [OF assms, of "\<lambda>r. queue (snd r) = queue c"]) (simp_all add: step)
  then show ?thesis by simp
qed

lemma SignalDequeueCondition_queue [simp]: "queue (SignalDequeueCondition c) = queue c"
  by (simp add: SignalDequeueCondition_def)

lemma notify_queue [simp]: "queue (notify f l c) = queue c"
  by (simp add: notify_def split: option.split)

lemma wait_round_queue:
  assumes "wait_round async found fl c = Some r"
  shows "case r of Decide st s fl' c' \<Rightarrow> queue c' = queue c | Wait s fl' c' \<Rightarrow> queue c' = queue c"
proof (cases "is_abandoned c")
  case False
  then obtain m where m: "GetMaxBufferCountLocked async c = Some m"
    using assms by (cases "GetMaxBufferCountLocked async c") (simp_all add: wait_round_def)
  show ?thesis
  proof (cases "for_each release_excess_slot [m..NUM_BUFFER_SLOTS - 1] (fl, c)")
    case None
    then show ?thesis
      using assms False m by (auto simp: wait_round_def split: if_split_asm)
  next
    case (Some r1)
    obtain fl1 c1 where r1: "r1 = (fl1, c1)"
      by fastforce
    have "queue c1 = queue c"
      using Some r1 by (simp add: queue_kept)
    moreover have "r = Decide Status_BadValue INVALID_BUFFER_SLOT fl c \<or> (\<exists>st s. r = Decide st s fl1 c1 \<or> r = Wait s fl1 c1)"
      using assms False m Some r1
      by (auto simp: wait_round_def bind_eq_Some_conv Let_def split: if_split_asm)
    ultimately show ?thesis
      by auto
  qed
qed (use assms in \<open>auto simp: wait_round_def\<close>)

lemma store_new_buffer_queue [queue_kept]:
  "store_new_buffer s w h fmt u c = Some (stored, c') \<Longrightarrow> queue c' = queue c"
  by (auto simp: store_new_buffer_def new_graphic_buffer_def bind_eq_Some_conv dest!: slot_update_queue split: if_split_asm)

lemma take_slot_queue [queue_kept]: "take_slot s w h fmt u c = Some (b, f, c') \<Longrightarrow> queue c' = queue c"
  by (auto simp: take_slot_def bind_eq_Some_conv Let_def dest!: slot_update_queue)

lemma drop_loop_queue: "drop_loop e q c = Some c' \<Longrightarrow> \<exists>k. queue c' = drop k q"
proof (induction e q c rule: drop_loop.induct)
  case (1 e front item rest c)
  show ?case
  proof (cases "c' = c\<lparr>queue := front # item # rest\<rparr>")
    case True
    then show ?thesis by (auto intro: exI [of _ 0])
  next
    case False
    then obtain lo t c1 where step: "s64_sub e MAX_REASONABLE_NSEC = Some lo" "\<not> is_auto_timestamp front"
        "\<not> (timestamp item < lo \<or> timestamp item > e)" "StillTracking front c = Some t"
        "(if t then slot_update (item_slot front) (\<lambda>x. x\<lparr>buffer_state := Free\<rparr>) c else Some c) = Some c1"
        "drop_loop e (item # rest) c1 = Some c'"
      using 1(2) by (auto simp: bind_eq_Some_conv split: if_splits)
    then obtain k where "queue c' = drop k (item # rest)"
      using 1(1) [of lo t c1] by blast
    then show ?thesis
      by (intro exI [of _ "Suc k"]) simp
  qed
qed (auto intro: exI [of _ 0])

lemma acquire_front_queue:
  assumes "acquire_front c = Some (st, out, c')"
  shows "\<exists>front item. queue c = front # queue c' \<and> out = Some item \<and> key item = key front"
proof -
  obtain front q where "queue c = front # q"
    using assms by (cases "queue c") (auto simp: acquire_front_def array_get_def)
  then show ?thesis
    using assms by (auto simp: acquire_front_def bind_eq_Some_conv Let_def key_def dest!: slot_update_queue split: if_split_asm)
qed

lemma AcquireBuffer_queue:
  assumes "AcquireBuffer e c = Some (st, out, c')"
  shows "case out of None \<Rightarrow> queue_suffix c c'
    | Some item \<Rightarrow> \<exists>k front. drop k (queue c) = front # queue c' \<and> key item = key front"
proof -
  consider "out = None" "c' = c"
    | c1 k where "queue c1 = drop k (queue c)" "out = None \<and> c' = c1 \<or> acquire_front c1 = Some (st, out, c')"
  proof (cases "drop_loop e (queue c) c")
    case None
    then show thesis
      using assms that(1) that(2) [of c 0] by (auto simp: AcquireBuffer_def Let_def split: if_split_asm)
  next
    case (Some c1)
    obtain k where "queue c1 = drop k (queue c)"
      using drop_loop_queue [OF Some] by blast
    then show thesis
      using assms Some that(1) that(2) [of c 0] that(2) [of c1 k]
      by (auto simp: AcquireBuffer_def Let_def bind_eq_Some_conv split: if_split_asm)
  qed
  then show ?thesis
  proof cases
    case 1
    then show ?thesis by auto
  next
    case (2 c1 k)
    then show ?thesis
      using acquire_front_queue [of c1 st out c'] by (auto simp: queue_suffix_def split: option.split)
  qed
qed

lemma internal_queue_facts:
  "RequestBuffer slot p = Some (st, b, p') \<Longrightarrow> queue (core p') = queue (core p)"
  "SetBufferCount n p = Some (Finished (st, p')) \<Longrightarrow> queue (core p') = queue (core p)"
  "DetachBuffer slot c = Some (st, c') \<Longrightarrow> queue c' = queue c"
  "DetachNextBuffer c = Some (Finished (st, b, f, c')) \<Longrightarrow> queue c' = queue c"
  "queue_callback repl lst tkt item p = Some (Finished p') \<Longrightarrow> queue (core p') = queue (core p)"
  "CancelBuffer slot g p = Some p' \<Longrightarrow> queue (core p') = queue (core p)"
  "Producer_Connect lst api flag c = (st, out, c') \<Longrightarrow> queue c' = queue c"
  "Consumer_Connect lst flag c = (st, c') \<Longrightarrow> queue c' = queue c"
  subgoal by (auto simp: RequestBuffer_def bind_eq_Some_conv dest!: slot_update_queue split: if_split_asm)
  subgoal
    by (auto simp: SetBufferCount_def WaitWhileAllocatingLocked_def bind_eq_Some_conv Let_def
        dest!: FreeAllBuffersLocked_queue split: if_split_asm)
  subgoal by (auto simp: DetachBuffer_def bind_eq_Some_conv dest!: FreeBufferLocked_queue split: if_split_asm)
  subgoal
    by (auto simp: DetachNextBuffer_def WaitWhileAllocatingLocked_def bind_eq_Some_conv
        dest!: FreeBufferLocked_queue split: if_split_asm)
  subgoal by (auto simp: queue_callback_def Let_def bind_eq_Some_conv split: if_split_asm)
  subgoal by (auto simp: CancelBuffer_def bind_eq_Some_conv dest!: slot_update_queue split: if_split_asm)
  subgoal by (auto simp: Producer_Connect_def Let_def split: if_split_asm)
  subgoal by (auto simp: Consumer_Connect_def split: if_split_asm)
  done

lemma ReleaseBuffer_queue: "ReleaseBuffer slot frame f c = Some (st, c') \<Longrightarrow> queue c' = queue c"
  by (auto simp: ReleaseBuffer_def bind_eq_Some_conv Let_def dest!: slot_update_queue
      split: if_split_asm option.split_asm)

lemma queue_error_queue: "queue_locked slot input p = Some (QueueError st, p') \<Longrightarrow> p' = p"
  by (auto simp: queue_locked_def Let_def bind_eq_Some_conv split: if_split_asm)

lemma Producer_Disconnect_queue:
  "Producer_Disconnect api p = Some (Finished (st, p')) \<Longrightarrow> queue (core p') \<in> {[], queue (core p)}"
  by (auto simp: Producer_Disconnect_def WaitWhileAllocatingLocked_def bind_eq_Some_conv Let_def
      dest!: FreeAllBuffersLocked_queue split: if_split_asm)

lemma Consumer_Disconnect_queue:
  "Consumer_Disconnect c = Some (st, c') \<Longrightarrow> queue c' \<in> {[], queue c}"
  by (auto simp: Consumer_Disconnect_def bind_eq_Some_conv dest!: FreeAllBuffersLocked_queue split: if_split_asm)

lemma SetPreallocatedBuffer_queue:
  "SetPreallocatedBuffer slot b p = Some (st, p') \<Longrightarrow> queue (core p') = queue (core p)"
  by (auto simp: SetPreallocatedBuffer_def new_graphic_buffer_def bind_eq_Some_conv dest!: slot_update_queue
      split: if_split_asm option.split_asm)

lemma WaitForFreeSlot_queue:
  assumes "WaitForFreeSlotThenRelock async [] found fl c = Some (Finished (st, s, fl', c'))"
  shows "queue c' = queue c"
  using assms
proof (induction async "[] :: interference" found fl c rule: WaitForFreeSlotThenRelock.induct)
  case (1 async found fl c)
  then obtain r where r: "wait_round async found fl c = Some r"
    by (cases "wait_round async found fl c") (simp_all add: WaitForFreeSlotThenRelock.simps)
  show ?case
  proof (cases r)
    case (Decide st1 found1 fl1 c1)
    then show ?thesis
      using 1(2) r wait_round_queue [OF r] by (simp add: WaitForFreeSlotThenRelock.simps)
  next
    case (Wait found1 fl1 c1)
    then have w: "dequeue_possible c1"
      "WaitForFreeSlotThenRelock async [] found1 fl1 (c1\<lparr>dequeue_possible := False\<rparr>) = Some (Finished (st, s, fl', c'))"
      using 1(2) r by (subst (asm) WaitForFreeSlotThenRelock.simps, simp split: if_split_asm)+
    then show ?thesis
      using 1(1) [OF r Wait] wait_round_queue [OF r] Wait by simp
  qed
qed

lemma AttachBuffer_queue:
  assumes "AttachBuffer b [] c = Some (Finished (st, s, c'))"
  shows "queue c' = queue c"
proof (cases "b = None \<or> is_allocating c")
  case False
  then obtain r where "WaitForFreeSlotThenRelock False [] 0 Status_NoError c = Some r"
    using assms by (cases "WaitForFreeSlotThenRelock False [] 0 Status_NoError c")
      (simp_all add: AttachBuffer_def WaitWhileAllocatingLocked_def split: if_split_asm)
  then show ?thesis
    using assms False
    by (cases r) (auto simp: AttachBuffer_def WaitWhileAllocatingLocked_def bind_eq_Some_conv
        dest!: slot_update_queue WaitForFreeSlot_queue split: if_split_asm)
qed (use assms in \<open>auto simp: AttachBuffer_def WaitWhileAllocatingLocked_def split: if_split_asm\<close>)

lemma queue_locked_appends:
  assumes "queue_locked slot input p = Some (QueueDone repl lst tkt item out, p')"
    "\<forall>i \<in> set (queue (core p)). \<not> is_droppable i"
  shows "queue (core p') = queue (core p) @ [item]"
proof -
  obtain c1 c2 where c: "queue c1 = queue (core p)" "push_item item c1 = Some (repl, c2)" "queue (core p') = queue c2"
  proof (rule queue_locked_elim [OF assms(1)])
    fix x b c1 c2
    assume "slot_update slot (\<lambda>x. x\<lparr>fence := input_fence input, buffer_state := Queued, frame_number := frame_counter (core p) + 1\<rparr>)
        ((core p)\<lparr>frame_counter := frame_counter (core p) + 1\<rparr>) = Some c1"
      "push_item item c1 = Some (repl, c2)" "core p' = SignalDequeueCondition (c2\<lparr>buffer_has_been_queued := True\<rparr>)"
    then show thesis
      using that [of c1 c2] by (auto dest!: slot_update_queue)
  qed
  then show ?thesis
    using assms(2) by (cases "queue (core p)") (auto simp: push_item_def)
qed

lemma bq_step_queue:
  assumes "bq_step p ev p'"
  shows "case ev of
      Internal \<Rightarrow> queue_suffix (core p) (core p')
    | Enter item \<Rightarrow> (\<forall>i \<in> set (queue (core p)). \<not> is_droppable i) \<longrightarrow> queue (core p') = queue (core p) @ [item]
    | Receive item \<Rightarrow> \<exists>k front. drop k (queue (core p)) = front # queue (core p') \<and> key item = key front"
  using assms
proof (cases rule: bq_step.cases)
  case (dequeue_take async found fl s fl' c1 w h fmt u realloc f c2)
  then show ?thesis
    using wait_round_queue [OF dequeue_take(3)] take_slot_queue [OF dequeue_take(4)] by auto
next
  case (consumer_disconnect st c1)
  then show ?thesis
    using Consumer_Disconnect_queue [OF consumer_disconnect(3)] by auto
next
  case (disconnect api st)
  then show ?thesis
    using Producer_Disconnect_queue [OF disconnect(2)] by auto
qed (auto dest!: internal_queue_facts ReleaseBuffer_queue queue_error_queue SetPreallocatedBuffer_queue
    AttachBuffer_queue AcquireBuffer_queue store_new_buffer_queue wait_round_queue intro: queue_locked_appends)

text \<open>The events of a run without droppable items.\<close>

definition never_droppable :: "bq_event list \<Rightarrow> bool" where
  "never_droppable evs \<longleftrightarrow> (\<forall>item. Enter item \<in> set evs \<longrightarrow> \<not> is_droppable item)"

lemma fifo_invariant:
  assumes "bq_run evs p" "never_droppable evs"
  shows "subseq (received evs @ map key (queue (core p))) (entered evs) \<and>
    (\<forall>i \<in> set (queue (core p)). \<not> is_droppable i)"
  using assms
proof (induction rule: bq_run.induct)
  case start
  then show ?case
    by (simp add: received_def entered_def BufferQueueProducer_ctor_def BufferQueueCore_ctor_def)
next
  case (step evs p ev p')
  have nd: "never_droppable evs" "\<forall>item. ev = Enter item \<longrightarrow> \<not> is_droppable item"
    using step.prems by (auto simp: never_droppable_def)
  note ih = step.IH [OF nd(1)]
  note q = bq_step_queue [OF step.hyps(2)]
  have rest: "subseq (received evs @ map key (drop k (queue (core p)))) (entered evs)" for k
  proof -
    have "subseq (map key (drop k (queue (core p)))) (map key (queue (core p)))"
      by (metis drop_map suffix_drop suffix_imp_subseq)
    then show ?thesis
      using ih subseq_order.order_trans by (metis subseq_append')
  qed
  show ?case
  proof (cases ev)
    case (Enter item)
    then show ?thesis
      using q ih nd(2) subseq_append [of "received evs @ map key (queue (core p))" "[key item]" "entered evs"] by simp
  next
    case (Receive item)
    then obtain k front where k: "drop k (queue (core p)) = front # queue (core p')" "key item = key front"
      using q by auto
    have "set (queue (core p')) \<subseteq> set (queue (core p))"
      using set_drop_subset [of k "queue (core p)"] k(1) by auto
    then show ?thesis
      using rest [of k] k ih Receive by auto
  next
    case Internal
    then obtain k where k: "queue (core p') = drop k (queue (core p))"
      using q by (auto simp: queue_suffix_def)
    then show ?thesis
      using rest [of k] ih Internal set_drop_subset [of k "queue (core p)"] by auto
  qed
qed

section \<open>Progress\<close>










section \<open>Properties\<close>


text \<open>A session: connect, set the buffer count, dequeue, request, queue, acquire, release.\<close>

definition sample_input :: QueueBufferInput where
  "sample_input =
     \<lparr>input_timestamp = 5, input_is_auto_timestamp = 0,
      input_crop = Rectangle_of_size 1 1, input_scaling_mode = 0, input_transform = 0, input_sticky_transform = 0,
      input_async = 0, input_swap_interval = 1, input_fence = NoFence\<rparr>"

text \<open>The states of the session: only slot 0 is ever used.\<close>

definition session_state ::
    "BufferSlot \<Rightarrow> BufferItem list \<Rightarrow> NvGraphicBuffer list \<Rightarrow> u64 \<Rightarrow> BufferQueueProducer" where
  "session_state x q bufs counter =
     \<lparr>core = BufferQueueCore_ctor\<lparr>slots := x # replicate 63 (free_buffer BufferSlot_default), queue := q,
        override_max_buffer_count := 2, dequeue_possible := True, buffer_has_been_queued := (counter \<noteq> 0),
        frame_counter := counter, graphic_buffers := bufs\<rparr>,
      sticky_transform = 0, next_callback_ticket = uint counter, current_callback_ticket = 0, buffer_wait_event = 1\<rparr>"

definition session_item :: BufferItem where
  "session_item =
     \<lparr>item_graphic_buffer = Some 0, item_fence = NoFence, crop = Rectangle_of_size 1 1, transform = 0, scaling_mode = 0,
      timestamp = 5, is_auto_timestamp = False, item_frame_number = 1, item_slot = 0, is_droppable = False,
      item_acquire_called = False, transform_to_display_inverse = False, swap_interval = 1\<rparr>"

definition session_buffers :: "NvGraphicBuffer list" where
  "session_buffers = [NvGraphicBuffer_ctor 1 1 1 0]"

definition slot_free :: BufferSlot where "slot_free = free_buffer BufferSlot_default"
definition slot_taken :: BufferSlot where "slot_taken = slot_free\<lparr>buffer_state := Dequeued\<rparr>"
definition slot_stored :: BufferSlot where "slot_stored = slot_taken\<lparr>graphic_buffer := Some 0\<rparr>"
definition slot_requested :: BufferSlot where "slot_requested = slot_stored\<lparr>request_buffer_called := True\<rparr>"
definition slot_queued :: BufferSlot where "slot_queued = slot_requested\<lparr>buffer_state := Queued, frame_number := 1\<rparr>"
definition slot_acquired :: BufferSlot where "slot_acquired = slot_queued\<lparr>buffer_state := Acquired, acquire_called := True\<rparr>"

abbreviation sample_counted :: BufferQueueProducer where
  "sample_counted \<equiv> session_state slot_free [] [] 0"

lemma session_count:
  "SetBufferCount 2 (BufferQueueProducer_ctor BufferQueueCore_ctor) = Some (Finished (Status_NoError, sample_counted))"
  by code_simp

lemma session_round: "wait_round False 0 0 (core sample_counted) = Some (Decide Status_NoError 0 0 (core sample_counted))"
  by code_simp

lemma session_take:
  "take_slot 0 1 1 1 0 (core sample_counted) = Some (True, NoFence, core (session_state slot_taken [] [] 0))"
  by code_simp

lemma session_store:
  "store_new_buffer 0 1 1 1 0 (core (session_state slot_taken [] [] 0)) =
   Some (True, core (session_state slot_stored [] session_buffers 0))"
  by code_simp

lemma session_request:
  "RequestBuffer 0 (session_state slot_stored [] session_buffers 0) =
   Some (Status_NoError, Some 0, session_state slot_requested [] session_buffers 0)"
  by code_simp

lemma session_queue:
  "queue_locked 0 sample_input (session_state slot_requested [] session_buffers 0) =
   Some (QueueDone False None 0 session_item
     \<lparr>output_width = 1, output_height = 1, output_transform_hint = 0, num_pending_buffers = 1\<rparr>,
     session_state slot_queued [session_item] session_buffers 1)"
  by code_simp

lemma session_acquire:
  "AcquireBuffer 0 (core (session_state slot_queued [session_item] session_buffers 1)) =
   Some (Status_NoError, Some session_item, core (session_state slot_acquired [] session_buffers 1))"
  by code_simp

lemma session_core: "(session_state x q bufs k)\<lparr>core := core (session_state x' q' bufs' k)\<rparr> = session_state x' q' bufs' k"
  by (simp add: session_state_def)

lemma session_started: "bq_run [Internal] sample_counted"
  using bq_run.step [OF bq_run.start set_count [OF session_count]] by simp


text \<open>
  C13. Frames reach the consumer in the order in which they entered the queue: in every interleaving in which no queued
  item is droppable, the items received followed by those still in the queue are a subsequence of the items entered.
\<close>

theorem buffer_queue_fifo:
  assumes "bq_run evs p" "never_droppable evs"
  shows "subseq (received evs @ map key (queue (core p))) (entered evs)"
  using fifo_invariant [OF assms] by blast

lemma sample_session:
  "bq_run [Internal, Internal, Internal, Internal, Enter session_item, Receive session_item]
     (session_state slot_acquired [] session_buffers 1)"
proof -
  have "bq_run [Internal, Internal] (session_state slot_taken [] [] 0)"
    using bq_run.step [OF session_started dequeue_take [OF session_round session_take]] by (simp add: session_core)
  then have "bq_run [Internal, Internal, Internal] (session_state slot_stored [] session_buffers 0)"
    using bq_run.step [OF _ dequeue_store [OF session_store]] by (force simp: session_core)
  then have "bq_run [Internal, Internal, Internal, Internal] (session_state slot_requested [] session_buffers 0)"
    using bq_run.step [OF _ request [OF session_request]] by force
  then have "bq_run [Internal, Internal, Internal, Internal, Enter session_item]
      (session_state slot_queued [session_item] session_buffers 1)"
    using bq_run.step [OF _ queue [OF session_queue]] by force
  then show ?thesis
    using bq_run.step [OF _ acquire [OF session_acquire]] by (force simp: session_core)
qed

theorem buffer_queue_fifo_witness:
  "\<exists>evs p. bq_run evs p \<and> never_droppable evs \<and> received evs = [(0, 1)] \<and> subseq (received evs @ map key (queue (core p))) (entered evs)"
proof -
  let ?evs = "[Internal, Internal, Internal, Internal, Enter session_item, Receive session_item]"
  have "never_droppable ?evs"
    by (auto simp: never_droppable_def session_item_def)
  then show ?thesis
    using sample_session buffer_queue_fifo [OF sample_session]
    by (intro exI [of _ ?evs] exI [of _ "session_state slot_acquired [] session_buffers 1"])
      (simp add: received_def key_def session_item_def)
qed








end
