(* ===== verification/BitSet.thy ===== *)
theory BitSet
  imports Prelude
begin

text \<open>
  Bit sets (\<^verbatim>\<open>common/bit_set.h\<close>, \<open>BitSet64\<close>): an array of 64-bit words in which index 0 is the most significant bit
  of the first word, and core masks (\<^verbatim>\<open>k_affinity_mask.h\<close>). A word outside the array is a fault.
\<close>

section \<open>Bit sets\<close>

type_synonym BitSet64 = "u64 list"

definition FlagsPerWord :: nat where "FlagsPerWord = 64"

definition GetBitMask :: "nat \<Rightarrow> u64" where
  "GetBitMask b = push_bit (FlagsPerWord - 1 - b) 1"

definition NumWords :: "nat \<Rightarrow> nat" where
  "NumWords n = (n + FlagsPerWord - 1) div FlagsPerWord"

definition BitSet_ctor :: "nat \<Rightarrow> BitSet64" where
  "BitSet_ctor n = replicate (NumWords n) 0"

definition BitSet_SetBit :: "nat \<Rightarrow> BitSet64 \<Rightarrow> BitSet64 option" where
  "BitSet_SetBit i ws =
     do {
       w \<leftarrow> array_get ws (i div FlagsPerWord);
       array_set ws (i div FlagsPerWord) (w OR GetBitMask (i mod FlagsPerWord))
     }"

definition BitSet_ClearBit :: "nat \<Rightarrow> BitSet64 \<Rightarrow> BitSet64 option" where
  "BitSet_ClearBit i ws =
     do {
       w \<leftarrow> array_get ws (i div FlagsPerWord);
       array_set ws (i div FlagsPerWord) (w AND NOT (GetBitMask (i mod FlagsPerWord)))
     }"

text \<open>The loops over the words, from word \<open>i\<close> on.\<close>

fun count_leading_zero_loop :: "nat \<Rightarrow> BitSet64 \<Rightarrow> nat" where
  "count_leading_zero_loop i [] = FlagsPerWord * i"
| "count_leading_zero_loop i (w # ws) =
     (if w \<noteq> 0 then FlagsPerWord * i + countl_zero w else count_leading_zero_loop (Suc i) ws)"

definition BitSet_CountLeadingZero :: "BitSet64 \<Rightarrow> nat" where
  "BitSet_CountLeadingZero ws = count_leading_zero_loop 0 ws"

fun get_next_set_loop :: "nat \<Rightarrow> nat \<Rightarrow> BitSet64 \<Rightarrow> nat" where
  "get_next_set_loop n i [] = FlagsPerWord * i"
| "get_next_set_loop n i (w # ws) =
     (let word = (if (n + 1) mod FlagsPerWord \<noteq> 0 then w AND (GetBitMask (n mod FlagsPerWord) - 1) else w)
      in if word \<noteq> 0 then FlagsPerWord * i + countl_zero word else get_next_set_loop n (Suc i) ws)"

definition BitSet_GetNextSet :: "nat \<Rightarrow> BitSet64 \<Rightarrow> nat" where
  "BitSet_GetNextSet n ws =
     (let i = (n + 1) div FlagsPerWord
      in if i < length ws then get_next_set_loop n i (drop i ws) else FlagsPerWord * length ws)"

section \<open>Membership\<close>

definition has_bit :: "BitSet64 \<Rightarrow> nat \<Rightarrow> bool" where
  "has_bit ws p \<longleftrightarrow> p div 64 < length ws \<and> bit (ws ! (p div 64)) (63 - p mod 64)"

lemma bit_GetBitMask: "b < 64 \<Longrightarrow> bit (GetBitMask b) i \<longleftrightarrow> i = 63 - b"
  by (auto simp: GetBitMask_def FlagsPerWord_def bit_simps)

lemma has_bit_ctor [simp]: "\<not> has_bit (BitSet_ctor n) p"
  by (simp add: has_bit_def BitSet_ctor_def)

lemma word_index_eq: "p div 64 = q div 64 \<Longrightarrow> 63 - p mod 64 = 63 - q mod 64 \<longleftrightarrow> p = q" for p q :: nat
proof -
  assume d: "p div 64 = q div 64"
  have "p mod 64 < 64" "q mod 64 < 64"
    by simp_all
  then have "63 - p mod 64 = 63 - q mod 64 \<longleftrightarrow> p mod 64 = q mod 64"
    by linarith
  then show ?thesis
    using d by (metis div_mod_decomp)
qed

lemma SetBit_has_bit:
  assumes "p div 64 < length ws"
  obtains ws' where "BitSet_SetBit p ws = Some ws'" "length ws' = length ws" "\<forall>q. has_bit ws' q \<longleftrightarrow> q = p \<or> has_bit ws q"
proof -
  let ?ws = "ws[p div 64 := ws ! (p div 64) OR GetBitMask (p mod 64)]"
  have "has_bit ?ws q \<longleftrightarrow> q = p \<or> has_bit ws q" for q
  proof (cases "q div 64 = p div 64")
    case True
    then show ?thesis
      using assms word_index_eq [OF True] by (auto simp: has_bit_def bit_or_iff bit_GetBitMask)
  next
    case False
    then have "q \<noteq> p"
      by auto
    then show ?thesis
      using False by (simp add: has_bit_def)
  qed
  then show thesis
    using that [of ?ws] assms by (simp add: BitSet_SetBit_def FlagsPerWord_def)
qed

lemma ClearBit_has_bit:
  assumes "p div 64 < length ws"
  obtains ws' where "BitSet_ClearBit p ws = Some ws'" "length ws' = length ws" "\<forall>q. has_bit ws' q \<longleftrightarrow> q \<noteq> p \<and> has_bit ws q"
proof -
  let ?ws = "ws[p div 64 := ws ! (p div 64) AND NOT (GetBitMask (p mod 64))]"
  have "has_bit ?ws q \<longleftrightarrow> q \<noteq> p \<and> has_bit ws q" for q
  proof (cases "q div 64 = p div 64")
    case True
    then show ?thesis
      using assms word_index_eq [OF True] by (auto simp: has_bit_def bit_and_iff bit_not_iff bit_GetBitMask)
  next
    case False
    then have "q \<noteq> p"
      by auto
    then show ?thesis
      using False by (simp add: has_bit_def)
  qed
  then show thesis
    using that [of ?ws] assms by (simp add: BitSet_ClearBit_def FlagsPerWord_def)
qed

section \<open>Searching\<close>

lemma countl_zero_first:
  fixes w :: u64
  assumes "w \<noteq> 0"
  shows "countl_zero w < 64" "bit w (63 - countl_zero w)" "j < countl_zero w \<Longrightarrow> \<not> bit w (63 - j)"
proof -
  from assms obtain i where i: "bit w i"
    by (auto simp: bit_eq_iff)
  then have l: "i < 64"
    using bit_imp_le_length [OF i] by simp
  let ?P = "\<lambda>k. bit w (63 - k)"
  have j: "?P (63 - i)" "63 - i < 64"
    using i l by simp_all
  note f = length_takeWhile_upt_first [of ?P, OF j]
  show "countl_zero w < 64" "bit w (63 - countl_zero w)"
    using f(1,2) j(2) by (simp_all add: countl_zero_def)
  show "\<not> bit w (63 - j)" if "j < countl_zero w" for j
    using f(3) that by (simp add: countl_zero_def)
qed

lemma count_leading_zero_loop_first:
  "(\<forall>p. has_bit ws p \<longrightarrow> count_leading_zero_loop i ws \<le> 64 * i + p) \<and>
   (count_leading_zero_loop i ws = 64 * (i + length ws) \<and> (\<forall>p. \<not> has_bit ws p) \<or>
    (\<exists>p. has_bit ws p \<and> count_leading_zero_loop i ws = 64 * i + p))"
proof (induction ws arbitrary: i)
  case Nil
  then show ?case by (simp add: has_bit_def FlagsPerWord_def)
next
  case (Cons w ws)
  have hb: "has_bit (w # ws) p \<longleftrightarrow> (if p < 64 then bit w (63 - p) else has_bit ws (p - 64))" for p
  proof (cases "p < 64")
    case False
    then obtain q where "p = q + 64"
      by (metis add.commute le_Suc_ex not_less)
    moreover have "(q + 64) div 64 = Suc (q div 64)"
      by (simp add: div_add_self2)
    ultimately show ?thesis
      by (simp add: has_bit_def)
  qed (simp add: has_bit_def)
  show ?case
  proof (cases "w = 0")
    case True
    have hb0: "has_bit (w # ws) p \<longleftrightarrow> 64 \<le> p \<and> has_bit ws (p - 64)" for p
      using hb [of p] True by (auto simp: not_less)
    have eq: "count_leading_zero_loop i (w # ws) = count_leading_zero_loop (Suc i) ws"
      using True by simp
    from Cons.IH [of "Suc i"] have le: "count_leading_zero_loop (Suc i) ws \<le> 64 * Suc i + p" if "has_bit ws p" for p
      using that by blast
    consider "count_leading_zero_loop (Suc i) ws = 64 * (Suc i + length ws)" "\<forall>p. \<not> has_bit ws p"
      | p where "has_bit ws p" "count_leading_zero_loop (Suc i) ws = 64 * Suc i + p"
      using Cons.IH [of "Suc i"] by blast
    then have "count_leading_zero_loop (Suc i) ws = 64 * (i + length (w # ws)) \<and> (\<forall>p. \<not> has_bit (w # ws) p) \<or>
        (\<exists>p. has_bit (w # ws) p \<and> count_leading_zero_loop (Suc i) ws = 64 * i + p)"
    proof cases
      case (2 p)
      then show ?thesis
        using hb0 [of "p + 64"] by (intro disjI2 exI [of _ "p + 64"]) simp
    qed (use hb0 in auto)
    then show ?thesis
      unfolding eq using le hb0 by fastforce
  next
    case False
    note c = countl_zero_first [OF False]
    have "count_leading_zero_loop i (w # ws) = 64 * i + countl_zero w"
      using False by (simp add: FlagsPerWord_def)
    moreover have "countl_zero w \<le> p" if "has_bit (w # ws) p" for p
      using that hb [of p] c(1) c(3) [of p] by (cases "p < 64") (auto simp: not_less [symmetric])
    ultimately show ?thesis
      using hb [of "countl_zero w"] c(1,2) by fastforce
  qed
qed

text \<open>The least member, or the size of the array in bits when the set is empty.\<close>

lemma CountLeadingZero_first:
  "has_bit ws p \<Longrightarrow> BitSet_CountLeadingZero ws \<le> p \<and> has_bit ws (BitSet_CountLeadingZero ws)"
  "(\<forall>p. \<not> has_bit ws p) \<Longrightarrow> BitSet_CountLeadingZero ws = 64 * length ws"
  using count_leading_zero_loop_first [of ws 0] by (auto simp: BitSet_CountLeadingZero_def)

lemma bit_lower_mask: "b < 64 \<Longrightarrow> bit (GetBitMask b - 1) i \<longleftrightarrow> i < 63 - b"
proof -
  assume "b < 64"
  have "GetBitMask b - 1 = mask (63 - b)"
    by (simp add: GetBitMask_def FlagsPerWord_def mask_eq_exp_minus_1)
  then show ?thesis
    by (auto simp: bit_mask_iff)
qed

text \<open>For a set of one word, the least member above \<open>n\<close>, or 64.\<close>

lemma GetNextSet_first:
  assumes "length ws = 1" "n < 64"
  shows "n < p \<Longrightarrow> has_bit ws p \<Longrightarrow> BitSet_GetNextSet n ws \<le> p \<and> n < BitSet_GetNextSet n ws \<and> has_bit ws (BitSet_GetNextSet n ws)"
    and "\<forall>p > n. \<not> has_bit ws p \<Longrightarrow> BitSet_GetNextSet n ws = 64"
proof -
  obtain w where w: "ws = [w]"
    using assms(1) by (auto simp: length_Suc_conv)
  have hb: "has_bit ws q \<longleftrightarrow> q < 64 \<and> bit w (63 - q)" for q
    by (auto simp: has_bit_def w)
  define v where "v = w AND (GetBitMask n - 1)"
  have v: "bit v (63 - q) \<longleftrightarrow> n < q \<and> bit w (63 - q)" if "q < 64" for q
    using that assms(2) by (auto simp: v_def bit_and_iff bit_lower_mask)
  have eq: "BitSet_GetNextSet n ws = (if n = 63 then 64 else if v \<noteq> 0 then countl_zero v else 64)"
    using assms(2) by (auto simp: BitSet_GetNextSet_def w FlagsPerWord_def v_def Let_def mod_if split: if_splits)
  {
    assume p: "n < p" "has_bit ws p"
    then have "p < 64" "n \<noteq> 63" "bit v (63 - p)"
      using hb v by auto
    then have "v \<noteq> 0"
      by auto
    note c = countl_zero_first [OF this]
    have "countl_zero v \<le> p"
      using c(3) [of p] \<open>bit v (63 - p)\<close> by (meson not_le)
    moreover have "n < countl_zero v" "bit w (63 - countl_zero v)"
      using v [OF c(1)] c(2) by auto
    ultimately show "BitSet_GetNextSet n ws \<le> p \<and> n < BitSet_GetNextSet n ws \<and> has_bit ws (BitSet_GetNextSet n ws)"
      using c(1) \<open>v \<noteq> 0\<close> \<open>n \<noteq> 63\<close> hb by (simp add: eq)
  }
  assume none: "\<forall>p > n. \<not> has_bit ws p"
  have "v = 0"
  proof (rule ccontr)
    assume "v \<noteq> 0"
    note c = countl_zero_first [OF this]
    show False
      using v [OF c(1)] c none hb by auto
  qed
  then show "BitSet_GetNextSet n ws = 64"
    by (simp add: eq)
qed

text \<open>
  On a set of more than one word \<open>GetNextSet\<close> can miss a member: the mask for the word of \<open>n\<close> is applied to every
  later word as well. Here the only member is 64, the search starts at 0, and the result says that there is none.
\<close>

theorem GetNextSet_misses:
  "\<exists>ws. {p. has_bit ws p} = {64} \<and> length ws = 2 \<and> BitSet_GetNextSet 0 ws = 128"
proof -
  have "BitSet_SetBit 64 (BitSet_ctor 128) = Some [0, 0x8000000000000000]"
    by code_simp
  moreover obtain ws where "BitSet_SetBit 64 (BitSet_ctor 128) = Some ws" "length ws = length (BitSet_ctor 128)"
      "\<forall>q. has_bit ws q \<longleftrightarrow> q = 64 \<or> has_bit (BitSet_ctor 128) q"
    by (rule SetBit_has_bit [of 64 "BitSet_ctor 128"]) (simp_all add: BitSet_ctor_def NumWords_def FlagsPerWord_def)
  moreover have "BitSet_GetNextSet 0 [0, 0x8000000000000000] = 128"
    by code_simp
  ultimately show ?thesis
    by (intro exI [of _ "[0, 0x8000000000000000]"]) simp
qed

section \<open>Affinity masks\<close>

definition NUM_CPU_CORES :: s32 where "NUM_CPU_CORES = 4"

type_synonym KAffinityMask = u64

definition AllowedAffinityMask :: u64 where
  "AllowedAffinityMask = push_bit (nat NUM_CPU_CORES) 1 - 1"

definition GetCoreBit :: "s32 \<Rightarrow> u64 option" where
  "GetCoreBit core =
     do {
       ASSERT (0 \<le> core \<and> core < NUM_CPU_CORES);
       Some (push_bit (nat core) 1)
     }"

definition SetAffinityMask :: "u64 \<Rightarrow> KAffinityMask \<Rightarrow> KAffinityMask option" where
  "SetAffinityMask new_mask m =
     do {
       ASSERT (new_mask AND NOT AllowedAffinityMask = 0);
       Some new_mask
     }"

definition GetAffinity :: "s32 \<Rightarrow> KAffinityMask \<Rightarrow> bool option" where
  "GetAffinity core m =
     do {
       b \<leftarrow> GetCoreBit core;
       Some (m AND b \<noteq> 0)
     }"

definition SetAffinity :: "s32 \<Rightarrow> bool \<Rightarrow> KAffinityMask \<Rightarrow> KAffinityMask option" where
  "SetAffinity core value m =
     do {
       b \<leftarrow> GetCoreBit core;
       Some (if value then m OR b else m AND NOT b)
     }"

definition SetAll :: KAffinityMask where "SetAll = AllowedAffinityMask"

lemma GetAffinity_eq: "0 \<le> core \<Longrightarrow> core < 4 \<Longrightarrow> GetAffinity core m = Some (bit m (nat core))"
  by (simp add: GetAffinity_def GetCoreBit_def NUM_CPU_CORES_def bit_iff_and_push_bit_not_eq_0)

end
