(* ===== verification/KPriorityQueue.thy ===== *)
theory KPriorityQueue
  imports BitSet
begin

text \<open>
  The scheduler's priority queue (\<^verbatim>\<open>k_priority_queue.h\<close>), instantiated as in \<^verbatim>\<open>global_scheduler_context.h\<close>: 64
  priorities, 4 cores. For every priority and core there is a doubly linked list of threads through the entries that each
  thread has per core, once for the threads scheduled on the core and once for those suggested to it; both kinds share the
  entries. A bit set per core and kind says which priorities are not empty.

  Threads are numbers; what the queue reads of a thread is the record \<open>KThread\<close>, given to the operations as a function.
  The two queue implementations are a function of the kind.
\<close>

section \<open>State\<close>

definition LowestPriority :: s32 where "LowestPriority = 63"
definition HighestPriority :: s32 where "HighestPriority = 0"
definition NumPriority :: nat where "NumPriority = nat (LowestPriority - HighestPriority + 1)"

definition IsValidCore :: "s32 \<Rightarrow> bool" where
  "IsValidCore core \<longleftrightarrow> 0 \<le> core \<and> core < NUM_CPU_CORES"

definition IsValidPriority :: "s32 \<Rightarrow> bool" where
  "IsValidPriority priority \<longleftrightarrow> HighestPriority \<le> priority \<and> priority \<le> LowestPriority + 1"

record QueueEntry =
  m_prev :: "nat option"
  m_next :: "nat option"

definition QueueEntry_Initialize :: QueueEntry where
  "QueueEntry_Initialize = \<lparr>m_prev = None, m_next = None\<rparr>"

record KThread =
  GetPriority :: s32
  GetActiveCore :: s32
  GetAffinityMask :: KAffinityMask
  IsDummyThread :: bool

datatype QueueKind = Scheduled | Suggested

text \<open>The roots are indexed by priority and core, the availability sets by core.\<close>

record KPriorityQueueImpl =
  m_root :: "nat \<Rightarrow> nat \<Rightarrow> QueueEntry"
  m_available_priorities :: "nat \<Rightarrow> BitSet64"

text \<open>The entries of a thread are indexed by core first.\<close>

record KPriorityQueue =
  queue_impl :: "QueueKind \<Rightarrow> KPriorityQueueImpl"
  thread_entry :: "nat \<Rightarrow> nat \<Rightarrow> QueueEntry"

definition KPriorityQueueImpl_ctor :: KPriorityQueueImpl where
  "KPriorityQueueImpl_ctor =
     \<lparr>m_root = (\<lambda>_ _. QueueEntry_Initialize), m_available_priorities = (\<lambda>_. BitSet_ctor NumPriority)\<rparr>"

definition KPriorityQueue_ctor :: KPriorityQueue where
  "KPriorityQueue_ctor =
     \<lparr>queue_impl = (\<lambda>_. KPriorityQueueImpl_ctor), thread_entry = (\<lambda>_ _. QueueEntry_Initialize)\<rparr>"

section \<open>One list\<close>

text \<open>
  The operations of \<^verbatim>\<open>KPerCoreQueue\<close> on the root of the list and the entries of the threads on its core. The entry a
  pointer leads to is that of the thread, or the root for the null pointer.
\<close>

type_synonym core_list = "QueueEntry \<times> (nat \<Rightarrow> QueueEntry)"

definition SetNext :: "nat option \<Rightarrow> nat option \<Rightarrow> core_list \<Rightarrow> core_list" where
  "SetNext at x = (\<lambda>(root, ent).
     case at of
       None \<Rightarrow> (root\<lparr>m_next := x\<rparr>, ent)
     | Some t \<Rightarrow> (root, ent(t := (ent t)\<lparr>m_next := x\<rparr>)))"

definition SetPrev :: "nat option \<Rightarrow> nat option \<Rightarrow> core_list \<Rightarrow> core_list" where
  "SetPrev at x = (\<lambda>(root, ent).
     case at of
       None \<Rightarrow> (root\<lparr>m_prev := x\<rparr>, ent)
     | Some t \<Rightarrow> (root, ent(t := (ent t)\<lparr>m_prev := x\<rparr>)))"

definition KPerCoreQueue_PushBack :: "nat \<Rightarrow> core_list \<Rightarrow> bool \<times> core_list" where
  "KPerCoreQueue_PushBack member l =
     (let tail = m_prev (fst l);
          l1 = SetPrev (Some member) tail l;
          l2 = SetNext (Some member) None l1;
          l3 = SetNext tail (Some member) l2;
          l4 = SetPrev None (Some member) l3
      in (tail = None, l4))"

definition KPerCoreQueue_PushFront :: "nat \<Rightarrow> core_list \<Rightarrow> bool \<times> core_list" where
  "KPerCoreQueue_PushFront member l =
     (let head = m_next (fst l);
          l1 = SetPrev (Some member) None l;
          l2 = SetNext (Some member) head l1;
          l3 = SetPrev head (Some member) l2;
          l4 = SetNext None (Some member) l3
      in (head = None, l4))"

definition KPerCoreQueue_GetFront :: "core_list \<Rightarrow> nat option" where
  "KPerCoreQueue_GetFront l = m_next (fst l)"

definition KPerCoreQueue_Remove :: "nat \<Rightarrow> core_list \<Rightarrow> bool \<times> core_list" where
  "KPerCoreQueue_Remove member l =
     (let prev = m_prev (snd l member);
          next = m_next (snd l member);
          l1 = SetNext prev next l;
          l2 = SetPrev next prev l1
      in (KPerCoreQueue_GetFront l2 = None, l2))"

section \<open>All lists of one kind\<close>

definition get_list :: "QueueKind \<Rightarrow> nat \<Rightarrow> nat \<Rightarrow> KPriorityQueue \<Rightarrow> core_list" where
  "get_list k p c q = (m_root (queue_impl q k) p c, thread_entry q c)"

definition put_list :: "QueueKind \<Rightarrow> nat \<Rightarrow> nat \<Rightarrow> core_list \<Rightarrow> KPriorityQueue \<Rightarrow> KPriorityQueue" where
  "put_list k p c l q =
     (let i = queue_impl q k
      in q\<lparr>queue_impl := (queue_impl q)(k := i\<lparr>m_root := (m_root i)(p := (m_root i p)(c := fst l))\<rparr>),
           thread_entry := (thread_entry q)(c := snd l)\<rparr>)"

definition put_available :: "QueueKind \<Rightarrow> nat \<Rightarrow> BitSet64 \<Rightarrow> KPriorityQueue \<Rightarrow> KPriorityQueue" where
  "put_available k c b q =
     (let i = queue_impl q k
      in q\<lparr>queue_impl := (queue_impl q)(k := i\<lparr>m_available_priorities := (m_available_priorities i)(c := b)\<rparr>)\<rparr>)"

definition Impl_PushBack :: "QueueKind \<Rightarrow> s32 \<Rightarrow> s32 \<Rightarrow> nat \<Rightarrow> KPriorityQueue \<Rightarrow> KPriorityQueue option" where
  "Impl_PushBack k priority core member q =
     do {
       ASSERT (IsValidCore core);
       ASSERT (IsValidPriority priority);
       if priority > LowestPriority then Some q
       else
         let p = nat priority; c = nat core; (was_empty, l) = KPerCoreQueue_PushBack member (get_list k p c q)
         in if was_empty then
              do {
                b \<leftarrow> BitSet_SetBit p (m_available_priorities (queue_impl q k) c);
                Some (put_available k c b (put_list k p c l q))
              }
            else Some (put_list k p c l q)
     }"

definition Impl_PushFront :: "QueueKind \<Rightarrow> s32 \<Rightarrow> s32 \<Rightarrow> nat \<Rightarrow> KPriorityQueue \<Rightarrow> KPriorityQueue option" where
  "Impl_PushFront k priority core member q =
     do {
       ASSERT (IsValidCore core);
       ASSERT (IsValidPriority priority);
       if priority > LowestPriority then Some q
       else
         let p = nat priority; c = nat core; (was_empty, l) = KPerCoreQueue_PushFront member (get_list k p c q)
         in if was_empty then
              do {
                b \<leftarrow> BitSet_SetBit p (m_available_priorities (queue_impl q k) c);
                Some (put_available k c b (put_list k p c l q))
              }
            else Some (put_list k p c l q)
     }"

definition Impl_Remove :: "QueueKind \<Rightarrow> s32 \<Rightarrow> s32 \<Rightarrow> nat \<Rightarrow> KPriorityQueue \<Rightarrow> KPriorityQueue option" where
  "Impl_Remove k priority core member q =
     do {
       ASSERT (IsValidCore core);
       ASSERT (IsValidPriority priority);
       if priority > LowestPriority then Some q
       else
         let p = nat priority; c = nat core; (now_empty, l) = KPerCoreQueue_Remove member (get_list k p c q)
         in if now_empty then
              do {
                b \<leftarrow> BitSet_ClearBit p (m_available_priorities (queue_impl q k) c);
                Some (put_available k c b (put_list k p c l q))
              }
            else Some (put_list k p c l q)
     }"

definition Impl_GetFront :: "QueueKind \<Rightarrow> s32 \<Rightarrow> KPriorityQueue \<Rightarrow> nat option option" where
  "Impl_GetFront k core q =
     do {
       ASSERT (IsValidCore core);
       let p = BitSet_CountLeadingZero (m_available_priorities (queue_impl q k) (nat core));
       Some (if int p \<le> LowestPriority then KPerCoreQueue_GetFront (get_list k p (nat core) q) else None)
     }"

definition Impl_GetFront_at :: "QueueKind \<Rightarrow> s32 \<Rightarrow> s32 \<Rightarrow> KPriorityQueue \<Rightarrow> nat option option" where
  "Impl_GetFront_at k priority core q =
     do {
       ASSERT (IsValidCore core);
       ASSERT (IsValidPriority priority);
       Some (if priority \<le> LowestPriority then KPerCoreQueue_GetFront (get_list k (nat priority) (nat core) q)
             else None)
     }"

definition Impl_GetNext :: "(nat \<Rightarrow> 'a KThread_scheme) \<Rightarrow> QueueKind \<Rightarrow> s32 \<Rightarrow> nat \<Rightarrow> KPriorityQueue \<Rightarrow> nat option option" where
  "Impl_GetNext threads k core member q =
     do {
       ASSERT (IsValidCore core);
       let next = m_next (thread_entry q (nat core) member);
       let p = BitSet_GetNextSet (nat (GetPriority (threads member))) (m_available_priorities (queue_impl q k) (nat core));
       Some (if next = None \<and> int p \<le> LowestPriority then KPerCoreQueue_GetFront (get_list k p (nat core) q)
             else next)
     }"

definition Impl_MoveToFront :: "QueueKind \<Rightarrow> s32 \<Rightarrow> s32 \<Rightarrow> nat \<Rightarrow> KPriorityQueue \<Rightarrow> KPriorityQueue option" where
  "Impl_MoveToFront k priority core member q =
     do {
       ASSERT (IsValidCore core);
       ASSERT (IsValidPriority priority);
       Some (if priority \<le> LowestPriority then
               let p = nat priority; c = nat core;
                   l1 = snd (KPerCoreQueue_Remove member (get_list k p c q));
                   l2 = snd (KPerCoreQueue_PushFront member l1)
               in put_list k p c l2 q
             else q)
     }"

definition Impl_MoveToBack ::
    "QueueKind \<Rightarrow> s32 \<Rightarrow> s32 \<Rightarrow> nat \<Rightarrow> KPriorityQueue \<Rightarrow> (nat option \<times> KPriorityQueue) option" where
  "Impl_MoveToBack k priority core member q =
     do {
       ASSERT (IsValidCore core);
       ASSERT (IsValidPriority priority);
       Some (if priority \<le> LowestPriority then
               let p = nat priority; c = nat core;
                   l1 = snd (KPerCoreQueue_Remove member (get_list k p c q));
                   l2 = snd (KPerCoreQueue_PushBack member l1)
               in (KPerCoreQueue_GetFront l2, put_list k p c l2 q)
             else (None, q))
     }"

section \<open>The priority queue\<close>

definition ClearAffinityBit :: "u64 \<Rightarrow> s32 \<Rightarrow> u64" where
  "ClearAffinityBit affinity core = affinity AND NOT (push_bit (nat core) 1)"

text \<open>A loop over the cores of a mask, lowest first.\<close>

lemma ClearAffinityBit_less:
  assumes "a \<noteq> 0"
  shows "unat (ClearAffinityBit a (int (countr_zero a))) < unat a"
proof -
  let ?b = "push_bit (countr_zero a) (1 :: u64)"
  have "ClearAffinityBit a (int (countr_zero a)) \<noteq> a"
    using bit_countr_zero [OF assms] countr_zero_less [OF assms]
    by (auto simp: ClearAffinityBit_def bit_eq_iff bit_simps)
  moreover have "ClearAffinityBit a (int (countr_zero a)) \<le> a"
    by (simp add: ClearAffinityBit_def word_and_le2 and.commute)
  ultimately show ?thesis
    by (metis order_neq_le_trans word_less_nat_alt)
qed

function for_affinity ::
    "(s32 \<Rightarrow> 's \<Rightarrow> 's option) \<Rightarrow> u64 \<Rightarrow> 's \<Rightarrow> 's option" where
  "for_affinity f affinity q =
     (if affinity = 0 then Some q
      else
        let core = int (countr_zero affinity)
        in do {
             q1 \<leftarrow> f core q;
             for_affinity f (ClearAffinityBit affinity core) q1
           })"
  by pat_completeness auto
termination
  by (relation "measure (\<lambda>(f, a, q). unat a)") (auto intro: ClearAffinityBit_less)

declare for_affinity.simps [simp del]

definition PushBack_at :: "(nat \<Rightarrow> 'a KThread_scheme) \<Rightarrow> s32 \<Rightarrow> nat \<Rightarrow> KPriorityQueue \<Rightarrow> KPriorityQueue option" where
  "PushBack_at threads priority member q =
     do {
       ASSERT (IsValidPriority priority);
       let affinity = GetAffinityMask (threads member);
       let core = GetActiveCore (threads member);
       q1 \<leftarrow> (if core \<ge> 0 then Impl_PushBack Scheduled priority core member q else Some q);
       for_affinity (\<lambda>c. Impl_PushBack Suggested priority c member)
         (if core \<ge> 0 then ClearAffinityBit affinity core else affinity) q1
     }"

definition PushFront_at :: "(nat \<Rightarrow> 'a KThread_scheme) \<Rightarrow> s32 \<Rightarrow> nat \<Rightarrow> KPriorityQueue \<Rightarrow> KPriorityQueue option" where
  "PushFront_at threads priority member q =
     do {
       ASSERT (IsValidPriority priority);
       let affinity = GetAffinityMask (threads member);
       let core = GetActiveCore (threads member);
       q1 \<leftarrow> (if core \<ge> 0 then Impl_PushFront Scheduled priority core member q else Some q);
       for_affinity (\<lambda>c. Impl_PushBack Suggested priority c member)
         (if core \<ge> 0 then ClearAffinityBit affinity core else affinity) q1
     }"

definition Remove_at :: "(nat \<Rightarrow> 'a KThread_scheme) \<Rightarrow> s32 \<Rightarrow> nat \<Rightarrow> KPriorityQueue \<Rightarrow> KPriorityQueue option" where
  "Remove_at threads priority member q =
     do {
       ASSERT (IsValidPriority priority);
       let affinity = GetAffinityMask (threads member);
       let core = GetActiveCore (threads member);
       q1 \<leftarrow> (if core \<ge> 0 then Impl_Remove Scheduled priority core member q else Some q);
       for_affinity (\<lambda>c. Impl_Remove Suggested priority c member)
         (if core \<ge> 0 then ClearAffinityBit affinity core else affinity) q1
     }"

definition GetScheduledFront :: "s32 \<Rightarrow> KPriorityQueue \<Rightarrow> nat option option" where
  "GetScheduledFront core q = Impl_GetFront Scheduled core q"

definition GetScheduledFront_at :: "s32 \<Rightarrow> s32 \<Rightarrow> KPriorityQueue \<Rightarrow> nat option option" where
  "GetScheduledFront_at core priority q = Impl_GetFront_at Scheduled priority core q"

definition GetSuggestedFront :: "s32 \<Rightarrow> KPriorityQueue \<Rightarrow> nat option option" where
  "GetSuggestedFront core q = Impl_GetFront Suggested core q"

definition GetSuggestedFront_at :: "s32 \<Rightarrow> s32 \<Rightarrow> KPriorityQueue \<Rightarrow> nat option option" where
  "GetSuggestedFront_at core priority q = Impl_GetFront_at Suggested priority core q"

definition GetScheduledNext :: "(nat \<Rightarrow> 'a KThread_scheme) \<Rightarrow> s32 \<Rightarrow> nat \<Rightarrow> KPriorityQueue \<Rightarrow> nat option option" where
  "GetScheduledNext threads core member q = Impl_GetNext threads Scheduled core member q"

definition GetSuggestedNext :: "(nat \<Rightarrow> 'a KThread_scheme) \<Rightarrow> s32 \<Rightarrow> nat \<Rightarrow> KPriorityQueue \<Rightarrow> nat option option" where
  "GetSuggestedNext threads core member q = Impl_GetNext threads Suggested core member q"

definition GetSamePriorityNext :: "s32 \<Rightarrow> nat \<Rightarrow> KPriorityQueue \<Rightarrow> nat option option" where
  "GetSamePriorityNext core member q =
     (if IsValidCore core then Some (m_next (thread_entry q (nat core) member)) else None)"

definition PQ_PushBack :: "(nat \<Rightarrow> 'a KThread_scheme) \<Rightarrow> nat \<Rightarrow> KPriorityQueue \<Rightarrow> KPriorityQueue option" where
  "PQ_PushBack threads member q =
     (if IsDummyThread (threads member) then Some q
      else PushBack_at threads (GetPriority (threads member)) member q)"

definition PQ_Remove :: "(nat \<Rightarrow> 'a KThread_scheme) \<Rightarrow> nat \<Rightarrow> KPriorityQueue \<Rightarrow> KPriorityQueue option" where
  "PQ_Remove threads member q =
     (if IsDummyThread (threads member) then Some q
      else Remove_at threads (GetPriority (threads member)) member q)"

definition MoveToScheduledFront :: "(nat \<Rightarrow> 'a KThread_scheme) \<Rightarrow> nat \<Rightarrow> KPriorityQueue \<Rightarrow> KPriorityQueue option" where
  "MoveToScheduledFront threads member q =
     (if IsDummyThread (threads member) then Some q
      else Impl_MoveToFront Scheduled (GetPriority (threads member)) (GetActiveCore (threads member)) member q)"

definition MoveToScheduledBack ::
    "(nat \<Rightarrow> 'a KThread_scheme) \<Rightarrow> nat \<Rightarrow> KPriorityQueue \<Rightarrow> (nat option \<times> KPriorityQueue) option" where
  "MoveToScheduledBack threads member q =
     (if IsDummyThread (threads member) then Some (None, q)
      else Impl_MoveToBack Scheduled (GetPriority (threads member)) (GetActiveCore (threads member)) member q)"

definition ChangePriority ::
    "(nat \<Rightarrow> 'a KThread_scheme) \<Rightarrow> s32 \<Rightarrow> bool \<Rightarrow> nat \<Rightarrow> KPriorityQueue \<Rightarrow> KPriorityQueue option" where
  "ChangePriority threads prev_priority is_running member q =
     (if IsDummyThread (threads member) then Some q
      else
        do {
          ASSERT (IsValidPriority prev_priority);
          let new_priority = GetPriority (threads member);
          q1 \<leftarrow> Remove_at threads prev_priority member q;
          if is_running then PushFront_at threads new_priority member q1
          else PushBack_at threads new_priority member q1
        })"

definition ChangeAffinityMask ::
    "(nat \<Rightarrow> 'a KThread_scheme) \<Rightarrow> s32 \<Rightarrow> KAffinityMask \<Rightarrow> nat \<Rightarrow> KPriorityQueue \<Rightarrow> KPriorityQueue option" where
  "ChangeAffinityMask threads prev_core prev_affinity member q =
     (if IsDummyThread (threads member) then Some q
      else
        let priority = GetPriority (threads member);
            new_affinity = GetAffinityMask (threads member);
            new_core = GetActiveCore (threads member)
        in do {
             q1 \<leftarrow> for_each
                    (\<lambda>core q. do {
                       a \<leftarrow> GetAffinity core prev_affinity;
                       if a then
                         if core = prev_core then Impl_Remove Scheduled priority core member q
                         else Impl_Remove Suggested priority core member q
                       else Some q
                     })
                    [0..NUM_CPU_CORES - 1] q;
             for_each
               (\<lambda>core q. do {
                  a \<leftarrow> GetAffinity core new_affinity;
                  if a then
                    if core = new_core then Impl_PushBack Scheduled priority core member q
                    else Impl_PushBack Suggested priority core member q
                  else Some q
                })
               [0..NUM_CPU_CORES - 1] q1
           })"

definition ChangeCore ::
    "(nat \<Rightarrow> 'a KThread_scheme) \<Rightarrow> s32 \<Rightarrow> nat \<Rightarrow> bool \<Rightarrow> KPriorityQueue \<Rightarrow> KPriorityQueue option" where
  "ChangeCore threads prev_core member to_front q =
     (if IsDummyThread (threads member) then Some q
      else
        let new_core = GetActiveCore (threads member); priority = GetPriority (threads member)
        in if prev_core = new_core then Some q
           else
             do {
               q1 \<leftarrow> (if prev_core \<ge> 0 then Impl_Remove Scheduled priority prev_core member q else Some q);
               q2 \<leftarrow> (if new_core \<ge> 0 then
                        do {
                          q2 \<leftarrow> Impl_Remove Suggested priority new_core member q1;
                          if to_front then Impl_PushFront Scheduled priority new_core member q2
                          else Impl_PushBack Scheduled priority new_core member q2
                        }
                      else Some q1);
               if prev_core \<ge> 0 then Impl_PushBack Suggested priority prev_core member q2 else Some q2
             })"

end
