(* ===== verification/KPriorityQueueRefinement.thy ===== *)
theory KPriorityQueueRefinement
  imports KPriorityQueue
begin

text \<open>
  The priority queue refines a table of lists: for every kind, priority and core the linked list represents a list of
  distinct threads, a thread is in at most one list per core, and the availability sets hold the priorities of the lists
  that are not empty. The operations act on this table as appending, prepending and removing.
\<close>

section \<open>Linked lists\<close>

definition first :: "nat list \<Rightarrow> nat option \<Rightarrow> nat option" where
  "first xs n = (case xs of [] \<Rightarrow> n | y # _ \<Rightarrow> Some y)"

definition lst :: "nat option \<Rightarrow> nat list \<Rightarrow> nat option" where
  "lst p xs = (if xs = [] then p else Some (last xs))"

lemma first_simps [simp]: "first [] n = n" "first (x # xs) n = Some x"
  by (simp_all add: first_def)

lemma lst_simps [simp]: "lst p [] = p" "lst p (x # xs) = lst (Some x) xs"
  by (simp_all add: lst_def)

lemma lst_append [simp]: "lst p (xs @ ys) = lst (lst p xs) ys"
  by (simp add: lst_def)

lemma first_append: "first (xs @ ys) n = first xs (first ys n)"
  by (cases xs) simp_all

fun linked :: "(nat \<Rightarrow> QueueEntry) \<Rightarrow> nat option \<Rightarrow> nat list \<Rightarrow> nat option \<Rightarrow> bool" where
  "linked ent p [] n \<longleftrightarrow> True"
| "linked ent p (x # xs) n \<longleftrightarrow> m_prev (ent x) = p \<and> m_next (ent x) = first xs n \<and> linked ent (Some x) xs n"

lemma linked_append:
  "linked ent p (xs @ ys) n \<longleftrightarrow> linked ent p xs (first ys n) \<and> linked ent (lst p xs) ys n"
  by (induction xs arbitrary: p) (auto simp: first_append)

lemma linked_cong: "(\<And>x. x \<in> set xs \<Longrightarrow> ent' x = ent x) \<Longrightarrow> linked ent' p xs n = linked ent p xs n"
  by (induction xs arbitrary: p) auto

lemma linked_other [simp]: "t \<notin> set xs \<Longrightarrow> linked (ent(t := e)) p xs n = linked ent p xs n"
  by (rule linked_cong) auto

lemma linked_set_last:
  assumes "linked ent p (xs @ [x]) n" "x \<notin> set xs"
  shows "linked (ent(x := (ent x)\<lparr>m_next := n'\<rparr>)) p (xs @ [x]) n'"
  using assms by (simp add: linked_append)

lemma linked_set_first:
  assumes "linked ent p (x # xs) n" "x \<notin> set xs"
  shows "linked (ent(x := (ent x)\<lparr>m_prev := p'\<rparr>)) p' (x # xs) n"
  using assms by simp

definition dll :: "core_list \<Rightarrow> nat list \<Rightarrow> bool" where
  "dll l xs \<longleftrightarrow> m_next (fst l) = first xs None \<and> m_prev (fst l) = lst None xs \<and> linked (snd l) None xs None \<and>
     distinct xs"

lemma dll_front: "dll l xs \<Longrightarrow> KPerCoreQueue_GetFront l = first xs None"
  by (simp add: dll_def KPerCoreQueue_GetFront_def)

lemma dll_other:
  "dll (root, ent) xs \<Longrightarrow> (\<And>x. x \<in> set xs \<Longrightarrow> ent' x = ent x) \<Longrightarrow> dll (root, ent') xs"
  using linked_cong [of xs ent' ent] by (simp add: dll_def)

lemma PushBack_dll:
  assumes "dll l xs" "m \<notin> set xs"
  obtains l' where "KPerCoreQueue_PushBack m l = (xs = [], l')" "dll l' (xs @ [m])"
    "\<And>x. x \<notin> set (m # xs) \<Longrightarrow> snd l' x = snd l x"
proof (cases xs rule: rev_cases)
  case Nil
  then show thesis
    using assms that by (cases l) (simp add: KPerCoreQueue_PushBack_def SetPrev_def SetNext_def dll_def)
next
  case (snoc ys t)
  obtain root ent where l: "l = (root, ent)"
    by fastforce
  have "linked (ent(t := (ent t)\<lparr>m_next := Some m\<rparr>)) None (ys @ [t]) (Some m)"
    using assms(1) snoc l linked_set_last [of ent None ys t None "Some m"] by (simp add: dll_def)
  then show thesis
    using assms snoc l that
    by (simp add: KPerCoreQueue_PushBack_def SetPrev_def SetNext_def dll_def linked_append first_append fun_upd_twist Let_def)
qed

lemma PushFront_dll:
  assumes "dll l xs" "m \<notin> set xs"
  obtains l' where "KPerCoreQueue_PushFront m l = (xs = [], l')" "dll l' (m # xs)"
    "\<And>x. x \<notin> set (m # xs) \<Longrightarrow> snd l' x = snd l x"
proof (cases xs)
  case Nil
  then show thesis
    using assms that by (cases l) (simp add: KPerCoreQueue_PushFront_def SetPrev_def SetNext_def dll_def)
next
  case (Cons t ys)
  obtain root ent where l: "l = (root, ent)"
    by fastforce
  show thesis
    using assms Cons l that
    by (simp add: KPerCoreQueue_PushFront_def SetPrev_def SetNext_def dll_def fun_upd_twist Let_def lst_def split: if_splits)
qed

lemma Remove_dll:
  assumes "dll l (as @ m # bs)"
  obtains l' where "KPerCoreQueue_Remove m l = (as @ bs = [], l')" "dll l' (as @ bs)"
    "\<And>x. x \<notin> set (as @ bs) \<Longrightarrow> snd l' x = snd l x"
proof -
  obtain root ent where l: "l = (root, ent)"
    by fastforce
  have m: "m_prev (ent m) = lst None as" "m_next (ent m) = first bs None" "linked ent None as (Some m)"
    "linked ent (Some m) bs None" "distinct (as @ m # bs)" "m_next root = first (as @ m # bs) None"
    "m_prev root = lst None (as @ m # bs)"
    using assms l by (simp_all add: dll_def linked_append)
  define l1 where "l1 = SetNext (lst None as) (first bs None) l"
  define l2 where "l2 = SetPrev (first bs None) (lst None as) l1"
  have rm: "KPerCoreQueue_Remove m l = (KPerCoreQueue_GetFront l2 = None, l2)"
    using m(1,2) by (simp add: KPerCoreQueue_Remove_def l l1_def l2_def Let_def)
  have "dll l2 (as @ bs) \<and> (\<forall>x. x \<notin> set (as @ bs) \<longrightarrow> snd l2 x = snd l x)"
  proof (cases as rule: rev_cases)
    case Nil
    then show ?thesis
      using m l by (cases bs) (simp_all add: l1_def l2_def SetNext_def SetPrev_def dll_def)
  next
    case (snoc cs s)
    have s: "linked (ent(s := (ent s)\<lparr>m_next := n\<rparr>)) None (cs @ [s]) n" for n
      using m(3,5) snoc by (intro linked_set_last) simp_all
    show ?thesis
    proof (cases bs)
      case Nil
      then show ?thesis
        using m l s [of None] snoc by (simp add: l1_def l2_def SetNext_def SetPrev_def dll_def first_append)
    next
      case (Cons b ds)
      then show ?thesis
        using m l s [of "Some b"] snoc
        by (auto simp: l1_def l2_def SetNext_def SetPrev_def dll_def first_append linked_append lst_def)
    qed
  qed
  then show thesis
    using that [of l2] rm dll_front [of l2 "as @ bs"] by (cases "as @ bs") auto
qed

section \<open>The table of lists\<close>

type_synonym table = "QueueKind \<Rightarrow> nat \<Rightarrow> nat \<Rightarrow> nat list"

definition available :: "QueueKind \<Rightarrow> nat \<Rightarrow> KPriorityQueue \<Rightarrow> BitSet64" where
  "available k c q = m_available_priorities (queue_impl q k) c"

definition pq_rep :: "KPriorityQueue \<Rightarrow> table \<Rightarrow> bool" where
  "pq_rep q Q \<longleftrightarrow>
     (\<forall>k. \<forall>p < 64. \<forall>c < 4. dll (get_list k p c q) (Q k p c)) \<and>
     (\<forall>c < 4. \<forall>k k'. \<forall>p < 64. \<forall>p' < 64. (k, p) \<noteq> (k', p') \<longrightarrow> set (Q k p c) \<inter> set (Q k' p' c) = {}) \<and>
     (\<forall>k. \<forall>c < 4. length (available k c q) = 1 \<and> (\<forall>p < 64. has_bit (available k c q) p \<longleftrightarrow> Q k p c \<noteq> []))"

definition upd :: "table \<Rightarrow> QueueKind \<Rightarrow> nat \<Rightarrow> nat \<Rightarrow> nat list \<Rightarrow> table" where
  "upd Q k p c xs = (\<lambda>k' p' c'. if k' = k \<and> p' = p \<and> c' = c then xs else Q k' p' c')"

lemma pq_rep_ctor: "pq_rep KPriorityQueue_ctor (\<lambda>_ _ _. [])"
  by (auto simp: pq_rep_def dll_def get_list_def available_def KPriorityQueue_ctor_def KPriorityQueueImpl_ctor_def
      QueueEntry_Initialize_def BitSet_ctor_def NumWords_def NumPriority_def LowestPriority_def HighestPriority_def
      FlagsPerWord_def has_bit_def)

lemma put_list_simps:
  "get_list k' p' c' (put_list k p c l q) =
     (if k' = k \<and> p' = p \<and> c' = c then fst l else fst (get_list k' p' c' q),
      if c' = c then snd l else snd (get_list k' p' c' q))"
  "available k' c' (put_list k p c l q) = available k' c' q"
  by (auto simp: get_list_def put_list_def available_def Let_def)

lemma put_available_simps:
  "get_list k' p' c' (put_available k c b q) = get_list k' p' c' q"
  "available k' c' (put_available k c b q) = (if k' = k \<and> c' = c then b else available k' c' q)"
  by (auto simp: get_list_def put_available_def available_def Let_def)

lemma put_available_same: "put_available k c (available k c q) q = q"
  by (simp add: put_available_def available_def Let_def)

lemma pq_rep_put:
  assumes "pq_rep q Q" "p < 64" "c < 4" "dll l xs"
    and others: "\<And>x. x \<notin> insert m (set (Q k p c)) \<Longrightarrow> snd l x = thread_entry q c x"
    and xs: "set xs \<subseteq> insert m (set (Q k p c))"
    and m: "\<And>k' p'. p' < 64 \<Longrightarrow> (k', p') \<noteq> (k, p) \<Longrightarrow> m \<notin> set (Q k' p' c)"
    and b: "length b = 1" "\<And>p'. p' < 64 \<Longrightarrow> has_bit b p' \<longleftrightarrow> (if p' = p then xs \<noteq> [] else has_bit (available k c q) p')"
  shows "pq_rep (put_available k c b (put_list k p c l q)) (upd Q k p c xs)"
proof -
  have dis: "set (Q k' p' c) \<inter> insert m (set (Q k p c)) = {}" if "p' < 64" "(k', p') \<noteq> (k, p)" for k' p'
    using assms(1-3) m [OF that] that by (auto simp: pq_rep_def)
  have "dll (get_list k' p' c' (put_list k p c l q)) (upd Q k p c xs k' p' c')" if "p' < 64" "c' < 4" for k' p' c'
  proof (cases "k' = k \<and> p' = p \<and> c' = c")
    case True
    then show ?thesis
      using assms(4) by (simp add: put_list_simps upd_def)
  next
    case False
    have old: "dll (get_list k' p' c' q) (Q k' p' c')"
      using assms(1) that by (simp add: pq_rep_def)
    show ?thesis
    proof (cases "c' = c")
      case True
      have "snd l x = snd (get_list k' p' c' q) x" if "x \<in> set (Q k' p' c')" for x
      proof -
        have "x \<notin> insert m (set (Q k p c))"
          using True False dis [of p' k'] that \<open>p' < 64\<close> by blast
        then show ?thesis
          using True others by (simp add: get_list_def)
      qed
      then have "dll (fst (get_list k' p' c' q), snd l) (Q k' p' c')"
        using old dll_other [of "fst (get_list k' p' c' q)" "snd (get_list k' p' c' q)" "Q k' p' c'" "snd l"]
        by (simp only: prod.collapse)
      then show ?thesis
        using False True by (auto simp: put_list_simps upd_def)
    next
      case c: False
      then show ?thesis
        using old False by (auto simp: put_list_simps upd_def)
    qed
  qed
  moreover have "set (upd Q k p c xs k1 p1 c') \<inter> set (upd Q k p c xs k2 p2 c') = {}"
    if "c' < 4" "p1 < 64" "p2 < 64" "(k1, p1) \<noteq> (k2, p2)" for k1 p1 k2 p2 c'
    using that assms(1) xs dis [of p1 k1] dis [of p2 k2]
    by (cases "c' = c") (auto simp: upd_def pq_rep_def)
  moreover have "length (available k' c' (put_available k c b (put_list k p c l q))) = 1 \<and>
      (\<forall>p' < 64. has_bit (available k' c' (put_available k c b (put_list k p c l q))) p' \<longleftrightarrow> upd Q k p c xs k' p' c' \<noteq> [])"
    if "c' < 4" for k' c'
    using that assms(1) b by (auto simp: put_available_simps put_list_simps upd_def pq_rep_def)
  ultimately show ?thesis
    by (simp add: pq_rep_def put_available_simps)
qed

lemma pq_rep_list: "pq_rep q Q \<Longrightarrow> p < 64 \<Longrightarrow> c < 4 \<Longrightarrow> dll (get_list k p c q) (Q k p c)"
  by (simp add: pq_rep_def)

lemma pq_rep_bits:
  "pq_rep q Q \<Longrightarrow> c < 4 \<Longrightarrow> length (available k c q) = 1"
  "pq_rep q Q \<Longrightarrow> c < 4 \<Longrightarrow> p < 64 \<Longrightarrow> has_bit (available k c q) p \<longleftrightarrow> Q k p c \<noteq> []"
  by (simp_all add: pq_rep_def)

lemma pq_rep_unique:
  assumes "pq_rep q Q" "c < 4" "p < 64" "p' < 64" "m \<in> set (Q k p c)" "(k', p') \<noteq> (k, p)"
  shows "m \<notin> set (Q k' p' c)"
  using assms unfolding pq_rep_def by blast

text \<open>A thread that is in no list of a core.\<close>

definition absent :: "nat \<Rightarrow> nat \<Rightarrow> table \<Rightarrow> bool" where
  "absent m c Q \<longleftrightarrow> (\<forall>k. \<forall>p < 64. m \<notin> set (Q k p c))"

lemma Impl_PushBack_rep:
  assumes "pq_rep q Q" "0 \<le> p" "p < 64" "0 \<le> c" "c < 4" "absent m (nat c) Q"
  obtains q' where "Impl_PushBack k p c m q = Some q'" "pq_rep q' (upd Q k (nat p) (nat c) (Q k (nat p) (nat c) @ [m]))"
proof -
  let ?p = "nat p" and ?c = "nat c"
  let ?xs = "Q k ?p ?c"
  have r: "?p < 64" "?c < 4" "m \<notin> set ?xs"
    using assms by (auto simp: absent_def)
  obtain l where l: "KPerCoreQueue_PushBack m (get_list k ?p ?c q) = (?xs = [], l)" "dll l (?xs @ [m])"
      "\<And>x. x \<notin> set (m # ?xs) \<Longrightarrow> snd l x = snd (get_list k ?p ?c q) x"
    using PushBack_dll [OF pq_rep_list [OF assms(1) r(1,2)] r(3)] by metis
  obtain b where b: "BitSet_SetBit ?p (available k ?c q) = Some b" "length b = length (available k ?c q)"
      "\<forall>p'. has_bit b p' \<longleftrightarrow> p' = ?p \<or> has_bit (available k ?c q) p'"
    using SetBit_has_bit [of ?p "available k ?c q"] pq_rep_bits(1) [OF assms(1) r(2)] r(1) by auto
  define b' where "b' = (if ?xs = [] then b else available k ?c q)"
  have "pq_rep (put_available k ?c b' (put_list k ?p ?c l q)) (upd Q k ?p ?c (?xs @ [m]))"
    using l(2,3) assms(6) b pq_rep_bits [OF assms(1) r(2)] r
    by (intro pq_rep_put [OF assms(1) r(1,2), where m = m])
      (auto simp: b'_def get_list_def absent_def split: if_splits)
  moreover have "Impl_PushBack k p c m q = Some (put_available k ?c b' (put_list k ?p ?c l q))"
    using assms(2-5) l(1) b(1) put_available_same [of k ?c "put_list k ?p ?c l q"]
    by (simp add: Impl_PushBack_def IsValidCore_def IsValidPriority_def NUM_CPU_CORES_def LowestPriority_def
        HighestPriority_def b'_def available_def [symmetric] put_list_simps Let_def)
  ultimately show thesis
    using that by blast
qed

lemma Impl_PushFront_rep:
  assumes "pq_rep q Q" "0 \<le> p" "p < 64" "0 \<le> c" "c < 4" "absent m (nat c) Q"
  obtains q' where "Impl_PushFront k p c m q = Some q'" "pq_rep q' (upd Q k (nat p) (nat c) (m # Q k (nat p) (nat c)))"
proof -
  let ?p = "nat p" and ?c = "nat c"
  let ?xs = "Q k ?p ?c"
  have r: "?p < 64" "?c < 4" "m \<notin> set ?xs"
    using assms by (auto simp: absent_def)
  obtain l where l: "KPerCoreQueue_PushFront m (get_list k ?p ?c q) = (?xs = [], l)" "dll l (m # ?xs)"
      "\<And>x. x \<notin> set (m # ?xs) \<Longrightarrow> snd l x = snd (get_list k ?p ?c q) x"
    using PushFront_dll [OF pq_rep_list [OF assms(1) r(1,2)] r(3)] by metis
  obtain b where b: "BitSet_SetBit ?p (available k ?c q) = Some b" "length b = length (available k ?c q)"
      "\<forall>p'. has_bit b p' \<longleftrightarrow> p' = ?p \<or> has_bit (available k ?c q) p'"
    using SetBit_has_bit [of ?p "available k ?c q"] pq_rep_bits(1) [OF assms(1) r(2)] r(1) by auto
  define b' where "b' = (if ?xs = [] then b else available k ?c q)"
  have "pq_rep (put_available k ?c b' (put_list k ?p ?c l q)) (upd Q k ?p ?c (m # ?xs))"
    using l(2,3) assms(6) b pq_rep_bits [OF assms(1) r(2)] r
    by (intro pq_rep_put [OF assms(1) r(1,2), where m = m])
      (auto simp: b'_def get_list_def absent_def split: if_splits)
  moreover have "Impl_PushFront k p c m q = Some (put_available k ?c b' (put_list k ?p ?c l q))"
    using assms(2-5) l(1) b(1) put_available_same [of k ?c "put_list k ?p ?c l q"]
    by (simp add: Impl_PushFront_def IsValidCore_def IsValidPriority_def NUM_CPU_CORES_def LowestPriority_def
        HighestPriority_def b'_def available_def [symmetric] put_list_simps Let_def)
  ultimately show thesis
    using that by blast
qed

lemma Impl_Remove_rep:
  assumes "pq_rep q Q" "0 \<le> p" "p < 64" "0 \<le> c" "c < 4" "m \<in> set (Q k (nat p) (nat c))"
  obtains q' where "Impl_Remove k p c m q = Some q'" "pq_rep q' (upd Q k (nat p) (nat c) (remove1 m (Q k (nat p) (nat c))))"
proof -
  let ?p = "nat p" and ?c = "nat c"
  let ?xs = "Q k ?p ?c"
  have r: "?p < 64" "?c < 4"
    using assms by auto
  obtain as bs where xs: "?xs = as @ m # bs"
    using split_list [OF assms(6)] by blast
  have d: "distinct ?xs" and dl: "dll (get_list k ?p ?c q) (as @ m # bs)"
    using pq_rep_list [OF assms(1) r, of k] xs by (simp_all add: dll_def)
  have rm: "remove1 m ?xs = as @ bs"
    using d xs by (simp add: remove1_append)
  obtain l where l: "KPerCoreQueue_Remove m (get_list k ?p ?c q) = (as @ bs = [], l)" "dll l (as @ bs)"
      "\<And>x. x \<notin> set (as @ bs) \<Longrightarrow> snd l x = snd (get_list k ?p ?c q) x"
    using Remove_dll [OF dl] by metis
  obtain b where b: "BitSet_ClearBit ?p (available k ?c q) = Some b" "length b = length (available k ?c q)"
      "\<forall>p'. has_bit b p' \<longleftrightarrow> p' \<noteq> ?p \<and> has_bit (available k ?c q) p'"
    using ClearBit_has_bit [of ?p "available k ?c q"] pq_rep_bits(1) [OF assms(1) r(2)] r(1) by auto
  define b' where "b' = (if as @ bs = [] then b else available k ?c q)"
  have m: "m \<notin> set (Q k' p' ?c)" if "p' < 64" "(k', p') \<noteq> (k, ?p)" for k' p'
    using pq_rep_unique [OF assms(1) r(2,1) that(1) assms(6) that(2)] .
  have "pq_rep (put_available k ?c b' (put_list k ?p ?c l q)) (upd Q k ?p ?c (as @ bs))"
    using l(2,3) b pq_rep_bits [OF assms(1) r(2)] r xs m
    by (intro pq_rep_put [OF assms(1) r(1,2), where m = m])
      (auto simp: b'_def get_list_def split: if_splits)
  moreover have "Impl_Remove k p c m q = Some (put_available k ?c b' (put_list k ?p ?c l q))"
    using assms(2-5) l(1) b(1) put_available_same [of k ?c "put_list k ?p ?c l q"]
    by (simp add: Impl_Remove_def IsValidCore_def IsValidPriority_def NUM_CPU_CORES_def LowestPriority_def
        HighestPriority_def b'_def available_def [symmetric] put_list_simps Let_def)
  ultimately show thesis
    using that rm by simp
qed

lemma Impl_MoveToFront_rep:
  assumes "pq_rep q Q" "0 \<le> p" "p < 64" "0 \<le> c" "c < 4" "m \<in> set (Q k (nat p) (nat c))"
  obtains q' where "Impl_MoveToFront k p c m q = Some q'"
    "pq_rep q' (upd Q k (nat p) (nat c) (m # remove1 m (Q k (nat p) (nat c))))"
proof -
  let ?p = "nat p" and ?c = "nat c"
  have r: "?p < 64" "?c < 4"
    using assms by auto
  obtain as bs where xs: "Q k ?p ?c = as @ m # bs"
    using split_list [OF assms(6)] by blast
  have d: "distinct (as @ m # bs)" and dl: "dll (get_list k ?p ?c q) (as @ m # bs)"
    using pq_rep_list [OF assms(1) r, of k] xs by (simp_all add: dll_def)
  obtain l where l: "snd (KPerCoreQueue_Remove m (get_list k ?p ?c q)) = l" "dll l (as @ bs)"
      "\<And>x. x \<notin> set (as @ bs) \<Longrightarrow> snd l x = snd (get_list k ?p ?c q) x"
    using Remove_dll [OF dl] by (metis snd_conv)
  have "m \<notin> set (as @ bs)"
    using d by simp
  then obtain l' where l': "snd (KPerCoreQueue_PushFront m l) = l'" "dll l' (m # as @ bs)"
      "\<And>x. x \<notin> set (m # as @ bs) \<Longrightarrow> snd l' x = snd l x"
    using PushFront_dll [OF l(2), of m] by (metis snd_conv)
  have "pq_rep (put_available k ?c (available k ?c q) (put_list k ?p ?c l' q)) (upd Q k ?p ?c (m # as @ bs))"
    using l(3) l'(2,3) pq_rep_bits [OF assms(1) r(2)] xs r pq_rep_unique [OF assms(1) r(2,1) _ assms(6)]
    by (intro pq_rep_put [OF assms(1) r(1,2), where m = m]) (auto simp: get_list_def)
  then show thesis
    using that d xs assms(2-5) l(1) l'(1) put_available_same [of k ?c "put_list k ?p ?c l' q"]
    by (simp add: Impl_MoveToFront_def IsValidCore_def IsValidPriority_def NUM_CPU_CORES_def LowestPriority_def
        HighestPriority_def put_list_simps Let_def remove1_append)
qed

lemma Impl_MoveToBack_rep:
  assumes "pq_rep q Q" "0 \<le> p" "p < 64" "0 \<le> c" "c < 4" "m \<in> set (Q k (nat p) (nat c))"
  obtains q' where "Impl_MoveToBack k p c m q = Some (first (remove1 m (Q k (nat p) (nat c)) @ [m]) None, q')"
    "pq_rep q' (upd Q k (nat p) (nat c) (remove1 m (Q k (nat p) (nat c)) @ [m]))"
proof -
  let ?p = "nat p" and ?c = "nat c"
  have r: "?p < 64" "?c < 4"
    using assms by auto
  obtain as bs where xs: "Q k ?p ?c = as @ m # bs"
    using split_list [OF assms(6)] by blast
  have d: "distinct (as @ m # bs)" and dl: "dll (get_list k ?p ?c q) (as @ m # bs)"
    using pq_rep_list [OF assms(1) r, of k] xs by (simp_all add: dll_def)
  obtain l where l: "snd (KPerCoreQueue_Remove m (get_list k ?p ?c q)) = l" "dll l (as @ bs)"
      "\<And>x. x \<notin> set (as @ bs) \<Longrightarrow> snd l x = snd (get_list k ?p ?c q) x"
    using Remove_dll [OF dl] by (metis snd_conv)
  have "m \<notin> set (as @ bs)"
    using d by simp
  then obtain l' where l': "snd (KPerCoreQueue_PushBack m l) = l'" "dll l' (as @ bs @ [m])"
      "\<And>x. x \<notin> set (m # as @ bs) \<Longrightarrow> snd l' x = snd l x"
    using PushBack_dll [OF l(2), of m] by (metis append_assoc snd_conv)
  have "pq_rep (put_available k ?c (available k ?c q) (put_list k ?p ?c l' q)) (upd Q k ?p ?c (as @ bs @ [m]))"
    using l(3) l'(2,3) pq_rep_bits [OF assms(1) r(2)] xs r pq_rep_unique [OF assms(1) r(2,1) _ assms(6)]
    by (intro pq_rep_put [OF assms(1) r(1,2), where m = m]) (auto simp: get_list_def)
  then show thesis
    using that d xs assms(2-5) l(1) l'(1) put_available_same [of k ?c "put_list k ?p ?c l' q"] dll_front [OF l'(2)]
    by (simp add: Impl_MoveToBack_def IsValidCore_def IsValidPriority_def NUM_CPU_CORES_def LowestPriority_def
        HighestPriority_def put_list_simps Let_def remove1_append)
qed

section \<open>Order\<close>

text \<open>The threads of a core in scheduling order: by priority, then by the order of the list.\<close>

definition order :: "table \<Rightarrow> QueueKind \<Rightarrow> nat \<Rightarrow> nat list" where
  "order Q k c = concat (map (\<lambda>p. Q k p c) [0..<64])"

lemma first_concat:
  assumes "a \<le> p" "p < b" "f p \<noteq> []" "\<And>p'. a \<le> p' \<Longrightarrow> p' < p \<Longrightarrow> f p' = []"
  shows "first (concat (map f [a..<b])) None = first (f p) None"
proof -
  have "[a..<b] = [a..<p] @ p # [Suc p..<b]"
    using assms(1,2) upt_add_eq_append [of a p "b - p"] upt_conv_Cons [of p b] by simp
  moreover have none: "concat (map f [a..<p]) = []"
    using assms(4) by (simp add: concat_eq_Nil_conv)
  ultimately have "concat (map f [a..<b]) = f p @ concat (map f [Suc p..<b])"
    by simp
  then show ?thesis
    using assms(3) by (cases "f p") simp_all
qed

lemma order_split:
  assumes "p < 64"
  shows "order Q k c = concat (map (\<lambda>p. Q k p c) [0..<p]) @ Q k p c @ concat (map (\<lambda>p. Q k p c) [Suc p..<64])"
proof -
  have "[0..<64] = [0..<p] @ p # [Suc p..<64]"
    using assms upt_add_eq_append [of 0 p "64 - p"] upt_conv_Cons [of p 64] by simp
  then show ?thesis
    by (simp only: order_def map_append concat_append list.map concat.simps)
qed

lemma has_bit_less: "has_bit ws p \<Longrightarrow> length ws = 1 \<Longrightarrow> p < 64"
  by (simp add: has_bit_def div_eq_0_iff)

lemma Impl_GetFront_rep:
  assumes "pq_rep q Q" "0 \<le> c" "c < 4"
  shows "Impl_GetFront k c q = Some (first (order Q k (nat c)) None)"
proof -
  let ?a = "available k (nat c) q" and ?p = "BitSet_CountLeadingZero (available k (nat c) q)"
  have c: "nat c < 4"
    using assms by simp
  note b = pq_rep_bits [OF assms(1) c, where k = k]
  have eq: "Impl_GetFront k c q = Some (if ?p < 64 then KPerCoreQueue_GetFront (get_list k ?p (nat c) q) else None)"
    using assms(2,3) by (simp add: Impl_GetFront_def IsValidCore_def NUM_CPU_CORES_def LowestPriority_def available_def Let_def)
  show ?thesis
  proof (cases "\<exists>p. has_bit ?a p")
    case True
    then obtain p where p: "has_bit ?a p"
      by blast
    from CountLeadingZero_first(1) [OF p] have h: "has_bit ?a ?p"
      by simp
    then have l: "?p < 64"
      using has_bit_less b(1) by blast
    have "Q k p' (nat c) = []" if "p' < ?p" for p'
      using CountLeadingZero_first(1) [of ?a p'] that l b(2) [of p'] by fastforce
    then have "first (order Q k (nat c)) None = first (Q k ?p (nat c)) None"
      unfolding order_def using l h b(2) [OF l] by (intro first_concat) simp_all
    then show ?thesis
      using eq l dll_front [OF pq_rep_list [OF assms(1) l c]] by simp
  next
    case False
    then have "Q k p (nat c) = []" if "p < 64" for p
      using b(2) [OF that] by simp
    then have "order Q k (nat c) = []"
      by (simp add: order_def)
    moreover have "?p = 64"
      using CountLeadingZero_first(2) [of ?a] False b(1) by simp
    ultimately show ?thesis
      using eq by simp
  qed
qed

lemma Impl_GetNext_rep:
  assumes "pq_rep q Q" "0 \<le> c" "c < 4" "p < 64" "GetPriority (threads m) = int p" "Q k p (nat c) = as @ m # bs"
  shows "Impl_GetNext threads k c m q = Some (first (bs @ concat (map (\<lambda>p. Q k p (nat c)) [Suc p..<64])) None)"
proof -
  let ?c = "nat c" and ?a = "available k (nat c) q"
  let ?p = "BitSet_GetNextSet p ?a"
  have c: "?c < 4"
    using assms by simp
  note b = pq_rep_bits [OF assms(1) c, where k = k]
  have nx: "m_next (thread_entry q ?c m) = first bs None"
    using pq_rep_list [OF assms(1,4) c, of k] assms(6) by (simp add: dll_def get_list_def linked_append)
  have eq: "Impl_GetNext threads k c m q =
      Some (if bs = [] \<and> ?p < 64 then KPerCoreQueue_GetFront (get_list k ?p ?c q) else first bs None)"
    using assms(2,3,5) nx
    by (cases bs) (simp_all add: Impl_GetNext_def IsValidCore_def NUM_CPU_CORES_def LowestPriority_def available_def Let_def)
  show ?thesis
  proof (cases "bs = []")
    case True
    show ?thesis
    proof (cases "\<exists>p' > p. has_bit ?a p'")
      case t: True
      then obtain p' where p': "p < p'" "has_bit ?a p'"
        by blast
      note n = GetNextSet_first(1) [OF b(1) assms(4)]
      have h: "has_bit ?a ?p" "p < ?p"
        using n [OF p'] by simp_all
      have l: "?p < 64"
        using has_bit_less [OF h(1) b(1)] .
      have "Q k p' ?c = []" if "p < p'" "p' < ?p" for p'
        using n [of p'] that l b(2) [of p'] by fastforce
      then have "first (concat (map (\<lambda>p. Q k p ?c) [Suc p..<64])) None = first (Q k ?p ?c) None"
        using l h b(2) [OF l] by (intro first_concat) simp_all
      then show ?thesis
        using eq True l dll_front [OF pq_rep_list [OF assms(1) l c]] by simp
    next
      case f: False
      then have "Q k p' ?c = []" if "p < p'" "p' < 64" for p'
        using b(2) [OF that(2)] that by simp
      then have "concat (map (\<lambda>p. Q k p ?c) [Suc p..<64]) = []"
        by (simp add: concat_eq_Nil_conv)
      moreover have "?p = 64"
        using GetNextSet_first(2) [OF b(1) assms(4)] f by blast
      ultimately show ?thesis
        using eq True by (simp del: concat_eq_Nil_conv)
    qed
  next
    case False
    then show ?thesis
      using eq by (cases bs) simp_all
  qed
qed

lemma order_distinct:
  assumes "pq_rep q Q" "c < 4"
  shows "distinct (order Q k c)"
proof -
  have "distinct (concat (map (\<lambda>p. Q k p c) ps))" if "distinct ps" "set ps \<subseteq> {0..<64}" for ps
    using that
  proof (induction ps)
    case (Cons p ps)
    then have "distinct (Q k p c)"
      using pq_rep_list [OF assms(1) _ assms(2), of p k] by (simp add: dll_def)
    moreover have "m \<notin> set (concat (map (\<lambda>p. Q k p c) ps))" if "m \<in> set (Q k p c)" for m
    proof
      assume "m \<in> set (concat (map (\<lambda>p. Q k p c) ps))"
      then obtain p' where "p' \<in> set ps" "m \<in> set (Q k p' c)"
        by auto
      moreover from this have "p' < 64" "p' \<noteq> p" "p < 64"
        using Cons.prems by auto
      ultimately show False
        using pq_rep_unique [OF assms(1,2) _ _ that, of p' k] by simp
    qed
    ultimately show ?case
      using Cons by auto
  qed simp
  then show ?thesis
    by (simp add: order_def)
qed

lemma split_unique: "distinct (as @ m # bs) \<Longrightarrow> as @ m # bs = as' @ m # bs' \<Longrightarrow> as = as' \<and> bs = bs'"
  by (subst (asm) append_Cons_eq_iff) auto

lemma Impl_GetNext_order:
  assumes "pq_rep q Q" "0 \<le> c" "c < 4" "order Q k (nat c) = as @ m # bs"
    "\<And>p. p < 64 \<Longrightarrow> m \<in> set (Q k p (nat c)) \<Longrightarrow> GetPriority (threads m) = int p"
  shows "Impl_GetNext threads k c m q = Some (first bs None)"
proof -
  have "m \<in> set (order Q k (nat c))"
    using assms(4) by simp
  then obtain p where p: "p < 64" "m \<in> set (Q k p (nat c))"
    by (auto simp: order_def)
  obtain as' bs' where xs: "Q k p (nat c) = as' @ m # bs'"
    using split_list [OF p(2)] by blast
  have "bs = bs' @ concat (map (\<lambda>p. Q k p (nat c)) [Suc p..<64])"
    using order_distinct [OF assms(1), of "nat c" k] order_split [OF p(1), of Q k "nat c"] assms(3,4) xs
      split_unique [of as m bs "concat (map (\<lambda>p. Q k p (nat c)) [0..<p]) @ as'"] by simp
  then show ?thesis
    using Impl_GetNext_rep [OF assms(1-3) p(1), where threads = threads and m = m] assms(5) [OF p] xs by simp
qed

section \<open>Loops over cores\<close>

lemma filter_bit_countr_zero:
  assumes "a \<noteq> (0 :: u64)"
  shows "filter (bit a) [0..<64] = countr_zero a # filter (bit (ClearAffinityBit a (int (countr_zero a)))) [0..<64]"
proof -
  let ?z = "countr_zero a"
  have z: "?z < 64" "bit a ?z"
    using countr_zero_less [OF assms] bit_countr_zero [OF assms] by simp_all
  have clr: "bit (ClearAffinityBit a (int ?z)) i \<longleftrightarrow> bit a i \<and> i \<noteq> ?z" for i
    using z(1) bit_imp_le_length [of a i] by (auto simp: ClearAffinityBit_def bit_simps)
  have below: "\<not> bit a i" if "i < ?z" for i
    using countr_zero_le [OF assms, of i] that by force
  have split: "[0..<64] = [0..<?z] @ ?z # [Suc ?z..<64]"
    using z(1) upt_add_eq_append [of 0 ?z "64 - ?z"] upt_conv_Cons [of ?z 64] by simp
  have e: "filter (bit a) [0..<?z] = []" "filter (bit (ClearAffinityBit a (int ?z))) [0..<?z] = []"
    using below clr by (simp_all add: filter_empty_conv)
  have "filter (bit (ClearAffinityBit a (int ?z))) [Suc ?z..<64] = filter (bit a) [Suc ?z..<64]"
    using clr by (intro filter_cong) auto
  then show ?thesis
    using e z(2) clr unfolding split by (simp only: filter_append filter.simps) simp
qed

lemma for_affinity_for_each: "for_affinity f a q = for_each f (map int (filter (bit a) [0..<64])) q"
proof (induction f a q rule: for_affinity.induct)
  case (1 f a q)
  show ?case
  proof (cases "a = 0")
    case True
    then show ?thesis
      by (simp add: for_affinity.simps)
  next
    case False
    show ?thesis
      using 1 [OF False refl] False
      by (cases "f (int (countr_zero a)) q")
        (simp_all add: for_affinity.simps [of f a q] filter_bit_countr_zero Let_def del: upt.simps)
  qed
qed

end
