(* ===== verification/KPriorityQueuePlacement.thy ===== *)
theory KPriorityQueuePlacement
  imports KPriorityQueueRefinement
begin

text \<open>
  Where each thread is: a queued thread is in one list per core, the scheduled one of its active core and the suggested ones
  of the other cores of its mask, at its priority. Every operation of the priority queue keeps this when it is called the
  way the scheduler calls it, and never faults.
\<close>

section \<open>Places\<close>

type_synonym places = "nat \<Rightarrow> nat \<Rightarrow> (QueueKind \<times> nat) option"

definition tabulates :: "table \<Rightarrow> places \<Rightarrow> bool" where
  "tabulates Q L \<longleftrightarrow> (\<forall>m k p c. p < 64 \<longrightarrow> c < 4 \<longrightarrow> (m \<in> set (Q k p c) \<longleftrightarrow> L m c = Some (k, p)))"

definition pq_at :: "KPriorityQueue \<Rightarrow> places \<Rightarrow> bool" where
  "pq_at q L \<longleftrightarrow> (\<exists>Q. pq_rep q Q \<and> tabulates Q L)"

text \<open>Priority 64 is valid and means no list.\<close>

definition loc :: "QueueKind \<Rightarrow> s32 \<Rightarrow> (QueueKind \<times> nat) option" where
  "loc k p = (if p \<le> LowestPriority then Some (k, nat p) else None)"

definition set_at :: "places \<Rightarrow> nat \<Rightarrow> nat \<Rightarrow> (QueueKind \<times> nat) option \<Rightarrow> places" where
  "set_at L m c v = L(m := (L m)(c := v))"

lemma pq_at_cong: "pq_at q L \<Longrightarrow> (\<And>m c. c < 4 \<Longrightarrow> L' m c = L m c) \<Longrightarrow> pq_at q L'"
  by (auto simp: pq_at_def tabulates_def)

lemma pq_at_ctor: "pq_at KPriorityQueue_ctor (\<lambda>_ _. None)"
  unfolding pq_at_def tabulates_def using pq_rep_ctor by force

lemma pq_at_same: "pq_at q L \<Longrightarrow> L m c = v \<Longrightarrow> pq_at q (set_at L m c v)"
  by (erule pq_at_cong) (auto simp: set_at_def)

lemma tabulates_absent: "tabulates Q L \<Longrightarrow> c < 4 \<Longrightarrow> L m c = None \<Longrightarrow> absent m c Q"
  by (simp add: tabulates_def absent_def)

lemma tabulates_put:
  assumes "tabulates Q L" "c < 4" "L m c = None \<or> L m c = Some (k, p)" "set xs = insert m (set (Q k p c))"
  shows "tabulates (upd Q k p c xs) (set_at L m c (Some (k, p)))"
  using assms by (auto simp: tabulates_def upd_def set_at_def)

lemma tabulates_remove:
  assumes "tabulates Q L" "p < 64" "c < 4" "L m c = Some (k, p)" "set xs = set (Q k p c) - {m}"
  shows "tabulates (upd Q k p c xs) (set_at L m c None)"
  using assms by (auto simp: tabulates_def upd_def set_at_def)

lemma lowest_priority_loc:
  assumes "0 \<le> p" "p \<le> 64"
  shows "p < 64 \<and> loc k p = Some (k, nat p) \<or> p = 64 \<and> loc k p = None"
  using assms by (auto simp: loc_def LowestPriority_def)

lemma Impl_lowest:
  assumes "0 \<le> c" "c < 4"
  shows "Impl_PushBack k 64 c m q = Some q" "Impl_PushFront k 64 c m q = Some q" "Impl_Remove k 64 c m q = Some q"
  using assms
  by (simp_all add: Impl_PushBack_def Impl_PushFront_def Impl_Remove_def IsValidCore_def IsValidPriority_def
      NUM_CPU_CORES_def LowestPriority_def HighestPriority_def)

lemma Impl_PushBack_at:
  assumes "pq_at q L" "0 \<le> p" "p \<le> 64" "0 \<le> c" "c < 4" "L m (nat c) = None"
  shows "\<exists>q'. Impl_PushBack k p c m q = Some q' \<and> pq_at q' (set_at L m (nat c) (loc k p))"
  using lowest_priority_loc [OF assms(2,3), of k]
proof (elim disjE conjE)
  assume p: "p < 64" "loc k p = Some (k, nat p)"
  from assms(1) obtain Q where Q: "pq_rep q Q" "tabulates Q L"
    by (auto simp: pq_at_def)
  have a: "absent m (nat c) Q"
    using tabulates_absent [OF Q(2)] assms(5,6) by simp
  obtain q' where "Impl_PushBack k p c m q = Some q'" "pq_rep q' (upd Q k (nat p) (nat c) (Q k (nat p) (nat c) @ [m]))"
    using Impl_PushBack_rep [OF Q(1) assms(2) p(1) assms(4,5) a] by blast
  then show ?thesis
    using tabulates_put [OF Q(2)] assms(5,6) p(2) by (fastforce simp: pq_at_def)
qed (use assms pq_at_same Impl_lowest in auto)

lemma Impl_PushFront_at:
  assumes "pq_at q L" "0 \<le> p" "p \<le> 64" "0 \<le> c" "c < 4" "L m (nat c) = None"
  shows "\<exists>q'. Impl_PushFront k p c m q = Some q' \<and> pq_at q' (set_at L m (nat c) (loc k p))"
  using lowest_priority_loc [OF assms(2,3), of k]
proof (elim disjE conjE)
  assume p: "p < 64" "loc k p = Some (k, nat p)"
  from assms(1) obtain Q where Q: "pq_rep q Q" "tabulates Q L"
    by (auto simp: pq_at_def)
  have a: "absent m (nat c) Q"
    using tabulates_absent [OF Q(2)] assms(5,6) by simp
  obtain q' where "Impl_PushFront k p c m q = Some q'" "pq_rep q' (upd Q k (nat p) (nat c) (m # Q k (nat p) (nat c)))"
    using Impl_PushFront_rep [OF Q(1) assms(2) p(1) assms(4,5) a] by blast
  then show ?thesis
    using tabulates_put [OF Q(2)] assms(5,6) p(2) by (fastforce simp: pq_at_def)
qed (use assms pq_at_same Impl_lowest in auto)

lemma Impl_Remove_at:
  assumes "pq_at q L" "0 \<le> p" "p \<le> 64" "0 \<le> c" "c < 4" "L m (nat c) = loc k p"
  shows "\<exists>q'. Impl_Remove k p c m q = Some q' \<and> pq_at q' (set_at L m (nat c) None)"
  using lowest_priority_loc [OF assms(2,3), of k]
proof (elim disjE conjE)
  assume p: "p < 64" "loc k p = Some (k, nat p)"
  from assms(1) obtain Q where Q: "pq_rep q Q" "tabulates Q L"
    by (auto simp: pq_at_def)
  let ?xs = "Q k (nat p) (nat c)"
  have c: "nat p < 64" "nat c < 4"
    using p(1) assms(5) by simp_all
  have m: "m \<in> set ?xs"
    using Q(2) c assms(6) p by (auto simp: tabulates_def)
  have "distinct ?xs"
    using pq_rep_list [OF Q(1) c] by (simp add: dll_def)
  then have "tabulates (upd Q k (nat p) (nat c) (remove1 m ?xs)) (set_at L m (nat c) None)"
    using tabulates_remove [OF Q(2) c] assms(6) p(2) by simp
  moreover obtain q' where "Impl_Remove k p c m q = Some q'" "pq_rep q' (upd Q k (nat p) (nat c) (remove1 m ?xs))"
    using Impl_Remove_rep [OF Q(1) assms(2) p(1) assms(4,5) m] by blast
  ultimately show ?thesis
    by (auto simp: pq_at_def)
qed (use assms pq_at_same Impl_lowest in auto)

text \<open>A loop that changes the place of one thread on each of its cores.\<close>

lemma for_each_at:
  assumes "\<And>q L c. c \<in> set cs \<Longrightarrow> pq_at q L \<Longrightarrow> L m (nat c) = pre c \<Longrightarrow>
      \<exists>q'. f c q = Some q' \<and> pq_at q' (set_at L m (nat c) (post c))"
    and "distinct cs" "\<And>c. c \<in> set cs \<Longrightarrow> 0 \<le> c" "pq_at q L" "\<And>c. c \<in> set cs \<Longrightarrow> L m (nat c) = pre c"
  shows "\<exists>q'. for_each f cs q = Some q' \<and> pq_at q' (L(m := \<lambda>c. if int c \<in> set cs then post (int c) else L m c))"
  using assms
proof (induction cs arbitrary: q L)
  case (Cons c cs)
  obtain q1 where q1: "f c q = Some q1" "pq_at q1 (set_at L m (nat c) (post c))"
    using Cons.prems(1) [of c q L] Cons.prems(4,5) by auto
  have "set_at L m (nat c) (post c) m (nat c') = pre c'" if "c' \<in> set cs" for c'
  proof -
    have "nat c' \<noteq> nat c"
      using that Cons.prems(2) Cons.prems(3) [of c] Cons.prems(3) [of c'] by (auto simp: nat_eq_iff)
    then show ?thesis
      using that Cons.prems(5) [of c'] by (simp add: set_at_def)
  qed
  then have "\<exists>q2. for_each f cs q1 = Some q2 \<and> pq_at q2 ((set_at L m (nat c) (post c))(m := \<lambda>c'.
      if int c' \<in> set cs then post (int c') else set_at L m (nat c) (post c) m c'))"
    by (intro Cons.IH q1(2)) (use Cons.prems(1-3) in simp_all)
  then obtain q2 where q2: "for_each f cs q1 = Some q2"
      "pq_at q2 ((set_at L m (nat c) (post c))(m := \<lambda>c'. if int c' \<in> set cs then post (int c')
         else set_at L m (nat c) (post c) m c'))"
    by blast
  have "0 \<le> c"
    using Cons.prems(3) by simp
  then have "pq_at q2 (L(m := \<lambda>c'. if int c' \<in> set (c # cs) then post (int c') else L m c'))"
    using q2(2) by (elim pq_at_cong) (auto simp: set_at_def)
  then show ?case
    using q1(1) q2(1) by (simp add: fun_upd_def)
qed simp

section \<open>Threads\<close>

definition wf_thread :: "'a KThread_scheme \<Rightarrow> bool" where
  "wf_thread th \<longleftrightarrow> 0 \<le> GetPriority th \<and> GetPriority th \<le> 64 \<and> - 1 \<le> GetActiveCore th \<and> GetActiveCore th < 4 \<and>
     (\<forall>i. bit (GetAffinityMask th) i \<longrightarrow> i < 4) \<and> (0 \<le> GetActiveCore th \<longrightarrow> bit (GetAffinityMask th) (nat (GetActiveCore th)))"

text \<open>The place of a queued thread on a core.\<close>

definition place :: "s32 \<Rightarrow> s32 \<Rightarrow> KAffinityMask \<Rightarrow> nat \<Rightarrow> (QueueKind \<times> nat) option" where
  "place priority core affinity c =
     (if int c = core then loc Scheduled priority else if bit affinity c then loc Suggested priority else None)"

definition thread_place :: "'a KThread_scheme \<Rightarrow> nat \<Rightarrow> (QueueKind \<times> nat) option" where
  "thread_place th c =
     (if IsDummyThread th then None else place (GetPriority th) (GetActiveCore th) (GetAffinityMask th) c)"

text \<open>The suggested cores: the mask without the active core.\<close>

definition suggested_mask :: "'a KThread_scheme \<Rightarrow> u64" where
  "suggested_mask th = (if 0 \<le> GetActiveCore th then ClearAffinityBit (GetAffinityMask th) (GetActiveCore th) else GetAffinityMask th)"

lemma bit_suggested_mask:
  "wf_thread th \<Longrightarrow> bit (suggested_mask th) i \<longleftrightarrow> bit (GetAffinityMask th) i \<and> int i \<noteq> GetActiveCore th"
  by (auto simp: suggested_mask_def ClearAffinityBit_def bit_simps wf_thread_def nat_eq_iff)

lemma core_list_iff: "c \<in> set (map int (filter P [0..<64])) \<longleftrightarrow> 0 \<le> c \<and> c < 64 \<and> P (nat c)"
proof
  assume "0 \<le> c \<and> c < 64 \<and> P (nat c)"
  then have "c = int (nat c)" "nat c \<in> {x \<in> {0..<64}. P x}"
    by auto
  then show "c \<in> set (map int (filter P [0..<64]))"
    unfolding set_map set_filter set_upt by (rule image_eqI)
qed (unfold set_map set_filter set_upt, auto)

lemma suggested_cores:
  assumes "wf_thread th" "c \<in> set (map int (filter (bit (suggested_mask th)) [0..<64]))"
  shows "0 \<le> c" "c < 4" "c \<noteq> GetActiveCore th" "bit (GetAffinityMask th) (nat c)"
  using assms bit_suggested_mask [OF assms(1), of "nat c"] unfolding core_list_iff by (auto simp: wf_thread_def)

lemma suggested_cores_iff:
  assumes "wf_thread th"
  shows "int c \<in> set (map int (filter (bit (suggested_mask th)) [0..<64])) \<longleftrightarrow>
    bit (GetAffinityMask th) c \<and> int c \<noteq> GetActiveCore th"
proof -
  have "bit (GetAffinityMask th) c \<Longrightarrow> c < 64"
    using assms by (force simp: wf_thread_def)
  then show ?thesis
    using bit_suggested_mask [OF assms, of c] unfolding core_list_iff by auto
qed

lemma distinct_cores: "distinct (map int (filter P [0..<64]))"
  by (simp add: distinct_map del: upt.simps)

text \<open>The loops of the three operations at a given priority.\<close>

lemma push_suggested_at:
  assumes "wf_thread th" "0 \<le> p" "p \<le> 64" "pq_at q L" "\<And>c. c < 4 \<Longrightarrow> int c \<noteq> GetActiveCore th \<Longrightarrow> L m c = None"
  shows "\<exists>q'. for_affinity (\<lambda>c. Impl_PushBack Suggested p c m) (suggested_mask th) q = Some q' \<and>
    pq_at q' (L(m := \<lambda>c. if bit (GetAffinityMask th) c \<and> int c \<noteq> GetActiveCore th then loc Suggested p else L m c))"
proof -
  let ?cs = "map int (filter (bit (suggested_mask th)) [0..<64])"
  have "\<exists>q'. for_each (\<lambda>c. Impl_PushBack Suggested p c m) ?cs q = Some q' \<and>
      pq_at q' (L(m := \<lambda>c. if int c \<in> set ?cs then loc Suggested p else L m c))"
  proof (rule for_each_at [where pre = "\<lambda>_. None"])
    show "\<exists>q'. Impl_PushBack Suggested p c m q = Some q' \<and> pq_at q' (set_at L m (nat c) (loc Suggested p))"
      if "c \<in> set ?cs" "pq_at q L" "L m (nat c) = None" for q L c
      using Impl_PushBack_at [OF that(2) assms(2,3) _ _ that(3)] suggested_cores [OF assms(1) that(1)] by blast
    show "L m (nat c) = None" if "c \<in> set ?cs" for c
      using assms(5) [of "nat c"] suggested_cores [OF assms(1) that] by simp
  qed (use assms(4) suggested_cores [OF assms(1)] distinct_cores in blast)+
  then show ?thesis
    unfolding for_affinity_for_each suggested_cores_iff [OF assms(1)] .
qed

lemma remove_suggested_at:
  assumes "wf_thread th" "0 \<le> p" "p \<le> 64" "pq_at q L"
    "\<And>c. c < 4 \<Longrightarrow> bit (GetAffinityMask th) c \<Longrightarrow> int c \<noteq> GetActiveCore th \<Longrightarrow> L m c = loc Suggested p"
  shows "\<exists>q'. for_affinity (\<lambda>c. Impl_Remove Suggested p c m) (suggested_mask th) q = Some q' \<and>
    pq_at q' (L(m := \<lambda>c. if bit (GetAffinityMask th) c \<and> int c \<noteq> GetActiveCore th then None else L m c))"
proof -
  let ?cs = "map int (filter (bit (suggested_mask th)) [0..<64])"
  have "\<exists>q'. for_each (\<lambda>c. Impl_Remove Suggested p c m) ?cs q = Some q' \<and>
      pq_at q' (L(m := \<lambda>c. if int c \<in> set ?cs then None else L m c))"
  proof (rule for_each_at [where pre = "\<lambda>_. loc Suggested p"])
    show "\<exists>q'. Impl_Remove Suggested p c m q = Some q' \<and> pq_at q' (set_at L m (nat c) None)"
      if "c \<in> set ?cs" "pq_at q L" "L m (nat c) = loc Suggested p" for q L c
      using Impl_Remove_at [OF that(2) assms(2,3) _ _ that(3)] suggested_cores [OF assms(1) that(1)] by blast
    show "L m (nat c) = loc Suggested p" if "c \<in> set ?cs" for c
      using assms(5) [of "nat c"] suggested_cores [OF assms(1) that] by simp
  qed (use assms(4) suggested_cores [OF assms(1)] distinct_cores in blast)+
  then show ?thesis
    unfolding for_affinity_for_each suggested_cores_iff [OF assms(1)] .
qed

lemma valid_priority: "0 \<le> p \<Longrightarrow> p \<le> 64 \<Longrightarrow> IsValidPriority p"
  by (simp add: IsValidPriority_def HighestPriority_def LowestPriority_def)

lemma PushBack_at_place:
  assumes "wf_thread (threads m)" "0 \<le> p" "p \<le> 64" "pq_at q L" "\<And>c. c < 4 \<Longrightarrow> L m c = None"
  shows "\<exists>q'. PushBack_at threads p m q = Some q' \<and>
    pq_at q' (L(m := place p (GetActiveCore (threads m)) (GetAffinityMask (threads m))))"
proof -
  let ?th = "threads m"
  let ?c = "GetActiveCore ?th"
  have c: "?c < 4"
    using assms(1) by (simp add: wf_thread_def)
  obtain q1 L1 where q1: "(if 0 \<le> ?c then Impl_PushBack Scheduled p ?c m q else Some q) = Some q1" "pq_at q1 L1"
      "L1 = (if 0 \<le> ?c then set_at L m (nat ?c) (loc Scheduled p) else L)"
    using Impl_PushBack_at [OF assms(4,2,3) _ c, of m Scheduled] assms(4,5) c by (cases "0 \<le> ?c") auto
  have none: "L1 m c = None" if "c < 4" "int c \<noteq> ?c" for c
    using that assms(5) by (auto simp: q1(3) set_at_def)
  obtain q2 where q2: "for_affinity (\<lambda>c. Impl_PushBack Suggested p c m) (suggested_mask ?th) q1 = Some q2"
      "pq_at q2 (L1(m := \<lambda>c. if bit (GetAffinityMask ?th) c \<and> int c \<noteq> ?c then loc Suggested p else L1 m c))"
    using push_suggested_at [OF assms(1-3) q1(2) none] by blast
  have "pq_at q2 (L(m := place p ?c (GetAffinityMask ?th)))"
    using q2(2) assms(5) by (elim pq_at_cong) (auto simp: q1(3) set_at_def place_def split: if_splits)
  then show ?thesis
    using q1(1) q2(1) valid_priority [OF assms(2,3)] by (simp add: PushBack_at_def suggested_mask_def)
qed

lemma PushFront_at_place:
  assumes "wf_thread (threads m)" "0 \<le> p" "p \<le> 64" "pq_at q L" "\<And>c. c < 4 \<Longrightarrow> L m c = None"
  shows "\<exists>q'. PushFront_at threads p m q = Some q' \<and>
    pq_at q' (L(m := place p (GetActiveCore (threads m)) (GetAffinityMask (threads m))))"
proof -
  let ?th = "threads m"
  let ?c = "GetActiveCore ?th"
  have c: "?c < 4"
    using assms(1) by (simp add: wf_thread_def)
  obtain q1 L1 where q1: "(if 0 \<le> ?c then Impl_PushFront Scheduled p ?c m q else Some q) = Some q1" "pq_at q1 L1"
      "L1 = (if 0 \<le> ?c then set_at L m (nat ?c) (loc Scheduled p) else L)"
    using Impl_PushFront_at [OF assms(4,2,3) _ c, of m Scheduled] assms(4,5) c by (cases "0 \<le> ?c") auto
  have none: "L1 m c = None" if "c < 4" "int c \<noteq> ?c" for c
    using that assms(5) by (auto simp: q1(3) set_at_def)
  obtain q2 where q2: "for_affinity (\<lambda>c. Impl_PushBack Suggested p c m) (suggested_mask ?th) q1 = Some q2"
      "pq_at q2 (L1(m := \<lambda>c. if bit (GetAffinityMask ?th) c \<and> int c \<noteq> ?c then loc Suggested p else L1 m c))"
    using push_suggested_at [OF assms(1-3) q1(2) none] by blast
  have "pq_at q2 (L(m := place p ?c (GetAffinityMask ?th)))"
    using q2(2) assms(5) by (elim pq_at_cong) (auto simp: q1(3) set_at_def place_def split: if_splits)
  then show ?thesis
    using q1(1) q2(1) valid_priority [OF assms(2,3)] by (simp add: PushFront_at_def suggested_mask_def)
qed

lemma Remove_at_place:
  assumes "wf_thread (threads m)" "0 \<le> p" "p \<le> 64" "pq_at q L"
    "\<And>c. c < 4 \<Longrightarrow> L m c = place p (GetActiveCore (threads m)) (GetAffinityMask (threads m)) c"
  shows "\<exists>q'. Remove_at threads p m q = Some q' \<and> pq_at q' (L(m := \<lambda>_. None))"
proof -
  let ?th = "threads m"
  let ?c = "GetActiveCore ?th"
  have c: "?c < 4"
    using assms(1) by (simp add: wf_thread_def)
  obtain q1 L1 where q1: "(if 0 \<le> ?c then Impl_Remove Scheduled p ?c m q else Some q) = Some q1" "pq_at q1 L1"
      "L1 = (if 0 \<le> ?c then set_at L m (nat ?c) None else L)"
    using Impl_Remove_at [OF assms(4,2,3) _ c, of m Scheduled] assms(4) assms(5) [of "nat ?c"] c
    by (cases "0 \<le> ?c") (auto simp: place_def)
  have sug: "L1 m c = loc Suggested p" if "c < 4" "bit (GetAffinityMask ?th) c" "int c \<noteq> ?c" for c
    using that assms(5) by (auto simp: q1(3) set_at_def place_def)
  obtain q2 where q2: "for_affinity (\<lambda>c. Impl_Remove Suggested p c m) (suggested_mask ?th) q1 = Some q2"
      "pq_at q2 (L1(m := \<lambda>c. if bit (GetAffinityMask ?th) c \<and> int c \<noteq> ?c then None else L1 m c))"
    using remove_suggested_at [OF assms(1-3) q1(2) sug] by blast
  have "pq_at q2 (L(m := \<lambda>_. None))"
    using q2(2) assms(5) by (elim pq_at_cong) (auto simp: q1(3) set_at_def place_def split: if_splits)
  then show ?thesis
    using q1(1) q2(1) valid_priority [OF assms(2,3)] by (simp add: Remove_at_def suggested_mask_def)
qed

section \<open>The invariant\<close>

text \<open>The threads of a set are queued, each at its place.\<close>

definition queue_ok :: "(nat \<Rightarrow> 'a KThread_scheme) \<Rightarrow> nat set \<Rightarrow> KPriorityQueue \<Rightarrow> bool" where
  "queue_ok threads S q \<longleftrightarrow> pq_at q (\<lambda>m. if m \<in> S then thread_place (threads m) else (\<lambda>_. None))"

lemma queue_ok_ctor: "queue_ok threads {} KPriorityQueue_ctor"
  using pq_at_ctor by (simp add: queue_ok_def)

lemma queue_ok_cong:
  "queue_ok threads S q \<Longrightarrow> (\<And>m. m \<in> S \<Longrightarrow> thread_place (threads' m) = thread_place (threads m)) \<Longrightarrow> queue_ok threads' S q"
  unfolding queue_ok_def by (erule pq_at_cong) simp

lemma queue_ok_upd: "queue_ok threads S q \<Longrightarrow> thread_place th = thread_place (threads m) \<Longrightarrow> queue_ok (threads(m := th)) S q"
  by (erule queue_ok_cong) simp

lemma thread_place_dummy: "IsDummyThread th \<Longrightarrow> thread_place th = (\<lambda>_. None)"
  by (simp add: thread_place_def fun_eq_iff)

lemma queue_ok_dummy:
  "queue_ok threads S q \<Longrightarrow> IsDummyThread (threads m) \<Longrightarrow> queue_ok threads (insert m S) q \<and> queue_ok threads (S - {m}) q"
  unfolding queue_ok_def by (auto elim!: pq_at_cong simp: thread_place_def)

lemma PQ_PushBack_ok:
  assumes "queue_ok threads S q" "wf_thread (threads m)" "m \<notin> S"
  shows "\<exists>q'. PQ_PushBack threads m q = Some q' \<and> queue_ok threads (insert m S) q'"
proof (cases "IsDummyThread (threads m)")
  case True
  then show ?thesis
    using queue_ok_dummy [OF assms(1)] by (simp add: PQ_PushBack_def)
next
  case False
  let ?p = "GetPriority (threads m)"
  have p: "0 \<le> ?p" "?p \<le> 64"
    using assms(2) by (simp_all add: wf_thread_def)
  obtain q' where q': "PushBack_at threads ?p m q = Some q'"
      "pq_at q' ((\<lambda>m. if m \<in> S then thread_place (threads m) else (\<lambda>_. None))
         (m := place ?p (GetActiveCore (threads m)) (GetAffinityMask (threads m))))"
    using PushBack_at_place [of threads m, OF assms(2) p assms(1) [unfolded queue_ok_def]] assms(3) by auto
  have "queue_ok threads (insert m S) q'"
    unfolding queue_ok_def using q'(2) False by (elim pq_at_cong) (auto simp: thread_place_def)
  then show ?thesis
    using q'(1) False by (simp add: PQ_PushBack_def)
qed

lemma PQ_Remove_ok:
  assumes "queue_ok threads S q" "wf_thread (threads m)" "m \<in> S"
  shows "\<exists>q'. PQ_Remove threads m q = Some q' \<and> queue_ok threads (S - {m}) q'"
proof (cases "IsDummyThread (threads m)")
  case True
  then show ?thesis
    using queue_ok_dummy [OF assms(1)] by (simp add: PQ_Remove_def)
next
  case False
  let ?p = "GetPriority (threads m)"
  have p: "0 \<le> ?p" "?p \<le> 64"
    using assms(2) by (simp_all add: wf_thread_def)
  obtain q' where q': "Remove_at threads ?p m q = Some q'"
      "pq_at q' ((\<lambda>m. if m \<in> S then thread_place (threads m) else (\<lambda>_. None)) (m := \<lambda>_. None))"
    using Remove_at_place [of threads m, OF assms(2) p assms(1) [unfolded queue_ok_def]] assms(3) False
    by (auto simp: thread_place_def)
  have "queue_ok threads (S - {m}) q'"
    unfolding queue_ok_def using q'(2) by (elim pq_at_cong) auto
  then show ?thesis
    using q'(1) False by (simp add: PQ_Remove_def)
qed

text \<open>The change of a thread already written to \<open>threads\<close>, of which the queue gets the old value.\<close>

lemma ChangePriority_ok:
  assumes "queue_ok threads S q" "m \<in> S" "wf_thread (threads m)" "wf_thread ((threads m)\<lparr>GetPriority := p\<rparr>)"
  shows "\<exists>q'. ChangePriority (threads(m := (threads m)\<lparr>GetPriority := p\<rparr>)) (GetPriority (threads m)) is_running m q = Some q' \<and>
    queue_ok (threads(m := (threads m)\<lparr>GetPriority := p\<rparr>)) S q'"
proof (cases "IsDummyThread (threads m)")
  case True
  then show ?thesis
    using queue_ok_upd [OF assms(1)] by (simp add: ChangePriority_def thread_place_dummy)
next
  case False
  let ?th = "(threads m)\<lparr>GetPriority := p\<rparr>"
  let ?T = "threads(m := ?th)" and ?L = "\<lambda>m. if m \<in> S then thread_place (threads m) else (\<lambda>_. None)"
  have old: "0 \<le> GetPriority (threads m)" "GetPriority (threads m) \<le> 64" and p: "0 \<le> p" "p \<le> 64"
    using assms(3,4) by (simp_all add: wf_thread_def)
  have wf: "wf_thread (?T m)"
    using assms(4) by simp
  obtain q1 where q1: "Remove_at ?T (GetPriority (threads m)) m q = Some q1" "pq_at q1 (?L(m := \<lambda>_. None))"
    using Remove_at_place [of ?T m, OF wf old assms(1) [unfolded queue_ok_def]] assms(2) False by (auto simp: thread_place_def)
  obtain q2 where q2: "(if is_running then PushFront_at ?T p m q1 else PushBack_at ?T p m q1) = Some q2"
      "pq_at q2 (?L(m := place p (GetActiveCore (?T m)) (GetAffinityMask (?T m))))"
    using PushFront_at_place [of ?T m, OF wf p q1(2)] PushBack_at_place [of ?T m, OF wf p q1(2)] by (cases is_running) auto
  have "queue_ok ?T S q2"
    unfolding queue_ok_def using q2(2) assms(2) False by (elim pq_at_cong) (auto simp: thread_place_def)
  then show ?thesis
    using q1(1) q2(1) valid_priority [OF old] False by (simp add: ChangePriority_def)
qed

lemma ChangeCore_ok:
  assumes "queue_ok threads S q" "m \<in> S" "wf_thread (threads m)" "wf_thread ((threads m)\<lparr>GetActiveCore := c\<rparr>)"
  shows "\<exists>q'. ChangeCore (threads(m := (threads m)\<lparr>GetActiveCore := c\<rparr>)) (GetActiveCore (threads m)) m to_front q = Some q' \<and>
    queue_ok (threads(m := (threads m)\<lparr>GetActiveCore := c\<rparr>)) S q'"
proof (cases "IsDummyThread (threads m) \<or> GetActiveCore (threads m) = c")
  case True
  then show ?thesis
    using queue_ok_upd [OF assms(1)] assms(1) by (auto simp: ChangeCore_def thread_place_dummy)
next
  case False
  let ?th = "(threads m)\<lparr>GetActiveCore := c\<rparr>" and ?o = "GetActiveCore (threads m)" and ?p = "GetPriority (threads m)"
  let ?T = "threads(m := ?th)" and ?L = "\<lambda>m. if m \<in> S then thread_place (threads m) else (\<lambda>_. None)"
  have r: "0 \<le> ?p" "?p \<le> 64" "?o < 4" "c < 4"
    and bits: "0 \<le> ?o \<Longrightarrow> bit (GetAffinityMask (threads m)) (nat ?o)" "0 \<le> c \<Longrightarrow> bit (GetAffinityMask (threads m)) (nat c)"
    and neg: "- 1 \<le> ?o" "- 1 \<le> c"
    using assms(3,4) by (simp_all add: wf_thread_def)
  have L: "?L m i = place ?p ?o (GetAffinityMask (threads m)) i" for i
    using False assms(2) by (simp add: thread_place_def)
  have L0: "pq_at q ?L"
    using assms(1) by (simp add: queue_ok_def)
  define L1 where "L1 = (if 0 \<le> ?o then set_at ?L m (nat ?o) None else ?L)"
  obtain q1 where q1: "(if 0 \<le> ?o then Impl_Remove Scheduled ?p ?o m q else Some q) = Some q1" "pq_at q1 L1"
    using Impl_Remove_at [OF L0 r(1,2) _ r(3), of m Scheduled] L0 L [of "nat ?o"]
    by (cases "0 \<le> ?o") (auto simp: L1_def place_def)
  define L2 where "L2 = (if 0 \<le> c then set_at (set_at L1 m (nat c) None) m (nat c) (loc Scheduled ?p) else L1)"
  have "\<exists>q2. (if 0 \<le> c then do { q2 \<leftarrow> Impl_Remove Suggested ?p c m q1;
        if to_front then Impl_PushFront Scheduled ?p c m q2 else Impl_PushBack Scheduled ?p c m q2 } else Some q1) = Some q2 \<and>
      pq_at q2 L2"
  proof (cases "0 \<le> c")
    case True
    have "L1 m (nat c) = loc Suggested ?p"
      using True False L [of "nat c"] bits(2) neg by (auto simp: L1_def set_at_def place_def)
    then obtain q2 where q2: "Impl_Remove Suggested ?p c m q1 = Some q2" "pq_at q2 (set_at L1 m (nat c) None)"
      using Impl_Remove_at [OF q1(2) r(1,2) True r(4), of m Suggested] by blast
    have "set_at L1 m (nat c) None m (nat c) = None"
      by (simp add: set_at_def)
    then show ?thesis
      using Impl_PushFront_at [OF q2(2) r(1,2) True r(4), of m Scheduled]
        Impl_PushBack_at [OF q2(2) r(1,2) True r(4), of m Scheduled] q2(1) True by (auto simp: L2_def)
  qed (use q1(2) in \<open>simp add: L2_def\<close>)
  then obtain q2 where q2: "(if 0 \<le> c then do { q2 \<leftarrow> Impl_Remove Suggested ?p c m q1;
        if to_front then Impl_PushFront Scheduled ?p c m q2 else Impl_PushBack Scheduled ?p c m q2 } else Some q1) = Some q2"
      "pq_at q2 L2"
    by blast
  have none: "L2 m (nat ?o) = None" if "0 \<le> ?o"
    using that False by (auto simp: L2_def L1_def set_at_def)
  obtain q3 where q3: "(if 0 \<le> ?o then Impl_PushBack Suggested ?p ?o m q2 else Some q2) = Some q3"
      "pq_at q3 (if 0 \<le> ?o then set_at L2 m (nat ?o) (loc Suggested ?p) else L2)"
    using Impl_PushBack_at [OF q2(2) r(1,2) _ r(3) none, of Suggested] q2(2) by (cases "0 \<le> ?o") auto
  have "queue_ok ?T S q3"
    unfolding queue_ok_def using q3(2) assms(2) False bits L
    by (elim pq_at_cong) (auto simp: thread_place_def L2_def L1_def set_at_def place_def nat_eq_iff split: if_splits)
  then show ?thesis
    using q1(1) q2(1) q3(1) False by (auto simp: ChangeCore_def Let_def)
qed

lemma ChangeAffinityMask_ok:
  assumes "queue_ok threads S q" "m \<in> S" "wf_thread (threads m)" "wf_thread th"
    "GetPriority th = GetPriority (threads m)" "IsDummyThread th = IsDummyThread (threads m)"
  shows "\<exists>q'. ChangeAffinityMask (threads(m := th)) (GetActiveCore (threads m)) (GetAffinityMask (threads m)) m q = Some q' \<and>
    queue_ok (threads(m := th)) S q'"
proof (cases "IsDummyThread (threads m)")
  case True
  then show ?thesis
    using queue_ok_upd [OF assms(1)] assms(6) by (simp add: ChangeAffinityMask_def thread_place_dummy)
next
  case False
  let ?o = "threads m" and ?p = "GetPriority (threads m)" and ?cs = "[0..NUM_CPU_CORES - 1]"
  let ?T = "threads(m := th)" and ?L = "\<lambda>m. if m \<in> S then thread_place (threads m) else (\<lambda>_. None)"
  have p: "0 \<le> ?p" "?p \<le> 64"
    using assms(3) by (simp_all add: wf_thread_def)
  have cs: "c \<in> set ?cs \<longleftrightarrow> 0 \<le> c \<and> c < 4" for c
    unfolding set_upto NUM_CPU_CORES_def by auto
  let ?f = "\<lambda>core q. do { a \<leftarrow> GetAffinity core (GetAffinityMask ?o);
      if a then if core = GetActiveCore ?o then Impl_Remove Scheduled ?p core m q else Impl_Remove Suggested ?p core m q
      else Some q }"
  let ?g = "\<lambda>core q. do { a \<leftarrow> GetAffinity core (GetAffinityMask th);
      if a then if core = GetActiveCore th then Impl_PushBack Scheduled ?p core m q else Impl_PushBack Suggested ?p core m q
      else Some q }"
  have f: "\<exists>q'. ?f c q = Some q' \<and> pq_at q' (set_at L m (nat c) None)"
    if "c \<in> set ?cs" "pq_at q L" "L m (nat c) = thread_place ?o (nat c)" for q L c
    using that(1) GetAffinity_eq [of c] that(3) False assms(3) pq_at_same [OF that(2), of m "nat c" None]
      Impl_Remove_at [OF that(2) p, of c m Scheduled] Impl_Remove_at [OF that(2) p, of c m Suggested]
    unfolding cs by (auto simp: thread_place_def place_def wf_thread_def)
  have g: "\<exists>q'. ?g c q = Some q' \<and> pq_at q' (set_at L m (nat c) (thread_place th (nat c)))"
    if "c \<in> set ?cs" "pq_at q L" "L m (nat c) = None" for q L c
    using that(1) GetAffinity_eq [of c] that(3) False assms(4-6) pq_at_same [OF that(2), of m "nat c" None]
      Impl_PushBack_at [OF that(2) p, of c m Scheduled] Impl_PushBack_at [OF that(2) p, of c m Suggested]
    unfolding cs by (auto simp: thread_place_def place_def wf_thread_def)
  have d: "distinct ?cs" and nn: "\<And>c. c \<in> set ?cs \<Longrightarrow> 0 \<le> c"
    using cs by simp_all
  obtain q1 where q1: "for_each ?f ?cs q = Some q1" "pq_at q1 (?L(m := \<lambda>c. if int c \<in> set ?cs then None else ?L m c))"
  proof -
    have "?L m (nat c) = thread_place ?o (nat c)" for c
      using assms(2) by simp
    from for_each_at [where f = ?f and pre = "\<lambda>c. thread_place ?o (nat c)" and post = "\<lambda>_. None",
        OF f d nn assms(1) [unfolded queue_ok_def] this] that
    show thesis
      by blast
  qed
  obtain q2 where q2: "for_each ?g ?cs q1 = Some q2"
      "pq_at q2 ((?L(m := \<lambda>c. if int c \<in> set ?cs then None else ?L m c))
         (m := \<lambda>c. if int c \<in> set ?cs then thread_place th (nat (int c))
            else (?L(m := \<lambda>c. if int c \<in> set ?cs then None else ?L m c)) m c))"
  proof -
    have "(?L(m := \<lambda>c. if int c \<in> set ?cs then None else ?L m c)) m (nat c) = None" if "c \<in> set ?cs" for c
      using that nn [OF that] by simp
    from for_each_at [where f = ?g and pre = "\<lambda>_. None" and post = "\<lambda>c. thread_place th (nat c)", OF g d nn q1(2) this] that
    show thesis
      by blast
  qed
  have "queue_ok ?T S q2"
    unfolding queue_ok_def using q2(2) assms(2) by (elim pq_at_cong) (auto simp: NUM_CPU_CORES_def simp del: upto_rec_numeral)
  then show ?thesis
    using q1(1) q2(1) False assms(5,6) by (simp add: ChangeAffinityMask_def Let_def del: upto_rec_numeral)
qed

lemma place_mem:
  assumes "pq_rep q Q" "tabulates Q L" "L m (nat c) = Some (k, p)" "p < 64" "0 \<le> c" "c < 4"
  shows "m \<in> set (Q k p (nat c))"
  using assms by (auto simp: tabulates_def)

lemma mem_place: "tabulates Q L \<Longrightarrow> p < 64 \<Longrightarrow> c < 4 \<Longrightarrow> m \<in> set (Q k p c) \<Longrightarrow> L m c = Some (k, p)"
  by (simp add: tabulates_def)

text \<open>The front of the list after a move to the back is a queued thread with the same priority and active core.\<close>

lemma MoveToScheduledBack_ok:
  assumes "queue_ok threads S q" "m \<in> S" "\<And>t. wf_thread (threads t)" "0 \<le> GetActiveCore (threads m)"
    "GetPriority (threads m) < 64" "\<not> IsDummyThread (threads m)"
  shows "\<exists>t q'. MoveToScheduledBack threads m q = Some (Some t, q') \<and> queue_ok threads S q' \<and> t \<in> S \<and>
    GetPriority (threads t) = GetPriority (threads m)"
proof -
  let ?p = "GetPriority (threads m)" and ?c = "GetActiveCore (threads m)"
  let ?L = "\<lambda>m. if m \<in> S then thread_place (threads m) else (\<lambda>_. None)"
  have r: "0 \<le> ?p" "?c < 4"
    using assms(3) [of m] by (simp_all add: wf_thread_def)
  obtain Q where Q: "pq_rep q Q" "tabulates Q ?L"
    using assms(1) by (auto simp: queue_ok_def pq_at_def)
  have L: "?L m (nat ?c) = Some (Scheduled, nat ?p)"
    using assms r by (simp add: thread_place_def place_def loc_def LowestPriority_def)
  let ?xs = "Q Scheduled (nat ?p) (nat ?c)"
  have m: "m \<in> set ?xs"
    using place_mem [OF Q L] assms(4,5) r by simp
  let ?ys = "remove1 m ?xs @ [m]"
  obtain q' where q': "Impl_MoveToBack Scheduled ?p ?c m q = Some (first ?ys None, q')"
      "pq_rep q' (upd Q Scheduled (nat ?p) (nat ?c) ?ys)"
    using Impl_MoveToBack_rep [OF Q(1) r(1) assms(5,4) r(2) m] by blast
  have "distinct ?xs"
    using pq_rep_list [OF Q(1), of "nat ?p" "nat ?c"] assms(5) r by (simp add: dll_def)
  then have s: "set ?ys = insert m (set ?xs)"
    using m by auto
  have "tabulates (upd Q Scheduled (nat ?p) (nat ?c) ?ys) (set_at ?L m (nat ?c) (Some (Scheduled, nat ?p)))"
    using tabulates_put [OF Q(2) _ _ s] L r by simp
  then have "pq_at q' (set_at ?L m (nat ?c) (Some (Scheduled, nat ?p)))"
    using q'(2) unfolding pq_at_def by blast
  then have ok: "queue_ok threads S q'"
    unfolding queue_ok_def by (rule pq_at_cong) (use L in \<open>auto simp: set_at_def\<close>)
  define t where "t = hd ?ys"
  have "t \<in> set ?ys"
    unfolding t_def by (rule hd_in_set) simp
  then have t: "first ?ys None = Some t" "t \<in> set ?xs"
    unfolding s using m by (cases "remove1 m ?xs", auto simp: t_def)
  then have "?L t (nat ?c) = Some (Scheduled, nat ?p)"
    using mem_place [OF Q(2) _ _ t(2)] assms(5) r by simp
  then have "t \<in> S" "GetPriority (threads t) = ?p"
    using r(1) assms(3) [of t] by (auto simp: thread_place_def place_def loc_def wf_thread_def nat_eq_iff split: if_splits)
  then show ?thesis
    using q'(1) t(1) ok assms(6) by (simp add: MoveToScheduledBack_def)
qed

end
