(* ===== verification/KScheduler.thy ===== *)
theory KScheduler
  imports KPriorityQueue
begin

text \<open>
  The scheduler (\<^verbatim>\<open>k_scheduler.cpp\<close>) with its lock (\<^verbatim>\<open>k_scheduler_lock.h\<close>) and the global context
  (\<^verbatim>\<open>global_scheduler_context.cpp\<close>): how the thread of each core is chosen, threads migrate between cores, queues
  rotate and threads yield.

  The state is one record, \<open>KernelCore\<close>. The thread that executes the code is \<open>m_current_thread\<close> and the clock is the
  value \<open>m_clock_ticks\<close> that \<^verbatim>\<open>GetClockTicks\<close> returns. \<^verbatim>\<open>EnableScheduling\<close>, which interrupts the other cores and
  switches fibers, is the log \<open>m_enabled\<close> of the core masks it is given. Following a null pointer is a fault.
\<close>

section \<open>State\<close>

type_synonym ThreadState = "16 word"

definition ThreadState_Runnable :: ThreadState where "ThreadState_Runnable = 2"
definition ThreadState_Mask :: ThreadState where "ThreadState_Mask = 0xF"

definition HighestCoreMigrationAllowedPriority :: s32 where "HighestCoreMigrationAllowedPriority = 2"

record SchedulerThread = KThread +
  GetRawState :: ThreadState
  GetOwnerProcess :: "nat option"
  GetLastScheduledTick :: s64
  GetYieldScheduleCount :: s64
  GetNumKernelWaiters :: s32
  GetDisableDispatchCount :: s32
  m_dummy_thread_runnable :: bool

definition GetState :: "SchedulerThread \<Rightarrow> ThreadState" where
  "GetState th = GetRawState th AND ThreadState_Mask"

record SchedulerProcess =
  GetScheduledCount :: s64
  m_pinned_threads :: "nat \<Rightarrow> nat option"
  m_running_threads :: "nat \<Rightarrow> nat option"
  m_running_thread_idle_counts :: "nat \<Rightarrow> u64"
  m_running_thread_switch_counts :: "nat \<Rightarrow> u64"

record SchedulingState =
  needs_scheduling :: bool
  interrupt_task_runnable :: bool
  should_count_idle :: bool
  idle_count :: u64
  highest_priority_thread :: "nat option"
  prev_thread :: "nat option"

record KernelCore =
  m_threads :: "nat \<Rightarrow> SchedulerThread"
  m_processes :: "nat \<Rightarrow> SchedulerProcess"
  m_schedulers :: "nat \<Rightarrow> SchedulingState"
  m_scheduler_update_needed :: bool
  m_priority_queue :: KPriorityQueue
  m_woken_dummy_threads :: "nat list"
  m_lock_count :: s32
  m_owner_thread :: "nat option"
  m_current_thread :: nat
  m_clock_ticks :: s64
  m_enabled :: "u64 list"

definition modify_thread :: "nat \<Rightarrow> (SchedulerThread \<Rightarrow> SchedulerThread) \<Rightarrow> KernelCore \<Rightarrow> KernelCore" where
  "modify_thread t f k = k\<lparr>m_threads := (m_threads k)(t := f (m_threads k t))\<rparr>"

definition modify_process :: "nat \<Rightarrow> (SchedulerProcess \<Rightarrow> SchedulerProcess) \<Rightarrow> KernelCore \<Rightarrow> KernelCore" where
  "modify_process p f k = k\<lparr>m_processes := (m_processes k)(p := f (m_processes k p))\<rparr>"

definition modify_scheduler :: "nat \<Rightarrow> (SchedulingState \<Rightarrow> SchedulingState) \<Rightarrow> KernelCore \<Rightarrow> KernelCore" where
  "modify_scheduler c f k = k\<lparr>m_schedulers := (m_schedulers k)(c := f (m_schedulers k c))\<rparr>"

text \<open>The scheduler of a core; there are four.\<close>

definition Scheduler :: "nat \<Rightarrow> KernelCore \<Rightarrow> SchedulingState option" where
  "Scheduler c k = (if c < nat NUM_CPU_CORES then Some (m_schedulers k c) else None)"

definition IsLockedByCurrentThread :: "KernelCore \<Rightarrow> bool" where
  "IsLockedByCurrentThread k \<longleftrightarrow> m_owner_thread k = Some (m_current_thread k)"

definition SetSchedulerUpdateNeeded :: "KernelCore \<Rightarrow> KernelCore" where
  "SetSchedulerUpdateNeeded k = k\<lparr>m_scheduler_update_needed := True\<rparr>"

definition ClearSchedulerUpdateNeeded :: "KernelCore \<Rightarrow> KernelCore" where
  "ClearSchedulerUpdateNeeded k = k\<lparr>m_scheduler_update_needed := False\<rparr>"

definition CanSchedule :: "KernelCore \<Rightarrow> bool" where
  "CanSchedule k \<longleftrightarrow> GetDisableDispatchCount (m_threads k (m_current_thread k)) = 0"

definition IncrementScheduledCount :: "nat \<Rightarrow> KernelCore \<Rightarrow> KernelCore option" where
  "IncrementScheduledCount t k =
     (case GetOwnerProcess (m_threads k t) of
        None \<Rightarrow> Some k
      | Some p \<Rightarrow>
          do {
            n \<leftarrow> s64_add (GetScheduledCount (m_processes k p)) 1;
            Some (modify_process p (GetScheduledCount_update (\<lambda>_. n)) k)
          })"

definition SetRunningThread ::
    "nat \<Rightarrow> nat option \<Rightarrow> u64 \<Rightarrow> u64 \<Rightarrow> SchedulerProcess \<Rightarrow> SchedulerProcess" where
  "SetRunningThread core t idle switch p =
     p\<lparr>m_running_threads := (m_running_threads p)(core := t),
       m_running_thread_idle_counts := (m_running_thread_idle_counts p)(core := idle),
       m_running_thread_switch_counts := (m_running_thread_switch_counts p)(core := switch)\<rparr>"

definition GetPinnedThread :: "s32 \<Rightarrow> SchedulerProcess \<Rightarrow> nat option option" where
  "GetPinnedThread core p =
     do {
       ASSERT (0 \<le> core \<and> core < NUM_CPU_CORES);
       Some (m_pinned_threads p (nat core))
     }"

section \<open>Choosing the threads to run\<close>

definition UpdateHighestPriorityThread :: "nat \<Rightarrow> nat option \<Rightarrow> KernelCore \<Rightarrow> (u64 \<times> KernelCore) option" where
  "UpdateHighestPriorityThread core highest_thread k =
     do {
       s \<leftarrow> Scheduler core k;
       if highest_priority_thread s \<noteq> highest_thread then
         do {
           k1 \<leftarrow> (case highest_priority_thread s of
                     None \<Rightarrow> Some k
                   | Some t \<Rightarrow>
                       do {
                         k1 \<leftarrow> IncrementScheduledCount t k;
                         Some (modify_thread t (GetLastScheduledTick_update (\<lambda>_. m_clock_ticks k1)) k1)
                       });
           let k2 = (if should_count_idle s then
                       case highest_thread of
                         Some t \<Rightarrow>
                           (case GetOwnerProcess (m_threads k1 t) of
                              Some p \<Rightarrow> modify_process p (SetRunningThread core (Some t) (idle_count s) 0) k1
                            | None \<Rightarrow> k1)
                       | None \<Rightarrow> modify_scheduler core (idle_count_update (\<lambda>n. n + 1)) k1
                     else k1);
           Some (push_bit core 1,
                 modify_scheduler core (\<lambda>s. s\<lparr>highest_priority_thread := highest_thread, needs_scheduling := True\<rparr>) k2)
         }
       else Some (0, k)
     }"

text \<open>The pinned thread of its process takes the place of the top thread of a core, unless the latter has kernel waiters.\<close>

definition consider_pinned :: "s32 \<Rightarrow> nat \<Rightarrow> KernelCore \<Rightarrow> nat option option" where
  "consider_pinned core top_thread k =
     (case GetOwnerProcess (m_threads k top_thread) of
        None \<Rightarrow> Some (Some top_thread)
      | Some parent \<Rightarrow>
          do {
            pinned \<leftarrow> GetPinnedThread core (m_processes k parent);
            Some (case pinned of
                    None \<Rightarrow> Some top_thread
                  | Some t \<Rightarrow>
                      if t \<noteq> top_thread \<and> GetNumKernelWaiters (m_threads k top_thread) = 0 then
                        if GetRawState (m_threads k t) = ThreadState_Runnable then Some t else None
                      else Some top_thread)
          })"

text \<open>The variables of \<^verbatim>\<open>UpdateHighestPriorityThreadsImpl\<close> and the kernel.\<close>

record update_state =
  cores_needing_scheduling :: u64
  idle_cores :: u64
  top_threads :: "nat option list"
  u_kernel :: KernelCore

definition update_highest :: "nat \<Rightarrow> nat option \<Rightarrow> update_state \<Rightarrow> update_state option" where
  "update_highest core t u =
     do {
       tops \<leftarrow> array_set (top_threads u) core t;
       (m, k) \<leftarrow> UpdateHighestPriorityThread core t (u_kernel u);
       Some (u\<lparr>top_threads := tops, cores_needing_scheduling := cores_needing_scheduling u OR m, u_kernel := k\<rparr>)
     }"

definition select_top :: "s32 \<Rightarrow> update_state \<Rightarrow> update_state option" where
  "select_top core u =
     do {
       front \<leftarrow> GetScheduledFront core (m_priority_queue (u_kernel u));
       case front of
         Some t \<Rightarrow>
           do {
             top_thread \<leftarrow> consider_pinned core t (u_kernel u);
             update_highest (nat core) top_thread u
           }
       | None \<Rightarrow> update_highest (nat core) None (u\<lparr>idle_cores := idle_cores u OR push_bit (nat core) 1\<rparr>)
     }"

text \<open>Moving a thread to another core: \<^verbatim>\<open>SetActiveCore\<close> and \<^verbatim>\<open>ChangeCore\<close>.\<close>

definition migrate :: "s32 \<Rightarrow> nat \<Rightarrow> bool \<Rightarrow> KernelCore \<Rightarrow> KernelCore option" where
  "migrate core t to_front k =
     (let prev_core = GetActiveCore (m_threads k t);
          k1 = modify_thread t (GetActiveCore_update (\<lambda>_. core)) k
      in do {
           q \<leftarrow> ChangeCore (m_threads k1) prev_core t to_front (m_priority_queue k1);
           Some (k1\<lparr>m_priority_queue := q\<rparr>)
         })"

text \<open>
  A loop over suggested threads: the body says whether to leave the loop, with the final value of \<^verbatim>\<open>suggested\<close>, or to go
  on with the next thread.
\<close>

partial_function (option) suggested_loop ::
    "(nat \<Rightarrow> 's \<Rightarrow> ((nat option \<times> 's) + 's) option) \<Rightarrow> ('s \<Rightarrow> nat \<Rightarrow> nat option option) \<Rightarrow> nat option \<Rightarrow> 's \<Rightarrow>
     (nat option \<times> 's) option" where
  "suggested_loop body next suggested s =
     (case suggested of
        None \<Rightarrow> Some (None, s)
      | Some t \<Rightarrow>
          do {
            r \<leftarrow> body t s;
            case r of
              Inl x \<Rightarrow> Some x
            | Inr s' \<Rightarrow>
                do {
                  t' \<leftarrow> next s' t;
                  suggested_loop body next t' s'
                }
          })"

definition too_high :: "nat option \<Rightarrow> KernelCore \<Rightarrow> bool" where
  "too_high top_thread k = (case top_thread of None \<Rightarrow> False | Some t \<Rightarrow> GetPriority (m_threads k t) < HighestCoreMigrationAllowedPriority)"

definition migrate_suggested_body ::
    "s32 \<Rightarrow> nat \<Rightarrow> s32 list \<times> update_state \<Rightarrow> ((nat option \<times> s32 list \<times> update_state) + (s32 list \<times> update_state)) option" where
  "migrate_suggested_body core t = (\<lambda>(candidates, u).
     let suggested_core = GetActiveCore (m_threads (u_kernel u) t)
     in do {
          top_thread \<leftarrow> (if suggested_core \<ge> 0 then array_get (top_threads u) (nat suggested_core) else Some None);
          if top_thread \<noteq> Some t then
            if too_high top_thread (u_kernel u) then Some (Inl (Some t, candidates, u))
            else
              do {
                k \<leftarrow> migrate core t False (u_kernel u);
                u1 \<leftarrow> update_highest (nat core) (Some t) (u\<lparr>u_kernel := k\<rparr>);
                Some (Inl (Some t, candidates, u1))
              }
          else
            do {
              ASSERT (length candidates < nat NUM_CPU_CORES);
              Some (Inr (candidates @ [suggested_core], u))
            }
        })"

text \<open>The candidate cores in turn, until one can run another thread.\<close>

fun migrate_candidate_loop :: "s32 \<Rightarrow> s32 list \<Rightarrow> update_state \<Rightarrow> update_state option" where
  "migrate_candidate_loop core [] u = Some u"
| "migrate_candidate_loop core (candidate_core # cs) u =
     do {
       top_thread \<leftarrow> array_get (top_threads u) (nat candidate_core);
       suggested \<leftarrow> top_thread;
       next \<leftarrow> GetScheduledNext (m_threads (u_kernel u)) candidate_core suggested (m_priority_queue (u_kernel u));
       case next of
         None \<Rightarrow> migrate_candidate_loop core cs u
       | Some t \<Rightarrow>
           do {
             u1 \<leftarrow> update_highest (nat candidate_core) (Some t) u;
             k \<leftarrow> migrate core suggested False (u_kernel u1);
             update_highest (nat core) (Some suggested) (u1\<lparr>u_kernel := k\<rparr>)
           }
     }"

definition fill_idle_core :: "s32 \<Rightarrow> update_state \<Rightarrow> update_state option" where
  "fill_idle_core core u =
     do {
       suggested \<leftarrow> GetSuggestedFront core (m_priority_queue (u_kernel u));
       (suggested, candidates, u1) \<leftarrow>
         suggested_loop (migrate_suggested_body core)
           (\<lambda>(_, u) t. GetSuggestedNext (m_threads (u_kernel u)) core t (m_priority_queue (u_kernel u)))
           suggested ([], u);
       if suggested = None then migrate_candidate_loop core candidates u1 else Some u1
     }"

definition DummyThreadEndWait :: "nat \<Rightarrow> KernelCore \<Rightarrow> KernelCore option" where
  "DummyThreadEndWait t k =
     do {
       ASSERT (IsLockedByCurrentThread k);
       ASSERT (IsDummyThread (m_threads k t));
       Some (modify_thread t (m_dummy_thread_runnable_update (\<lambda>_. True)) k)
     }"

definition RequestDummyThreadWait :: "nat \<Rightarrow> KernelCore \<Rightarrow> KernelCore option" where
  "RequestDummyThreadWait t k =
     do {
       ASSERT (IsLockedByCurrentThread k);
       ASSERT (IsDummyThread (m_threads k t));
       Some (modify_thread t (m_dummy_thread_runnable_update (\<lambda>_. False)) k)
     }"

definition RegisterDummyThreadForWakeup :: "nat \<Rightarrow> KernelCore \<Rightarrow> KernelCore option" where
  "RegisterDummyThreadForWakeup t k =
     do {
       ASSERT (IsLockedByCurrentThread k);
       Some (k\<lparr>m_woken_dummy_threads := List.insert t (m_woken_dummy_threads k)\<rparr>)
     }"

definition UnregisterDummyThreadForWakeup :: "nat \<Rightarrow> KernelCore \<Rightarrow> KernelCore option" where
  "UnregisterDummyThreadForWakeup t k =
     do {
       ASSERT (IsLockedByCurrentThread k);
       Some (k\<lparr>m_woken_dummy_threads := removeAll t (m_woken_dummy_threads k)\<rparr>)
     }"

definition WakeupWaitingDummyThreads :: "KernelCore \<Rightarrow> KernelCore option" where
  "WakeupWaitingDummyThreads k =
     do {
       ASSERT (IsLockedByCurrentThread k);
       k1 \<leftarrow> for_each DummyThreadEndWait (m_woken_dummy_threads k) k;
       Some (k1\<lparr>m_woken_dummy_threads := []\<rparr>)
     }"

definition UpdateHighestPriorityThreadsImpl :: "KernelCore \<Rightarrow> (u64 \<times> KernelCore) option" where
  "UpdateHighestPriorityThreadsImpl k =
     do {
       ASSERT (IsLockedByCurrentThread k);
       let k0 = ClearSchedulerUpdateNeeded k;
       u1 \<leftarrow> for_each select_top [0..NUM_CPU_CORES - 1]
         \<lparr>cores_needing_scheduling = 0, idle_cores = 0, top_threads = replicate (nat NUM_CPU_CORES) None, u_kernel = k0\<rparr>;
       u2 \<leftarrow> for_affinity fill_idle_core (idle_cores u1) u1;
       k2 \<leftarrow> WakeupWaitingDummyThreads (u_kernel u2);
       let cur = m_current_thread k2;
       k3 \<leftarrow> (if IsDummyThread (m_threads k2 cur) \<and> GetState (m_threads k2 cur) \<noteq> ThreadState_Runnable
              then RequestDummyThreadWait cur k2 else Some k2);
       Some (cores_needing_scheduling u2, k3)
     }"

definition UpdateHighestPriorityThreads :: "KernelCore \<Rightarrow> (u64 \<times> KernelCore) option" where
  "UpdateHighestPriorityThreads k =
     (if m_scheduler_update_needed k then UpdateHighestPriorityThreadsImpl k else Some (0, k))"

section \<open>The scheduler lock\<close>

definition DisableDispatch :: "KernelCore \<Rightarrow> KernelCore option" where
  "DisableDispatch k =
     do {
       ASSERT (GetDisableDispatchCount (m_threads k (m_current_thread k)) \<ge> 0);
       n \<leftarrow> s32_add (GetDisableDispatchCount (m_threads k (m_current_thread k))) 1;
       Some (modify_thread (m_current_thread k) (GetDisableDispatchCount_update (\<lambda>_. n)) k)
     }"

definition EnableDispatch :: "KernelCore \<Rightarrow> KernelCore option" where
  "EnableDispatch k =
     do {
       ASSERT (GetDisableDispatchCount (m_threads k (m_current_thread k)) > 0);
       Some (modify_thread (m_current_thread k) (GetDisableDispatchCount_update (\<lambda>n. n - 1)) k)
     }"

definition DisableScheduling :: "KernelCore \<Rightarrow> KernelCore option" where
  "DisableScheduling k =
     do {
       ASSERT (GetDisableDispatchCount (m_threads k (m_current_thread k)) \<ge> 0);
       DisableDispatch k
     }"

text \<open>The effect on the dispatch count that all paths of \<^verbatim>\<open>EnableScheduling\<close> have, and the log.\<close>

definition enable_scheduling :: "u64 \<Rightarrow> KernelCore \<Rightarrow> KernelCore option" where
  "enable_scheduling cores k =
     do {
       ASSERT (GetDisableDispatchCount (m_threads k (m_current_thread k)) \<ge> 1);
       EnableDispatch (k\<lparr>m_enabled := m_enabled k @ [cores]\<rparr>)
     }"

definition Lock :: "KernelCore \<Rightarrow> KernelCore option" where
  "Lock k =
     do {
       k1 \<leftarrow> (if IsLockedByCurrentThread k then do { ASSERT (m_lock_count k > 0); Some k }
              else
                do {
                  k1 \<leftarrow> DisableScheduling k;
                  ASSERT (m_lock_count k1 = 0);
                  ASSERT (m_owner_thread k1 = None);
                  Some (k1\<lparr>m_owner_thread := Some (m_current_thread k1)\<rparr>)
                });
       n \<leftarrow> s32_add (m_lock_count k1) 1;
       Some (k1\<lparr>m_lock_count := n\<rparr>)
     }"

definition Unlock :: "KernelCore \<Rightarrow> KernelCore option" where
  "Unlock k =
     do {
       ASSERT (IsLockedByCurrentThread k);
       ASSERT (m_lock_count k > 0);
       let k1 = k\<lparr>m_lock_count := m_lock_count k - 1\<rparr>;
       if m_lock_count k1 = 0 then
         do {
           (cores, k2) \<leftarrow> UpdateHighestPriorityThreads k1;
           enable_scheduling cores (k2\<lparr>m_owner_thread := None\<rparr>)
         }
       else Some k1
     }"

text \<open>The scope of a \<^verbatim>\<open>KScopedSchedulerLock\<close>.\<close>

definition with_lock :: "(KernelCore \<Rightarrow> KernelCore option) \<Rightarrow> KernelCore \<Rightarrow> KernelCore option" where
  "with_lock f k =
     do {
       k1 \<leftarrow> Lock k;
       k2 \<leftarrow> f k1;
       Unlock k2
     }"

section \<open>Changes of threads\<close>

definition ClearPreviousThread :: "nat \<Rightarrow> KernelCore \<Rightarrow> KernelCore option" where
  "ClearPreviousThread t k =
     do {
       ASSERT (IsLockedByCurrentThread k);
       for_each
         (\<lambda>c k. Some (if prev_thread (m_schedulers k (nat c)) = Some t then
                        modify_scheduler (nat c) (prev_thread_update (\<lambda>_. None)) k
                      else k))
         [0..NUM_CPU_CORES - 1] k
     }"

definition OnThreadStateChanged :: "nat \<Rightarrow> ThreadState \<Rightarrow> KernelCore \<Rightarrow> KernelCore option" where
  "OnThreadStateChanged t old_state k =
     do {
       ASSERT (IsLockedByCurrentThread k);
       let cur_state = GetRawState (m_threads k t);
       if cur_state = old_state then Some k
       else if old_state = ThreadState_Runnable then
         do {
           q \<leftarrow> PQ_Remove (m_threads k) t (m_priority_queue k);
           k1 \<leftarrow> IncrementScheduledCount t (k\<lparr>m_priority_queue := q\<rparr>);
           let k2 = SetSchedulerUpdateNeeded k1;
           if IsDummyThread (m_threads k2 t) then UnregisterDummyThreadForWakeup t k2 else Some k2
         }
       else if cur_state = ThreadState_Runnable then
         do {
           q \<leftarrow> PQ_PushBack (m_threads k) t (m_priority_queue k);
           k1 \<leftarrow> IncrementScheduledCount t (k\<lparr>m_priority_queue := q\<rparr>);
           let k2 = SetSchedulerUpdateNeeded k1;
           if IsDummyThread (m_threads k2 t) then RegisterDummyThreadForWakeup t k2 else Some k2
         }
       else Some k
     }"

definition OnThreadPriorityChanged :: "nat \<Rightarrow> s32 \<Rightarrow> KernelCore \<Rightarrow> KernelCore option" where
  "OnThreadPriorityChanged t old_priority k =
     do {
       ASSERT (IsLockedByCurrentThread k);
       if GetRawState (m_threads k t) = ThreadState_Runnable then
         do {
           q \<leftarrow> ChangePriority (m_threads k) old_priority (t = m_current_thread k) t (m_priority_queue k);
           k1 \<leftarrow> IncrementScheduledCount t (k\<lparr>m_priority_queue := q\<rparr>);
           Some (SetSchedulerUpdateNeeded k1)
         }
       else Some k
     }"

definition OnThreadAffinityMaskChanged :: "nat \<Rightarrow> KAffinityMask \<Rightarrow> s32 \<Rightarrow> KernelCore \<Rightarrow> KernelCore option" where
  "OnThreadAffinityMaskChanged t old_affinity old_core k =
     do {
       ASSERT (IsLockedByCurrentThread k);
       if GetRawState (m_threads k t) = ThreadState_Runnable then
         do {
           q \<leftarrow> ChangeAffinityMask (m_threads k) old_core old_affinity t (m_priority_queue k);
           k1 \<leftarrow> IncrementScheduledCount t (k\<lparr>m_priority_queue := q\<rparr>);
           Some (SetSchedulerUpdateNeeded k1)
         }
       else Some k
     }"

text \<open>\<^verbatim>\<open>KThread::SetState\<close>; the debugging state is left out.\<close>

definition SetState :: "nat \<Rightarrow> ThreadState \<Rightarrow> KernelCore \<Rightarrow> KernelCore option" where
  "SetState t state =
     with_lock (\<lambda>k.
       let old_state = GetRawState (m_threads k t);
           new_state = (old_state AND NOT ThreadState_Mask) OR (state AND ThreadState_Mask);
           k1 = modify_thread t (GetRawState_update (\<lambda>_. new_state)) k
       in if new_state \<noteq> old_state then OnThreadStateChanged t old_state k1 else Some k1)"

section \<open>Rotation\<close>

definition migration_allowed :: "nat option \<Rightarrow> KernelCore \<Rightarrow> bool" where
  "migration_allowed top_thread k =
     (case top_thread of None \<Rightarrow> True | Some t \<Rightarrow> GetPriority (m_threads k t) \<ge> HighestCoreMigrationAllowedPriority)"

definition top_on_core :: "s32 \<Rightarrow> KernelCore \<Rightarrow> nat option option" where
  "top_on_core core k = (if core \<ge> 0 then GetScheduledFront core (m_priority_queue k) else Some None)"

definition migrate_counted :: "s32 \<Rightarrow> nat \<Rightarrow> bool \<Rightarrow> KernelCore \<Rightarrow> KernelCore option" where
  "migrate_counted core t to_front k =
     do {
       k1 \<leftarrow> migrate core t to_front k;
       IncrementScheduledCount t k1
     }"

definition rotate_front :: "s32 \<Rightarrow> s32 \<Rightarrow> KernelCore \<Rightarrow> (nat option \<times> nat option \<times> KernelCore) option" where
  "rotate_front core priority k =
     do {
       top_thread \<leftarrow> GetScheduledFront_at core priority (m_priority_queue k);
       case top_thread of
         None \<Rightarrow> Some (None, None, k)
       | Some t \<Rightarrow>
           do {
             (next_thread, q) \<leftarrow> MoveToScheduledBack (m_threads k) t (m_priority_queue k);
             let k1 = k\<lparr>m_priority_queue := q\<rparr>;
             if next_thread \<noteq> Some t then
               do {
                 k2 \<leftarrow> IncrementScheduledCount t k1;
                 n \<leftarrow> next_thread;
                 k3 \<leftarrow> IncrementScheduledCount n k2;
                 Some (top_thread, next_thread, k3)
               }
             else Some (top_thread, next_thread, k1)
           }
     }"

definition rotate_same_body ::
    "s32 \<Rightarrow> nat option \<Rightarrow> nat option \<Rightarrow> nat \<Rightarrow> KernelCore \<Rightarrow> ((nat option \<times> KernelCore) + KernelCore) option" where
  "rotate_same_body core top_thread next_thread t k =
     do {
       top_on_suggested_core \<leftarrow> top_on_core (GetActiveCore (m_threads k t)) k;
       if top_on_suggested_core \<noteq> Some t then
         if top_thread \<noteq> next_thread \<and>
            (case next_thread of
               None \<Rightarrow> False
             | Some n \<Rightarrow> GetLastScheduledTick (m_threads k n) < GetLastScheduledTick (m_threads k t))
         then Some (Inl (None, k))
         else if migration_allowed top_on_suggested_core k then
           do {
             k1 \<leftarrow> migrate_counted core t True k;
             Some (Inl (Some t, k1))
           }
         else Some (Inr k)
       else Some (Inr k)
     }"

definition rotate_better_body ::
    "s32 \<Rightarrow> nat \<Rightarrow> nat \<Rightarrow> KernelCore \<Rightarrow> ((nat option \<times> KernelCore) + KernelCore) option" where
  "rotate_better_body core best_thread t k =
     (if GetPriority (m_threads k t) \<ge> GetPriority (m_threads k best_thread) then Some (Inl (Some t, k))
      else
        do {
          top_on_suggested_core \<leftarrow> top_on_core (GetActiveCore (m_threads k t)) k;
          if top_on_suggested_core \<noteq> Some t \<and> migration_allowed top_on_suggested_core k then
            do {
              k1 \<leftarrow> migrate_counted core t True k;
              Some (Inl (Some t, k1))
            }
          else Some (Inr k)
        })"

definition rotate_better :: "s32 \<Rightarrow> s32 \<Rightarrow> KernelCore \<Rightarrow> KernelCore option" where
  "rotate_better core priority k =
     do {
       front \<leftarrow> GetScheduledFront core (m_priority_queue k);
       best_thread \<leftarrow> (if front = Some (m_current_thread k) then
                        GetScheduledNext (m_threads k) core (m_current_thread k) (m_priority_queue k)
                      else Some front);
       case best_thread of
         None \<Rightarrow> Some k
       | Some b \<Rightarrow>
           if GetPriority (m_threads k b) \<ge> priority then
             do {
               suggested \<leftarrow> GetSuggestedFront core (m_priority_queue k);
               (_, k1) \<leftarrow>
                 suggested_loop (rotate_better_body core b)
                   (\<lambda>k t. GetSuggestedNext (m_threads k) core t (m_priority_queue k)) suggested k;
               Some k1
             }
           else Some k
     }"

definition RotateScheduledQueue :: "s32 \<Rightarrow> s32 \<Rightarrow> KernelCore \<Rightarrow> KernelCore option" where
  "RotateScheduledQueue core priority k =
     do {
       ASSERT (IsLockedByCurrentThread k);
       (top_thread, next_thread, k1) \<leftarrow> rotate_front core priority k;
       suggested \<leftarrow> GetSuggestedFront_at core priority (m_priority_queue k1);
       (_, k2) \<leftarrow>
         suggested_loop (rotate_same_body core top_thread next_thread)
           (\<lambda>k t. GetSamePriorityNext core t (m_priority_queue k)) suggested k1;
       k3 \<leftarrow> rotate_better core priority k2;
       Some (SetSchedulerUpdateNeeded k3)
     }"

definition preemption_priorities :: "s32 list" where "preemption_priorities = [59, 59, 59, 63]"

definition PreemptThreads :: "KernelCore \<Rightarrow> KernelCore option" where
  "PreemptThreads k =
     do {
       ASSERT (IsLockedByCurrentThread k);
       for_each
         (\<lambda>core k. do {
            priority \<leftarrow> array_get preemption_priorities (nat core);
            RotateScheduledQueue core priority k
          })
         [0..NUM_CPU_CORES - 1] k
     }"

section \<open>Yielding\<close>

text \<open>The guards that the three kinds of yield share, and their bodies under the lock.\<close>

definition yield_with :: "(nat \<Rightarrow> KernelCore \<Rightarrow> KernelCore option) \<Rightarrow> KernelCore \<Rightarrow> KernelCore option" where
  "yield_with body k =
     do {
       ASSERT (CanSchedule k);
       let cur_thread = m_current_thread k;
       cur_process \<leftarrow> GetOwnerProcess (m_threads k cur_thread);
       if GetYieldScheduleCount (m_threads k cur_thread) = GetScheduledCount (m_processes k cur_process) then Some k
       else
         with_lock
           (\<lambda>k. if GetRawState (m_threads k cur_thread) = ThreadState_Runnable then body cur_process k else Some k) k
     }"

definition SetYieldScheduleCount :: "nat \<Rightarrow> nat \<Rightarrow> KernelCore \<Rightarrow> KernelCore" where
  "SetYieldScheduleCount t p k =
     modify_thread t (GetYieldScheduleCount_update (\<lambda>_. GetScheduledCount (m_processes k p))) k"

definition yield_without_migration :: "nat \<Rightarrow> KernelCore \<Rightarrow> KernelCore option" where
  "yield_without_migration cur_process k =
     (let cur_thread = m_current_thread k
     in do {
          (next_thread, q) \<leftarrow> MoveToScheduledBack (m_threads k) cur_thread (m_priority_queue k);
          k1 \<leftarrow> IncrementScheduledCount cur_thread (k\<lparr>m_priority_queue := q\<rparr>);
          Some (if next_thread \<noteq> Some cur_thread then SetSchedulerUpdateNeeded k1
                else SetYieldScheduleCount cur_thread cur_process k1)
        })"

definition YieldWithoutCoreMigration :: "KernelCore \<Rightarrow> KernelCore option" where
  "YieldWithoutCoreMigration = yield_with yield_without_migration"

definition yield_migration_body ::
    "s32 \<Rightarrow> nat option \<Rightarrow> nat \<Rightarrow> bool \<times> KernelCore \<Rightarrow> ((nat option \<times> bool \<times> KernelCore) + (bool \<times> KernelCore)) option" where
  "yield_migration_body core next_thread t = (\<lambda>(recheck, k).
     let cur_thread = m_current_thread k; suggested_core = GetActiveCore (m_threads k t)
     in do {
          running \<leftarrow> (if suggested_core \<ge> 0 then map_option highest_priority_thread (Scheduler (nat suggested_core) k)
                      else Some None);
          if running \<noteq> Some t then
            do {
              prefer_next \<leftarrow>
                (if GetPriority (m_threads k t) > GetPriority (m_threads k cur_thread) then Some True
                 else if GetPriority (m_threads k t) = GetPriority (m_threads k cur_thread) \<and> next_thread \<noteq> Some cur_thread then
                   do {
                     n \<leftarrow> next_thread;
                     Some (GetLastScheduledTick (m_threads k n) < GetLastScheduledTick (m_threads k t))
                   }
                 else Some False);
              if prefer_next then Some (Inl (None, recheck, k))
              else if migration_allowed running k then
                do {
                  k1 \<leftarrow> migrate_counted core t True k;
                  Some (Inl (Some t, recheck, k1))
                }
              else Some (Inr (True, k))
            }
          else Some (Inr (recheck, k))
        })"

definition yield_with_migration :: "nat \<Rightarrow> KernelCore \<Rightarrow> KernelCore option" where
  "yield_with_migration cur_process k =
     (let cur_thread = m_current_thread k; core = GetActiveCore (m_threads k cur_thread)
     in do {
          (next_thread, q) \<leftarrow> MoveToScheduledBack (m_threads k) cur_thread (m_priority_queue k);
          k1 \<leftarrow> IncrementScheduledCount cur_thread (k\<lparr>m_priority_queue := q\<rparr>);
          front \<leftarrow> GetSuggestedFront core (m_priority_queue k1);
          (suggested, recheck, k2) \<leftarrow>
            suggested_loop (yield_migration_body core next_thread)
              (\<lambda>(_, k) t. GetSuggestedNext (m_threads k) core t (m_priority_queue k)) front (False, k1);
          Some (if suggested \<noteq> None \<or> next_thread \<noteq> Some cur_thread then SetSchedulerUpdateNeeded k2
                else if \<not> recheck then SetYieldScheduleCount cur_thread cur_process k2
                else k2)
        })"

definition YieldWithCoreMigration :: "KernelCore \<Rightarrow> KernelCore option" where
  "YieldWithCoreMigration = yield_with yield_with_migration"

definition yield_any_body :: "s32 \<Rightarrow> nat \<Rightarrow> KernelCore \<Rightarrow> ((nat option \<times> KernelCore) + KernelCore) option" where
  "yield_any_body core t k =
     do {
       top_on_suggested_core \<leftarrow> top_on_core (GetActiveCore (m_threads k t)) k;
       if top_on_suggested_core \<noteq> Some t then
         do {
           k1 \<leftarrow> (if migration_allowed top_on_suggested_core k then migrate_counted core t False k else Some k);
           Some (Inl (Some t, k1))
         }
       else Some (Inr k)
     }"

definition yield_to_any :: "nat \<Rightarrow> KernelCore \<Rightarrow> KernelCore option" where
  "yield_to_any cur_process k =
     (let cur_thread = m_current_thread k; core = GetActiveCore (m_threads k cur_thread)
     in do {
          k1 \<leftarrow> migrate_counted (- 1) cur_thread False k;
          front \<leftarrow> GetScheduledFront core (m_priority_queue k1);
          if front = None then
            do {
              first_suggested \<leftarrow> GetSuggestedFront core (m_priority_queue k1);
              (suggested, k2) \<leftarrow>
                suggested_loop (yield_any_body core)
                  (\<lambda>k t. GetSuggestedNext (m_threads k) core t (m_priority_queue k)) first_suggested k1;
              Some (if suggested \<noteq> Some cur_thread then SetSchedulerUpdateNeeded k2
                    else SetYieldScheduleCount cur_thread cur_process k2)
            }
          else Some (SetSchedulerUpdateNeeded k1)
        })"

definition YieldToAnyThread :: "KernelCore \<Rightarrow> KernelCore option" where
  "YieldToAnyThread = yield_with yield_to_any"

end
