(* ===== verification/KSchedulerQueue.thy ===== *)
theory KSchedulerQueue
  imports KPriorityQueuePlacement KScheduler
begin

text \<open>
  What the scheduler sees of the priority queue: the threads scheduled on and suggested to a core as lists in scheduling
  order, which the front and next operations walk, and the effect of a change of core on these lists.
\<close>

section \<open>Walking a list of threads\<close>

text \<open>
  The interface of the loops over threads: an object of type \<open>'q\<close> shows a list of threads without repetition, and
  \<open>front\<close> and \<open>next\<close> return its first thread and the successor of a thread.
\<close>

locale thread_walk =
  fixes shows_list :: "'q \<Rightarrow> nat list \<Rightarrow> bool"
    and front :: "'q \<Rightarrow> nat option option"
    and succ :: "'q \<Rightarrow> nat \<Rightarrow> nat option option"
  assumes front_law: "shows_list q xs \<Longrightarrow> front q = Some (first xs None)"
    and succ_law: "shows_list q (as @ m # bs) \<Longrightarrow> succ q m = Some (first bs None)"
begin

text \<open>
  A loop whose body keeps the invariant \<open>I\<close> when it goes on, or establishes \<open>R\<close> when it leaves, returns with \<open>R\<close>. The
  invariant may speak of the threads visited so far.
\<close>

lemma loop_from:
  assumes "shows_list q (as @ bs)" "I as s"
    and "\<And>vs s. I vs s \<Longrightarrow> obs s = q"
    and "\<And>vs t ws s. as @ bs = vs @ t # ws \<Longrightarrow> I vs s \<Longrightarrow>
      \<exists>r. body t s = Some r \<and> (case r of Inl (x, s') \<Rightarrow> R x s' | Inr s' \<Rightarrow> I (vs @ [t]) s')"
    and "\<And>s. I (as @ bs) s \<Longrightarrow> R None s"
  shows "\<exists>x s'. suggested_loop body (\<lambda>s. succ (obs s)) (first bs None) s = Some (x, s') \<and> R x s'"
  using assms
proof (induction bs arbitrary: as s)
  case Nil
  then show ?case
    by (simp add: suggested_loop.simps)
next
  case (Cons t bs)
  obtain r where r: "body t s = Some r" "case r of Inl (x, s') \<Rightarrow> R x s' | Inr s' \<Rightarrow> I (as @ [t]) s'"
    using Cons.prems(4) [OF refl Cons.prems(2)] by blast
  show ?case
  proof (cases r)
    case (Inl x)
    then show ?thesis
      using r by (cases x) (simp add: suggested_loop.simps)
  next
    case (Inr s1)
    have i: "I (as @ [t]) s1"
      using r(2) Inr by simp
    have "succ (obs s1) t = Some (first bs None)"
      using succ_law [OF Cons.prems(1)] Cons.prems(3) [OF i] by simp
    moreover have "\<exists>x s'. suggested_loop body (\<lambda>s. succ (obs s)) (first bs None) s1 = Some (x, s') \<and> R x s'"
      by (rule Cons.IH [of "as @ [t]"]) (use Cons.prems i in simp_all)
    ultimately show ?thesis
      using r(1) Inr by (simp add: suggested_loop.simps [of body _ "Some t" s])
  qed
qed

lemma loop:
  assumes "shows_list q xs" "I [] s"
    and "\<And>vs s. I vs s \<Longrightarrow> obs s = q"
    and "\<And>vs t ws s. xs = vs @ t # ws \<Longrightarrow> I vs s \<Longrightarrow>
      \<exists>r. body t s = Some r \<and> (case r of Inl (x, s') \<Rightarrow> R x s' | Inr s' \<Rightarrow> I (vs @ [t]) s')"
    and "\<And>s. I xs s \<Longrightarrow> R None s"
  obtains x s' where "do { t \<leftarrow> front q; suggested_loop body (\<lambda>s. succ (obs s)) t s } = Some (x, s')" "R x s'"
  using loop_from [of q "[]" xs I s obs body R] front_law [OF assms(1)] assms that by auto

end

section \<open>The queue of the scheduler\<close>

text \<open>The threads that are queued, each at its place, and the lists that hold them.\<close>

definition queue_rep :: "(nat \<Rightarrow> 'a KThread_scheme) \<Rightarrow> nat set \<Rightarrow> KPriorityQueue \<Rightarrow> table \<Rightarrow> bool" where
  "queue_rep T S q Q \<longleftrightarrow> pq_rep q Q \<and> tabulates Q (\<lambda>m. if m \<in> S then thread_place (T m) else (\<lambda>_. None))"

lemma queue_ok_rep: "queue_ok T S q \<longleftrightarrow> (\<exists>Q. queue_rep T S q Q)"
  by (simp add: queue_ok_def pq_at_def queue_rep_def)

lemma mem_order: "m \<in> set (order Q k c) \<longleftrightarrow> (\<exists>p < 64. m \<in> set (Q k p c))"
  unfolding order_def by auto

lemma queue_rep_mem:
  assumes "queue_rep T S q Q" "p < 64" "c < 4"
  shows "m \<in> set (Q k p c) \<longleftrightarrow> m \<in> S \<and> thread_place (T m) c = Some (k, p)"
  using assms by (auto simp: queue_rep_def tabulates_def)

lemma loc_eq_Some: "0 \<le> p \<Longrightarrow> loc k p = Some (k', n) \<longleftrightarrow> k' = k \<and> p = int n \<and> n < 64"
  by (auto simp: loc_def LowestPriority_def)

lemma thread_place_eq_Some:
  assumes "wf_thread th" "c < 4"
  shows "thread_place th c = Some (k, p) \<longleftrightarrow>
    \<not> IsDummyThread th \<and> GetPriority th = int p \<and> p < 64 \<and>
    (if k = Scheduled then GetActiveCore th = int c else bit (GetAffinityMask th) c \<and> GetActiveCore th \<noteq> int c)"
  using assms by (cases k) (auto simp: thread_place_def place_def loc_eq_Some wf_thread_def)

lemma order_mem:
  assumes "queue_rep T S q Q" "wf_thread (T m)" "c < 4"
  shows "m \<in> set (order Q k c) \<longleftrightarrow> m \<in> S \<and> \<not> IsDummyThread (T m) \<and> GetPriority (T m) < 64 \<and>
    (if k = Scheduled then GetActiveCore (T m) = int c else bit (GetAffinityMask (T m)) c \<and> GetActiveCore (T m) \<noteq> int c)"
proof -
  have "0 \<le> GetPriority (T m)"
    using assms(2) by (simp add: wf_thread_def)
  then show ?thesis
    unfolding mem_order using queue_rep_mem [OF assms(1) _ assms(3)] thread_place_eq_Some [OF assms(2,3)]
    by (auto intro: exI [of _ "nat (GetPriority (T m))"])
qed

lemma queue_rep_front: "queue_rep T S q Q \<Longrightarrow> 0 \<le> c \<Longrightarrow> c < 4 \<Longrightarrow> Impl_GetFront k c q = Some (first (order Q k (nat c)) None)"
  by (auto simp: queue_rep_def intro: Impl_GetFront_rep)

lemma queue_rep_next:
  assumes "queue_rep T S q Q" "\<And>m. wf_thread (T m)" "0 \<le> c" "c < 4" "order Q k (nat c) = as @ m # bs"
  shows "Impl_GetNext T k c m q = Some (first bs None)"
proof (rule Impl_GetNext_order [OF _ assms(3-5)])
  show "pq_rep q Q"
    using assms(1) by (simp add: queue_rep_def)
  show "GetPriority (T m) = int p" if "p < 64" "m \<in> set (Q k p (nat c))" for p
    using queue_rep_mem [OF assms(1) that(1), of "nat c" m k] thread_place_eq_Some [OF assms(2), of "nat c" m k p] that assms(4)
    by simp
qed

lemma same_priority_next_rep:
  assumes "pq_rep q Q" "0 \<le> c" "c < 4" "p < 64" "Q k p (nat c) = as @ m # bs"
  shows "GetSamePriorityNext c m q = Some (first bs None)"
proof -
  have "dll (get_list k p (nat c) q) (as @ m # bs)"
    using assms pq_rep_list [of q Q p "nat c" k] by simp
  then show ?thesis
    using assms(2,3) by (simp add: GetSamePriorityNext_def IsValidCore_def NUM_CPU_CORES_def dll_def get_list_def linked_append)
qed

lemma front_at_rep:
  assumes "pq_rep q Q" "0 \<le> c" "c < 4" "0 \<le> p" "p < 64"
  shows "Impl_GetFront_at k p c q = Some (first (Q k (nat p) (nat c)) None)"
  using assms dll_front [OF pq_rep_list [of q Q "nat p" "nat c" k]]
  by (simp add: Impl_GetFront_at_def IsValidCore_def IsValidPriority_def NUM_CPU_CORES_def LowestPriority_def
      HighestPriority_def)

text \<open>The lists that the loops of the scheduler walk.\<close>

definition shows_order :: "QueueKind \<Rightarrow> (nat \<Rightarrow> 'a KThread_scheme) \<times> s32 \<times> KPriorityQueue \<Rightarrow> nat list \<Rightarrow> bool" where
  "shows_order k = (\<lambda>(T, c, q) xs. \<exists>S Q. queue_rep T S q Q \<and> (\<forall>m. wf_thread (T m)) \<and> 0 \<le> c \<and> c < 4 \<and> xs = order Q k (nat c))"

definition shows_level :: "s32 \<times> s32 \<times> KPriorityQueue \<Rightarrow> nat list \<Rightarrow> bool" where
  "shows_level = (\<lambda>(p, c, q) xs. \<exists>Q. pq_rep q Q \<and> 0 \<le> c \<and> c < 4 \<and> 0 \<le> p \<and> p < 64 \<and>
     xs = Q Suggested (nat p) (nat c))"

interpretation suggested_walk: thread_walk "shows_order Suggested" "\<lambda>(T, c, q). GetSuggestedFront c q"
  "\<lambda>(T, c, q) m. GetSuggestedNext T c m q"
  by unfold_locales
    (auto simp: shows_order_def GetSuggestedFront_def GetSuggestedNext_def queue_rep_front
      dest!: sym [of "_ @ _ # _"] intro!: queue_rep_next)

interpretation scheduled_walk: thread_walk "shows_order Scheduled" "\<lambda>(T, c, q). GetScheduledFront c q"
  "\<lambda>(T, c, q) m. GetScheduledNext T c m q"
  by unfold_locales
    (auto simp: shows_order_def GetScheduledFront_def GetScheduledNext_def queue_rep_front
      dest!: sym [of "_ @ _ # _"] intro!: queue_rep_next)

interpretation level_walk: thread_walk shows_level "\<lambda>(p, c, q). GetSuggestedFront_at c p q"
  "\<lambda>(p, c, q) m. GetSamePriorityNext c m q"
  by unfold_locales
    (auto simp: shows_level_def GetSuggestedFront_at_def front_at_rep
      dest!: sym [of "_ @ _ # _"] intro!: same_priority_next_rep)

section \<open>Change of core\<close>

lemma absent_removed:
  assumes "pq_rep q Q" "p < 64" "c < 4" "m \<in> set (Q k p c)"
  shows "absent m c (upd Q k p c (remove1 m (Q k p c)))"
proof -
  have "distinct (Q k p c)"
    using pq_rep_list [OF assms(1-3)] by (simp add: dll_def)
  then show ?thesis
    using pq_rep_unique [OF assms(1,3,2) _ assms(4)] by (auto simp: absent_def upd_def)
qed

lemma absent_upd_other: "absent m c Q \<Longrightarrow> c' \<noteq> c \<Longrightarrow> absent m c (upd Q k p c' xs)"
  by (simp add: absent_def upd_def)

text \<open>The lists after a change of core.\<close>

definition leave_core :: "table \<Rightarrow> nat \<Rightarrow> s32 \<Rightarrow> nat \<Rightarrow> table" where
  "leave_core Q p c m = (if 0 \<le> c then upd Q Scheduled p (nat c) (remove1 m (Q Scheduled p (nat c))) else Q)"

definition enter_core :: "table \<Rightarrow> nat \<Rightarrow> s32 \<Rightarrow> bool \<Rightarrow> nat \<Rightarrow> table" where
  "enter_core Q p c to_front m =
     (if 0 \<le> c then
        let Q1 = upd Q Suggested p (nat c) (remove1 m (Q Suggested p (nat c)))
        in upd Q1 Scheduled p (nat c) (if to_front then m # Q1 Scheduled p (nat c) else Q1 Scheduled p (nat c) @ [m])
      else Q)"

definition suggest_core :: "table \<Rightarrow> nat \<Rightarrow> s32 \<Rightarrow> nat \<Rightarrow> table" where
  "suggest_core Q p c m = (if 0 \<le> c then upd Q Suggested p (nat c) (Q Suggested p (nat c) @ [m]) else Q)"

lemma leave_core_rep:
  assumes "pq_rep q Q" "0 \<le> p" "p < 64" "c < 4" "0 \<le> c \<Longrightarrow> m \<in> set (Q Scheduled (nat p) (nat c))"
  obtains q' where "(if 0 \<le> c then Impl_Remove Scheduled p c m q else Some q) = Some q'"
    "pq_rep q' (leave_core Q (nat p) c m)" "0 \<le> c \<Longrightarrow> absent m (nat c) (leave_core Q (nat p) c m)"
proof (cases "0 \<le> c")
  case True
  then show thesis
    using Impl_Remove_rep [OF assms(1-3) True assms(4) assms(5) [OF True]] that assms(3,4)
      absent_removed [OF assms(1) _ _ assms(5) [OF True]] by (auto simp: leave_core_def)
next
  case False
  then show thesis
    using that assms(1) by (simp add: leave_core_def)
qed

lemma enter_core_rep:
  assumes "pq_rep q Q" "0 \<le> p" "p < 64" "c < 4" "0 \<le> c \<Longrightarrow> m \<in> set (Q Suggested (nat p) (nat c))"
  obtains q' where
    "(if 0 \<le> c then do { q2 \<leftarrow> Impl_Remove Suggested p c m q;
        if to_front then Impl_PushFront Scheduled p c m q2 else Impl_PushBack Scheduled p c m q2 } else Some q) = Some q'"
    "pq_rep q' (enter_core Q (nat p) c to_front m)"
proof (cases "0 \<le> c")
  case True
  let ?Q = "upd Q Suggested (nat p) (nat c) (remove1 m (Q Suggested (nat p) (nat c)))"
  obtain q1 where q1: "Impl_Remove Suggested p c m q = Some q1" "pq_rep q1 ?Q"
    using Impl_Remove_rep [OF assms(1-3) True assms(4) assms(5) [OF True]] by blast
  have a: "absent m (nat c) ?Q"
    using absent_removed [OF assms(1) _ _ assms(5) [OF True]] assms(3,4) by simp
  show thesis
  proof (cases to_front)
    case t: True
    show ?thesis
      by (rule Impl_PushFront_rep [OF q1(2) assms(2,3) True assms(4) a, of Scheduled])
        (rule that, use q1(1) True t in \<open>simp_all add: enter_core_def Let_def\<close>)
  next
    case f: False
    show ?thesis
      by (rule Impl_PushBack_rep [OF q1(2) assms(2,3) True assms(4) a, of Scheduled])
        (rule that, use q1(1) True f in \<open>simp_all add: enter_core_def Let_def\<close>)
  qed
next
  case False
  then show thesis
    using that assms(1) by (simp add: enter_core_def)
qed

lemma suggest_core_rep:
  assumes "pq_rep q Q" "0 \<le> p" "p < 64" "c < 4" "0 \<le> c \<Longrightarrow> absent m (nat c) Q"
  obtains q' where "(if 0 \<le> c then Impl_PushBack Suggested p c m q else Some q) = Some q'" "pq_rep q' (suggest_core Q (nat p) c m)"
proof (cases "0 \<le> c")
  case True
  then show thesis
    using Impl_PushBack_rep [OF assms(1-3) True assms(4) assms(5) [OF True], of Suggested] that by (auto simp: suggest_core_def)
next
  case False
  then show thesis
    using that assms(1) by (simp add: suggest_core_def)
qed

definition change_core :: "table \<Rightarrow> nat \<Rightarrow> s32 \<Rightarrow> s32 \<Rightarrow> bool \<Rightarrow> nat \<Rightarrow> table" where
  "change_core Q p prev c to_front m = suggest_core (enter_core (leave_core Q p prev m) p c to_front m) p prev m"

lemma ChangeCore_rep:
  assumes "pq_rep q Q" "\<not> IsDummyThread (T m)" "prev \<noteq> GetActiveCore (T m)" "0 \<le> GetPriority (T m)" "GetPriority (T m) < 64"
    "prev < 4" "GetActiveCore (T m) < 4" "- 1 \<le> prev" "- 1 \<le> GetActiveCore (T m)"
    "0 \<le> prev \<Longrightarrow> m \<in> set (Q Scheduled (nat (GetPriority (T m))) (nat prev))"
    "0 \<le> GetActiveCore (T m) \<Longrightarrow> m \<in> set (Q Suggested (nat (GetPriority (T m))) (nat (GetActiveCore (T m))))"
  obtains q' where "ChangeCore T prev m to_front q = Some q'"
    "pq_rep q' (change_core Q (nat (GetPriority (T m))) prev (GetActiveCore (T m)) to_front m)"
proof -
  let ?p = "GetPriority (T m)" and ?c = "GetActiveCore (T m)"
  obtain q1 where q1: "(if 0 \<le> prev then Impl_Remove Scheduled ?p prev m q else Some q) = Some q1"
      "pq_rep q1 (leave_core Q (nat ?p) prev m)" "0 \<le> prev \<Longrightarrow> absent m (nat prev) (leave_core Q (nat ?p) prev m)"
    using leave_core_rep [OF assms(1,4,5,6,10)] by metis
  have m2: "m \<in> set (leave_core Q (nat ?p) prev m Suggested (nat ?p) (nat ?c))" if "0 \<le> ?c"
    using assms(11) [OF that] by (simp add: leave_core_def upd_def)
  obtain q2 where q2: "(if 0 \<le> ?c then do { q2 \<leftarrow> Impl_Remove Suggested ?p ?c m q1;
        if to_front then Impl_PushFront Scheduled ?p ?c m q2 else Impl_PushBack Scheduled ?p ?c m q2 } else Some q1) = Some q2"
      "pq_rep q2 (enter_core (leave_core Q (nat ?p) prev m) (nat ?p) ?c to_front m)"
    by (rule enter_core_rep [OF q1(2) assms(4,5,7) m2])
  have "absent m (nat prev) (enter_core (leave_core Q (nat ?p) prev m) (nat ?p) ?c to_front m)" if "0 \<le> prev"
    using q1(3) [OF that] that assms(3) by (simp add: enter_core_def Let_def absent_upd_other nat_eq_iff)
  then obtain q3 where "(if 0 \<le> prev then Impl_PushBack Suggested ?p prev m q2 else Some q2) = Some q3"
      "pq_rep q3 (change_core Q (nat ?p) prev ?c to_front m)"
    unfolding change_core_def using suggest_core_rep [OF q2(2) assms(4,5,6)] by metis
  then show thesis
    using that by (simp only: ChangeCore_def Let_def assms(2,3) if_False q1(1) q2(1) Option.bind.bind_lunit)
qed

lemma order_upd_other: "k' \<noteq> k \<or> c' \<noteq> c \<Longrightarrow> order (upd Q k p c xs) k' c' = order Q k' c'"
  by (auto simp: order_def upd_def)

lemma order_upd:
  assumes "p < 64"
  shows "order (upd Q k p c xs) k c = concat (map (\<lambda>p. Q k p c) [0..<p]) @ xs @ concat (map (\<lambda>p. Q k p c) [Suc p..<64])"
proof -
  have "map (\<lambda>p'. upd Q k p c xs k p' c) [0..<p] = map (\<lambda>p. Q k p c) [0..<p]"
    "map (\<lambda>p'. upd Q k p c xs k p' c) [Suc p..<64] = map (\<lambda>p. Q k p c) [Suc p..<64]" "upd Q k p c xs k p c = xs"
    by (auto simp: upd_def)
  then show ?thesis
    unfolding order_split [OF assms] by (simp only:)
qed

lemma order_remove1:
  assumes "pq_rep q Q" "p < 64" "c < 4" "m \<in> set (Q k p c)"
  shows "order (upd Q k p c (remove1 m (Q k p c))) k c = remove1 m (order Q k c)"
proof -
  have "m \<notin> set (concat (map (\<lambda>p. Q k p c) [0..<p]))"
  proof
    assume "m \<in> set (concat (map (\<lambda>p. Q k p c) [0..<p]))"
    then obtain p' where "p' < p" "m \<in> set (Q k p' c)"
      by auto
    then show False
      using pq_rep_unique [OF assms(1,3,2) _ assms(4), of p' k] assms(2) by simp
  qed
  then show ?thesis
    using assms(4) unfolding order_upd [OF assms(2)] order_split [OF assms(2), of Q]
    by (simp only: remove1_append if_False if_True)
qed

lemma order_empty: "order Q k c = [] \<longleftrightarrow> (\<forall>p < 64. Q k p c = [])"
  unfolding order_def by (auto simp: concat_eq_Nil_conv)

lemma order_single:
  assumes "order Q k c = []" "p < 64"
  shows "order (upd Q k p c [m]) k c = [m]"
proof -
  have "concat (map (\<lambda>p. Q k p c) [0..<p]) = []" "concat (map (\<lambda>p. Q k p c) [Suc p..<64]) = []"
    using assms unfolding order_empty by (auto simp: concat_eq_Nil_conv)
  then show ?thesis
    unfolding order_upd [OF assms(2)] by (simp only: append.simps append_Nil2)
qed

lemma order_change_core:
  assumes "pq_rep q Q" "p < 64" "prev < 4" "c < 4" "prev \<noteq> c"
  shows "int c' \<noteq> prev \<Longrightarrow> int c' \<noteq> c \<Longrightarrow> order (change_core Q p prev c to_front m) Scheduled c' = order Q Scheduled c'"
    and "0 \<le> prev \<Longrightarrow> m \<in> set (Q Scheduled p (nat prev)) \<Longrightarrow>
      order (change_core Q p prev c to_front m) Scheduled (nat prev) = remove1 m (order Q Scheduled (nat prev))"
    and "0 \<le> c \<Longrightarrow> order Q Scheduled (nat c) = [] \<Longrightarrow>
      order (change_core Q p prev c to_front m) Scheduled (nat c) = [m]"
proof -
  show "order (change_core Q p prev c to_front m) Scheduled c' = order Q Scheduled c'" if "int c' \<noteq> prev" "int c' \<noteq> c"
    using that by (auto simp: change_core_def suggest_core_def enter_core_def leave_core_def order_upd_other Let_def)
  show "order (change_core Q p prev c to_front m) Scheduled (nat prev) = remove1 m (order Q Scheduled (nat prev))"
    if "0 \<le> prev" "m \<in> set (Q Scheduled p (nat prev))"
    using that assms(3,5) order_remove1 [OF assms(1,2) _ that(2)]
    by (auto simp: change_core_def suggest_core_def enter_core_def leave_core_def order_upd_other Let_def nat_eq_iff)
  show "order (change_core Q p prev c to_front m) Scheduled (nat c) = [m]" if "0 \<le> c" "order Q Scheduled (nat c) = []"
  proof -
    let ?Q = "upd (leave_core Q p prev m) Suggested p (nat c) (remove1 m (leave_core Q p prev m Suggested p (nat c)))"
    have "nat c \<noteq> nat prev \<or> \<not> 0 \<le> prev"
      using that(1) assms(5) by (auto simp: nat_eq_iff)
    then have e: "order ?Q Scheduled (nat c) = []"
      using that(2) by (auto simp: leave_core_def order_upd_other)
    then have "?Q Scheduled p (nat c) = []"
      using assms(2) unfolding order_empty by blast
    then have "enter_core (leave_core Q p prev m) p c to_front m = upd ?Q Scheduled p (nat c) [m]"
      using that(1) by (simp add: enter_core_def Let_def)
    then show ?thesis
      using order_single [OF e assms(2)] by (simp add: change_core_def suggest_core_def order_upd_other)
  qed
qed

lemma change_core_mem_other:
  "m' \<noteq> m \<Longrightarrow> m' \<in> set (change_core Q p prev c to_front m k p' c') \<longleftrightarrow> m' \<in> set (Q k p' c')"
  by (auto simp: change_core_def suggest_core_def enter_core_def leave_core_def upd_def Let_def)

lemma change_core_mem:
  assumes "pq_rep q Q" "p < 64" "p' < 64" "prev < 4" "c < 4" "c' < 4" "prev \<noteq> c" "- 1 \<le> prev" "- 1 \<le> c"
    "0 \<le> prev \<Longrightarrow> m \<in> set (Q Scheduled p (nat prev))" "0 \<le> c \<Longrightarrow> m \<in> set (Q Suggested p (nat c))"
  shows "m \<in> set (change_core Q p prev c to_front m k p' c') \<longleftrightarrow>
    (if int c' = c then k = Scheduled \<and> p' = p else if int c' = prev then k = Suggested \<and> p' = p else m \<in> set (Q k p' c'))"
proof -
  have d: "set (remove1 m (Q k p c')) = set (Q k p c') - {m}" for k
    using pq_rep_list [OF assms(1,2,6), of k] by (simp add: dll_def)
  have u: "m \<notin> set (Q k p' c')" if "m \<in> set (Q k' p c')" "(k, p') \<noteq> (k', p)" for k'
    using pq_rep_unique [OF assms(1,6,2,3) that] .
  consider "int c' = c" | "int c' = prev" "int c' \<noteq> c" | "int c' \<noteq> prev" "int c' \<noteq> c"
    by blast
  then show ?thesis
  proof cases
    case 1
    then have "nat prev \<noteq> c' \<or> \<not> 0 \<le> prev" "nat c = c'" "0 \<le> c"
      using assms(7) by auto
    moreover have "m \<notin> set (Q k p' c')" if "(k, p') \<noteq> (Suggested, p)"
      using u [of Suggested] that assms(11) calculation by simp
    ultimately show ?thesis
      using 1 assms(7) d
      by (cases k) (auto simp: change_core_def suggest_core_def enter_core_def leave_core_def upd_def Let_def)
  next
    case 2
    then have "nat c \<noteq> c' \<or> \<not> 0 \<le> c" "nat prev = c'" "0 \<le> prev"
      by auto
    moreover have "m \<notin> set (Q k p' c')" if "(k, p') \<noteq> (Scheduled, p)"
      using u [of Scheduled] that assms(10) calculation by simp
    ultimately show ?thesis
      using 2 assms(7) d
      by (cases k) (auto simp: change_core_def suggest_core_def enter_core_def leave_core_def upd_def Let_def)
  next
    case 3
    then have "0 \<le> prev \<Longrightarrow> c' \<noteq> nat prev" "0 \<le> c \<Longrightarrow> c' \<noteq> nat c"
      by auto
    then show ?thesis
      using 3 by (simp add: change_core_def suggest_core_def enter_core_def leave_core_def upd_def Let_def)
  qed
qed

text \<open>A thread in the queue moves to a core of its mask or to none.\<close>

lemma ChangeCore_queue:
  assumes rep: "queue_rep T S q Q" and wf: "wf_thread (T m)" "wf_thread ((T m)\<lparr>GetActiveCore := c\<rparr>)"
    and m: "m \<in> S" "\<not> IsDummyThread (T m)" "GetPriority (T m) < 64" "GetActiveCore (T m) \<noteq> c"
  obtains q' where "ChangeCore (T(m := (T m)\<lparr>GetActiveCore := c\<rparr>)) (GetActiveCore (T m)) m to_front q = Some q'"
    "queue_rep (T(m := (T m)\<lparr>GetActiveCore := c\<rparr>)) S q'
       (change_core Q (nat (GetPriority (T m))) (GetActiveCore (T m)) c to_front m)"
proof -
  let ?o = "GetActiveCore (T m)" and ?p = "nat (GetPriority (T m))" and ?T = "T(m := (T m)\<lparr>GetActiveCore := c\<rparr>)"
  let ?Q = "change_core Q ?p ?o c to_front m"
  have pr: "pq_rep q Q"
    using rep by (simp add: queue_rep_def)
  have r: "0 \<le> GetPriority (T m)" "?p < 64" "- 1 \<le> ?o" "?o < 4" "- 1 \<le> c" "c < 4"
    using wf m(3) by (auto simp: wf_thread_def)
  have mem: "m \<in> set (Q k p c') \<longleftrightarrow> thread_place (T m) c' = Some (k, p)" if "p < 64" "c' < 4" for k p c'
    using queue_rep_mem [OF rep that] m(1) by simp
  have old: "m \<in> set (Q Scheduled ?p (nat ?o))" if "0 \<le> ?o"
    using mem [OF r(2), of "nat ?o"] thread_place_eq_Some [OF wf(1), of "nat ?o"] that r m by simp
  have new: "m \<in> set (Q Suggested ?p (nat c))" if "0 \<le> c"
    using mem [OF r(2), of "nat c"] thread_place_eq_Some [OF wf(1), of "nat c"] that r m wf(2) by (simp add: wf_thread_def)
  obtain q' where q': "ChangeCore ?T ?o m to_front q = Some q'" "pq_rep q' ?Q"
    using ChangeCore_rep [OF pr, of ?T m ?o to_front thesis] r m old new by auto
  have self: "m \<in> set (?Q k p c') \<longleftrightarrow> thread_place (?T m) c' = Some (k, p)" if "p < 64" "c' < 4" for k p c'
  proof -
    have p: "GetPriority (T m) = int p \<longleftrightarrow> p = ?p"
      using r(1) by auto
    have "bit (GetAffinityMask (T m)) c'" if "int c' = ?o"
    proof -
      have "nat ?o = c'"
        using that by simp
      then show ?thesis
        using wf(1) that by (simp add: wf_thread_def)
    qed
    then show ?thesis
      using change_core_mem [OF pr r(2) that(1) r(4,6) that(2) m(4) r(3,5) old new, of to_front k]
        mem [OF that, of k] m(2,4) r(2)
      unfolding thread_place_eq_Some [OF wf(1) that(2)] fun_upd_same thread_place_eq_Some [OF wf(2) that(2)]
      by (cases k; cases "int c' = c"; cases "int c' = ?o") (simp_all add: p, auto)
  qed
  have "m' \<in> set (?Q k p c') \<longleftrightarrow> (if m' \<in> S then thread_place (?T m') else (\<lambda>_. None)) c' = Some (k, p)"
    if "p < 64" "c' < 4" for m' k p c'
    using self [OF that] change_core_mem_other [of m' m] queue_rep_mem [OF rep that] m(1) by (cases "m' = m") auto
  then have "tabulates ?Q (\<lambda>m. if m \<in> S then thread_place (?T m) else (\<lambda>_. None))"
    unfolding tabulates_def by blast
  then show thesis
    using that q' by (simp add: queue_rep_def)
qed

end
