(* ===== verification/KPriorityQueueHistory.thy ===== *)
theory KPriorityQueueHistory
  imports KSchedulerQueue
begin

text \<open>
  Histories of the priority queue: from the empty queue, by pushes, removals and changes of priority, mask and core that are
  announced the way the scheduler announces them. In every state that such a history reaches, each core offers exactly the
  queued threads that belong to it, in the order of their priorities.
\<close>

section \<open>Steps\<close>

lemma MoveToScheduledFront_ok:
  assumes "queue_ok threads S q" "m \<in> S" "wf_thread (threads m)" "0 \<le> GetActiveCore (threads m)"
    "GetPriority (threads m) < 64" "\<not> IsDummyThread (threads m)"
  shows "\<exists>q'. MoveToScheduledFront threads m q = Some q' \<and> queue_ok threads S q'"
proof -
  let ?p = "GetPriority (threads m)" and ?c = "GetActiveCore (threads m)"
  let ?L = "\<lambda>m. if m \<in> S then thread_place (threads m) else (\<lambda>_. None)"
  have r: "0 \<le> ?p" "?c < 4"
    using assms(3) by (simp_all add: wf_thread_def)
  obtain Q where Q: "pq_rep q Q" "tabulates Q ?L"
    using assms(1) by (auto simp: queue_ok_def pq_at_def)
  have L: "?L m (nat ?c) = Some (Scheduled, nat ?p)"
    using assms r by (simp add: thread_place_def place_def loc_def LowestPriority_def)
  let ?xs = "Q Scheduled (nat ?p) (nat ?c)"
  have m: "m \<in> set ?xs"
    using place_mem [OF Q L] assms(4,5) r by simp
  let ?ys = "m # remove1 m ?xs"
  obtain q' where q': "Impl_MoveToFront Scheduled ?p ?c m q = Some q'" "pq_rep q' (upd Q Scheduled (nat ?p) (nat ?c) ?ys)"
    using Impl_MoveToFront_rep [OF Q(1) r(1) assms(5,4) r(2) m] by blast
  have "distinct ?xs"
    using pq_rep_list [OF Q(1), of "nat ?p" "nat ?c"] assms(5) r by (simp add: dll_def)
  then have s: "set ?ys = insert m (set ?xs)"
    using m by auto
  have "tabulates (upd Q Scheduled (nat ?p) (nat ?c) ?ys) (set_at ?L m (nat ?c) (Some (Scheduled, nat ?p)))"
    using tabulates_put [OF Q(2) _ _ s] L r by simp
  then have "pq_at q' (set_at ?L m (nat ?c) (Some (Scheduled, nat ?p)))"
    using q'(2) unfolding pq_at_def by blast
  then have "queue_ok threads S q'"
    unfolding queue_ok_def by (rule pq_at_cong) (use L in \<open>auto simp: set_at_def\<close>)
  then show ?thesis
    using q'(1) assms(6) by (simp add: MoveToScheduledFront_def)
qed

text \<open>The threads, the queued ones and the queue.\<close>

type_synonym pq_state = "(nat \<Rightarrow> KThread) \<times> nat set \<times> KPriorityQueue"

inductive pq_step :: "pq_state \<Rightarrow> KPriorityQueue option \<Rightarrow> (nat \<Rightarrow> KThread) \<Rightarrow> nat set \<Rightarrow> bool" where
  push: "m \<notin> S \<Longrightarrow> pq_step (T, S, q) (PQ_PushBack T m q) T (insert m S)"
| remove: "m \<in> S \<Longrightarrow> pq_step (T, S, q) (PQ_Remove T m q) T (S - {m})"
| to_front: "m \<in> S \<Longrightarrow> \<not> IsDummyThread (T m) \<Longrightarrow> 0 \<le> GetActiveCore (T m) \<Longrightarrow> GetPriority (T m) < 64 \<Longrightarrow>
    pq_step (T, S, q) (MoveToScheduledFront T m q) T S"
| to_back: "m \<in> S \<Longrightarrow> \<not> IsDummyThread (T m) \<Longrightarrow> 0 \<le> GetActiveCore (T m) \<Longrightarrow> GetPriority (T m) < 64 \<Longrightarrow>
    pq_step (T, S, q) (map_option snd (MoveToScheduledBack T m q)) T S"
| priority: "m \<in> S \<Longrightarrow> wf_thread ((T m)\<lparr>GetPriority := p\<rparr>) \<Longrightarrow> T' = T(m := (T m)\<lparr>GetPriority := p\<rparr>) \<Longrightarrow>
    pq_step (T, S, q) (ChangePriority T' (GetPriority (T m)) is_running m q) T' S"
| affinity: "m \<in> S \<Longrightarrow> wf_thread th \<Longrightarrow> GetPriority th = GetPriority (T m) \<Longrightarrow> IsDummyThread th = IsDummyThread (T m) \<Longrightarrow>
    T' = T(m := th) \<Longrightarrow>
    pq_step (T, S, q) (ChangeAffinityMask T' (GetActiveCore (T m)) (GetAffinityMask (T m)) m q) T' S"
| core: "m \<in> S \<Longrightarrow> wf_thread ((T m)\<lparr>GetActiveCore := c\<rparr>) \<Longrightarrow> T' = T(m := (T m)\<lparr>GetActiveCore := c\<rparr>) \<Longrightarrow>
    pq_step (T, S, q) (ChangeCore T' (GetActiveCore (T m)) m to_front q) T' S"

definition pq_ok :: "pq_state \<Rightarrow> bool" where
  "pq_ok = (\<lambda>(T, S, q). (\<forall>m. wf_thread (T m)) \<and> queue_ok T S q)"

lemma pq_step_ok:
  assumes "pq_step s r T' S'" "pq_ok s"
  shows "\<exists>q'. r = Some q' \<and> pq_ok (T', S', q')"
  using assms
proof (induction rule: pq_step.induct)
  case (push m S T q)
  then show ?case
    using PQ_PushBack_ok [of T S q m] push by (auto simp: pq_ok_def)
next
  case (remove m S T q)
  then show ?case
    using PQ_Remove_ok [of T S q m] remove by (auto simp: pq_ok_def)
next
  case (to_front m S T q)
  then show ?case
    using MoveToScheduledFront_ok [of T S q m] to_front by (auto simp: pq_ok_def fun_upd_def)
next
  case (to_back m S T q)
  then show ?case
    using MoveToScheduledBack_ok [of T S q m] to_back by (auto simp: pq_ok_def fun_upd_def)
next
  case (priority m S p T T' q is_running)
  then show ?case
    using ChangePriority_ok [of T S q m p is_running] priority by (auto simp: pq_ok_def fun_upd_def)
next
  case (affinity m S th T T' q)
  then show ?case
    using ChangeAffinityMask_ok [of T S q m th] affinity by (auto simp: pq_ok_def fun_upd_def)
next
  case (core m S c T T' q to_front)
  then show ?case
    using ChangeCore_ok [of T S q m c to_front] core by (auto simp: pq_ok_def fun_upd_def)
qed

section \<open>Reachable states\<close>

inductive pq_reachable :: "pq_state \<Rightarrow> bool" where
  start: "\<forall>m. wf_thread (T m) \<Longrightarrow> pq_reachable (T, {}, KPriorityQueue_ctor)"
| step: "pq_reachable s \<Longrightarrow> pq_step s (Some q') T' S' \<Longrightarrow> pq_reachable (T', S', q')"

lemma pq_reachable_ok: "pq_reachable s \<Longrightarrow> pq_ok s"
proof (induction rule: pq_reachable.induct)
  case (start T)
  then show ?case
    using queue_ok_ctor by (simp add: pq_ok_def)
next
  case (step s q' T' S')
  then show ?case
    using pq_step_ok by fastforce
qed

lemma order_sorted:
  assumes "queue_rep T S q Q" "\<And>m. wf_thread (T m)" "c < 4"
  shows "sorted_wrt (\<lambda>a b. GetPriority (T a) \<le> GetPriority (T b)) (order Q k c)"
proof -
  have prio: "GetPriority (T m) = int p" if "m \<in> set (Q k p c)" "p < 64" for m p
    using queue_rep_mem [OF assms(1) that(2) assms(3), of m k] that(1) thread_place_eq_Some [OF assms(2,3)] by simp
  have "sorted_wrt (\<lambda>a b. GetPriority (T a) \<le> GetPriority (T b)) (concat (map (\<lambda>p. Q k p c) ps))"
    if "sorted_wrt (<) ps" "set ps \<subseteq> {0..<64}" for ps
    using that
  proof (induction ps)
    case (Cons p ps)
    have p: "p < 64" "\<And>p'. p' \<in> set ps \<Longrightarrow> p < p' \<and> p' < 64"
      using Cons.prems by auto
    have "sorted_wrt (\<lambda>a b. GetPriority (T a) \<le> GetPriority (T b)) (Q k p c)"
      using prio [OF _ p(1)] by (auto intro: sorted_wrt_mono_rel [of _ "\<lambda>_ _. True"])
    then show ?case
      using Cons p prio by (auto simp: sorted_wrt_append dest!: prio [rotated] p(2))
  qed simp
  moreover have "sorted_wrt (<) [0..<64]" "set [0..<64] \<subseteq> {0..<64}"
    by (simp_all only: sorted_wrt_upt set_upt subset_refl)
  ultimately show ?thesis
    unfolding order_def by blast
qed

text \<open>
  C34. In every reachable state no operation faults, and for each core there is a list of exactly the queued threads that are
  scheduled on the core (or suggested to it), without repetition and ordered by priority, whose first thread
  \<open>GetScheduledFront\<close> returns and which \<open>GetScheduledNext\<close> walks.
\<close>

theorem priority_queue_order:
  assumes "pq_reachable (T, S, q)"
  shows "(\<forall>r T' S'. pq_step (T, S, q) r T' S' \<longrightarrow> r \<noteq> None) \<and>
    (\<forall>c < 4. \<exists>xs. distinct xs \<and> sorted_wrt (\<lambda>a b. GetPriority (T a) \<le> GetPriority (T b)) xs \<and>
       set xs = {m \<in> S. \<not> IsDummyThread (T m) \<and> GetPriority (T m) \<le> LowestPriority \<and> GetActiveCore (T m) = int c} \<and>
       GetScheduledFront (int c) q = Some (case xs of [] \<Rightarrow> None | m # _ \<Rightarrow> Some m) \<and>
       (\<forall>i. Suc i < length xs \<longrightarrow> GetScheduledNext T (int c) (xs ! i) q = Some (Some (xs ! Suc i))) \<and>
       (xs \<noteq> [] \<longrightarrow> GetScheduledNext T (int c) (last xs) q = Some None))"
proof (intro conjI allI impI)
  have ok: "\<And>m. wf_thread (T m)" "queue_ok T S q"
    using pq_reachable_ok [OF assms] by (simp_all add: pq_ok_def)
  show "r \<noteq> None" if "pq_step (T, S, q) r T' S'" for r T' S'
    using pq_step_ok [OF that pq_reachable_ok [OF assms]] by auto
  fix c :: nat
  assume c: "c < 4"
  obtain Q where Q: "queue_rep T S q Q"
    using ok(2) by (auto simp: queue_ok_rep)
  let ?xs = "order Q Scheduled c"
  have nxt: "GetScheduledNext T (int c) m q = Some (first bs None)" if "?xs = as @ m # bs" for as m bs
    using queue_rep_next [OF Q ok(1), of "int c" Scheduled as m bs] that c by (simp add: GetScheduledNext_def)
  have "set ?xs = {m \<in> S. \<not> IsDummyThread (T m) \<and> GetPriority (T m) \<le> LowestPriority \<and> GetActiveCore (T m) = int c}"
  proof (rule set_eqI)
    fix m
    show "m \<in> set ?xs \<longleftrightarrow>
        m \<in> {m \<in> S. \<not> IsDummyThread (T m) \<and> GetPriority (T m) \<le> LowestPriority \<and> GetActiveCore (T m) = int c}"
      unfolding order_mem [OF Q ok(1) [of m] c] by (auto simp: LowestPriority_def)
  qed
  moreover have "GetScheduledFront (int c) q = Some (case ?xs of [] \<Rightarrow> None | m # _ \<Rightarrow> Some m)"
    using queue_rep_front [OF Q, of "int c" Scheduled] c by (simp add: GetScheduledFront_def first_def)
  moreover have "GetScheduledNext T (int c) (?xs ! i) q = Some (Some (?xs ! Suc i))" if "Suc i < length ?xs" for i
    using nxt [of "take i ?xs" "?xs ! i" "drop (Suc i) ?xs"] that id_take_nth_drop [of i ?xs]
      Cons_nth_drop_Suc [of "Suc i" ?xs, symmetric] by simp
  moreover have "GetScheduledNext T (int c) (last ?xs) q = Some None" if "?xs \<noteq> []"
    using nxt [of "butlast ?xs" "last ?xs" "[]"] that by simp
  ultimately show "\<exists>xs. distinct xs \<and> sorted_wrt (\<lambda>a b. GetPriority (T a) \<le> GetPriority (T b)) xs \<and>
       set xs = {m \<in> S. \<not> IsDummyThread (T m) \<and> GetPriority (T m) \<le> LowestPriority \<and> GetActiveCore (T m) = int c} \<and>
       GetScheduledFront (int c) q = Some (case xs of [] \<Rightarrow> None | m # _ \<Rightarrow> Some m) \<and>
       (\<forall>i. Suc i < length xs \<longrightarrow> GetScheduledNext T (int c) (xs ! i) q = Some (Some (xs ! Suc i))) \<and>
       (xs \<noteq> [] \<longrightarrow> GetScheduledNext T (int c) (last xs) q = Some None)"
    using order_distinct [of q Q c Scheduled] order_sorted [OF Q ok(1) c, of Scheduled] Q c
    by (intro exI [of _ ?xs]) (simp add: queue_rep_def)
qed

text \<open>A queue that holds one thread.\<close>

definition sample_pq_threads :: "nat \<Rightarrow> KThread" where
  "sample_pq_threads m = \<lparr>GetPriority = 44, GetActiveCore = 0, GetAffinityMask = 1, IsDummyThread = False\<rparr>"

lemma sample_pq_wf: "wf_thread (sample_pq_threads m)"
  by (auto simp: wf_thread_def sample_pq_threads_def bit_1_iff)

theorem priority_queue_order_witness:
  "\<exists>q. PQ_PushBack sample_pq_threads 7 KPriorityQueue_ctor = Some q \<and> GetScheduledFront 0 q = Some (Some 7) \<and>
     GetScheduledNext sample_pq_threads 0 7 q = Some None"
proof -
  obtain q where q: "PQ_PushBack sample_pq_threads 7 KPriorityQueue_ctor = Some q"
    using PQ_PushBack_ok [of sample_pq_threads "{}" KPriorityQueue_ctor 7, OF queue_ok_ctor sample_pq_wf] by auto
  have "pq_step (sample_pq_threads, {}, KPriorityQueue_ctor) (Some q) sample_pq_threads (insert 7 {})"
    using pq_step.push [of 7 "{}" sample_pq_threads KPriorityQueue_ctor] q by simp
  then have "pq_reachable (sample_pq_threads, {7}, q)"
    using pq_reachable.step [OF pq_reachable.start [of sample_pq_threads]] sample_pq_wf by simp
  from conjunct2 [OF priority_queue_order [OF this]] obtain xs where xs: "distinct xs" "set xs = {7}"
      "GetScheduledFront 0 q = Some (case xs of [] \<Rightarrow> None | m # _ \<Rightarrow> Some m)"
      "xs \<noteq> [] \<longrightarrow> GetScheduledNext sample_pq_threads 0 (last xs) q = Some None"
    by (auto simp: sample_pq_threads_def LowestPriority_def dest!: spec [of _ 0])
  then have "xs = [7]"
    by (cases xs; cases "tl xs") auto
  then show ?thesis
    using q xs(3,4) by simp
qed

end
