(* ===== verification/KSchedulerUpdate.thy ===== *)
theory KSchedulerUpdate
  imports KSchedulerQueue
begin

text \<open>
  Choosing the threads to run: \<open>UpdateHighestPriorityThreads\<close> returns, keeps every runnable thread queued at its place,
  reports every core whose thread changed, and without pinned threads leaves on every core the front of its scheduled
  threads. Idle cores take threads from other cores on the way.
\<close>

section \<open>The invariant of the kernel\<close>

definition runnable :: "KernelCore \<Rightarrow> nat set" where
  "runnable k = {t. GetRawState (m_threads k t) = ThreadState_Runnable}"

definition kernel_rep :: "KernelCore \<Rightarrow> table \<Rightarrow> bool" where
  "kernel_rep k Q \<longleftrightarrow> (\<forall>t. wf_thread (m_threads k t)) \<and> queue_rep (m_threads k) (runnable k) (m_priority_queue k) Q"

text \<open>The runnable threads are the queued ones.\<close>

definition sched_ok :: "KernelCore \<Rightarrow> bool" where
  "sched_ok k \<longleftrightarrow> (\<forall>t. wf_thread (m_threads k t)) \<and> queue_ok (m_threads k) (runnable k) (m_priority_queue k)"

lemma sched_ok_rep: "sched_ok k \<longleftrightarrow> (\<exists>Q. kernel_rep k Q)"
  by (auto simp: sched_ok_def kernel_rep_def queue_ok_rep)

text \<open>The schedule counts of the processes leave room for \<open>n\<close> increments.\<close>

definition counts :: "nat \<Rightarrow> KernelCore \<Rightarrow> bool" where
  "counts n k \<longleftrightarrow> (\<forall>p. - (2 ^ 63) \<le> GetScheduledCount (m_processes k p) \<and> GetScheduledCount (m_processes k p) + int n < 2 ^ 63)"

text \<open>The thread that each core is to run.\<close>

definition hp :: "KernelCore \<Rightarrow> nat \<Rightarrow> nat option" where
  "hp k c = highest_priority_thread (m_schedulers k c)"

text \<open>What the choice of threads does not change, and what it changes only by migrations.\<close>

definition thread_static :: "SchedulerThread \<Rightarrow> s32 \<times> u64 \<times> bool \<times> ThreadState \<times> nat option \<times> s32 \<times> s32" where
  "thread_static th = (GetPriority th, GetAffinityMask th, IsDummyThread th, GetRawState th, GetOwnerProcess th,
     GetNumKernelWaiters th, GetDisableDispatchCount th)"

definition static where
  "static k = (thread_static \<circ> m_threads k, m_pinned_threads \<circ> m_processes k, m_owner_thread k, m_current_thread k,
     m_lock_count k, m_woken_dummy_threads k, m_enabled k)"

definition dynamic where
  "dynamic k = (GetActiveCore \<circ> m_threads k, m_priority_queue k)"

lemma staticD:
  assumes "static k' = static k"
  shows "GetPriority (m_threads k' t) = GetPriority (m_threads k t)"
    "GetAffinityMask (m_threads k' t) = GetAffinityMask (m_threads k t)"
    "IsDummyThread (m_threads k' t) = IsDummyThread (m_threads k t)"
    "GetRawState (m_threads k' t) = GetRawState (m_threads k t)"
    "GetOwnerProcess (m_threads k' t) = GetOwnerProcess (m_threads k t)"
    "GetNumKernelWaiters (m_threads k' t) = GetNumKernelWaiters (m_threads k t)"
    "GetDisableDispatchCount (m_threads k' t) = GetDisableDispatchCount (m_threads k t)"
    "m_pinned_threads (m_processes k' p) = m_pinned_threads (m_processes k p)"
    "m_owner_thread k' = m_owner_thread k" "m_current_thread k' = m_current_thread k"
    "m_lock_count k' = m_lock_count k" "m_woken_dummy_threads k' = m_woken_dummy_threads k" "m_enabled k' = m_enabled k"
  using assms by (auto simp: static_def thread_static_def fun_eq_iff)

lemma dynamicD:
  assumes "dynamic k' = dynamic k"
  shows "GetActiveCore (m_threads k' t) = GetActiveCore (m_threads k t)" "m_priority_queue k' = m_priority_queue k"
  using assms by (auto simp: dynamic_def fun_eq_iff)

lemma kernel_rep_cong:
  assumes "static k' = static k" "dynamic k' = dynamic k"
  shows "kernel_rep k' Q \<longleftrightarrow> kernel_rep k Q"
proof -
  have "wf_thread (m_threads k' t) = wf_thread (m_threads k t)" "thread_place (m_threads k' t) = thread_place (m_threads k t)" for t
    using staticD(1-4) [OF assms(1), of t] dynamicD(1) [OF assms(2), of t] by (simp_all add: wf_thread_def thread_place_def fun_eq_iff)
  moreover have "runnable k' = runnable k"
    using staticD(4) [OF assms(1)] by (simp add: runnable_def)
  ultimately show ?thesis
    using dynamicD(2) [OF assms(2)] by (simp add: kernel_rep_def queue_rep_def cong: if_cong)
qed

section \<open>Counting\<close>

lemma counts_mono:
  assumes "counts m k" "n \<le> m"
  shows "counts n k"
  unfolding counts_def
proof
  fix p
  have "- (2 ^ 63) \<le> GetScheduledCount (m_processes k p)" "GetScheduledCount (m_processes k p) + int m < 2 ^ 63"
    using assms(1) by (simp_all add: counts_def)
  then show "- (2 ^ 63) \<le> GetScheduledCount (m_processes k p) \<and> GetScheduledCount (m_processes k p) + int n < 2 ^ 63"
    using assms(2) by linarith
qed

lemma IncrementScheduledCount_ok:
  assumes "counts (Suc n) k"
  obtains k' where "IncrementScheduledCount t k = Some k'" "counts n k'" "static k' = static k" "dynamic k' = dynamic k"
    "m_schedulers k' = m_schedulers k" "m_threads k' = m_threads k" "m_scheduler_update_needed k' = m_scheduler_update_needed k"
proof (cases "GetOwnerProcess (m_threads k t)")
  case None
  show thesis
    using that None counts_mono [OF assms, of n] by (simp add: IncrementScheduledCount_def)
next
  case (Some p)
  have inc: "s64_add (GetScheduledCount (m_processes k p)) 1 = Some (GetScheduledCount (m_processes k p) + 1)"
    using assms by (auto simp: counts_def s64_add_def s64_range_def dest!: spec [of _ p])
  let ?k = "modify_process p (GetScheduledCount_update (\<lambda>_. GetScheduledCount (m_processes k p) + 1)) k"
  have c: "counts n ?k"
    unfolding counts_def
  proof
    fix p'
    show "- (2 ^ 63) \<le> GetScheduledCount (m_processes ?k p') \<and> GetScheduledCount (m_processes ?k p') + int n < 2 ^ 63"
      using counts_mono [OF assms, of n] assms unfolding counts_def modify_process_def
      by (cases "p' = p") (auto dest: spec [of _ p])
  qed
  have "IncrementScheduledCount t k = Some ?k"
    using Some inc by (simp add: IncrementScheduledCount_def)
  then show thesis
    by (rule that) (use c in \<open>auto simp: modify_process_def static_def dynamic_def fun_eq_iff\<close>)
qed

lemma UpdateHighestPriorityThread_ok:
  assumes "counts (Suc n) k" "core < 4"
  obtains mask k' where "UpdateHighestPriorityThread core h k = Some (mask, k')"
    "mask = (if hp k core \<noteq> h then push_bit core 1 else 0)" "hp k' = (hp k)(core := h)" "counts n k'"
    "static k' = static k" "dynamic k' = dynamic k" "m_scheduler_update_needed k' = m_scheduler_update_needed k"
proof (cases "hp k core = h")
  case True
  then have "(hp k)(core := h) = hp k"
    by auto
  then show thesis
    using that [of 0 k] True assms counts_mono [OF assms(1), of n]
    by (simp add: UpdateHighestPriorityThread_def Scheduler_def NUM_CPU_CORES_def hp_def)
next
  case False
  let ?s = "m_schedulers k core"
  let ?first = "case highest_priority_thread ?s of None \<Rightarrow> Some k
      | Some t \<Rightarrow> do { k1 \<leftarrow> IncrementScheduledCount t k;
                      Some (modify_thread t (GetLastScheduledTick_update (\<lambda>_. m_clock_ticks k1)) k1) }"
  obtain k1 where k1: "?first = Some k1" "counts n k1" "static k1 = static k" "dynamic k1 = dynamic k"
      "m_schedulers k1 = m_schedulers k" "m_scheduler_update_needed k1 = m_scheduler_update_needed k"
  proof (cases "highest_priority_thread ?s")
    case None
    then show thesis
      using that counts_mono [OF assms(1), of n] by simp
  next
    case (Some t)
    obtain k1 where k1: "IncrementScheduledCount t k = Some k1" "counts n k1" "static k1 = static k" "dynamic k1 = dynamic k"
        "m_schedulers k1 = m_schedulers k" "m_scheduler_update_needed k1 = m_scheduler_update_needed k"
      using IncrementScheduledCount_ok [OF assms(1), of t] by metis
    show thesis
      by (rule that [of "modify_thread t (GetLastScheduledTick_update (\<lambda>_. m_clock_ticks k1)) k1"])
        (use Some k1 in \<open>auto simp: modify_thread_def counts_def static_def thread_static_def dynamic_def fun_eq_iff\<close>)
  qed
  let ?k2 = "if should_count_idle ?s then case h of
        Some t \<Rightarrow> (case GetOwnerProcess (m_threads k1 t) of
           Some p \<Rightarrow> modify_process p (SetRunningThread core (Some t) (idle_count ?s) 0) k1 | None \<Rightarrow> k1)
      | None \<Rightarrow> modify_scheduler core (idle_count_update (\<lambda>n. n + 1)) k1
      else k1"
  let ?k3 = "modify_scheduler core (\<lambda>s. s\<lparr>highest_priority_thread := h, needs_scheduling := True\<rparr>) ?k2"
  have k3: "hp ?k3 = (hp k)(core := h)" "counts n ?k3" "static ?k3 = static k1" "dynamic ?k3 = dynamic k1"
      "m_scheduler_update_needed ?k3 = m_scheduler_update_needed k1"
    using k1(2,5)
    by (auto simp: hp_def fun_eq_iff modify_scheduler_def modify_process_def SetRunningThread_def counts_def static_def
        dynamic_def split: option.splits)
  have "UpdateHighestPriorityThread core h k = Some (push_bit core 1, ?k3)"
    using False k1(1) assms(2) unfolding UpdateHighestPriorityThread_def
    by (simp add: Scheduler_def NUM_CPU_CORES_def hp_def Let_def)
  then show thesis
    by (rule that) (use False k3 k1(3,4,6) in simp_all)
qed

section \<open>The first pass\<close>

definition unpinned :: "KernelCore \<Rightarrow> bool" where
  "unpinned k \<longleftrightarrow> (\<forall>p c. m_pinned_threads (m_processes k p) c = None)"

text \<open>
  The invariant of the two passes, with the kernel at the start, the room left in the counts and the cores done so far: the
  queue is intact, the top threads are those the cores are to run, every change is in the mask, and without pinned threads
  the top threads are the fronts.
\<close>

definition upd_inv :: "KernelCore \<Rightarrow> nat \<Rightarrow> nat set \<Rightarrow> table \<Rightarrow> update_state \<Rightarrow> bool" where
  "upd_inv k0 n D Q u \<longleftrightarrow>
     kernel_rep (u_kernel u) Q \<and> static (u_kernel u) = static k0 \<and> counts n (u_kernel u) \<and>
     length (top_threads u) = 4 \<and> D \<subseteq> {..<4} \<and> (\<forall>c \<in> D. top_threads u ! c = hp (u_kernel u) c) \<and>
     (\<forall>c < 4. hp (u_kernel u) c \<noteq> hp k0 c \<longrightarrow> bit (cores_needing_scheduling u) c) \<and>
     (unpinned k0 \<longrightarrow> (\<forall>c \<in> D. hp (u_kernel u) c = first (order Q Scheduled c) None))"

lemma update_highest_ok:
  assumes "counts (Suc n) (u_kernel u)" "core < 4" "length (top_threads u) = 4"
  obtains u' where "update_highest core t u = Some u'" "top_threads u' = (top_threads u)[core := t]"
    "hp (u_kernel u') = (hp (u_kernel u))(core := t)" "counts n (u_kernel u')"
    "static (u_kernel u') = static (u_kernel u)" "dynamic (u_kernel u') = dynamic (u_kernel u)" "idle_cores u' = idle_cores u"
    "\<And>c. c < 4 \<Longrightarrow> bit (cores_needing_scheduling u') c \<longleftrightarrow>
       bit (cores_needing_scheduling u) c \<or> (c = core \<and> hp (u_kernel u) core \<noteq> t)"
proof -
  obtain mask k where k: "UpdateHighestPriorityThread core t (u_kernel u) = Some (mask, k)"
      "mask = (if hp (u_kernel u) core \<noteq> t then push_bit core 1 else 0)" "hp k = (hp (u_kernel u))(core := t)" "counts n k"
      "static k = static (u_kernel u)" "dynamic k = dynamic (u_kernel u)"
    using UpdateHighestPriorityThread_ok [OF assms(1,2)] by metis
  have "bit mask c \<longleftrightarrow> c = core \<and> hp (u_kernel u) core \<noteq> t" if "c < 4" for c
    using that by (auto simp: k(2) bit_simps)
  then show thesis
    using that k assms(2,3) by (simp add: update_highest_def bit_or_iff)
qed

text \<open>Choosing the thread \<open>t\<close> for a core keeps the invariant when \<open>t\<close> is the front.\<close>

lemma update_highest_inv:
  assumes "upd_inv k0 (Suc n) D Q u" "core < 4" "unpinned k0 \<Longrightarrow> t = first (order Q Scheduled core) None"
  obtains u' where "update_highest core t u = Some u'" "upd_inv k0 n (insert core D) Q u'"
    "idle_cores u' = idle_cores u" "dynamic (u_kernel u') = dynamic (u_kernel u)" "static (u_kernel u') = static (u_kernel u)"
    "top_threads u' = (top_threads u)[core := t]"
proof -
  have u: "kernel_rep (u_kernel u) Q" "static (u_kernel u) = static k0" "counts (Suc n) (u_kernel u)"
      "length (top_threads u) = 4" "D \<subseteq> {..<4}" "\<forall>c \<in> D. top_threads u ! c = hp (u_kernel u) c"
      "\<forall>c < 4. hp (u_kernel u) c \<noteq> hp k0 c \<longrightarrow> bit (cores_needing_scheduling u) c"
      "unpinned k0 \<longrightarrow> (\<forall>c \<in> D. hp (u_kernel u) c = first (order Q Scheduled c) None)"
    using assms(1) by (simp_all add: upd_inv_def)
  obtain u' where u': "update_highest core t u = Some u'" "top_threads u' = (top_threads u)[core := t]"
      "hp (u_kernel u') = (hp (u_kernel u))(core := t)" "counts n (u_kernel u')"
      "static (u_kernel u') = static (u_kernel u)" "dynamic (u_kernel u') = dynamic (u_kernel u)" "idle_cores u' = idle_cores u"
      "\<And>c. c < 4 \<Longrightarrow> bit (cores_needing_scheduling u') c \<longleftrightarrow>
         bit (cores_needing_scheduling u) c \<or> (c = core \<and> hp (u_kernel u) core \<noteq> t)"
    using update_highest_ok [OF u(3) assms(2) u(4)] by metis
  have "kernel_rep (u_kernel u') Q"
    using u(1) kernel_rep_cong [OF u'(5,6)] by simp
  moreover have "top_threads u' ! c = hp (u_kernel u') c" if "c \<in> insert core D" for c
    using that u(4,5,6) assms(2) by (auto simp: u'(2,3) nth_list_update)
  moreover have "bit (cores_needing_scheduling u') c" if "c < 4" "hp (u_kernel u') c \<noteq> hp k0 c" for c
    using that u(7) u'(3,8) by (auto split: if_splits)
  moreover have "hp (u_kernel u') c = first (order Q Scheduled c) None" if "unpinned k0" "c \<in> insert core D" for c
    using that u(8) assms(3) u'(3) by auto
  ultimately have "upd_inv k0 n (insert core D) Q u'"
    using u(2,4,5) u'(2,4,5) assms(2) by (simp add: upd_inv_def)
  then show thesis
    using that [OF u'(1)] u'(2,5,6,7) by simp
qed

lemma consider_pinned_ok:
  assumes "0 \<le> c" "c < 4"
  obtains x where "consider_pinned c t k = Some x" "unpinned k \<Longrightarrow> x = Some t"
proof (cases "GetOwnerProcess (m_threads k t)")
  case None
  then show thesis
    using that by (simp add: consider_pinned_def)
next
  case (Some p)
  have pin: "GetPinnedThread c (m_processes k p) = Some (m_pinned_threads (m_processes k p) (nat c))"
    using assms by (simp add: GetPinnedThread_def NUM_CPU_CORES_def)
  show thesis
  proof (cases "m_pinned_threads (m_processes k p) (nat c)")
    case None
    then show thesis
      using that Some pin by (simp add: consider_pinned_def)
  next
    case (Some a)
    then have "\<not> unpinned k"
      unfolding unpinned_def by (metis option.distinct(1))
    then show thesis
      using that \<open>GetOwnerProcess (m_threads k t) = Some p\<close> pin Some by (simp add: consider_pinned_def)
  qed
qed

lemma unpinned_static: "static k' = static k \<Longrightarrow> unpinned k' = unpinned k"
  unfolding unpinned_def using staticD(8) [of k' k] by simp

lemma upd_inv_idle: "upd_inv k0 n D Q (u\<lparr>idle_cores := i\<rparr>) = upd_inv k0 n D Q u"
  by (simp add: upd_inv_def)

lemma select_top_ok:
  assumes "upd_inv k0 (Suc n) D Q u" "0 \<le> c" "c < 4"
  obtains u' where "select_top c u = Some u'" "upd_inv k0 n (insert (nat c) D) Q u'"
    "\<And>i. bit (idle_cores u') i \<longleftrightarrow> bit (idle_cores u) i \<or> i = nat c \<and> order Q Scheduled i = []"
proof -
  let ?xs = "order Q Scheduled (nat c)"
  have front: "GetScheduledFront c (m_priority_queue (u_kernel u)) = Some (first ?xs None)"
    using assms by (auto simp: upd_inv_def kernel_rep_def GetScheduledFront_def intro: queue_rep_front)
  have c: "nat c < 4"
    using assms by simp
  show thesis
  proof (cases ?xs)
    case Nil
    let ?u = "u\<lparr>idle_cores := idle_cores u OR push_bit (nat c) 1\<rparr>"
    obtain u' where u': "update_highest (nat c) None ?u = Some u'" "upd_inv k0 n (insert (nat c) D) Q u'"
        "idle_cores u' = idle_cores ?u"
      using update_highest_inv [of k0 n D Q ?u "nat c" None] assms(1) c Nil upd_inv_idle by (metis first_simps(1))
    have "bit (idle_cores u') i \<longleftrightarrow> bit (idle_cores u) i \<or> i = nat c" for i
      using c by (auto simp: u'(3) bit_simps)
    then show thesis
      using that [OF _ u'(2)] u'(1) front Nil by (auto simp: select_top_def)
  next
    case (Cons t ts)
    obtain x where x: "consider_pinned c t (u_kernel u) = Some x" "unpinned (u_kernel u) \<Longrightarrow> x = Some t"
      using consider_pinned_ok [OF assms(2,3)] by metis
    have "static (u_kernel u) = static k0"
      using assms(1) by (simp add: upd_inv_def)
    then have "unpinned k0 \<Longrightarrow> x = first ?xs None"
      using x(2) Cons unpinned_static [of "u_kernel u" k0] by simp
    then obtain u' where u': "update_highest (nat c) x u = Some u'" "upd_inv k0 n (insert (nat c) D) Q u'"
        "idle_cores u' = idle_cores u"
      by (rule update_highest_inv [OF assms(1) c])
    have "select_top c u = Some u'"
      using u'(1) front Cons x(1) by (simp add: select_top_def)
    then show thesis
      by (rule that [OF _ u'(2)]) (use u'(3) Cons in auto)
  qed
qed

lemma first_pass_ok:
  assumes "upd_inv k0 (n + 4) {} Q u" "idle_cores u = 0"
  obtains u' where "for_each select_top [0..NUM_CPU_CORES - 1] u = Some u'" "upd_inv k0 n {..<4} Q u'"
    "\<And>i. bit (idle_cores u') i \<longleftrightarrow> i < 4 \<and> order Q Scheduled i = []"
proof -
  have cs: "[0..NUM_CPU_CORES - 1] = [0, 1, 2, 3]"
    by code_simp
  obtain u1 where u1: "select_top 0 u = Some u1" "upd_inv k0 (n + 3) {0} Q u1"
      "\<And>i. bit (idle_cores u1) i \<longleftrightarrow> bit (idle_cores u) i \<or> i = 0 \<and> order Q Scheduled i = []"
    using select_top_ok [of k0 "n + 3" "{}" Q u 0] assms(1) by (auto simp: numeral_eq_Suc)
  obtain u2 where u2: "select_top 1 u1 = Some u2" "upd_inv k0 (n + 2) {0, 1} Q u2"
      "\<And>i. bit (idle_cores u2) i \<longleftrightarrow> bit (idle_cores u1) i \<or> i = 1 \<and> order Q Scheduled i = []"
    using select_top_ok [of k0 "n + 2" "{0}" Q u1 1] u1(2) by (auto simp: numeral_eq_Suc insert_commute)
  obtain u3 where u3: "select_top 2 u2 = Some u3" "upd_inv k0 (n + 1) {0, 1, 2} Q u3"
      "\<And>i. bit (idle_cores u3) i \<longleftrightarrow> bit (idle_cores u2) i \<or> i = 2 \<and> order Q Scheduled i = []"
    using select_top_ok [of k0 "n + 1" "{0, 1}" Q u2 2] u2(2) by (auto simp: numeral_eq_Suc insert_commute)
  obtain u4 where u4: "select_top 3 u3 = Some u4" "upd_inv k0 n {0, 1, 2, 3} Q u4"
      "\<And>i. bit (idle_cores u4) i \<longleftrightarrow> bit (idle_cores u3) i \<or> i = 3 \<and> order Q Scheduled i = []"
    using select_top_ok [of k0 n "{0, 1, 2}" Q u3 3] u3(2) by (auto simp: numeral_eq_Suc insert_commute)
  have "{0, 1, 2, 3} = {..<4 :: nat}"
    by auto
  then have inv: "upd_inv k0 n {..<4} Q u4"
    using u4(2) by simp
  have "for_each select_top [0..NUM_CPU_CORES - 1] u = Some u4"
    using u1(1) u2(1) u3(1) u4(1) by (simp only: cs for_each.simps Option.bind.bind_lunit)
  then show thesis
    by (rule that [OF _ inv]) (simp only: u1(3) u2(3) u3(3) u4(3) assms(2), auto)
qed

section \<open>Migration\<close>

lemma static_active_core: "static (modify_thread t (GetActiveCore_update f) k) = static k"
  by (auto simp: static_def thread_static_def modify_thread_def fun_eq_iff)

lemma kernel_repD: "kernel_rep k Q \<Longrightarrow> wf_thread (m_threads k t)"
  "kernel_rep k Q \<Longrightarrow> queue_rep (m_threads k) (runnable k) (m_priority_queue k) Q"
  "kernel_rep k Q \<Longrightarrow> pq_rep (m_priority_queue k) Q"
  by (simp_all add: kernel_rep_def queue_rep_def)

lemma wf_active_core:
  "wf_thread th \<Longrightarrow> bit (GetAffinityMask th) (nat c) \<Longrightarrow> 0 \<le> c \<Longrightarrow> wf_thread (th\<lparr>GetActiveCore := c\<rparr>)"
  by (auto simp: wf_thread_def)

lemma migrate_ok:
  assumes "kernel_rep k Q" "t \<in> runnable k" "\<not> IsDummyThread (m_threads k t)" "GetPriority (m_threads k t) < 64"
    "GetActiveCore (m_threads k t) \<noteq> c" "wf_thread ((m_threads k t)\<lparr>GetActiveCore := c\<rparr>)"
  obtains k' where "migrate c t to_front k = Some k'"
    "kernel_rep k' (change_core Q (nat (GetPriority (m_threads k t))) (GetActiveCore (m_threads k t)) c to_front t)"
    "static k' = static k" "m_schedulers k' = m_schedulers k" "m_processes k' = m_processes k"
    "m_threads k' = (m_threads k)(t := (m_threads k t)\<lparr>GetActiveCore := c\<rparr>)"
proof -
  let ?k = "modify_thread t (GetActiveCore_update (\<lambda>_. c)) k"
  have T: "m_threads ?k = (m_threads k)(t := (m_threads k t)\<lparr>GetActiveCore := c\<rparr>)" "m_priority_queue ?k = m_priority_queue k"
    by (auto simp: modify_thread_def)
  let ?Q = "change_core Q (nat (GetPriority (m_threads k t))) (GetActiveCore (m_threads k t)) c to_front t"
  obtain q' where q': "ChangeCore (m_threads ?k) (GetActiveCore (m_threads k t)) t to_front (m_priority_queue k) = Some q'"
      "queue_rep (m_threads ?k) (runnable k) q' ?Q"
    unfolding T(1)
    using ChangeCore_queue [OF kernel_repD(2) [OF assms(1)] kernel_repD(1) [OF assms(1)] assms(6,2-5)] by metis
  have "runnable ?k = runnable k"
    by (auto simp: runnable_def modify_thread_def)
  moreover have "wf_thread (m_threads ?k t')" for t'
    using kernel_repD(1) [OF assms(1)] assms(6) by (simp add: T(1))
  ultimately have "kernel_rep (?k\<lparr>m_priority_queue := q'\<rparr>) ?Q"
    using q'(2) by (simp add: kernel_rep_def runnable_def)
  moreover have "static (?k\<lparr>m_priority_queue := q'\<rparr>) = static k"
    using static_active_core [of t "\<lambda>_. c" k] by (simp add: static_def)
  ultimately show thesis
    using that [of "?k\<lparr>m_priority_queue := q'\<rparr>"] q'(1) T by (simp add: migrate_def Let_def modify_thread_def)
qed

lemma suggested_thread:
  assumes "kernel_rep k Q" "t \<in> set (order Q Suggested (nat c))" "0 \<le> c" "c < 4"
  shows "t \<in> runnable k" "\<not> IsDummyThread (m_threads k t)" "GetPriority (m_threads k t) < 64"
    "GetActiveCore (m_threads k t) \<noteq> c" "wf_thread ((m_threads k t)\<lparr>GetActiveCore := c\<rparr>)"
    "- 1 \<le> GetActiveCore (m_threads k t)" "GetActiveCore (m_threads k t) < 4"
proof -
  note m = order_mem [OF kernel_repD(2) [OF assms(1)] kernel_repD(1) [OF assms(1)], of "nat c" t Suggested]
  have c: "nat c < 4"
    using assms by simp
  show r: "t \<in> runnable k" "\<not> IsDummyThread (m_threads k t)" "GetPriority (m_threads k t) < 64"
      "GetActiveCore (m_threads k t) \<noteq> c"
    using m assms(2,3) c by auto
  show "wf_thread ((m_threads k t)\<lparr>GetActiveCore := c\<rparr>)"
    using m assms(2,3) c kernel_repD(1) [OF assms(1)] by (intro wf_active_core) auto
  show "- 1 \<le> GetActiveCore (m_threads k t)" "GetActiveCore (m_threads k t) < 4"
    using kernel_repD(1) [OF assms(1), of t] by (simp_all add: wf_thread_def)
qed

lemma first_remove1: "first xs None \<noteq> Some t \<Longrightarrow> first (remove1 t xs) None = first xs None"
  by (cases xs) auto

lemma scheduled_list_mem:
  assumes "kernel_rep k Q" "t \<in> runnable k" "\<not> IsDummyThread (m_threads k t)" "GetPriority (m_threads k t) < 64"
    "0 \<le> GetActiveCore (m_threads k t)"
  shows "t \<in> set (Q Scheduled (nat (GetPriority (m_threads k t))) (nat (GetActiveCore (m_threads k t))))"
proof -
  have "wf_thread (m_threads k t)"
    using kernel_repD(1) [OF assms(1)] .
  then show ?thesis
    using queue_rep_mem [OF kernel_repD(2) [OF assms(1)], of "nat (GetPriority (m_threads k t))" "nat (GetActiveCore (m_threads k t))" t Scheduled]
      thread_place_eq_Some [of "m_threads k t" "nat (GetActiveCore (m_threads k t))"] assms(2-5)
    by (simp add: wf_thread_def)
qed

text \<open>The scheduled threads after the migration of a thread to an idle core.\<close>

lemma order_migrate:
  fixes to_front :: bool
  assumes "kernel_rep k Q" "t \<in> runnable k" "\<not> IsDummyThread (m_threads k t)" "GetPriority (m_threads k t) < 64"
    "GetActiveCore (m_threads k t) \<noteq> c" "0 \<le> c" "c < 4" "order Q Scheduled (nat c) = []"
  defines "Q' \<equiv> change_core Q (nat (GetPriority (m_threads k t))) (GetActiveCore (m_threads k t)) c to_front t"
  shows "order Q' Scheduled (nat c) = [t]"
    and "c' < 4 \<Longrightarrow> c' \<noteq> nat c \<Longrightarrow> order Q' Scheduled c' =
      (if int c' = GetActiveCore (m_threads k t) then remove1 t (order Q Scheduled c') else order Q Scheduled c')"
proof -
  have p: "nat (GetPriority (m_threads k t)) < 64" "GetActiveCore (m_threads k t) < 4"
    using kernel_repD(1) [OF assms(1), of t] assms(4) by (simp_all add: wf_thread_def)
  note o = order_change_core [OF kernel_repD(3) [OF assms(1)] p assms(7,5), where to_front = to_front and m = t]
  show "order Q' Scheduled (nat c) = [t]"
    unfolding Q'_def using o(3) assms(6,8) .
  show "order Q' Scheduled c' =
      (if int c' = GetActiveCore (m_threads k t) then remove1 t (order Q Scheduled c') else order Q Scheduled c')"
    if c': "c' < 4" "c' \<noteq> nat c"
  proof (cases "int c' = GetActiveCore (m_threads k t)")
    case True
    then have "nat (GetActiveCore (m_threads k t)) = c'" "0 \<le> GetActiveCore (m_threads k t)"
      by auto
    then show ?thesis
      unfolding Q'_def using o(2) scheduled_list_mem [OF assms(1-4)] True by simp
  next
    case False
    then show ?thesis
      unfolding Q'_def using o(1) c' by auto
  qed
qed

section \<open>The second pass\<close>

text \<open>The invariant without the claim on the fronts.\<close>

definition upd_base :: "KernelCore \<Rightarrow> nat \<Rightarrow> table \<Rightarrow> update_state \<Rightarrow> bool" where
  "upd_base k0 n Q u \<longleftrightarrow>
     kernel_rep (u_kernel u) Q \<and> static (u_kernel u) = static k0 \<and> counts n (u_kernel u) \<and>
     length (top_threads u) = 4 \<and> (\<forall>c < 4. top_threads u ! c = hp (u_kernel u) c) \<and>
     (\<forall>c < 4. hp (u_kernel u) c \<noteq> hp k0 c \<longrightarrow> bit (cores_needing_scheduling u) c)"

lemma upd_inv_base:
  "upd_inv k0 n {..<4} Q u \<longleftrightarrow>
     upd_base k0 n Q u \<and> (unpinned k0 \<longrightarrow> (\<forall>c < 4. hp (u_kernel u) c = first (order Q Scheduled c) None))"
  by (auto simp: upd_inv_def upd_base_def)

lemma upd_base_mono: "upd_base k0 m Q u \<Longrightarrow> n \<le> m \<Longrightarrow> upd_base k0 n Q u"
  using counts_mono by (auto simp: upd_base_def)

lemma update_highest_base:
  assumes "upd_base k0 (Suc n) Q u" "core < 4"
  obtains u' where "update_highest core t u = Some u'" "upd_base k0 n Q u'"
    "hp (u_kernel u') = (hp (u_kernel u))(core := t)" "dynamic (u_kernel u') = dynamic (u_kernel u)"
    "static (u_kernel u') = static (u_kernel u)"
proof -
  have u: "kernel_rep (u_kernel u) Q" "static (u_kernel u) = static k0" "counts (Suc n) (u_kernel u)"
      "length (top_threads u) = 4" "\<forall>c < 4. top_threads u ! c = hp (u_kernel u) c"
      "\<forall>c < 4. hp (u_kernel u) c \<noteq> hp k0 c \<longrightarrow> bit (cores_needing_scheduling u) c"
    using assms(1) by (simp_all add: upd_base_def)
  obtain u' where u': "update_highest core t u = Some u'" "top_threads u' = (top_threads u)[core := t]"
      "hp (u_kernel u') = (hp (u_kernel u))(core := t)" "counts n (u_kernel u')"
      "static (u_kernel u') = static (u_kernel u)" "dynamic (u_kernel u') = dynamic (u_kernel u)"
      "\<And>c. c < 4 \<Longrightarrow> bit (cores_needing_scheduling u') c \<longleftrightarrow>
         bit (cores_needing_scheduling u) c \<or> (c = core \<and> hp (u_kernel u) core \<noteq> t)"
    using update_highest_ok [OF u(3) assms(2) u(4)] by metis
  have "kernel_rep (u_kernel u') Q"
    using u(1) kernel_rep_cong [OF u'(5,6)] by simp
  moreover have "bit (cores_needing_scheduling u') c" if "c < 4" "hp (u_kernel u') c \<noteq> hp k0 c" for c
    using that u(6) u'(3,7) by (auto split: if_splits)
  ultimately have "upd_base k0 n Q u'"
    using u(2,4,5) u'(2-5) assms(2) by (simp add: upd_base_def nth_list_update)
  then show thesis
    using that u' by blast
qed

text \<open>What filling the idle core \<open>c\<close> achieves.\<close>

definition filled :: "KernelCore \<Rightarrow> nat \<Rightarrow> table \<Rightarrow> nat \<Rightarrow> update_state \<Rightarrow> bool" where
  "filled k0 n Q c u \<longleftrightarrow> (\<exists>Q'. upd_inv k0 n {..<4} Q' u \<and>
     (\<forall>c' < 4. c' \<noteq> c \<longrightarrow> order Q Scheduled c' = [] \<longrightarrow> order Q' Scheduled c' = []))"

lemma filledI:
  assumes "upd_inv k0 n {..<4} Q' u" "\<And>c'. c' < 4 \<Longrightarrow> c' \<noteq> c \<Longrightarrow> order Q Scheduled c' = [] \<Longrightarrow> order Q' Scheduled c' = []"
  shows "filled k0 n Q c u"
  unfolding filled_def using assms by blast

lemma filled_self: "upd_inv k0 m {..<4} Q u \<Longrightarrow> n \<le> m \<Longrightarrow> filled k0 n Q c u"
  unfolding filled_def upd_inv_base using upd_base_mono by blast

text \<open>An idle core takes a thread.\<close>

lemma adopt_ok:
  assumes base: "upd_base k0 (Suc n) Q u" and c: "0 \<le> c" "c < 4" "order Q Scheduled (nat c) = []"
    and t: "t \<in> set (order Q Suggested (nat c))"
    and fronts: "\<And>c'. unpinned k0 \<Longrightarrow> c' < 4 \<Longrightarrow> c' \<noteq> nat c \<Longrightarrow> hp (u_kernel u) c' =
      first (if int c' = GetActiveCore (m_threads (u_kernel u) t) then remove1 t (order Q Scheduled c') else order Q Scheduled c') None"
  obtains k u' where "migrate c t False (u_kernel u) = Some k"
    "update_highest (nat c) (Some t) (u\<lparr>u_kernel := k\<rparr>) = Some u'" "filled k0 n Q (nat c) u'"
proof -
  have rep: "kernel_rep (u_kernel u) Q"
    using base by (simp add: upd_base_def)
  note s = suggested_thread [OF rep t c(1,2)]
  let ?Q = "change_core Q (nat (GetPriority (m_threads (u_kernel u) t))) (GetActiveCore (m_threads (u_kernel u) t)) c False t"
  obtain k where k: "migrate c t False (u_kernel u) = Some k" "kernel_rep k ?Q" "static k = static (u_kernel u)"
      "m_schedulers k = m_schedulers (u_kernel u)" "m_processes k = m_processes (u_kernel u)"
    by (rule migrate_ok [OF rep s(1-5), of False])
  note o = order_migrate [OF rep s(1-4) c, where to_front = False]
  have "hp k = hp (u_kernel u)" "counts (Suc n) k"
    using k(4,5) base by (auto simp: hp_def counts_def upd_base_def)
  then have b: "upd_base k0 (Suc n) ?Q (u\<lparr>u_kernel := k\<rparr>)"
    using base k(2,3) by (simp add: upd_base_def)
  have nc: "nat c < 4"
    using c(2) by simp
  obtain u' where u': "update_highest (nat c) (Some t) (u\<lparr>u_kernel := k\<rparr>) = Some u'" "upd_base k0 n ?Q u'"
      "hp (u_kernel u') = (hp k)(nat c := Some t)"
    by (rule update_highest_base [OF b nc, of "Some t"]) (rule that, simp_all)
  have "hp (u_kernel u') c' = first (order ?Q Scheduled c') None" if "unpinned k0" "c' < 4" for c'
    using that o fronts [OF that] \<open>hp k = hp (u_kernel u)\<close> u'(3) by (cases "c' = nat c") simp_all
  then have "upd_inv k0 n {..<4} ?Q u'"
    using u'(2) by (simp add: upd_inv_base)
  moreover have "order ?Q Scheduled c' = []" if "c' < 4" "c' \<noteq> nat c" "order Q Scheduled c' = []" for c'
    using o(2) [OF that(1,2)] that(3) by simp
  ultimately show thesis
    using that [OF k(1) u'(1)] filledI by blast
qed

text \<open>The cores noted as candidates: each runs a suggested thread.\<close>

definition candidates_ok :: "nat \<Rightarrow> table \<Rightarrow> update_state \<Rightarrow> nat list \<Rightarrow> s32 list \<Rightarrow> bool" where
  "candidates_ok c Q u vs cs \<longleftrightarrow> cs = map (\<lambda>t. GetActiveCore (m_threads (u_kernel u) t)) vs \<and>
     (\<forall>t \<in> set vs. t \<in> set (order Q Suggested c) \<and> 0 \<le> GetActiveCore (m_threads (u_kernel u) t) \<and>
        GetActiveCore (m_threads (u_kernel u) t) < 4 \<and> GetActiveCore (m_threads (u_kernel u) t) \<noteq> int c \<and>
        top_threads u ! nat (GetActiveCore (m_threads (u_kernel u) t)) = Some t)"

lemma candidates_bound:
  assumes "candidates_ok c Q u vs cs" "distinct vs" "c < 4"
  shows "length cs < 4"
proof -
  let ?core = "\<lambda>t. GetActiveCore (m_threads (u_kernel u) t)"
  have "inj_on ?core (set vs)"
    using assms(1) by (intro inj_onI) (metis candidates_ok_def option.inject)
  then have "card (?core ` set vs) = length cs"
    using assms(1,2) by (simp add: card_image candidates_ok_def distinct_card)
  moreover have "?core ` set vs \<subseteq> {0..<4} - {int c}"
    using assms(1) by (auto simp: candidates_ok_def)
  then have "card (?core ` set vs) \<le> card ({0..<4 :: int} - {int c})"
    by (rule card_mono [rotated]) simp
  ultimately show ?thesis
    using assms(3) by (simp add: card_Diff_singleton_if)
qed

lemma migrate_suggested_ok:
  assumes inv: "upd_inv k0 (n + 2) {..<4} Q u" and c: "0 \<le> c" "c < 4" "order Q Scheduled (nat c) = []"
    and xs: "order Q Suggested (nat c) = vs @ t # ws" and cs: "candidates_ok (nat c) Q u vs cs"
  shows "\<exists>r. migrate_suggested_body c t (cs, u) = Some r \<and>
    (case r of Inl (x, cs', u') \<Rightarrow> x \<noteq> None \<and> filled k0 n Q (nat c) u'
     | Inr (cs', u') \<Rightarrow> u' = u \<and> candidates_ok (nat c) Q u (vs @ [t]) cs')"
proof -
  have base: "upd_base k0 (Suc n) Q u" and rep: "kernel_rep (u_kernel u) Q"
    and fronts: "unpinned k0 \<Longrightarrow> c' < 4 \<Longrightarrow> hp (u_kernel u) c' = first (order Q Scheduled c') None" for c'
    using inv upd_base_mono [of k0 "n + 2" Q u "Suc n"] by (auto simp: upd_inv_base upd_base_def)
  have tops: "length (top_threads u) = 4" "\<And>c'. c' < 4 \<Longrightarrow> top_threads u ! c' = hp (u_kernel u) c'"
    using base by (auto simp: upd_base_def)
  have t: "t \<in> set (order Q Suggested (nat c))"
    using xs by simp
  note s = suggested_thread [OF rep t c(1,2)]
  let ?a = "GetActiveCore (m_threads (u_kernel u) t)"
  define tp where "tp = (if 0 \<le> ?a then top_threads u ! nat ?a else None)"
  have tp: "(if ?a \<ge> 0 then array_get (top_threads u) (nat ?a) else Some None) = Some tp"
    using s(7) tops(1) by (simp add: tp_def)
  show ?thesis
  proof (cases "tp = Some t")
    case True
    then have a: "0 \<le> ?a" "top_threads u ! nat ?a = Some t"
      by (auto simp: tp_def split: if_splits)
    then have ok: "candidates_ok (nat c) Q u (vs @ [t]) (cs @ [?a])"
      using cs s(4,7) t c(1) by (auto simp: candidates_ok_def)
    have "distinct (vs @ [t])"
      using order_distinct [OF kernel_repD(3) [OF rep], of "nat c" Suggested] xs c(2) by auto
    moreover have "nat c < 4"
      using c(2) by simp
    ultimately have "length cs < nat NUM_CPU_CORES"
      using candidates_bound [OF ok] by (simp add: NUM_CPU_CORES_def)
    then show ?thesis
      using True tp ok by (auto simp: migrate_suggested_body_def Let_def)
  next
    case False
    show ?thesis
    proof (cases "too_high tp (u_kernel u)")
      case True
      then show ?thesis
        using False tp filled_self [OF inv, of n "nat c"] by (auto simp: migrate_suggested_body_def Let_def)
    next
      case th: False
      have "hp (u_kernel u) c' =
          first (if int c' = ?a then remove1 t (order Q Scheduled c') else order Q Scheduled c') None"
        if "unpinned k0" "c' < 4" for c'
      proof (cases "int c' = ?a")
        case True
        then have "nat ?a = c'" "0 \<le> ?a"
          by auto
        then show ?thesis
          using True fronts [OF that] tops(2) [OF that(2)] False first_remove1 [of "order Q Scheduled c'" t]
          by (simp add: tp_def)
      qed (use fronts [OF that] in simp)
      then obtain k u' where "migrate c t False (u_kernel u) = Some k"
          "update_highest (nat c) (Some t) (u\<lparr>u_kernel := k\<rparr>) = Some u'" "filled k0 n Q (nat c) u'"
        using adopt_ok [OF base c t] by metis
      then show ?thesis
        using False th tp by (auto simp: migrate_suggested_body_def Let_def)
    qed
  qed
qed

lemma candidate_next:
  assumes "kernel_rep k Q" "t \<in> runnable k" "\<not> IsDummyThread (m_threads k t)" "GetPriority (m_threads k t) < 64"
    "GetActiveCore (m_threads k t) = c" "0 \<le> c" "c < 4"
  obtains as bs where "order Q Scheduled (nat c) = as @ t # bs"
    "GetScheduledNext (m_threads k) c t (m_priority_queue k) = Some (first bs None)"
proof -
  have "t \<in> set (order Q Scheduled (nat c))"
    using order_mem [OF kernel_repD(2) [OF assms(1)] kernel_repD(1) [OF assms(1)], of "nat c" t Scheduled] assms by simp
  then obtain as bs where xs: "order Q Scheduled (nat c) = as @ t # bs"
    by (meson split_list)
  then show thesis
    using that queue_rep_next [OF kernel_repD(2) [OF assms(1)] kernel_repD(1) [OF assms(1)] assms(6,7) xs]
    by (simp add: GetScheduledNext_def)
qed

lemma migrate_candidate_ok:
  assumes inv: "upd_inv k0 (n + 2) {..<4} Q u" and c: "0 \<le> c" "c < 4" "order Q Scheduled (nat c) = []"
    and cs: "candidates_ok (nat c) Q u vs cs"
  shows "\<exists>u'. migrate_candidate_loop c cs u = Some u' \<and> filled k0 n Q (nat c) u'"
  using cs
proof (induction vs arbitrary: cs)
  case Nil
  then show ?case
    using filled_self [OF inv, of n] by (simp add: candidates_ok_def)
next
  case (Cons t vs)
  let ?k = "u_kernel u"
  let ?a = "GetActiveCore (m_threads ?k t)"
  obtain cs' where cs': "cs = ?a # cs'" "candidates_ok (nat c) Q u vs cs'"
    using Cons.prems by (auto simp: candidates_ok_def)
  have t: "t \<in> set (order Q Suggested (nat c))" "0 \<le> ?a" "?a < 4" "?a \<noteq> c" "top_threads u ! nat ?a = Some t"
    using Cons.prems c(1) by (auto simp: candidates_ok_def)
  have base: "upd_base k0 (Suc (Suc n)) Q u" and rep: "kernel_rep ?k Q" and len: "length (top_threads u) = 4"
    and tops: "\<And>c'. c' < 4 \<Longrightarrow> top_threads u ! c' = hp ?k c'"
    and fronts: "unpinned k0 \<Longrightarrow> c' < 4 \<Longrightarrow> hp ?k c' = first (order Q Scheduled c') None" for c'
    using inv by (auto simp: upd_inv_base upd_base_def)
  note s = suggested_thread [OF rep t(1) c(1,2)]
  have na: "nat ?a < 4"
    using t(3) by simp
  obtain as bs where xs: "order Q Scheduled (nat ?a) = as @ t # bs"
      "GetScheduledNext (m_threads ?k) ?a t (m_priority_queue ?k) = Some (first bs None)"
    using candidate_next [OF rep s(1-3) refl t(2,3)] by blast
  show ?case
  proof (cases bs)
    case Nil
    then show ?thesis
      using Cons.IH [OF cs'(2)] xs(2) t(3,5) len by (simp add: cs'(1))
  next
    case bs: (Cons t' bs')
    obtain u1 where u1: "update_highest (nat ?a) (Some t') u = Some u1" "upd_base k0 (Suc n) Q u1"
        "hp (u_kernel u1) = (hp ?k)(nat ?a := Some t')" "dynamic (u_kernel u1) = dynamic ?k" "static (u_kernel u1) = static ?k"
      by (rule update_highest_base [OF base na, of "Some t'"])
    have a1: "GetActiveCore (m_threads (u_kernel u1) t) = ?a"
      using dynamicD(1) [OF u1(4)] .
    have as: "as = []" if "unpinned k0"
      using fronts [OF that na] tops [OF na] t(5) xs(1)
        order_distinct [OF kernel_repD(3) [OF rep] na, of Scheduled] by (cases as) auto
    have f: "hp (u_kernel u1) c' =
        first (if int c' = GetActiveCore (m_threads (u_kernel u1) t) then remove1 t (order Q Scheduled c') else order Q Scheduled c') None"
      if "unpinned k0" "c' < 4" for c'
    proof (cases "int c' = ?a")
      case True
      then have "nat ?a = c'"
        by auto
      then show ?thesis
        using True as [OF that(1)] xs(1) bs unfolding a1 u1(3) by simp
    next
      case False
      then have "c' \<noteq> nat ?a"
        using t(2) by auto
      then show ?thesis
        using False fronts [OF that] unfolding a1 u1(3) by simp
    qed
    obtain k2 u2 where "migrate c t False (u_kernel u1) = Some k2"
        "update_highest (nat c) (Some t) (u1\<lparr>u_kernel := k2\<rparr>) = Some u2" "filled k0 n Q (nat c) u2"
      by (rule adopt_ok [OF u1(2) c t(1) f])
    then show ?thesis
      using xs(2) bs t(3,5) len u1(1) by (simp add: cs'(1))
  qed
qed

lemma fill_idle_core_ok:
  assumes inv: "upd_inv k0 (n + 2) {..<4} Q u" and c: "0 \<le> c" "c < 4" "order Q Scheduled (nat c) = []"
  shows "\<exists>u'. fill_idle_core c u = Some u' \<and> filled k0 n Q (nat c) u'"
proof -
  let ?obs = "\<lambda>(cs :: s32 list, u). (m_threads (u_kernel u), c, m_priority_queue (u_kernel u))"
  let ?R = "\<lambda>x (cs, u'). if x = None then u' = u \<and> (\<exists>vs. candidates_ok (nat c) Q u vs cs) else filled k0 n Q (nat c) u'"
  have rep: "kernel_rep (u_kernel u) Q"
    using inv by (simp add: upd_inv_base upd_base_def)
  obtain x cs u1 where r: "do { t \<leftarrow> (case ?obs ([], u) of (T, c, q) \<Rightarrow> GetSuggestedFront c q);
      suggested_loop (migrate_suggested_body c) (\<lambda>s. case ?obs s of (T, c, q) \<Rightarrow> \<lambda>m. GetSuggestedNext T c m q) t ([], u) }
      = Some (x, cs, u1)" "?R x (cs, u1)"
  proof (rule suggested_walk.loop [where obs = ?obs and q = "?obs ([], u)" and xs = "order Q Suggested (nat c)" and R = ?R
        and I = "\<lambda>vs (cs, u'). u' = u \<and> candidates_ok (nat c) Q u vs cs" and s = "([], u)" and body = "migrate_suggested_body c"])
    show "shows_order Suggested (?obs ([], u)) (order Q Suggested (nat c))"
      using rep c(1,2) by (auto simp: shows_order_def kernel_rep_def)
    show "\<exists>r. migrate_suggested_body c t s = Some r \<and> (case r of Inl (x, s') \<Rightarrow> ?R x s'
        | Inr s' \<Rightarrow> case s' of (cs, u') \<Rightarrow> u' = u \<and> candidates_ok (nat c) Q u (vs @ [t]) cs)"
      if "order Q Suggested (nat c) = vs @ t # ws" "case s of (cs, u') \<Rightarrow> u' = u \<and> candidates_ok (nat c) Q u vs cs" for vs t ws s
      using migrate_suggested_ok [OF inv c that(1)] that(2) by (fastforce split: sum.splits prod.splits)
    show "?R None s" if "case s of (cs, u') \<Rightarrow> u' = u \<and> candidates_ok (nat c) Q u (order Q Suggested (nat c)) cs" for s
      using that by auto
  qed (auto simp: candidates_ok_def)
  have eq: "(\<lambda>s. case ?obs s of (T, c, q) \<Rightarrow> \<lambda>m. GetSuggestedNext T c m q) =
      (\<lambda>(_, u) t. GetSuggestedNext (m_threads (u_kernel u)) c t (m_priority_queue (u_kernel u)))"
    by auto
  have "fill_idle_core c u = (if x = None then migrate_candidate_loop c cs u1 else Some u1)"
    using r(1) unfolding fill_idle_core_def eq by (auto simp: bind_eq_Some_conv)
  then show ?thesis
    using r(2) migrate_candidate_ok [OF inv c] by (cases x) auto
qed

lemma second_pass_ok:
  assumes "upd_inv k0 (n + 2 * length cs) {..<4} Q u" "distinct cs"
    "\<And>c. c \<in> set cs \<Longrightarrow> 0 \<le> c \<and> c < 4 \<and> order Q Scheduled (nat c) = []"
  shows "\<exists>u' Q'. for_each fill_idle_core cs u = Some u' \<and> upd_inv k0 n {..<4} Q' u'"
  using assms
proof (induction cs arbitrary: u Q)
  case (Cons c cs)
  have inv: "upd_inv k0 (n + 2 * length cs + 2) {..<4} Q u" and c: "0 \<le> c" "c < 4" "order Q Scheduled (nat c) = []"
    using Cons.prems(1) Cons.prems(3) [of c] by (simp_all add: algebra_simps)
  obtain u1 Q1 where u1: "fill_idle_core c u = Some u1" "upd_inv k0 (n + 2 * length cs) {..<4} Q1 u1"
      "\<forall>c' < 4. c' \<noteq> nat c \<longrightarrow> order Q Scheduled c' = [] \<longrightarrow> order Q1 Scheduled c' = []"
    using fill_idle_core_ok [OF inv c] by (auto simp: filled_def)
  have "0 \<le> c' \<and> c' < 4 \<and> order Q1 Scheduled (nat c') = []" if "c' \<in> set cs" for c'
  proof -
    have "nat c' \<noteq> nat c"
      using that Cons.prems(2) Cons.prems(3) [of c'] c(1) by (auto simp: nat_eq_iff)
    moreover have "nat c' < 4"
      using that Cons.prems(3) [of c'] by auto
    ultimately show ?thesis
      using that Cons.prems(3) [of c'] u1(3) by simp
  qed
  then show ?case
    using Cons.IH [OF u1(2)] Cons.prems(2) u1(1) by simp
qed auto

section \<open>The whole update\<close>

lemma WakeupWaitingDummyThreads_ok:
  assumes "IsLockedByCurrentThread k" "\<forall>t \<in> set (m_woken_dummy_threads k). IsDummyThread (m_threads k t)"
  obtains k' where "WakeupWaitingDummyThreads k = Some k'" "m_woken_dummy_threads k' = []" "dynamic k' = dynamic k"
    "static k' = static (k\<lparr>m_woken_dummy_threads := []\<rparr>)" "hp k' = hp k" "m_processes k' = m_processes k"
    "m_scheduler_update_needed k' = m_scheduler_update_needed k"
proof -
  have "\<exists>k'. for_each DummyThreadEndWait (m_woken_dummy_threads k) k = Some k' \<and>
      (\<lambda>_ k'. dynamic k' = dynamic k \<and> static k' = static k \<and> hp k' = hp k \<and> m_processes k' = m_processes k \<and>
         m_scheduler_update_needed k' = m_scheduler_update_needed k) (m_woken_dummy_threads k) k'"
  proof (rule for_each_total)
    fix t k1
    assume "t \<in> set (m_woken_dummy_threads k)"
      and k1: "dynamic k1 = dynamic k \<and> static k1 = static k \<and> hp k1 = hp k \<and> m_processes k1 = m_processes k \<and>
         m_scheduler_update_needed k1 = m_scheduler_update_needed k"
    then have "IsLockedByCurrentThread k1" "IsDummyThread (m_threads k1 t)"
      using assms staticD [of k1 k] by (auto simp: IsLockedByCurrentThread_def)
    then show "\<exists>k'. DummyThreadEndWait t k1 = Some k' \<and> dynamic k' = dynamic k \<and> static k' = static k \<and> hp k' = hp k \<and>
        m_processes k' = m_processes k \<and> m_scheduler_update_needed k' = m_scheduler_update_needed k"
      using k1
      by (auto simp: DummyThreadEndWait_def modify_thread_def dynamic_def static_def thread_static_def hp_def fun_eq_iff)
  qed simp
  then obtain k1 where k1: "for_each DummyThreadEndWait (m_woken_dummy_threads k) k = Some k1" "dynamic k1 = dynamic k"
      "static k1 = static k" "hp k1 = hp k" "m_processes k1 = m_processes k"
      "m_scheduler_update_needed k1 = m_scheduler_update_needed k"
    by blast
  show thesis
    by (rule that [of "k1\<lparr>m_woken_dummy_threads := []\<rparr>"])
      (use k1 assms(1) in \<open>simp_all add: WakeupWaitingDummyThreads_def dynamic_def static_def hp_def fun_eq_iff\<close>)
qed

text \<open>The front of the threads of a core has the best priority.\<close>

lemma front_best:
  assumes "kernel_rep k Q" "c < 4" "t \<in> set (order Q kind c)"
  obtains t' where "first (order Q kind c) None = Some t'" "GetPriority (m_threads k t') \<le> GetPriority (m_threads k t)"
    "t' \<in> set (order Q kind c)"
proof -
  have prio: "GetPriority (m_threads k t) = int p" if "t \<in> set (Q kind p c)" "p < 64" for t p
    using queue_rep_mem [OF kernel_repD(2) [OF assms(1)] that(2) assms(2), of t kind] that(1)
      thread_place_eq_Some [OF kernel_repD(1) [OF assms(1)] assms(2), of t kind p] by simp
  obtain p where p: "p < 64" "t \<in> set (Q kind p c)"
    using assms(3) unfolding mem_order by blast
  define p0 where "p0 = (LEAST p. Q kind p c \<noteq> [])"
  have ne: "Q kind p c \<noteq> []"
    using p(2) by auto
  have p0: "Q kind p0 c \<noteq> []" "p0 \<le> p"
    unfolding p0_def using ne by (rule LeastI, rule Least_le)
  have "Q kind p' c = []" if "p' < p0" for p'
    using not_less_Least [of p' "\<lambda>p. Q kind p c \<noteq> []"] that unfolding p0_def by blast
  then have f: "first (order Q kind c) None = first (Q kind p0 c) None"
    unfolding order_def using p0 p(1) by (intro first_concat) simp_all
  obtain t' xs where t': "Q kind p0 c = t' # xs"
    using p0(1) by (cases "Q kind p0 c") auto
  then have "t' \<in> set (Q kind p0 c)" "p0 < 64"
    using p0(2) p(1) by simp_all
  moreover from this have "t' \<in> set (order Q kind c)"
    unfolding mem_order by blast
  ultimately show thesis
    using that f t' prio [OF p(2,1)] prio [of t' p0] p0(2) by simp
qed

lemma UpdateHighestPriorityThreadsImpl_ok:
  assumes "kernel_rep k Q" "IsLockedByCurrentThread k" "\<forall>t \<in> set (m_woken_dummy_threads k). IsDummyThread (m_threads k t)"
    "counts (n + 12) k"
  obtains mask k' Q' where "UpdateHighestPriorityThreadsImpl k = Some (mask, k')" "kernel_rep k' Q'"
    "\<forall>c < 4. hp k' c \<noteq> hp k c \<longrightarrow> bit mask c"
    "unpinned k \<longrightarrow> (\<forall>c < 4. hp k' c = first (order Q' Scheduled c) None)" "counts n k'"
    "static k' = static (k\<lparr>m_woken_dummy_threads := []\<rparr>)"
proof -
  let ?k = "ClearSchedulerUpdateNeeded k"
  let ?u = "\<lparr>cores_needing_scheduling = 0, idle_cores = 0, top_threads = replicate (nat NUM_CPU_CORES) None, u_kernel = ?k\<rparr>"
  have k: "static ?k = static k" "dynamic ?k = dynamic k" "hp ?k = hp k" "counts (n + 12) ?k"
    using assms(4) by (auto simp: ClearSchedulerUpdateNeeded_def static_def dynamic_def hp_def counts_def)
  have inv0: "upd_inv k ((n + 8) + 4) {} Q ?u"
    using k assms(1) kernel_rep_cong [OF k(1,2)] by (simp add: upd_inv_def NUM_CPU_CORES_def add.commute)
  obtain u1 where u1: "for_each select_top [0..NUM_CPU_CORES - 1] ?u = Some u1" "upd_inv k (n + 8) {..<4} Q u1"
      "\<And>i. bit (idle_cores u1) i \<longleftrightarrow> i < 4 \<and> order Q Scheduled i = []"
    using first_pass_ok [OF inv0] by auto
  let ?cs = "map int (filter (bit (idle_cores u1)) [0..<64])"
  have cs: "0 \<le> c \<and> c < 4 \<and> order Q Scheduled (nat c) = []" if "c \<in> set ?cs" for c
    using that unfolding core_list_iff u1(3) by auto
  have "card (set ?cs) \<le> card {0..<4 :: int}"
    by (rule card_mono) (simp, rule subsetI, use cs in \<open>simp only: atLeastLessThan_iff\<close>)
  then have len: "length ?cs \<le> 4"
    using distinct_card [OF distinct_cores] by (simp only: card_atLeastLessThan_int)
  then have "n + 2 * length ?cs \<le> n + 8"
    by linarith
  then have "upd_inv k (n + 2 * length ?cs) {..<4} Q u1"
    using u1(2) upd_base_mono [of k "n + 8" Q u1 "n + 2 * length ?cs"] unfolding upd_inv_base by blast
  then obtain u2 Q' where u2: "for_each fill_idle_core ?cs u1 = Some u2" "upd_inv k n {..<4} Q' u2"
    using second_pass_ok [OF _ distinct_cores cs] by blast
  have b: "kernel_rep (u_kernel u2) Q'" "static (u_kernel u2) = static k" "counts n (u_kernel u2)"
      "\<And>c. c < 4 \<Longrightarrow> hp (u_kernel u2) c \<noteq> hp k c \<Longrightarrow> bit (cores_needing_scheduling u2) c"
      "\<And>c. unpinned k \<Longrightarrow> c < 4 \<Longrightarrow> hp (u_kernel u2) c = first (order Q' Scheduled c) None"
    using u2(2) by (auto simp: upd_inv_base upd_base_def)
  have l2: "IsLockedByCurrentThread (u_kernel u2)"
    "\<forall>t \<in> set (m_woken_dummy_threads (u_kernel u2)). IsDummyThread (m_threads (u_kernel u2) t)"
    using assms(2,3) staticD(3,9,10,12) [OF b(2)] by (simp_all add: IsLockedByCurrentThread_def)
  obtain k2 where k2: "WakeupWaitingDummyThreads (u_kernel u2) = Some k2" "dynamic k2 = dynamic (u_kernel u2)"
      "static k2 = static ((u_kernel u2)\<lparr>m_woken_dummy_threads := []\<rparr>)" "hp k2 = hp (u_kernel u2)"
      "m_processes k2 = m_processes (u_kernel u2)"
    by (rule WakeupWaitingDummyThreads_ok [OF l2])
  have s2: "static k2 = static (k\<lparr>m_woken_dummy_threads := []\<rparr>)"
    using k2(3) b(2) by (simp add: static_def fun_eq_iff)
  have l3: "IsLockedByCurrentThread k2"
    using l2(1) staticD(9,10) [OF k2(3)] by (simp add: IsLockedByCurrentThread_def)
  let ?cur = "m_current_thread k2"
  obtain k3 where k3: "(if IsDummyThread (m_threads k2 ?cur) \<and> GetState (m_threads k2 ?cur) \<noteq> ThreadState_Runnable
        then RequestDummyThreadWait ?cur k2 else Some k2) = Some k3"
      "dynamic k3 = dynamic k2" "static k3 = static k2" "hp k3 = hp k2" "m_processes k3 = m_processes k2"
  proof (cases "IsDummyThread (m_threads k2 ?cur) \<and> GetState (m_threads k2 ?cur) \<noteq> ThreadState_Runnable")
    case True
    let ?k3 = "modify_thread ?cur (m_dummy_thread_runnable_update (\<lambda>_. False)) k2"
    have "dynamic ?k3 = dynamic k2" "static ?k3 = static k2" "hp ?k3 = hp k2" "m_processes ?k3 = m_processes k2"
      by (simp_all add: modify_thread_def dynamic_def static_def thread_static_def hp_def fun_eq_iff)
    then show thesis
      using that [of ?k3] True l3 by (simp add: RequestDummyThreadWait_def)
  next
    case False
    show thesis
      using that [of k2] False by (simp only: if_False)
  qed
  have impl: "UpdateHighestPriorityThreadsImpl k = Some (cores_needing_scheduling u2, k3)"
    unfolding UpdateHighestPriorityThreadsImpl_def for_affinity_for_each
    using assms(2) u1(1) u2(1) k2(1) k3(1) by (simp add: Let_def del: upto_rec_numeral)
  have "kernel_rep k3 Q'"
  proof -
    let ?w = "(u_kernel u2)\<lparr>m_woken_dummy_threads := []\<rparr>"
    have "kernel_rep ?w Q'"
      using b(1) by (simp add: kernel_rep_def runnable_def)
    moreover have "static k3 = static ?w" "dynamic k3 = dynamic ?w"
      using k2(2,3) k3(2,3) by (simp_all add: dynamic_def)
    ultimately show ?thesis
      using kernel_rep_cong [of k3 ?w] by simp
  qed
  then show thesis
    by (rule that [OF impl]) (use b(3-5) k2(4,5) k3(3-5) s2 in \<open>auto simp: counts_def\<close>)
qed

text \<open>
  C32. Under the scheduler lock, with the runnable threads queued and room in the schedule counts,
  \<open>UpdateHighestPriorityThreadsImpl\<close> returns: no assertion fails (the candidate array does not overflow) and every loop
  ends. The runnable threads stay queued at their places although threads migrate to idle cores, every core whose thread
  changes is in the returned mask, and when no thread is pinned, each core is left with the front of its scheduled threads,
  which has the best priority of all runnable threads of the core.
\<close>

theorem UpdateHighestPriorityThreads_correct:
  assumes "sched_ok k" "IsLockedByCurrentThread k" "\<forall>t \<in> set (m_woken_dummy_threads k). IsDummyThread (m_threads k t)"
    "counts 12 k"
  shows "\<exists>mask k'. UpdateHighestPriorityThreadsImpl k = Some (mask, k') \<and> sched_ok k' \<and>
    (\<forall>c < 4. hp k' c \<noteq> hp k c \<longrightarrow> bit mask c) \<and>
    (unpinned k \<longrightarrow> (\<forall>c < 4. GetScheduledFront (int c) (m_priority_queue k') = Some (hp k' c) \<and>
       (\<forall>t \<in> runnable k'. \<not> IsDummyThread (m_threads k' t) \<and> GetActiveCore (m_threads k' t) = int c \<and>
          GetPriority (m_threads k' t) < 64 \<longrightarrow>
          (\<exists>t'. hp k' c = Some t' \<and> GetPriority (m_threads k' t') \<le> GetPriority (m_threads k' t)))))"
proof -
  obtain Q where Q: "kernel_rep k Q"
    using assms(1) by (auto simp: sched_ok_rep)
  have n: "counts (0 + 12) k"
    using assms(4) by simp
  obtain mask k' Q' where k': "UpdateHighestPriorityThreadsImpl k = Some (mask, k')" "kernel_rep k' Q'"
      "\<forall>c < 4. hp k' c \<noteq> hp k c \<longrightarrow> bit mask c"
      "unpinned k \<longrightarrow> (\<forall>c < 4. hp k' c = first (order Q' Scheduled c) None)"
      "counts 0 k'" "static k' = static (k\<lparr>m_woken_dummy_threads := []\<rparr>)"
    by (rule UpdateHighestPriorityThreadsImpl_ok [OF Q assms(2,3) n])
  have front: "GetScheduledFront (int c) (m_priority_queue k') = Some (hp k' c)" if "unpinned k" "c < 4" for c
    using queue_rep_front [OF kernel_repD(2) [OF k'(2)], of "int c" Scheduled] k'(4) that
    by (simp add: GetScheduledFront_def)
  have best: "\<exists>t'. hp k' c = Some t' \<and> GetPriority (m_threads k' t') \<le> GetPriority (m_threads k' t)"
    if "unpinned k" "c < 4" "t \<in> runnable k'" "\<not> IsDummyThread (m_threads k' t)" "GetActiveCore (m_threads k' t) = int c"
      "GetPriority (m_threads k' t) < 64" for c t
  proof -
    have "t \<in> set (order Q' Scheduled c)"
      using order_mem [OF kernel_repD(2) [OF k'(2)] kernel_repD(1) [OF k'(2)] that(2), of t Scheduled] that(3-6) by simp
    then show ?thesis
      using front_best [OF k'(2) that(2)] k'(4) that(1,2) by metis
  qed
  show ?thesis
    using k'(1-3) front best by (intro exI [of _ mask] exI [of _ k']) (auto simp: sched_ok_rep)
qed

text \<open>A kernel with one runnable thread, scheduled on core 0 and suggested to core 1.\<close>

definition sample_threads :: "nat \<Rightarrow> SchedulerThread" where
  "sample_threads t =
     \<lparr>GetPriority = 44, GetActiveCore = 0, GetAffinityMask = 3, IsDummyThread = False,
      GetRawState = (if t = 1 then 2 else 0), GetOwnerProcess = None, GetLastScheduledTick = 0, GetYieldScheduleCount = 0,
      GetNumKernelWaiters = 0, GetDisableDispatchCount = 1, m_dummy_thread_runnable = True\<rparr>"

definition sample_kernel :: KernelCore where
  "sample_kernel =
     \<lparr>m_threads = sample_threads,
      m_processes = (\<lambda>_. \<lparr>GetScheduledCount = 0, m_pinned_threads = (\<lambda>_. None), m_running_threads = (\<lambda>_. None),
        m_running_thread_idle_counts = (\<lambda>_. 0), m_running_thread_switch_counts = (\<lambda>_. 0)\<rparr>),
      m_schedulers = (\<lambda>_. \<lparr>needs_scheduling = True, interrupt_task_runnable = False, should_count_idle = False,
        idle_count = 0, highest_priority_thread = None, prev_thread = None\<rparr>),
      m_scheduler_update_needed = True,
      m_priority_queue = the (PQ_PushBack sample_threads 1 KPriorityQueue_ctor),
      m_woken_dummy_threads = [], m_lock_count = 1, m_owner_thread = Some 0, m_current_thread = 0, m_clock_ticks = 0,
      m_enabled = []\<rparr>"

lemma bit_three: "bit (3 :: int) i \<longleftrightarrow> i < 2"
proof -
  have eq: "(3 :: int) = mask 2"
    by (simp add: mask_eq_exp_minus_1)
  show ?thesis
    unfolding eq by (simp add: bit_mask_iff)
qed

lemma sample_thread_wf: "wf_thread (sample_threads t)"
  by (auto simp: wf_thread_def sample_threads_def bit_three)

lemma sample_kernel_ok: "sched_ok sample_kernel" "IsLockedByCurrentThread sample_kernel" "counts n sample_kernel = (int n < 2 ^ 63)"
  "unpinned sample_kernel"
proof -
  obtain q where "PQ_PushBack sample_threads 1 KPriorityQueue_ctor = Some q" "queue_ok sample_threads {1} q"
    using PQ_PushBack_ok [of sample_threads "{}" KPriorityQueue_ctor 1, OF queue_ok_ctor sample_thread_wf] by auto
  moreover have "runnable sample_kernel = {1}"
    by (auto simp: runnable_def sample_kernel_def sample_threads_def ThreadState_Runnable_def)
  ultimately show "sched_ok sample_kernel"
    by (simp add: sched_ok_def sample_kernel_def sample_thread_wf)
qed (auto simp: sample_kernel_def IsLockedByCurrentThread_def counts_def unpinned_def)

theorem UpdateHighestPriorityThreads_correct_witness:
  "\<exists>mask k' t. UpdateHighestPriorityThreadsImpl sample_kernel = Some (mask, k') \<and> sched_ok k' \<and>
     GetScheduledFront 0 (m_priority_queue k') = Some (hp k' 0) \<and>
     (hp k' 0 \<noteq> None \<longrightarrow> bit mask 0)"
proof -
  have "\<forall>t \<in> set (m_woken_dummy_threads sample_kernel). IsDummyThread (m_threads sample_kernel t)" "counts 12 sample_kernel"
    "hp sample_kernel 0 = None"
    by (simp_all add: sample_kernel_ok(3), simp_all add: sample_kernel_def hp_def)
  then show ?thesis
    using UpdateHighestPriorityThreads_correct [OF sample_kernel_ok(1,2)] sample_kernel_ok(4) by fastforce
qed

end
