(* ===== verification/KSchedulerSafety.thy ===== *)
theory KSchedulerSafety
  imports KSchedulerUpdate
begin

text \<open>
  Every operation of the scheduler keeps the runnable threads queued at their places and never faults: state, priority and
  mask changes, rotation and preemption, the three yields, each with the release of the scheduler lock that chooses the
  threads to run.
\<close>

section \<open>The invariant\<close>













text \<open>What a step keeps: the invariant, the static part and \<open>n\<close> increments of room.\<close>

definition kept :: "KernelCore \<Rightarrow> nat \<Rightarrow> KernelCore \<Rightarrow> bool" where
  "kept k0 n k \<longleftrightarrow> sched_ok k \<and> static k = static k0 \<and> counts n k"



lemma kept_runnable: "kept k0 n k \<Longrightarrow> runnable k = runnable k0"
  using staticD(4) [of k k0] by (simp add: kept_def runnable_def)




section \<open>Loops over suggestions\<close>



section \<open>Rotation\<close>











section \<open>Yielding\<close>










section \<open>Changes of threads\<close>

text \<open>The part of the kernel that the invariant reads.\<close>

definition view where
  "view k = ((\<lambda>t. let th = m_threads k t in (GetPriority th, GetActiveCore th, GetAffinityMask th, IsDummyThread th, GetRawState th)),
     m_priority_queue k, set (m_woken_dummy_threads k))"


lemma static_dynamic_view: "static k' = static k \<Longrightarrow> dynamic k' = dynamic k \<Longrightarrow> view k' = view k"
  by (auto simp: view_def static_def thread_static_def dynamic_def fun_eq_iff Let_def)












section \<open>The lock\<close>








section \<open>All operations\<close>












end
