(* ===== verification/PageTable.thy ===== *)
theory PageTable
  imports KSlabHeap
begin

text \<open>
  The page table of the emulated CPU, \<^verbatim>\<open>Common::PageTable\<close> (\<^verbatim>\<open>src/src/common/page_table.h\<close> and
  \<^verbatim>\<open>page_table.cpp\<close>): the physical address behind each virtual page, its traversal and its
  address translation. The host pointers, the \<^verbatim>\<open>blocks\<close> buffer and the fast memory arena, which
  only the CPU backends use, are left out.

  An entry holds the difference of the physical and of the virtual address of its page; zero
  marks a page that is not mapped. The buffer is the function from entry numbers to entries
  together with the number of entries: reading past the end is a fault.
\<close>

record PageTable =
  backing_addr :: "nat \<Rightarrow> u64"
  backing_size :: nat
  current_address_space_width_in_bits :: nat
  page_size :: u64

record TraversalEntry =
  phys_addr :: u64
  block_size :: u64

record TraversalContext =
  next_page :: u64
  next_offset :: u64

definition backing_get :: "PageTable \<Rightarrow> u64 \<Rightarrow> u64 option" where
  "backing_get pt page = (if unat page < backing_size pt then Some (backing_addr pt (unat page)) else None)"

definition ContinueTraversal ::
    "PageTable \<Rightarrow> TraversalContext \<Rightarrow> (bool \<times> TraversalEntry \<times> TraversalContext) option" where
  "ContinueTraversal pt context =
     do {
       let entry = \<lparr>phys_addr = 0, block_size = page_size pt\<rparr>;
       let context' = \<lparr>next_page = next_page context + 1, next_offset = next_offset context + page_size pt\<rparr>;
       let page = next_page context;
       if backing_size pt \<le> unat page then Some (False, entry, context')
       else do {
         pa \<leftarrow> backing_get pt page;
         if pa = 0 then Some (False, entry, context')
         else Some (True, entry\<lparr>phys_addr := pa + next_offset context\<rparr>, context')
       }
     }"

text \<open>The division by a page size of zero is a fault.\<close>

definition BeginTraversal ::
    "PageTable \<Rightarrow> u64 \<Rightarrow> (bool \<times> TraversalEntry \<times> TraversalContext) option" where
  "BeginTraversal pt address =
     do {
       ASSERT (page_size pt \<noteq> 0);
       ContinueTraversal pt \<lparr>next_page = address div page_size pt, next_offset = address\<rparr>
     }"

text \<open>Resizing a buffer allocates new zeroed memory unless the size stays the same.\<close>

definition PageTable_Resize :: "nat \<Rightarrow> nat \<Rightarrow> PageTable \<Rightarrow> PageTable" where
  "PageTable_Resize address_space_width_in_bits page_size_in_bits pt =
     (let num_page_table_entries = 2 ^ (address_space_width_in_bits - page_size_in_bits)
      in pt\<lparr>backing_addr := (if num_page_table_entries = backing_size pt then backing_addr pt else (\<lambda>_. 0)),
            backing_size := num_page_table_entries,
            current_address_space_width_in_bits := address_space_width_in_bits,
            page_size := push_bit page_size_in_bits 1\<rparr>)"

definition PageTable_new :: PageTable where
  "PageTable_new =
     \<lparr>backing_addr = (\<lambda>_. 0), backing_size = 0, current_address_space_width_in_bits = 0, page_size = 0\<rparr>"

definition PageTable_GetPhysicalAddress :: "PageTable \<Rightarrow> u64 \<Rightarrow> u64 option option" where
  "PageTable_GetPhysicalAddress pt virt_addr =
     (if virt_addr > push_bit (current_address_space_width_in_bits pt) 1 then Some None
      else do {
        ASSERT (page_size pt \<noteq> 0);
        e \<leftarrow> backing_get pt (virt_addr div page_size pt);
        Some (Some (e + virt_addr))
      })"

end
