(* ===== verification/KPageGroup.thy ===== *)
theory KPageGroup
  imports KSlabHeap
begin

text \<open>
  Groups of physical pages, \<^verbatim>\<open>KBlockInfo\<close> and \<^verbatim>\<open>KPageGroup\<close> (\<^verbatim>\<open>k_page_group.h\<close>, \<^verbatim>\<open>k_page_group.cpp\<close>).

  A group is the list of its blocks in the order of the links; a block carries the pointer at
  which the slab heap allocated it. The slab heap of the blocks, which groups share, is passed
  and returned. The calls that reach the memory manager are returned as a list.
\<close>

datatype memory_call =
    ProtectRegion u64 u64 u32
  | MemoryManager_Open u64 u64
  | MemoryManager_OpenFirst u64 u64
  | MemoryManager_Close u64 u64
  | InvalidateInstructionCache u64 u64

section \<open>KBlockInfo\<close>

record KBlockInfo =
  bi_ptr :: u64
  m_page_index :: u32
  bi_num_pages :: u32

definition KBlockInfo_Initialize :: "u64 \<Rightarrow> u64 \<Rightarrow> u64 \<Rightarrow> KBlockInfo option" where
  "KBlockInfo_Initialize p addr np =
     do {
       ASSERT (IsAligned addr PageSize);
       ASSERT (ucast (ucast np :: u32) = np);
       Some \<lparr>bi_ptr = p, m_page_index = ucast (addr div PageSize), bi_num_pages = ucast np\<rparr>
     }"

definition KBlockInfo_GetAddress :: "KBlockInfo \<Rightarrow> u64" where
  "KBlockInfo_GetAddress b = ucast (m_page_index b) * PageSize"

definition KBlockInfo_GetNumPages :: "KBlockInfo \<Rightarrow> u64" where
  "KBlockInfo_GetNumPages b = ucast (bi_num_pages b)"

definition KBlockInfo_GetSize :: "KBlockInfo \<Rightarrow> u64" where
  "KBlockInfo_GetSize b = KBlockInfo_GetNumPages b * PageSize"

text \<open>The sum of the index and of the number of pages is a 32-bit sum.\<close>

definition KBlockInfo_GetEndAddress :: "KBlockInfo \<Rightarrow> u64" where
  "KBlockInfo_GetEndAddress b = ucast (m_page_index b + bi_num_pages b) * PageSize"

definition KBlockInfo_GetLastAddress :: "KBlockInfo \<Rightarrow> u64" where
  "KBlockInfo_GetLastAddress b = KBlockInfo_GetEndAddress b - 1"

definition KBlockInfo_IsEquivalentTo :: "KBlockInfo \<Rightarrow> KBlockInfo \<Rightarrow> bool" where
  "KBlockInfo_IsEquivalentTo b rhs \<longleftrightarrow>
     m_page_index b = m_page_index rhs \<and> bi_num_pages b = bi_num_pages rhs"

definition IsStrictlyBefore :: "KBlockInfo \<Rightarrow> u64 \<Rightarrow> bool" where
  "IsStrictlyBefore b addr \<longleftrightarrow>
     (let nd = KBlockInfo_GetEndAddress b
      in if m_page_index b \<noteq> 0 \<and> nd = 0 then False else nd < addr)"

definition TryConcatenate :: "u64 \<Rightarrow> u64 \<Rightarrow> KBlockInfo \<Rightarrow> KBlockInfo option" where
  "TryConcatenate addr np b =
     (if addr \<noteq> 0 \<and> addr = KBlockInfo_GetEndAddress b
      then Some (b\<lparr>bi_num_pages := bi_num_pages b + ucast np\<rparr>) else None)"

section \<open>KPageGroup\<close>

type_synonym KPageGroup = "KBlockInfo list"

fun KPageGroup_Finalize :: "KPageGroup \<Rightarrow> KDynamicResourceManager \<Rightarrow> KPageGroup \<times> KDynamicResourceManager" where
  "KPageGroup_Finalize [] mgr = ([], mgr)"
| "KPageGroup_Finalize (cur # bs) mgr = KPageGroup_Finalize bs (KDynamicResourceManager_Free (bi_ptr cur) mgr)"

fun CloseAndReset ::
    "KPageGroup \<Rightarrow> KDynamicResourceManager \<Rightarrow> memory_call list \<times> KPageGroup \<times> KDynamicResourceManager" where
  "CloseAndReset [] mgr = ([], [], mgr)"
| "CloseAndReset (cur # bs) mgr =
     (let (calls, bs', mgr') = CloseAndReset bs (KDynamicResourceManager_Free (bi_ptr cur) mgr)
      in (MemoryManager_Close (KBlockInfo_GetAddress cur) (KBlockInfo_GetNumPages cur) # calls, bs', mgr'))"

definition KPageGroup_GetNumPages :: "KPageGroup \<Rightarrow> u64" where
  "KPageGroup_GetNumPages pg = fold (\<lambda>b n. n + KBlockInfo_GetNumPages b) pg 0"

definition AddBlock ::
    "nat \<Rightarrow> u64 \<Rightarrow> u64 \<Rightarrow> KPageGroup \<Rightarrow> KDynamicResourceManager \<Rightarrow>
     (Result \<times> KPageGroup \<times> KDynamicResourceManager) option" where
  "AddBlock obj_size addr num_pages pg mgr =
     (if num_pages = 0 then Some (ResultSuccess, pg, mgr)
      else do {
        ASSERT (addr < addr + num_pages * PageSize);
        case (if pg = [] then None else TryConcatenate addr num_pages (List.last pg)) of
          Some b \<Rightarrow> Some (ResultSuccess, butlast pg @ [b], mgr)
        | None \<Rightarrow>
            do {
              (new_block, mgr') \<leftarrow> KDynamicResourceManager_Allocate obj_size mgr;
              case new_block of
                None \<Rightarrow> Some (ResultOutOfResource, pg, mgr')
              | Some p \<Rightarrow>
                  do {
                    b \<leftarrow> KBlockInfo_Initialize p addr num_pages;
                    Some (ResultSuccess, pg @ [b], mgr')
                  }
            }
      })"

definition KPageGroup_Open :: "KPageGroup \<Rightarrow> memory_call list" where
  "KPageGroup_Open pg = map (\<lambda>b. MemoryManager_Open (KBlockInfo_GetAddress b) (KBlockInfo_GetNumPages b)) pg"

definition KPageGroup_OpenFirst :: "KPageGroup \<Rightarrow> memory_call list" where
  "KPageGroup_OpenFirst pg =
     map (\<lambda>b. MemoryManager_OpenFirst (KBlockInfo_GetAddress b) (KBlockInfo_GetNumPages b)) pg"

definition KPageGroup_Close :: "KPageGroup \<Rightarrow> memory_call list" where
  "KPageGroup_Close pg = map (\<lambda>b. MemoryManager_Close (KBlockInfo_GetAddress b) (KBlockInfo_GetNumPages b)) pg"

fun KPageGroup_IsEquivalentTo :: "KPageGroup \<Rightarrow> KPageGroup \<Rightarrow> bool" where
  "KPageGroup_IsEquivalentTo (l # ls) (r # rs) =
     (if \<not> KBlockInfo_IsEquivalentTo l r then False else KPageGroup_IsEquivalentTo ls rs)"
| "KPageGroup_IsEquivalentTo ls rs \<longleftrightarrow> ls = [] \<and> rs = []"

section \<open>The pages of a group\<close>

definition bi_start :: "KBlockInfo \<Rightarrow> nat" where "bi_start b = unat (m_page_index b)"
definition bi_count :: "KBlockInfo \<Rightarrow> nat" where "bi_count b = unat (bi_num_pages b)"

definition group_runs :: "KPageGroup \<Rightarrow> (nat \<times> nat) list" where
  "group_runs pg = map (\<lambda>b. (bi_start b, bi_count b)) pg"

definition group_pages :: "KPageGroup \<Rightarrow> nat list" where
  "group_pages pg = concat (map (\<lambda>b. [bi_start b..<bi_start b + bi_count b]) pg)"

lemma KPageGroup_IsEquivalentTo_iff: "KPageGroup_IsEquivalentTo a b \<longleftrightarrow> group_runs a = group_runs b"
  by (induction a b rule: KPageGroup_IsEquivalentTo.induct)
    (auto simp: group_runs_def KBlockInfo_IsEquivalentTo_def bi_start_def bi_count_def word_unat_eq_iff)

lemma Finalize_returns_blocks:
  "KPageGroup_Finalize pg mgr = (pg', mgr') \<Longrightarrow> pg' = [] \<and> free_nodes mgr' = rev (map bi_ptr pg) @ free_nodes mgr"
  by (induction pg mgr rule: KPageGroup_Finalize.induct) auto

declare unat_ucast_32_64 [simp]

lemma unat_ucast_64_32_small: "unat (x :: u64) < 2 ^ 32 \<Longrightarrow> unat (ucast x :: u32) = unat x"
  by (simp add: unsigned_ucast_eq take_bit_nat_eq_self_iff)

end
