(* ===== verification/KPageTableBase.thy ===== *)
theory KPageTableBase
  imports PageTable KPageGroup KMemoryBlockManager
begin

text \<open>
  The state of a process page table, \<^verbatim>\<open>KPageTableBase\<close> (\<^verbatim>\<open>k_page_table_base.h\<close>), the placement of
  its regions when a process is created (\<^verbatim>\<open>InitializeForProcess\<close> in \<^verbatim>\<open>k_page_table_base.cpp\<close> with
  the table of \<^verbatim>\<open>k_address_space_info.cpp\<close>) and the region queries.

  The calls that reach \<^verbatim>\<open>Core::Memory::Memory\<close> and the memory manager are recorded in
  \<open>memory_log\<close> in the order they are made; the regions of user pool memory of the kernel's memory
  layout, which decide \<^verbatim>\<open>IsHeapPhysicalAddress\<close>, are the field \<open>user_pool_regions\<close>. The locks are
  held by the caller throughout and are left out; so is the resource limit, which only the
  operations that are not modelled use. The build flag \<^verbatim>\<open>HAS_NCE\<close> is a parameter.
\<close>

section \<open>State\<close>

record KPageTableBase =
  m_address_space_start :: u64
  m_address_space_end :: u64
  m_heap_region_start :: u64
  m_heap_region_end :: u64
  m_current_heap_end :: u64
  m_alias_region_start :: u64
  m_alias_region_end :: u64
  m_stack_region_start :: u64
  m_stack_region_end :: u64
  m_kernel_map_region_start :: u64
  m_kernel_map_region_end :: u64
  m_alias_code_region_start :: u64
  m_alias_code_region_end :: u64
  m_code_region_start :: u64
  m_code_region_end :: u64
  m_max_heap_size :: u64
  m_mapped_physical_memory_size :: u64
  m_mapped_unsafe_physical_memory :: u64
  m_mapped_insecure_memory :: u64
  m_mapped_ipc_server_memory :: u64
  m_impl :: PageTable
  m_memory_block_manager :: KMemoryBlockManager
  m_allocate_option :: u32
  m_address_space_width :: u32
  m_is_kernel :: bool
  m_enable_aslr :: bool
  m_enable_device_address_space_merge :: bool
  m_memory_block_slab_manager :: KDynamicResourceManager
  m_block_info_manager :: KDynamicResourceManager
  m_heap_fill_value :: u8
  m_ipc_fill_value :: u8
  m_stack_fill_value :: u8
  user_pool_regions :: "(u64 \<times> u64) list"
  memory_log :: "memory_call list"

definition RegionAlignment :: u64 where "RegionAlignment = 0x200000"

definition MemoryFillValue_Zero :: u8 where "MemoryFillValue_Zero = 0"

section \<open>Address space information\<close>

datatype AddressSpaceType = MapSmall | MapLarge | Map39Bit | Heap | Stack | Alias

record KAddressSpaceInfo =
  asi_bit_width :: nat
  asi_address :: u64
  asi_size :: u64
  asi_type :: AddressSpaceType

abbreviation MiB :: "u64 \<Rightarrow> u64" where "MiB n \<equiv> n * 0x100000"
abbreviation GiB :: "u64 \<Rightarrow> u64" where "GiB n \<equiv> n * 0x40000000"

definition Size_Invalid :: u64 where "Size_Invalid = - 1"

definition asi :: "nat \<Rightarrow> u64 \<Rightarrow> u64 \<Rightarrow> AddressSpaceType \<Rightarrow> KAddressSpaceInfo" where
  "asi w a s ty = \<lparr>asi_bit_width = w, asi_address = a, asi_size = s, asi_type = ty\<rparr>"

definition AddressSpaceInfos :: "bool \<Rightarrow> KAddressSpaceInfo list" where
  "AddressSpaceInfos has_nce =
     [asi 32 (MiB 2) (GiB 1 - MiB 2) MapSmall,
      asi 32 (GiB 1) (GiB 4 - GiB 1) MapLarge,
      asi 32 Size_Invalid (GiB 1) Alias,
      asi 32 Size_Invalid (GiB 1) Heap,
      asi 36 (MiB 128) (GiB 2 - MiB 128) MapSmall,
      asi 36 (GiB 2) (GiB 64 - GiB 2) MapLarge,
      asi 36 Size_Invalid (GiB 8) Heap,
      asi 36 Size_Invalid (GiB 6) Alias,
      asi 39 (MiB 128) ((if has_nce then GiB 256 else GiB 512) - MiB 128) Map39Bit,
      asi 39 Size_Invalid (GiB 64) MapSmall,
      asi 39 Size_Invalid (GiB 8) Heap,
      asi 39 Size_Invalid (GiB 64) Alias,
      asi 39 Size_Invalid (GiB 2) Stack]"

definition GetAddressSpaceInfo :: "bool \<Rightarrow> nat \<Rightarrow> AddressSpaceType \<Rightarrow> KAddressSpaceInfo option" where
  "GetAddressSpaceInfo has_nce width ty =
     find (\<lambda>info. asi_bit_width info = width \<and> asi_type info = ty) (AddressSpaceInfos has_nce)"

definition GetAddressSpaceStart :: "bool \<Rightarrow> nat \<Rightarrow> AddressSpaceType \<Rightarrow> u64 option" where
  "GetAddressSpaceStart has_nce width ty = map_option asi_address (GetAddressSpaceInfo has_nce width ty)"

definition GetAddressSpaceSize :: "bool \<Rightarrow> nat \<Rightarrow> AddressSpaceType \<Rightarrow> u64 option" where
  "GetAddressSpaceSize has_nce width ty = map_option asi_size (GetAddressSpaceInfo has_nce width ty)"

section \<open>Random numbers\<close>

text \<open>
  \<^verbatim>\<open>GenerateRandomU64\<close> asks the host for a random number: the numbers it returns are the list
  \<open>draws\<close>. The result is \<open>None\<close> when the list ends before a number is accepted, or when the
  range is empty (a division by zero).
\<close>

fun draw_below :: "u64 \<Rightarrow> u64 list \<Rightarrow> (u64 \<times> u64 list) option" where
  "draw_below effective_max [] = None"
| "draw_below effective_max (rnd # draws) =
     (if rnd < effective_max then Some (rnd, draws) else draw_below effective_max draws)"

definition GenerateUniformRange :: "u64 \<Rightarrow> u64 \<Rightarrow> u64 list \<Rightarrow> (u64 \<times> u64 list) option" where
  "GenerateUniformRange mn mx draws =
     (if mx = - 1 \<and> mn = 0 then (case draws of [] \<Rightarrow> None | rnd # ds \<Rightarrow> Some (rnd, ds))
      else do {
        let range_size = (mx + 1) - mn;
        ASSERT (range_size \<noteq> 0);
        let effective_max = ((- 1) div range_size) * range_size;
        (rnd, ds) \<leftarrow> draw_below effective_max draws;
        Some (mn + rnd mod range_size, ds)
      })"

definition GenerateRandomRange :: "u64 \<Rightarrow> u64 \<Rightarrow> u64 list \<Rightarrow> (u64 \<times> u64 list) option" where
  "GenerateRandomRange = GenerateUniformRange"

section \<open>InitializeForProcess\<close>

definition CreateProcessFlag_AddressSpaceMask :: u32 where "CreateProcessFlag_AddressSpaceMask = 7 * 2"
definition CreateProcessFlag_AddressSpace32Bit :: u32 where "CreateProcessFlag_AddressSpace32Bit = 0 * 2"
definition CreateProcessFlag_AddressSpace64BitDeprecated :: u32 where
  "CreateProcessFlag_AddressSpace64BitDeprecated = 1 * 2"
definition CreateProcessFlag_AddressSpace32BitWithoutAlias :: u32 where
  "CreateProcessFlag_AddressSpace32BitWithoutAlias = 2 * 2"
definition CreateProcessFlag_AddressSpace64Bit :: u32 where "CreateProcessFlag_AddressSpace64Bit = 3 * 2"

lemmas address_space_flags = CreateProcessFlag_AddressSpaceMask_def CreateProcessFlag_AddressSpace32Bit_def
  CreateProcessFlag_AddressSpace64BitDeprecated_def CreateProcessFlag_AddressSpace32BitWithoutAlias_def
  CreateProcessFlag_AddressSpace64Bit_def

definition GetAddressSpaceWidth :: "u32 \<Rightarrow> nat option" where
  "GetAddressSpaceWidth as_type =
     (let ty = as_type AND CreateProcessFlag_AddressSpaceMask in
      if ty = CreateProcessFlag_AddressSpace64Bit then Some 39
      else if ty = CreateProcessFlag_AddressSpace64BitDeprecated then Some 36
      else if ty = CreateProcessFlag_AddressSpace32Bit \<or>
              ty = CreateProcessFlag_AddressSpace32BitWithoutAlias then Some 32
      else None)"

definition EncodeOption :: "u32 \<Rightarrow> u32 \<Rightarrow> u32" where
  "EncodeOption pool dir = push_bit 4 pool OR push_bit 0 dir"

text \<open>The sizes of the regions that are still to be placed.\<close>

record RegionSizes =
  alias_region_size :: u64
  heap_region_size :: u64
  stack_region_size :: u64
  kernel_map_region_size :: u64

text \<open>The code regions, the code of the process and the sizes of the regions to be placed.\<close>

definition setup_code_regions ::
    "bool \<Rightarrow> u32 \<Rightarrow> u64 \<Rightarrow> u64 \<Rightarrow> u64 \<Rightarrow> KPageTableBase \<Rightarrow>
     (KPageTableBase \<times> u64 \<times> u64 \<times> RegionSizes) option" where
  "setup_code_regions has_nce as_type code_address code_size aslr_space_start t =
     do {
       as_width \<leftarrow> GetAddressSpaceWidth as_type;
       let t1 = t\<lparr>m_address_space_width := of_nat as_width\<rparr>;
       let width = unat (m_address_space_width t1);
       let GetSpaceStart = GetAddressSpaceStart has_nce width;
       let GetSpaceSize = GetAddressSpaceSize has_nce width;
       alias0 \<leftarrow> GetSpaceSize Alias;
       heap0 \<leftarrow> GetSpaceSize Heap;
       let (alias1, heap1) =
         (if as_type AND CreateProcessFlag_AddressSpaceMask = CreateProcessFlag_AddressSpace32BitWithoutAlias
          then (0, heap0 + alias0) else (alias0, heap0));
       if m_address_space_width t1 = 39 then
         do {
           alias2 \<leftarrow> GetSpaceSize Alias;
           heap2 \<leftarrow> GetSpaceSize Heap;
           stack2 \<leftarrow> GetSpaceSize Stack;
           kmap2 \<leftarrow> GetSpaceSize MapSmall;
           map_start \<leftarrow> GetSpaceStart Map39Bit;
           map_size \<leftarrow> GetSpaceSize Map39Bit;
           let code_start = m_address_space_start t1 + aslr_space_start + map_start;
           let code_end = code_start + map_size;
           Some (t1\<lparr>m_code_region_start := code_start, m_code_region_end := code_end,
                    m_alias_code_region_start := code_start, m_alias_code_region_end := code_end\<rparr>,
                 AlignDown code_address RegionAlignment,
                 AlignUp (code_address + code_size) RegionAlignment,
                 \<lparr>alias_region_size = alias2, heap_region_size = heap2, stack_region_size = stack2,
                  kernel_map_region_size = kmap2\<rparr>)
         }
       else
         do {
           small_start \<leftarrow> GetSpaceStart MapSmall;
           small_size \<leftarrow> GetSpaceSize MapSmall;
           large_start \<leftarrow> GetSpaceStart MapLarge;
           large_size \<leftarrow> GetSpaceSize MapLarge;
           let code_start = small_start;
           let code_end = code_start + small_size;
           Some (t1\<lparr>m_code_region_start := code_start, m_code_region_end := code_end,
                    m_stack_region_start := code_start,
                    m_alias_code_region_start := code_start,
                    m_alias_code_region_end := large_start + large_size,
                    m_stack_region_end := code_end,
                    m_kernel_map_region_start := code_start, m_kernel_map_region_end := code_end\<rparr>,
                 code_start, code_end,
                 \<lparr>alias_region_size = alias1, heap_region_size = heap1, stack_region_size = 0,
                  kernel_map_region_size = 0\<rparr>)
         }
     }"

text \<open>The range in which the regions are placed: the larger of the parts before and after the code.\<close>

definition choose_alloc :: "u64 \<Rightarrow> u64 \<Rightarrow> u64 \<Rightarrow> u64 \<Rightarrow> u64 \<times> u64" where
  "choose_alloc code_region_start process_code_start process_code_end nd =
     (if process_code_start - code_region_start \<ge> nd - process_code_end
      then (code_region_start, process_code_start - code_region_start)
      else (process_code_end, nd - process_code_end))"

record RegionRandoms =
  alias_rnd :: u64
  heap_rnd :: u64
  stack_rnd :: u64
  kmap_rnd :: u64

definition draw_regions :: "bool \<Rightarrow> u64 \<Rightarrow> u64 list \<Rightarrow> (RegionRandoms \<times> u64 list) option" where
  "draw_regions enable_aslr remaining_size draws =
     (if enable_aslr then
        do {
          let bound = remaining_size div RegionAlignment;
          (a, d1) \<leftarrow> GenerateRandomRange 0 bound draws;
          (h, d2) \<leftarrow> GenerateRandomRange 0 bound d1;
          (s, d3) \<leftarrow> GenerateRandomRange 0 bound d2;
          (k, d4) \<leftarrow> GenerateRandomRange 0 bound d3;
          Some (\<lparr>alias_rnd = a * RegionAlignment, heap_rnd = h * RegionAlignment,
                 stack_rnd = s * RegionAlignment, kmap_rnd = k * RegionAlignment\<rparr>, d4)
        }
      else Some (\<lparr>alias_rnd = 0, heap_rnd = 0, stack_rnd = 0, kmap_rnd = 0\<rparr>, draws))"

definition shift_alias :: "u64 \<Rightarrow> KPageTableBase \<Rightarrow> KPageTableBase" where
  "shift_alias n t = t\<lparr>m_alias_region_start := m_alias_region_start t + n,
                       m_alias_region_end := m_alias_region_end t + n\<rparr>"

definition shift_heap :: "u64 \<Rightarrow> KPageTableBase \<Rightarrow> KPageTableBase" where
  "shift_heap n t = t\<lparr>m_heap_region_start := m_heap_region_start t + n,
                      m_heap_region_end := m_heap_region_end t + n\<rparr>"

definition shift_stack :: "u64 \<Rightarrow> KPageTableBase \<Rightarrow> KPageTableBase" where
  "shift_stack n t = t\<lparr>m_stack_region_start := m_stack_region_start t + n,
                       m_stack_region_end := m_stack_region_end t + n\<rparr>"

definition shift_kernel_map :: "u64 \<Rightarrow> KPageTableBase \<Rightarrow> KPageTableBase" where
  "shift_kernel_map n t = t\<lparr>m_kernel_map_region_start := m_kernel_map_region_start t + n,
                            m_kernel_map_region_end := m_kernel_map_region_end t + n\<rparr>"

definition place_heap_alias :: "u64 \<Rightarrow> RegionSizes \<Rightarrow> RegionRandoms \<Rightarrow> KPageTableBase \<Rightarrow> KPageTableBase" where
  "place_heap_alias alloc_start z r t =
     (let t1 = t\<lparr>m_alias_region_start := alloc_start + alias_rnd r,
                 m_alias_region_end := alloc_start + alias_rnd r + alias_region_size z,
                 m_heap_region_start := alloc_start + heap_rnd r,
                 m_heap_region_end := alloc_start + heap_rnd r + heap_region_size z\<rparr>
      in if alias_rnd r \<le> heap_rnd r then shift_heap (alias_region_size z) t1
         else shift_alias (heap_region_size z) t1)"

definition place_stack :: "u64 \<Rightarrow> RegionSizes \<Rightarrow> RegionRandoms \<Rightarrow> KPageTableBase \<Rightarrow> KPageTableBase" where
  "place_stack alloc_start z r t =
     (if stack_region_size z \<noteq> 0 then
        let t1 = t\<lparr>m_stack_region_start := alloc_start + stack_rnd r,
                   m_stack_region_end := alloc_start + stack_rnd r + stack_region_size z\<rparr>;
            t2 = (if alias_rnd r < stack_rnd r then shift_stack (alias_region_size z) t1
                  else shift_alias (stack_region_size z) t1)
        in if heap_rnd r < stack_rnd r then shift_stack (heap_region_size z) t2
           else shift_heap (stack_region_size z) t2
      else t)"

definition place_kernel_map :: "u64 \<Rightarrow> RegionSizes \<Rightarrow> RegionRandoms \<Rightarrow> KPageTableBase \<Rightarrow> KPageTableBase" where
  "place_kernel_map alloc_start z r t =
     (if kernel_map_region_size z \<noteq> 0 then
        let t1 = t\<lparr>m_kernel_map_region_start := alloc_start + kmap_rnd r,
                   m_kernel_map_region_end := alloc_start + kmap_rnd r + kernel_map_region_size z\<rparr>;
            t2 = (if alias_rnd r < kmap_rnd r then shift_kernel_map (alias_region_size z) t1
                  else shift_alias (kernel_map_region_size z) t1);
            t3 = (if heap_rnd r < kmap_rnd r then shift_kernel_map (heap_region_size z) t2
                  else shift_heap (kernel_map_region_size z) t2)
        in if stack_region_size z \<noteq> 0
           then (if stack_rnd r < kmap_rnd r then shift_kernel_map (stack_region_size z) t3
                 else shift_stack (kernel_map_region_size z) t3)
           else t3
      else t)"

definition IsInAddressSpace :: "KPageTableBase \<Rightarrow> u64 \<Rightarrow> bool" where
  "IsInAddressSpace t addr \<longleftrightarrow> m_address_space_start t \<le> addr \<and> addr \<le> m_address_space_end t"

text \<open>The assertions on the regions that were chosen.\<close>

definition check_regions :: "KPageTableBase \<Rightarrow> unit option" where
  "check_regions t =
     do {
       ASSERT (IsInAddressSpace t (m_alias_region_start t));
       ASSERT (IsInAddressSpace t (m_alias_region_end t));
       ASSERT (IsInAddressSpace t (m_heap_region_start t));
       ASSERT (IsInAddressSpace t (m_heap_region_end t));
       ASSERT (IsInAddressSpace t (m_stack_region_start t));
       ASSERT (IsInAddressSpace t (m_stack_region_end t));
       ASSERT (IsInAddressSpace t (m_kernel_map_region_start t));
       ASSERT (IsInAddressSpace t (m_kernel_map_region_end t));
       let alias_start = m_alias_region_start t;
       let alias_last = m_alias_region_end t - 1;
       let heap_start = m_heap_region_start t;
       let heap_last = m_heap_region_end t - 1;
       let stack_start = m_stack_region_start t;
       let stack_last = m_stack_region_end t - 1;
       let kmap_start = m_kernel_map_region_start t;
       let kmap_last = m_kernel_map_region_end t - 1;
       ASSERT (alias_last < heap_start \<or> heap_last < alias_start);
       ASSERT (alias_last < stack_start \<or> stack_last < alias_start);
       ASSERT (alias_last < kmap_start \<or> kmap_last < alias_start);
       ASSERT (heap_last < stack_start \<or> stack_last < heap_start);
       ASSERT (heap_last < kmap_start \<or> kmap_last < heap_start)
     }"

definition Direction_FromFront :: u32 where "Direction_FromFront = 0"
definition Direction_FromBack :: u32 where "Direction_FromBack = 1"

text \<open>The heap, the counters, the fill values and the allocation option.\<close>

definition set_basic_fields :: "bool \<Rightarrow> u32 \<Rightarrow> KPageTableBase \<Rightarrow> KPageTableBase" where
  "set_basic_fields from_back pool t =
     t\<lparr>m_current_heap_end := m_heap_region_start t, m_max_heap_size := 0,
       m_mapped_physical_memory_size := 0, m_mapped_unsafe_physical_memory := 0,
       m_mapped_insecure_memory := 0, m_mapped_ipc_server_memory := 0,
       m_heap_fill_value := MemoryFillValue_Zero, m_ipc_fill_value := MemoryFillValue_Zero,
       m_stack_fill_value := MemoryFillValue_Zero,
       m_allocate_option :=
         EncodeOption pool (if from_back then Direction_FromBack else Direction_FromFront)\<rparr>"

text \<open>Random placement, the basic fields and the assertions.\<close>

definition place_regions ::
    "bool \<Rightarrow> bool \<Rightarrow> u32 \<Rightarrow> RegionSizes \<Rightarrow> u64 \<Rightarrow> u64 \<Rightarrow> u64 list \<Rightarrow> KPageTableBase \<Rightarrow> KPageTableBase option" where
  "place_regions enable_aslr from_back pool z alloc_start remaining_size draws t =
     do {
       (r, draws') \<leftarrow> draw_regions enable_aslr remaining_size draws;
       let t1 = place_kernel_map alloc_start z r
                  (place_stack alloc_start z r (place_heap_alias alloc_start z r t));
       let t2 = set_basic_fields from_back pool t1;
       check_regions t2;
       Some t2
     }"

text \<open>A new page table and the block manager of the address space.\<close>

definition initialize_impl :: "nat \<Rightarrow> KPageTableBase \<Rightarrow> (Result \<times> KPageTableBase) option" where
  "initialize_impl obj_size t =
     do {
       let t1 = t\<lparr>m_impl := PageTable_Resize (unat (m_address_space_width t)) PageBits PageTable_new\<rparr>;
       (res, m, slab) \<leftarrow> KMemoryBlockManager_Initialize obj_size (m_address_space_start t1)
         (m_address_space_end t1) (m_memory_block_manager t1) (m_memory_block_slab_manager t1);
       Some (res, t1\<lparr>m_memory_block_manager := m, m_memory_block_slab_manager := slab\<rparr>)
     }"

definition InitializeForProcess ::
    "bool \<Rightarrow> nat \<Rightarrow> u32 \<Rightarrow> bool \<Rightarrow> bool \<Rightarrow> bool \<Rightarrow> u32 \<Rightarrow> u64 \<Rightarrow> u64 \<Rightarrow> KDynamicResourceManager \<Rightarrow>
     KDynamicResourceManager \<Rightarrow> u64 \<Rightarrow> u64 list \<Rightarrow> KPageTableBase \<Rightarrow> (Result \<times> KPageTableBase) option" where
  "InitializeForProcess has_nce obj_size as_type enable_aslr enable_das_merge from_back pool code_address
       code_size slab_manager block_info_manager aslr_space_start draws t0 =
     do {
       as_width \<leftarrow> GetAddressSpaceWidth as_type;
       let start = 0;
       let nd = push_bit as_width 1;
       ASSERT (start \<le> code_address);
       ASSERT (code_address < code_address + code_size);
       ASSERT (code_address + code_size - 1 \<le> nd - 1);
       (t1, process_code_start, process_code_end, z) \<leftarrow>
         setup_code_regions has_nce as_type code_address code_size aslr_space_start t0;
       let t2 = t1\<lparr>m_enable_aslr := enable_aslr,
                   m_enable_device_address_space_merge := enable_das_merge,
                   m_address_space_start := start, m_address_space_end := nd, m_is_kernel := False,
                   m_memory_block_slab_manager := slab_manager,
                   m_block_info_manager := block_info_manager\<rparr>;
       let (alloc_start, alloc_size) =
         choose_alloc (m_code_region_start t2) process_code_start process_code_end nd;
       let needed_size = alias_region_size z + heap_region_size z + stack_region_size z +
                         kernel_map_region_size z;
       if \<not> alloc_size \<ge> needed_size then Some (ResultOutOfMemory, t2)
       else do {
         t3 \<leftarrow> place_regions enable_aslr from_back pool z alloc_start (alloc_size - needed_size) draws t2;
         initialize_impl obj_size t3
       }
     }"

section \<open>Regions\<close>

text \<open>The values of \<^verbatim>\<open>Svc::MemoryState\<close>.\<close>

definition SvcMemoryState_Free :: u32 where [flag_simps]: "SvcMemoryState_Free = 0x00"
definition SvcMemoryState_Io :: u32 where [flag_simps]: "SvcMemoryState_Io = 0x01"
definition SvcMemoryState_Static :: u32 where [flag_simps]: "SvcMemoryState_Static = 0x02"
definition SvcMemoryState_Code :: u32 where [flag_simps]: "SvcMemoryState_Code = 0x03"
definition SvcMemoryState_CodeData :: u32 where [flag_simps]: "SvcMemoryState_CodeData = 0x04"
definition SvcMemoryState_Normal :: u32 where [flag_simps]: "SvcMemoryState_Normal = 0x05"
definition SvcMemoryState_Shared :: u32 where [flag_simps]: "SvcMemoryState_Shared = 0x06"
definition SvcMemoryState_AliasCode :: u32 where [flag_simps]: "SvcMemoryState_AliasCode = 0x08"
definition SvcMemoryState_AliasCodeData :: u32 where [flag_simps]: "SvcMemoryState_AliasCodeData = 0x09"
definition SvcMemoryState_Ipc :: u32 where [flag_simps]: "SvcMemoryState_Ipc = 0x0A"
definition SvcMemoryState_Stack :: u32 where [flag_simps]: "SvcMemoryState_Stack = 0x0B"
definition SvcMemoryState_ThreadLocal :: u32 where [flag_simps]: "SvcMemoryState_ThreadLocal = 0x0C"
definition SvcMemoryState_Transferred :: u32 where [flag_simps]: "SvcMemoryState_Transferred = 0x0D"
definition SvcMemoryState_SharedTransferred :: u32 where [flag_simps]: "SvcMemoryState_SharedTransferred = 0x0E"
definition SvcMemoryState_SharedCode :: u32 where [flag_simps]: "SvcMemoryState_SharedCode = 0x0F"
definition SvcMemoryState_NonSecureIpc :: u32 where [flag_simps]: "SvcMemoryState_NonSecureIpc = 0x11"
definition SvcMemoryState_NonDeviceIpc :: u32 where [flag_simps]: "SvcMemoryState_NonDeviceIpc = 0x12"
definition SvcMemoryState_Kernel :: u32 where [flag_simps]: "SvcMemoryState_Kernel = 0x13"
definition SvcMemoryState_GeneratedCode :: u32 where [flag_simps]: "SvcMemoryState_GeneratedCode = 0x14"
definition SvcMemoryState_CodeOut :: u32 where [flag_simps]: "SvcMemoryState_CodeOut = 0x15"
definition SvcMemoryState_Coverage :: u32 where [flag_simps]: "SvcMemoryState_Coverage = 0x16"
definition SvcMemoryState_Insecure :: u32 where [flag_simps]: "SvcMemoryState_Insecure = 0x17"

text \<open>The states whose region is the alias code region.\<close>

definition alias_code_states :: "u32 list" where
  "alias_code_states =
     [SvcMemoryState_Io, SvcMemoryState_Shared, SvcMemoryState_AliasCode, SvcMemoryState_AliasCodeData,
      SvcMemoryState_Transferred, SvcMemoryState_SharedTransferred, SvcMemoryState_SharedCode,
      SvcMemoryState_GeneratedCode, SvcMemoryState_CodeOut, SvcMemoryState_Coverage,
      SvcMemoryState_Insecure]"

definition ipc_states :: "u32 list" where
  "ipc_states = [SvcMemoryState_Ipc, SvcMemoryState_NonSecureIpc, SvcMemoryState_NonDeviceIpc]"

definition GetRegionAddress :: "KPageTableBase \<Rightarrow> u32 \<Rightarrow> u64 option" where
  "GetRegionAddress t state =
     (if state \<in> set [SvcMemoryState_Free, SvcMemoryState_Kernel] then Some (m_address_space_start t)
      else if state = SvcMemoryState_Normal then Some (m_heap_region_start t)
      else if state \<in> set ipc_states then Some (m_alias_region_start t)
      else if state = SvcMemoryState_Stack then Some (m_stack_region_start t)
      else if state \<in> set [SvcMemoryState_Static, SvcMemoryState_ThreadLocal]
        then Some (m_kernel_map_region_start t)
      else if state \<in> set alias_code_states then Some (m_alias_code_region_start t)
      else if state \<in> set [SvcMemoryState_Code, SvcMemoryState_CodeData] then Some (m_code_region_start t)
      else None)"

definition GetRegionSize :: "KPageTableBase \<Rightarrow> u32 \<Rightarrow> u64 option" where
  "GetRegionSize t state =
     (if state \<in> set [SvcMemoryState_Free, SvcMemoryState_Kernel]
        then Some (m_address_space_end t - m_address_space_start t)
      else if state = SvcMemoryState_Normal then Some (m_heap_region_end t - m_heap_region_start t)
      else if state \<in> set ipc_states then Some (m_alias_region_end t - m_alias_region_start t)
      else if state = SvcMemoryState_Stack then Some (m_stack_region_end t - m_stack_region_start t)
      else if state \<in> set [SvcMemoryState_Static, SvcMemoryState_ThreadLocal]
        then Some (m_kernel_map_region_end t - m_kernel_map_region_start t)
      else if state \<in> set alias_code_states
        then Some (m_alias_code_region_end t - m_alias_code_region_start t)
      else if state \<in> set [SvcMemoryState_Code, SvcMemoryState_CodeData]
        then Some (m_code_region_end t - m_code_region_start t)
      else None)"

definition CanContain :: "KPageTableBase \<Rightarrow> u64 \<Rightarrow> u64 \<Rightarrow> u32 \<Rightarrow> bool option" where
  "CanContain t addr sz state =
     do {
       let nd = addr + sz;
       let last = nd - 1;
       region_start \<leftarrow> GetRegionAddress t state;
       region_size \<leftarrow> GetRegionSize t state;
       let is_in_region = (region_start \<le> addr \<and> addr < nd \<and> last \<le> region_start + region_size - 1);
       let is_in_heap = (\<not> (nd \<le> m_heap_region_start t \<or> m_heap_region_end t \<le> addr \<or>
                            m_heap_region_start t = m_heap_region_end t));
       let is_in_alias = (\<not> (nd \<le> m_alias_region_start t \<or> m_alias_region_end t \<le> addr \<or>
                             m_alias_region_start t = m_alias_region_end t));
       if state \<in> set [SvcMemoryState_Free, SvcMemoryState_Kernel] then Some is_in_region
       else if state \<in> set (alias_code_states @
                 [SvcMemoryState_Static, SvcMemoryState_Code, SvcMemoryState_CodeData,
                  SvcMemoryState_Stack, SvcMemoryState_ThreadLocal])
         then Some (is_in_region \<and> \<not> is_in_heap \<and> \<not> is_in_alias)
       else if state = SvcMemoryState_Normal
         then do { ASSERT is_in_heap; Some (is_in_region \<and> \<not> is_in_alias) }
       else if state \<in> set ipc_states
         then do { ASSERT is_in_alias; Some (is_in_region \<and> \<not> is_in_heap) }
       else Some False
     }"

definition CanContain_state :: "KPageTableBase \<Rightarrow> u64 \<Rightarrow> u64 \<Rightarrow> u32 \<Rightarrow> bool option" where
  "CanContain_state t addr sz state = CanContain t addr sz (state AND KMemoryState_Mask)"

definition Contains_address :: "KPageTableBase \<Rightarrow> u64 \<Rightarrow> bool" where
  "Contains_address t addr \<longleftrightarrow> m_address_space_start t \<le> addr \<and> addr \<le> m_address_space_end t - 1"

definition Contains :: "KPageTableBase \<Rightarrow> u64 \<Rightarrow> u64 \<Rightarrow> bool" where
  "Contains t addr sz \<longleftrightarrow>
     m_address_space_start t \<le> addr \<and> addr < addr + sz \<and> addr + sz - 1 \<le> m_address_space_end t - 1"

definition IsInAliasRegion :: "KPageTableBase \<Rightarrow> u64 \<Rightarrow> u64 \<Rightarrow> bool" where
  "IsInAliasRegion t addr sz \<longleftrightarrow>
     Contains t addr sz \<and> m_alias_region_start t \<le> addr \<and> addr + sz - 1 \<le> m_alias_region_end t - 1"

definition IsInHeapRegion :: "KPageTableBase \<Rightarrow> u64 \<Rightarrow> u64 \<Rightarrow> bool" where
  "IsInHeapRegion t addr sz \<longleftrightarrow>
     Contains t addr sz \<and> m_heap_region_start t \<le> addr \<and> addr + sz - 1 \<le> m_heap_region_end t - 1"

section \<open>Sample states\<close>

text \<open>An uninitialised page table and a slab heap with free blocks, for the examples.\<close>

definition sample_page_table :: KPageTableBase where
  "sample_page_table =
     \<lparr>m_address_space_start = 0, m_address_space_end = 0, m_heap_region_start = 0, m_heap_region_end = 0,
      m_current_heap_end = 0, m_alias_region_start = 0, m_alias_region_end = 0, m_stack_region_start = 0,
      m_stack_region_end = 0, m_kernel_map_region_start = 0, m_kernel_map_region_end = 0,
      m_alias_code_region_start = 0, m_alias_code_region_end = 0, m_code_region_start = 0,
      m_code_region_end = 0, m_max_heap_size = 0, m_mapped_physical_memory_size = 0,
      m_mapped_unsafe_physical_memory = 0, m_mapped_insecure_memory = 0, m_mapped_ipc_server_memory = 0,
      m_impl = PageTable_new,
      m_memory_block_manager = \<lparr>m_memory_block_tree = [], m_start_address = 0, m_end_address = 0\<rparr>,
      m_allocate_option = 0, m_address_space_width = 0, m_is_kernel = False, m_enable_aslr = False,
      m_enable_device_address_space_merge = False, m_memory_block_slab_manager = sample_slab,
      m_block_info_manager = sample_slab, m_heap_fill_value = 0, m_ipc_fill_value = 0,
      m_stack_fill_value = 0, user_pool_regions = [], memory_log = []\<rparr>"

definition sample_full_slab :: KDynamicResourceManager where
  "sample_full_slab = sample_slab\<lparr>drm_slab_heap := (drm_slab_heap sample_slab)\<lparr>dsh_head := [0x100, 0x200]\<rparr>\<rparr>"

end
