(* ===== verification/KPageTableGroups.thy ===== *)
theory KPageTableGroups
  imports KPageTableBase "HOL-Library.Sublist"
begin

text \<open>
  Page groups of a range of virtual memory: \<^verbatim>\<open>MakePageGroup\<close> collects the physical pages behind a
  range and \<^verbatim>\<open>IsValidPageGroup\<close> compares a group with the pages behind a range
  (\<^verbatim>\<open>k_page_table_base.cpp\<close>). The two loops are partial functions in the option monad: their
  value is \<open>None\<close> when the loop faults or does not end. The theorems show that it ends, and that a
  group made of one range is valid for another range of the same length exactly when both are
  backed by the same physical pages in the same order.
\<close>

section \<open>Operations\<close>

definition IsHeapPhysicalAddress :: "KPageTableBase \<Rightarrow> u64 \<Rightarrow> bool" where
  "IsHeapPhysicalAddress t phys \<longleftrightarrow> (\<exists>(s, l)\<in>set (user_pool_regions t). s \<le> phys \<and> phys \<le> l)"

datatype traversal_outcome =
    TraversalFailed Result KPageGroup KDynamicResourceManager
  | TraversalDone u64 u64 u64 KPageGroup KDynamicResourceManager

partial_function (option) make_page_group_loop ::
    "nat \<Rightarrow> KPageTableBase \<Rightarrow> u64 \<Rightarrow> TraversalContext \<Rightarrow> u64 \<Rightarrow> u64 \<Rightarrow> u64 \<Rightarrow> KPageGroup \<Rightarrow>
     KDynamicResourceManager \<Rightarrow> traversal_outcome option" where
  "make_page_group_loop obj_size t sz context cur_addr cur_size tot_size pg mgr =
     (if tot_size < sz then
        do {
          (valid, next_entry, context') \<leftarrow> ContinueTraversal (m_impl t) context;
          if \<not> valid then Some (TraversalFailed ResultInvalidCurrentMemory pg mgr)
          else if phys_addr next_entry \<noteq> cur_addr + cur_size then
            (if \<not> IsHeapPhysicalAddress t cur_addr
             then Some (TraversalFailed ResultInvalidCurrentMemory pg mgr)
             else do {
               (res, pg', mgr') \<leftarrow> AddBlock obj_size cur_addr (cur_size div PageSize) pg mgr;
               if res \<noteq> ResultSuccess then Some (TraversalFailed res pg' mgr')
               else make_page_group_loop obj_size t sz context' (phys_addr next_entry)
                      (block_size next_entry) (tot_size + block_size next_entry) pg' mgr'
             })
          else make_page_group_loop obj_size t sz context' cur_addr (cur_size + block_size next_entry)
                 (tot_size + block_size next_entry) pg mgr
        }
      else Some (TraversalDone cur_addr cur_size tot_size pg mgr))"

text \<open>After the loop the last block is cut to the size of the range and added.\<close>

definition make_page_group_finish ::
    "nat \<Rightarrow> KPageTableBase \<Rightarrow> u64 \<Rightarrow> traversal_outcome \<Rightarrow> (Result \<times> KPageGroup \<times> KDynamicResourceManager) option" where
  "make_page_group_finish obj_size t sz outcome =
     (case outcome of
        TraversalFailed res pg mgr \<Rightarrow> Some (res, pg, mgr)
      | TraversalDone cur_addr cur_size tot_size pg mgr \<Rightarrow>
          let cur_size' = (if tot_size > sz then cur_size - (tot_size - sz) else cur_size)
          in if \<not> IsHeapPhysicalAddress t cur_addr then Some (ResultInvalidCurrentMemory, pg, mgr)
             else AddBlock obj_size cur_addr (cur_size' div PageSize) pg mgr)"

definition MakePageGroup ::
    "nat \<Rightarrow> KPageTableBase \<Rightarrow> KPageGroup \<Rightarrow> u64 \<Rightarrow> u64 \<Rightarrow> KDynamicResourceManager \<Rightarrow>
     (Result \<times> KPageGroup \<times> KDynamicResourceManager) option" where
  "MakePageGroup obj_size t pg addr num_pages mgr =
     do {
       let sz = num_pages * PageSize;
       if pg \<noteq> [] then Some (ResultInvalidCurrentMemory, pg, mgr)
       else do {
         (valid, next_entry, context) \<leftarrow> BeginTraversal (m_impl t) addr;
         if \<not> valid then Some (ResultInvalidCurrentMemory, pg, mgr)
         else do {
           let cur_addr = phys_addr next_entry;
           let cur_size = block_size next_entry - (cur_addr AND (block_size next_entry - 1));
           outcome \<leftarrow> make_page_group_loop obj_size t sz context cur_addr cur_size cur_size pg mgr;
           make_page_group_finish obj_size t sz outcome
         }
       }
     }"

text \<open>
  The iterator of \<^verbatim>\<open>IsValidPageGroup\<close> with the address and the pages of its block that have not been
  compared yet; dereferencing the end iterator is a fault.
\<close>

record GroupCursor =
  cur_it :: KPageGroup
  cur_block_address :: u64
  cur_block_pages :: u64

definition UpdateCurrentIterator :: "GroupCursor \<Rightarrow> (bool \<times> GroupCursor) option" where
  "UpdateCurrentIterator c =
     (if cur_block_pages c = 0 then
        (case cur_it c of
           [] \<Rightarrow> None
         | _ # rest \<Rightarrow>
             (case rest of
                [] \<Rightarrow> Some (False, c\<lparr>cur_it := rest\<rparr>)
              | b # _ \<Rightarrow> Some (True, c\<lparr>cur_it := rest, cur_block_address := KBlockInfo_GetAddress b,
                                       cur_block_pages := KBlockInfo_GetNumPages b\<rparr>)))
      else Some (True, c))"

datatype compare_outcome = CompareFailed | CompareDone u64 u64 u64 GroupCursor

partial_function (option) valid_page_group_loop ::
    "KPageTableBase \<Rightarrow> u64 \<Rightarrow> TraversalContext \<Rightarrow> u64 \<Rightarrow> u64 \<Rightarrow> u64 \<Rightarrow> GroupCursor \<Rightarrow> compare_outcome option" where
  "valid_page_group_loop t sz context cur_addr cur_size tot_size c =
     (if tot_size < sz then
        do {
          (valid, next_entry, context') \<leftarrow> ContinueTraversal (m_impl t) context;
          if \<not> valid then Some CompareFailed
          else if phys_addr next_entry \<noteq> cur_addr + cur_size then
            (if \<not> IsHeapPhysicalAddress t cur_addr then Some CompareFailed
             else do {
               let cur_pages = cur_size div PageSize;
               (more, c1) \<leftarrow> UpdateCurrentIterator c;
               if \<not> more then Some CompareFailed
               else if cur_block_address c1 \<noteq> cur_addr \<or> cur_block_pages c1 < cur_pages then Some CompareFailed
               else valid_page_group_loop t sz context' (phys_addr next_entry) (block_size next_entry)
                      (tot_size + block_size next_entry)
                      (c1\<lparr>cur_block_address := cur_block_address c1 + cur_size,
                          cur_block_pages := cur_block_pages c1 - cur_pages\<rparr>)
             })
          else valid_page_group_loop t sz context' cur_addr (cur_size + block_size next_entry)
                 (tot_size + block_size next_entry) c
        }
      else Some (CompareDone cur_addr cur_size tot_size c))"

definition valid_page_group_finish :: "KPageTableBase \<Rightarrow> u64 \<Rightarrow> compare_outcome \<Rightarrow> bool option" where
  "valid_page_group_finish t sz outcome =
     (case outcome of
        CompareFailed \<Rightarrow> Some False
      | CompareDone cur_addr cur_size tot_size c \<Rightarrow>
          do {
            let cur_size' = (if tot_size > sz then cur_size - (tot_size - sz) else cur_size);
            if \<not> IsHeapPhysicalAddress t cur_addr then Some False
            else do {
              (more, c1) \<leftarrow> UpdateCurrentIterator c;
              if \<not> more then Some False
              else Some (cur_block_address c1 = cur_addr \<and> cur_block_pages c1 = cur_size' div PageSize)
            }
          })"

definition IsValidPageGroup :: "KPageTableBase \<Rightarrow> KPageGroup \<Rightarrow> u64 \<Rightarrow> u64 \<Rightarrow> bool option" where
  "IsValidPageGroup t pg addr num_pages =
     do {
       let sz = num_pages * PageSize;
       case pg of
         [] \<Rightarrow> Some False
       | b # bs \<Rightarrow>
           do {
             let c = \<lparr>cur_it = pg, cur_block_address = KBlockInfo_GetAddress b,
                      cur_block_pages = KBlockInfo_GetNumPages b\<rparr>;
             (valid, next_entry, context) \<leftarrow> BeginTraversal (m_impl t) addr;
             if \<not> valid then Some False
             else do {
               let cur_addr = phys_addr next_entry;
               let cur_size = block_size next_entry - (cur_addr AND (block_size next_entry - 1));
               outcome \<leftarrow> valid_page_group_loop t sz context cur_addr cur_size cur_size c;
               valid_page_group_finish t sz outcome
             }
           }
     }"

section \<open>Runs of pages\<close>

text \<open>A list of page numbers as runs of consecutive pages, each a first page and a length.\<close>

fun runs_from :: "nat \<Rightarrow> nat \<Rightarrow> nat list \<Rightarrow> (nat \<times> nat) list" where
  "runs_from p c [] = [(p, c)]"
| "runs_from p c (q # qs) = (if q = p + c then runs_from p (Suc c) qs else (p, c) # runs_from q 1 qs)"

fun runs :: "nat list \<Rightarrow> (nat \<times> nat) list" where
  "runs [] = []"
| "runs (p # ps) = runs_from p 1 ps"

definition expand_runs :: "(nat \<times> nat) list \<Rightarrow> nat list" where
  "expand_runs rs = concat (map (\<lambda>(p, c). [p..<p + c]) rs)"

lemma expand_runs_from: "expand_runs (runs_from p c qs) = [p..<p + c] @ qs"
  by (induction p c qs rule: runs_from.induct) (auto simp: expand_runs_def)

lemma expand_runs: "expand_runs (runs ps) = ps"
proof (cases ps)
  case Nil
  then show ?thesis
    by (simp add: expand_runs_def)
qed (simp add: expand_runs_from)

lemma group_pages_expand: "group_pages pg = expand_runs (group_runs pg)"
  by (simp add: group_pages_def expand_runs_def group_runs_def comp_def)

lemma runs_from_nonempty [simp]: "runs_from p c qs \<noteq> []"
  by (induction p c qs rule: runs_from.induct) auto

lemma hd_runs_from: "\<exists>d rs. runs_from p c qs = (p, d) # rs \<and> c \<le> d"
  by (induction p c qs rule: runs_from.induct) (auto intro: Suc_leD)

lemma length_runs_from: "length (runs_from p c qs) \<le> Suc (length qs)"
  by (induction p c qs rule: runs_from.induct) auto

lemma runs_from_positive: "0 < c \<Longrightarrow> \<forall>(q, d)\<in>set (runs_from p c qs). 0 < d"
  by (induction p c qs rule: runs_from.induct) auto

text \<open>Runs are maximal: a run does not start where the one before it ends.\<close>

fun maximal_runs :: "(nat \<times> nat) list \<Rightarrow> bool" where
  "maximal_runs ((p, c) # (q, d) # rs) \<longleftrightarrow> q \<noteq> p + c \<and> maximal_runs ((q, d) # rs)"
| "maximal_runs rs \<longleftrightarrow> True"

lemma maximal_runs_from: "maximal_runs (runs_from p c qs)"
proof (induction p c qs rule: runs_from.induct)
  case (2 p c q qs)
  then show ?case
    using hd_runs_from [of q 1 qs] by (cases "q = p + c") auto
qed simp

text \<open>The comparison of \<^verbatim>\<open>IsValidPageGroup\<close> on runs: \<open>m\<close> pages at \<open>a\<close> and then \<open>R\<close> are left of the group.\<close>

fun agree :: "(nat \<times> nat) list \<Rightarrow> nat \<Rightarrow> nat \<Rightarrow> (nat \<times> nat) list \<Rightarrow> bool" where
  "agree [] a m R = True"
| "agree ((p, c) # rs) a 0 [] = False"
| "agree ((p, c) # rs) a 0 ((b, n) # R) =
     (if rs = [] then b = p \<and> n = c else b = p \<and> c \<le> n \<and> agree rs (b + c) (n - c) R)"
| "agree ((p, c) # rs) a (Suc m) R =
     (if rs = [] then a = p \<and> Suc m = c else a = p \<and> c \<le> Suc m \<and> agree rs (a + c) (Suc m - c) R)"

lemma agree_partial:
  assumes "0 < m" "p \<noteq> a"
  shows "\<not> agree ((p, c) # rs) a m R"
  using assms by (cases m) auto

lemma agree_prefix:
  assumes "maximal_runs rs" "\<forall>(q, d)\<in>set rs. 0 < d" "\<forall>(q, d)\<in>set R. 0 < d"
  shows "agree rs a m R \<longleftrightarrow> (if m = 0 then prefix rs R else prefix rs ((a, m) # R))"
  using assms
proof (induction rs a m R rule: agree.induct)
  case (3 p c rs a b n R)
  show ?case
  proof (cases rs)
    case (Cons r rs')
    obtain q d where r: "r = (q, d)"
      by force
    have "q \<noteq> p + c" "0 < c" "0 < n"
      using 3(2-4) Cons r by auto
    moreover have "agree rs (p + c) (n - c) R \<longleftrightarrow> n - c = 0 \<and> prefix rs R"
      if "b = p" "c \<le> n"
      using 3 that Cons r calculation(1) agree_partial [of "n - c" q "p + c" d rs' R] by (cases "n - c = 0") auto
    ultimately show ?thesis
      using Cons by auto
  qed auto
next
  case (4 p c rs a m R)
  show ?case
  proof (cases rs)
    case (Cons r rs')
    obtain q d where r: "r = (q, d)"
      by force
    have "q \<noteq> p + c" "0 < c"
      using 4(2-4) Cons r by auto
    moreover have "agree rs (p + c) (Suc m - c) R \<longleftrightarrow> Suc m - c = 0 \<and> prefix rs R"
      if "a = p" "c \<le> Suc m"
      using 4 that Cons r calculation(1) agree_partial [of "Suc m - c" q "p + c" d rs' R]
      by (cases "Suc m - c = 0") auto
    ultimately show ?thesis
      using Cons by auto
  qed auto
qed auto

section \<open>Traversal\<close>

text \<open>The number of the physical page behind a virtual page.\<close>

definition phys_page :: "PageTable \<Rightarrow> nat \<Rightarrow> nat option" where
  "phys_page pt v =
     (if v < backing_size pt \<and> backing_addr pt v \<noteq> 0
      then Some (unat (backing_addr pt v + of_nat (v * 4096)) div 4096) else None)"

definition phys_range :: "PageTable \<Rightarrow> nat \<Rightarrow> nat \<Rightarrow> nat option list" where
  "phys_range pt v n = map (phys_page pt) [v..<v + n]"

text \<open>Pages have 4 KiB and are mapped to aligned physical addresses with a 32-bit page number.\<close>

definition table_ok :: "PageTable \<Rightarrow> bool" where
  "table_ok pt \<longleftrightarrow> page_size pt = 4096 \<and> backing_size pt \<le> 2 ^ 52 \<and>
     (\<forall>v < backing_size pt. backing_addr pt v \<noteq> 0 \<longrightarrow>
        unat (backing_addr pt v + of_nat (v * 4096)) mod 4096 = 0 \<and>
        unat (backing_addr pt v + of_nat (v * 4096)) div 4096 < 2 ^ 32 - 1)"

definition page_word :: "nat \<Rightarrow> u64" where
  "page_word n = of_nat (n * 4096)"

definition context_at :: "nat \<Rightarrow> TraversalContext" where
  "context_at v = \<lparr>next_page = of_nat v, next_offset = page_word v\<rparr>"

lemma unat_page_word: "n < 2 ^ 52 \<Longrightarrow> unat (page_word n) = n * 4096"
  by (simp add: page_word_def unat_of_nat del: of_nat_mult)

lemma page_word_add: "page_word a + page_word b = page_word (a + b)"
  by (simp add: page_word_def algebra_simps)

lemma page_word_Suc: "page_word a + 4096 = page_word (Suc a)"
  by (simp add: page_word_def algebra_simps)

lemma page_word_eq_iff: "a < 2 ^ 52 \<Longrightarrow> b < 2 ^ 52 \<Longrightarrow> page_word a = page_word b \<longleftrightarrow> a = b"
  by (simp add: word_eq_unat_iff unat_page_word)

lemma page_word_less_iff: "a < 2 ^ 52 \<Longrightarrow> b < 2 ^ 52 \<Longrightarrow> page_word a < page_word b \<longleftrightarrow> a < b"
  by (simp add: word_less_nat_alt unat_page_word)

lemma page_word_div: "a < 2 ^ 52 \<Longrightarrow> page_word a div 4096 = of_nat a"
  by (simp add: word_eq_unat_iff unat_div_distrib unat_page_word unat_of_nat)

lemma phys_page_bound: "table_ok pt \<Longrightarrow> phys_page pt v = Some q \<Longrightarrow> q < 2 ^ 32 - 1"
  by (auto simp: table_ok_def phys_page_def split: if_splits)

lemma ContinueTraversal_at:
  assumes "table_ok pt" "v < 2 ^ 52"
  shows "ContinueTraversal pt (context_at v) =
    Some (case phys_page pt v of
      None \<Rightarrow> (False, \<lparr>phys_addr = 0, block_size = 4096\<rparr>, context_at (Suc v))
    | Some q \<Rightarrow> (True, \<lparr>phys_addr = page_word q, block_size = 4096\<rparr>, context_at (Suc v)))"
proof -
  have v: "unat (of_nat v :: u64) = v"
    using assms(2) by (simp add: unat_of_nat)
  have aligned: "page_word (unat a div 4096) = a" if "unat a mod 4096 = 0" for a :: u64
  proof -
    have "unat a div 4096 * 4096 = unat a"
      using that by (simp add: mod_0_imp_dvd)
    then show ?thesis
      unfolding page_word_def by (simp del: of_nat_mult)
  qed
  have c: "\<lparr>next_page = of_nat v + 1, next_offset = page_word v + 4096\<rparr> = context_at (Suc v)"
    by (simp add: context_at_def page_word_Suc add.commute)
  show ?thesis
    using assms v c aligned [of "backing_addr pt v + of_nat (v * 4096)"]
    by (auto simp: ContinueTraversal_def Let_def context_at_def backing_get_def phys_page_def table_ok_def
        page_word_def)
qed

lemma BeginTraversal_at:
  assumes "table_ok pt" "v < 2 ^ 52"
  shows "BeginTraversal pt (page_word v) = ContinueTraversal pt (context_at v)"
  using assms by (simp add: BeginTraversal_def table_ok_def context_at_def page_word_div)

section \<open>MakePageGroup\<close>

definition run_end :: "nat \<times> nat \<Rightarrow> nat" where
  "run_end r = fst r + snd r"

lemma block_info_end:
  assumes "run_end (bi_start b, bi_count b) < 2 ^ 32"
  shows "KBlockInfo_GetEndAddress b = page_word (run_end (bi_start b, bi_count b))"
proof -
  have "unat (m_page_index b + bi_num_pages b) = run_end (bi_start b, bi_count b)"
    using assms by (simp add: run_end_def bi_start_def bi_count_def unat_plus_no_wrap)
  then show ?thesis
    using assms
    by (simp add: KBlockInfo_GetEndAddress_def page_word_def word_eq_unat_iff unat_mult_no_wrap unat_of_nat
        del: of_nat_mult)
qed

text \<open>A block that does not continue the last one is appended.\<close>

lemma AddBlock_new:
  assumes "free_nodes mgr = x # xs" "0 < c" "p + c < 2 ^ 32"
    and "\<forall>r\<in>set (group_runs pg). run_end r < 2 ^ 32"
    and "pg \<noteq> [] \<longrightarrow> run_end (last (group_runs pg)) \<noteq> p"
  obtains b mgr' where "AddBlock obj_size (page_word p) (of_nat c) pg mgr = Some (ResultSuccess, pg @ [b], mgr')"
    "bi_start b = p" "bi_count b = c" "bi_ptr b = x" "free_nodes mgr' = xs"
proof -
  obtain mgr' where mgr': "KDynamicResourceManager_Allocate obj_size mgr = Some (Some x, mgr')" "free_nodes mgr' = xs"
    using Allocate_from_list [OF assms(1), of obj_size] by blast
  have c: "unat (of_nat c :: u64) = c" "of_nat c \<noteq> (0 :: u64)"
    using assms(2,3) by (simp_all add: unat_of_nat word_eq_unat_iff)
  have pw: "unat (page_word p) = p * 4096"
    using assms(3) by (simp add: unat_page_word)
  have "of_nat c * PageSize = page_word c"
    by (simp add: page_word_def)
  then have lt: "page_word p < page_word p + of_nat c * PageSize"
    using assms(2,3) by (simp add: page_word_add page_word_less_iff)
  have no: "TryConcatenate (page_word p) (of_nat c) (last pg) = None" if "pg \<noteq> []"
  proof -
    have l: "last (group_runs pg) = (bi_start (last pg), bi_count (last pg))"
      "last (group_runs pg) \<in> set (group_runs pg)"
      using that by (simp_all add: group_runs_def last_map)
    then have "run_end (last (group_runs pg)) < 2 ^ 32"
      using assms(4) by blast
    with l(1) have "KBlockInfo_GetEndAddress (last pg) = page_word (run_end (last (group_runs pg)))"
      using block_info_end [of "last pg"] by simp
    moreover have "page_word p \<noteq> page_word (run_end (last (group_runs pg)))"
      using assms(3,5) that \<open>run_end (last (group_runs pg)) < 2 ^ 32\<close> by (simp add: page_word_eq_iff)
    ultimately show ?thesis
      by (simp add: TryConcatenate_def)
  qed
  let ?b = "\<lparr>bi_ptr = x, m_page_index = of_nat p, bi_num_pages = of_nat c\<rparr>"
  have cast: "(ucast (of_nat n :: u64) :: u32) = of_nat n" if "n < 2 ^ 32" for n
    using that by (simp add: word_eq_unat_iff unat_ucast_64_32_small unat_of_nat)
  have "IsAligned (page_word p) PageSize"
    unfolding IsAligned_PageSize_iff pw by simp
  then have init: "KBlockInfo_Initialize x (page_word p) (of_nat c) = Some ?b"
    using assms(3) cast [of c] cast [of p]
    by (simp add: KBlockInfo_Initialize_def page_word_div word_eq_unat_iff unat_of_nat)
  have "AddBlock obj_size (page_word p) (of_nat c) pg mgr = Some (ResultSuccess, pg @ [?b], mgr')"
    using lt c(2) no mgr'(1) init by (simp add: AddBlock_def)
  moreover have "bi_start ?b = p" "bi_count ?b = c" "bi_ptr ?b = x"
    using assms(3) by (simp_all add: bi_start_def bi_count_def unat_of_nat)
  ultimately show ?thesis
    using mgr'(2) by (rule that)
qed

definition heap_page :: "KPageTableBase \<Rightarrow> nat \<Rightarrow> bool" where
  "heap_page t q \<longleftrightarrow> IsHeapPhysicalAddress t (page_word q)"

text \<open>The state of the loop: the pages from \<open>v\<close> are left, the current run is \<open>c\<close> pages from \<open>p\<close>.\<close>

definition group_so_far :: "KPageGroup \<Rightarrow> nat \<Rightarrow> nat \<Rightarrow> bool" where
  "group_so_far pg p c \<longleftrightarrow> 0 < c \<and> p + c < 2 ^ 32 \<and> (\<forall>r\<in>set (group_runs pg). run_end r < 2 ^ 32) \<and>
     (pg \<noteq> [] \<longrightarrow> run_end (last (group_runs pg)) \<noteq> p)"

lemma length_phys_range [simp]: "length (phys_range pt v n) = n"
  by (simp add: phys_range_def)

lemma group_runs_Nil [simp]: "group_runs [] = []"
  by (simp add: group_runs_def)

lemma phys_range_Suc: "phys_range pt v (Suc n) = phys_page pt v # phys_range pt (Suc v) n"
  unfolding phys_range_def by (simp add: upt_conv_Cons del: upt_Suc)

definition make_outcome_ok ::
    "KPageTableBase \<Rightarrow> nat option list \<Rightarrow> nat \<Rightarrow> nat \<Rightarrow> u64 \<Rightarrow> KPageGroup \<Rightarrow> KDynamicResourceManager \<Rightarrow>
     traversal_outcome option \<Rightarrow> bool" where
  "make_outcome_ok t opts p c tot pg mgr out \<longleftrightarrow>
     (if None \<in> set opts
      then \<exists>pg' mgr'. out = Some (TraversalFailed ResultInvalidCurrentMemory pg' mgr')
      else \<exists>pg' mgr' p' c'. out = Some (TraversalDone (page_word p') (page_word c') tot pg' mgr') \<and>
        group_runs pg' @ [(p', c')] = group_runs pg @ runs_from p c (map the opts) \<and>
        group_so_far pg' p' c' \<and> heap_page t p' \<and>
        length (free_nodes mgr) \<le> length opts + length (free_nodes mgr'))"

lemma make_page_group_loop_ok:
  assumes "table_ok (m_impl t)" "v + n \<le> 2 ^ 51" "k + n \<le> 2 ^ 51"
    and "heap_page t p" "\<forall>q. Some q \<in> set (phys_range (m_impl t) v n) \<longrightarrow> heap_page t q"
    and "group_so_far pg p c" "n \<le> length (free_nodes mgr)"
  shows "make_outcome_ok t (phys_range (m_impl t) v n) p c (page_word (k + n)) pg mgr
    (make_page_group_loop obj_size t (page_word (k + n)) (context_at v) (page_word p) (page_word c)
      (page_word k) pg mgr)"
  using assms
proof (induction n arbitrary: v k p c pg mgr)
  case 0
  then show ?case
    by (subst make_page_group_loop.simps) (simp add: phys_range_def make_outcome_ok_def)
next
  case (Suc n)
  let ?loop = "make_page_group_loop obj_size t (page_word (k + Suc n))"
  note ct = ContinueTraversal_at [OF Suc.prems(1), of v]
  have less: "page_word k < page_word (k + Suc n)"
    using Suc.prems(3) by (simp add: page_word_less_iff)
  have b: "Suc v + n \<le> 2 ^ 51" "Suc k + n \<le> 2 ^ 51" "v < 2 ^ 52" and kn: "k + Suc n = Suc k + n"
    using Suc.prems(2,3) by simp_all
  show ?case
  proof (cases "phys_page (m_impl t) v")
    case None
    then show ?thesis
      using less ct b(3) by (subst make_page_group_loop.simps) (simp add: phys_range_Suc make_outcome_ok_def)
  next
    case (Some q)
    have q: "q < 2 ^ 32 - 1" "heap_page t q"
      using phys_page_bound [OF Suc.prems(1) Some] Suc.prems(5) Some by (auto simp: phys_range_Suc)
    have sf: "0 < c" "p + c < 2 ^ 32" "\<forall>r\<in>set (group_runs pg). run_end r < 2 ^ 32"
      "pg \<noteq> [] \<longrightarrow> run_end (last (group_runs pg)) \<noteq> p"
      using Suc.prems(6) by (simp_all add: group_so_far_def)
    have rest: "\<forall>q. Some q \<in> set (phys_range (m_impl t) (Suc v) n) \<longrightarrow> heap_page t q"
      using Suc.prems(5) by (simp add: phys_range_Suc)
    show ?thesis
    proof (cases "q = p + c")
      case True
      have "group_so_far pg p (Suc c)"
        using sf q(1) True by (simp add: group_so_far_def)
      note IH = Suc.IH [OF Suc.prems(1) b(1,2) Suc.prems(4) rest this Suc_leD [OF Suc.prems(7)], folded kn]
      have "?loop (context_at v) (page_word p) (page_word c) (page_word k) pg mgr =
          ?loop (context_at (Suc v)) (page_word p) (page_word (Suc c)) (page_word (Suc k)) pg mgr"
        using less ct b(3) Some True
        by (subst make_page_group_loop.simps) (simp add: page_word_add page_word_Suc)
      with IH show ?thesis
        using Some True by (simp add: phys_range_Suc make_outcome_ok_def split: if_splits) (metis le_SucI)
    next
      case False
      obtain x xs where fx: "free_nodes mgr = x # xs"
        using Suc.prems(7) by (cases "free_nodes mgr") auto
      obtain b' mgr1 where ab: "AddBlock obj_size (page_word p) (of_nat c) pg mgr = Some (ResultSuccess, pg @ [b'], mgr1)"
        "bi_start b' = p" "bi_count b' = c" "free_nodes mgr1 = xs"
        using AddBlock_new [OF fx sf] by metis
      have gr: "group_runs (pg @ [b']) = group_runs pg @ [(p, c)]"
        using ab(2,3) by (simp add: group_runs_def)
      have gs: "group_so_far (pg @ [b']) q 1"
        using q(1) sf False gr by (auto simp: group_so_far_def run_end_def)
      have nl: "n \<le> length (free_nodes mgr1)"
        using Suc.prems(7) ab(4) fx by simp
      note IH = Suc.IH [OF Suc.prems(1) b(1,2) q(2) rest gs nl, folded kn]
      have ne: "page_word q \<noteq> page_word p + page_word c"
        using False q(1) sf(2) by (simp add: page_word_add page_word_eq_iff)
      have cdiv: "page_word c div 4096 = of_nat c"
        using sf(2) by (simp add: page_word_div)
      have one: "page_word 1 = 4096"
        by (simp add: page_word_def)
      have "?loop (context_at v) (page_word p) (page_word c) (page_word k) pg mgr =
          ?loop (context_at (Suc v)) (page_word q) (page_word 1) (page_word (Suc k)) (pg @ [b']) mgr1"
        using less ct b(3) Some ne ab(1) cdiv Suc.prems(4) unfolding one
        by (subst make_page_group_loop.simps) (simp add: heap_page_def page_word_Suc)
      with IH show ?thesis
        using Some False gr ab(4) fx by (auto simp: phys_range_Suc make_outcome_ok_def split: if_splits)
    qed
  qed
qed

text \<open>The first page of a range is aligned, so that the first step takes one page.\<close>

lemma page_word_low_bits: "n < 2 ^ 52 \<Longrightarrow> page_word n AND 4095 = 0"
  using and_mask_eq_0_iff [of "page_word n" 12] by (simp add: unat_page_word mask_eq_exp_minus_1)

lemma MakePageGroup_ok:
  assumes tb: "table_ok (m_impl t)" "v + n \<le> 2 ^ 51" "0 < n"
    and heap: "\<forall>q. Some q \<in> set (phys_range (m_impl t) v n) \<longrightarrow> heap_page t q"
    and nodes: "n \<le> length (free_nodes mgr)"
  shows "if None \<in> set (phys_range (m_impl t) v n)
    then \<exists>pg mgr'. MakePageGroup obj_size t [] (page_word v) (of_nat n) mgr =
      Some (ResultInvalidCurrentMemory, pg, mgr')
    else \<exists>pg mgr'. MakePageGroup obj_size t [] (page_word v) (of_nat n) mgr = Some (ResultSuccess, pg, mgr') \<and>
      group_runs pg = runs (map the (phys_range (m_impl t) v n)) \<and> (\<forall>r\<in>set (group_runs pg). run_end r < 2 ^ 32)"
proof -
  obtain n' where n': "n = Suc n'"
    using tb(3) by (cases n) auto
  have bt: "BeginTraversal (m_impl t) (page_word v) = Some (case phys_page (m_impl t) v of
      None \<Rightarrow> (False, \<lparr>phys_addr = 0, block_size = 4096\<rparr>, context_at (Suc v))
    | Some q \<Rightarrow> (True, \<lparr>phys_addr = page_word q, block_size = 4096\<rparr>, context_at (Suc v)))"
    using BeginTraversal_at [OF tb(1), of v] ContinueTraversal_at [OF tb(1), of v] tb(2,3) by simp
  have sz: "of_nat n * PageSize = page_word (1 + n')"
    by (simp add: page_word_def n' algebra_simps)
  show ?thesis
  proof (cases "phys_page (m_impl t) v")
    case None
    then show ?thesis
      using bt by (simp add: MakePageGroup_def n' phys_range_Suc)
  next
    case (Some q)
    have q: "q < 2 ^ 32 - 1" "heap_page t q"
      using phys_page_bound [OF tb(1) Some] heap Some by (auto simp: phys_range_Suc n')
    have rest: "\<forall>q. Some q \<in> set (phys_range (m_impl t) (Suc v) n') \<longrightarrow> heap_page t q"
      using heap by (simp add: phys_range_Suc n')
    have gs: "group_so_far [] q 1"
      using q(1) by (simp add: group_so_far_def group_runs_def)
    define out where "out = make_page_group_loop obj_size t (page_word (1 + n')) (context_at (Suc v))
      (page_word q) (page_word 1) (page_word 1) [] mgr"
    have bounds: "Suc v + n' \<le> 2 ^ 51" "1 + n' \<le> 2 ^ 51" "n' \<le> length (free_nodes mgr)"
      using tb(2) nodes n' by simp_all
    have loop: "make_outcome_ok t (phys_range (m_impl t) (Suc v) n') q 1 (page_word (1 + n')) [] mgr out"
      unfolding out_def by (rule make_page_group_loop_ok [OF tb(1) bounds(1,2) q(2) rest gs bounds(3)])
    have one: "page_word 1 = 4096"
      by (simp add: page_word_def)
    have run: "MakePageGroup obj_size t [] (page_word v) (of_nat n) mgr =
        Option.bind out (make_page_group_finish obj_size t (page_word (1 + n')))"
      using bt Some q(1) page_word_low_bits [of q]
      unfolding MakePageGroup_def sz out_def one by (simp add: Let_def)
    show ?thesis
    proof (cases "None \<in> set (phys_range (m_impl t) (Suc v) n')")
      case True
      then show ?thesis
        using loop run by (auto simp: make_outcome_ok_def make_page_group_finish_def phys_range_Suc n')
    next
      case False
      then obtain pg' mgr' p' c' where o: "out = Some (TraversalDone (page_word p') (page_word c') (page_word (1 + n')) pg' mgr')"
        "group_runs pg' @ [(p', c')] = runs_from q 1 (map the (phys_range (m_impl t) (Suc v) n'))"
        "group_so_far pg' p' c'" "heap_page t p'" "length (free_nodes mgr) \<le> n' + length (free_nodes mgr')"
        using loop by (auto simp: make_outcome_ok_def)
      have sf: "0 < c'" "p' + c' < 2 ^ 32" "\<forall>r\<in>set (group_runs pg'). run_end r < 2 ^ 32"
        "pg' \<noteq> [] \<longrightarrow> run_end (last (group_runs pg')) \<noteq> p'"
        using o(3) by (simp_all add: group_so_far_def)
      obtain x xs where fx: "free_nodes mgr' = x # xs"
        using o(5) nodes n' by (cases "free_nodes mgr'") auto
      obtain b mgr'' where ab: "AddBlock obj_size (page_word p') (of_nat c') pg' mgr' = Some (ResultSuccess, pg' @ [b], mgr'')"
        "bi_start b = p'" "bi_count b = c'"
        using AddBlock_new [OF fx sf] by metis
      have "page_word c' div 4096 = of_nat c'"
        using sf(2) by (simp add: page_word_div)
      then have "MakePageGroup obj_size t [] (page_word v) (of_nat n) mgr = Some (ResultSuccess, pg' @ [b], mgr'')"
        using run o(1,4) ab(1) by (simp add: make_page_group_finish_def Let_def heap_page_def)
      moreover have "group_runs (pg' @ [b]) = runs (map the (phys_range (m_impl t) v n))"
        using o(2) ab(2,3) Some by (simp add: group_runs_def phys_range_Suc n')
      moreover have "\<forall>r\<in>set (group_runs (pg' @ [b])). run_end r < 2 ^ 32"
        using sf(2,3) ab(2,3) by (auto simp: group_runs_def run_end_def)
      ultimately show ?thesis
        using False Some by (simp add: phys_range_Suc n')
    qed
  qed
qed

section \<open>IsValidPageGroup\<close>

definition cursor_at :: "GroupCursor \<Rightarrow> nat \<Rightarrow> nat \<Rightarrow> (nat \<times> nat) list \<Rightarrow> bool" where
  "cursor_at c a m R \<longleftrightarrow> cur_it c \<noteq> [] \<and> cur_block_address c = page_word a \<and> cur_block_pages c = of_nat m \<and>
     group_runs (tl (cur_it c)) = R \<and> a + m < 2 ^ 32 \<and> (\<forall>r\<in>set R. run_end r < 2 ^ 32)"

lemma block_info_words:
  "KBlockInfo_GetAddress b = page_word (bi_start b)" "KBlockInfo_GetNumPages b = of_nat (bi_count b)"
proof -
  have "unat (m_page_index b) < 2 ^ 32"
    using unsigned_less [of "m_page_index b"] by simp
  then show "KBlockInfo_GetAddress b = page_word (bi_start b)"
    by (simp add: KBlockInfo_GetAddress_def page_word_def bi_start_def word_eq_unat_iff unat_mult_no_wrap
        unat_of_nat del: of_nat_mult)
  show "KBlockInfo_GetNumPages b = of_nat (bi_count b)"
    by (simp add: KBlockInfo_GetNumPages_def bi_count_def word_eq_unat_iff)
qed

text \<open>Moving to the next block when the current one is used up.\<close>

lemma UpdateCurrentIterator_at:
  assumes "cursor_at c a m R"
  shows "if m = 0 \<and> R = [] then \<exists>c'. UpdateCurrentIterator c = Some (False, c')
    else \<exists>c' a' m' R'. UpdateCurrentIterator c = Some (True, c') \<and> cursor_at c' a' m' R' \<and>
      (a', m', R') = (if m = 0 then (fst (hd R), snd (hd R), tl R) else (a, m, R))"
proof (cases "m = 0")
  case True
  obtain b bs where it: "cur_it c = b # bs"
    using assms by (cases "cur_it c") (auto simp: cursor_at_def)
  show ?thesis
  proof (cases bs)
    case Nil
    then show ?thesis
      using assms True it by (simp add: cursor_at_def UpdateCurrentIterator_def group_runs_def)
  next
    case (Cons b' bs')
    then show ?thesis
      using assms True it
      by (auto simp: cursor_at_def UpdateCurrentIterator_def group_runs_def block_info_words run_end_def)
  qed
next
  case False
  then have "cur_block_pages c \<noteq> 0"
    using assms by (auto simp: cursor_at_def word_eq_unat_iff unat_of_nat)
  then show ?thesis
    using assms False by (simp add: UpdateCurrentIterator_def)
qed

lemma agree_more:
  assumes "rs \<noteq> []" "(a', m', R') = (if m = 0 then (fst (hd R), snd (hd R), tl R) else (a, m, R))" "\<not> (m = 0 \<and> R = [])"
  shows "agree ((p, c) # rs) a m R \<longleftrightarrow> a' = p \<and> c \<le> m' \<and> agree rs (a' + c) (m' - c) R'"
  using assms by (cases m; cases R) auto

lemma agree_last:
  assumes "(a', m', R') = (if m = 0 then (fst (hd R), snd (hd R), tl R) else (a, m, R))" "\<not> (m = 0 \<and> R = [])"
  shows "agree [(p, c)] a m R \<longleftrightarrow> a' = p \<and> m' = c"
  using assms by (cases m; cases R) auto

definition heap_runs :: "KPageTableBase \<Rightarrow> (nat \<times> nat) list \<Rightarrow> bool" where
  "heap_runs t rs \<longleftrightarrow> (\<forall>r\<in>set rs. heap_page t (fst r))"

lemma of_nat_word_less: "a < 2 ^ 64 \<Longrightarrow> b < 2 ^ 64 \<Longrightarrow> (of_nat a :: u64) < of_nat b \<longleftrightarrow> a < b"
  by (simp add: word_less_nat_alt unat_of_nat)

lemma valid_finish_at:
  assumes "cursor_at cur a m R" "p + c < 2 ^ 32"
  shows "valid_page_group_finish t sz (CompareDone (page_word p) (page_word c) sz cur) =
    Some (heap_runs t [(p, c)] \<and> agree [(p, c)] a m R)"
proof (cases "m = 0 \<and> R = []")
  case True
  then show ?thesis
    using UpdateCurrentIterator_at [OF assms(1)] by (auto simp: valid_page_group_finish_def)
next
  case False
  then obtain c' a' m' R' where u: "UpdateCurrentIterator cur = Some (True, c')" "cursor_at c' a' m' R'"
    "(a', m', R') = (if m = 0 then (fst (hd R), snd (hd R), tl R) else (a, m, R))"
    using UpdateCurrentIterator_at [OF assms(1)] by auto
  have "a' + m' < 2 ^ 32"
    using u(2) by (simp add: cursor_at_def)
  then have "page_word a' = page_word p \<longleftrightarrow> a' = p" "(of_nat m' :: u64) = of_nat c \<longleftrightarrow> m' = c"
    using assms(2) by (simp_all add: page_word_eq_iff) (simp add: word_eq_unat_iff unat_of_nat)
  then show ?thesis
    using u(1,2) agree_last [OF u(3) False] assms(2)
    by (auto simp: valid_page_group_finish_def heap_runs_def heap_page_def cursor_at_def page_word_div)
qed

lemma valid_page_group_loop_ok:
  assumes "table_ok (m_impl t)" "v + n \<le> 2 ^ 51" "k + n \<le> 2 ^ 51"
    and "cursor_at cur a m R" "0 < c" "p + c < 2 ^ 32"
  defines "opts \<equiv> phys_range (m_impl t) v n"
  shows "Option.bind (valid_page_group_loop t (page_word (k + n)) (context_at v) (page_word p) (page_word c)
      (page_word k) cur) (valid_page_group_finish t (page_word (k + n))) =
    Some (None \<notin> set opts \<and> heap_runs t (runs_from p c (map the opts)) \<and> agree (runs_from p c (map the opts)) a m R)"
  using assms(1-6) unfolding opts_def
proof (induction n arbitrary: v k p c cur a m R)
  case 0
  then show ?case
    by (subst valid_page_group_loop.simps) (simp add: phys_range_def valid_finish_at)
next
  case (Suc n)
  let ?loop = "valid_page_group_loop t (page_word (k + Suc n))" and ?opts = "phys_range (m_impl t) (Suc v) n"
  note ct = ContinueTraversal_at [OF Suc.prems(1), of v]
  have less: "page_word k < page_word (k + Suc n)"
    using Suc.prems(3) by (simp add: page_word_less_iff)
  have b: "Suc v + n \<le> 2 ^ 51" "Suc k + n \<le> 2 ^ 51" "v < 2 ^ 52" and kn: "k + Suc n = Suc k + n"
    using Suc.prems(2,3) by simp_all
  show ?case
  proof (cases "phys_page (m_impl t) v")
    case None
    then show ?thesis
      using less ct b(3) by (subst valid_page_group_loop.simps) (simp add: phys_range_Suc valid_page_group_finish_def)
  next
    case (Some q)
    have q: "q < 2 ^ 32 - 1"
      using phys_page_bound [OF Suc.prems(1) Some] .
    show ?thesis
    proof (cases "q = p + c")
      case True
      have pc: "0 < Suc c" "p + Suc c < 2 ^ 32"
        using q True by simp_all
      note IH = Suc.IH [OF Suc.prems(1) b(1,2) Suc.prems(4) pc, folded kn]
      have "?loop (context_at v) (page_word p) (page_word c) (page_word k) cur =
          ?loop (context_at (Suc v)) (page_word p) (page_word (Suc c)) (page_word (Suc k)) cur"
        using less ct b(3) Some True
        by (subst valid_page_group_loop.simps) (simp add: page_word_add page_word_Suc)
      with IH show ?thesis
        using Some True by (simp add: phys_range_Suc)
    next
      case False
      have ne: "page_word q \<noteq> page_word p + page_word c"
        using False q Suc.prems(6) by (simp add: page_word_add page_word_eq_iff)
      have cdiv: "page_word c div 4096 = of_nat c"
        using Suc.prems(6) by (simp add: page_word_div)
      have one: "page_word 1 = 4096"
        by (simp add: page_word_def)
      have rs: "runs_from p c (map the (phys_range (m_impl t) v (Suc n))) = (p, c) # runs_from q 1 (map the ?opts)"
        using Some False by (simp add: phys_range_Suc)
      note step = valid_page_group_loop.simps [of t "page_word (k + Suc n)" "context_at v"]
      consider (bad) "\<not> heap_page t p" | (over) "heap_page t p" "m = 0 \<and> R = []"
        | (more) "heap_page t p" "\<not> (m = 0 \<and> R = [])"
        by blast
      then show ?thesis
      proof cases
        case bad
        then show ?thesis
          using less ct b(3) Some ne unfolding rs
          by (subst step) (simp add: heap_page_def heap_runs_def valid_page_group_finish_def)
      next
        case over
        then obtain c' where "UpdateCurrentIterator cur = Some (False, c')"
          using UpdateCurrentIterator_at [OF Suc.prems(4)] by auto
        then show ?thesis
          using less ct b(3) Some ne over unfolding rs
          by (subst step) (simp add: heap_page_def valid_page_group_finish_def Let_def)
      next
        case more
        then obtain c' a' m' R' where u: "UpdateCurrentIterator cur = Some (True, c')" "cursor_at c' a' m' R'"
          "(a', m', R') = (if m = 0 then (fst (hd R), snd (hd R), tl R) else (a, m, R))"
          using UpdateCurrentIterator_at [OF Suc.prems(4)] by auto
        have am: "a' + m' < 2 ^ 32" "cur_block_address c' = page_word a'" "cur_block_pages c' = of_nat m'"
          using u(2) by (simp_all add: cursor_at_def)
        have cmp: "(cur_block_address c' \<noteq> page_word p \<or> cur_block_pages c' < page_word c div 4096) \<longleftrightarrow>
            \<not> (a' = p \<and> c \<le> m')"
          using am Suc.prems(6) cdiv by (auto simp: page_word_eq_iff of_nat_word_less)
        note ag = agree_more [OF _ u(3) more(2), of "runs_from q 1 (map the ?opts)" p c]
        show ?thesis
        proof (cases "a' = p \<and> c \<le> m'")
          case False
          then have "\<not> agree ((p, c) # runs_from q 1 (map the ?opts)) a m R"
            and "cur_block_address c' \<noteq> page_word p \<or> cur_block_pages c' < page_word c div 4096"
            using ag cmp by auto
          then show ?thesis
            using less ct b(3) Some ne more(1) u(1) unfolding rs
            by (subst step) (simp add: heap_page_def valid_page_group_finish_def Let_def)
        next
          case True
          let ?c = "c'\<lparr>cur_block_address := cur_block_address c' + page_word c,
            cur_block_pages := cur_block_pages c' - page_word c div 4096\<rparr>"
          have "cursor_at ?c (a' + c) (m' - c) R'"
            using u(2) True cdiv by (simp add: cursor_at_def page_word_add)
          moreover have "q + 1 < 2 ^ 32"
            using q by simp
          ultimately have IH: "Option.bind (?loop (context_at (Suc v)) (page_word q) (page_word 1) (page_word (Suc k)) ?c)
              (valid_page_group_finish t (page_word (k + Suc n))) =
            Some (None \<notin> set ?opts \<and> heap_runs t (runs_from q 1 (map the ?opts)) \<and>
              agree (runs_from q 1 (map the ?opts)) (a' + c) (m' - c) R')"
            using Suc.IH [OF Suc.prems(1) b(1,2), of ?c "a' + c" "m' - c" R' 1 q, folded kn] by simp
          have "?loop (context_at v) (page_word p) (page_word c) (page_word k) cur =
              ?loop (context_at (Suc v)) (page_word q) (page_word 1) (page_word (Suc k)) ?c"
            using less ct b(3) Some ne more(1) u(1) cmp True unfolding one
            by (subst step) (simp add: heap_page_def page_word_Suc Let_def)
          with IH ag True more(1) show ?thesis
            unfolding rs using Some by (simp add: phys_range_Suc heap_runs_def)
        qed
      qed
    qed
  qed
qed

lemma IsValidPageGroup_ok:
  assumes tb: "table_ok (m_impl t)" "v + n \<le> 2 ^ 51" "0 < n"
    and pg: "group_runs pg = runs ps" "ps \<noteq> []" "\<forall>r\<in>set (group_runs pg). run_end r < 2 ^ 32"
  defines "qs \<equiv> map the (phys_range (m_impl t) v n)"
  shows "IsValidPageGroup t pg (page_word v) (of_nat n) =
    Some (None \<notin> set (phys_range (m_impl t) v n) \<and> heap_runs t (runs qs) \<and> prefix (runs qs) (runs ps))"
proof -
  obtain n' where n': "n = Suc n'"
    using tb(3) by (cases n) auto
  obtain p0 ps' where ps: "ps = p0 # ps'"
    using pg(2) by (cases ps) auto
  then obtain d rs where rs: "runs ps = (p0, d) # rs" "0 < d"
    using hd_runs_from [of p0 1 ps'] by auto
  then obtain b bs where b: "pg = b # bs" "bi_start b = p0" "bi_count b = d" "group_runs bs = rs"
    using pg(1) by (cases pg) (auto simp: group_runs_def)
  let ?c = "\<lparr>cur_it = pg, cur_block_address = KBlockInfo_GetAddress b, cur_block_pages = KBlockInfo_GetNumPages b\<rparr>"
  have cur: "cursor_at ?c p0 d rs"
    using b pg rs(1) by (auto simp: cursor_at_def block_info_words run_end_def)
  have bt: "BeginTraversal (m_impl t) (page_word v) = Some (case phys_page (m_impl t) v of
      None \<Rightarrow> (False, \<lparr>phys_addr = 0, block_size = 4096\<rparr>, context_at (Suc v))
    | Some q \<Rightarrow> (True, \<lparr>phys_addr = page_word q, block_size = 4096\<rparr>, context_at (Suc v)))"
    using BeginTraversal_at [OF tb(1), of v] ContinueTraversal_at [OF tb(1), of v] tb(2,3) by simp
  have sz: "of_nat n * PageSize = page_word (1 + n')"
    by (simp add: page_word_def n' algebra_simps)
  have one: "page_word 1 = 4096"
    by (simp add: page_word_def)
  show ?thesis
  proof (cases "phys_page (m_impl t) v")
    case None
    then show ?thesis
      using bt b(1) by (simp add: IsValidPageGroup_def n' phys_range_Suc)
  next
    case (Some q)
    have q: "q < 2 ^ 32 - 1"
      using phys_page_bound [OF tb(1) Some] .
    let ?opts = "phys_range (m_impl t) (Suc v) n'"
    have qs: "runs qs = runs_from q 1 (map the ?opts)"
      using Some by (simp add: qs_def n' phys_range_Suc)
    have "IsValidPageGroup t pg (page_word v) (of_nat n) =
        Option.bind (valid_page_group_loop t (page_word (1 + n')) (context_at (Suc v)) (page_word q) (page_word 1)
          (page_word 1) ?c) (valid_page_group_finish t (page_word (1 + n')))"
      using bt Some q page_word_low_bits [of q] b(1)
      unfolding IsValidPageGroup_def sz one by (simp add: Let_def)
    also have "\<dots> = Some (None \<notin> set ?opts \<and> heap_runs t (runs_from q 1 (map the ?opts)) \<and>
        agree (runs_from q 1 (map the ?opts)) p0 d rs)"
      using valid_page_group_loop_ok [OF tb(1) _ _ cur, of "Suc v" n' 1 1 q] tb(2) q n' by simp
    also have "agree (runs_from q 1 (map the ?opts)) p0 d rs \<longleftrightarrow> prefix (runs qs) (runs ps)"
    proof -
      have "\<forall>(q, d)\<in>set rs. 0 < d"
        using runs_from_positive [of 1 p0 ps'] ps rs(1) by auto
      then show ?thesis
        unfolding qs rs(1)
        using agree_prefix [OF maximal_runs_from runs_from_positive, of 1 rs q "map the ?opts" p0 d] rs(2) by simp
    qed
    finally show ?thesis
      using Some by (simp add: qs n' phys_range_Suc)
  qed
qed

text \<open>A group whose runs start with the runs of as many pages is the group of these pages.\<close>

lemma prefix_runs_iff:
  assumes "length ps = length qs"
  shows "prefix (runs qs) (runs ps) \<longleftrightarrow> qs = ps"
proof
  assume "prefix (runs qs) (runs ps)"
  then obtain rs where "runs ps = runs qs @ rs"
    by (auto simp: prefix_def)
  then have "expand_runs (runs ps) = expand_runs (runs qs) @ expand_runs rs"
    by (simp add: expand_runs_def)
  then have "ps = qs @ expand_runs rs"
    by (simp add: expand_runs)
  with assms show "qs = ps"
    by simp
qed simp

lemma runs_start_in: "0 < c \<Longrightarrow> r \<in> set (runs_from p c qs) \<Longrightarrow> fst r = p \<or> fst r \<in> set qs"
  by (induction p c qs rule: runs_from.induct) (auto split: if_splits)

lemma all_some_iff: "None \<notin> set xs \<and> map the xs = ys \<longleftrightarrow> xs = map Some ys"
proof (induction xs arbitrary: ys)
  case (Cons x xs)
  then show ?case
    by (cases x; cases ys) auto
qed auto

lemma heap_runs_pages: "\<forall>q\<in>set ps. heap_page t q \<Longrightarrow> heap_runs t (runs ps)"
  by (cases ps) (auto simp: heap_runs_def dest!: runs_start_in [rotated])

lemma made_group_valid:
  assumes "table_ok (m_impl t)" "0 < n" "v + n \<le> 2 ^ 51"
    and "phys_range (m_impl t) v n = map Some ps" "\<forall>q\<in>set ps. heap_page t q"
    and "n \<le> length (free_nodes mgr)"
  obtains pg mgr' where "MakePageGroup obj_size t [] (page_word v) (of_nat n) mgr = Some (ResultSuccess, pg, mgr')"
    "group_pages pg = ps"
    "\<forall>t' w. m_impl t' = m_impl t \<longrightarrow> user_pool_regions t' = user_pool_regions t \<longrightarrow> w + n \<le> 2 ^ 51 \<longrightarrow>
      IsValidPageGroup t' pg (page_word w) (of_nat n) = Some (phys_range (m_impl t) w n = map Some ps)"
proof -
  have heap: "\<forall>q. Some q \<in> set (phys_range (m_impl t) v n) \<longrightarrow> heap_page t q"
    using assms(4,5) by auto
  have "None \<notin> set (phys_range (m_impl t) v n)" "map the (phys_range (m_impl t) v n) = ps"
    unfolding assms(4) by (auto simp: comp_def)
  then obtain pg mgr' where m: "MakePageGroup obj_size t [] (page_word v) (of_nat n) mgr =
      Some (ResultSuccess, pg, mgr')" "group_runs pg = runs ps" "\<forall>r\<in>set (group_runs pg). run_end r < 2 ^ 32"
    using MakePageGroup_ok [OF assms(1,3,2) heap assms(6), of obj_size] by auto
  have len: "length ps = n"
    using assms(4) length_phys_range [of "m_impl t" v n] by simp
  then have ne: "ps \<noteq> []"
    using assms(2) by auto
  have valid: "IsValidPageGroup t' pg (page_word w) (of_nat n) = Some (phys_range (m_impl t) w n = map Some ps)"
    if t': "m_impl t' = m_impl t" "user_pool_regions t' = user_pool_regions t" and w: "w + n \<le> 2 ^ 51" for t' w
  proof -
    let ?o = "phys_range (m_impl t) w n"
    have "None \<notin> set ?o \<and> map the ?o = ps \<longleftrightarrow> ?o = map Some ps"
      by (rule all_some_iff)
    moreover have "prefix (runs (map the ?o)) (runs ps) \<longleftrightarrow> map the ?o = ps"
      using prefix_runs_iff [of ps "map the ?o"] len by simp
    moreover have "heap_runs t' (runs ps)"
      using assms(5) t'(2) by (intro heap_runs_pages) (simp add: heap_page_def IsHeapPhysicalAddress_def)
    ultimately show ?thesis
      using IsValidPageGroup_ok [of t', unfolded t'(1), OF assms(1) w assms(2) m(2) ne m(3)] by auto
  qed
  show thesis
    using m(2) valid by (intro that [OF m(1)]) (auto simp: group_pages_expand expand_runs)
qed

text \<open>
  C36. Page groups. For a mapped range of heap pages \<open>MakePageGroup\<close> succeeds with exactly its
  physical pages in order, and \<open>IsValidPageGroup\<close> accepts this group for a second range of
  the same length if and only if the second range is mapped to the same physical pages in the
  same order. In particular a group is valid for the range it was made of.
\<close>

theorem page_group_identifies_pages:
  assumes "table_ok (m_impl t)" "0 < n" "v + n \<le> 2 ^ 51" "w + n \<le> 2 ^ 51"
    and "phys_range (m_impl t) v n = map Some ps" "\<forall>q\<in>set ps. heap_page t q"
    and "n \<le> length (free_nodes mgr)"
  shows "\<exists>pg mgr'. MakePageGroup obj_size t [] (page_word v) (of_nat n) mgr = Some (ResultSuccess, pg, mgr') \<and>
    group_pages pg = ps \<and>
    IsValidPageGroup t pg (page_word w) (of_nat n) = Some (phys_range (m_impl t) w n = map Some ps)"
  using made_group_valid [OF assms(1-3,5-7), of obj_size] assms(4) by metis

definition sample_mapped_table :: KPageTableBase where
  "sample_mapped_table = sample_page_table
     \<lparr>m_impl := \<lparr>backing_addr = (\<lambda>v. if v = 1 \<or> v = 2 then 0x80000000 else if v = 3 then 0x80001000
          else if v = 8 \<or> v = 9 then 0x7FFF9000 else if v = 10 then 0x7FFFA000 else 0),
        backing_size = 16, current_address_space_width_in_bits = 16, page_size = 4096\<rparr>,
      user_pool_regions := [(0x80000000, 0x8FFFFFFF)]\<rparr>"

theorem page_group_identifies_pages_witness:
  "\<exists>pg mgr'. MakePageGroup 16 sample_mapped_table [] (page_word 1) (of_nat 2) sample_full_slab =
      Some (ResultSuccess, pg, mgr') \<and>
    group_pages pg = [0x80001, 0x80002] \<and>
    IsValidPageGroup sample_mapped_table pg (page_word 8) (of_nat 2) = Some True"
proof -
  have range: "phys_range (m_impl sample_mapped_table) 1 2 = map Some [0x80001, 0x80002]"
    "phys_range (m_impl sample_mapped_table) 8 2 = map Some [0x80001, 0x80002]"
    by (simp_all add: phys_range_def upt_conv_Cons phys_page_def sample_mapped_table_def)
  moreover have "table_ok (m_impl sample_mapped_table)"
    by (auto simp: table_ok_def sample_mapped_table_def)
  moreover have "\<forall>q\<in>set [0x80001, 0x80002]. heap_page sample_mapped_table q"
    by (simp add: heap_page_def IsHeapPhysicalAddress_def page_word_def sample_mapped_table_def)
  moreover have "2 \<le> length (free_nodes sample_full_slab)"
    by (simp add: sample_full_slab_def free_nodes_def)
  ultimately show ?thesis
    using page_group_identifies_pages [of sample_mapped_table 2 1 8 "[0x80001, 0x80002]" sample_full_slab 16]
    by (simp del: of_nat_numeral)
qed

end
