(* ===== verification/KPageTableLayout.thy ===== *)
theory KPageTableLayout
  imports KPageTableBase
begin

text \<open>
  The regions that \<^verbatim>\<open>InitializeForProcess\<close> chooses: whatever random numbers the host returns, the
  alias, heap, stack and kernel map regions have the sizes of the address space table, are
  aligned, lie in the address space beside the code of the process and do not overlap, so that
  none of the assertions of the function can fire.
\<close>

section \<open>Random numbers\<close>

text \<open>A draw below half of the range of 64 bits is accepted for every bound that is small enough.\<close>

definition small_draws :: "u64 list \<Rightarrow> nat" where
  "small_draws ds = length (filter (\<lambda>d. unat d < 2 ^ 63) ds)"

lemma draw_below_ok:
  assumes "2 ^ 63 \<le> unat mx" "0 < small_draws ds"
  obtains x ds' where "draw_below mx ds = Some (x, ds')" "small_draws ds \<le> Suc (small_draws ds')"
  using assms
proof (induction ds arbitrary: thesis)
  case Nil
  then show ?case
    by (simp add: small_draws_def)
next
  case (Cons d ds)
  show ?case
  proof (cases "d < mx")
    case True
    then show ?thesis
      using Cons.prems(1) by (simp add: small_draws_def)
  next
    case False
    then have "\<not> unat d < 2 ^ 63"
      using assms(1) by (simp add: word_less_nat_alt)
    then have "small_draws (d # ds) = small_draws ds"
      by (simp add: small_draws_def)
    with Cons False show ?thesis
      by (metis draw_below.simps(2))
  qed
qed

lemma accepted_range:
  assumes "0 < (r :: nat)" "r \<le> 2 ^ 63"
  shows "2 ^ 63 \<le> (2 ^ 64 - 1) div r * r" "(2 ^ 64 - 1) div r * r < (2 :: nat) ^ 64"
proof -
  have split: "(2 ^ 64 - 1) div r * r = (2 ^ 64 - 1) - (2 ^ 64 - 1) mod r"
    by (metis minus_mod_eq_div_mult)
  have "(2 ^ 64 - 1) mod r < r"
    using assms(1) by simp
  then show "2 ^ 63 \<le> (2 ^ 64 - 1) div r * r"
    unfolding split using assms(2) by simp
  have "(2 ^ 64 - 1 :: nat) - (2 ^ 64 - 1) mod r \<le> 2 ^ 64 - 1"
    by (rule diff_le_self)
  then show "(2 ^ 64 - 1) div r * r < (2 :: nat) ^ 64"
    unfolding split by simp
qed

lemma GenerateRandomRange_ok:
  assumes "unat b < 2 ^ 63" "Suc n \<le> small_draws ds"
  obtains x ds' where "GenerateRandomRange 0 b ds = Some (x, ds')" "unat x \<le> unat b"
    "n \<le> small_draws ds'"
proof -
  have r: "unat (b + 1) = unat b + 1"
    using assms(1) by (simp add: unat_plus_no_wrap)
  have m1: "unat (- 1 :: u64) = 2 ^ 64 - 1"
    by (simp add: unsigned_minus_1_eq_mask mask_eq_exp_minus_1)
  have bm: "b \<noteq> - 1"
    using assms(1) m1 by (auto simp: word_eq_unat_iff)
  let ?mx = "((- 1) div (b + 1)) * (b + 1) :: u64"
  have acc: "2 ^ 63 \<le> (2 ^ 64 - 1) div (unat b + 1) * (unat b + 1)"
    "(2 ^ 64 - 1) div (unat b + 1) * (unat b + 1) < 2 ^ 64"
    using accepted_range [of "unat b + 1"] assms(1) by simp_all
  have dv: "unat ((- 1 :: u64) div (b + 1)) = (2 ^ 64 - 1) div (unat b + 1)"
    by (simp only: unat_div_distrib r m1)
  have "unat ?mx = (2 ^ 64 - 1) div (unat b + 1) * (unat b + 1)"
    using unat_mult_no_wrap [of "(- 1) div (b + 1)" "b + 1"] acc(2) unfolding dv r by simp
  then have mx: "2 ^ 63 \<le> unat ?mx"
    using acc(1) by (simp only:)
  obtain x ds' where x: "draw_below ?mx ds = Some (x, ds')" "small_draws ds \<le> Suc (small_draws ds')"
    using draw_below_ok [OF mx, of ds] assms(2) by auto
  have "b + 1 \<noteq> 0"
    using r by (metis Suc_eq_plus1 nat.simps(3) unat_0)
  then have "GenerateRandomRange 0 b ds = Some (x mod (b + 1), ds')"
    using x(1) bm by (simp add: GenerateRandomRange_def GenerateUniformRange_def)
  moreover have "unat (x mod (b + 1)) \<le> unat b"
    using r by (simp add: unat_mod_distrib less_Suc_eq_le [symmetric])
  ultimately show ?thesis
    using x(2) assms(2) that [of "x mod (b + 1)" ds'] by simp
qed

lemma unat_lt_64: "unat (n :: u64) < 2 ^ 64"
  using unsigned_less [of n] by simp

lemma unat_of_nat_64: "n < 2 ^ 64 \<Longrightarrow> unat (of_nat n :: u64) = n"
  by (simp add: unat_of_nat)

lemma scaled_draw:
  assumes "unat x \<le> unat (n div RegionAlignment)"
  shows "unat (x * RegionAlignment) \<le> unat n" "unat (x * RegionAlignment) mod 0x200000 = 0"
proof -
  have le: "unat x \<le> unat n div 0x200000"
    using assms by (simp add: RegionAlignment_def unat_div_distrib)
  then have b: "unat x * 0x200000 \<le> unat n"
    using div_times_less_eq_dividend [of "unat n" "0x200000"] by (meson le_trans mult_le_mono1)
  have "unat (x * RegionAlignment) = unat x * 0x200000"
    using b unat_lt_64 [of n] unat_mult_no_wrap [of x RegionAlignment] by (simp add: RegionAlignment_def)
  with b show "unat (x * RegionAlignment) \<le> unat n" "unat (x * RegionAlignment) mod 0x200000 = 0"
    by simp_all
qed

text \<open>The random placements are aligned and leave room for the regions.\<close>

definition randoms_ok :: "nat \<Rightarrow> RegionRandoms \<Rightarrow> bool" where
  "randoms_ok n r \<longleftrightarrow>
     (\<forall>x\<in>{alias_rnd r, heap_rnd r, stack_rnd r, kmap_rnd r}. unat x \<le> n \<and> unat x mod 0x200000 = 0)"

lemma draw_regions_ok:
  assumes "4 \<le> small_draws ds"
  shows "\<exists>r ds'. draw_regions aslr n ds = Some (r, ds') \<and> randoms_ok (unat n) r"
proof (cases aslr)
  case True
  define b where "b = n div RegionAlignment"
  have "unat b \<le> unat n div 0x200000"
    by (simp add: b_def RegionAlignment_def unat_div_distrib)
  then have b: "unat b < 2 ^ 63"
    using unat_lt_64 [of n] by simp
  obtain x1 d1 where 1: "GenerateRandomRange 0 b ds = Some (x1, d1)" "unat x1 \<le> unat b" "3 \<le> small_draws d1"
    using GenerateRandomRange_ok [OF b, of 3 ds] assms by auto
  obtain x2 d2 where 2: "GenerateRandomRange 0 b d1 = Some (x2, d2)" "unat x2 \<le> unat b" "2 \<le> small_draws d2"
    using GenerateRandomRange_ok [OF b, of 2 d1] 1(3) by auto
  obtain x3 d3 where 3: "GenerateRandomRange 0 b d2 = Some (x3, d3)" "unat x3 \<le> unat b" "1 \<le> small_draws d3"
    using GenerateRandomRange_ok [OF b, of 1 d2] 2(3) by auto
  obtain x4 d4 where 4: "GenerateRandomRange 0 b d3 = Some (x4, d4)" "unat x4 \<le> unat b"
    using GenerateRandomRange_ok [OF b, of 0 d3] 3(3) by auto
  show ?thesis
    using True 1(1) 2(1) 3(1) 4(1) scaled_draw [OF 1(2) [unfolded b_def]] scaled_draw [OF 2(2) [unfolded b_def]]
      scaled_draw [OF 3(2) [unfolded b_def]] scaled_draw [OF 4(2) [unfolded b_def]]
    by (simp add: draw_regions_def randoms_ok_def b_def [symmetric])
qed (simp add: draw_regions_def randoms_ok_def)

section \<open>Placement\<close>

text \<open>
  Where each region ends up: at the start of the range, after its random distance and after the
  regions whose random distance is smaller. Ties are broken in the order kernel map, stack,
  alias, heap.
\<close>

lemmas place_defs = place_heap_alias_def place_stack_def place_kernel_map_def shift_alias_def
  shift_heap_def shift_stack_def shift_kernel_map_def Let_def

abbreviation placed :: "u64 \<Rightarrow> RegionSizes \<Rightarrow> RegionRandoms \<Rightarrow> KPageTableBase \<Rightarrow> KPageTableBase" where
  "placed lo z r t \<equiv> place_kernel_map lo z r (place_stack lo z r (place_heap_alias lo z r t))"

definition alias_place :: "u64 \<Rightarrow> RegionSizes \<Rightarrow> RegionRandoms \<Rightarrow> nat" where
  "alias_place lo z r = unat lo + unat (alias_rnd r) +
     (if alias_rnd r \<le> heap_rnd r then 0 else unat (heap_region_size z)) +
     (if alias_rnd r < stack_rnd r then 0 else unat (stack_region_size z)) +
     (if alias_rnd r < kmap_rnd r then 0 else unat (kernel_map_region_size z))"

definition heap_place :: "u64 \<Rightarrow> RegionSizes \<Rightarrow> RegionRandoms \<Rightarrow> nat" where
  "heap_place lo z r = unat lo + unat (heap_rnd r) +
     (if alias_rnd r \<le> heap_rnd r then unat (alias_region_size z) else 0) +
     (if heap_rnd r < stack_rnd r then 0 else unat (stack_region_size z)) +
     (if heap_rnd r < kmap_rnd r then 0 else unat (kernel_map_region_size z))"

definition stack_place :: "u64 \<Rightarrow> RegionSizes \<Rightarrow> RegionRandoms \<Rightarrow> nat" where
  "stack_place lo z r = unat lo + unat (stack_rnd r) +
     (if alias_rnd r < stack_rnd r then unat (alias_region_size z) else 0) +
     (if heap_rnd r < stack_rnd r then unat (heap_region_size z) else 0) +
     (if stack_rnd r < kmap_rnd r then 0 else unat (kernel_map_region_size z))"

definition kmap_place :: "u64 \<Rightarrow> RegionSizes \<Rightarrow> RegionRandoms \<Rightarrow> nat" where
  "kmap_place lo z r = unat lo + unat (kmap_rnd r) +
     (if alias_rnd r < kmap_rnd r then unat (alias_region_size z) else 0) +
     (if heap_rnd r < kmap_rnd r then unat (heap_region_size z) else 0) +
     (if stack_rnd r < kmap_rnd r then unat (stack_region_size z) else 0)"

lemmas place_unat = alias_place_def heap_place_def stack_place_def kmap_place_def

lemma place_alias_words:
  "m_alias_region_start (placed lo z r t) = of_nat (alias_place lo z r)"
  "m_alias_region_end (placed lo z r t) = of_nat (alias_place lo z r + unat (alias_region_size z))"
  by (simp_all add: place_defs place_unat)

lemma place_heap_words:
  "m_heap_region_start (placed lo z r t) = of_nat (heap_place lo z r)"
  "m_heap_region_end (placed lo z r t) = of_nat (heap_place lo z r + unat (heap_region_size z))"
  by (simp_all add: place_defs place_unat)

lemma place_stack_words:
  assumes "stack_region_size z \<noteq> 0"
  shows "m_stack_region_start (placed lo z r t) = of_nat (stack_place lo z r)"
    "m_stack_region_end (placed lo z r t) = of_nat (stack_place lo z r + unat (stack_region_size z))"
  using assms by (simp_all add: place_defs place_unat)

lemma place_kmap_words:
  assumes "stack_region_size z \<noteq> 0" "kernel_map_region_size z \<noteq> 0"
  shows "m_kernel_map_region_start (placed lo z r t) = of_nat (kmap_place lo z r)"
    "m_kernel_map_region_end (placed lo z r t) = of_nat (kmap_place lo z r + unat (kernel_map_region_size z))"
  using assms by (simp_all add: place_defs place_unat)

text \<open>Extents are pairs of a first address and of the address after the last one.\<close>

definition apart :: "nat \<times> nat \<Rightarrow> nat \<times> nat \<Rightarrow> bool" where
  "apart x y \<longleftrightarrow> snd x \<le> fst y \<or> snd y \<le> fst x"

definition needed_pages_size :: "RegionSizes \<Rightarrow> nat" where
  "needed_pages_size z = unat (alias_region_size z) + unat (heap_region_size z) +
     unat (stack_region_size z) + unat (kernel_map_region_size z)"

definition places :: "u64 \<Rightarrow> RegionSizes \<Rightarrow> RegionRandoms \<Rightarrow> (nat \<times> nat) list" where
  "places lo z r =
     [(alias_place lo z r, alias_place lo z r + unat (alias_region_size z)),
      (heap_place lo z r, heap_place lo z r + unat (heap_region_size z)),
      (stack_place lo z r, stack_place lo z r + unat (stack_region_size z)),
      (kmap_place lo z r, kmap_place lo z r + unat (kernel_map_region_size z))]"

lemma places_within:
  assumes "randoms_ok n r" "x \<in> set (places lo z r)"
  shows "unat lo \<le> fst x" "snd x \<le> unat lo + n + needed_pages_size z"
  using assms by (auto simp: places_def place_unat randoms_ok_def needed_pages_size_def)

lemma places_apart: "sorted_wrt apart (places lo z r)"
  by (simp add: places_def apart_def place_unat word_less_nat_alt word_le_nat_alt)

lemma add_aligned: "(a :: nat) mod m = 0 \<Longrightarrow> b mod m = 0 \<Longrightarrow> (a + b) mod m = 0"
  by (simp add: mod_eq_0_iff_dvd)

lemma places_aligned:
  assumes "randoms_ok n r" "unat lo mod 0x200000 = 0"
    and "unat (alias_region_size z) mod 0x200000 = 0" "unat (heap_region_size z) mod 0x200000 = 0"
      "unat (stack_region_size z) mod 0x200000 = 0" "unat (kernel_map_region_size z) mod 0x200000 = 0"
    and "x \<in> set (places lo z r)"
  shows "fst x mod 0x200000 = 0" "snd x mod 0x200000 = 0"
proof -
  have r: "unat (alias_rnd r) mod 0x200000 = 0" "unat (heap_rnd r) mod 0x200000 = 0"
    "unat (stack_rnd r) mod 0x200000 = 0" "unat (kmap_rnd r) mod 0x200000 = 0"
    using assms(1) by (simp_all add: randoms_ok_def)
  have "alias_place lo z r mod 0x200000 = 0"
    unfolding alias_place_def by (intro add_aligned) (simp_all add: assms r)
  moreover have "heap_place lo z r mod 0x200000 = 0"
    unfolding heap_place_def by (intro add_aligned) (simp_all add: assms r)
  moreover have "stack_place lo z r mod 0x200000 = 0"
    unfolding stack_place_def by (intro add_aligned) (simp_all add: assms r)
  moreover have "kmap_place lo z r mod 0x200000 = 0"
    unfolding kmap_place_def by (intro add_aligned) (simp_all add: assms r)
  ultimately show "fst x mod 0x200000 = 0" "snd x mod 0x200000 = 0"
    using assms(3-7) by (auto simp: places_def intro!: add_aligned)
qed

section \<open>What the address space tables give\<close>

text \<open>The extent of the code of the process, as \<^verbatim>\<open>InitializeForProcess\<close> reserves it.\<close>

definition code_extent :: "nat \<Rightarrow> u64 \<Rightarrow> u64 \<Rightarrow> nat \<times> nat" where
  "code_extent w code_address code_size =
     (if w = 39 then (unat (AlignDown code_address RegionAlignment),
                      unat (AlignUp (code_address + code_size) RegionAlignment))
      else if w = 36 then (0x8000000, 0x80000000)
      else (0x200000, 0x40000000))"

definition region_sizes :: "u32 \<Rightarrow> RegionSizes" where
  "region_sizes as_type =
     (let ty = as_type AND CreateProcessFlag_AddressSpaceMask in
      if ty = CreateProcessFlag_AddressSpace64Bit
      then \<lparr>alias_region_size = 0x1000000000, heap_region_size = 0x200000000,
            stack_region_size = 0x80000000, kernel_map_region_size = 0x1000000000\<rparr>
      else if ty = CreateProcessFlag_AddressSpace64BitDeprecated
      then \<lparr>alias_region_size = 0x180000000, heap_region_size = 0x200000000,
            stack_region_size = 0, kernel_map_region_size = 0\<rparr>
      else if ty = CreateProcessFlag_AddressSpace32Bit
      then \<lparr>alias_region_size = 0x40000000, heap_region_size = 0x40000000,
            stack_region_size = 0, kernel_map_region_size = 0\<rparr>
      else \<lparr>alias_region_size = 0, heap_region_size = 0x80000000,
            stack_region_size = 0, kernel_map_region_size = 0\<rparr>)"

definition code_start_of :: "nat \<Rightarrow> u64 \<Rightarrow> u64" where
  "code_start_of w aslr =
     (if w = 39 then aslr + 0x8000000 else if w = 36 then 0x8000000 else 0x200000)"

lemma width_cases:
  assumes "GetAddressSpaceWidth as_type = Some w"
  obtains "w = 39" "as_type AND CreateProcessFlag_AddressSpaceMask = CreateProcessFlag_AddressSpace64Bit"
  | "w = 36" "as_type AND CreateProcessFlag_AddressSpaceMask = CreateProcessFlag_AddressSpace64BitDeprecated"
  | "w = 32" "as_type AND CreateProcessFlag_AddressSpaceMask = CreateProcessFlag_AddressSpace32Bit"
  | "w = 32" "as_type AND CreateProcessFlag_AddressSpaceMask = CreateProcessFlag_AddressSpace32BitWithoutAlias"
  using assms by (auto simp: GetAddressSpaceWidth_def Let_def split: if_splits)

lemmas table_simps = GetAddressSpaceStart_def GetAddressSpaceSize_def GetAddressSpaceInfo_def
  AddressSpaceInfos_def asi_def

lemma space_tables:
  "GetAddressSpaceSize nce 39 Alias = Some 0x1000000000" "GetAddressSpaceSize nce 39 Heap = Some 0x200000000"
  "GetAddressSpaceSize nce 39 Stack = Some 0x80000000" "GetAddressSpaceSize nce 39 MapSmall = Some 0x1000000000"
  "GetAddressSpaceStart nce 39 Map39Bit = Some 0x8000000"
  "\<exists>z. GetAddressSpaceSize nce 39 Map39Bit = Some z"
  "GetAddressSpaceSize nce 36 Alias = Some 0x180000000" "GetAddressSpaceSize nce 36 Heap = Some 0x200000000"
  "GetAddressSpaceStart nce 36 MapSmall = Some 0x8000000" "GetAddressSpaceSize nce 36 MapSmall = Some 0x78000000"
  "GetAddressSpaceStart nce 36 MapLarge = Some 0x80000000" "GetAddressSpaceSize nce 36 MapLarge = Some 0xF80000000"
  "GetAddressSpaceSize nce 32 Alias = Some 0x40000000" "GetAddressSpaceSize nce 32 Heap = Some 0x40000000"
  "GetAddressSpaceStart nce 32 MapSmall = Some 0x200000" "GetAddressSpaceSize nce 32 MapSmall = Some 0x3FE00000"
  "GetAddressSpaceStart nce 32 MapLarge = Some 0x40000000" "GetAddressSpaceSize nce 32 MapLarge = Some 0xC0000000"
  by (simp_all add: table_simps)

lemmas setup_simps = setup_code_regions_def Let_def space_tables region_sizes_def code_extent_def
  code_start_of_def address_space_flags

lemma setup_code_regions_ok:
  assumes "GetAddressSpaceWidth as_type = Some w" "w = 39 \<Longrightarrow> m_address_space_start t = 0"
  shows "\<exists>t1 cs ce.
    setup_code_regions nce as_type ca cz aslr t = Some (t1, cs, ce, region_sizes as_type) \<and>
    (unat cs, unat ce) = code_extent w ca cz \<and> m_code_region_start t1 = code_start_of w aslr \<and>
    m_address_space_width t1 = of_nat w \<and> m_memory_block_manager t1 = m_memory_block_manager t \<and>
    (w \<noteq> 39 \<longrightarrow> m_stack_region_start t1 = cs \<and> m_stack_region_end t1 = ce \<and>
       m_kernel_map_region_start t1 = cs \<and> m_kernel_map_region_end t1 = ce)"
  using assms(1)
proof (cases rule: width_cases)
  case 1
  obtain z where z: "GetAddressSpaceSize nce 39 Map39Bit = Some z"
    using space_tables(6) [of nce] by blast
  show ?thesis
    using 1 assms z by (simp add: setup_simps)
qed (use assms in \<open>simp_all add: setup_simps\<close>)

section \<open>The gap\<close>

definition gap :: "nat \<Rightarrow> nat \<Rightarrow> nat \<times> nat \<Rightarrow> nat \<times> nat" where
  "gap w base code =
     (if fst code - base \<ge> 2 ^ w - snd code then (base, fst code - base)
      else (snd code, 2 ^ w - snd code))"

lemma choose_alloc_gap:
  assumes "unat base \<le> unat cs" "unat ce \<le> 2 ^ w" "w < 64"
  shows "(case choose_alloc base cs ce (push_bit w 1) of (lo, len) \<Rightarrow> (unat lo, unat len)) =
    gap w (unat base) (unat cs, unat ce)"
proof -
  have w: "unat (2 ^ w :: u64) = 2 ^ w"
    using unat_of_nat_64 [of "2 ^ w"] power_strict_increasing [OF assms(3), of "2 :: nat"] by simp
  show ?thesis
    using assms w by (simp add: choose_alloc_def gap_def word_le_nat_alt unat_minus_no_wrap)
qed

lemma unat_AlignUp_le:
  assumes "unat v \<le> k * unat sz" "0 < unat sz" "k * unat sz < 2 ^ 64"
  shows "unat (AlignUp v sz) \<le> k * unat sz" "unat (AlignUp v sz) mod unat sz = 0"
    "unat v \<le> unat (AlignUp v sz)"
proof -
  define q where "q = unat v div unat sz"
  have dm: "unat v = q * unat sz + unat v mod unat sz" and md: "unat (v mod sz) = unat v mod unat sz"
    by (simp_all add: q_def unat_mod_distrib)
  then have down: "unat (v - v mod sz) = q * unat sz"
    by (metis add_diff_cancel_right' mod_less_eq_dividend unat_minus_no_wrap)
  show "unat (AlignUp v sz) \<le> k * unat sz" "unat (AlignUp v sz) mod unat sz = 0"
    "unat v \<le> unat (AlignUp v sz)"
  proof (atomize (full), cases "v mod sz = 0")
    case True
    then have "AlignUp v sz = v" "unat v mod unat sz = 0"
      using md by (simp_all add: AlignUp_def)
    with assms(1) show "unat (AlignUp v sz) \<le> k * unat sz \<and> unat (AlignUp v sz) mod unat sz = 0 \<and>
        unat v \<le> unat (AlignUp v sz)"
      by simp
  next
    case False
    then have pos: "0 < unat v mod unat sz"
      using md by (metis gr0I unat_eq_zero)
    then have "q * unat sz < k * unat sz"
      using dm assms(1) by linarith
    then have "Suc q \<le> k"
      by simp
    then have le: "Suc q * unat sz \<le> k * unat sz"
      by (rule mult_le_mono1)
    have up: "unat (AlignUp v sz) = Suc q * unat sz"
      using False down le assms(3) by (simp add: AlignUp_def Let_def unat_plus_no_wrap)
    moreover have "unat v mod unat sz < unat sz"
      using assms(2) by simp
    ultimately show "unat (AlignUp v sz) \<le> k * unat sz \<and> unat (AlignUp v sz) mod unat sz = 0 \<and>
        unat v \<le> unat (AlignUp v sz)"
      using le dm by simp
  qed
qed

lemma code_extent_ok:
  assumes "w \<in> {32, 36, 39}" "unat ca + unat cz \<le> 2 ^ w"
  shows "snd (code_extent w ca cz) \<le> 2 ^ w" "fst (code_extent w ca cz) \<le> snd (code_extent w ca cz)"
    "fst (code_extent w ca cz) mod 0x200000 = 0" "snd (code_extent w ca cz) mod 0x200000 = 0"
proof -
  have "snd (code_extent w ca cz) \<le> 2 ^ w \<and> fst (code_extent w ca cz) \<le> snd (code_extent w ca cz) \<and>
    fst (code_extent w ca cz) mod 0x200000 = 0 \<and> snd (code_extent w ca cz) mod 0x200000 = 0"
  proof (cases "w = 39")
    case True
    have sum: "unat (ca + cz) = unat ca + unat cz"
      using assms(2) True by (simp add: unat_plus_no_wrap)
    have up: "unat (AlignUp (ca + cz) 0x200000) \<le> 2 ^ 39" "unat (AlignUp (ca + cz) 0x200000) mod 0x200000 = 0"
      "unat ca + unat cz \<le> unat (AlignUp (ca + cz) 0x200000)"
      using unat_AlignUp_le [of "ca + cz" "2 ^ 18" "0x200000"] assms(2) sum True by simp_all
    have "(unat ca - unat ca mod 0x200000) mod 0x200000 = 0"
      by (metis minus_mod_eq_mult_div mod_mult_self1_is_0)
    with up show ?thesis
      using True by (simp add: code_extent_def RegionAlignment_def unat_AlignDown)
  qed (use assms in \<open>auto simp: code_extent_def\<close>)
  then show "snd (code_extent w ca cz) \<le> 2 ^ w" "fst (code_extent w ca cz) \<le> snd (code_extent w ca cz)"
    "fst (code_extent w ca cz) mod 0x200000 = 0" "snd (code_extent w ca cz) mod 0x200000 = 0"
    by simp_all
qed

section \<open>The regions of a page table\<close>

definition alias_extent :: "KPageTableBase \<Rightarrow> nat \<times> nat" where
  "alias_extent t = (unat (m_alias_region_start t), unat (m_alias_region_end t))"

definition heap_extent :: "KPageTableBase \<Rightarrow> nat \<times> nat" where
  "heap_extent t = (unat (m_heap_region_start t), unat (m_heap_region_end t))"

definition stack_extent :: "KPageTableBase \<Rightarrow> nat \<times> nat" where
  "stack_extent t = (unat (m_stack_region_start t), unat (m_stack_region_end t))"

definition kmap_extent :: "KPageTableBase \<Rightarrow> nat \<times> nat" where
  "kmap_extent t = (unat (m_kernel_map_region_start t), unat (m_kernel_map_region_end t))"

lemmas extent_defs = alias_extent_def heap_extent_def stack_extent_def kmap_extent_def

lemma check_regions_ok:
  assumes "m_address_space_start t = 0"
    and "\<forall>x\<in>{alias_extent t, heap_extent t, stack_extent t, kmap_extent t}.
      fst x \<le> snd x \<and> 0 < snd x \<and> snd x \<le> unat (m_address_space_end t)"
    and "apart (alias_extent t) (heap_extent t)"
    and "\<forall>x\<in>{alias_extent t, heap_extent t}. \<forall>y\<in>{stack_extent t, kmap_extent t}. apart x y"
  shows "check_regions t = Some ()"
  using assms
  by (auto simp: check_regions_def Let_def IsInAddressSpace_def word_le_nat_alt word_less_nat_alt
      extent_defs apart_def unat_minus_no_wrap)

lemma placed_fields [simp]:
  "m_address_space_start (placed lo z r t) = m_address_space_start t"
  "m_address_space_end (placed lo z r t) = m_address_space_end t"
  "m_address_space_width (placed lo z r t) = m_address_space_width t"
  "m_memory_block_manager (placed lo z r t) = m_memory_block_manager t"
  "m_memory_block_slab_manager (placed lo z r t) = m_memory_block_slab_manager t"
  by (simp_all add: place_defs)

lemma placed_extents:
  assumes "randoms_ok n r" "unat lo + n + needed_pages_size z < 2 ^ 64"
  shows "alias_extent (placed lo z r t) = places lo z r ! 0"
    "heap_extent (placed lo z r t) = places lo z r ! 1"
    "stack_region_size z \<noteq> 0 \<Longrightarrow> stack_extent (placed lo z r t) = places lo z r ! 2"
    "stack_region_size z \<noteq> 0 \<Longrightarrow> kernel_map_region_size z \<noteq> 0 \<Longrightarrow>
       kmap_extent (placed lo z r t) = places lo z r ! 3"
    "stack_region_size z = 0 \<Longrightarrow> kernel_map_region_size z = 0 \<Longrightarrow>
       stack_extent (placed lo z r t) = stack_extent t \<and> kmap_extent (placed lo z r t) = kmap_extent t"
proof -
  have "\<forall>x\<in>set (places lo z r). snd x < 2 ^ 64"
    using places_within(2) [OF assms(1), of _ lo z] assms(2) by fastforce
  then have b: "alias_place lo z r + unat (alias_region_size z) < 2 ^ 64"
    "heap_place lo z r + unat (heap_region_size z) < 2 ^ 64"
    "stack_place lo z r + unat (stack_region_size z) < 2 ^ 64"
    "kmap_place lo z r + unat (kernel_map_region_size z) < 2 ^ 64"
    by (simp_all add: places_def)
  show "alias_extent (placed lo z r t) = places lo z r ! 0"
    "heap_extent (placed lo z r t) = places lo z r ! 1"
    unfolding alias_extent_def heap_extent_def place_alias_words place_heap_words
    using b by (simp_all only: unat_of_nat_64 add_lessD1) (simp_all add: places_def)
  show "stack_extent (placed lo z r t) = places lo z r ! 2" if "stack_region_size z \<noteq> 0"
    unfolding stack_extent_def place_stack_words [OF that]
    using b by (simp only: unat_of_nat_64 add_lessD1) (simp add: places_def)
  show "kmap_extent (placed lo z r t) = places lo z r ! 3"
    if "stack_region_size z \<noteq> 0" "kernel_map_region_size z \<noteq> 0"
    unfolding kmap_extent_def place_kmap_words [OF that]
    using b by (simp only: unat_of_nat_64 add_lessD1) (simp add: places_def)
  show "stack_extent (placed lo z r t) = stack_extent t \<and> kmap_extent (placed lo z r t) = kmap_extent t"
    if "stack_region_size z = 0" "kernel_map_region_size z = 0"
    using that by (simp add: place_defs extent_defs)
qed

text \<open>
  What the layout promises for an address space of \<open>w\<close> bits whose code has the given extent.
  In the small address spaces the stack and kernel map regions are the code region.
\<close>

definition placed_regions :: "nat \<Rightarrow> KPageTableBase \<Rightarrow> (nat \<times> nat) list" where
  "placed_regions w t =
     [alias_extent t, heap_extent t] @ (if w = 39 then [stack_extent t, kmap_extent t] else [])"

definition layout_ok :: "nat \<Rightarrow> nat \<times> nat \<Rightarrow> RegionSizes \<Rightarrow> KPageTableBase \<Rightarrow> bool" where
  "layout_ok w code z t \<longleftrightarrow>
     (\<forall>x\<in>set (placed_regions w t). fst x \<le> snd x \<and> snd x \<le> 2 ^ w \<and> fst x mod 0x200000 = 0 \<and>
        snd x mod 0x200000 = 0 \<and> apart x code) \<and>
     sorted_wrt apart (placed_regions w t) \<and>
     map (\<lambda>x. snd x - fst x) (placed_regions w t) =
       map unat ([alias_region_size z, heap_region_size z] @
                 (if w = 39 then [stack_region_size z, kernel_map_region_size z] else [])) \<and>
     (w \<noteq> 39 \<longrightarrow> stack_extent t = code \<and> kmap_extent t = code) \<and>
     m_address_space_start t = 0 \<and> unat (m_address_space_end t) = 2 ^ w"

lemma gap_beside_code:
  assumes "gap w base code = (lo, len)" "base \<le> fst code" "snd code \<le> 2 ^ w" "fst code \<le> snd code"
  shows "lo + len \<le> 2 ^ w" "base \<le> lo" "lo \<le> x \<Longrightarrow> y \<le> lo + len \<Longrightarrow> apart (x, y) code"
    "base mod m = 0 \<Longrightarrow> snd code mod m = 0 \<Longrightarrow> lo mod m = 0"
  using assms by (auto simp: gap_def apart_def split: if_splits)

lemma region_sizes_ok:
  assumes "GetAddressSpaceWidth as_type = Some w"
  defines "z \<equiv> region_sizes as_type"
  shows "w \<in> {32, 36, 39}"
    and "\<forall>n\<in>{alias_region_size z, heap_region_size z, stack_region_size z, kernel_map_region_size z}.
      unat n mod 0x200000 = 0"
    and "w = 39 \<longleftrightarrow> stack_region_size z \<noteq> 0" "w = 39 \<longleftrightarrow> kernel_map_region_size z \<noteq> 0"
    and "needed_pages_size z < 2 ^ 39"
  using assms(1)
  by (cases rule: width_cases; simp add: z_def region_sizes_def address_space_flags needed_pages_size_def)+

lemma layout_placed:
  assumes w: "GetAddressSpaceWidth as_type = Some w" and z: "z = region_sizes as_type"
    and g: "gap w base code = (unat lo, len)" "needed_pages_size z \<le> len"
    and r: "randoms_ok (len - needed_pages_size z) r"
    and code: "base \<le> fst code" "snd code \<le> 2 ^ w" "fst code \<le> snd code" "snd code mod 0x200000 = 0"
    and base: "0 < base" "base mod 0x200000 = 0"
    and t: "m_address_space_start t = 0" "unat (m_address_space_end t) = 2 ^ w"
    and small: "w \<noteq> 39 \<longrightarrow> stack_extent t = code \<and> kmap_extent t = code"
  shows "layout_ok w code z (placed lo z r t)" "check_regions (placed lo z r t) = Some ()"
proof -
  let ?t = "placed lo z r t" and ?ps = "places lo z r"
  note sz = region_sizes_ok [OF w, folded z]
  note gap = gap_beside_code [OF g(1) code(1-3)]
  have lo: "0 < unat lo" "unat lo mod 0x200000 = 0"
    using gap(2,4) base code(4) by auto
  have hi: "unat lo + (len - needed_pages_size z) + needed_pages_size z = unat lo + len"
    using g(2) by simp
  have "(2 :: nat) ^ w \<le> 2 ^ 39"
    using sz(1) by (intro power_increasing) auto
  then have "unat lo + (len - needed_pages_size z) + needed_pages_size z < 2 ^ 64"
    using gap(1) hi by simp
  note ext = placed_extents [OF r this, of t]
  have regs: "placed_regions w ?t = (if w = 39 then ?ps else take 2 ?ps)"
    using ext(1-4) sz(3,4) by (auto simp: placed_regions_def places_def)
  have ps: "fst x \<le> snd x" "unat lo \<le> fst x" "snd x \<le> unat lo + len" "fst x mod 0x200000 = 0"
    "snd x mod 0x200000 = 0" "apart x code" if "x \<in> set ?ps" for x
  proof -
    show "fst x \<le> snd x"
      using that by (auto simp: places_def)
    show within: "unat lo \<le> fst x" "snd x \<le> unat lo + len"
      using places_within [OF r that] hi by simp_all
    show "fst x mod 0x200000 = 0" "snd x mod 0x200000 = 0"
      using places_aligned [OF r lo(2) _ _ _ _ that] sz(2) by simp_all
    show "apart x code"
      using gap(3) [OF within] by simp
  qed
  have sub: "x \<in> set (placed_regions w ?t) \<Longrightarrow> x \<in> set ?ps" for x
    unfolding regs by (auto split: if_splits dest: in_set_takeD)
  have ap: "sorted_wrt apart (placed_regions w ?t)"
    unfolding regs using places_apart by (simp add: sorted_wrt_take)
  have old: "w \<noteq> 39 \<Longrightarrow> stack_extent ?t = code \<and> kmap_extent ?t = code"
    using ext(5) small sz(3,4) by simp
  have lens: "map (\<lambda>x. snd x - fst x) (placed_regions w ?t) =
      map unat ([alias_region_size z, heap_region_size z] @
        (if w = 39 then [stack_region_size z, kernel_map_region_size z] else []))"
    unfolding regs by (simp add: places_def)
  show "layout_ok w code z ?t"
    unfolding layout_ok_def
  proof (intro conjI)
    show "\<forall>x\<in>set (placed_regions w ?t). fst x \<le> snd x \<and> snd x \<le> 2 ^ w \<and> fst x mod 0x200000 = 0 \<and>
        snd x mod 0x200000 = 0 \<and> apart x code"
      using ps sub gap(1) by (meson le_trans)
  qed (use ap old lens t in simp_all)
  have in_ps: "alias_extent ?t \<in> set ?ps" "heap_extent ?t \<in> set ?ps"
    by (auto intro!: sub simp: placed_regions_def)
  have sk: "\<forall>x\<in>{stack_extent ?t, kmap_extent ?t}. fst x \<le> snd x \<and> 0 < snd x \<and> snd x \<le> 2 ^ w"
  proof (cases "w = 39")
    case True
    then have "stack_extent ?t \<in> set ?ps" "kmap_extent ?t \<in> set ?ps"
      by (auto intro!: sub simp: placed_regions_def)
    then show ?thesis
      using ps(1-3) [of "stack_extent ?t"] ps(1-3) [of "kmap_extent ?t"] lo(1) gap(1) by auto
  next
    case False
    then show ?thesis
      using old code base(1) by auto
  qed
  have ax: "\<forall>x\<in>{alias_extent ?t, heap_extent ?t}. \<forall>y\<in>{stack_extent ?t, kmap_extent ?t}. apart x y"
    using ap old ps(6) [OF in_ps(1)] ps(6) [OF in_ps(2)]
    by (cases "w = 39") (auto simp: placed_regions_def)
  show "check_regions ?t = Some ()"
  proof (rule check_regions_ok)
    show "apart (alias_extent ?t) (heap_extent ?t)"
      using ap by (simp add: placed_regions_def)
    show "\<forall>x\<in>{alias_extent ?t, heap_extent ?t, stack_extent ?t, kmap_extent ?t}.
        fst x \<le> snd x \<and> 0 < snd x \<and> snd x \<le> unat (m_address_space_end ?t)"
      using sk t(2) ps(1-3) [OF in_ps(1)] ps(1-3) [OF in_ps(2)] lo(1) gap(1) by auto
  qed (use ax t in simp_all)
qed

section \<open>InitializeForProcess\<close>

text \<open>The pages of a new address space are all free.\<close>

definition free_page :: MemProps where
  "free_page = \<lparr>p_state = KMemoryState_Free, p_permission = KMemoryPermission_None,
     p_original_permission = KMemoryPermission_None, p_attribute = KMemoryAttribute_None,
     p_ipc_lock_count = 0, p_device_use_count = 0\<rparr>"

lemma block_manager_Initialize_ok:
  assumes "m_memory_block_tree m = []" "free_nodes slab = p # ps" "12 < w" "w < 64"
  obtains m' slab' where
    "KMemoryBlockManager_Initialize obj_size 0 (push_bit w 1) m slab = Some (ResultSuccess, m', slab')"
    "manager_ok m'" "m_start_address m' = 0" "m_end_address m' = 2 ^ w"
    "\<forall>x < 2 ^ w. page_at (m_memory_block_tree m') x = Some free_page" "free_nodes slab' = ps"
proof -
  obtain slab' where slab': "KDynamicResourceManager_Allocate obj_size slab = Some (Some p, slab')"
    "free_nodes slab' = ps"
    using Allocate_from_list [OF assms(2), of obj_size] by blast
  have lt: "(2 :: nat) ^ w < 2 ^ 64"
    using assms(4) by (intro power_strict_increasing) simp_all
  then have w: "unat (2 ^ w :: u64) = 2 ^ w"
    using unat_of_nat_64 [of "2 ^ w"] by simp
  obtain k where k: "w = 12 + k" "0 < k"
    using assms(3) less_imp_add_positive by blast
  then have pw: "(2 :: nat) ^ w = 4096 * 2 ^ k"
    by (simp add: power_add)
  have pages: "unat ((2 ^ w :: u64) div 4096) = 2 ^ k"
    using w pw by (simp add: unat_div_distrib)
  have al: "IsAligned (2 ^ w) PageSize" "IsAligned 0 PageSize"
    using w pw by (simp_all only: IsAligned_PageSize_iff) simp_all
  let ?b = "KMemoryBlock_Initialize 0 (2 ^ w div PageSize) KMemoryState_Free
    KMemoryPermission_None KMemoryAttribute_None (fresh_block p)"
  let ?m = "m\<lparr>m_memory_block_tree := [?b], m_start_address := 0, m_end_address := 2 ^ w\<rparr>"
  have b: "bstart ?b = 0" "bend ?b = 2 ^ w" "bpages ?b = 2 ^ k" "props_of ?b = free_page"
    using pages pw by (simp_all add: bstart_def bend_def bpages_def KMemoryBlock_Initialize_def
        fresh_block_def KMemoryBlock_ctor_def props_of_def free_page_def KMemoryPermission_None_def)
  have wf: "block_wf ?b"
    using b lt by (simp add: block_wf_def)
  have "KMemoryBlockManager_Initialize obj_size 0 (push_bit w 1) m slab = Some (ResultSuccess, ?m, slab')"
    using slab'(1) al assms(1) by (simp add: KMemoryBlockManager_Initialize_def tree_insert_def Let_def)
  moreover have "manager_ok ?m"
    using b wf w by (simp add: manager_ok_def)
  moreover have "\<forall>x < 2 ^ w. page_at (m_memory_block_tree ?m) x = Some free_page"
    using b by simp
  ultimately show ?thesis
    using that [of ?m slab'] slab'(2) by simp
qed

definition room_needed :: "u32 \<Rightarrow> nat" where
  "room_needed as_type = needed_pages_size (region_sizes as_type)"

lemma unat_needed:
  assumes "GetAddressSpaceWidth as_type = Some w"
  shows "unat (alias_region_size (region_sizes as_type) + heap_region_size (region_sizes as_type) +
      stack_region_size (region_sizes as_type) + kernel_map_region_size (region_sizes as_type)) =
    room_needed as_type"
  using assms
  by (cases rule: width_cases)
    (simp_all add: region_sizes_def address_space_flags room_needed_def needed_pages_size_def)

text \<open>The other fields that are set do not matter for the layout.\<close>

lemma set_basic_fields [simp]:
  "check_regions (set_basic_fields fb pool t) = check_regions t"
  "m_address_space_start (set_basic_fields fb pool t) = m_address_space_start t"
  "m_address_space_end (set_basic_fields fb pool t) = m_address_space_end t"
  "m_memory_block_manager (set_basic_fields fb pool t) = m_memory_block_manager t"
  "m_memory_block_slab_manager (set_basic_fields fb pool t) = m_memory_block_slab_manager t"
  by (simp_all add: set_basic_fields_def check_regions_def IsInAddressSpace_def Let_def)

lemma layout_ok_set [simp]:
  "layout_ok w c z (t\<lparr>m_memory_block_manager := m, m_memory_block_slab_manager := s\<rparr>) = layout_ok w c z t"
  "layout_ok w c z (t\<lparr>m_impl := i\<rparr>) = layout_ok w c z t"
  "layout_ok w c z (set_basic_fields fb pool t) = layout_ok w c z t"
  by (simp_all add: layout_ok_def placed_regions_def extent_defs set_basic_fields_def)

text \<open>
  C35. InitializeForProcess. For every kind of address space, code inside it and random numbers of
  the host, the function does not fault. It returns \<open>ResultOutOfMemory\<close> exactly when the larger
  gap beside the code is smaller than the regions together; otherwise the alias, heap, stack
  and kernel map regions have the sizes of the tables, are aligned to 2 MiB, lie inside the
  address space, overlap neither each other nor the code, and every page starts free.
\<close>

theorem InitializeForProcess_layout:
  assumes w: "GetAddressSpaceWidth as_type = Some w"
    and code: "0 < unat code_size" "unat code_address + unat code_size \<le> 2 ^ w"
    and t0: "m_address_space_start t0 = 0" "m_memory_block_tree (m_memory_block_manager t0) = []"
    and aslr: "unat aslr mod 0x200000 = 0"
      "w = 39 \<Longrightarrow> unat aslr + 0x8000000 \<le> fst (code_extent w code_address code_size)"
    and draws: "4 \<le> small_draws draws" and slab: "free_nodes slab = p # ps"
    and g: "gap w (unat (code_start_of w aslr)) (code_extent w code_address code_size) = (lo, len)"
  shows "if len < room_needed as_type
    then \<exists>t. InitializeForProcess nce obj_size as_type enable_aslr das from_back pool code_address
      code_size slab bim aslr draws t0 = Some (ResultOutOfMemory, t)
    else \<exists>t. InitializeForProcess nce obj_size as_type enable_aslr das from_back pool code_address
        code_size slab bim aslr draws t0 = Some (ResultSuccess, t) \<and>
      layout_ok w (code_extent w code_address code_size) (region_sizes as_type) t \<and>
      manager_ok (m_memory_block_manager t) \<and>
      (\<forall>x < 2 ^ w. page_at (m_memory_block_tree (m_memory_block_manager t)) x = Some free_page)"
proof -
  define z where "z = region_sizes as_type"
  define ext where "ext = code_extent w code_address code_size"
  note sz = region_sizes_ok [OF w, folded z_def] and ex = code_extent_ok [OF region_sizes_ok(1) [OF w] code(2), folded ext_def]
  have w64: "w < 64" "12 < w"
    using sz(1) by auto
  have e39: "(2 :: nat) ^ w \<le> 2 ^ 39"
    using sz(1) by (intro power_increasing) auto
  then have pw: "unat (2 ^ w :: u64) = 2 ^ w"
    using unat_of_nat_64 [of "2 ^ w"] by simp
  obtain t1 cs ce where t1: "setup_code_regions nce as_type code_address code_size aslr t0 = Some (t1, cs, ce, z)"
    "(unat cs, unat ce) = ext" "m_code_region_start t1 = code_start_of w aslr"
    "m_memory_block_manager t1 = m_memory_block_manager t0"
    "w \<noteq> 39 \<longrightarrow> m_stack_region_start t1 = cs \<and> m_stack_region_end t1 = ce \<and>
       m_kernel_map_region_start t1 = cs \<and> m_kernel_map_region_end t1 = ce"
    using setup_code_regions_ok [OF w t0(1), of nce code_address code_size aslr] by (auto simp: z_def ext_def)
  have base: "unat (code_start_of w aslr) \<le> fst ext" "0 < unat (code_start_of w aslr)"
    "unat (code_start_of w aslr) mod 0x200000 = 0"
  proof -
    have "unat (aslr + 0x8000000) = unat aslr + 0x8000000" if "w = 39"
      using aslr(2) [OF that] ex(1,2) e39 that by (simp add: ext_def unat_plus_no_wrap)
    then show "unat (code_start_of w aslr) \<le> fst ext" "0 < unat (code_start_of w aslr)"
      "unat (code_start_of w aslr) mod 0x200000 = 0"
      using aslr sz(1) by (auto simp: code_start_of_def ext_def code_extent_def mod_add_eq [symmetric])
  qed
  obtain lo' len' where c: "choose_alloc (code_start_of w aslr) cs ce (push_bit w 1) = (lo', len')"
    by force
  have un: "unat lo' = lo" "unat len' = len"
    using choose_alloc_gap [of "code_start_of w aslr" cs ce w] base(1) t1(2) [symmetric] ex(1) w64 c
      g [folded ext_def] by simp_all
  define t2 where "t2 = t1\<lparr>m_enable_aslr := enable_aslr, m_enable_device_address_space_merge := das,
    m_address_space_start := 0, m_address_space_end := 2 ^ w, m_is_kernel := False,
    m_memory_block_slab_manager := slab, m_block_info_manager := bim\<rparr>"
  have sum: "unat (code_address + code_size) = unat code_address + unat code_size"
    using code(2) e39 by (simp add: unat_plus_no_wrap)
  have asserts: "code_address < code_address + code_size" "code_address + code_size - 1 \<le> 2 ^ w - 1"
    using code sum pw by (simp_all add: word_less_nat_alt word_le_nat_alt unat_minus_no_wrap)
  define n where "n = alias_region_size z + heap_region_size z + stack_region_size z + kernel_map_region_size z"
  have n: "unat n = room_needed as_type" "room_needed as_type = needed_pages_size z"
    using unat_needed [OF w] by (simp_all add: n_def z_def room_needed_def)
  let ?run = "InitializeForProcess nce obj_size as_type enable_aslr das from_back pool code_address
    code_size slab bim aslr draws t0"
  note run = InitializeForProcess_def w t1(1,3) c [simplified] asserts t2_def [symmetric] n_def [symmetric] Let_def
  show ?thesis
  proof (cases "len < room_needed as_type")
    case True
    then have "\<not> n \<le> len'"
      using n un by (simp add: word_le_nat_alt)
    then have "?run = Some (ResultOutOfMemory, t2)"
      by (simp add: run)
    with True show ?thesis by auto
  next
    case False
    then have enough: "n \<le> len'" "unat (len' - n) = len - needed_pages_size z" "needed_pages_size z \<le> len"
      using n un by (simp_all add: word_le_nat_alt unat_minus_no_wrap)
    obtain r ds' where r: "draw_regions enable_aslr (len' - n) draws = Some (r, ds')"
      "randoms_ok (len - needed_pages_size z) r"
      using draw_regions_ok [OF draws, of enable_aslr "len' - n"] enough(2) by auto
    have small: "w \<noteq> 39 \<longrightarrow> stack_extent t2 = ext \<and> kmap_extent t2 = ext"
      using t1(2,5) by (auto simp: t2_def extent_defs)
    have lay: "layout_ok w ext z (placed lo' z r t2)" "check_regions (placed lo' z r t2) = Some ()"
      using layout_placed [OF w z_def _ enough(3) r(2) base(1) ex(1,2,4) base(2,3) _ _ small, of lo'] g un pw
      by (simp_all add: t2_def ext_def)
    obtain m' slab' where m': "KMemoryBlockManager_Initialize obj_size 0 (push_bit w 1)
        (m_memory_block_manager t0) slab = Some (ResultSuccess, m', slab')"
      "manager_ok m'" "\<forall>x < 2 ^ w. page_at (m_memory_block_tree m') x = Some free_page"
      by (rule block_manager_Initialize_ok [OF t0(2) slab w64(2,1), of obj_size])
    let ?t = "set_basic_fields from_back pool (placed lo' z r t2)"
    have f: "m_memory_block_manager t2 = m_memory_block_manager t0" "m_memory_block_slab_manager t2 = slab"
      "m_address_space_start t2 = 0" "m_address_space_end t2 = 2 ^ w"
      using t1(4) by (simp_all add: t2_def)
    have placement: "place_regions enable_aslr from_back pool z lo' (len' - n) draws t2 = Some ?t"
      using r(1) lay(2) by (simp add: place_regions_def)
    have impl: "initialize_impl obj_size ?t = Some (ResultSuccess,
        ?t\<lparr>m_impl := PageTable_Resize (unat (m_address_space_width ?t)) PageBits PageTable_new,
           m_memory_block_manager := m', m_memory_block_slab_manager := slab'\<rparr>)"
      using m'(1) by (simp add: initialize_impl_def f)
    have "?run = initialize_impl obj_size ?t"
      using enough(1) placement by (simp add: run)
    with False impl lay(1) m'(2,3) show ?thesis
      by (auto simp: ext_def z_def)
  qed
qed


theorem InitializeForProcess_layout_witness:
  "\<exists>t. InitializeForProcess False 64 6 True False False 0 0x80000000 0x100000 sample_full_slab sample_slab
      0 [5, 7, 9, 11] sample_page_table = Some (ResultSuccess, t) \<and>
    layout_ok 39 (0x80000000, 0x80200000) (region_sizes 6) t \<and>
    manager_ok (m_memory_block_manager t) \<and>
    (\<forall>x < 2 ^ 39. page_at (m_memory_block_tree (m_memory_block_manager t)) x = Some free_page)"
proof -
  have code: "code_extent 39 0x80000000 0x100000 = (0x80000000, 0x80200000)"
    by (simp add: code_extent_def RegionAlignment_def AlignDown_def AlignUp_def Let_def)
  have g: "gap 39 (unat (code_start_of 39 0)) (code_extent 39 0x80000000 0x100000) =
      (0x80200000, 0x7F7FE00000)"
    unfolding code by (simp add: gap_def code_start_of_def)
  have "room_needed 6 = 0x2280000000"
    by (simp add: room_needed_def needed_pages_size_def region_sizes_def address_space_flags)
  then show ?thesis
    using InitializeForProcess_layout [of 6 39 "0x100000" "0x80000000" sample_page_table 0 "[5, 7, 9, 11]"
        sample_full_slab "0x100" "[0x200]" "0x80200000" "0x7F7FE00000" False 64 True False False 0 sample_slab] g code
    by (simp add: GetAddressSpaceWidth_def address_space_flags sample_page_table_def small_draws_def
        sample_full_slab_def free_nodes_def)
qed

end
