(* ===== verification/KPageTablePermissions.thy ===== *)
theory KPageTablePermissions
  imports KPageTableGroups
begin

text \<open>
  The operations of \<^verbatim>\<open>KPageTableBase\<close> that check and change the state, the permission and the
  attributes of pages in place (\<^verbatim>\<open>k_page_table_base.cpp\<close>): the checks \<^verbatim>\<open>CheckMemoryState\<close>, the
  setters, the locks of memory that is lent to devices, to IPC buffers, to transfer memory and
  to code memory, and the part of \<^verbatim>\<open>Operate\<close> they use.

  The six values that a check compares with are one record. \<open>obj_size\<close> and \<open>info_size\<close> are
  the sizes of a memory block and of a block of a page group in their slab heaps. The update
  allocator of an operation lives for the rest of the operation and gives its blocks back at the
  end, on every path; so does a local page group.
\<close>

section \<open>Checks\<close>

record StateTest =
  ts_state_mask :: u32
  ts_state :: u32
  ts_perm_mask :: u8
  ts_perm :: u8
  ts_attr_mask :: u8
  ts_attr :: u8

definition mi_GetEndAddress :: "KMemoryInfo \<Rightarrow> u64" where
  "mi_GetEndAddress i = mi_address i + mi_size i"

definition mi_GetLastAddress :: "KMemoryInfo \<Rightarrow> u64" where
  "mi_GetLastAddress i = mi_GetEndAddress i - 1"

definition CheckMemoryState_info :: "StateTest \<Rightarrow> KMemoryInfo \<Rightarrow> Result" where
  "CheckMemoryState_info ts info =
     (if mi_state info AND ts_state_mask ts \<noteq> ts_state ts then ResultInvalidCurrentMemory
      else if mi_permission info AND ts_perm_mask ts \<noteq> ts_perm ts then ResultInvalidCurrentMemory
      else if mi_attribute info AND ts_attr_mask ts \<noteq> ts_attr ts then ResultInvalidCurrentMemory
      else ResultSuccess)"

text \<open>
  The loop over the blocks from the iterator on: the test of a block, the end of the range, and
  the next block (the end of the tree is a fault). The result has the last block looked at.
\<close>

fun check_blocks :: "(KMemoryInfo \<Rightarrow> Result) \<Rightarrow> u64 \<Rightarrow> KMemoryBlock list \<Rightarrow> (Result \<times> KMemoryInfo) option" where
  "check_blocks test last_addr [] = None"
| "check_blocks test last_addr (b # bs) =
     (let info = GetMemoryInfo b
      in if test info \<noteq> ResultSuccess then Some (test info, info)
         else if last_addr \<le> mi_GetLastAddress info then Some (ResultSuccess, info)
         else check_blocks test last_addr bs)"

definition CheckMemoryStateContiguous ::
    "KMemoryBlockManager \<Rightarrow> u64 \<Rightarrow> u64 \<Rightarrow> StateTest \<Rightarrow> (Result \<times> nat) option" where
  "CheckMemoryStateContiguous m addr sz ts =
     do {
       let last_addr = addr + sz - 1;
       let it = FindIterator m addr;
       first \<leftarrow> array_get (m_memory_block_tree m) it;
       let blocks_for_start_align =
         (if AlignDown addr PageSize \<noteq> mi_address (GetMemoryInfo first) then 1 else 0);
       (res, info) \<leftarrow> check_blocks (CheckMemoryState_info ts) last_addr (drop it (m_memory_block_tree m));
       if res \<noteq> ResultSuccess then Some (res, 0)
       else
         let blocks_for_end_align =
           (if AlignUp (addr + sz) PageSize \<noteq> mi_GetEndAddress info then 1 else 0)
         in Some (ResultSuccess, blocks_for_start_align + blocks_for_end_align)
     }"

text \<open>What the state check reports of the first block and of the blocks an update needs.\<close>

record StateOut =
  out_state :: u32
  out_perm :: u8
  out_attr :: u8
  out_blocks_needed :: nat

definition test_like_first :: "StateTest \<Rightarrow> u8 \<Rightarrow> KMemoryInfo \<Rightarrow> KMemoryInfo \<Rightarrow> Result" where
  "test_like_first ts ignore_attr first info =
     (if mi_state info \<noteq> mi_state first then ResultInvalidCurrentMemory
      else if mi_permission info \<noteq> mi_permission first then ResultInvalidCurrentMemory
      else if (mi_attribute info OR ignore_attr) \<noteq> (mi_attribute first OR ignore_attr)
        then ResultInvalidCurrentMemory
      else CheckMemoryState_info ts info)"

definition CheckMemoryState_it ::
    "KMemoryBlockManager \<Rightarrow> nat \<Rightarrow> u64 \<Rightarrow> StateTest \<Rightarrow> u8 \<Rightarrow> (Result \<times> StateOut) option" where
  "CheckMemoryState_it m it last_addr ts ignore_attr =
     do {
       b \<leftarrow> array_get (m_memory_block_tree m) it;
       let first = GetMemoryInfo b;
       (res, info) \<leftarrow> check_blocks (test_like_first ts ignore_attr first) last_addr
         (drop it (m_memory_block_tree m));
       Some (res,
             \<lparr>out_state = mi_state first, out_perm = mi_permission first,
              out_attr = mi_attribute first AND NOT ignore_attr,
              out_blocks_needed =
                (if AlignDown last_addr PageSize + PageSize \<noteq> mi_GetEndAddress info then 1 else 0)\<rparr>)
     }"

definition CheckMemoryState ::
    "KMemoryBlockManager \<Rightarrow> u64 \<Rightarrow> u64 \<Rightarrow> StateTest \<Rightarrow> u8 \<Rightarrow> (Result \<times> StateOut) option" where
  "CheckMemoryState m addr sz ts ignore_attr =
     do {
       let last_addr = addr + sz - 1;
       let it = FindIterator m addr;
       (res, out) \<leftarrow> CheckMemoryState_it m it last_addr ts ignore_attr;
       if res \<noteq> ResultSuccess then Some (res, out)
       else do {
         b \<leftarrow> array_get (m_memory_block_tree m) it;
         Some (ResultSuccess,
               if AlignDown addr PageSize \<noteq> m_address b
               then out\<lparr>out_blocks_needed := out_blocks_needed out + 1\<rparr> else out)
       }
     }"

definition DefaultMemoryIgnoreAttr :: u8 where [flag_simps]:
  "DefaultMemoryIgnoreAttr = KMemoryAttribute_IpcLocked OR KMemoryAttribute_DeviceShared"

section \<open>Shared parts\<close>

text \<open>An update allocator for the rest of the operation \<open>body\<close>.\<close>

definition with_update_allocator ::
    "nat \<Rightarrow> nat \<Rightarrow> KPageTableBase \<Rightarrow>
     (KPageTableBase \<Rightarrow> UpdateAllocator \<Rightarrow> (Result \<times> KPageTableBase \<times> UpdateAllocator) option) \<Rightarrow>
     (Result \<times> KPageTableBase) option" where
  "with_update_allocator obj_size num_blocks t body =
     do {
       (res, al) \<leftarrow> UpdateAllocator_ctor obj_size (m_memory_block_slab_manager t) num_blocks;
       if res \<noteq> ResultSuccess
       then Some (res, t\<lparr>m_memory_block_slab_manager := UpdateAllocator_dtor al\<rparr>)
       else do {
         (res', t', al') \<leftarrow> body t al;
         Some (res', t'\<lparr>m_memory_block_slab_manager := UpdateAllocator_dtor al'\<rparr>)
       }
     }"

text \<open>Updates of the memory blocks inside such an operation.\<close>

definition update_blocks ::
    "(KMemoryBlockManager \<Rightarrow> UpdateAllocator \<Rightarrow> (KMemoryBlockManager \<times> UpdateAllocator) option) \<Rightarrow>
     KPageTableBase \<Rightarrow> UpdateAllocator \<Rightarrow> (Result \<times> KPageTableBase \<times> UpdateAllocator) option" where
  "update_blocks f t al =
     do {
       (m, al') \<leftarrow> f (m_memory_block_manager t) al;
       Some (ResultSuccess, t\<lparr>m_memory_block_manager := m\<rparr>, al')
     }"

definition MemoryPermission_Read :: u32 where "MemoryPermission_Read = 1"
definition MemoryPermission_Write :: u32 where "MemoryPermission_Write = 2"
definition MemoryPermission_Execute :: u32 where "MemoryPermission_Execute = 4"

definition ConvertToMemoryPermission :: "bool \<Rightarrow> u8 \<Rightarrow> u32" where
  "ConvertToMemoryPermission has_nce perm =
     (if perm AND KMemoryPermission_UserRead \<noteq> 0 then MemoryPermission_Read else 0) OR
     (if perm AND KMemoryPermission_UserWrite \<noteq> 0 then MemoryPermission_Write else 0) OR
     (if has_nce \<and> perm AND KMemoryPermission_UserExecute \<noteq> 0 then MemoryPermission_Execute else 0)"

definition ContainsPages :: "KPageTableBase \<Rightarrow> u64 \<Rightarrow> u64 \<Rightarrow> bool" where
  "ContainsPages t addr num_pages \<longleftrightarrow>
     m_address_space_start t \<le> addr \<and>
     num_pages \<le> (m_address_space_end t - m_address_space_start t) div PageSize \<and>
     addr + num_pages * PageSize - 1 \<le> m_address_space_end t - 1"

text \<open>\<^verbatim>\<open>Operate\<close> for the three operations that change permissions.\<close>

definition Operate_ChangePermissions ::
    "bool \<Rightarrow> u64 \<Rightarrow> u64 \<Rightarrow> u8 \<Rightarrow> KPageTableBase \<Rightarrow> KPageTableBase option" where
  "Operate_ChangePermissions has_nce virt_addr num_pages perm t =
     do {
       ASSERT (num_pages > 0);
       ASSERT (IsAligned virt_addr PageSize);
       ASSERT (ContainsPages t virt_addr num_pages);
       Some (t\<lparr>memory_log := memory_log t @
                 [ProtectRegion virt_addr (num_pages * PageSize) (ConvertToMemoryPermission has_nce perm)]\<rparr>)
     }"

section \<open>Setters\<close>

definition SetMemoryPermission ::
    "bool \<Rightarrow> nat \<Rightarrow> u64 \<Rightarrow> u64 \<Rightarrow> u32 \<Rightarrow> KPageTableBase \<Rightarrow> (Result \<times> KPageTableBase) option" where
  "SetMemoryPermission has_nce obj_size addr sz svc_perm t =
     do {
       let num_pages = sz div PageSize;
       (res, out) \<leftarrow> CheckMemoryState (m_memory_block_manager t) addr sz
         \<lparr>ts_state_mask = KMemoryState_FlagCanReprotect, ts_state = KMemoryState_FlagCanReprotect,
          ts_perm_mask = KMemoryPermission_None, ts_perm = KMemoryPermission_None,
          ts_attr_mask = KMemoryAttribute_All, ts_attr = KMemoryAttribute_None\<rparr> DefaultMemoryIgnoreAttr;
       if res \<noteq> ResultSuccess then Some (res, t)
       else
         let new_perm = ConvertToKMemoryPermission svc_perm
         in if out_perm out = new_perm then Some (ResultSuccess, t)
            else with_update_allocator obj_size (out_blocks_needed out) t (\<lambda>t al.
              do {
                t1 \<leftarrow> Operate_ChangePermissions has_nce addr num_pages new_perm t;
                update_blocks (KMemoryBlockManager_Update addr num_pages (out_state out) new_perm
                  KMemoryAttribute_None DisableMergeAttribute_None DisableMergeAttribute_None) t1 al
              })
     }"

definition AttributeTestMask :: u8 where [flag_simps]:
  "AttributeTestMask = NOT (KMemoryAttribute_SetMask OR KMemoryAttribute_DeviceShared)"

definition SetMemoryAttribute ::
    "bool \<Rightarrow> nat \<Rightarrow> u64 \<Rightarrow> u64 \<Rightarrow> u8 \<Rightarrow> u8 \<Rightarrow> KPageTableBase \<Rightarrow> (Result \<times> KPageTableBase) option" where
  "SetMemoryAttribute has_nce obj_size addr sz msk attr t =
     do {
       let num_pages = sz div PageSize;
       ASSERT ((msk OR KMemoryAttribute_SetMask) = KMemoryAttribute_SetMask);
       let state_test_mask =
         (if msk AND KMemoryAttribute_Uncached \<noteq> 0 then KMemoryState_FlagCanChangeAttribute
          else KMemoryState_None) OR
         (if msk AND KMemoryAttribute_PermissionLocked \<noteq> 0 then KMemoryState_FlagCanPermissionLock
          else KMemoryState_None);
       (res, out) \<leftarrow> CheckMemoryState (m_memory_block_manager t) addr sz
         \<lparr>ts_state_mask = state_test_mask, ts_state = state_test_mask,
          ts_perm_mask = KMemoryPermission_None, ts_perm = KMemoryPermission_None,
          ts_attr_mask = AttributeTestMask, ts_attr = KMemoryAttribute_None\<rparr> (NOT AttributeTestMask);
       if res \<noteq> ResultSuccess then Some (res, t)
       else with_update_allocator obj_size (out_blocks_needed out) t (\<lambda>t al.
         do {
           t1 \<leftarrow> (if msk AND KMemoryAttribute_Uncached \<noteq> 0
                  then Operate_ChangePermissions has_nce addr num_pages (out_perm out) t
                  else Some t);
           update_blocks (KMemoryBlockManager_UpdateAttribute addr num_pages msk attr) t1 al
         })
     }"

text \<open>The new state of code memory that becomes writable; other states are unreachable.\<close>

definition writable_code_state :: "u32 \<Rightarrow> u32 option" where
  "writable_code_state old_state =
     (if old_state = KMemoryState_Code then Some KMemoryState_CodeData
      else if old_state = KMemoryState_AliasCode then Some KMemoryState_AliasCodeData
      else None)"

definition SetProcessMemoryPermission ::
    "bool \<Rightarrow> nat \<Rightarrow> nat \<Rightarrow> u64 \<Rightarrow> u64 \<Rightarrow> u32 \<Rightarrow> KPageTableBase \<Rightarrow> (Result \<times> KPageTableBase) option" where
  "SetProcessMemoryPermission has_nce obj_size info_size addr sz svc_perm t =
     do {
       let num_pages = sz div PageSize;
       (res, out) \<leftarrow> CheckMemoryState (m_memory_block_manager t) addr sz
         \<lparr>ts_state_mask = KMemoryState_FlagCode, ts_state = KMemoryState_FlagCode,
          ts_perm_mask = KMemoryPermission_None, ts_perm = KMemoryPermission_None,
          ts_attr_mask = KMemoryAttribute_All, ts_attr = KMemoryAttribute_None\<rparr> DefaultMemoryIgnoreAttr;
       if res \<noteq> ResultSuccess then Some (res, t)
       else do {
         let new_perm = ConvertToKMemoryPermission svc_perm;
         let is_w = (new_perm AND KMemoryPermission_UserWrite = KMemoryPermission_UserWrite);
         let is_x = (new_perm AND KMemoryPermission_UserExecute = KMemoryPermission_UserExecute);
         ASSERT (\<not> (is_w \<and> is_x));
         new_state \<leftarrow> (if is_w then writable_code_state (out_state out) else Some (out_state out));
         (res1, pg, bim) \<leftarrow> (if is_x then MakePageGroup info_size t [] addr num_pages (m_block_info_manager t)
                            else Some (ResultSuccess, [], m_block_info_manager t));
         let t1 = t\<lparr>m_block_info_manager := snd (KPageGroup_Finalize pg bim)\<rparr>;
         if res1 \<noteq> ResultSuccess then Some (res1, t1)
         else if out_perm out = new_perm \<and> out_state out = new_state then Some (ResultSuccess, t1)
         else with_update_allocator obj_size (out_blocks_needed out) t1 (\<lambda>t al.
           do {
             t2 \<leftarrow> Operate_ChangePermissions has_nce addr num_pages new_perm t;
             (res2, t3, al') \<leftarrow> update_blocks (KMemoryBlockManager_Update addr num_pages new_state new_perm
               KMemoryAttribute_None DisableMergeAttribute_None DisableMergeAttribute_None) t2 al;
             Some (res2, if is_x then t3\<lparr>memory_log := memory_log t3 @ [InvalidateInstructionCache addr sz]\<rparr>
                         else t3, al')
           })
       }
     }"

section \<open>Locking memory for other users\<close>

text \<open>
  \<^verbatim>\<open>LockMemoryAndOpen\<close>. The two output pointers are flags that say whether they are given; a group
  that is given is empty at first. The results are the physical address, the group and the page
  table.
\<close>

record LockOut =
  lo_paddr :: "u64 option"
  lo_pg :: KPageGroup

definition GetPhysicalAddressLocked :: "KPageTableBase \<Rightarrow> u64 \<Rightarrow> u64 option option" where
  "GetPhysicalAddressLocked t virt_addr = PageTable_GetPhysicalAddress (m_impl t) virt_addr"

definition lock_paddr :: "bool \<Rightarrow> KPageTableBase \<Rightarrow> u64 \<Rightarrow> u64 option option" where
  "lock_paddr wanted t addr =
     (if wanted then
        do {
          p \<leftarrow> GetPhysicalAddressLocked t addr;
          ASSERT (p \<noteq> None);
          Some p
        }
      else Some None)"

definition LockMemoryAndOpen ::
    "bool \<Rightarrow> nat \<Rightarrow> nat \<Rightarrow> bool \<Rightarrow> bool \<Rightarrow> u64 \<Rightarrow> u64 \<Rightarrow> StateTest \<Rightarrow> u8 \<Rightarrow> u8 \<Rightarrow> KPageTableBase \<Rightarrow>
     (Result \<times> LockOut \<times> KPageTableBase) option" where
  "LockMemoryAndOpen has_nce obj_size info_size want_pg want_paddr addr sz ts new_perm lock_attr t =
     do {
       ASSERT (lock_attr AND ts_attr ts = 0);
       ASSERT (lock_attr AND (KMemoryAttribute_IpcLocked OR KMemoryAttribute_DeviceShared) = 0);
       let num_pages = sz div PageSize;
       let none = \<lparr>lo_paddr = None, lo_pg = []\<rparr>;
       if \<not> Contains t addr sz then Some (ResultInvalidCurrentMemory, none, t)
       else do {
         (res, out) \<leftarrow> CheckMemoryState (m_memory_block_manager t) addr sz
           (ts\<lparr>ts_state_mask := ts_state_mask ts OR KMemoryState_FlagReferenceCounted,
               ts_state := ts_state ts OR KMemoryState_FlagReferenceCounted\<rparr>) DefaultMemoryIgnoreAttr;
         if res \<noteq> ResultSuccess then Some (res, none, t)
         else do {
           paddr \<leftarrow> lock_paddr want_paddr t addr;
           (res1, pg, bim) \<leftarrow> (if want_pg then MakePageGroup info_size t [] addr num_pages (m_block_info_manager t)
                              else Some (ResultSuccess, [], m_block_info_manager t));
           let lo = \<lparr>lo_paddr = paddr, lo_pg = pg\<rparr>;
           let t1 = t\<lparr>m_block_info_manager := bim\<rparr>;
           if res1 \<noteq> ResultSuccess then Some (res1, lo, t1)
           else do {
             (res2, t2) \<leftarrow> with_update_allocator obj_size (out_blocks_needed out) t1 (\<lambda>t al.
               do {
                 let new_perm' = (if new_perm \<noteq> KMemoryPermission_None then new_perm else out_perm out);
                 let new_attr = out_attr out OR lock_attr;
                 t3 \<leftarrow> (if new_perm' \<noteq> out_perm out
                        then Operate_ChangePermissions has_nce addr num_pages new_perm' t else Some t);
                 (res3, t4, al') \<leftarrow> update_blocks (KMemoryBlockManager_Update addr num_pages (out_state out)
                   new_perm' new_attr DisableMergeAttribute_Locked DisableMergeAttribute_None) t3 al;
                 Some (res3, t4\<lparr>memory_log := memory_log t4 @ KPageGroup_Open pg\<rparr>, al')
               });
             Some (res2, lo, t2)
           }
         }
       }
     }"

text \<open>\<open>None\<close> as the page group is the null pointer.\<close>

definition UnlockMemory ::
    "bool \<Rightarrow> nat \<Rightarrow> u64 \<Rightarrow> u64 \<Rightarrow> StateTest \<Rightarrow> u8 \<Rightarrow> u8 \<Rightarrow> KPageGroup option \<Rightarrow> KPageTableBase \<Rightarrow>
     (Result \<times> KPageTableBase) option" where
  "UnlockMemory has_nce obj_size addr sz ts new_perm lock_attr pg t =
     do {
       ASSERT (ts_attr_mask ts AND lock_attr = lock_attr);
       ASSERT (ts_attr ts AND lock_attr = lock_attr);
       let num_pages = sz div PageSize;
       if \<not> Contains t addr sz then Some (ResultInvalidCurrentMemory, t)
       else do {
         (res, out) \<leftarrow> CheckMemoryState (m_memory_block_manager t) addr sz
           (ts\<lparr>ts_state_mask := ts_state_mask ts OR KMemoryState_FlagReferenceCounted,
               ts_state := ts_state ts OR KMemoryState_FlagReferenceCounted\<rparr>) DefaultMemoryIgnoreAttr;
         if res \<noteq> ResultSuccess then Some (res, t)
         else do {
           valid \<leftarrow> (case pg of None \<Rightarrow> Some True | Some g \<Rightarrow> IsValidPageGroup t g addr num_pages);
           if \<not> valid then Some (ResultInvalidMemoryRegion, t)
           else
             let new_perm' = (if new_perm \<noteq> KMemoryPermission_None then new_perm else out_perm out);
                 new_attr = out_attr out AND NOT lock_attr
             in with_update_allocator obj_size (out_blocks_needed out) t (\<lambda>t al.
               do {
                 t1 \<leftarrow> (if new_perm' \<noteq> out_perm out
                        then Operate_ChangePermissions has_nce addr num_pages new_perm' t else Some t);
                 update_blocks (KMemoryBlockManager_Update addr num_pages (out_state out) new_perm' new_attr
                   DisableMergeAttribute_None DisableMergeAttribute_Locked) t1 al
               })
         }
       }
     }"

text \<open>The tests of memory that can be locked and of memory that is locked.\<close>

definition lockable_test :: "u32 \<Rightarrow> StateTest" where
  "lockable_test flag =
     \<lparr>ts_state_mask = flag, ts_state = flag, ts_perm_mask = KMemoryPermission_All,
      ts_perm = KMemoryPermission_UserReadWrite, ts_attr_mask = KMemoryAttribute_All,
      ts_attr = KMemoryAttribute_None\<rparr>"

definition locked_test :: "u32 \<Rightarrow> StateTest" where
  "locked_test flag =
     \<lparr>ts_state_mask = flag, ts_state = flag, ts_perm_mask = KMemoryPermission_None,
      ts_perm = KMemoryPermission_None, ts_attr_mask = KMemoryAttribute_All,
      ts_attr = KMemoryAttribute_Locked\<rparr>"

definition LockForIpcUserBuffer ::
    "bool \<Rightarrow> nat \<Rightarrow> nat \<Rightarrow> u64 \<Rightarrow> u64 \<Rightarrow> KPageTableBase \<Rightarrow> (Result \<times> LockOut \<times> KPageTableBase) option" where
  "LockForIpcUserBuffer has_nce obj_size info_size address sz t =
     LockMemoryAndOpen has_nce obj_size info_size False True address sz
       (lockable_test KMemoryState_FlagCanIpcUserBuffer)
       (KMemoryPermission_NotMapped OR KMemoryPermission_KernelReadWrite) KMemoryAttribute_Locked t"

definition UnlockForIpcUserBuffer ::
    "bool \<Rightarrow> nat \<Rightarrow> u64 \<Rightarrow> u64 \<Rightarrow> KPageTableBase \<Rightarrow> (Result \<times> KPageTableBase) option" where
  "UnlockForIpcUserBuffer has_nce obj_size address sz t =
     UnlockMemory has_nce obj_size address sz (locked_test KMemoryState_FlagCanIpcUserBuffer)
       KMemoryPermission_UserReadWrite KMemoryAttribute_Locked None t"

definition LockForTransferMemory ::
    "bool \<Rightarrow> nat \<Rightarrow> nat \<Rightarrow> u64 \<Rightarrow> u64 \<Rightarrow> u8 \<Rightarrow> KPageTableBase \<Rightarrow> (Result \<times> LockOut \<times> KPageTableBase) option" where
  "LockForTransferMemory has_nce obj_size info_size address sz perm t =
     LockMemoryAndOpen has_nce obj_size info_size True False address sz
       (lockable_test KMemoryState_FlagCanTransfer) perm KMemoryAttribute_Locked t"

definition UnlockForTransferMemory ::
    "bool \<Rightarrow> nat \<Rightarrow> u64 \<Rightarrow> u64 \<Rightarrow> KPageGroup \<Rightarrow> KPageTableBase \<Rightarrow> (Result \<times> KPageTableBase) option" where
  "UnlockForTransferMemory has_nce obj_size address sz pg t =
     UnlockMemory has_nce obj_size address sz (locked_test KMemoryState_FlagCanTransfer)
       KMemoryPermission_UserReadWrite KMemoryAttribute_Locked (Some pg) t"

definition LockForCodeMemory ::
    "bool \<Rightarrow> nat \<Rightarrow> nat \<Rightarrow> u64 \<Rightarrow> u64 \<Rightarrow> KPageTableBase \<Rightarrow> (Result \<times> LockOut \<times> KPageTableBase) option" where
  "LockForCodeMemory has_nce obj_size info_size address sz t =
     LockMemoryAndOpen has_nce obj_size info_size True False address sz
       (lockable_test KMemoryState_FlagCanCodeMemory)
       (KMemoryPermission_NotMapped OR KMemoryPermission_KernelReadWrite) KMemoryAttribute_Locked t"

definition UnlockForCodeMemory ::
    "bool \<Rightarrow> nat \<Rightarrow> u64 \<Rightarrow> u64 \<Rightarrow> KPageGroup \<Rightarrow> KPageTableBase \<Rightarrow> (Result \<times> KPageTableBase) option" where
  "UnlockForCodeMemory has_nce obj_size address sz pg t =
     UnlockMemory has_nce obj_size address sz (locked_test KMemoryState_FlagCanCodeMemory)
       KMemoryPermission_UserReadWrite KMemoryAttribute_Locked (Some pg) t"

subsection \<open>Devices\<close>

definition LockForMapDeviceAddressSpace ::
    "nat \<Rightarrow> u64 \<Rightarrow> u64 \<Rightarrow> u8 \<Rightarrow> bool \<Rightarrow> bool \<Rightarrow> KPageTableBase \<Rightarrow> (Result \<times> bool \<times> KPageTableBase) option" where
  "LockForMapDeviceAddressSpace obj_size address sz perm is_aligned check_heap t =
     do {
       let num_pages = sz div PageSize;
       if \<not> Contains t address sz then Some (ResultInvalidCurrentMemory, False, t)
       else do {
         let test_state =
           (if is_aligned then KMemoryState_FlagCanAlignedDeviceMap else KMemoryState_FlagCanDeviceMap) OR
           (if check_heap then KMemoryState_FlagReferenceCounted else KMemoryState_None);
         (res, out) \<leftarrow> CheckMemoryState (m_memory_block_manager t) address sz
           \<lparr>ts_state_mask = test_state, ts_state = test_state, ts_perm_mask = perm, ts_perm = perm,
            ts_attr_mask = KMemoryAttribute_IpcLocked OR KMemoryAttribute_Locked,
            ts_attr = KMemoryAttribute_None\<rparr> KMemoryAttribute_DeviceShared;
         if res \<noteq> ResultSuccess then Some (res, False, t)
         else do {
           (res1, t1) \<leftarrow> with_update_allocator obj_size (out_blocks_needed out) t
             (update_blocks (KMemoryBlockManager_UpdateLock address num_pages ShareToDevice KMemoryPermission_None));
           Some (res1, out_state out AND KMemoryState_Mask = SvcMemoryState_Io, t1)
         }
       }
     }"

definition device_shared_test :: "u32 \<Rightarrow> StateTest" where
  "device_shared_test test_state =
     \<lparr>ts_state_mask = test_state, ts_state = test_state, ts_perm_mask = KMemoryPermission_None,
      ts_perm = KMemoryPermission_None,
      ts_attr_mask = KMemoryAttribute_DeviceShared OR KMemoryAttribute_Locked,
      ts_attr = KMemoryAttribute_DeviceShared\<rparr>"

text \<open>The three operations on memory that is shared with a device differ in the lock function.\<close>

definition update_device_shared ::
    "nat \<Rightarrow> u64 \<Rightarrow> u64 \<Rightarrow> u32 \<Rightarrow> (u8 \<Rightarrow> bool \<Rightarrow> bool \<Rightarrow> KMemoryBlock \<Rightarrow> KMemoryBlock option) \<Rightarrow> KPageTableBase \<Rightarrow>
     (Result \<times> KPageTableBase) option" where
  "update_device_shared obj_size address sz test_state lock_func t =
     do {
       let num_pages = sz div PageSize;
       if \<not> Contains t address sz then Some (ResultInvalidCurrentMemory, t)
       else do {
         (res, blocks) \<leftarrow> CheckMemoryStateContiguous (m_memory_block_manager t) address sz
           (device_shared_test test_state);
         if res \<noteq> ResultSuccess then Some (res, t)
         else with_update_allocator obj_size blocks t
           (update_blocks (KMemoryBlockManager_UpdateLock address num_pages lock_func KMemoryPermission_None))
       }
     }"

definition LockForUnmapDeviceAddressSpace ::
    "nat \<Rightarrow> u64 \<Rightarrow> u64 \<Rightarrow> bool \<Rightarrow> KPageTableBase \<Rightarrow> (Result \<times> KPageTableBase) option" where
  "LockForUnmapDeviceAddressSpace obj_size address sz check_heap t =
     update_device_shared obj_size address sz
       (KMemoryState_FlagCanDeviceMap OR
        (if check_heap then KMemoryState_FlagReferenceCounted else KMemoryState_None))
       (if m_enable_device_address_space_merge t then UpdateDeviceDisableMergeStateForShare
        else UpdateDeviceDisableMergeStateForShareRight) t"

definition UnlockForDeviceAddressSpace ::
    "nat \<Rightarrow> u64 \<Rightarrow> u64 \<Rightarrow> KPageTableBase \<Rightarrow> (Result \<times> KPageTableBase) option" where
  "UnlockForDeviceAddressSpace obj_size address sz t =
     update_device_shared obj_size address sz KMemoryState_FlagCanDeviceMap UnshareToDevice t"

definition UnlockForDeviceAddressSpacePartialMap ::
    "nat \<Rightarrow> u64 \<Rightarrow> u64 \<Rightarrow> KPageTableBase \<Rightarrow> (Result \<times> KPageTableBase) option" where
  "UnlockForDeviceAddressSpacePartialMap obj_size address sz t =
     update_device_shared obj_size address sz KMemoryState_FlagCanDeviceMap
       (if m_enable_device_address_space_merge t then UpdateDeviceDisableMergeStateForUnshare
        else UpdateDeviceDisableMergeStateForUnshareRight) t"

subsection \<open>Queries\<close>

definition QueryInfoImpl :: "KPageTableBase \<Rightarrow> u64 \<Rightarrow> (Result \<times> KMemoryInfo option) option" where
  "QueryInfoImpl t address =
     Some (case FindBlock (m_memory_block_manager t) address of
             None \<Rightarrow> (ResultInvalidCurrentMemory, None)
           | Some b \<Rightarrow> (ResultSuccess, Some (GetMemoryInfo b)))"

definition SvcMemoryState_Inaccessible :: u32 where [flag_simps]: "SvcMemoryState_Inaccessible = 0x10"

definition QueryInfo :: "KPageTableBase \<Rightarrow> u64 \<Rightarrow> (Result \<times> KMemoryInfo option) option" where
  "QueryInfo t addr =
     (if \<not> Contains t addr 1
      then Some (ResultSuccess, Some
        \<lparr>mi_address = m_address_space_end t, mi_size = 0 - m_address_space_end t,
         mi_state = SvcMemoryState_Inaccessible, mi_device_disable_merge_left_count = 0,
         mi_device_disable_merge_right_count = 0, mi_ipc_lock_count = 0, mi_device_use_count = 0,
         mi_ipc_disable_merge_count = 0, mi_permission = KMemoryPermission_None,
         mi_attribute = KMemoryAttribute_None, mi_original_permission = KMemoryPermission_None,
         mi_disable_merge_attribute = DisableMergeAttribute_None\<rparr>)
      else QueryInfoImpl t addr)"

end
