(* ===== verification/KPageTableChecks.thy ===== *)
theory KPageTableChecks
  imports KPageTablePermissions KPageTableLayout
begin

text \<open>
  The state checks decide properties of pages: a check of a range succeeds exactly when every page
  of the range satisfies it, and the number of blocks it asks for is the number that the update of
  the range needs. The setters and locks of \<open>KPageTablePermissions\<close> are built on this: they
  change exactly the pages of the range, or report an error and change none.
\<close>

section \<open>Blocks and pages\<close>

lemma page_at_block:
  "chain s t e \<Longrightarrow> c \<in> set t \<Longrightarrow> bstart c \<le> x \<Longrightarrow> x < bend c \<Longrightarrow> page_at t x = Some (props_of c)"
proof (induction t arbitrary: s)
  case (Cons b t)
  show ?case
  proof (cases "c = b")
    case False
    then have "c \<in> set t" "bend b \<le> bstart c"
      using Cons.prems(1,2) chain_member [of "bend b" t e c] by auto
    then show ?thesis
      using Cons by auto
  qed (use Cons.prems in simp)
qed simp

lemma chain_member_unique:
  "chain s t e \<Longrightarrow> c \<in> set t \<Longrightarrow> d \<in> set t \<Longrightarrow> bstart c \<le> x \<Longrightarrow> x < bend c \<Longrightarrow>
   bstart d \<le> x \<Longrightarrow> x < bend d \<Longrightarrow> c = d"
proof (induction t arbitrary: s)
  case (Cons b t)
  then show ?case
    using chain_member [of "bend b" t e] by (fastforce dest: leD)
qed simp

text \<open>A property of every page of a range of addresses.\<close>

definition range_all :: "KMemoryBlock list \<Rightarrow> nat \<Rightarrow> nat \<Rightarrow> (MemProps \<Rightarrow> bool) \<Rightarrow> bool" where
  "range_all t a e R \<longleftrightarrow> (\<forall>x. a \<le> x \<longrightarrow> x < e \<longrightarrow> (\<exists>q. page_at t x = Some q \<and> R q))"

lemma range_all_blocks:
  assumes "chain s (pre @ b # post) E" "bstart b \<le> a" "a < bend b" "a < e" "e \<le> E"
  shows "range_all (pre @ b # post) a e R \<longleftrightarrow> (\<forall>c\<in>set (b # post). bstart c < e \<longrightarrow> R (props_of c))"
proof
  have ch: "chain (bstart b) (b # post) E"
    using assms(1) by (auto simp: chain_append)
  assume all: "range_all (pre @ b # post) a e R"
  show "\<forall>c\<in>set (b # post). bstart c < e \<longrightarrow> R (props_of c)"
  proof (intro ballI impI)
    fix c
    assume c: "c \<in> set (b # post)" "bstart c < e"
    let ?x = "max a (bstart c)"
    have "bstart c < bend c" "a < bend c"
      using chain_member [OF ch c(1)] block_wf_less [of c] c(1) assms(3) ch chain_member [of "bend b" post E c] by auto
    then have "page_at (pre @ b # post) ?x = Some (props_of c)"
      using c(1) by (intro page_at_block [OF assms(1)]) auto
    then show "R (props_of c)"
      using all assms(4) c(2) by (auto simp: range_all_def dest!: spec [of _ ?x])
  qed
next
  assume all: "\<forall>c\<in>set (b # post). bstart c < e \<longrightarrow> R (props_of c)"
  have ch: "chain (bstart b) (b # post) E" and pre: "chain s pre (bstart b)"
    using assms(1) by (auto simp: chain_append)
  show "range_all (pre @ b # post) a e R"
    unfolding range_all_def
  proof (intro allI impI)
    fix x
    assume x: "a \<le> x" "x < e"
    then obtain c where c: "c \<in> set (b # post)" "bstart c \<le> x" "x < bend c"
      using page_at_inside [OF ch, of x] assms(2,5) by (meson le_trans less_le_trans)
    then have "page_at (pre @ b # post) x = Some (props_of c)"
      by (intro page_at_block [OF assms(1)]) auto
    then show "\<exists>q. page_at (pre @ b # post) x = Some q \<and> R q"
      using all c x(2) by auto
  qed
qed

section \<open>The loop over the blocks\<close>

lemma mi_last: "mi_GetLastAddress (GetMemoryInfo b) = GetLastAddress b" "mi_GetEndAddress (GetMemoryInfo b) = GetEndAddress b"
  by (simp_all add: mi_GetLastAddress_def mi_GetEndAddress_def GetMemoryInfo_def GetLastAddress_def GetEndAddress_def)

lemma check_blocks_ok:
  assumes "chain s (b # post) E" "unat last_addr < E"
    and "\<And>c. test (GetMemoryInfo c) = (if R (props_of c) then ResultSuccess else ResultInvalidCurrentMemory)"
    and "bstart b \<le> unat last_addr"
  shows "if \<forall>c\<in>set (b # post). bstart c \<le> unat last_addr \<longrightarrow> R (props_of c)
    then \<exists>c\<in>set (b # post). check_blocks test last_addr (b # post) = Some (ResultSuccess, GetMemoryInfo c) \<and>
      bstart c \<le> unat last_addr \<and> unat last_addr < bend c
    else \<exists>info. check_blocks test last_addr (b # post) = Some (ResultInvalidCurrentMemory, info)"
  using assms(1,4)
proof (induction post arbitrary: s b)
  case Nil
  then have "unat last_addr < bend b" "block_wf b"
    using assms(2) by auto
  then have "last_addr \<le> GetLastAddress b"
    using block_wf_less [of b] by (simp add: word_le_nat_alt unat_GetLastAddress)
  then show ?case
    using Nil assms(3) \<open>unat last_addr < bend b\<close> by (simp add: mi_last Let_def)
next
  case (Cons d post)
  have b: "block_wf b" "bend b = bstart d" "chain (bstart d) (d # post) E"
    using Cons.prems(1) by auto
  show ?case
  proof (cases "R (props_of b) \<and> \<not> last_addr \<le> GetLastAddress b")
    case True
    then have "\<not> unat last_addr \<le> bend b - 1"
      using b(1) by (simp add: word_le_nat_alt unat_GetLastAddress)
    then have "bstart d \<le> unat last_addr"
      using b(2) by linarith
    from Cons.IH [OF b(3) this] True show ?thesis
      using assms(3) by (auto simp: mi_last Let_def split: if_splits)
  next
    case False
    show ?thesis
    proof (cases "R (props_of b)")
      case True
      with False have in_b: "unat last_addr < bend b" "last_addr \<le> GetLastAddress b"
        using b(1) block_wf_less [of b] by (simp_all add: word_le_nat_alt unat_GetLastAddress)
      have "\<not> bstart c \<le> unat last_addr" if "c \<in> set (d # post)" for c
        using chain_member [OF b(3) that] b(2) in_b(1) by simp
      then have all: "\<forall>c\<in>set (b # d # post). bstart c \<le> unat last_addr \<longrightarrow> R (props_of c)"
        using True by auto
      have "check_blocks test last_addr (b # d # post) = Some (ResultSuccess, GetMemoryInfo b)"
        using True in_b(2) assms(3) by (simp add: mi_last Let_def)
      with all Cons.prems(2) in_b(1) show ?thesis
        by (simp del: check_blocks.simps)
    next
      case not: False
      then show ?thesis
        using assms(3) Cons.prems(2) by (auto simp: Let_def)
    qed
  qed
qed

section \<open>The checks\<close>

definition props_match :: "StateTest \<Rightarrow> MemProps \<Rightarrow> bool" where
  "props_match ts q \<longleftrightarrow> p_state q AND ts_state_mask ts = ts_state ts \<and>
     p_permission q AND ts_perm_mask ts = ts_perm ts \<and> p_attribute q AND ts_attr_mask ts = ts_attr ts"

definition same_kind :: "u8 \<Rightarrow> MemProps \<Rightarrow> MemProps \<Rightarrow> bool" where
  "same_kind ignore_attr q0 q \<longleftrightarrow> p_state q = p_state q0 \<and> p_permission q = p_permission q0 \<and>
     (p_attribute q OR ignore_attr) = (p_attribute q0 OR ignore_attr)"

lemma CheckMemoryState_info_props:
  "CheckMemoryState_info ts (GetMemoryInfo b) =
     (if props_match ts (props_of b) then ResultSuccess else ResultInvalidCurrentMemory)"
  by (simp add: CheckMemoryState_info_def GetMemoryInfo_def props_match_def props_of_def)

lemma test_like_first_props:
  "test_like_first ts ignore_attr (GetMemoryInfo b) (GetMemoryInfo c) =
     (if props_match ts (props_of c) \<and> same_kind ignore_attr (props_of b) (props_of c)
      then ResultSuccess else ResultInvalidCurrentMemory)"
  unfolding test_like_first_def CheckMemoryState_info_props
  by (simp add: GetMemoryInfo_def same_kind_def props_of_def)

definition range_in :: "KMemoryBlockManager \<Rightarrow> u64 \<Rightarrow> u64 \<Rightarrow> bool" where
  "range_in m addr sz \<longleftrightarrow> unat (m_start_address m) \<le> unat addr \<and> 0 < unat sz \<and>
     unat addr + unat sz \<le> unat (m_end_address m)"

definition page_of :: "KMemoryBlockManager \<Rightarrow> u64 \<Rightarrow> MemProps" where
  "page_of m addr = the (page_at (m_memory_block_tree m) (unat addr))"

text \<open>The first and the last address of the pages of a range.\<close>

definition page_down :: "nat \<Rightarrow> nat" where "page_down x = x div 4096 * 4096"
definition page_up :: "nat \<Rightarrow> nat" where "page_up x = (x + 4095) div 4096 * 4096"

lemma unat_AlignDown_page: "unat (AlignDown a PageSize) = page_down (unat a)"
  by (simp add: unat_AlignDown page_down_def minus_mod_eq_div_mult)

lemma page_down_aligned: "x mod 4096 = 0 \<Longrightarrow> page_down x = x" "x mod 4096 = 0 \<Longrightarrow> page_up x = x"
  by (auto simp: page_down_def page_up_def elim!: dvdE simp flip: mod_eq_0_iff_dvd dest!: mod_0_imp_dvd)

lemma page_up_bounds: "x \<le> page_up x" "page_up x mod 4096 = 0" "y mod 4096 = 0 \<Longrightarrow> x \<le> y \<Longrightarrow> page_up x \<le> y"
  "page_up x < x + 4096"
proof -
  have d: "(x + 4095) div 4096 * 4096 + (x + 4095) mod 4096 = x + 4095"
    by simp
  have m: "(x + 4095) mod 4096 < 4096"
    by simp
  show "x \<le> page_up x" "page_up x < x + 4096"
    unfolding page_up_def using d m by linarith+
  show "page_up x mod 4096 = 0"
    by (simp add: page_up_def)
  show "page_up x \<le> y" if "y mod 4096 = 0" "x \<le> y"
  proof -
    have "(x + 4095) div 4096 \<le> (y + 4095) div 4096"
      using that(2) by (intro div_le_mono) simp
    moreover have "(y + 4095) div 4096 = y div 4096"
      using that(1) by (auto elim!: dvdE dest!: mod_0_imp_dvd)
    ultimately show ?thesis
      unfolding page_up_def using that(1) by (metis div_mult_mod_eq add.right_neutral mult_le_mono1)
  qed
qed

lemma unat_AlignUp_page:
  assumes "unat v \<le> y" "y mod 4096 = 0" "y < 2 ^ 64"
  shows "unat (AlignUp v PageSize) = page_up (unat v)"
proof -
  obtain k where k: "y = k * 4096"
    using assms(2) by (metis mod_0_imp_dvd dvd_def mult.commute)
  note up = unat_AlignUp_le [of v k 4096]
  have "unat v \<le> unat (AlignUp v 4096)" "unat (AlignUp v 4096) mod 4096 = 0"
    using up assms k by simp_all
  then have ge: "page_up (unat v) \<le> unat (AlignUp v 4096)"
    by (intro page_up_bounds(3))
  obtain j where j: "page_up (unat v) = j * 4096"
    by (metis page_up_def)
  have "j * 4096 \<le> y"
    using page_up_bounds(3) [OF assms(2,1)] j by simp
  then have "unat (AlignUp v 4096) \<le> j * 4096"
    using unat_AlignUp_le(1) [of v j 4096] page_up_bounds(1) [of "unat v"] j assms(3) by simp
  with ge j show ?thesis
    by simp
qed

lemma located:
  assumes "manager_ok m" "range_in m addr sz"
  obtains pre b post where "m_memory_block_tree m = pre @ b # post" "bstart b \<le> unat addr" "unat addr < bend b"
    "FindIterator m addr = length pre" "chain (unat (m_start_address m)) (pre @ b # post) (unat (m_end_address m))"
    "chain (bstart b) (b # post) (unat (m_end_address m))" "page_of m addr = props_of b"
proof -
  have ch: "chain (unat (m_start_address m)) (m_memory_block_tree m) (unat (m_end_address m))"
    using assms(1) by (simp add: manager_ok_def)
  have "unat (m_start_address m) \<le> unat addr" "unat addr < unat (m_end_address m)"
    using assms(2) by (auto simp: range_in_def)
  then obtain pre b post where t: "m_memory_block_tree m = pre @ b # post" "bstart b \<le> unat addr" "unat addr < bend b"
    by (rule chain_locate [OF ch])
  moreover have "FindIterator m addr = length pre"
    using FindIterator_eq [OF t(1) ch t(2,3)] .
  moreover have "page_of m addr = props_of b"
    using page_at_block [OF ch, of b "unat addr"] t by (simp add: page_of_def)
  ultimately show ?thesis
    using that ch by (auto simp: chain_append)
qed

lemma range_words:
  assumes "manager_ok m" "range_in m addr sz"
  shows "unat (addr + sz) = unat addr + unat sz" "unat (addr + sz - 1) = unat addr + unat sz - 1"
    "unat (m_end_address m) mod 4096 = 0"
proof -
  have lt: "unat (m_end_address m) < 2 ^ 64"
    by (rule unat_lt_64)
  then show s: "unat (addr + sz) = unat addr + unat sz"
    using assms(2) by (simp add: range_in_def unat_plus_no_wrap)
  then show "unat (addr + sz - 1) = unat addr + unat sz - 1"
    using assms(2) by (simp add: range_in_def unat_minus_no_wrap)
  have ch: "chain (unat (m_start_address m)) (m_memory_block_tree m) (unat (m_end_address m))" "m_memory_block_tree m \<noteq> []"
    using assms(1) by (simp_all add: manager_ok_def)
  then obtain b where "chain (unat (m_start_address m)) (butlast (m_memory_block_tree m) @ [b]) (unat (m_end_address m))"
    by (metis append_butlast_last_id)
  then show "unat (m_end_address m) mod 4096 = 0"
    by (auto simp: chain_append simp flip: bend_aligned)
qed

text \<open>The blocks that the checks count are those that an update needs.\<close>

lemma end_align_count:
  assumes "chain s (b # post) E" "c \<in> set (b # post)" "bstart c < e" "e \<le> bend c" "page_up e = u"
  shows "u \<in> bend ` set (b # post) \<longleftrightarrow> bend c = u"
proof
  assume "u \<in> bend ` set (b # post)"
  then obtain d where d: "d \<in> set (b # post)" "bend d = u"
    by blast
  have wf: "block_wf c" "block_wf d"
    using chain_member [OF assms(1)] assms(2) d(1) by blast+
  have u: "e \<le> u" "u < e + 4096"
    using page_up_bounds(1,4) [of e] assms(5) by simp_all
  have "bstart d + 4096 \<le> bend d"
    using wf(2) by (simp add: block_wf_def bend_def)
  then have "bstart d \<le> e - 1" "e - 1 < bend d" "bstart c \<le> e - 1" "e - 1 < bend c"
    using u d(2) assms(3,4) by auto
  then show "bend c = u"
    using d chain_member_unique [OF assms(1,2) d(1)] by blast
qed (use assms in auto)

lemma blocks_needed_range:
  assumes "manager_ok m" "range_in m addr sz" "m_memory_block_tree m = pre @ b # post"
    and "bstart b \<le> unat addr" "unat addr < bend b"
    and "c \<in> set (b # post)" "bstart c \<le> unat addr + unat sz - 1" "unat addr + unat sz - 1 < bend c"
  shows "blocks_needed (m_memory_block_tree m) (page_down (unat addr)) (page_up (unat addr + unat sz)) =
    (if page_down (unat addr) \<noteq> bstart b then 1 else 0) + (if page_up (unat addr + unat sz) \<noteq> bend c then 1 else 0)"
proof -
  let ?a = "page_down (unat addr)" and ?u = "page_up (unat addr + unat sz)"
  have ch: "chain (unat (m_start_address m)) (pre @ b # post) (unat (m_end_address m))"
    using assms(1,3) by (simp add: manager_ok_def)
  then have chs: "chain (unat (m_start_address m)) pre (bstart b)" "chain (bstart b) (b # post) (unat (m_end_address m))"
    by (auto simp: chain_append)
  have "bstart b mod 4096 = 0"
    using chs(2) by (simp add: block_wf_def)
  then have "page_down (bstart b) \<le> ?a" "page_down (bstart b) = bstart b"
    using assms(4) page_down_aligned(1) by (auto simp: page_down_def div_le_mono)
  moreover have "?a \<le> unat addr"
    by (simp add: page_down_def)
  moreover have sz: "0 < unat sz"
    using assms(2) by (simp add: range_in_def)
  moreover have "unat addr + unat sz \<le> ?u"
    by (rule page_up_bounds)
  ultimately have a: "bstart b \<le> ?a" "?a < bend b" "?a < ?u"
    using assms(5) by linarith+
  have "?u \<in> bend ` set (b # post) \<longleftrightarrow> bend c = ?u"
    using end_align_count [OF chs(2) assms(6) _ _ refl, of "unat addr + unat sz"] assms(7,8) sz by auto
  then show ?thesis
    unfolding assms(3) blocks_needed_located [OF chs a] by auto
qed

text \<open>The outcome of a check of the pages of a range.\<close>

definition check_result :: "bool \<Rightarrow> Result" where
  "check_result ok = (if ok then ResultSuccess else ResultInvalidCurrentMemory)"

definition range_needs :: "KMemoryBlockManager \<Rightarrow> u64 \<Rightarrow> u64 \<Rightarrow> nat" where
  "range_needs m addr sz =
     blocks_needed (m_memory_block_tree m) (page_down (unat addr)) (page_up (unat addr + unat sz))"

lemma CheckMemoryStateContiguous_ok:
  fixes ts :: StateTest
  assumes "manager_ok m" "range_in m addr sz"
  defines "ok \<equiv> range_all (m_memory_block_tree m) (unat addr) (unat addr + unat sz) (props_match ts)"
  shows "\<exists>n. CheckMemoryStateContiguous m addr sz ts = Some (check_result ok, n) \<and> (ok \<longrightarrow> n = range_needs m addr sz)"
proof -
  obtain pre b post where l: "m_memory_block_tree m = pre @ b # post" "bstart b \<le> unat addr" "unat addr < bend b"
    "FindIterator m addr = length pre" "chain (unat (m_start_address m)) (pre @ b # post) (unat (m_end_address m))"
    "chain (bstart b) (b # post) (unat (m_end_address m))"
    using located [OF assms(1,2)] by metis
  note w = range_words [OF assms(1,2)]
  have r: "0 < unat sz" "unat addr + unat sz \<le> unat (m_end_address m)"
    using assms(2) by (simp_all add: range_in_def)
  have ok: "ok \<longleftrightarrow> (\<forall>c\<in>set (b # post). bstart c \<le> unat (addr + sz - 1) \<longrightarrow> props_match ts (props_of c))"
    unfolding ok_def l(1) w(2) using range_all_blocks [OF l(5,2,3), of "unat addr + unat sz"] r by auto
  have last: "unat (addr + sz - 1) < unat (m_end_address m)" "bstart b \<le> unat (addr + sz - 1)"
    using w(2) r l(2) by auto
  note cb = check_blocks_ok [where test = "CheckMemoryState_info ts" and R = "props_match ts",
      OF l(6) last(1) CheckMemoryState_info_props last(2), folded ok]
  show ?thesis
  proof (cases ok)
    case True
    then obtain c where c: "c \<in> set (b # post)" "check_blocks (CheckMemoryState_info ts) (addr + sz - 1) (b # post) =
        Some (ResultSuccess, GetMemoryInfo c)" "bstart c \<le> unat (addr + sz - 1)" "unat (addr + sz - 1) < bend c"
      using cb by auto
    have wf: "block_wf b" "block_wf c"
      using chain_member [OF l(6)] c(1) by auto
    have al: "AlignDown addr PageSize = m_address b \<longleftrightarrow> page_down (unat addr) = bstart b"
      "AlignUp (addr + sz) PageSize = GetEndAddress c \<longleftrightarrow> page_up (unat addr + unat sz) = bend c"
      using unat_AlignDown_page [of addr] unat_AlignUp_page [of "addr + sz" "unat (m_end_address m)"] w r unat_lt_64
        unat_GetEndAddress [OF wf(2)]
      by (simp_all only: word_eq_unat_iff bstart_def)
    have "m_address b = mi_address (GetMemoryInfo b)"
      by (simp add: GetMemoryInfo_def)
    then show ?thesis
      using True c(2) l(1,4) al blocks_needed_range [OF assms(1,2) l(1-3) c(1) c(3,4) [unfolded w(2)]]
      unfolding CheckMemoryStateContiguous_def range_needs_def
      by (simp add: mi_last check_result_def)
  next
    case False
    then obtain info where "check_blocks (CheckMemoryState_info ts) (addr + sz - 1) (b # post) =
        Some (ResultInvalidCurrentMemory, info)"
      using cb by auto
    then show ?thesis
      using False l(1,4) by (simp add: CheckMemoryStateContiguous_def check_result_def)
  qed
qed

lemma page_up_last:
  assumes "0 < e"
  shows "page_down (e - 1) + 4096 = page_up e"
proof -
  have "e + 4095 = (e - 1) + 4096"
    using assms by simp
  then show ?thesis
    unfolding page_down_def page_up_def by (simp only: div_add_self2) simp
qed

text \<open>The pages of a range that pass the test and are like the first of them.\<close>

definition uniform_range :: "KMemoryBlockManager \<Rightarrow> u64 \<Rightarrow> u64 \<Rightarrow> StateTest \<Rightarrow> u8 \<Rightarrow> bool" where
  "uniform_range m addr sz ts ignore_attr \<longleftrightarrow>
     range_all (m_memory_block_tree m) (unat addr) (unat addr + unat sz)
       (\<lambda>q. props_match ts q \<and> same_kind ignore_attr (page_of m addr) q)"

definition out_of :: "KMemoryBlockManager \<Rightarrow> u64 \<Rightarrow> u64 \<Rightarrow> u8 \<Rightarrow> StateOut" where
  "out_of m addr sz ignore_attr =
     \<lparr>out_state = p_state (page_of m addr), out_perm = p_permission (page_of m addr),
      out_attr = p_attribute (page_of m addr) AND NOT ignore_attr, out_blocks_needed = range_needs m addr sz\<rparr>"

lemma CheckMemoryState_ok:
  assumes "manager_ok m" "range_in m addr sz"
  shows "\<exists>out. CheckMemoryState m addr sz ts ignore_attr =
      Some (check_result (uniform_range m addr sz ts ignore_attr), out) \<and>
    (uniform_range m addr sz ts ignore_attr \<longrightarrow> out = out_of m addr sz ignore_attr)"
proof -
  obtain pre b post where l: "m_memory_block_tree m = pre @ b # post" "bstart b \<le> unat addr" "unat addr < bend b"
    "FindIterator m addr = length pre" "chain (unat (m_start_address m)) (pre @ b # post) (unat (m_end_address m))"
    "chain (bstart b) (b # post) (unat (m_end_address m))" "page_of m addr = props_of b"
    using located [OF assms(1,2)] by metis
  note w = range_words [OF assms(1,2)]
  have r: "0 < unat sz" "unat addr + unat sz \<le> unat (m_end_address m)"
    using assms(2) by (simp_all add: range_in_def)
  let ?R = "\<lambda>q. props_match ts q \<and> same_kind ignore_attr (props_of b) q"
  let ?test = "test_like_first ts ignore_attr (GetMemoryInfo b)"
  define ok where "ok = uniform_range m addr sz ts ignore_attr"
  have ok: "ok \<longleftrightarrow> (\<forall>c\<in>set (b # post). bstart c \<le> unat (addr + sz - 1) \<longrightarrow> ?R (props_of c))"
    unfolding ok_def uniform_range_def l(1,7) w(2)
    using range_all_blocks [OF l(5,2,3), of "unat addr + unat sz" ?R] r by auto
  have last: "unat (addr + sz - 1) < unat (m_end_address m)" "bstart b \<le> unat (addr + sz - 1)"
    using w(2) r l(2) by auto
  note cb = check_blocks_ok [where test = ?test and R = ?R, OF l(6) last(1) test_like_first_props last(2), folded ok]
  have get: "array_get (m_memory_block_tree m) (FindIterator m addr) = Some b"
    "drop (FindIterator m addr) (m_memory_block_tree m) = b # post"
    using l(1,4) by simp_all
  show ?thesis
    unfolding ok_def [symmetric]
  proof (cases ok)
    case True
    then obtain c where c: "c \<in> set (b # post)" "check_blocks ?test (addr + sz - 1) (b # post) =
        Some (ResultSuccess, GetMemoryInfo c)" "bstart c \<le> unat (addr + sz - 1)" "unat (addr + sz - 1) < bend c"
      using cb by auto
    have wf: "block_wf b" "block_wf c"
      using chain_member [OF l(6)] c(1) by auto
    have up: "page_up (unat addr + unat sz) \<le> unat (m_end_address m)"
      using page_up_bounds(3) [OF w(3)] r(2) by simp
    then have "unat (AlignDown (addr + sz - 1) PageSize + PageSize) = page_up (unat addr + unat sz)"
      using unat_AlignDown_page [of "addr + sz - 1"] page_up_last [of "unat addr + unat sz"] w(2) r(1)
        unat_plus_no_wrap [of "AlignDown (addr + sz - 1) PageSize" PageSize] unat_lt_64 [of "m_end_address m"]
      by simp
    then have al: "AlignDown addr PageSize = m_address b \<longleftrightarrow> page_down (unat addr) = bstart b"
      "AlignDown (addr + sz - 1) PageSize + PageSize = GetEndAddress c \<longleftrightarrow> page_up (unat addr + unat sz) = bend c"
      using unat_AlignDown_page [of addr] unat_GetEndAddress [OF wf(2)]
      by (simp_all only: word_eq_unat_iff bstart_def)
    have info: "mi_state (GetMemoryInfo b) = p_state (page_of m addr)"
      "mi_permission (GetMemoryInfo b) = p_permission (page_of m addr)"
      "mi_attribute (GetMemoryInfo b) = p_attribute (page_of m addr)"
      unfolding l(7) by (simp_all add: GetMemoryInfo_def props_of_def)
    have "CheckMemoryState m addr sz ts ignore_attr = Some (ResultSuccess, out_of m addr sz ignore_attr)"
      using c(2) get al blocks_needed_range [OF assms(1,2) l(1-3) c(1) c(3,4) [unfolded w(2)]]
      unfolding CheckMemoryState_def CheckMemoryState_it_def out_of_def range_needs_def
      by (simp add: mi_last info Let_def del: check_blocks.simps)
    with True show "\<exists>out. CheckMemoryState m addr sz ts ignore_attr = Some (check_result ok, out) \<and>
        (ok \<longrightarrow> out = out_of m addr sz ignore_attr)"
      by (simp add: check_result_def)
  next
    case False
    then obtain info where "check_blocks ?test (addr + sz - 1) (b # post) = Some (ResultInvalidCurrentMemory, info)"
      using cb by auto
    then show "\<exists>out. CheckMemoryState m addr sz ts ignore_attr = Some (check_result ok, out) \<and>
        (ok \<longrightarrow> out = out_of m addr sz ignore_attr)"
      using False get
      by (simp add: CheckMemoryState_def CheckMemoryState_it_def check_result_def Let_def del: check_blocks.simps)
  qed
qed

text \<open>
  C37. State checks. \<open>CheckMemoryStateContiguous\<close> succeeds exactly when every page of the range
  passes the test, and \<open>CheckMemoryState\<close> exactly when every page passes it and all pages have
  the state, permission and attributes (up to the ignored ones) of the first; otherwise they return
  \<open>ResultInvalidCurrentMemory\<close>. On success they report the properties of the first page, and the
  number of blocks that an update of the pages of the range has to allocate. They never run past
  the end of the tree.
\<close>

theorem state_checks_decide_pages:
  assumes "manager_ok m" "range_in m addr sz"
  defines "pages_ok R \<equiv> range_all (m_memory_block_tree m) (unat addr) (unat addr + unat sz) R"
  shows "(\<exists>n. CheckMemoryStateContiguous m addr sz ts = Some (check_result (pages_ok (props_match ts)), n) \<and>
      (pages_ok (props_match ts) \<longrightarrow> n = range_needs m addr sz)) \<and>
    (\<exists>out. CheckMemoryState m addr sz ts ignore_attr =
        Some (check_result (pages_ok (\<lambda>q. props_match ts q \<and> same_kind ignore_attr (page_of m addr) q)), out) \<and>
      (pages_ok (\<lambda>q. props_match ts q \<and> same_kind ignore_attr (page_of m addr) q) \<longrightarrow>
        out = out_of m addr sz ignore_attr))"
  using CheckMemoryStateContiguous_ok [OF assms(1,2), of ts] CheckMemoryState_ok [OF assms(1,2), of ts ignore_attr]
  unfolding pages_ok_def uniform_range_def by blast

theorem state_checks_decide_pages_witness:
  "(\<exists>n. CheckMemoryStateContiguous sample_manager 0x2000 0x1800 (lockable_test 0) =
      Some (ResultInvalidCurrentMemory, n)) \<and>
   (\<exists>out. CheckMemoryState sample_manager 0x2000 0x1800 (device_shared_test 0\<lparr>ts_attr := 0\<rparr>) 0 =
      Some (ResultSuccess, out) \<and> out_blocks_needed out = 2)"
proof -
  have r: "range_in sample_manager 0x2000 0x1800"
    by (simp add: range_in_def sample_manager_def)
  let ?t = "m_memory_block_tree sample_manager"
  have pg: "page_at ?t x = (if 0x1000 \<le> x \<and> x < 0x9000 then Some free_page else None)" for x
    by (simp add: sample_manager_def bstart_def bend_def bpages_def KMemoryBlock_ctor_def props_of_def free_page_def
        KMemoryPermission_None_def)
  have po: "page_of sample_manager 0x2000 = free_page"
    unfolding page_of_def pg by simp
  have bad: "\<not> range_all ?t (unat (0x2000 :: u64)) (unat (0x2000 :: u64) + unat (0x1800 :: u64)) (props_match (lockable_test 0))"
    unfolding range_all_def pg
    by (auto simp: props_match_def lockable_test_def free_page_def flag_simps intro!: exI [of _ "0x2000"])
  have good: "range_all ?t (unat (0x2000 :: u64)) (unat (0x2000 :: u64) + unat (0x1800 :: u64))
      (\<lambda>q. props_match (device_shared_test 0\<lparr>ts_attr := 0\<rparr>) q \<and> same_kind 0 (page_of sample_manager 0x2000) q)"
    unfolding range_all_def pg po by (auto simp: props_match_def same_kind_def device_shared_test_def free_page_def flag_simps)
  have needs: "range_needs sample_manager 0x2000 0x1800 = 2"
    by (simp add: range_needs_def blocks_needed_def sample_manager_def bstart_def bend_def bpages_def
        KMemoryBlock_ctor_def page_down_def page_up_def)
  show ?thesis
    using state_checks_decide_pages [OF sample_manager_ok(1) r, of "lockable_test 0" 0]
      state_checks_decide_pages [OF sample_manager_ok(1) r, of "device_shared_test 0\<lparr>ts_attr := 0\<rparr>" 0] bad good needs
    by (auto simp: check_result_def out_of_def)
qed

end
