(* ===== verification/KPageTableUpdates.thy ===== *)
theory KPageTableUpdates
  imports KPageTableChecks
begin

text \<open>
  The setters and locks of a page table: on a range that passes the check of the operation every
  page of the range is changed as requested and no other page is, no assertion fires and no block
  is lost; on any other range the operation reports the error and changes nothing. Taking the
  blocks of an update from the slab heap may fail, in which case nothing changes either.
\<close>

section \<open>Update allocators of a slab heap\<close>

text \<open>Updates take blocks from the allocator and give blocks back, but take none from the slab heap.\<close>

definition slab_kept :: "UpdateAllocator \<Rightarrow> UpdateAllocator \<Rightarrow> bool" where
  "slab_kept al al' \<longleftrightarrow> drm_page_allocator (ua_slab al') = drm_page_allocator (ua_slab al) \<and>
     length (free_nodes (ua_slab al)) \<le> length (free_nodes (ua_slab al'))"

lemma slab_kept_refl [simp]: "slab_kept al al"
  by (simp add: slab_kept_def)

lemma slab_kept_trans [trans]: "slab_kept a b \<Longrightarrow> slab_kept b c \<Longrightarrow> slab_kept a c"
  by (simp add: slab_kept_def)

lemma UpdateAllocator_kept:
  "UpdateAllocator_Allocate al = Some (p, al') \<Longrightarrow> slab_kept al al'"
  "UpdateAllocator_Free q al = Some al' \<Longrightarrow> slab_kept al al'"
  by (auto simp: UpdateAllocator_Allocate_def UpdateAllocator_Free_def bind_eq_Some_conv array_set_eq_Some
      slab_kept_def split: if_splits simp del: KDynamicResourceManager_Free_def)
    (simp_all add: KDynamicResourceManager_Free_def)

lemma split_at_kept: "split_at it a t al = Some (i, t', al') \<Longrightarrow> slab_kept al al'"
  by (auto simp: split_at_def bind_eq_Some_conv UpdateAllocator_kept)

lemma update_step_kept:
  "update_step needs act cur rem it t al = Some (c', r', i', t', al') \<Longrightarrow> slab_kept al al'"
  by (auto simp: update_step_def split_before_def split_after_def bind_eq_Some_conv Let_def
      split: if_splits intro: slab_kept_trans dest!: split_at_kept)

lemma update_loop_kept:
  assumes ret: "update_loop needs act cur rem it t al = Some r"
  shows "slab_kept al (snd r)"
proof (rule update_loop.raw_induct [where P = "\<lambda>needs act cur rem it t al r. slab_kept al (snd r)", OF _ ret], goal_cases)
  case (1 f needs act cur rem it t al r)
  note IH = 1(1)
  from 1(2) show ?case
    by (auto simp: bind_eq_Some_conv split: if_splits dest!: update_step_kept IH intro: slab_kept_trans)
qed

lemma coalesce_loop_kept:
  assumes ret: "coalesce_loop e it t al = Some r"
  shows "slab_kept al (snd r)"
proof (rule coalesce_loop.raw_induct [where P = "\<lambda>e it t al r. slab_kept al (snd r)", OF _ ret], goal_cases)
  case (1 f e it t al r)
  note IH = 1(1)
  from 1(2) show ?case
    by (auto simp: bind_eq_Some_conv split: if_splits dest!: IH UpdateAllocator_kept(2) intro: slab_kept_trans)
qed

lemma update_with_kept:
  assumes "update_with needs act a n m al = Some (m', al')"
  shows "slab_kept al al'"
proof -
  obtain t1 al1 where 1: "update_loop needs act a n (FindIterator m a) (m_memory_block_tree m) al = Some (t1, al1)"
    "CoalesceForUpdate a n (m\<lparr>m_memory_block_tree := t1\<rparr>) al1 = Some (m', al')"
    using assms by (auto simp: update_with_def bind_eq_Some_conv)
  from 1(2) obtain it t2 where "coalesce_loop (a + n * PageSize) it t1 al1 = Some (t2, al')"
    by (auto simp: CoalesceForUpdate_def bind_eq_Some_conv Let_def)
  with update_loop_kept [OF 1(1)] coalesce_loop_kept [OF this] show ?thesis
    by (auto intro: slab_kept_trans)
qed

text \<open>A slab heap that can be refilled does so from a page manager in a good state.\<close>

definition source_ok :: "KDynamicPageManager option \<Rightarrow> bool" where
  "source_ok s \<longleftrightarrow> (case s of None \<Rightarrow> True | Some pm \<Rightarrow> page_manager_ok pm)"

definition slab_ok :: "KDynamicResourceManager \<Rightarrow> bool" where
  "slab_ok sm \<longleftrightarrow> source_ok (drm_page_allocator sm)"

definition taken :: "u64 option \<Rightarrow> u64 multiset" where
  "taken r = (case r of None \<Rightarrow> {#} | Some p \<Rightarrow> {#p#})"

lemma slab_Allocate_total:
  assumes "slab_ok sm"
  obtains r sm' where "KDynamicResourceManager_Allocate obj_size sm = Some (r, sm')" "slab_ok sm'"
    "mset (free_nodes sm) \<subseteq># taken r + mset (free_nodes sm')" "free_nodes sm \<noteq> [] \<longrightarrow> r \<noteq> None"
    "free_nodes sm' = tl (free_nodes sm) \<or> free_nodes sm = []"
proof (cases "free_nodes sm")
  case (Cons p ps)
  obtain sm' where "KDynamicResourceManager_Allocate obj_size sm = Some (Some p, sm')" "free_nodes sm' = ps"
    "drm_page_allocator sm' = drm_page_allocator sm"
    using Allocate_from_list [OF Cons, of obj_size] by blast
  then show ?thesis
    using assms Cons by (intro that [of "Some p" sm']) (simp_all add: slab_ok_def taken_def)
next
  case Nil
  show ?thesis
  proof (cases "drm_page_allocator sm")
    case None
    have "KDynamicResourceManager_Allocate obj_size sm = Some (None, sm)"
      using Nil None by (simp add: KDynamicResourceManager_Allocate_def KDynamicSlabHeap_Allocate_def free_nodes_def
          KSlabHeapImpl_Allocate_def Let_def)
    then show ?thesis
      using assms Nil by (intro that) (simp_all add: taken_def)
  next
    case (Some pm)
    then have pm: "page_manager_ok pm"
      using assms by (simp add: slab_ok_def source_ok_def)
    show ?thesis
    proof (cases "free_pages pm = {}")
      case True
      have "KDynamicResourceManager_Allocate obj_size sm = Some (None, sm)"
        using Nil Some Allocate_none [OF pm True]
        by (simp add: KDynamicResourceManager_Allocate_def KDynamicSlabHeap_Allocate_def free_nodes_def
            KSlabHeapImpl_Allocate_def Let_def)
      then show ?thesis
        using assms Nil by (intro that) (simp_all add: taken_def)
    next
      case False
      then obtain i sm' pm' where "KDynamicResourceManager_Allocate obj_size sm = Some (Some (page_pointer pm i), sm')"
        "drm_page_allocator sm' = Some pm'" "page_manager_ok pm'"
        using Allocate_refill [OF Nil Some pm, of obj_size] by blast
      then show ?thesis
        using Nil by (auto intro!: that simp: slab_ok_def source_ok_def)
    qed
  qed
qed


text \<open>
  The constructor of an update allocator takes its blocks from the slab heap or reports
  \<open>ResultOutOfResource\<close>; it succeeds when the heap has that many free blocks. The destructor gives
  back what the allocator still holds.
\<close>

lemma ua_initialize_loop_ok:
  assumes "slab_ok (ua_slab a)" "length (ua_blocks a) = MaxBlocks" "ua_index a + i + n = MaxBlocks"
    "\<forall>k < MaxBlocks. (ua_blocks a ! k = None) \<longleftrightarrow> k < ua_index a \<or> ua_index a + i \<le> k"
  shows "\<exists>res a'. ua_initialize_loop obj_size n i a = Some (res, a') \<and> slab_ok (ua_slab a') \<and>
    owned a \<subseteq># owned a' \<and> length (free_nodes (ua_slab a)) \<le> length (free_nodes (ua_slab a')) + n \<and>
    (res = ResultSuccess \<and> ua_ok a' \<and> ua_index a' = ua_index a \<or>
     res = ResultOutOfResource \<and> length (free_nodes (ua_slab a)) < n)"
  using assms
proof (induction n arbitrary: i a)
  case 0
  then show ?case
    by (auto simp: ua_ok_def)
next
  case (Suc n)
  obtain r sm where al: "KDynamicResourceManager_Allocate obj_size (ua_slab a) = Some (r, sm)" "slab_ok sm"
    "mset (free_nodes (ua_slab a)) \<subseteq># taken r + mset (free_nodes sm)" "free_nodes (ua_slab a) \<noteq> [] \<longrightarrow> r \<noteq> None"
    "free_nodes sm = tl (free_nodes (ua_slab a)) \<or> free_nodes (ua_slab a) = []"
    using slab_Allocate_total [OF Suc.prems(1), of obj_size] by blast
  let ?k = "ua_index a + i"
  let ?a = "a\<lparr>ua_slab := sm, ua_blocks := (ua_blocks a)[?k := r]\<rparr>"
  have k: "?k < length (ua_blocks a)" "ua_blocks a ! ?k = None"
    using Suc.prems(2,3,4) by auto
  have own: "owned a \<subseteq># owned ?a"
  proof (cases r)
    case None
    then have "(ua_blocks a)[?k := r] = ua_blocks a"
      using k(2) list_update_id [of "ua_blocks a" ?k] by simp
    with None al(3) show ?thesis
      by (simp add: owned_def taken_def)
  next
    case (Some p)
    with al(3) map_filter_update_Some [OF k, of p] show ?thesis
      by (simp add: owned_def taken_def subset_mset.add_left_mono)
  qed
  have step: "ua_initialize_loop obj_size (Suc n) i a =
      (if r = None then Some (ResultOutOfResource, ?a) else ua_initialize_loop obj_size n (Suc i) ?a)"
    using al(1) k(1) by (simp add: Let_def)
  show ?case
  proof (cases r)
    case None
    then show ?thesis
      using al step own by auto
  next
    case (Some p)
    have "\<forall>k < MaxBlocks. (ua_blocks ?a ! k = None) \<longleftrightarrow> k < ua_index ?a \<or> ua_index ?a + Suc i \<le> k"
      using Suc.prems(2-4) Some by (auto simp: nth_list_update)
    with Suc.IH [of ?a "Suc i"] Suc.prems(2,3) al(2) obtain res a' where r:
      "ua_initialize_loop obj_size n (Suc i) ?a = Some (res, a')" "slab_ok (ua_slab a')" "owned ?a \<subseteq># owned a'"
      "length (free_nodes sm) \<le> length (free_nodes (ua_slab a')) + n"
      "res = ResultSuccess \<and> ua_ok a' \<and> ua_index a' = ua_index a \<or>
       res = ResultOutOfResource \<and> length (free_nodes sm) < n"
      by auto
    moreover have "length (free_nodes (ua_slab a)) \<le> Suc (length (free_nodes sm))"
      using al(5) by (cases "free_nodes (ua_slab a)") auto
    ultimately show ?thesis
      using step Some own by (auto intro: subset_mset.order_trans)
  qed
qed

lemma UpdateAllocator_ctor_ok:
  assumes "slab_ok sm" "n \<le> MaxBlocks"
  obtains res al where "UpdateAllocator_ctor obj_size sm n = Some (res, al)" "slab_ok (ua_slab al)"
    "mset (free_nodes sm) \<subseteq># owned al" "length (free_nodes sm) \<le> length (free_nodes (ua_slab al)) + n"
    "res = ResultSuccess \<and> ua_ok al \<and> available al = n \<or> res = ResultOutOfResource \<and> length (free_nodes sm) < n"
proof -
  let ?a = "\<lparr>ua_blocks = replicate MaxBlocks None, ua_index = MaxBlocks - n, ua_slab = sm\<rparr>"
  have "\<forall>k < MaxBlocks. (ua_blocks ?a ! k = None) \<longleftrightarrow> k < ua_index ?a \<or> ua_index ?a + 0 \<le> k"
    by auto
  then obtain res al where "ua_initialize_loop obj_size n 0 ?a = Some (res, al)" "slab_ok (ua_slab al)"
    "owned ?a \<subseteq># owned al" "length (free_nodes sm) \<le> length (free_nodes (ua_slab al)) + n"
    "res = ResultSuccess \<and> ua_ok al \<and> ua_index al = MaxBlocks - n \<or>
     res = ResultOutOfResource \<and> length (free_nodes sm) < n"
    using ua_initialize_loop_ok [of ?a 0 n obj_size] assms by auto
  moreover have "owned ?a = mset (free_nodes sm)"
    by (simp add: owned_def MaxBlocks_def numeral_2_eq_2 List.map_filter_simps)
  ultimately show ?thesis
    using assms(2) by (intro that) (auto simp: UpdateAllocator_ctor_def UpdateAllocator_Initialize_def available_def)
qed

lemma free_held_ok:
  "mset (free_nodes (free_held bs sm)) = mset (List.map_filter id bs) + mset (free_nodes sm)"
  "drm_page_allocator (free_held bs sm) = drm_page_allocator sm"
  "length (free_nodes sm) \<le> length (free_nodes (free_held bs sm))"
proof -
  show "mset (free_nodes (free_held bs sm)) = mset (List.map_filter id bs) + mset (free_nodes sm)"
    by (induction bs sm rule: free_held.induct) (simp_all add: List.map_filter_simps)
  then show "length (free_nodes sm) \<le> length (free_nodes (free_held bs sm))"
    by (metis le_add2 size_mset size_union)
  show "drm_page_allocator (free_held bs sm) = drm_page_allocator sm"
    by (induction bs sm rule: free_held.induct) (simp_all add: KDynamicResourceManager_Free_def)
qed

lemma UpdateAllocator_dtor_ok:
  "mset (free_nodes (UpdateAllocator_dtor al)) = owned al"
  "slab_ok (UpdateAllocator_dtor al) \<longleftrightarrow> slab_ok (ua_slab al)"
  "length (free_nodes (ua_slab al)) \<le> length (free_nodes (UpdateAllocator_dtor al))"
  by (simp_all add: UpdateAllocator_dtor_def free_held_ok owned_def slab_ok_def)


section \<open>Operations with an update allocator\<close>

text \<open>No block is lost: every block of the tree or of the free list is still in one of the two.\<close>

definition blocks_kept :: "KMemoryBlockManager \<Rightarrow> KDynamicResourceManager \<Rightarrow> KMemoryBlockManager \<Rightarrow> KDynamicResourceManager \<Rightarrow> bool" where
  "blocks_kept m sm m' sm' \<longleftrightarrow>
     mset (map this_ptr (m_memory_block_tree m)) + mset (free_nodes sm) \<subseteq>#
     mset (map this_ptr (m_memory_block_tree m')) + mset (free_nodes sm')"

text \<open>
  The page table after an operation: the block manager has the pages of the range changed by
  \<open>eff\<close>, the calls \<open>calls\<close> have been made, blocks may have moved between the tree and the slab heap,
  and nothing else differs.
\<close>

definition table_updated ::
    "(MemProps \<Rightarrow> MemProps) \<Rightarrow> u64 \<Rightarrow> u64 \<Rightarrow> memory_call list \<Rightarrow> KPageTableBase \<Rightarrow> KPageTableBase \<Rightarrow> bool" where
  "table_updated eff addr num_pages calls t t' \<longleftrightarrow>
     (let m = m_memory_block_manager t; m' = m_memory_block_manager t' in
      t' = t\<lparr>m_memory_block_manager := m', m_memory_block_slab_manager := m_memory_block_slab_manager t',
            memory_log := memory_log t @ calls\<rparr> \<and>
      manager_ok m' \<and> m_start_address m' = m_start_address m \<and> m_end_address m' = m_end_address m \<and>
      page_at (m_memory_block_tree m') =
        page_update eff (unat addr) (unat addr + unat num_pages * 4096) (page_at (m_memory_block_tree m)) \<and>
      slab_ok (m_memory_block_slab_manager t') \<and>
      length (free_nodes (m_memory_block_slab_manager t)) \<le> length (free_nodes (m_memory_block_slab_manager t')) + 2 \<and>
      blocks_kept m (m_memory_block_slab_manager t) m' (m_memory_block_slab_manager t'))"

text \<open>The page table after an operation that did not get its blocks.\<close>

definition refill_failed :: "nat \<Rightarrow> KPageTableBase \<Rightarrow> KPageTableBase \<Rightarrow> bool" where
  "refill_failed n t t' \<longleftrightarrow>
     (let sm = m_memory_block_slab_manager t; sm' = m_memory_block_slab_manager t' in
      t' = t\<lparr>m_memory_block_slab_manager := sm'\<rparr> \<and> slab_ok sm' \<and> length (free_nodes sm) < n \<and>
      mset (free_nodes sm) \<subseteq># mset (free_nodes sm'))"

text \<open>
  Once the body of an operation is known to call \<open>calls\<close> and to update the blocks with \<open>f\<close>, the
  operation either succeeds with the blocks updated or runs out of blocks.
\<close>

lemma with_update_allocator_ok:
  assumes slab: "slab_ok (m_memory_block_slab_manager t)" and n: "n \<le> MaxBlocks"
    and body: "\<And>al. body t al = update_blocks f (t\<lparr>memory_log := memory_log t @ calls\<rparr>) al"
    and f: "\<And>al. ua_ok al \<Longrightarrow> available al = n \<Longrightarrow>
      \<exists>m' al'. f (m_memory_block_manager t) al = Some (m', al') \<and> slab_kept al al' \<and>
        updated eff addr num_pages (m_memory_block_manager t) al m' al'"
  shows "\<exists>t'. with_update_allocator obj_size n t body = Some (ResultSuccess, t') \<and>
      table_updated eff addr num_pages calls t t' \<or>
    with_update_allocator obj_size n t body = Some (ResultOutOfResource, t') \<and> refill_failed n t t'"
proof -
  let ?sm = "m_memory_block_slab_manager t"
  obtain res al where c: "UpdateAllocator_ctor obj_size ?sm n = Some (res, al)" "slab_ok (ua_slab al)"
    "mset (free_nodes ?sm) \<subseteq># owned al" "length (free_nodes ?sm) \<le> length (free_nodes (ua_slab al)) + n"
    "res = ResultSuccess \<and> ua_ok al \<and> available al = n \<or> res = ResultOutOfResource \<and> length (free_nodes ?sm) < n"
    using UpdateAllocator_ctor_ok [OF slab n, of obj_size] .
  from c(5) show ?thesis
  proof (elim disjE conjE)
    assume r: "res = ResultOutOfResource" "length (free_nodes ?sm) < n"
    let ?t = "t\<lparr>m_memory_block_slab_manager := UpdateAllocator_dtor al\<rparr>"
    have "with_update_allocator obj_size n t body = Some (ResultOutOfResource, ?t)"
      using c(1) r by (simp add: with_update_allocator_def)
    moreover have "refill_failed n t ?t"
      using c(2,3) r(2) by (simp add: refill_failed_def UpdateAllocator_dtor_ok)
    ultimately show ?thesis by blast
  next
    assume r: "res = ResultSuccess" "ua_ok al" "available al = n"
    obtain m' al' where f': "f (m_memory_block_manager t) al = Some (m', al')" "slab_kept al al'"
      "updated eff addr num_pages (m_memory_block_manager t) al m' al'"
      using f [OF r(2,3)] by blast
    let ?t = "t\<lparr>memory_log := memory_log t @ calls, m_memory_block_manager := m',
      m_memory_block_slab_manager := UpdateAllocator_dtor al'\<rparr>"
    have "with_update_allocator obj_size n t body = Some (ResultSuccess, ?t)"
      using c(1) r f'(1) by (simp add: with_update_allocator_def body update_blocks_def)
    moreover have "table_updated eff addr num_pages calls t ?t"
    proof -
      have u: "mset (map this_ptr (m_memory_block_tree m')) + owned al' =
          mset (map this_ptr (m_memory_block_tree (m_memory_block_manager t))) + owned al"
        using f'(3) by (simp add: updated_def)
      have "blocks_kept (m_memory_block_manager t) ?sm m' (UpdateAllocator_dtor al')"
        unfolding blocks_kept_def UpdateAllocator_dtor_ok u using c(3) by (rule subset_mset.add_left_mono)
      moreover have "slab_ok (UpdateAllocator_dtor al')"
        unfolding UpdateAllocator_dtor_ok using c(2) f'(2) by (simp add: slab_kept_def slab_ok_def)
      moreover have "length (free_nodes ?sm) \<le> length (free_nodes (UpdateAllocator_dtor al')) + 2"
        using c(4) f'(2) UpdateAllocator_dtor_ok(3) [of al'] n by (simp add: slab_kept_def MaxBlocks_def)
      ultimately show ?thesis
        using f'(3) by (simp add: table_updated_def updated_def Let_def)
    qed
    ultimately show ?thesis by blast
  qed
qed


section \<open>Updates of a checked range\<close>

text \<open>
  A page table between operations, and a range of whole pages in it. Only pages that are locked
  for IPC have a saved permission.
\<close>

definition saved_perm_ok :: "MemProps \<Rightarrow> bool" where
  "saved_perm_ok q \<longleftrightarrow> (p_attribute q AND KMemoryAttribute_IpcLocked = 0 \<longrightarrow> p_original_permission q = 0)"

definition table_ready :: "KPageTableBase \<Rightarrow> bool" where
  "table_ready t \<longleftrightarrow>
     manager_ok (m_memory_block_manager t) \<and> slab_ok (m_memory_block_slab_manager t) \<and>
     (\<forall>x q. page_at (m_memory_block_tree (m_memory_block_manager t)) x = Some q \<longrightarrow> saved_perm_ok q) \<and>
     m_start_address (m_memory_block_manager t) = m_address_space_start t \<and>
     m_end_address (m_memory_block_manager t) = m_address_space_end t"

definition whole_pages :: "KPageTableBase \<Rightarrow> u64 \<Rightarrow> u64 \<Rightarrow> bool" where
  "whole_pages t addr sz \<longleftrightarrow>
     unat addr mod 4096 = 0 \<and> unat sz mod 4096 = 0 \<and> range_in (m_memory_block_manager t) addr sz"

lemma table_updated_fields:
  assumes "table_updated eff addr n calls t t'"
  shows "m_address_space_start t' = m_address_space_start t" "m_address_space_end t' = m_address_space_end t"
    "m_impl t' = m_impl t" "m_block_info_manager t' = m_block_info_manager t"
    "user_pool_regions t' = user_pool_regions t" "memory_log t' = memory_log t @ calls"
proof -
  have eq: "t' = t\<lparr>m_memory_block_manager := m_memory_block_manager t',
      m_memory_block_slab_manager := m_memory_block_slab_manager t', memory_log := memory_log t @ calls\<rparr>"
    using assms by (simp only: table_updated_def Let_def)
  show "m_address_space_start t' = m_address_space_start t" "m_address_space_end t' = m_address_space_end t"
    "m_impl t' = m_impl t" "m_block_info_manager t' = m_block_info_manager t"
    "user_pool_regions t' = user_pool_regions t" "memory_log t' = memory_log t @ calls"
    by (subst eq, simp)+
qed

lemma table_updated_ready:
  assumes "table_updated eff addr n calls t t'" "table_ready t" "\<And>q. saved_perm_ok q \<Longrightarrow> saved_perm_ok (eff q)"
  shows "table_ready t'"
proof -
  have "saved_perm_ok q" if "page_at (m_memory_block_tree (m_memory_block_manager t')) x = Some q" for x q
    using that assms unfolding table_updated_def table_ready_def page_update_def Let_def by (auto split: if_splits)
  with assms(1,2) table_updated_fields [OF assms(1)] show ?thesis
    by (simp only: table_ready_def table_updated_def Let_def) blast
qed

lemma refill_failed_ready: "refill_failed n t t' \<Longrightarrow> table_ready t \<Longrightarrow> table_ready t'"
proof -
  assume r: "refill_failed n t t'" "table_ready t"
  have eq: "t' = t\<lparr>m_memory_block_slab_manager := m_memory_block_slab_manager t'\<rparr>"
    using r(1) by (simp only: refill_failed_def Let_def)
  have "m_memory_block_manager t' = m_memory_block_manager t" "m_address_space_start t' = m_address_space_start t"
    "m_address_space_end t' = m_address_space_end t"
    by (subst eq, simp)+
  with r show ?thesis
    by (simp only: table_ready_def refill_failed_def Let_def) blast
qed

lemma saved_perm_set_properties:
  "attr AND AttributeIgnoreMask = 0 \<Longrightarrow> saved_perm_ok q \<Longrightarrow> saved_perm_ok (set_properties state perm attr q)"
  using and_or_eq_zeroD [of attr KMemoryAttribute_IpcLocked KMemoryAttribute_DeviceShared]
  by (auto simp: saved_perm_ok_def set_properties_def AttributeIgnoreMask_def and_or_mask word_bw_assocs)

lemma whole_pages_words:
  assumes "whole_pages t addr sz"
  shows "unat (sz div PageSize) * 4096 = unat sz" "0 < unat (sz div PageSize)" "sz div PageSize * PageSize = sz"
proof -
  have d: "unat (sz div PageSize) = unat sz div 4096"
    by (simp add: unat_div)
  then show m: "unat (sz div PageSize) * 4096 = unat sz"
    using assms by (simp add: whole_pages_def) (metis add.right_neutral div_mult_mod_eq)
  then show "0 < unat (sz div PageSize)"
    using assms by (cases "unat (sz div PageSize)") (auto simp: whole_pages_def range_in_def)
  show "sz div PageSize * PageSize = sz"
    unfolding word_eq_unat_iff using m unat_lt_64 [of sz] by (simp add: unat_mult_no_wrap)
qed

lemma range_all_overlap:
  assumes "manager_ok m" "range_in m addr sz" "range_all (m_memory_block_tree m) (unat addr) (unat addr + unat sz) R"
    and "b \<in> set (m_memory_block_tree m)" "bstart b < unat addr + unat sz" "unat addr < bend b"
  shows "R (props_of b)"
proof -
  obtain pre c post where l: "m_memory_block_tree m = pre @ c # post" "bstart c \<le> unat addr" "unat addr < bend c"
    "chain (unat (m_start_address m)) (pre @ c # post) (unat (m_end_address m))"
    using located [OF assms(1,2)] by metis
  have pre: "chain (unat (m_start_address m)) pre (bstart c)"
    using l(4) by (auto simp: chain_append)
  have "b \<notin> set pre"
    using chain_member [OF pre] assms(6) l(2) by fastforce
  then show ?thesis
    using range_all_blocks [OF l(4,2,3), of "unat addr + unat sz" R] assms l(1) by (auto simp: range_in_def)
qed

text \<open>The permissions of a range are changed by one call to the memory of the process.\<close>

lemma Operate_ChangePermissions_ok:
  assumes "table_ready t" "whole_pages t addr sz"
  shows "Operate_ChangePermissions has_nce addr (sz div PageSize) perm t =
    Some (t\<lparr>memory_log := memory_log t @ [ProtectRegion addr sz (ConvertToMemoryPermission has_nce perm)]\<rparr>)"
proof -
  note w = whole_pages_words [OF assms(2)]
  have r: "unat (m_address_space_start t) \<le> unat addr" "0 < unat sz" "unat addr + unat sz \<le> unat (m_address_space_end t)"
    using assms by (auto simp: table_ready_def whole_pages_def range_in_def)
  have "addr + sz - 1 \<le> m_address_space_end t - 1"
  proof -
    have "unat (addr + sz) = unat addr + unat sz"
      using r(3) unat_lt_64 [of "m_address_space_end t"] by (simp add: unat_plus_no_wrap)
    then show ?thesis
      using r by (simp add: word_le_nat_alt unat_minus_no_wrap)
  qed
  moreover have "sz div PageSize \<le> (m_address_space_end t - m_address_space_start t) div PageSize"
  proof -
    have "unat sz \<le> unat (m_address_space_end t - m_address_space_start t)"
      using r by (simp add: unat_minus_no_wrap)
    then show ?thesis
      by (simp add: word_le_nat_alt unat_div div_le_mono)
  qed
  moreover have "0 < sz div PageSize"
    using w(2) by (simp add: word_less_nat_alt)
  moreover have "IsAligned addr PageSize"
    using assms(2) by (simp add: whole_pages_def IsAligned_PageSize_iff [simplified])
  ultimately show ?thesis
    using r(1) w(3) by (simp add: Operate_ChangePermissions_def ContainsPages_def word_le_nat_alt)
qed


text \<open>\<open>Update\<close> on a range whose first page is to change and whose pages are neither locked for IPC nor have saved permissions.\<close>

definition unlocked_page :: "MemProps \<Rightarrow> bool" where
  "unlocked_page q \<longleftrightarrow> p_original_permission q = 0 \<and> p_attribute q AND KMemoryAttribute_IpcLocked = 0"

lemma set_properties_if:
  assumes "attr AND AttributeIgnoreMask = 0"
  shows "(\<lambda>q. if has_properties q state perm attr then q else set_properties state perm attr q) =
    set_properties state perm attr"
  using assms set_properties_same [of _ state perm attr] by auto

lemma Update_checked_range:
  assumes t: "manager_ok m" "unat addr mod 4096 = 0" "unat num_pages * 4096 = unat sz" "range_in m addr sz"
    and pages: "range_all (m_memory_block_tree m) (unat addr) (unat addr + unat sz) unlocked_page"
    and first: "\<not> has_properties (page_of m addr) state perm attr"
    and attr: "attr AND AttributeIgnoreMask = 0"
    and al: "ua_ok al" "available al = range_needs m addr sz"
  shows "\<exists>m' al'. KMemoryBlockManager_Update addr num_pages state perm attr sd cd m al = Some (m', al') \<and>
    slab_kept al al' \<and> updated (set_properties state perm attr) addr num_pages m al m' al'"
proof -
  let ?needs = "\<lambda>b. \<not> HasProperties b state perm attr"
  let ?act = "\<lambda>b. KMemoryBlock_Update state perm attr (m_address b = addr) sd cd b"
  obtain pre b post where l: "m_memory_block_tree m = pre @ b # post" "bstart b \<le> unat addr" "unat addr < bend b"
    "chain (unat (m_start_address m)) (pre @ b # post) (unat (m_end_address m))" "page_of m addr = props_of b"
    using located [OF t(1,4)] by metis
  have hd: "bend (hd (m_memory_block_tree m)) \<le> unat addr \<or> ?needs (hd (m_memory_block_tree m))"
  proof (cases pre)
    case Nil
    then show ?thesis
      using l(1,5) first by (simp add: HasProperties_props)
  next
    case (Cons c cs)
    then have "bend c \<le> bstart b"
      using l(4) chain_le [of "bend c" cs "bstart b"] by (auto simp: chain_append)
    then show ?thesis
      using l(1,2) Cons by simp
  qed
  have "page_down (unat addr) = unat addr" "page_up (unat addr + unat sz) = unat addr + unat sz"
    using t(2,3) by (simp_all add: page_down_aligned mod_add_eq flip: t(3))
  then have needs: "blocks_needed (m_memory_block_tree m) (unat addr) (unat addr + unat sz) \<le> available al"
    using al(2) by (simp add: range_needs_def)
  have upd: "updatable c" if "c \<in> set (m_memory_block_tree m)" "bstart c < unat addr + unat sz" "unat addr < bend c" for c
    using range_all_overlap [OF t(1,4) pages that] by (simp add: unlocked_page_def updatable_props)
  have cu: "can_update ?needs updatable addr num_pages m al"
    using t al(1) hd needs upd by (auto simp: can_update_def Let_def range_in_def)
  have "KMemoryBlockManager_Update addr num_pages state perm attr sd cd m al = update_with ?needs ?act addr num_pages m al"
    using t(2) attr by (simp add: KMemoryBlockManager_Update_def IsAligned_PageSize_iff [simplified] AttributeIgnoreMask_def
        KMemoryAttribute_None_def)
  then show ?thesis
    using update.update_with_ok [OF cu, of addr sd cd] update_with_kept [of ?needs ?act addr num_pages m al]
    by (auto simp: set_properties_if [OF attr])
qed


section \<open>SetMemoryPermission\<close>

definition reprotect_test :: StateTest where
  "reprotect_test =
     \<lparr>ts_state_mask = KMemoryState_FlagCanReprotect, ts_state = KMemoryState_FlagCanReprotect,
      ts_perm_mask = KMemoryPermission_None, ts_perm = KMemoryPermission_None,
      ts_attr_mask = KMemoryAttribute_All, ts_attr = KMemoryAttribute_None\<rparr>"

lemma uniform_range_mono:
  assumes "uniform_range m addr sz ts ignore_attr" "\<And>q. props_match ts q \<Longrightarrow> R q"
  shows "range_all (m_memory_block_tree m) (unat addr) (unat addr + unat sz) R"
  using assms unfolding uniform_range_def range_all_def by blast

lemma match_all_attr:
  assumes "props_match ts q" "ts_attr_mask ts = KMemoryAttribute_All"
  shows "p_attribute q = ts_attr ts"
proof -
  have "ts_attr_mask ts = - 1"
    using assms(2) by (simp add: KMemoryAttribute_All_def)
  with assms(1) show ?thesis
    by (simp add: props_match_def)
qed

lemma range_all_unlocked:
  assumes "table_ready t" "uniform_range (m_memory_block_manager t) addr sz ts ignore_attr"
    and "\<And>q. props_match ts q \<Longrightarrow> p_attribute q AND KMemoryAttribute_IpcLocked = 0"
  shows "range_all (m_memory_block_tree (m_memory_block_manager t)) (unat addr) (unat addr + unat sz) unlocked_page"
  using assms unfolding uniform_range_def range_all_def table_ready_def unlocked_page_def saved_perm_ok_def by blast

text \<open>An operation that checks a range and then updates the blocks of the range with \<open>Update\<close>.\<close>

lemma checked_update_ok:
  assumes t: "table_ready t" "whole_pages t addr sz"
    and u: "uniform_range (m_memory_block_manager t) addr sz ts ignore_attr"
    and ts: "\<And>q. props_match ts q \<Longrightarrow> p_attribute q AND KMemoryAttribute_IpcLocked = 0"
    and first: "\<not> has_properties (page_of (m_memory_block_manager t) addr) state perm attr"
    and attr: "attr AND AttributeIgnoreMask = 0"
    and n: "n = range_needs (m_memory_block_manager t) addr sz"
    and body: "\<And>al. body t al = update_blocks (KMemoryBlockManager_Update addr (sz div PageSize) state perm attr sd cd)
      (t\<lparr>memory_log := memory_log t @ calls\<rparr>) al"
  obtains t' where "with_update_allocator obj_size n t body = Some (ResultSuccess, t')"
      "table_updated (set_properties state perm attr) addr (sz div PageSize) calls t t'"
  | t' where "with_update_allocator obj_size n t body = Some (ResultOutOfResource, t')" "refill_failed n t t'"
proof -
  have r: "manager_ok (m_memory_block_manager t)" "range_in (m_memory_block_manager t) addr sz"
    "slab_ok (m_memory_block_slab_manager t)" "unat addr mod 4096 = 0" "n \<le> MaxBlocks"
    using t by (simp_all add: table_ready_def whole_pages_def n range_needs_def blocks_needed_def MaxBlocks_def)
  have "\<exists>t'. with_update_allocator obj_size n t body = Some (ResultSuccess, t') \<and>
      table_updated (set_properties state perm attr) addr (sz div PageSize) calls t t' \<or>
    with_update_allocator obj_size n t body = Some (ResultOutOfResource, t') \<and> refill_failed n t t'"
    by (rule with_update_allocator_ok [where calls = calls and t = t and body = body and
          f = "KMemoryBlockManager_Update addr (sz div PageSize) state perm attr sd cd", OF r(3,5) body])
      (rule Update_checked_range [OF r(1,4) whole_pages_words(1) [OF t(2)] r(2)
        range_all_unlocked [OF t(1) u ts] first attr], simp_all add: n)
  then show thesis
    using that by blast
qed

text \<open>
  C38. SetMemoryPermission. On a range of whole pages that can be reprotected, have the same
  state and permission and no attributes, the function gives every page of the range the new permission and
  no other page anything, makes the one call that protects the host memory, keeps the
  invariants of the block manager and loses no block; if the permission is already set it does
  nothing. On any other range it returns \<open>ResultInvalidCurrentMemory\<close> and changes nothing. It may
  return \<open>ResultOutOfResource\<close> when the slab heap has fewer free blocks than the update needs;
  then no page changes.
\<close>

theorem SetMemoryPermission_correct:
  fixes svc_perm :: u32
  assumes "table_ready t" "whole_pages t addr sz"
  defines "m \<equiv> m_memory_block_manager t" and "new_perm \<equiv> ConvertToKMemoryPermission svc_perm"
  shows "\<exists>res t'. SetMemoryPermission has_nce obj_size addr sz svc_perm t = Some (res, t') \<and>
    (if \<not> uniform_range m addr sz reprotect_test DefaultMemoryIgnoreAttr then res = ResultInvalidCurrentMemory \<and> t' = t
     else if p_permission (page_of m addr) = new_perm then res = ResultSuccess \<and> t' = t
     else res = ResultSuccess \<and>
         table_updated (set_properties (p_state (page_of m addr)) new_perm KMemoryAttribute_None) addr (sz div PageSize)
           [ProtectRegion addr sz (ConvertToMemoryPermission has_nce new_perm)] t t' \<or>
       res = ResultOutOfResource \<and> refill_failed (range_needs m addr sz) t t')"
proof -
  have r: "manager_ok m" "range_in m addr sz" "slab_ok (m_memory_block_slab_manager t)"
    using assms(1,2) by (simp_all add: table_ready_def whole_pages_def m_def)
  let ?u = "uniform_range m addr sz reprotect_test DefaultMemoryIgnoreAttr"
  obtain out where ck: "CheckMemoryState m addr sz reprotect_test DefaultMemoryIgnoreAttr = Some (check_result ?u, out)"
    "?u \<longrightarrow> out = out_of m addr sz DefaultMemoryIgnoreAttr"
    using CheckMemoryState_ok [OF r(1,2), of reprotect_test DefaultMemoryIgnoreAttr] by blast
  note S = SetMemoryPermission_def reprotect_test_def [symmetric] m_def [symmetric] new_perm_def [symmetric] Let_def ck(1)
  show ?thesis
  proof (cases "?u \<and> p_permission (page_of m addr) \<noteq> new_perm")
    case False
    then show ?thesis
      using ck(2) by (auto simp: S check_result_def out_of_def)
  next
    case True
    let ?n = "sz div PageSize" and ?calls = "[ProtectRegion addr sz (ConvertToMemoryPermission has_nce new_perm)]"
    let ?f = "KMemoryBlockManager_Update addr ?n (p_state (page_of m addr)) new_perm KMemoryAttribute_None
      DisableMergeAttribute_None DisableMergeAttribute_None"
    let ?body = "\<lambda>t al. do {
        t1 \<leftarrow> Operate_ChangePermissions has_nce addr ?n new_perm t;
        update_blocks ?f t1 al
      }"
    have first: "\<not> has_properties (page_of m addr) (p_state (page_of m addr)) new_perm KMemoryAttribute_None"
      using True by (simp add: has_properties_def)
    have "\<exists>t'. with_update_allocator obj_size (range_needs m addr sz) t ?body = Some (ResultSuccess, t') \<and>
        table_updated (set_properties (p_state (page_of m addr)) new_perm KMemoryAttribute_None) addr ?n ?calls t t' \<or>
      with_update_allocator obj_size (range_needs m addr sz) t ?body = Some (ResultOutOfResource, t') \<and>
        refill_failed (range_needs m addr sz) t t'"
      by (rule checked_update_ok [OF assms(1,2) True [THEN conjunct1, unfolded m_def] _ first [unfolded m_def],
            where body = ?body and calls = ?calls and obj_size = obj_size and sd = DisableMergeAttribute_None
              and cd = DisableMergeAttribute_None])
        (auto simp: m_def reprotect_test_def flag_simps Operate_ChangePermissions_ok [OF assms(1,2), simplified]
          dest!: match_all_attr)
    then show ?thesis
      using True ck(2) by (auto simp: S check_result_def out_of_def)
  qed
qed


text \<open>A page table with one block of normal memory, part of it mapped.\<close>

definition sample_ready_table :: KPageTableBase where
  "sample_ready_table = sample_mapped_table
     \<lparr>m_address_space_start := 0x1000, m_address_space_end := 0x9000,
      m_memory_block_manager :=
        \<lparr>m_memory_block_tree =
           [KMemoryBlock_ctor 0x600 0x1000 8 KMemoryState_Normal KMemoryPermission_UserReadWrite KMemoryAttribute_None],
         m_start_address = 0x1000, m_end_address = 0x9000\<rparr>,
      m_memory_block_slab_manager :=
        sample_slab\<lparr>drm_slab_heap := (drm_slab_heap sample_slab)\<lparr>dsh_head := [0x200, 0x300, 0x400, 0x500]\<rparr>\<rparr>,
      m_block_info_manager := sample_full_slab\<rparr>"

definition normal_page :: MemProps where
  "normal_page = \<lparr>p_state = KMemoryState_Normal, p_permission = KMemoryPermission_UserReadWrite,
     p_original_permission = 0, p_attribute = 0, p_ipc_lock_count = 0, p_device_use_count = 0\<rparr>"

lemma sample_ready_pages:
  "page_at (m_memory_block_tree (m_memory_block_manager sample_ready_table)) x =
     (if 0x1000 \<le> x \<and> x < 0x9000 then Some normal_page else None)"
  by (simp add: sample_ready_table_def bstart_def bend_def bpages_def KMemoryBlock_ctor_def props_of_def normal_page_def
      KMemoryAttribute_None_def KMemoryPermission_None_def)

lemma sample_ready_table_ok:
  "table_ready sample_ready_table" "whole_pages sample_ready_table 0x2000 0x2000"
  "page_of (m_memory_block_manager sample_ready_table) 0x2000 = normal_page"
  "range_needs (m_memory_block_manager sample_ready_table) 0x2000 0x2000 \<le> 2"
  "length (free_nodes (m_memory_block_slab_manager sample_ready_table)) = 4"
proof -
  have m: "manager_ok (m_memory_block_manager sample_ready_table)"
    by (simp add: sample_ready_table_def sample_defs)
  have "saved_perm_ok normal_page"
    by (simp add: saved_perm_ok_def normal_page_def)
  then have "\<forall>x q. page_at (m_memory_block_tree (m_memory_block_manager sample_ready_table)) x = Some q \<longrightarrow> saved_perm_ok q"
    by (simp add: sample_ready_pages)
  with m show "table_ready sample_ready_table"
    unfolding table_ready_def by (simp add: slab_ok_def source_ok_def sample_ready_table_def sample_slab_def)
  show "whole_pages sample_ready_table 0x2000 0x2000"
    by (simp add: whole_pages_def range_in_def sample_ready_table_def)
  show "page_of (m_memory_block_manager sample_ready_table) 0x2000 = normal_page"
    by (simp add: page_of_def sample_ready_pages)
  show "range_needs (m_memory_block_manager sample_ready_table) 0x2000 0x2000 \<le> 2"
    by (simp add: range_needs_def blocks_needed_def)
  show "length (free_nodes (m_memory_block_slab_manager sample_ready_table)) = 4"
    by (simp add: free_nodes_def sample_ready_table_def sample_slab_def)
qed

lemma sample_uniform:
  assumes "props_match ts normal_page"
  shows "uniform_range (m_memory_block_manager sample_ready_table) 0x2000 0x2000 ts ignore_attr"
  using assms by (auto simp: uniform_range_def range_all_def sample_ready_pages sample_ready_table_ok(3) same_kind_def)

theorem SetMemoryPermission_correct_witness:
  "\<exists>t'. SetMemoryPermission False 64 0x2000 0x2000 1 sample_ready_table = Some (ResultSuccess, t') \<and>
    (let pages = page_at (m_memory_block_tree (m_memory_block_manager t'))
     in map_option p_permission (pages 0x3FFF) = Some KMemoryPermission_UserRead \<and>
       map_option p_permission (pages 0x4000) = Some KMemoryPermission_UserReadWrite)"
proof -
  let ?m = "m_memory_block_manager sample_ready_table"
  have u: "uniform_range ?m 0x2000 0x2000 reprotect_test DefaultMemoryIgnoreAttr"
    by (rule sample_uniform) (simp add: props_match_def reprotect_test_def normal_page_def flag_simps)
  have p: "ConvertToKMemoryPermission 1 \<noteq> p_permission (page_of ?m 0x2000)"
    by (simp add: sample_ready_table_ok(3) normal_page_def ConvertToKMemoryPermission_def flag_simps)
  obtain t' where t': "SetMemoryPermission False 64 0x2000 0x2000 1 sample_ready_table = Some (ResultSuccess, t')"
    "table_updated (set_properties (p_state (page_of ?m 0x2000)) (ConvertToKMemoryPermission 1) KMemoryAttribute_None)
       0x2000 (0x2000 div PageSize) [ProtectRegion 0x2000 0x2000 (ConvertToMemoryPermission False (ConvertToKMemoryPermission 1))]
       sample_ready_table t'"
    using SetMemoryPermission_correct [OF sample_ready_table_ok(1,2), of False 64 1] u p sample_ready_table_ok(4,5)
    by (auto simp: refill_failed_def Let_def)
  then have "page_at (m_memory_block_tree (m_memory_block_manager t')) = page_update
      (set_properties (p_state (page_of ?m 0x2000)) (ConvertToKMemoryPermission 1) KMemoryAttribute_None)
      0x2000 0x4000 (page_at (m_memory_block_tree ?m))"
    by (simp add: table_updated_def Let_def)
  with t'(1) show ?thesis
    by (auto simp: page_update_def sample_ready_pages set_properties_def ConvertToKMemoryPermission_def normal_page_def flag_simps)
qed

end
