(* ===== verification/KPageTableLocks.thy ===== *)
theory KPageTableLocks
  imports KPageTableUpdates
begin

text \<open>
  Locks on the memory of a process: transfer memory, code memory and IPC buffers mark their pages
  as locked and take away permissions; unlocking with the page group that was made at the
  time of the lock restores every page. While pages are locked no other lock of them is given.
\<close>

section \<open>The state of locked pages\<close>

text \<open>A range that is mapped to the heap pages \<open>ps\<close>.\<close>

definition mapped_to :: "KPageTableBase \<Rightarrow> u64 \<Rightarrow> u64 \<Rightarrow> nat list \<Rightarrow> bool" where
  "mapped_to t addr sz ps \<longleftrightarrow>
     table_ok (m_impl t) \<and> unat addr + unat sz \<le> 2 ^ 63 \<and>
     phys_range (m_impl t) (unat addr div 4096) (unat sz div 4096) = map Some ps \<and> (\<forall>q\<in>set ps. heap_page t q)"

text \<open>The tests of the lock and of the unlock operation, with the flag they add.\<close>

definition lockable_memory :: "u32 \<Rightarrow> StateTest" where
  "lockable_memory flag =
     (lockable_test flag)\<lparr>ts_state_mask := flag OR KMemoryState_FlagReferenceCounted,
                          ts_state := flag OR KMemoryState_FlagReferenceCounted\<rparr>"

definition locked_memory :: "u32 \<Rightarrow> StateTest" where
  "locked_memory flag =
     (locked_test flag)\<lparr>ts_state_mask := flag OR KMemoryState_FlagReferenceCounted,
                        ts_state := flag OR KMemoryState_FlagReferenceCounted\<rparr>"

definition lock_page :: "u8 \<Rightarrow> MemProps \<Rightarrow> MemProps" where
  "lock_page perm q = q\<lparr>p_permission := (if perm = 0 then p_permission q else perm), p_attribute := KMemoryAttribute_Locked\<rparr>"

definition unlock_page :: "MemProps \<Rightarrow> MemProps" where
  "unlock_page q = q\<lparr>p_permission := KMemoryPermission_UserReadWrite, p_attribute := 0\<rparr>"

lemma and_All: "x AND KMemoryPermission_All = x" "x AND KMemoryAttribute_All = x"
proof -
  have m: "KMemoryPermission_All = - 1" "KMemoryAttribute_All = - 1"
    by (simp_all add: KMemoryPermission_All_def KMemoryPermission_None_def KMemoryAttribute_All_def)
  show "x AND KMemoryPermission_All = x" "x AND KMemoryAttribute_All = x"
    unfolding m by simp_all
qed

lemma lockable_memory_eq:
  "(lockable_test flag)\<lparr>ts_state_mask := ts_state_mask (lockable_test flag) OR KMemoryState_FlagReferenceCounted,
     ts_state := ts_state (lockable_test flag) OR KMemoryState_FlagReferenceCounted\<rparr> = lockable_memory flag"
  "(locked_test flag)\<lparr>ts_state_mask := ts_state_mask (locked_test flag) OR KMemoryState_FlagReferenceCounted,
     ts_state := ts_state (locked_test flag) OR KMemoryState_FlagReferenceCounted\<rparr> = locked_memory flag"
  by (simp_all add: lockable_memory_def locked_memory_def lockable_test_def locked_test_def)

lemma lockable_memory_match:
  "props_match (lockable_memory flag) q \<longleftrightarrow>
     p_state q AND (flag OR KMemoryState_FlagReferenceCounted) = flag OR KMemoryState_FlagReferenceCounted \<and>
     p_permission q = KMemoryPermission_UserReadWrite \<and> p_attribute q = 0"
  by (simp add: props_match_def lockable_memory_def lockable_test_def and_All KMemoryAttribute_None_def)

lemma locked_memory_match:
  "props_match (locked_memory flag) q \<longleftrightarrow>
     p_state q AND (flag OR KMemoryState_FlagReferenceCounted) = flag OR KMemoryState_FlagReferenceCounted \<and>
     p_attribute q = KMemoryAttribute_Locked"
  by (simp add: props_match_def locked_memory_def locked_test_def and_All KMemoryPermission_None_def)

lemma uniform_lock_pages:
  assumes "uniform_range m addr sz (lockable_memory flag) ignore_attr" "0 < unat sz"
    and "unat addr \<le> x" "x < unat addr + unat sz"
  obtains q where "page_at (m_memory_block_tree m) x = Some q" "props_match (lockable_memory flag) q"
    "p_state q = p_state (page_of m addr)" "props_match (lockable_memory flag) (page_of m addr)"
proof -
  have r: "\<exists>q. page_at (m_memory_block_tree m) y = Some q \<and> props_match (lockable_memory flag) q \<and>
      same_kind ignore_attr (page_of m addr) q" if "unat addr \<le> y" "y < unat addr + unat sz" for y
    using assms(1) that unfolding uniform_range_def range_all_def by blast
  have "props_match (lockable_memory flag) (page_of m addr)"
    using r [of "unat addr"] assms(2) by (auto simp: page_of_def)
  with r [OF assms(3,4)] show ?thesis
    using that by (auto simp: same_kind_def)
qed


section \<open>Locking\<close>

lemma ready_bim [simp]:
  "table_ready (t\<lparr>m_block_info_manager := bim\<rparr>) = table_ready t"
  "whole_pages (t\<lparr>m_block_info_manager := bim\<rparr>) addr sz = whole_pages t addr sz"
  by (simp_all add: table_ready_def whole_pages_def)

lemma Contains_whole_pages:
  assumes "table_ready t" "whole_pages t addr sz"
  shows "Contains t addr sz"
proof -
  have r: "unat (m_address_space_start t) \<le> unat addr" "0 < unat sz" "unat addr + unat sz \<le> unat (m_address_space_end t)"
    using assms by (auto simp: table_ready_def whole_pages_def range_in_def)
  then have "unat (addr + sz) = unat addr + unat sz"
    using unat_lt_64 [of "m_address_space_end t"] by (simp add: unat_plus_no_wrap)
  then show ?thesis
    using r by (simp add: Contains_def word_le_nat_alt word_less_nat_alt unat_minus_no_wrap)
qed

lemma log_nothing: "t\<lparr>memory_log := memory_log t\<rparr> = t"
  by (cases t) simp

lemma update_blocks_then_log:
  "do {
     (r, t', al') \<leftarrow> update_blocks f (t\<lparr>memory_log := memory_log t @ xs\<rparr>) al;
     Some (r, t'\<lparr>memory_log := memory_log t' @ ys\<rparr>, al')
   } = update_blocks f (t\<lparr>memory_log := memory_log t @ xs @ ys\<rparr>) al"
  by (cases "f (m_memory_block_manager t) al") (simp_all add: update_blocks_def split_beta)

definition protect_calls :: "bool \<Rightarrow> u64 \<Rightarrow> u64 \<Rightarrow> u8 \<Rightarrow> u8 \<Rightarrow> memory_call list" where
  "protect_calls has_nce addr sz old_perm new_perm =
     (if new_perm \<noteq> old_perm then [ProtectRegion addr sz (ConvertToMemoryPermission has_nce new_perm)] else [])"

lemma protect_if_needed:
  assumes "table_ready t" "whole_pages t addr sz"
  shows "(if new_perm \<noteq> old_perm then Operate_ChangePermissions has_nce addr (sz div PageSize) new_perm t else Some t) =
    Some (t\<lparr>memory_log := memory_log t @ protect_calls has_nce addr sz old_perm new_perm\<rparr>)"
  using Operate_ChangePermissions_ok [OF assms] by (simp add: protect_calls_def log_nothing)

definition new_lock_perm :: "u8 \<Rightarrow> u8 \<Rightarrow> u8" where
  "new_lock_perm new_perm old_perm = (if new_perm \<noteq> KMemoryPermission_None then new_perm else old_perm)"

lemma lock_pages_words:
  assumes "whole_pages t addr sz"
  shows "page_word (unat addr div 4096) = addr" "of_nat (unat sz div 4096) = sz div PageSize" "0 < unat sz div 4096"
    "unat addr + unat sz \<le> 2 ^ 63 \<Longrightarrow> unat addr div 4096 + unat sz div 4096 \<le> 2 ^ 51"
proof -
  have m: "unat addr mod 4096 = 0" "unat sz mod 4096 = 0" "0 < unat sz"
    using assms by (simp_all add: whole_pages_def range_in_def)
  have d: "unat addr div 4096 * 4096 = unat addr" "unat sz div 4096 * 4096 = unat sz"
    using m by (metis add.right_neutral div_mult_mod_eq)+
  show "page_word (unat addr div 4096) = addr"
    unfolding page_word_def d(1) by simp
  have "of_nat (unat sz div 4096) = (of_nat (unat (sz div PageSize)) :: u64)"
    by (simp add: unat_div)
  then show "of_nat (unat sz div 4096) = sz div PageSize"
    by simp
  show "0 < unat sz div 4096"
    using d(2) m(3) by (cases "unat sz div 4096") auto
  show "unat addr div 4096 + unat sz div 4096 \<le> 2 ^ 51" if "unat addr + unat sz \<le> 2 ^ 63"
  proof -
    have "(unat addr div 4096 + unat sz div 4096) * 4096 \<le> 2 ^ 51 * 4096"
      using that unfolding add_mult_distrib d by simp
    then show ?thesis
      by simp
  qed
qed

lemma lock_group_ok:
  fixes perm :: u8
  assumes t: "table_ready t" "whole_pages t addr sz"
    and u: "uniform_range (m_memory_block_manager t) addr sz (lockable_memory flag) DefaultMemoryIgnoreAttr"
    and ps: "mapped_to t addr sz ps"
    and nodes: "2 \<le> length (free_nodes (m_memory_block_slab_manager t))"
      "unat sz div 4096 \<le> length (free_nodes (m_block_info_manager t))"
  defines "q0 \<equiv> page_of (m_memory_block_manager t) addr"
    and "perm' \<equiv> new_lock_perm perm KMemoryPermission_UserReadWrite"
  obtains pg bim t' where
    "LockMemoryAndOpen has_nce obj_size info_size True False addr sz (lockable_test flag) perm KMemoryAttribute_Locked t =
      Some (ResultSuccess, \<lparr>lo_paddr = None, lo_pg = pg\<rparr>, t')"
    "group_pages pg = ps"
    "\<forall>t'. m_impl t' = m_impl t \<longrightarrow> user_pool_regions t' = user_pool_regions t \<longrightarrow>
      IsValidPageGroup t' pg addr (sz div PageSize) = Some True"
    "table_updated (set_properties (p_state q0) perm' KMemoryAttribute_Locked) addr (sz div PageSize)
      (protect_calls has_nce addr sz KMemoryPermission_UserReadWrite perm' @ KPageGroup_Open pg)
      (t\<lparr>m_block_info_manager := bim\<rparr>) t'"
proof -
  let ?m = "m_memory_block_manager t" and ?n = "sz div PageSize"
  have r: "manager_ok ?m" "range_in ?m addr sz"
    using t by (simp_all add: table_ready_def whole_pages_def)
  have q0: "props_match (lockable_memory flag) q0"
    using uniform_lock_pages [OF u, of "unat addr"] r(2) by (auto simp: q0_def range_in_def)
  then have q0': "p_permission q0 = KMemoryPermission_UserReadWrite" "p_attribute q0 = 0"
    by (simp_all add: lockable_memory_match)
  obtain out where ck: "CheckMemoryState ?m addr sz (lockable_memory flag) DefaultMemoryIgnoreAttr = Some (ResultSuccess, out)"
    "out = out_of ?m addr sz DefaultMemoryIgnoreAttr"
    using CheckMemoryState_ok [OF r, of "lockable_memory flag" DefaultMemoryIgnoreAttr] u by (auto simp: check_result_def)
  note w = lock_pages_words [OF t(2)]
  have mp: "table_ok (m_impl t)" "unat addr + unat sz \<le> 2 ^ 63" "\<forall>q\<in>set ps. heap_page t q"
    "phys_range (m_impl t) (unat addr div 4096) (unat sz div 4096) = map Some ps"
    using ps by (simp_all add: mapped_to_def)
  obtain pg bim where g: "MakePageGroup info_size t [] addr ?n (m_block_info_manager t) = Some (ResultSuccess, pg, bim)"
    "group_pages pg = ps"
    "\<forall>t' w. m_impl t' = m_impl t \<longrightarrow> user_pool_regions t' = user_pool_regions t \<longrightarrow> w + unat sz div 4096 \<le> 2 ^ 51 \<longrightarrow>
      IsValidPageGroup t' pg (page_word w) ?n = Some (phys_range (m_impl t) w (unat sz div 4096) = map Some ps)"
    by (rule made_group_valid [OF mp(1) w(3) w(4) [OF mp(2)] mp(4,3) nodes(2), of info_size, unfolded w(1,2)])
  have valid: "IsValidPageGroup t' pg addr ?n = Some True"
    if "m_impl t' = m_impl t" "user_pool_regions t' = user_pool_regions t" for t'
    using g(3) [rule_format, OF that w(4) [OF mp(2)]] mp(4) unfolding w(1) by simp
  let ?t = "t\<lparr>m_block_info_manager := bim\<rparr>"
  let ?f = "KMemoryBlockManager_Update addr ?n (p_state q0) perm' KMemoryAttribute_Locked
    DisableMergeAttribute_Locked DisableMergeAttribute_None"
  let ?calls = "protect_calls has_nce addr sz KMemoryPermission_UserReadWrite perm' @ KPageGroup_Open pg"
  let ?body = "\<lambda>t al. do {
      t3 \<leftarrow> (if perm' \<noteq> KMemoryPermission_UserReadWrite then Operate_ChangePermissions has_nce addr ?n perm' t else Some t);
      (res3, t4, al') \<leftarrow> update_blocks ?f t3 al;
      Some (res3, t4\<lparr>memory_log := memory_log t4 @ KPageGroup_Open pg\<rparr>, al')
    }"
  have "\<exists>t'. with_update_allocator obj_size (range_needs ?m addr sz) ?t ?body = Some (ResultSuccess, t') \<and>
    table_updated (set_properties (p_state q0) perm' KMemoryAttribute_Locked) addr ?n ?calls ?t t'"
  proof (rule checked_update_ok [of ?t addr sz "lockable_memory flag" DefaultMemoryIgnoreAttr "p_state q0" perm'
        KMemoryAttribute_Locked "range_needs ?m addr sz" ?body _ _ ?calls obj_size])
    show "?body ?t al = update_blocks ?f (?t\<lparr>memory_log := memory_log ?t @ ?calls\<rparr>) al" for al
      using protect_if_needed [of ?t addr sz perm' KMemoryPermission_UserReadWrite has_nce] t
        update_blocks_then_log [of ?f ?t _ al] by simp
    show "\<not> has_properties (page_of (m_memory_block_manager ?t) addr) (p_state q0) perm' KMemoryAttribute_Locked"
      using q0' by (simp add: has_properties_def q0_def [symmetric] flag_simps)
    show "p_attribute q AND KMemoryAttribute_IpcLocked = 0" if "props_match (lockable_memory flag) q" for q
      using that by (simp add: lockable_memory_match)
    show "KMemoryAttribute_Locked AND AttributeIgnoreMask = 0"
      by (simp add: flag_simps)
  qed (use t u nodes in \<open>auto simp: refill_failed_def Let_def range_needs_def blocks_needed_def split: if_splits\<close>)
  then obtain t' where t': "with_update_allocator obj_size (range_needs ?m addr sz) ?t ?body = Some (ResultSuccess, t')"
    "table_updated (set_properties (p_state q0) perm' KMemoryAttribute_Locked) addr ?n ?calls ?t t'"
    by blast
  have "LockMemoryAndOpen has_nce obj_size info_size True False addr sz (lockable_test flag) perm KMemoryAttribute_Locked t =
      Some (ResultSuccess, \<lparr>lo_paddr = None, lo_pg = pg\<rparr>, t')"
  proof -
    have "ts_attr (lockable_test flag) = KMemoryAttribute_None"
      by (simp add: lockable_test_def)
    then have asserts: "KMemoryAttribute_Locked AND ts_attr (lockable_test flag) = 0"
      "KMemoryAttribute_Locked AND (KMemoryAttribute_IpcLocked OR KMemoryAttribute_DeviceShared) = 0"
      by (simp_all add: flag_simps)
    have out: "out_perm out = KMemoryPermission_UserReadWrite" "out_attr out OR KMemoryAttribute_Locked = KMemoryAttribute_Locked"
      "out_state out = p_state q0" "out_blocks_needed out = range_needs ?m addr sz"
      using q0' by (simp_all add: ck(2) out_of_def q0_def)
    show ?thesis
      unfolding LockMemoryAndOpen_def lockable_memory_eq
      using Contains_whole_pages [OF t] t'(1)
      by (simp only: asserts ASSERT_simps Let_def ck(1) out g(1) lock_paddr_def perm'_def [unfolded new_lock_perm_def, symmetric]
          if_True if_False prod.case simp_thms bind.bind_lunit)
  qed
  then show thesis
    using valid by (intro that [OF _ g(2) _ t'(2)]) auto
qed


lemma unlock_ok:
  assumes t: "table_ready t" "whole_pages t addr sz"
    and u: "uniform_range (m_memory_block_manager t) addr sz (locked_memory flag) DefaultMemoryIgnoreAttr"
    and pg: "(case pg of None \<Rightarrow> Some True | Some g \<Rightarrow> IsValidPageGroup t g addr (sz div PageSize)) = Some True"
    and nodes: "2 \<le> length (free_nodes (m_memory_block_slab_manager t))"
  defines "q0 \<equiv> page_of (m_memory_block_manager t) addr"
  obtains t' where
    "UnlockMemory has_nce obj_size addr sz (locked_test flag) KMemoryPermission_UserReadWrite KMemoryAttribute_Locked pg t =
      Some (ResultSuccess, t')"
    "table_updated (set_properties (p_state q0) KMemoryPermission_UserReadWrite 0) addr (sz div PageSize)
      (protect_calls has_nce addr sz (p_permission q0) KMemoryPermission_UserReadWrite) t t'"
proof -
  let ?m = "m_memory_block_manager t" and ?n = "sz div PageSize"
  have r: "manager_ok ?m" "range_in ?m addr sz"
    using t by (simp_all add: table_ready_def whole_pages_def)
  have "range_all (m_memory_block_tree ?m) (unat addr) (unat addr + unat sz) (props_match (locked_memory flag))"
    using u by (rule uniform_range_mono)
  then have "props_match (locked_memory flag) q0"
    using r(2) unfolding range_all_def q0_def page_of_def range_in_def by (metis le_refl less_add_same_cancel1 option.sel)
  then have q0: "p_attribute q0 = KMemoryAttribute_Locked"
    by (simp add: locked_memory_match)
  obtain out where ck: "CheckMemoryState ?m addr sz (locked_memory flag) DefaultMemoryIgnoreAttr = Some (ResultSuccess, out)"
    "out = out_of ?m addr sz DefaultMemoryIgnoreAttr"
    using CheckMemoryState_ok [OF r, of "locked_memory flag" DefaultMemoryIgnoreAttr] u by (auto simp: check_result_def)
  have out: "out_perm out = p_permission q0" "out_attr out AND NOT KMemoryAttribute_Locked = 0"
    "out_state out = p_state q0" "out_blocks_needed out = range_needs ?m addr sz"
    using q0 by (simp_all add: ck(2) out_of_def q0_def [symmetric] flag_simps)
  let ?f = "KMemoryBlockManager_Update addr ?n (p_state q0) KMemoryPermission_UserReadWrite 0
    DisableMergeAttribute_None DisableMergeAttribute_Locked"
  let ?calls = "protect_calls has_nce addr sz (p_permission q0) KMemoryPermission_UserReadWrite"
  let ?body = "\<lambda>t al. do {
      t1 \<leftarrow> (if KMemoryPermission_UserReadWrite \<noteq> p_permission q0
             then Operate_ChangePermissions has_nce addr ?n KMemoryPermission_UserReadWrite t else Some t);
      update_blocks ?f t1 al
    }"
  have "\<exists>t'. with_update_allocator obj_size (range_needs ?m addr sz) t ?body = Some (ResultSuccess, t') \<and>
    table_updated (set_properties (p_state q0) KMemoryPermission_UserReadWrite 0) addr ?n ?calls t t'"
  proof (rule checked_update_ok [of t addr sz "locked_memory flag" DefaultMemoryIgnoreAttr "p_state q0"
        KMemoryPermission_UserReadWrite 0 "range_needs ?m addr sz" ?body _ _ ?calls obj_size])
    show "?body t al = update_blocks ?f (t\<lparr>memory_log := memory_log t @ ?calls\<rparr>) al" for al
      using protect_if_needed [of t addr sz KMemoryPermission_UserReadWrite "p_permission q0" has_nce] t by simp
    show "\<not> has_properties (page_of ?m addr) (p_state q0) KMemoryPermission_UserReadWrite 0"
      using q0 by (simp add: has_properties_def q0_def [symmetric] flag_simps)
    show "p_attribute q AND KMemoryAttribute_IpcLocked = 0" if "props_match (locked_memory flag) q" for q
      using that by (simp add: locked_memory_match flag_simps)
  qed (use t u nodes in \<open>auto simp: refill_failed_def Let_def range_needs_def blocks_needed_def split: if_splits\<close>)
  then obtain t' where t': "with_update_allocator obj_size (range_needs ?m addr sz) t ?body = Some (ResultSuccess, t')"
    "table_updated (set_properties (p_state q0) KMemoryPermission_UserReadWrite 0) addr ?n ?calls t t'"
    by blast
  have perm: "KMemoryPermission_UserReadWrite \<noteq> KMemoryPermission_None"
    by (simp add: flag_simps)
  have asserts: "ts_attr_mask (locked_test flag) AND KMemoryAttribute_Locked = KMemoryAttribute_Locked"
    "ts_attr (locked_test flag) AND KMemoryAttribute_Locked = KMemoryAttribute_Locked"
    by (simp_all add: locked_test_def flag_simps)
  have "UnlockMemory has_nce obj_size addr sz (locked_test flag) KMemoryPermission_UserReadWrite KMemoryAttribute_Locked pg t =
      Some (ResultSuccess, t')"
    unfolding UnlockMemory_def lockable_memory_eq
    using Contains_whole_pages [OF t] t'(1) pg
    by (simp only: asserts ASSERT_simps Let_def ck(1) out perm if_True if_False prod.case simp_thms bind.bind_lunit)
  then show thesis
    by (rule that [OF _ t'(2)])
qed

section \<open>Round trips and exclusion\<close>

lemma lock_unlock_page:
  assumes "props_match (lockable_memory flag) q" "p_state q = s"
  shows "set_properties s p KMemoryAttribute_Locked q = q\<lparr>p_permission := p, p_attribute := KMemoryAttribute_Locked\<rparr>"
    "set_properties s KMemoryPermission_UserReadWrite 0 (set_properties s p KMemoryAttribute_Locked q) = q"
  using assms by (simp_all add: set_properties_def lockable_memory_match flag_simps)

text \<open>The pages after a lock, as seen by the checks.\<close>

lemma locked_uniform:
  assumes u: "uniform_range m addr sz (lockable_memory flag) DefaultMemoryIgnoreAttr" "0 < unat sz"
    and m': "page_at (m_memory_block_tree m') = page_update (set_properties (p_state (page_of m addr)) p KMemoryAttribute_Locked)
      (unat addr) (unat addr + unat sz) (page_at (m_memory_block_tree m))"
  shows "uniform_range m' addr sz (locked_memory flag) DefaultMemoryIgnoreAttr"
    "page_of m' addr = (page_of m addr)\<lparr>p_permission := p, p_attribute := KMemoryAttribute_Locked\<rparr>"
proof -
  have x: "\<exists>q. page_at (m_memory_block_tree m) x = Some q \<and> props_match (lockable_memory flag) q \<and>
      page_at (m_memory_block_tree m') x = Some (q\<lparr>p_permission := p, p_attribute := KMemoryAttribute_Locked\<rparr>) \<and>
      p_state q = p_state (page_of m addr)" if rng: "unat addr \<le> x" "x < unat addr + unat sz" for x
  proof -
    obtain q where q: "page_at (m_memory_block_tree m) x = Some q" "props_match (lockable_memory flag) q"
      "p_state q = p_state (page_of m addr)"
      using uniform_lock_pages [OF u rng] by blast
    then show ?thesis
      using rng lock_unlock_page(1) [OF q(2,3), of p] by (simp add: m' page_update_def)
  qed
  show p: "page_of m' addr = (page_of m addr)\<lparr>p_permission := p, p_attribute := KMemoryAttribute_Locked\<rparr>"
    using x [of "unat addr"] u(2) by (auto simp: page_of_def)
  show "uniform_range m' addr sz (locked_memory flag) DefaultMemoryIgnoreAttr"
    unfolding uniform_range_def range_all_def p
  proof (intro allI impI)
    fix y assume y: "unat addr \<le> y" "y < unat addr + unat sz"
    from x [OF y] show "\<exists>q. page_at (m_memory_block_tree m') y = Some q \<and> props_match (locked_memory flag) q \<and>
        same_kind DefaultMemoryIgnoreAttr ((page_of m addr)\<lparr>p_permission := p, p_attribute := KMemoryAttribute_Locked\<rparr>) q"
      by (auto simp: lockable_memory_match locked_memory_match same_kind_def)
  qed
qed

text \<open>Changing the pages of a range and changing them back.\<close>

lemma page_update_back:
  assumes "\<And>x q. a \<le> x \<Longrightarrow> x < e \<Longrightarrow> pg x = Some q \<Longrightarrow> g (f q) = q"
  shows "page_update g a e (page_update f a e pg) = pg"
proof
  show "page_update g a e (page_update f a e pg) x = pg x" for x
    using assms by (cases "pg x") (auto simp: page_update_def)
qed


text \<open>
  C39. Transfer memory. Locking a mapped range of normal memory as transfer memory succeeds with
  the page group of exactly the physical pages of the range; every page of the range is then
  locked and has the requested permission. Unlocking with this group succeeds and gives every page of
  the process the properties it had before the lock.
\<close>

theorem TransferMemory_roundtrip:
  assumes t: "table_ready t" "whole_pages t addr sz"
    and u: "uniform_range (m_memory_block_manager t) addr sz (lockable_memory KMemoryState_FlagCanTransfer) DefaultMemoryIgnoreAttr"
    and ps: "mapped_to t addr sz ps"
    and nodes: "4 \<le> length (free_nodes (m_memory_block_slab_manager t))"
      "unat sz div 4096 \<le> length (free_nodes (m_block_info_manager t))"
  shows "\<exists>pg t1 t2.
    LockForTransferMemory has_nce obj_size info_size addr sz perm t =
      Some (ResultSuccess, \<lparr>lo_paddr = None, lo_pg = pg\<rparr>, t1) \<and> group_pages pg = ps \<and>
    range_all (m_memory_block_tree (m_memory_block_manager t1)) (unat addr) (unat addr + unat sz)
      (\<lambda>q. p_attribute q = KMemoryAttribute_Locked \<and> p_permission q = new_lock_perm perm KMemoryPermission_UserReadWrite) \<and>
    UnlockForTransferMemory has_nce obj_size addr sz pg t1 = Some (ResultSuccess, t2) \<and> table_ready t2 \<and>
    page_at (m_memory_block_tree (m_memory_block_manager t2)) = page_at (m_memory_block_tree (m_memory_block_manager t))"
proof -
  let ?m = "m_memory_block_manager t" and ?n = "sz div PageSize" and ?p = "new_lock_perm perm KMemoryPermission_UserReadWrite"
  let ?s = "p_state (page_of ?m addr)" and ?F = KMemoryState_FlagCanTransfer
  have w: "unat ?n * 4096 = unat sz" "0 < unat sz"
    using whole_pages_words(1) [OF t(2)] t(2) by (simp_all add: whole_pages_def range_in_def)
  have "2 \<le> length (free_nodes (m_memory_block_slab_manager t))"
    using nodes(1) by simp
  then obtain pg bim t1 where l: "LockMemoryAndOpen has_nce obj_size info_size True False addr sz (lockable_test ?F) perm
      KMemoryAttribute_Locked t = Some (ResultSuccess, \<lparr>lo_paddr = None, lo_pg = pg\<rparr>, t1)" "group_pages pg = ps"
    "\<forall>t'. m_impl t' = m_impl t \<longrightarrow> user_pool_regions t' = user_pool_regions t \<longrightarrow> IsValidPageGroup t' pg addr ?n = Some True"
    "table_updated (set_properties ?s ?p KMemoryAttribute_Locked) addr ?n
      (protect_calls has_nce addr sz KMemoryPermission_UserReadWrite ?p @ KPageGroup_Open pg) (t\<lparr>m_block_info_manager := bim\<rparr>) t1"
    by (rule lock_group_ok [OF t u ps _ nodes(2), of has_nce obj_size info_size perm])
  let ?m1 = "m_memory_block_manager t1"
  have m1: "page_at (m_memory_block_tree ?m1) = page_update (set_properties ?s ?p KMemoryAttribute_Locked)
      (unat addr) (unat addr + unat sz) (page_at (m_memory_block_tree ?m))"
    "m_start_address ?m1 = m_start_address ?m" "m_end_address ?m1 = m_end_address ?m"
    "2 \<le> length (free_nodes (m_memory_block_slab_manager t1))"
    using l(4) w nodes(1) by (simp_all add: table_updated_def Let_def)
  note u1 = locked_uniform [OF u w(2) m1(1)]
  have t1: "table_ready t1" "whole_pages t1 addr sz"
    using table_updated_ready [OF l(4)] saved_perm_set_properties [of KMemoryAttribute_Locked] t m1
    by (simp_all add: flag_simps whole_pages_def range_in_def)
  have v: "IsValidPageGroup t1 pg addr ?n = Some True"
    using l(3) table_updated_fields [OF l(4)] by simp
  obtain t2 where un: "UnlockMemory has_nce obj_size addr sz (locked_test ?F) KMemoryPermission_UserReadWrite
      KMemoryAttribute_Locked (Some pg) t1 = Some (ResultSuccess, t2)"
    "table_updated (set_properties ?s KMemoryPermission_UserReadWrite 0) addr ?n
      (protect_calls has_nce addr sz (p_permission (page_of ?m1 addr)) KMemoryPermission_UserReadWrite) t1 t2"
    using unlock_ok [OF t1 u1(1), of "Some pg"] v m1(4) u1(2) by auto
  have "page_at (m_memory_block_tree (m_memory_block_manager t2)) = page_update (set_properties ?s KMemoryPermission_UserReadWrite 0)
      (unat addr) (unat addr + unat sz) (page_at (m_memory_block_tree ?m1))"
    using un(2) w by (simp add: table_updated_def Let_def)
  also have "\<dots> = page_at (m_memory_block_tree ?m)"
    unfolding m1(1) using uniform_lock_pages [OF u w(2)]
    by (intro page_update_back) (metis lock_unlock_page(2) option.inject)
  finally have restored: "page_at (m_memory_block_tree (m_memory_block_manager t2)) = page_at (m_memory_block_tree ?m)" .
  have "table_ready t2"
    by (rule table_updated_ready [OF un(2) t1(1)]) (rule saved_perm_set_properties, simp)
  moreover have "range_all (m_memory_block_tree ?m1) (unat addr) (unat addr + unat sz)
      (\<lambda>q. p_attribute q = KMemoryAttribute_Locked \<and> p_permission q = ?p)"
    using u1 unfolding uniform_range_def range_all_def by (fastforce simp: locked_memory_match same_kind_def)
  ultimately show ?thesis
    using l(1,2) un(1) restored unfolding LockForTransferMemory_def UnlockForTransferMemory_def by blast
qed


theorem TransferMemory_roundtrip_witness:
  "\<exists>pg t1 t2.
    LockForTransferMemory False 64 16 0x2000 0x2000 KMemoryPermission_UserRead sample_ready_table =
      Some (ResultSuccess, \<lparr>lo_paddr = None, lo_pg = pg\<rparr>, t1) \<and> group_pages pg = [0x80002, 0x80004] \<and>
    UnlockForTransferMemory False 64 0x2000 0x2000 pg t1 = Some (ResultSuccess, t2) \<and>
    page_at (m_memory_block_tree (m_memory_block_manager t2)) 0x2000 = Some normal_page"
proof -
  have u: "uniform_range (m_memory_block_manager sample_ready_table) 0x2000 0x2000
      (lockable_memory KMemoryState_FlagCanTransfer) DefaultMemoryIgnoreAttr"
    by (rule sample_uniform) (simp add: lockable_memory_match normal_page_def flag_simps)
  have tb: "m_impl sample_ready_table = m_impl sample_mapped_table"
    "user_pool_regions sample_ready_table = user_pool_regions sample_mapped_table"
    by (simp_all add: sample_ready_table_def)
  have "table_ok (m_impl sample_mapped_table)"
    by (auto simp: table_ok_def sample_mapped_table_def)
  moreover have "phys_range (m_impl sample_mapped_table) 2 2 = map Some [0x80002, 0x80004]"
    by (simp add: phys_range_def upt_conv_Cons phys_page_def sample_mapped_table_def)
  ultimately have ps: "mapped_to sample_ready_table 0x2000 0x2000 [0x80002, 0x80004]"
    unfolding mapped_to_def tb
    by (simp add: heap_page_def IsHeapPhysicalAddress_def page_word_def tb) (simp add: sample_mapped_table_def)
  have n: "4 \<le> length (free_nodes (m_memory_block_slab_manager sample_ready_table))"
    "unat (0x2000 :: u64) div 4096 \<le> length (free_nodes (m_block_info_manager sample_ready_table))"
    using sample_ready_table_ok(5) by (simp_all add: free_nodes_def sample_ready_table_def sample_full_slab_def)
  show ?thesis
    using TransferMemory_roundtrip [OF sample_ready_table_ok(1,2) u ps n, where has_nce = False and obj_size = 64 and info_size = 16 and perm = KMemoryPermission_UserRead]
      sample_ready_pages [of "0x2000"] by (elim exE conjE) auto
qed

text \<open>A range with a locked page passes no test that requires unlocked pages.\<close>

lemma locked_not_uniform:
  assumes "unat addr \<le> x" "x < unat addr + unat sz" "page_at (m_memory_block_tree m) x = Some q"
    and "p_attribute q AND KMemoryAttribute_Locked \<noteq> 0"
    and "ts_attr_mask ts AND KMemoryAttribute_Locked = KMemoryAttribute_Locked" "ts_attr ts = 0"
  shows "\<not> uniform_range m addr sz ts ignore_attr"
proof
  assume "uniform_range m addr sz ts ignore_attr"
  then have "p_attribute q AND ts_attr_mask ts = 0"
    using assms unfolding uniform_range_def range_all_def props_match_def by fastforce
  then have "(p_attribute q AND ts_attr_mask ts) AND KMemoryAttribute_Locked = 0"
    by simp
  then show False
    using assms(4,5) by (simp add: and.assoc)
qed

text \<open>
  C40. Exclusion. While a page is locked, every operation that would lock a range with this page as
  transfer memory, code memory, IPC buffer or for a device, or would change the permissions of the range, returns
  \<open>ResultInvalidCurrentMemory\<close> and changes nothing.
\<close>

theorem locked_memory_refused:
  assumes t: "table_ready t" "whole_pages t addr sz"
    and x: "unat addr \<le> x" "x < unat addr + unat sz"
    and q: "page_at (m_memory_block_tree (m_memory_block_manager t)) x = Some q"
      "p_attribute q AND KMemoryAttribute_Locked \<noteq> 0"
  defines "none \<equiv> \<lparr>lo_paddr = None, lo_pg = []\<rparr>"
  shows "LockForTransferMemory has_nce obj_size info_size addr sz perm t = Some (ResultInvalidCurrentMemory, none, t) \<and>
    LockForCodeMemory has_nce obj_size info_size addr sz t = Some (ResultInvalidCurrentMemory, none, t) \<and>
    LockForIpcUserBuffer has_nce obj_size info_size addr sz t = Some (ResultInvalidCurrentMemory, none, t) \<and>
    LockForMapDeviceAddressSpace obj_size addr sz perm is_aligned check_heap t = Some (ResultInvalidCurrentMemory, False, t) \<and>
    SetMemoryPermission has_nce obj_size addr sz svc_perm t = Some (ResultInvalidCurrentMemory, t) \<and>
    SetProcessMemoryPermission has_nce obj_size info_size addr sz svc_perm t = Some (ResultInvalidCurrentMemory, t)"
proof -
  have r: "manager_ok (m_memory_block_manager t)" "range_in (m_memory_block_manager t) addr sz"
    using t by (simp_all add: table_ready_def whole_pages_def)
  have ck: "\<exists>out. CheckMemoryState (m_memory_block_manager t) addr sz ts ignore_attr = Some (ResultInvalidCurrentMemory, out)"
    if "ts_attr_mask ts AND KMemoryAttribute_Locked = KMemoryAttribute_Locked" "ts_attr ts = 0" for ts ignore_attr
    using CheckMemoryState_ok [OF r, of ts ignore_attr] locked_not_uniform [OF x q that] by (auto simp: check_result_def)
  have lock: "LockMemoryAndOpen has_nce obj_size info_size wp wa addr sz (lockable_test flag) perm KMemoryAttribute_Locked t =
      Some (ResultInvalidCurrentMemory, none, t)" for wp wa flag perm
    using ck [of "lockable_memory flag" DefaultMemoryIgnoreAttr] Contains_whole_pages [OF t]
    unfolding LockMemoryAndOpen_def lockable_memory_eq
    by (auto simp: none_def lockable_memory_def lockable_test_def flag_simps)
  have stop: "CheckMemoryState (m_memory_block_manager t) addr sz ts ia \<bind>
      (\<lambda>(res, out). if res \<noteq> ResultSuccess then Some (h res) else k res out) = Some (h ResultInvalidCurrentMemory)"
    if "ts_attr_mask ts AND KMemoryAttribute_Locked = KMemoryAttribute_Locked" "ts_attr ts = 0" for ts ia k
      and h :: "Result \<Rightarrow> 'a"
    using ck [OF that, of ia] by auto
  have "LockForMapDeviceAddressSpace obj_size addr sz perm is_aligned check_heap t = Some (ResultInvalidCurrentMemory, False, t)"
    unfolding LockForMapDeviceAddressSpace_def Let_def using Contains_whole_pages [OF t] by (simp add: stop flag_simps)
  moreover have "SetMemoryPermission has_nce obj_size addr sz svc_perm t = Some (ResultInvalidCurrentMemory, t)"
    unfolding SetMemoryPermission_def Let_def by (simp add: stop flag_simps)
  moreover have "SetProcessMemoryPermission has_nce obj_size info_size addr sz svc_perm t = Some (ResultInvalidCurrentMemory, t)"
    unfolding SetProcessMemoryPermission_def Let_def by (simp add: stop flag_simps)
  ultimately show ?thesis
    by (simp add: LockForTransferMemory_def LockForCodeMemory_def LockForIpcUserBuffer_def lock)
qed


definition sample_locked_table :: KPageTableBase where
  "sample_locked_table = sample_ready_table
     \<lparr>m_memory_block_manager := (m_memory_block_manager sample_ready_table)
        \<lparr>m_memory_block_tree :=
           [KMemoryBlock_ctor 0x600 0x1000 2 KMemoryState_Normal KMemoryPermission_UserReadWrite KMemoryAttribute_None,
            KMemoryBlock_ctor 0x700 0x3000 6 KMemoryState_Normal KMemoryPermission_UserRead KMemoryAttribute_Locked]\<rparr>\<rparr>"

lemma sample_locked_pages:
  "page_at (m_memory_block_tree (m_memory_block_manager sample_locked_table)) x =
     (if 0x1000 \<le> x \<and> x < 0x3000 then Some normal_page
      else if 0x3000 \<le> x \<and> x < 0x9000
      then Some (normal_page\<lparr>p_permission := KMemoryPermission_UserRead, p_attribute := KMemoryAttribute_Locked\<rparr>) else None)"
  by (simp add: sample_locked_table_def bstart_def bend_def bpages_def KMemoryBlock_ctor_def props_of_def normal_page_def
      KMemoryAttribute_None_def KMemoryPermission_None_def)

theorem locked_memory_refused_witness:
  "LockForTransferMemory False 64 16 0x2000 0x2000 KMemoryPermission_UserRead sample_locked_table =
     Some (ResultInvalidCurrentMemory, \<lparr>lo_paddr = None, lo_pg = []\<rparr>, sample_locked_table)"
proof -
  have m: "manager_ok (m_memory_block_manager sample_locked_table)"
    by (simp add: sample_locked_table_def sample_ready_table_def sample_defs CanMergeWith_def HasSameProperties_def flag_simps)
  have "saved_perm_ok normal_page"
    "saved_perm_ok (normal_page\<lparr>p_permission := KMemoryPermission_UserRead, p_attribute := KMemoryAttribute_Locked\<rparr>)"
    by (simp_all add: saved_perm_ok_def normal_page_def)
  then have s: "\<forall>x q. page_at (m_memory_block_tree (m_memory_block_manager sample_locked_table)) x = Some q \<longrightarrow> saved_perm_ok q"
    by (simp add: sample_locked_pages)
  have r: "table_ready sample_locked_table" "whole_pages sample_locked_table 0x2000 0x2000"
    using sample_ready_table_ok(1,2) m s
    by (simp_all add: table_ready_def whole_pages_def range_in_def) (simp_all add: sample_locked_table_def)
  show ?thesis
    using locked_memory_refused [OF r, of "0x3000"] sample_locked_pages [of "0x3000"] by (simp add: flag_simps)
qed

end
