(* ===== verification/KPageHeap.thy ===== *)
theory KPageHeap
  imports KPageBitmap
begin

text \<open>
  The heap of physical pages, \<^verbatim>\<open>KPageHeap\<close> (\<^verbatim>\<open>k_page_heap.h\<close>, \<^verbatim>\<open>k_page_heap.cpp\<close>): seven sizes of blocks from
  4 KiB to 1 GiB, each with a bitmap of its free blocks. Freed blocks that complete an aligned
  group become one block of the next size; allocations split larger blocks.

  Indices that the source passes as \<^verbatim>\<open>s32\<close> are natural numbers except where a caller may pass a
  negative one. The storage of the bitmaps is the zeroed management vector; \<open>data\<close> is the host
  address of it, which the source compares with the end of the management region.
\<close>

section \<open>Blocks of one size\<close>

record Block =
  m_bitmap :: KPageBitmap
  bk_heap_address :: u64
  m_end_offset :: u64
  m_block_shift :: nat
  m_next_block_shift :: nat

definition Block_GetSize :: "Block \<Rightarrow> u64" where
  "Block_GetSize b = push_bit (m_block_shift b) 1"

definition Block_GetNumPages :: "Block \<Rightarrow> u64" where
  "Block_GetNumPages b = Block_GetSize b div PageSize"

definition Block_GetNumFreeBlocks :: "Block \<Rightarrow> u64" where
  "Block_GetNumFreeBlocks b = m_num_bits (m_bitmap b)"

definition Block_GetNumFreePages :: "Block \<Rightarrow> u64" where
  "Block_GetNumFreePages b = Block_GetNumFreeBlocks b * Block_GetNumPages b"

definition Block_Initialize ::
    "u64 \<Rightarrow> u64 \<Rightarrow> nat \<Rightarrow> nat \<Rightarrow> u64 list \<Rightarrow> Block \<Rightarrow> (Block \<times> u64 list) option" where
  "Block_Initialize addr sz bs nbs bit_storage b =
     do {
       let align = (if nbs \<noteq> 0 then push_bit nbs 1 else push_bit bs 1);
       let addr' = AlignDown addr align;
       let end' = AlignUp (addr + sz) align;
       let end_offset = (end' - addr') div push_bit bs 1;
       (bm, rest) \<leftarrow> KPageBitmap_Initialize bit_storage (unat end_offset) (m_bitmap b);
       Some (b\<lparr>m_bitmap := bm, bk_heap_address := addr', m_end_offset := end_offset,
               m_block_shift := bs, m_next_block_shift := nbs\<rparr>, rest)
     }"

text \<open>The address of the block of the next size that \<open>PushBlock\<close> formed, or zero.\<close>

definition PushBlock :: "u64 \<Rightarrow> Block \<Rightarrow> (u64 \<times> Block) option" where
  "PushBlock address b =
     do {
       let offset = drop_bit (m_block_shift b) (address - bk_heap_address b);
       bm \<leftarrow> SetBit (unat offset) (m_bitmap b);
       if m_next_block_shift b \<noteq> 0 then
         do {
           let diff = push_bit (m_next_block_shift b - m_block_shift b) 1;
           let offset' = AlignDown offset diff;
           (cleared, bm') \<leftarrow> ClearRange (unat offset') (unat diff) bm;
           Some (if cleared then bk_heap_address b + push_bit (m_block_shift b) offset' else 0,
                 b\<lparr>m_bitmap := bm'\<rparr>)
         }
       else Some (0, b\<lparr>m_bitmap := bm\<rparr>)
     }"

definition PopBlock :: "bool \<Rightarrow> Block \<Rightarrow> (u64 \<times> Block) option" where
  "PopBlock random b =
     do {
       (soffset, bm) \<leftarrow> FindFreeBlock random (m_bitmap b);
       if soffset < 0 then Some (0, b\<lparr>m_bitmap := bm\<rparr>)
       else do {
         let offset = nat soffset;
         bm' \<leftarrow> ClearBit offset bm;
         Some (bk_heap_address b + push_bit (m_block_shift b) (of_nat offset), b\<lparr>m_bitmap := bm'\<rparr>)
       }
     }"

definition Block_CalculateManagementOverheadSize :: "u64 \<Rightarrow> nat \<Rightarrow> nat \<Rightarrow> nat" where
  "Block_CalculateManagementOverheadSize region_size cur_block_shift next_block_shift =
     (let cur_block_size = push_bit cur_block_shift 1;
          next_block_size = push_bit next_block_shift 1;
          align = (if next_block_shift \<noteq> 0 then next_block_size else cur_block_size)
      in KPageBitmap_CalculateManagementOverheadSize
           (unat ((align * 2 + AlignUp region_size align) div cur_block_size)))"

section \<open>The heap\<close>

definition NumMemoryBlockPageShifts :: nat where "NumMemoryBlockPageShifts = 7"

definition MemoryBlockPageShifts :: "nat list" where
  "MemoryBlockPageShifts = [0xC, 0x10, 0x15, 0x16, 0x19, 0x1D, 0x1E]"

record KPageHeap =
  ph_heap_address :: u64
  ph_heap_size :: u64
  m_initial_used_size :: u64
  m_num_blocks :: nat
  m_blocks :: "Block list"
  ph_rng :: RandomBitGenerator

definition KPageHeap_GetEndAddress :: "KPageHeap \<Rightarrow> u64" where
  "KPageHeap_GetEndAddress h = ph_heap_address h + ph_heap_size h"

definition GetPageOffset :: "KPageHeap \<Rightarrow> u64 \<Rightarrow> u64" where
  "GetPageOffset h block = (block - ph_heap_address h) div PageSize"

definition GetPageOffsetToEnd :: "KPageHeap \<Rightarrow> u64 \<Rightarrow> u64" where
  "GetPageOffsetToEnd h block = (KPageHeap_GetEndAddress h - block) div PageSize"

fun num_free_pages_loop :: "nat \<Rightarrow> nat \<Rightarrow> KPageHeap \<Rightarrow> u64 option" where
  "num_free_pages_loop 0 i h = Some 0"
| "num_free_pages_loop (Suc n) i h =
     do {
       b \<leftarrow> array_get (m_blocks h) i;
       num_free \<leftarrow> num_free_pages_loop n (Suc i) h;
       Some (Block_GetNumFreePages b + num_free)
     }"

definition GetNumFreePages :: "KPageHeap \<Rightarrow> u64 option" where
  "GetNumFreePages h = num_free_pages_loop (m_num_blocks h) 0 h"

definition GetFreeSize :: "KPageHeap \<Rightarrow> u64 option" where
  "GetFreeSize h = do { n \<leftarrow> GetNumFreePages h; Some (n * PageSize) }"

definition SetInitialUsedSize :: "u64 \<Rightarrow> KPageHeap \<Rightarrow> KPageHeap option" where
  "SetInitialUsedSize reserved_size h =
     do {
       n \<leftarrow> GetNumFreePages h;
       let free_size = n * PageSize;
       ASSERT (ph_heap_size h \<ge> free_size + reserved_size);
       Some (h\<lparr>m_initial_used_size := ph_heap_size h - free_size - reserved_size\<rparr>)
     }"

text \<open>The first block size from below that is large enough, and the first from above that is small enough; -1 if there is none.\<close>

definition GetAlignedBlockIndex :: "u64 \<Rightarrow> u64 \<Rightarrow> int" where
  "GetAlignedBlockIndex num_pages align_pages =
     (let target_pages = max num_pages align_pages;
          fits = (\<lambda>i. target_pages \<le> push_bit (MemoryBlockPageShifts ! i) 1 div PageSize)
      in case find fits [0..<NumMemoryBlockPageShifts] of None \<Rightarrow> -1 | Some i \<Rightarrow> int i)"

definition GetBlockIndex :: "u64 \<Rightarrow> int" where
  "GetBlockIndex num_pages =
     (case find (\<lambda>i. num_pages \<ge> push_bit (MemoryBlockPageShifts ! i) 1 div PageSize)
              (rev [0..<NumMemoryBlockPageShifts]) of None \<Rightarrow> -1 | Some i \<Rightarrow> int i)"

definition GetBlockSize :: "nat \<Rightarrow> u64 option" where
  "GetBlockSize index = do { s \<leftarrow> array_get MemoryBlockPageShifts index; Some (push_bit s 1) }"

definition GetBlockNumPages :: "nat \<Rightarrow> u64 option" where
  "GetBlockNumPages index = do { s \<leftarrow> GetBlockSize index; Some (s div PageSize) }"

fun initialize_blocks ::
    "u64 \<Rightarrow> u64 \<Rightarrow> nat list \<Rightarrow> nat \<Rightarrow> u64 list \<Rightarrow> KPageHeap \<Rightarrow> (KPageHeap \<times> u64 list) option" where
  "initialize_blocks addr sz [] i storage h = Some (h, storage)"
| "initialize_blocks addr sz (s # ss) i storage h =
     do {
       b \<leftarrow> array_get (m_blocks h) i;
       (b', storage') \<leftarrow> Block_Initialize addr sz s (case ss of [] \<Rightarrow> 0 | n # _ \<Rightarrow> n) storage b;
       initialize_blocks addr sz ss (Suc i) storage' (h\<lparr>m_blocks := (m_blocks h)[i := b']\<rparr>)
     }"

definition KPageHeap_Initialize ::
    "u64 \<Rightarrow> u64 \<Rightarrow> u64 \<Rightarrow> u64 \<Rightarrow> u64 \<Rightarrow> nat list \<Rightarrow> KPageHeap \<Rightarrow> KPageHeap option" where
  "KPageHeap_Initialize data address sz management_address management_size block_shifts h =
     do {
       ASSERT (IsAligned address PageSize);
       ASSERT (IsAligned sz PageSize);
       ASSERT (0 < length block_shifts \<and> length block_shifts \<le> NumMemoryBlockPageShifts);
       let management_end = management_address + management_size;
       let h1 = h\<lparr>ph_heap_address := address, ph_heap_size := sz, m_num_blocks := length block_shifts\<rparr>;
       let storage = replicate (unat (management_size div 8)) 0;
       (h2, rest) \<leftarrow> initialize_blocks address sz block_shifts 0 storage h1;
       ASSERT (data + of_nat (8 * (length storage - length rest)) \<le> management_end);
       Some h2
     }"

fun overhead_of :: "u64 \<Rightarrow> nat list \<Rightarrow> nat" where
  "overhead_of region_size [] = 0"
| "overhead_of region_size (s # ss) =
     Block_CalculateManagementOverheadSize region_size s (case ss of [] \<Rightarrow> 0 | n # _ \<Rightarrow> n) +
     overhead_of region_size ss"

definition KPageHeap_CalculateManagementOverheadSize :: "u64 \<Rightarrow> nat list \<Rightarrow> u64" where
  "KPageHeap_CalculateManagementOverheadSize region_size block_shifts =
     AlignUp (of_nat (overhead_of region_size block_shifts)) PageSize"

text \<open>The overloads for the block sizes of the kernel.\<close>

definition KPageHeap_InitializeDefault :: "u64 \<Rightarrow> u64 \<Rightarrow> u64 \<Rightarrow> u64 \<Rightarrow> u64 \<Rightarrow> KPageHeap \<Rightarrow> KPageHeap option" where
  "KPageHeap_InitializeDefault data heap_address heap_size management_address management_size h =
     KPageHeap_Initialize data heap_address heap_size management_address management_size MemoryBlockPageShifts h"

definition KPageHeap_ManagementOverheadDefault :: "u64 \<Rightarrow> u64" where
  "KPageHeap_ManagementOverheadDefault region_size =
     KPageHeap_CalculateManagementOverheadSize region_size MemoryBlockPageShifts"

subsection \<open>Freeing\<close>

partial_function (option) FreeBlock :: "u64 \<Rightarrow> nat \<Rightarrow> KPageHeap \<Rightarrow> KPageHeap option" where
  "FreeBlock block index h =
     Option.bind (array_get (m_blocks h) index) (\<lambda>b.
     Option.bind (PushBlock block b) (\<lambda>(block', b').
       let h' = h\<lparr>m_blocks := (m_blocks h)[index := b']\<rparr>
       in if block' \<noteq> 0 then FreeBlock block' (Suc index) h' else Some h'))"

text \<open>The first argument is \<open>big_index + 1\<close>: the largest size with a whole block in the range.\<close>

fun find_big_blocks :: "nat \<Rightarrow> u64 \<Rightarrow> u64 \<Rightarrow> KPageHeap \<Rightarrow> (nat \<times> u64 \<times> u64) option" where
  "find_big_blocks 0 start nd h = None"
| "find_big_blocks (Suc i) start nd h =
     do {
       b \<leftarrow> array_get (m_blocks h) i;
       let big_start = AlignUp start (Block_GetSize b);
       let big_end = AlignDown nd (Block_GetSize b);
       if big_start < big_end then Some (i, big_start, big_end) else find_big_blocks i start nd h
     }"

partial_function (option) free_big_loop ::
    "u64 \<Rightarrow> u64 \<Rightarrow> u64 \<Rightarrow> nat \<Rightarrow> KPageHeap \<Rightarrow> KPageHeap option" where
  "free_big_loop block big_end block_size index h =
     (if block < big_end then
        Option.bind (FreeBlock block index h) (\<lambda>h'.
          free_big_loop (block + block_size) big_end block_size index h')
      else Some h)"

partial_function (option) free_before_loop ::
    "u64 \<Rightarrow> u64 \<Rightarrow> u64 \<Rightarrow> nat \<Rightarrow> KPageHeap \<Rightarrow> (u64 \<times> KPageHeap) option" where
  "free_before_loop before_start before_end block_size index h =
     (if before_start + block_size \<le> before_end then
        Option.bind (FreeBlock (before_end - block_size) index h) (\<lambda>h'.
          free_before_loop before_start (before_end - block_size) block_size index h')
      else Some (before_end, h))"

partial_function (option) free_after_loop ::
    "u64 \<Rightarrow> u64 \<Rightarrow> u64 \<Rightarrow> nat \<Rightarrow> KPageHeap \<Rightarrow> (u64 \<times> KPageHeap) option" where
  "free_after_loop after_start after_end block_size index h =
     (if after_start + block_size \<le> after_end then
        Option.bind (FreeBlock after_start index h) (\<lambda>h'.
          free_after_loop (after_start + block_size) after_end block_size index h')
      else Some (after_start, h))"

text \<open>The first argument counts the sizes that are left, from large to small.\<close>

fun free_before :: "nat \<Rightarrow> u64 \<Rightarrow> u64 \<Rightarrow> KPageHeap \<Rightarrow> KPageHeap option" where
  "free_before 0 before_start before_end h = Some h"
| "free_before (Suc i) before_start before_end h =
     do {
       b \<leftarrow> array_get (m_blocks h) i;
       (before_end', h') \<leftarrow> free_before_loop before_start before_end (Block_GetSize b) i h;
       free_before i before_start before_end' h'
     }"

fun free_after :: "nat \<Rightarrow> u64 \<Rightarrow> u64 \<Rightarrow> KPageHeap \<Rightarrow> KPageHeap option" where
  "free_after 0 after_start after_end h = Some h"
| "free_after (Suc i) after_start after_end h =
     do {
       b \<leftarrow> array_get (m_blocks h) i;
       (after_start', h') \<leftarrow> free_after_loop after_start after_end (Block_GetSize b) i h;
       free_after i after_start' after_end h'
     }"

definition KPageHeap_Free :: "u64 \<Rightarrow> u64 \<Rightarrow> KPageHeap \<Rightarrow> KPageHeap option" where
  "KPageHeap_Free addr num_pages h =
     (if num_pages = 0 then Some h
      else
        do {
          let start = addr;
          let nd = addr + num_pages * PageSize;
          (big_index, big_start, big_end) \<leftarrow> find_big_blocks (m_num_blocks h) start nd h;
          b \<leftarrow> array_get (m_blocks h) big_index;
          h1 \<leftarrow> free_big_loop big_start big_end (Block_GetSize b) big_index h;
          h2 \<leftarrow> free_before big_index start big_start h1;
          free_after big_index big_end nd h2
        })"

subsection \<open>Allocating\<close>

fun linear_search_loop :: "nat \<Rightarrow> nat \<Rightarrow> u64 \<Rightarrow> KPageHeap \<Rightarrow> (u64 \<times> KPageHeap) option" where
  "linear_search_loop 0 i needed_size h = Some (0, h)"
| "linear_search_loop (Suc n) i needed_size h =
     do {
       b \<leftarrow> array_get (m_blocks h) i;
       (addr, b') \<leftarrow> PopBlock False b;
       let h1 = h\<lparr>m_blocks := (m_blocks h)[i := b']\<rparr>;
       if addr \<noteq> 0 then
         do {
           let allocated_size = Block_GetSize b';
           h2 \<leftarrow> (if allocated_size > needed_size
                  then KPageHeap_Free (addr + needed_size) ((allocated_size - needed_size) div PageSize) h1
                  else Some h1);
           Some (addr, h2)
         }
       else linear_search_loop n (Suc i) needed_size h1
     }"

definition AllocateByLinearSearch :: "nat \<Rightarrow> KPageHeap \<Rightarrow> (u64 \<times> KPageHeap) option" where
  "AllocateByLinearSearch index h =
     do {
       b \<leftarrow> array_get (m_blocks h) index;
       linear_search_loop (m_num_blocks h - index) index (Block_GetSize b) h
     }"

definition MinimumPossibleAlignmentsForRandomAllocation :: u64 where
  "MinimumPossibleAlignmentsForRandomAllocation = 4"

definition alignments_in :: "u64 \<Rightarrow> nat \<Rightarrow> Block \<Rightarrow> u64" where
  "alignments_in needed_size align_shift b =
     (1 + drop_bit align_shift (Block_GetSize b - needed_size)) * Block_GetNumFreeBlocks b"

text \<open>The end of the sizes to choose from and the number of possible alignments in them.\<close>

fun max_blocks_loop :: "nat \<Rightarrow> nat \<Rightarrow> u64 \<Rightarrow> nat \<Rightarrow> u64 \<Rightarrow> KPageHeap \<Rightarrow> (nat \<times> u64) option" where
  "max_blocks_loop 0 i needed_size align_shift possible h = Some (i, possible)"
| "max_blocks_loop (Suc n) i needed_size align_shift possible h =
     do {
       b \<leftarrow> array_get (m_blocks h) i;
       let possible' = possible + alignments_in needed_size align_shift b;
       if possible' \<ge> MinimumPossibleAlignmentsForRandomAllocation then Some (Suc i, possible')
       else max_blocks_loop n (Suc i) needed_size align_shift possible' h
     }"

fun pick_block_loop :: "nat \<Rightarrow> nat \<Rightarrow> nat \<Rightarrow> u64 \<Rightarrow> u64 \<Rightarrow> nat \<Rightarrow> u64 \<Rightarrow> KPageHeap \<Rightarrow> nat option" where
  "pick_block_loop 0 i index rnd needed_size align_shift possible h = Some index"
| "pick_block_loop (Suc n) i index rnd needed_size align_shift possible h =
     do {
       b \<leftarrow> array_get (m_blocks h) i;
       let possible' = possible + alignments_in needed_size align_shift b;
       if rnd < possible' then Some i
       else pick_block_loop n (Suc i) index rnd needed_size align_shift possible' h
     }"

definition choose_block_index :: "nat \<Rightarrow> u64 \<Rightarrow> nat \<Rightarrow> KPageHeap \<Rightarrow> (nat \<times> KPageHeap) option" where
  "choose_block_index index needed_size align_shift h =
     do {
       (max_blocks, possible) \<leftarrow>
         max_blocks_loop (m_num_blocks h - index) index needed_size align_shift 0 h;
       if possible > 0 \<and> index + 1 < max_blocks then
         do {
           (rnd, g) \<leftarrow> GenerateRandom possible (ph_rng h);
           index' \<leftarrow> pick_block_loop (max_blocks - index) index index rnd needed_size align_shift 0 h;
           Some (index', h\<lparr>ph_rng := g\<rparr>)
         }
       else Some (index, h)
     }"

text \<open>The block that was popped is cut at a random alignment; what is left on both sides is freed.\<close>

definition cut_block :: "u64 \<Rightarrow> u64 \<Rightarrow> u64 \<Rightarrow> nat \<Rightarrow> KPageHeap \<Rightarrow> (u64 \<times> KPageHeap) option" where
  "cut_block addr leftover_size needed_size align_shift h =
     (if leftover_size > 0 then
        do {
          let possible = 1 + drop_bit align_shift leftover_size;
          (rnd, g) \<leftarrow> GenerateRandom possible (ph_rng h);
          let h1 = h\<lparr>ph_rng := g\<rparr>;
          let random_offset = push_bit align_shift rnd;
          h2 \<leftarrow> (if random_offset \<noteq> 0 then KPageHeap_Free addr (random_offset div PageSize) h1 else Some h1);
          let addr' = addr + random_offset;
          h3 \<leftarrow> (if random_offset \<noteq> leftover_size
                 then KPageHeap_Free (addr' + needed_size) ((leftover_size - random_offset) div PageSize) h2
                 else Some h2);
          Some (addr', h3)
        }
      else Some (addr, h))"

definition AllocateByRandom :: "nat \<Rightarrow> u64 \<Rightarrow> u64 \<Rightarrow> KPageHeap \<Rightarrow> (u64 \<times> KPageHeap) option" where
  "AllocateByRandom index num_pages align_pages h =
     do {
       let needed_size = num_pages * PageSize;
       let align_size = align_pages * PageSize;
       let align_shift = countr_zero align_size;
       (index', h1) \<leftarrow> choose_block_index index needed_size align_shift h;
       b \<leftarrow> array_get (m_blocks h1) index';
       (addr, b') \<leftarrow> PopBlock True b;
       let h2 = h1\<lparr>m_blocks := (m_blocks h1)[index' := b']\<rparr>;
       if addr \<noteq> 0 then cut_block addr (Block_GetSize b' - needed_size) needed_size align_shift h2
       else Some (0, h2)
     }"

definition AllocateBlock :: "int \<Rightarrow> bool \<Rightarrow> KPageHeap \<Rightarrow> (u64 \<times> KPageHeap) option" where
  "AllocateBlock index random h =
     do {
       ASSERT (0 \<le> index);
       if random then
         do {
           b \<leftarrow> array_get (m_blocks h) (nat index);
           AllocateByRandom (nat index) (Block_GetNumPages b) (Block_GetNumPages b) h
         }
       else AllocateByLinearSearch (nat index) h
     }"

definition AllocateAligned :: "int \<Rightarrow> u64 \<Rightarrow> u64 \<Rightarrow> KPageHeap \<Rightarrow> (u64 \<times> KPageHeap) option" where
  "AllocateAligned index num_pages align_pages h =
     do {
       ASSERT (0 \<le> index);
       AllocateByRandom (nat index) num_pages align_pages h
     }"

end
