(* ===== verification/KPageHeapBlocks.thy ===== *)
theory KPageHeapBlocks
  imports KPageHeap
begin

text \<open>
  The page heap as a set of free pages. A free block of one size is its absolute block number, the
  address divided by the size; a page is free when the block of some size around it is free.
\<close>

section \<open>Nested block sizes\<close>

text \<open>
  Free blocks of \<open>n\<close> sizes; \<open>z i\<close> is the number of pages of a block of size \<open>i\<close>, and every size
  divides the next one.
\<close>

definition ratio :: "(nat \<Rightarrow> nat) \<Rightarrow> nat \<Rightarrow> nat" where
  "ratio z i = z (Suc i) div z i"

definition nested :: "(nat \<Rightarrow> nat) \<Rightarrow> nat \<Rightarrow> bool" where
  "nested z n \<longleftrightarrow> z 0 = 1 \<and> (\<forall>i. Suc i < n \<longrightarrow> z (Suc i) = z i * ratio z i \<and> 1 < ratio z i)"

definition cover :: "(nat \<Rightarrow> nat) \<Rightarrow> nat \<Rightarrow> (nat \<Rightarrow> nat set) \<Rightarrow> nat set" where
  "cover z n F = {p. \<exists>i < n. p div z i \<in> F i}"

definition block_pages :: "(nat \<Rightarrow> nat) \<Rightarrow> nat \<Rightarrow> nat \<Rightarrow> nat set" where
  "block_pages z i j = {p. p div z i = j}"

text \<open>The blocks of size \<open>i\<close> in the block \<open>g\<close> of the next size.\<close>

definition group :: "(nat \<Rightarrow> nat) \<Rightarrow> nat \<Rightarrow> nat \<Rightarrow> nat set" where
  "group z i g = {j. j div ratio z i = g}"

text \<open>No page is in two free blocks, and no group of free blocks is complete.\<close>

definition exclusive :: "(nat \<Rightarrow> nat) \<Rightarrow> nat \<Rightarrow> (nat \<Rightarrow> nat set) \<Rightarrow> bool" where
  "exclusive z n F \<longleftrightarrow> (\<forall>p i j. i < n \<longrightarrow> j < n \<longrightarrow> p div z i \<in> F i \<longrightarrow> p div z j \<in> F j \<longrightarrow> i = j)"

definition coalesced_blocks :: "(nat \<Rightarrow> nat) \<Rightarrow> nat \<Rightarrow> (nat \<Rightarrow> nat set) \<Rightarrow> bool" where
  "coalesced_blocks z n F \<longleftrightarrow> (\<forall>i g. Suc i < n \<longrightarrow> \<not> group z i g \<subseteq> F i)"

lemma nested_pos: "nested z n \<Longrightarrow> i < n \<Longrightarrow> 0 < z i"
  by (induction i) (auto simp: nested_def)

lemma nested_div: "nested z n \<Longrightarrow> Suc i < n \<Longrightarrow> p div z (Suc i) = p div z i div ratio z i"
  by (metis div_mult2_eq nested_def)

lemma group_block_pages: "nested z n \<Longrightarrow> Suc i < n \<Longrightarrow> p \<in> block_pages z (Suc i) g \<longleftrightarrow> p div z i \<in> group z i g"
  by (simp add: block_pages_def group_def nested_div)

lemma block_pages_start: "nested z n \<Longrightarrow> i < n \<Longrightarrow> j * z i \<in> block_pages z i j"
  using nested_pos [of z n i] by (simp add: block_pages_def)

lemma group_start: "nested z n \<Longrightarrow> Suc i < n \<Longrightarrow> g * ratio z i \<in> group z i g"
  by (auto simp: group_def nested_def)

text \<open>Adding a block whose pages are not free, and removing a free block or a complete group.\<close>

lemma cover_insert: "i < n \<Longrightarrow> cover z n (F(i := insert j (F i))) = cover z n F \<union> block_pages z i j"
  by (auto simp: cover_def block_pages_def)

lemma exclusive_insert:
  assumes "exclusive z n F" "i < n" "block_pages z i j \<inter> cover z n F = {}"
  shows "exclusive z n (F(i := insert j (F i)))"
  using assms unfolding exclusive_def cover_def block_pages_def by (auto split: if_splits)

lemma exclusive_mono: "exclusive z n F \<Longrightarrow> (\<And>i. i < n \<Longrightarrow> G i \<subseteq> F i) \<Longrightarrow> exclusive z n G"
  unfolding exclusive_def by blast

lemma coalesced_mono: "coalesced_blocks z n F \<Longrightarrow> (\<And>i. i < n \<Longrightarrow> G i \<subseteq> F i) \<Longrightarrow> coalesced_blocks z n G"
  unfolding coalesced_blocks_def by (meson Suc_lessD subset_trans)

lemma cover_remove:
  assumes "exclusive z n F" "i < n" "A \<subseteq> F i"
  shows "cover z n (F(i := F i - A)) = cover z n F - {p. p div z i \<in> A}"
  using assms unfolding exclusive_def cover_def by (auto split: if_splits)

lemma coalesced_insert:
  assumes "coalesced_blocks z n F" "\<not> (Suc i < n \<and> group z i (j div ratio z i) \<subseteq> insert j (F i))"
  shows "coalesced_blocks z n (F(i := insert j (F i)))"
proof -
  have "\<not> group z i g \<subseteq> insert j (F i)" if "Suc i < n" for g
  proof (cases "g = j div ratio z i")
    case True
    with assms(2) that show ?thesis by simp
  next
    case False
    then have "j \<notin> group z i g"
      by (auto simp: group_def)
    with assms(1) that show ?thesis
      unfolding coalesced_blocks_def by blast
  qed
  with assms(1) show ?thesis
    by (auto simp: coalesced_blocks_def)
qed

lemma coalesced_insert_group:
  assumes "coalesced_blocks z n F" "nested z n" "Suc i < n" "g = j div ratio z i"
  shows "coalesced_blocks z n (F(i := insert j (F i) - group z i g))"
proof (rule coalesced_mono [OF assms(1)])
  have "insert j (F i) - group z i g \<subseteq> F i"
    using assms(4) by (auto simp: group_def)
  then show "(F(i := insert j (F i) - group z i g)) k \<subseteq> F k" for k
    by simp
qed

text \<open>
  In a coalesced heap a block whose pages are all free lies in a free block of its own or of a larger
  size.
\<close>

lemma not_covered_below:
  assumes "nested z n" "coalesced_blocks z n F" "i < n"
  shows "\<not> block_pages z i j \<subseteq> {p. \<exists>k < i. p div z k \<in> F k}"
  using assms(3)
proof (induction i arbitrary: j)
  case 0
  with block_pages_start [OF assms(1), of 0 j] show ?case
    by auto
next
  case (Suc i)
  then obtain j' where j': "j' \<in> group z i j" "j' \<notin> F i"
    using assms(2) unfolding coalesced_blocks_def by blast
  have "block_pages z i j' \<subseteq> block_pages z (Suc i) j"
    using j'(1) group_block_pages [OF assms(1) Suc.prems] by (auto simp: block_pages_def)
  moreover have "p div z i = j'" if "p \<in> block_pages z i j'" for p
    using that by (simp add: block_pages_def)
  ultimately show ?case
    using Suc.IH [of j'] Suc.prems j'(2) by (auto simp: less_Suc_eq)
qed

lemma covered_block_above:
  assumes "nested z n" "coalesced_blocks z n F" "i < n" "block_pages z i j \<subseteq> cover z n F"
  shows "\<exists>k. i \<le> k \<and> k < n \<and> F k \<noteq> {}"
proof (rule ccontr)
  assume "\<not> ?thesis"
  then have "cover z n F \<subseteq> {p. \<exists>k < i. p div z k \<in> F k}"
    unfolding cover_def by (auto simp: not_le)
  with assms(4) not_covered_below [OF assms(1,2,3), of j] show False
    by blast
qed


section \<open>The blocks of a heap\<close>

definition bk_size :: "Block \<Rightarrow> nat" where
  "bk_size b = 2 ^ m_block_shift b"

text \<open>The absolute numbers of the free blocks of one size.\<close>

definition first_block :: "Block \<Rightarrow> nat" where
  "first_block b = unat (bk_heap_address b) div bk_size b"

definition free_numbers :: "Block \<Rightarrow> nat set" where
  "free_numbers b = (+) (first_block b) ` free_blocks (m_bitmap b)"

text \<open>
  A block record with its bitmap: the blocks of the size start at an address that is aligned to the next size
  (to its own size for the largest) and the bitmap has room for all of them. The next size is at most 32 times as large.
\<close>

definition next_size :: "Block \<Rightarrow> nat" where
  "next_size b = (if m_next_block_shift b = 0 then bk_size b else 2 ^ m_next_block_shift b)"

definition block_shape :: "Block \<Rightarrow> bool" where
  "block_shape b \<longleftrightarrow>
     12 \<le> m_block_shift b \<and> m_block_shift b \<le> 30 \<and>
     (m_next_block_shift b = 0 \<or>
      m_block_shift b < m_next_block_shift b \<and> m_next_block_shift b \<le> m_block_shift b + 5 \<and> m_next_block_shift b \<le> 30) \<and>
     unat (bk_heap_address b) mod next_size b = 0 \<and>
     (unat (m_end_offset b) * bk_size b) mod next_size b = 0 \<and>
     unat (bk_heap_address b) + unat (m_end_offset b) * bk_size b \<le> 2 ^ 63 \<and>
     unat (m_end_offset b) \<le> capacity (m_bitmap b) \<and> bitmap_ok (m_bitmap b)"

lemma bk_size_pos [simp]: "0 < bk_size b" "bk_size b \<noteq> 0"
  by (simp_all add: bk_size_def)

lemma len64_eq: "LENGTH(64) = 64"
  by simp

lemma unat_push_bit_1: "k < 64 \<Longrightarrow> unat (push_bit k 1 :: u64) = 2 ^ k"
proof -
  assume k: "k < 64"
  have "unat (of_nat (2 ^ k) :: u64) = 2 ^ k"
    using power_strict_increasing [OF k, of "2 :: nat"] by (simp add: unat_of_nat del: of_nat_power)
  then show ?thesis
    by (simp add: push_bit_eq_mult)
qed

lemma unat_push_bit_no_wrap:
  assumes "k < 64" "unat w * 2 ^ k < 2 ^ 64"
  shows "unat (push_bit k w :: u64) = unat w * 2 ^ k"
proof -
  have "unat (2 ^ k :: u64) = 2 ^ k"
    using unat_push_bit_1 [OF assms(1)] by (simp add: push_bit_eq_mult)
  then show ?thesis
    using assms(2) by (simp add: push_bit_eq_mult unat_mult_no_wrap)
qed

lemma unat_Block_GetSize: "block_shape b \<Longrightarrow> unat (Block_GetSize b) = bk_size b"
  unfolding Block_GetSize_def bk_size_def by (rule unat_push_bit_1) (simp add: block_shape_def)

lemma next_size_eq:
  assumes "block_shape b" "m_next_block_shift b \<noteq> 0"
  obtains d where "d = 2 ^ (m_next_block_shift b - m_block_shift b)" "next_size b = bk_size b * d" "d dvd 64" "d < 64" "1 < d"
proof -
  define e where "e = m_next_block_shift b - m_block_shift b"
  have e: "m_next_block_shift b = m_block_shift b + e" "0 < e" "e \<le> 5"
    using assms by (auto simp: block_shape_def e_def)
  have "(2 :: nat) ^ e dvd 2 ^ 6"
    by (rule le_imp_power_dvd) (use e in simp)
  moreover have "(2 :: nat) ^ e \<le> 2 ^ 5"
    by (rule power_increasing) (use e in auto)
  ultimately show thesis
    using assms(2) e one_less_power [of "2 :: nat" e]
    by (intro that [of "2 ^ e"]) (simp_all add: next_size_def bk_size_def power_add e_def [symmetric])
qed

lemma first_block_address:
  assumes "block_shape b"
  shows "first_block b * bk_size b = unat (bk_heap_address b)"
proof -
  have "bk_size b dvd next_size b"
  proof (cases "m_next_block_shift b = 0")
    case False
    with next_size_eq [OF assms] show ?thesis
      by (metis dvd_triv_left)
  qed (simp add: next_size_def)
  then have "bk_size b dvd unat (bk_heap_address b)"
    using assms by (auto simp: block_shape_def intro: dvd_trans dest: mod_0_imp_dvd)
  then show ?thesis
    by (simp add: first_block_def)
qed


lemma bk_size_update [simp]:
  "bk_size (b\<lparr>m_bitmap := bm\<rparr>) = bk_size b" "next_size (b\<lparr>m_bitmap := bm\<rparr>) = next_size b"
  "first_block (b\<lparr>m_bitmap := bm\<rparr>) = first_block b"
  by (simp_all add: bk_size_def next_size_def first_block_def)

text \<open>The number of an address in the bitmap of a block record.\<close>

definition in_blocks :: "Block \<Rightarrow> nat \<Rightarrow> bool" where
  "in_blocks b j \<longleftrightarrow> first_block b \<le> j \<and> j < first_block b + unat (m_end_offset b)"

lemma unat_drop_bit_div: "unat (drop_bit k (w :: u64)) = unat w div 2 ^ k"
  by (metis drop_bit_eq_div unsigned_drop_bit_eq unsigned_take_bit_eq take_bit_length_eq)

lemma relative_number:
  assumes "block_shape b" "in_blocks b j" "unat a = j * bk_size b"
  shows "unat (drop_bit (m_block_shift b) (a - bk_heap_address b)) = j - first_block b"
    "j - first_block b < capacity (m_bitmap b)" "j - first_block b < unat (m_end_offset b)"
proof -
  have "unat (bk_heap_address b) \<le> unat a"
    using assms by (simp add: in_blocks_def flip: first_block_address)
  then have "unat (a - bk_heap_address b) = (j - first_block b) * bk_size b"
    using assms first_block_address [OF assms(1)] by (simp add: unat_minus_no_wrap diff_mult_distrib)
  then show "unat (drop_bit (m_block_shift b) (a - bk_heap_address b)) = j - first_block b"
    by (simp add: unat_drop_bit_div bk_size_def)
  show "j - first_block b < unat (m_end_offset b)"
    using assms(2) by (auto simp: in_blocks_def)
  then show "j - first_block b < capacity (m_bitmap b)"
    using assms(1) by (simp add: block_shape_def)
qed

lemma free_numbers_iff: "first_block b \<le> j \<Longrightarrow> j \<in> free_numbers b \<longleftrightarrow> j - first_block b \<in> free_blocks (m_bitmap b)"
  by (auto simp: free_numbers_def image_iff intro: bexI [of _ "j - first_block b"])

lemma free_numbers_update:
  "free_numbers (b\<lparr>m_bitmap := bm\<rparr>) = (+) (first_block b) ` free_blocks bm"
  by (simp add: free_numbers_def first_block_def bk_size_def)

lemma block_shape_update:
  "block_shape b \<Longrightarrow> bitmap_ok bm \<Longrightarrow> capacity bm = capacity (m_bitmap b) \<Longrightarrow> block_shape (b\<lparr>m_bitmap := bm\<rparr>)"
  by (simp add: block_shape_def)

lemma insert_number:
  "first_block b \<le> j \<Longrightarrow> free_blocks bm = insert (j - first_block b) (free_blocks (m_bitmap b)) \<Longrightarrow>
   free_numbers (b\<lparr>m_bitmap := bm\<rparr>) = insert j (free_numbers b)"
  unfolding free_numbers_update by (simp add: free_numbers_def)

lemma group_room:
  assumes "(d :: nat) dvd 64" "0 < d"
  shows "(k div d * d) mod 64 + d \<le> 64"
proof -
  obtain c where c: "64 = d * c"
    using assms(1) by (rule dvdE)
  then have "k div d * d mod 64 = d * (k div d mod c)"
    by (simp add: mult.commute mult_mod_right)
  moreover have "k div d mod c < c"
    using c by (intro mod_less_divisor) (cases c; simp)
  ultimately have "k div d * d mod 64 + d \<le> d * c"
    using assms(2) by (metis Suc_leI add.commute mult_Suc_right mult_le_mono2)
  then show ?thesis
    using c by linarith
qed

lemma relative_group:
  fixes d f k :: nat
  assumes "d dvd f" "0 < d"
  shows "(+) f ` {k div d * d..<k div d * d + d} = {j. j div d = (f + k) div d}"
proof -
  obtain c where c: "f = d * c"
    using assms(1) by (rule dvdE)
  have "j div d = (f + k) div d \<longleftrightarrow> f + k div d * d \<le> j \<and> j < f + k div d * d + d" for j
  proof -
    have "(f + k) div d = c + k div d"
      using c assms(2) by simp
    then show ?thesis
      using assms(2) c by (auto simp: div_nat_eqI algebra_simps dest: sym) (metis add_mult_distrib2 div_times_less_eq_dividend mult.commute dividend_less_div_times)+
  qed
  moreover have "(+) f ` {k div d * d..<k div d * d + d} = {f + k div d * d..<f + k div d * d + d}"
    by (simp add: image_add_atLeastLessThan ac_simps)
  ultimately show ?thesis
    by auto
qed


text \<open>
  \<open>PushBlock\<close> of a block that is not free adds its number, unless this completes a group: then the group is
  removed and its address is returned.
\<close>

lemma PushBlock_last:
  assumes "block_shape b" "in_blocks b j" "unat a = j * bk_size b" "j \<notin> free_numbers b" "m_next_block_shift b = 0"
  obtains bm where "PushBlock a b = Some (0, b\<lparr>m_bitmap := bm\<rparr>)" "block_shape (b\<lparr>m_bitmap := bm\<rparr>)"
    "free_numbers (b\<lparr>m_bitmap := bm\<rparr>) = insert j (free_numbers b)"
proof -
  note k = relative_number [OF assms(1-3)]
  have j: "first_block b \<le> j"
    using assms(2) by (simp add: in_blocks_def)
  obtain bm where "SetBit (j - first_block b) (m_bitmap b) = Some bm" "bitmap_ok bm"
    "free_blocks bm = insert (j - first_block b) (free_blocks (m_bitmap b))" "capacity bm = capacity (m_bitmap b)"
    using SetBit_ok [OF _ k(2)] assms(1,4) free_numbers_iff [OF j] by (auto simp: block_shape_def)
  then show thesis
    using assms(5) by (intro that [of bm] insert_number [OF j] block_shape_update [OF assms(1)]) (simp_all add: PushBlock_def k(1))
qed

lemma PushBlock_next:
  assumes b: "block_shape b" "in_blocks b j" "unat a = j * bk_size b" "j \<notin> free_numbers b" "m_next_block_shift b \<noteq> 0"
  defines "d \<equiv> 2 ^ (m_next_block_shift b - m_block_shift b)"
  defines "G \<equiv> {i. i div d = j div d}"
  shows "\<exists>r bm. PushBlock a b = Some (r, b\<lparr>m_bitmap := bm\<rparr>) \<and> block_shape (b\<lparr>m_bitmap := bm\<rparr>) \<and>
    (if G \<subseteq> insert j (free_numbers b)
     then unat r = (j div d) * next_size b \<and> free_numbers (b\<lparr>m_bitmap := bm\<rparr>) = insert j (free_numbers b) - G
     else r = 0 \<and> free_numbers (b\<lparr>m_bitmap := bm\<rparr>) = insert j (free_numbers b))"
proof -
  let ?k = "j - first_block b" and ?f = "first_block b"
  note k = relative_number [OF b(1-3)]
  have j: "?f \<le> j"
    using b(2) by (simp add: in_blocks_def)
  have d: "next_size b = bk_size b * d" "d dvd 64" "d < 64" "1 < d"
    using next_size_eq [OF b(1,5)] unfolding d_def by auto
  obtain bm where bm: "SetBit ?k (m_bitmap b) = Some bm" "bitmap_ok bm"
    "free_blocks bm = insert ?k (free_blocks (m_bitmap b))" "capacity bm = capacity (m_bitmap b)"
    using SetBit_ok [OF _ k(2)] b(1,4) free_numbers_iff [OF j] by (auto simp: block_shape_def)
  have bs: "block_shape (b\<lparr>m_bitmap := bm\<rparr>)"
    using block_shape_update [OF b(1) bm(2,4)] .
  have ins: "free_numbers (b\<lparr>m_bitmap := bm\<rparr>) = insert j (free_numbers b)"
    by (rule insert_number [OF j bm(3)])
  have ud: "unat (push_bit (m_next_block_shift b - m_block_shift b) 1 :: u64) = d"
    unfolding d_def by (rule unat_push_bit_1) (use b(1) in \<open>auto simp: block_shape_def\<close>)
  let ?o = "AlignDown (drop_bit (m_block_shift b) (a - bk_heap_address b)) (push_bit (m_next_block_shift b - m_block_shift b) 1)"
  have uo: "unat ?o = ?k div d * d"
    unfolding unat_AlignDown ud k(1) by (simp add: minus_mod_eq_div_mult)
  have "bk_size b * d dvd first_block b * bk_size b" "bk_size b * d dvd unat (m_end_offset b) * bk_size b"
    using b(1) first_block_address [OF b(1)] unfolding block_shape_def d(1) by (auto dest!: mod_0_imp_dvd)
  then have dvd: "d dvd ?f" "d dvd unat (m_end_offset b)"
    using bk_size_pos(2) [of b] by (metis dvd_mult_cancel1 mult.commute nat_mult_dvd_cancel_disj)+
  then obtain c where c: "unat (m_end_offset b) = d * c"
    by (auto elim: dvdE)
  have "?k div d < c"
    using k(3) d(4) c by (simp add: less_mult_imp_div_less mult.commute)
  then have "?k div d * d + d \<le> unat (m_end_offset b)"
    unfolding c by (metis Suc_leI add.commute mult.commute mult_Suc_right mult_le_mono2)
  then have cap: "?k div d * d + d \<le> capacity bm"
    using b(1) bm(4) by (simp add: block_shape_def)
  have G: "(+) ?f ` {?k div d * d..<?k div d * d + d} = G"
    using relative_group [OF dvd(1), of ?k] d(4) j by (simp add: G_def)
  have sub: "{?k div d * d..<?k div d * d + d} \<subseteq> free_blocks bm \<longleftrightarrow> G \<subseteq> insert j (free_numbers b)"
    unfolding ins [symmetric] free_numbers_update G [symmetric] by (metis image_mono inj_image_subset_iff inj_on_add)
  note cr = ClearRange_small_ok [OF bm(2), of d "?k div d * d", OF _ d(3) group_room [OF d(2)] cap]
  show ?thesis
  proof (cases "G \<subseteq> insert j (free_numbers b)")
    case False
    then have "ClearRange (?k div d * d) d bm = Some (False, bm)"
      using cr(1) sub d(4) by simp
    then have "PushBlock a b = Some (0, b\<lparr>m_bitmap := bm\<rparr>)"
      using b(5) bm(1) by (simp add: PushBlock_def Let_def k(1) uo [simplified] ud [simplified])
    with False ins bs show ?thesis
      by auto
  next
    case True
    then obtain bm' where bm': "ClearRange (?k div d * d) d bm = Some (True, bm')" "bitmap_ok bm'"
      "free_blocks bm' = free_blocks bm - {?k div d * d..<?k div d * d + d}" "capacity bm' = capacity bm"
      using cr(2) sub d(4) by auto
    have "free_numbers (b\<lparr>m_bitmap := bm'\<rparr>) = insert j (free_numbers b) - G"
      unfolding ins [symmetric] free_numbers_update bm'(3) G [symmetric]
      by (rule image_set_diff) simp
    moreover have "unat (bk_heap_address b + push_bit (m_block_shift b) ?o) = (j div d) * next_size b"
    proof -
      have room: "?k div d * d * bk_size b \<le> unat (m_end_offset b) * bk_size b"
        using \<open>?k div d * d + d \<le> unat (m_end_offset b)\<close> by (intro mult_le_mono1) simp
      moreover have e: "unat (bk_heap_address b) + unat (m_end_offset b) * bk_size b \<le> 2 ^ 63" "m_block_shift b < 64"
        using b(1) by (simp_all add: block_shape_def)
      ultimately have "?k div d * d * bk_size b \<le> 2 ^ 63"
        by linarith
      then have lt: "?k div d * d * bk_size b < 2 ^ 64"
        by (rule le_less_trans) simp
      have "unat (push_bit (m_block_shift b) ?o) = unat ?o * 2 ^ m_block_shift b"
        by (rule unat_push_bit_no_wrap [OF e(2)]) (use lt in \<open>simp only: uo bk_size_def\<close>)
      then have "unat (push_bit (m_block_shift b) ?o) = ?k div d * d * bk_size b"
        by (simp only: uo bk_size_def)
      moreover have "unat (bk_heap_address b) + ?k div d * d * bk_size b < 2 ^ 64"
        by (rule le_less_trans [of _ "2 ^ 63"]) (use room e(1) in linarith, simp)
      ultimately have "unat (bk_heap_address b + push_bit (m_block_shift b) ?o) = unat (bk_heap_address b) + ?k div d * d * bk_size b"
        using unat_plus_no_wrap [of "bk_heap_address b" "push_bit (m_block_shift b) ?o"] by (simp only: len64_eq)
      also have "\<dots> = (?f + ?k div d * d) * bk_size b"
        by (simp add: add_mult_distrib first_block_address [OF b(1)])
      also have "?f + ?k div d * d = j div d * d"
      proof -
        obtain e where e: "?f = d * e"
          using dvd(1) by (rule dvdE)
        then have "j div d = e + ?k div d"
          using j d(4) by (metis add.commute add_diff_inverse_nat div_mult_self2 le_add_diff_inverse not_less_zero)
        with e show ?thesis
          by (simp add: algebra_simps)
      qed
      finally show ?thesis
        by (simp add: d(1) ac_simps)
    qed
    moreover have "PushBlock a b = Some (bk_heap_address b + push_bit (m_block_shift b) ?o, b\<lparr>m_bitmap := bm'\<rparr>)"
      using b(5) bm(1) bm'(1) by (simp add: PushBlock_def Let_def k(1) uo [simplified] ud [simplified])
    ultimately show ?thesis
      using True block_shape_update [OF b(1), of bm'] bm bm' by auto
  qed
qed

end
