(* ===== verification/KPageHeapInvariant.thy ===== *)
theory KPageHeapInvariant
  imports KPageHeapBlocks
begin

text \<open>
  The invariant of the page heap: what no operation changes, the free pages as the cover of the free blocks, and \<open>FreeBlock\<close>,
  which adds the pages of a block and coalesces.
\<close>

section \<open>The invariant\<close>

definition zs :: "KPageHeap \<Rightarrow> nat \<Rightarrow> nat" where
  "zs h i = bk_size (m_blocks h ! i) div 4096"

definition free_at :: "KPageHeap \<Rightarrow> nat \<Rightarrow> nat set" where
  "free_at h i = free_numbers (m_blocks h ! i)"

definition heap_pages :: "KPageHeap \<Rightarrow> nat set" where
  "heap_pages h = {unat (ph_heap_address h) div 4096..<(unat (ph_heap_address h) + unat (ph_heap_size h)) div 4096}"

definition free_heap_pages :: "KPageHeap \<Rightarrow> nat set" where
  "free_heap_pages h = cover (zs h) (m_num_blocks h) (free_at h)"

text \<open>The part that no operation changes: the region of the heap and the sizes and addresses of its blocks.\<close>

definition heap_layout :: "KPageHeap \<Rightarrow> bool" where
  "heap_layout h \<longleftrightarrow>
     0 < m_num_blocks h \<and> m_num_blocks h \<le> length (m_blocks h) \<and>
     unat (ph_heap_address h) mod 4096 = 0 \<and> unat (ph_heap_size h) mod 4096 = 0 \<and>
     0 < unat (ph_heap_address h) \<and> unat (ph_heap_address h) + unat (ph_heap_size h) \<le> 2 ^ 62 \<and>
     m_block_shift (m_blocks h ! 0) = 12 \<and>
     (\<forall>i < m_num_blocks h. let b = m_blocks h ! i in
        block_shape b \<and>
        m_next_block_shift b = (if Suc i < m_num_blocks h then m_block_shift (m_blocks h ! Suc i) else 0) \<and>
        unat (bk_heap_address b) \<le> unat (ph_heap_address h) \<and>
        unat (ph_heap_address h) + unat (ph_heap_size h) \<le> unat (bk_heap_address b) + unat (m_end_offset b) * bk_size b)"

definition heap_ok :: "KPageHeap \<Rightarrow> bool" where
  "heap_ok h \<longleftrightarrow>
     heap_layout h \<and> exclusive (zs h) (m_num_blocks h) (free_at h) \<and>
     coalesced_blocks (zs h) (m_num_blocks h) (free_at h) \<and> free_heap_pages h \<subseteq> heap_pages h"

lemma heap_layoutD:
  assumes "heap_layout h" "i < m_num_blocks h"
  shows "block_shape (m_blocks h ! i)" "i < length (m_blocks h)"
    "m_next_block_shift (m_blocks h ! i) = (if Suc i < m_num_blocks h then m_block_shift (m_blocks h ! Suc i) else 0)"
    "unat (bk_heap_address (m_blocks h ! i)) \<le> unat (ph_heap_address h)"
    "unat (ph_heap_address h) + unat (ph_heap_size h) \<le>
       unat (bk_heap_address (m_blocks h ! i)) + unat (m_end_offset (m_blocks h ! i)) * bk_size (m_blocks h ! i)"
  using assms by (auto simp: heap_layout_def Let_def)

lemma zs_pages:
  assumes "heap_layout h" "i < m_num_blocks h"
  shows "zs h i * 4096 = bk_size (m_blocks h ! i)"
proof -
  have "12 \<le> m_block_shift (m_blocks h ! i)"
    using heap_layoutD(1) [OF assms] by (simp add: block_shape_def)
  then have "(2 :: nat) ^ 12 dvd bk_size (m_blocks h ! i)"
    unfolding bk_size_def by (rule le_imp_power_dvd)
  then show ?thesis
    by (simp add: zs_def)
qed

lemma next_ratio:
  assumes "heap_layout h" "Suc i < m_num_blocks h"
  defines "d \<equiv> 2 ^ (m_block_shift (m_blocks h ! Suc i) - m_block_shift (m_blocks h ! i))"
  shows "bk_size (m_blocks h ! Suc i) = bk_size (m_blocks h ! i) * d" "1 < d" "ratio (zs h) i = d"
    "next_size (m_blocks h ! i) = bk_size (m_blocks h ! Suc i)" "m_next_block_shift (m_blocks h ! i) \<noteq> 0"
    "m_next_block_shift (m_blocks h ! i) = m_block_shift (m_blocks h ! Suc i)"
proof -
  have i: "i < m_num_blocks h"
    using assms(2) by simp
  note D = heap_layoutD [OF assms(1) i]
  show nx: "m_next_block_shift (m_blocks h ! i) = m_block_shift (m_blocks h ! Suc i)"
    using D(3) assms(2) by simp
  show nz: "m_next_block_shift (m_blocks h ! i) \<noteq> 0"
    using nx heap_layoutD(1) [OF assms(1,2)] by (simp add: block_shape_def)
  obtain "next_size (m_blocks h ! i) = bk_size (m_blocks h ! i) * d" "1 < d"
    using next_size_eq [OF D(1) nz] by (auto simp: d_def nx)
  moreover show "next_size (m_blocks h ! i) = bk_size (m_blocks h ! Suc i)"
    using nx nz by (simp add: next_size_def bk_size_def)
  ultimately show s: "bk_size (m_blocks h ! Suc i) = bk_size (m_blocks h ! i) * d" and "1 < d"
    by simp_all
  have "zs h (Suc i) * 4096 = zs h i * d * 4096"
    using s zs_pages [OF assms(1)] assms(2) i by simp
  then have "zs h (Suc i) = zs h i * d"
    by simp
  moreover have "0 < zs h i"
    using zs_pages [OF assms(1) i] by (cases "zs h i") auto
  ultimately show "ratio (zs h) i = d"
    by (simp add: ratio_def)
qed

lemma heap_nested: "heap_layout h \<Longrightarrow> nested (zs h) (m_num_blocks h)"
proof -
  assume l: "heap_layout h"
  have "zs h 0 = 1"
    using l by (simp add: zs_def bk_size_def heap_layout_def)
  moreover have "zs h (Suc i) = zs h i * ratio (zs h) i \<and> 1 < ratio (zs h) i" if "Suc i < m_num_blocks h" for i
  proof -
    note r = next_ratio [OF l that]
    have "zs h (Suc i) * 4096 = zs h i * ratio (zs h) i * 4096"
      using r(1,3) zs_pages [OF l] that by simp
    with r(2,3) show ?thesis
      by simp
  qed
  ultimately show ?thesis
    by (simp add: nested_def)
qed

text \<open>A block inside the heap has a number in the bitmap of its size.\<close>

lemma heap_block_number:
  assumes "heap_layout h" "i < m_num_blocks h" "block_pages (zs h) i j \<subseteq> heap_pages h"
  shows "in_blocks (m_blocks h ! i) j" "(j + 1) * bk_size (m_blocks h ! i) \<le> 2 ^ 62" "0 < j * bk_size (m_blocks h ! i)"
proof -
  let ?b = "m_blocks h ! i" and ?S = "bk_size (m_blocks h ! i)" and ?z = "zs h i"
  note D = heap_layoutD [OF assms(1,2)]
  have z: "?z * 4096 = ?S" "0 < ?z"
    using zs_pages [OF assms(1,2)] nested_pos [OF heap_nested [OF assms(1)] assms(2)] by simp_all
  have "(j * ?z) div ?z = j" "(j * ?z + (?z - 1)) div ?z = j"
    using z(2) by (auto simp: mult.commute [of j] intro!: div_nat_eqI)
  then have "j * ?z \<in> heap_pages h" "j * ?z + (?z - 1) \<in> heap_pages h"
    using assms(3) unfolding block_pages_def by blast+
  then have "unat (ph_heap_address h) div 4096 \<le> j * ?z"
    "j * ?z + ?z \<le> (unat (ph_heap_address h) + unat (ph_heap_size h)) div 4096"
    using z(2) by (auto simp: heap_pages_def)
  then have "unat (ph_heap_address h) div 4096 * 4096 \<le> j * (?z * 4096)"
    "(j * ?z + ?z) * 4096 \<le> (unat (ph_heap_address h) + unat (ph_heap_size h)) div 4096 * 4096"
    by (simp_all only: mult.assoc [symmetric] mult_le_mono1)
  moreover have "unat (ph_heap_address h) mod 4096 = 0" "(unat (ph_heap_address h) + unat (ph_heap_size h)) mod 4096 = 0"
    "0 < unat (ph_heap_address h)" "unat (ph_heap_address h) + unat (ph_heap_size h) \<le> 2 ^ 62"
    using assms(1) by (auto simp: heap_layout_def mod_add_eq)
  moreover have "(j * ?z + ?z) * 4096 = (j + 1) * ?S"
    by (simp add: add_mult_distrib flip: z(1))
  ultimately have b: "unat (ph_heap_address h) \<le> j * ?S" "(j + 1) * ?S \<le> unat (ph_heap_address h) + unat (ph_heap_size h)"
    "0 < unat (ph_heap_address h)" "unat (ph_heap_address h) + unat (ph_heap_size h) \<le> 2 ^ 62"
    unfolding z(1) by (metis div_mult_mod_eq add.right_neutral)+
  then show "0 < j * ?S" "(j + 1) * ?S \<le> 2 ^ 62"
    by linarith+
  have "first_block ?b * ?S \<le> j * ?S" "(j + 1) * ?S \<le> (first_block ?b + unat (m_end_offset ?b)) * ?S"
    using b(1,2) D(4,5) unfolding add_mult_distrib [of "first_block ?b"] first_block_address [OF D(1)] by linarith+
  then have "first_block ?b \<le> j" "j + 1 \<le> first_block ?b + unat (m_end_offset ?b)"
    by (simp_all only: mult_le_cancel2 bk_size_pos simp_thms)
  then show "in_blocks ?b j"
    by (simp add: in_blocks_def)
qed

section \<open>One bitmap changes\<close>

definition set_bitmap :: "nat \<Rightarrow> KPageBitmap \<Rightarrow> KPageHeap \<Rightarrow> KPageHeap" where
  "set_bitmap i bm h = h\<lparr>m_blocks := (m_blocks h)[i := (m_blocks h ! i)\<lparr>m_bitmap := bm\<rparr>]\<rparr>"

text \<open>Operations change bitmaps and the random generator only.\<close>

definition same_layout :: "KPageHeap \<Rightarrow> KPageHeap \<Rightarrow> bool" where
  "same_layout h h' \<longleftrightarrow>
     ph_heap_address h' = ph_heap_address h \<and> ph_heap_size h' = ph_heap_size h \<and> m_num_blocks h' = m_num_blocks h \<and>
     m_initial_used_size h' = m_initial_used_size h \<and> length (m_blocks h') = length (m_blocks h) \<and>
     (\<forall>i < length (m_blocks h). \<exists>bm. m_blocks h' ! i = (m_blocks h ! i)\<lparr>m_bitmap := bm\<rparr>)"

lemma same_layout_refl [simp]: "same_layout h h"
proof -
  have "b = b\<lparr>m_bitmap := m_bitmap b\<rparr>" for b :: Block
    by simp
  then show ?thesis
    unfolding same_layout_def by blast
qed

lemma same_layout_trans [trans]: "same_layout a b \<Longrightarrow> same_layout b c \<Longrightarrow> same_layout a c"
  unfolding same_layout_def by (elim conjE, intro conjI) (simp_all, metis (no_types, lifting) Block.update_convs(1) Block.surjective)

lemma set_bitmap_simps [simp]:
  "ph_heap_address (set_bitmap i bm h) = ph_heap_address h" "ph_heap_size (set_bitmap i bm h) = ph_heap_size h"
  "m_num_blocks (set_bitmap i bm h) = m_num_blocks h" "length (m_blocks (set_bitmap i bm h)) = length (m_blocks h)"
  "heap_pages (set_bitmap i bm h) = heap_pages h"
  by (simp_all add: set_bitmap_def heap_pages_def)

lemma set_bitmap_nth:
  "i < length (m_blocks h) \<Longrightarrow>
   m_blocks (set_bitmap i bm h) ! k = (if k = i then (m_blocks h ! i)\<lparr>m_bitmap := bm\<rparr> else m_blocks h ! k)"
  by (simp add: set_bitmap_def)

lemma set_bitmap_views:
  assumes "i < length (m_blocks h)"
  shows "zs (set_bitmap i bm h) = zs h"
    "free_at (set_bitmap i bm h) = (free_at h)(i := free_numbers ((m_blocks h ! i)\<lparr>m_bitmap := bm\<rparr>))"
    "same_layout h (set_bitmap i bm h)"
proof -
  show "zs (set_bitmap i bm h) = zs h"
    by (rule ext) (simp add: zs_def set_bitmap_nth [OF assms])
  show "free_at (set_bitmap i bm h) = (free_at h)(i := free_numbers ((m_blocks h ! i)\<lparr>m_bitmap := bm\<rparr>))"
    by (rule ext) (simp add: free_at_def set_bitmap_nth [OF assms])
  have "\<exists>bm'. m_blocks (set_bitmap i bm h) ! k = (m_blocks h ! k)\<lparr>m_bitmap := bm'\<rparr>" for k
  proof (cases "k = i")
    case False
    then have "m_blocks (set_bitmap i bm h) ! k = (m_blocks h ! k)\<lparr>m_bitmap := m_bitmap (m_blocks h ! k)\<rparr>"
      by (simp add: set_bitmap_nth [OF assms])
    then show ?thesis ..
  qed (auto simp: set_bitmap_nth [OF assms])
  then show "same_layout h (set_bitmap i bm h)"
    by (simp add: same_layout_def) (simp add: set_bitmap_def)
qed

lemma heap_layout_set:
  assumes "heap_layout h" "i < m_num_blocks h" "block_shape ((m_blocks h ! i)\<lparr>m_bitmap := bm\<rparr>)"
  shows "heap_layout (set_bitmap i bm h)"
proof -
  have i: "i < length (m_blocks h)"
    using heap_layoutD(2) [OF assms(1,2)] .
  let ?h = "set_bitmap i bm h"
  have f: "m_block_shift (m_blocks ?h ! k) = m_block_shift (m_blocks h ! k)" "bk_size (m_blocks ?h ! k) = bk_size (m_blocks h ! k)"
    "m_next_block_shift (m_blocks ?h ! k) = m_next_block_shift (m_blocks h ! k)"
    "bk_heap_address (m_blocks ?h ! k) = bk_heap_address (m_blocks h ! k)"
    "m_end_offset (m_blocks ?h ! k) = m_end_offset (m_blocks h ! k)" for k
    by (simp_all add: set_bitmap_nth [OF i])
  have "block_shape (m_blocks ?h ! k)" if "k < m_num_blocks h" for k
    using heap_layoutD(1) [OF assms(1) that] assms(3) by (simp add: set_bitmap_nth [OF i])
  then show ?thesis
    using assms(1) unfolding heap_layout_def Let_def by (simp add: f)
qed

lemma heap_ok_set:
  assumes h: "heap_ok h" "i < m_num_blocks h" "block_shape ((m_blocks h ! i)\<lparr>m_bitmap := bm\<rparr>)"
    and F: "free_numbers ((m_blocks h ! i)\<lparr>m_bitmap := bm\<rparr>) = A"
    and ok: "exclusive (zs h) (m_num_blocks h) ((free_at h)(i := A))"
      "coalesced_blocks (zs h) (m_num_blocks h) ((free_at h)(i := A))"
      "cover (zs h) (m_num_blocks h) ((free_at h)(i := A)) \<subseteq> heap_pages h"
  shows "heap_ok (set_bitmap i bm h)"
    "free_heap_pages (set_bitmap i bm h) = cover (zs h) (m_num_blocks h) ((free_at h)(i := A))"
proof -
  have l: "heap_layout h" "i < length (m_blocks h)"
    using h heap_layoutD(2) by (auto simp: heap_ok_def)
  note v = set_bitmap_views [OF l(2), of bm, unfolded F]
  show "free_heap_pages (set_bitmap i bm h) = cover (zs h) (m_num_blocks h) ((free_at h)(i := A))"
    by (simp add: free_heap_pages_def v)
  with ok v heap_layout_set [OF l(1) h(2,3)] show "heap_ok (set_bitmap i bm h)"
    by (simp add: heap_ok_def)
qed

section \<open>FreeBlock\<close>

lemma FreeBlock_ok:
  assumes "heap_ok h" "i < m_num_blocks h" "unat a = j * bk_size (m_blocks h ! i)"
    and "block_pages (zs h) i j \<subseteq> heap_pages h - free_heap_pages h"
  shows "\<exists>h'. FreeBlock a i h = Some h' \<and> heap_ok h' \<and> same_layout h h' \<and> ph_rng h' = ph_rng h \<and>
    free_heap_pages h' = free_heap_pages h \<union> block_pages (zs h) i j"
  using assms
proof (induction "m_num_blocks h - i" arbitrary: h i j a)
  case 0
  then show ?case by simp
next
  case (Suc n)
  let ?b = "m_blocks h ! i" and ?z = "zs h" and ?n = "m_num_blocks h" and ?F = "free_at h"
  have l: "heap_layout h" "exclusive ?z ?n ?F" "coalesced_blocks ?z ?n ?F" "cover ?z ?n ?F \<subseteq> heap_pages h"
    using Suc.prems(1) by (simp_all add: heap_ok_def free_heap_pages_def)
  note i = Suc.prems(2) and D = heap_layoutD [OF l(1) Suc.prems(2)] and N = heap_nested [OF l(1)]
  have dis: "block_pages ?z i j \<inter> cover ?z ?n ?F = {}" and sub: "block_pages ?z i j \<subseteq> heap_pages h"
    using Suc.prems(4) by (auto simp: free_heap_pages_def)
  note num = heap_block_number [OF l(1) i sub]
  have jF: "j \<notin> free_numbers ?b"
  proof
    assume "j \<in> free_numbers ?b"
    then have "j * ?z i \<in> cover ?z ?n ?F"
      using nested_pos [OF N i] i by (auto simp: cover_def free_at_def)
    with dis block_pages_start [OF N i, of j] show False
      by blast
  qed
  have unfold: "FreeBlock a i h = Option.bind (PushBlock a ?b) (\<lambda>(a', b').
      if a' \<noteq> 0 then FreeBlock a' (Suc i) (h\<lparr>m_blocks := (m_blocks h)[i := b']\<rparr>)
      else Some (h\<lparr>m_blocks := (m_blocks h)[i := b']\<rparr>))"
    using D(2) by (subst FreeBlock.simps) (simp add: Let_def)
  have plain: "\<exists>h'. FreeBlock a i h = Some h' \<and> heap_ok h' \<and> same_layout h h' \<and> ph_rng h' = ph_rng h \<and>
      free_heap_pages h' = free_heap_pages h \<union> block_pages (zs h) i j"
    if p: "PushBlock a ?b = Some (0, ?b\<lparr>m_bitmap := bm\<rparr>)" "block_shape (?b\<lparr>m_bitmap := bm\<rparr>)"
      "free_numbers (?b\<lparr>m_bitmap := bm\<rparr>) = insert j (free_numbers ?b)"
      and g: "\<not> (Suc i < ?n \<and> group ?z i (j div ratio ?z i) \<subseteq> insert j (?F i))" for bm
  proof -
    have A: "free_numbers (?b\<lparr>m_bitmap := bm\<rparr>) = insert j (?F i)"
      using p(3) by (simp add: free_at_def)
    have c: "cover ?z ?n (?F(i := insert j (?F i))) = free_heap_pages h \<union> block_pages ?z i j"
      using cover_insert [OF i] by (simp add: free_heap_pages_def)
    have "heap_ok (set_bitmap i bm h)" "free_heap_pages (set_bitmap i bm h) = free_heap_pages h \<union> block_pages ?z i j"
      using heap_ok_set [OF Suc.prems(1) i p(2) A exclusive_insert [OF l(2) i dis] coalesced_insert [OF l(3) g]] c l(4) sub
      by (simp_all add: free_heap_pages_def)
    moreover have "FreeBlock a i h = Some (set_bitmap i bm h)"
      unfolding unfold p(1) by (simp add: set_bitmap_def)
    ultimately show ?thesis
      using set_bitmap_views(3) [OF D(2)] by (auto simp: set_bitmap_def)
  qed
  show ?case
  proof (cases "Suc i < ?n")
    case False
    then have "m_next_block_shift ?b = 0"
      using D(3) by simp
    then obtain bm where "PushBlock a ?b = Some (0, ?b\<lparr>m_bitmap := bm\<rparr>)" "block_shape (?b\<lparr>m_bitmap := bm\<rparr>)"
      "free_numbers (?b\<lparr>m_bitmap := bm\<rparr>) = insert j (free_numbers ?b)"
      using PushBlock_last [OF D(1) num(1) Suc.prems(3) jF] by blast
    with plain False show ?thesis
      by blast
  next
    case True
    note R = next_ratio [OF l(1) True]
    let ?g = "j div ratio ?z i"
    let ?G = "group ?z i ?g"
    obtain r bm where p: "PushBlock a ?b = Some (r, ?b\<lparr>m_bitmap := bm\<rparr>)" "block_shape (?b\<lparr>m_bitmap := bm\<rparr>)"
      "if ?G \<subseteq> insert j (?F i)
       then unat r = ?g * bk_size (m_blocks h ! Suc i) \<and> free_numbers (?b\<lparr>m_bitmap := bm\<rparr>) = insert j (?F i) - ?G
       else r = 0 \<and> free_numbers (?b\<lparr>m_bitmap := bm\<rparr>) = insert j (?F i)"
      using PushBlock_next [OF D(1) num(1) Suc.prems(3) jF R(5)] unfolding R(4) R(6) R(3) [symmetric] group_def free_at_def
      by blast
    show ?thesis
    proof (cases "?G \<subseteq> insert j (?F i)")
      case False
      with p plain True show ?thesis
        by (auto simp: free_at_def)
    next
      case full: True
      let ?h = "set_bitmap i bm h" and ?F' = "?F(i := insert j (?F i))" and ?P = "block_pages ?z (Suc i) ?g"
      have A: "unat r = ?g * bk_size (m_blocks h ! Suc i)" "free_numbers (?b\<lparr>m_bitmap := bm\<rparr>) = insert j (?F i) - ?G"
        using p(3) full by simp_all
      have ex': "exclusive ?z ?n ?F'" and cv': "cover ?z ?n ?F' = free_heap_pages h \<union> block_pages ?z i j"
        using exclusive_insert [OF l(2) i dis] cover_insert [OF i] by (simp_all add: free_heap_pages_def)
      have P: "?P = {p. p div ?z i \<in> ?G}"
        using group_block_pages [OF N True] by blast
      have "cover ?z ?n (?F'(i := ?F' i - ?G)) = cover ?z ?n ?F' - ?P"
        unfolding P by (rule cover_remove [OF ex' i]) (use full in simp)
      then have cv: "cover ?z ?n (?F(i := insert j (?F i) - ?G)) = (free_heap_pages h \<union> block_pages ?z i j) - ?P"
        by (simp add: cv')
      have ex: "exclusive ?z ?n (?F(i := insert j (?F i) - ?G))"
        by (rule exclusive_mono [OF ex']) auto
      have co: "coalesced_blocks ?z ?n (?F(i := insert j (?F i) - ?G))"
        by (rule coalesced_insert_group [OF l(3) N True]) simp
      have Pc: "?P \<subseteq> free_heap_pages h \<union> block_pages ?z i j"
        unfolding cv' [symmetric] P using full i by (auto simp: cover_def)
      then have Ph: "?P \<subseteq> heap_pages h"
        using l(4) sub by (auto simp: free_heap_pages_def)
      have h1: "heap_ok ?h" "free_heap_pages ?h = (free_heap_pages h \<union> block_pages ?z i j) - ?P"
        using heap_ok_set [OF Suc.prems(1) i p(2) A(2) ex co] cv l(4) sub by (auto simp: free_heap_pages_def)
      note v = set_bitmap_views [OF D(2), of bm]
      have "\<exists>h'. FreeBlock r (Suc i) ?h = Some h' \<and> heap_ok h' \<and> same_layout ?h h' \<and> ph_rng h' = ph_rng ?h \<and>
          free_heap_pages h' = free_heap_pages ?h \<union> block_pages (zs ?h) (Suc i) ?g"
        by (rule Suc.hyps(1)) (use Suc.hyps(2) True h1 v Ph A(1) in \<open>auto simp: set_bitmap_nth [OF D(2)]\<close>)
      then obtain h' where h': "FreeBlock r (Suc i) ?h = Some h'" "heap_ok h'" "same_layout ?h h'" "ph_rng h' = ph_rng h"
          "free_heap_pages h' = free_heap_pages h \<union> block_pages ?z i j"
        using v(1) h1(2) Pc by (auto simp: set_bitmap_def)
      have "r \<noteq> 0"
        using heap_block_number(3) [OF l(1) True Ph] A(1) by auto
      then have "FreeBlock a i h = Some h'"
        unfolding unfold p(1) using h'(1) by (simp add: set_bitmap_def)
      with h' v(3) show ?thesis
        by (blast intro: same_layout_trans)
    qed
  qed
qed

end
