(* ===== verification/KPageHeapFree.thy ===== *)
theory KPageHeapFree
  imports KPageHeapInvariant
begin

text \<open>
  Freeing a range: the loops of \<^verbatim>\<open>KPageHeap::Free\<close> free the largest blocks of the range and then what is left before and after
  them, exactly the pages of the range.
\<close>

section \<open>Freeing a range\<close>

text \<open>What freeing the pages \<open>A\<close> achieves.\<close>

definition freed :: "nat set \<Rightarrow> KPageHeap \<Rightarrow> KPageHeap \<Rightarrow> bool" where
  "freed A h h' \<longleftrightarrow> heap_ok h' \<and> same_layout h h' \<and> ph_rng h' = ph_rng h \<and> free_heap_pages h' = free_heap_pages h \<union> A"

lemma freed_trans: "freed A h h1 \<Longrightarrow> freed B h1 h2 \<Longrightarrow> freed (A \<union> B) h h2"
  by (auto simp: freed_def intro: same_layout_trans)

lemma freed_none: "heap_ok h \<Longrightarrow> freed {} h h"
  by (simp add: freed_def)

lemma same_layout_sizes:
  assumes "same_layout h h'" "heap_layout h" "i < m_num_blocks h"
  shows "bk_size (m_blocks h' ! i) = bk_size (m_blocks h ! i)" "zs h' i = zs h i"
    "Block_GetSize (m_blocks h' ! i) = Block_GetSize (m_blocks h ! i)"
proof -
  obtain bm where "m_blocks h' ! i = (m_blocks h ! i)\<lparr>m_bitmap := bm\<rparr>"
    using assms heap_layoutD(2) [OF assms(2,3)] by (auto simp: same_layout_def)
  then show "bk_size (m_blocks h' ! i) = bk_size (m_blocks h ! i)" "zs h' i = zs h i"
    "Block_GetSize (m_blocks h' ! i) = Block_GetSize (m_blocks h ! i)"
    by (simp_all add: zs_def Block_GetSize_def)
qed

lemma freed_facts:
  assumes "freed A h h'"
  shows "heap_ok h'" "m_num_blocks h' = m_num_blocks h" "heap_pages h' = heap_pages h"
    "free_heap_pages h' = free_heap_pages h \<union> A" "length (m_blocks h') = length (m_blocks h)" "same_layout h h'"
  using assms by (simp_all add: freed_def same_layout_def heap_pages_def)

lemma block_pages_range:
  assumes "heap_layout h" "i < m_num_blocks h"
  shows "block_pages (zs h) i j = {j * zs h i..<Suc j * zs h i}"
  using nested_pos [OF heap_nested [OF assms(1)] assms(2)]
  by (auto simp: block_pages_def div_nat_eqI dividend_less_times_div mult.commute intro: div_times_less_eq_dividend)

lemma heap_end_bound: "heap_layout h \<Longrightarrow> p \<in> heap_pages h \<Longrightarrow> Suc p * 4096 \<le> 2 ^ 62"
proof -
  assume h: "heap_layout h" "p \<in> heap_pages h"
  then have "Suc p \<le> (unat (ph_heap_address h) + unat (ph_heap_size h)) div 4096"
    by (auto simp: heap_pages_def)
  then have "Suc p * 4096 \<le> (unat (ph_heap_address h) + unat (ph_heap_size h)) div 4096 * 4096"
    by (rule mult_le_mono1)
  also have "\<dots> \<le> unat (ph_heap_address h) + unat (ph_heap_size h)"
    by simp
  finally show ?thesis
    using h(1) by (simp add: heap_layout_def)
qed

lemma block_size_word:
  assumes "heap_layout h" "i < m_num_blocks h"
  shows "unat (Block_GetSize (m_blocks h ! i)) = bk_size (m_blocks h ! i)" "bk_size (m_blocks h ! i) \<le> 2 ^ 30"
proof -
  have b: "block_shape (m_blocks h ! i)"
    using heap_layoutD(1) [OF assms] .
  then show "unat (Block_GetSize (m_blocks h ! i)) = bk_size (m_blocks h ! i)"
    by (rule unat_Block_GetSize)
  show "bk_size (m_blocks h ! i) \<le> 2 ^ 30"
    unfolding bk_size_def by (rule power_increasing) (use b in \<open>auto simp: block_shape_def\<close>)
qed

text \<open>The three inner loops, on the blocks of size \<open>i\<close>.\<close>

lemma free_big_loop_ok:
  assumes "heap_ok h" "i < m_num_blocks h" "j \<le> k" "unat a = j * bk_size (m_blocks h ! i)" "unat e = k * bk_size (m_blocks h ! i)"
    and "{j * zs h i..<k * zs h i} \<subseteq> heap_pages h - free_heap_pages h"
  shows "\<exists>h'. free_big_loop a e (Block_GetSize (m_blocks h ! i)) i h = Some h' \<and> freed {j * zs h i..<k * zs h i} h h'"
  using assms
proof (induction "k - j" arbitrary: h j a)
  case 0
  then show ?case
    by (subst free_big_loop.simps) (simp add: freed_none word_less_nat_alt)
next
  case (Suc n)
  let ?S = "bk_size (m_blocks h ! i)" and ?z = "zs h i" and ?w = "Block_GetSize (m_blocks h ! i)"
  have l: "heap_layout h"
    using Suc.prems(1) by (simp add: heap_ok_def)
  have jk: "Suc j \<le> k"
    using Suc.hyps(2) by simp
  have bp: "block_pages (zs h) i j = {j * ?z..<Suc j * ?z}"
    by (rule block_pages_range [OF l Suc.prems(2)])
  have le: "Suc j * ?z \<le> k * ?z" "Suc j * ?S \<le> k * ?S"
    by (rule mult_le_mono1 [OF jk])+
  then have "block_pages (zs h) i j \<subseteq> heap_pages h - free_heap_pages h"
    unfolding bp using Suc.prems(6) by force
  then obtain h1 where h1: "FreeBlock a i h = Some h1" "freed {j * ?z..<Suc j * ?z} h h1"
    using FreeBlock_ok [OF Suc.prems(1,2,4)] by (auto simp: freed_def bp)
  note f = freed_facts [OF h1(2)] and s = same_layout_sizes [OF freed_facts(6) [OF h1(2)] l Suc.prems(2)]
  have w: "unat (a + ?w) = Suc j * ?S"
  proof -
    have "unat a + unat ?w < 2 ^ LENGTH(64)"
      using Suc.prems(4,5) le(2) block_size_word(1) [OF l Suc.prems(2)] unsigned_less [of e, where 'a = nat] by simp
    then show ?thesis
      using Suc.prems(4) block_size_word(1) [OF l Suc.prems(2)] by (simp add: unat_plus_no_wrap)
  qed
  have "\<exists>h'. free_big_loop (a + ?w) e (Block_GetSize (m_blocks h1 ! i)) i h1 = Some h' \<and>
      freed {Suc j * zs h1 i..<k * zs h1 i} h1 h'"
  proof (rule Suc.hyps(1))
    show "{Suc j * zs h1 i..<k * zs h1 i} \<subseteq> heap_pages h1 - free_heap_pages h1"
      using Suc.prems(6) unfolding s(2) f(3,4) by (auto simp: subset_iff)
  qed (use Suc.hyps(2) jk f s w Suc.prems in \<open>simp_all\<close>)
  then obtain h' where h': "free_big_loop (a + ?w) e ?w i h1 = Some h'" "freed {Suc j * ?z..<k * ?z} h1 h'"
    unfolding s by blast
  have "{j * ?z..<Suc j * ?z} \<union> {Suc j * ?z..<k * ?z} = {j * ?z..<k * ?z}"
    using le(1) by (simp add: ivl_disj_un_two)
  with freed_trans [OF h1(2) h'(2)] have "freed {j * ?z..<k * ?z} h h'"
    by simp
  moreover have "a < e"
    using Suc.prems(4,5) jk by (simp add: word_less_nat_alt)
  ultimately show ?case
    using h1(1) h'(1) by (subst free_big_loop.simps) simp
qed


lemma free_before_loop_ok:
  assumes "heap_ok h" "i < m_num_blocks h" "unat s mod 4096 = 0" "unat s \<le> k * bk_size (m_blocks h ! i)" "unat e = k * bk_size (m_blocks h ! i)"
    and "{unat s div 4096..<k * zs h i} \<subseteq> heap_pages h - free_heap_pages h" "unat e \<le> 2 ^ 62"
  shows "\<exists>k' e' h'. free_before_loop s e (Block_GetSize (m_blocks h ! i)) i h = Some (e', h') \<and>
    k' \<le> k \<and> unat e' = k' * bk_size (m_blocks h ! i) \<and> unat s \<le> unat e' \<and> unat e' < unat s + bk_size (m_blocks h ! i) \<and>
    freed {k' * zs h i..<k * zs h i} h h'"
  using assms
proof (induction k arbitrary: h e)
  case 0
  then have "unat s = 0"
    by simp
  then have "\<not> s + Block_GetSize (m_blocks h ! i) \<le> e"
    using 0 block_size_word(1) [of h i] by (auto simp: word_le_nat_alt unat_eq_0 heap_ok_def)
  with 0 show ?case
    by (subst free_before_loop.simps) (auto simp: freed_none heap_ok_def intro!: exI [of _ 0])
next
  case (Suc k)
  let ?S = "bk_size (m_blocks h ! i)" and ?z = "zs h i" and ?w = "Block_GetSize (m_blocks h ! i)"
  have l: "heap_layout h"
    using Suc.prems(1) by (simp add: heap_ok_def)
  note bw = block_size_word [OF l Suc.prems(2)]
  have sw: "unat (s + ?w) = unat s + ?S"
    using unat_plus_no_wrap [of s ?w] bw Suc.prems(4,5,7) by simp
  show ?case
  proof (cases "s + ?w \<le> e")
    case False
    then have "unat e < unat s + ?S"
      by (simp add: word_le_nat_alt sw)
    with False Suc.prems show ?thesis
      by (subst free_before_loop.simps) (auto simp: freed_none intro!: exI [of _ "Suc k"])
  next
    case True
    then have sk: "unat s \<le> k * ?S"
      using Suc.prems(5) by (simp add: word_le_nat_alt sw)
    have e: "unat (e - ?w) = k * ?S"
      using Suc.prems(5) bw(1) by (simp add: unat_minus_no_wrap)
    have bp: "block_pages (zs h) i k = {k * ?z..<Suc k * ?z}"
      by (rule block_pages_range [OF l Suc.prems(2)])
    have z: "?z * 4096 = ?S"
      by (rule zs_pages [OF l Suc.prems(2)])
    have sz: "unat s div 4096 \<le> k * ?z"
      using sk unfolding z [symmetric] by (metis div_le_mono div_mult_self_is_m mult.assoc zero_less_numeral)
    then have "block_pages (zs h) i k \<subseteq> heap_pages h - free_heap_pages h"
      unfolding bp using Suc.prems(6) by (auto simp: subset_iff)
    then obtain h1 where h1: "FreeBlock (e - ?w) i h = Some h1" "freed {k * ?z..<Suc k * ?z} h h1"
      using FreeBlock_ok [OF Suc.prems(1,2) e] by (auto simp: freed_def bp)
    note f = freed_facts [OF h1(2)] and sl = same_layout_sizes [OF freed_facts(6) [OF h1(2)] l Suc.prems(2)]
    have "\<exists>k' e' h'. free_before_loop s (e - ?w) (Block_GetSize (m_blocks h1 ! i)) i h1 = Some (e', h') \<and>
      k' \<le> k \<and> unat e' = k' * bk_size (m_blocks h1 ! i) \<and> unat s \<le> unat e' \<and> unat e' < unat s + bk_size (m_blocks h1 ! i) \<and>
      freed {k' * zs h1 i..<k * zs h1 i} h1 h'"
    proof (rule Suc.IH)
      show "{unat s div 4096..<k * zs h1 i} \<subseteq> heap_pages h1 - free_heap_pages h1"
        using Suc.prems(6) unfolding sl(2) f(3,4) by (auto simp: subset_iff)
      show "unat (e - ?w) \<le> 2 ^ 62"
        using e Suc.prems(5,7) by simp
    qed (use f sl e sk Suc.prems in \<open>simp_all\<close>)
    then obtain k' e' h' where r: "free_before_loop s (e - ?w) ?w i h1 = Some (e', h')" "k' \<le> k" "unat e' = k' * ?S"
      "unat s \<le> unat e'" "unat e' < unat s + ?S" "freed {k' * ?z..<k * ?z} h1 h'"
      unfolding sl by blast
    have "{k * ?z..<Suc k * ?z} \<union> {k' * ?z..<k * ?z} = {k' * ?z..<Suc k * ?z}"
      using r(2) by (auto intro: order_trans [OF mult_le_mono1])
    with freed_trans [OF h1(2) r(6)] have "freed {k' * ?z..<Suc k * ?z} h h'"
      by simp
    moreover have "free_before_loop s e ?w i h = Some (e', h')"
      using True h1(1) r(1) by (subst free_before_loop.simps) simp
    ultimately show ?thesis
      using r(2-5) le_SucI by blast
  qed
qed


lemma free_after_loop_ok:
  assumes "heap_ok h" "i < m_num_blocks h" "k * bk_size (m_blocks h ! i) \<le> unat e" "unat a = k * bk_size (m_blocks h ! i)"
    and "{k * zs h i..<unat e div 4096} \<subseteq> heap_pages h - free_heap_pages h" "unat e \<le> 2 ^ 62"
  shows "\<exists>k' a' h'. free_after_loop a e (Block_GetSize (m_blocks h ! i)) i h = Some (a', h') \<and>
    k \<le> k' \<and> unat a' = k' * bk_size (m_blocks h ! i) \<and> unat a' \<le> unat e \<and> unat e < unat a' + bk_size (m_blocks h ! i) \<and>
    freed {k * zs h i..<k' * zs h i} h h'"
  using assms
proof (induction "unat e - k * bk_size (m_blocks h ! i)" arbitrary: h k a rule: less_induct)
  case less
  let ?S = "bk_size (m_blocks h ! i)" and ?z = "zs h i" and ?w = "Block_GetSize (m_blocks h ! i)"
  have l: "heap_layout h"
    using less.prems(1) by (simp add: heap_ok_def)
  note bw = block_size_word [OF l less.prems(2)]
  have aw: "unat (a + ?w) = Suc k * ?S"
    using unat_plus_no_wrap [of a ?w] bw less.prems(3,4,6) by simp
  show ?case
  proof (cases "a + ?w \<le> e")
    case False
    then have "unat e < unat a + ?S"
      using less.prems(4) by (simp add: word_le_nat_alt aw)
    with False less.prems show ?thesis
      by (subst free_after_loop.simps) (auto simp: freed_none intro!: exI [of _ k])
  next
    case True
    then have sk: "Suc k * ?S \<le> unat e"
      by (simp only: word_le_nat_alt aw)
    have bp: "block_pages (zs h) i k = {k * ?z..<Suc k * ?z}"
      by (rule block_pages_range [OF l less.prems(2)])
    have z: "?z * 4096 = ?S"
      by (rule zs_pages [OF l less.prems(2)])
    have sz: "Suc k * ?z \<le> unat e div 4096"
      using sk unfolding z [symmetric] by (metis div_le_mono div_mult_self_is_m mult.assoc zero_less_numeral)
    then have "block_pages (zs h) i k \<subseteq> heap_pages h - free_heap_pages h"
      unfolding bp using less.prems(5) by (auto simp: subset_iff)
    then obtain h1 where h1: "FreeBlock a i h = Some h1" "freed {k * ?z..<Suc k * ?z} h h1"
      using FreeBlock_ok [OF less.prems(1,2,4)] by (auto simp: freed_def bp)
    note f = freed_facts [OF h1(2)] and sl = same_layout_sizes [OF freed_facts(6) [OF h1(2)] l less.prems(2)]
    have "\<exists>k' a' h'. free_after_loop (a + ?w) e (Block_GetSize (m_blocks h1 ! i)) i h1 = Some (a', h') \<and>
      Suc k \<le> k' \<and> unat a' = k' * bk_size (m_blocks h1 ! i) \<and> unat a' \<le> unat e \<and> unat e < unat a' + bk_size (m_blocks h1 ! i) \<and>
      freed {Suc k * zs h1 i..<k' * zs h1 i} h1 h'"
    proof (rule less.hyps)
      show "unat e - Suc k * bk_size (m_blocks h1 ! i) < unat e - k * ?S"
        unfolding sl(1) using sk bk_size_pos(1) [of "m_blocks h ! i"] by (simp del: bk_size_pos)
      show "{Suc k * zs h1 i..<unat e div 4096} \<subseteq> heap_pages h1 - free_heap_pages h1"
        using less.prems(5) unfolding sl(2) f(3,4) by (auto simp: subset_iff)
    qed (use f sl aw sk less.prems in \<open>simp_all\<close>)
    then obtain k' a' h' where r: "free_after_loop (a + ?w) e ?w i h1 = Some (a', h')" "Suc k \<le> k'" "unat a' = k' * ?S"
      "unat a' \<le> unat e" "unat e < unat a' + ?S" "freed {Suc k * ?z..<k' * ?z} h1 h'"
      unfolding sl by blast
    have "Suc k * ?z \<le> k' * ?z"
      by (rule mult_le_mono1 [OF r(2)])
    then have "{k * ?z..<Suc k * ?z} \<union> {Suc k * ?z..<k' * ?z} = {k * ?z..<k' * ?z}"
      by (simp add: ivl_disj_un_two)
    with freed_trans [OF h1(2) r(6)] have "freed {k * ?z..<k' * ?z} h h'"
      by simp
    moreover have "free_after_loop a e ?w i h = Some (a', h')"
      using True h1(1) r(1) by (subst free_after_loop.simps) simp
    ultimately show ?thesis
      using r(2-5) Suc_leD by blast
  qed
qed

text \<open>All smaller sizes in turn: the last size has one page, so nothing is left.\<close>

lemma less_than_block:
  assumes "a mod 4096 = (0::nat)" "b mod 4096 = 0" "a \<le> b" "b < a + 4096"
  shows "a = b"
proof -
  obtain x y where "a = 4096 * x" "b = 4096 * y"
    using assms(1,2) by (metis dvdE mod_0_imp_dvd)
  with assms(3,4) show ?thesis
    by simp
qed

lemma size_0: "heap_layout h \<Longrightarrow> bk_size (m_blocks h ! 0) = 4096"
  by (simp add: heap_layout_def bk_size_def)

lemma page_multiple:
  assumes "heap_layout h" "i < m_num_blocks h"
  shows "(k * bk_size (m_blocks h ! i)) mod 4096 = 0" "k * bk_size (m_blocks h ! i) div 4096 = k * zs h i"
proof -
  have "k * bk_size (m_blocks h ! i) = k * zs h i * 4096"
    by (simp flip: zs_pages [OF assms])
  then show "(k * bk_size (m_blocks h ! i)) mod 4096 = 0" "k * bk_size (m_blocks h ! i) div 4096 = k * zs h i"
    by (simp_all only: mod_mult_self2_is_0 div_mult_self_is_m zero_less_numeral)
qed

lemma next_multiple:
  assumes "heap_layout h" "Suc i < m_num_blocks h"
  shows "\<exists>k'. k * bk_size (m_blocks h ! Suc i) = k' * bk_size (m_blocks h ! i)"
  using next_ratio(1) [OF assms] by (metis mult.assoc mult.commute)

text \<open>The pages of a shorter range that were not freed in between are still to be freed.\<close>

lemma free_subset:
  assumes "{a..<b} \<subseteq> H - F" "a \<le> a'" "(b' :: nat) \<le> b" "{a'..<b'} \<inter> X = {}"
  shows "{a'..<b'} \<subseteq> H - (F \<union> X)"
  using assms ivl_subset [of a' b' a b] by blast

lemma free_before_ok:
  assumes "heap_ok h" "i < m_num_blocks h" "unat s mod 4096 = 0" "unat s \<le> unat e"
    "unat e = k * bk_size (m_blocks h ! i)" "unat e < unat s + bk_size (m_blocks h ! i)" "unat e \<le> 2 ^ 62"
    and "{unat s div 4096..<unat e div 4096} \<subseteq> heap_pages h - free_heap_pages h"
  shows "\<exists>h'. free_before i s e h = Some h' \<and> freed {unat s div 4096..<unat e div 4096} h h'"
  using assms
proof (induction i arbitrary: h e k)
  case 0
  then have "unat s = unat e"
    using size_0 [of h] by - (rule less_than_block, simp_all add: heap_ok_def)
  with 0 show ?case
    by (simp add: freed_none)
next
  case (Suc i)
  have l: "heap_layout h" "i < m_num_blocks h"
    using Suc.prems(1,2) by (simp_all add: heap_ok_def)
  obtain m where m: "unat e = m * bk_size (m_blocks h ! i)"
    using next_multiple [OF l(1) Suc.prems(2)] Suc.prems(5) by metis
  have em: "unat e div 4096 = m * zs h i"
    unfolding m by (rule page_multiple [OF l])
  obtain k' e' h1 where r: "free_before_loop s e (Block_GetSize (m_blocks h ! i)) i h = Some (e', h1)"
    "k' \<le> m" "unat e' = k' * bk_size (m_blocks h ! i)" "unat s \<le> unat e'" "unat e' < unat s + bk_size (m_blocks h ! i)"
    "freed {k' * zs h i..<m * zs h i} h h1"
    using free_before_loop_ok [OF Suc.prems(1) l(2) Suc.prems(3), of m e] Suc.prems(4,7,8) m em by auto
  note f = freed_facts [OF r(6)] and sl = same_layout_sizes [OF freed_facts(6) [OF r(6)] l]
  have e': "unat e' div 4096 = k' * zs h i"
    unfolding r(3) by (rule page_multiple [OF l])
  have le: "k' * zs h i \<le> m * zs h i" "unat e' \<le> unat e"
    unfolding r(3) m by (rule mult_le_mono1 [OF r(2)])+
  have "\<exists>h'. free_before i s e' h1 = Some h' \<and> freed {unat s div 4096..<unat e' div 4096} h1 h'"
  proof (rule Suc.IH [where k = k'])
    show "{unat s div 4096..<unat e' div 4096} \<subseteq> heap_pages h1 - free_heap_pages h1"
      unfolding f(3,4) e' by (rule free_subset [OF Suc.prems(8) [unfolded em] order.refl le(1)]) auto
  qed (use f sl r Suc.prems l le in \<open>simp_all\<close>)
  then obtain h' where h': "free_before i s e' h1 = Some h'" "freed {unat s div 4096..<k' * zs h i} h1 h'"
    unfolding e' by blast
  have "unat s div 4096 \<le> k' * zs h i"
    using r(4) div_le_mono [of "unat s" "unat e'" 4096] by (simp add: e')
  then have "{k' * zs h i..<m * zs h i} \<union> {unat s div 4096..<k' * zs h i} = {unat s div 4096..<unat e div 4096}"
    unfolding em using ivl_disj_un_two(3) [OF _ le(1), of "unat s div 4096"] by (simp add: Un_commute)
  with freed_trans [OF r(6) h'(2)] have "freed {unat s div 4096..<unat e div 4096} h h'"
    by simp
  moreover have "free_before (Suc i) s e h = Some h'"
    using heap_layoutD(2) [OF l] r(1) h'(1) by simp
  ultimately show ?case
    by blast
qed

lemma free_after_ok:
  assumes "heap_ok h" "i < m_num_blocks h" "unat e mod 4096 = 0" "unat a \<le> unat e"
    "unat a = k * bk_size (m_blocks h ! i)" "unat e < unat a + bk_size (m_blocks h ! i)" "unat e \<le> 2 ^ 62"
    and "{unat a div 4096..<unat e div 4096} \<subseteq> heap_pages h - free_heap_pages h"
  shows "\<exists>h'. free_after i a e h = Some h' \<and> freed {unat a div 4096..<unat e div 4096} h h'"
  using assms
proof (induction i arbitrary: h a k)
  case 0
  then have "unat a = unat e"
    using size_0 [of h] by - (rule less_than_block, simp_all add: heap_ok_def)
  with 0 show ?case
    by (simp add: freed_none)
next
  case (Suc i)
  have l: "heap_layout h" "i < m_num_blocks h"
    using Suc.prems(1,2) by (simp_all add: heap_ok_def)
  obtain m where m: "unat a = m * bk_size (m_blocks h ! i)"
    using next_multiple [OF l(1) Suc.prems(2)] Suc.prems(5) by metis
  have am: "unat a div 4096 = m * zs h i"
    unfolding m by (rule page_multiple [OF l])
  obtain k' a' h1 where r: "free_after_loop a e (Block_GetSize (m_blocks h ! i)) i h = Some (a', h1)"
    "m \<le> k'" "unat a' = k' * bk_size (m_blocks h ! i)" "unat a' \<le> unat e" "unat e < unat a' + bk_size (m_blocks h ! i)"
    "freed {m * zs h i..<k' * zs h i} h h1"
    using free_after_loop_ok [OF Suc.prems(1) l(2), of m e a] Suc.prems(4,7,8) m am by auto
  note f = freed_facts [OF r(6)] and sl = same_layout_sizes [OF freed_facts(6) [OF r(6)] l]
  have a': "unat a' div 4096 = k' * zs h i"
    unfolding r(3) by (rule page_multiple [OF l])
  have le: "m * zs h i \<le> k' * zs h i"
    by (rule mult_le_mono1 [OF r(2)])
  have "\<exists>h'. free_after i a' e h1 = Some h' \<and> freed {unat a' div 4096..<unat e div 4096} h1 h'"
  proof (rule Suc.IH [where k = k'])
    show "{unat a' div 4096..<unat e div 4096} \<subseteq> heap_pages h1 - free_heap_pages h1"
      unfolding f(3,4) a' by (rule free_subset [OF Suc.prems(8) [unfolded am] le order.refl]) auto
  qed (use f sl r Suc.prems l in \<open>simp_all\<close>)
  then obtain h' where h': "free_after i a' e h1 = Some h'" "freed {k' * zs h i..<unat e div 4096} h1 h'"
    unfolding a' by blast
  have "k' * zs h i \<le> unat e div 4096"
    using r(4) div_le_mono [of "unat a'" "unat e" 4096] by (simp add: a')
  then have "{m * zs h i..<k' * zs h i} \<union> {k' * zs h i..<unat e div 4096} = {unat a div 4096..<unat e div 4096}"
    unfolding am using ivl_disj_un_two(3) [OF le, of "unat e div 4096"] by simp
  with freed_trans [OF r(6) h'(2)] have "freed {unat a div 4096..<unat e div 4096} h h'"
    by simp
  moreover have "free_after (Suc i) a e h = Some h'"
    using heap_layoutD(2) [OF l] r(1) h'(1) by simp
  ultimately show ?case
    by blast
qed


text \<open>The largest size with a whole block in the range; a single page is one.\<close>

lemma unat_AlignUp_bounds:
  assumes "0 < unat sz" "unat v + unat sz \<le> 2 ^ 64"
  shows "unat (AlignUp v sz) mod unat sz = 0" "unat v \<le> unat (AlignUp v sz)" "unat (AlignUp v sz) < unat v + unat sz"
proof -
  have m: "unat (v mod sz) = unat v mod unat sz" "unat (v - v mod sz) = unat v - unat v mod unat sz"
    by (simp_all add: unat_mod_distrib unat_sub word_le_nat_alt)
  have lt: "unat v mod unat sz < unat sz" "unat v mod unat sz \<le> unat v"
    using assms(1) by simp_all
  have d: "(unat v - unat v mod unat sz) mod unat sz = 0"
    by (metis minus_mod_eq_mult_div mod_mult_self1_is_0)
  have "unat (AlignUp v sz) = (if unat v mod unat sz = 0 then unat v else unat v - unat v mod unat sz + unat sz)"
  proof (cases "unat v mod unat sz = 0")
    case True
    then have "v mod sz = 0"
      using m(1) by (simp add: unat_eq_0)
    with True show ?thesis
      by (simp add: AlignUp_def)
  next
    case False
    then have "v mod sz \<noteq> 0"
      using m(1) by (metis unat_0)
    moreover have "unat (v - v mod sz) + unat sz < 2 ^ LENGTH(64)"
      using False lt(2) assms(2) by (simp add: m(2))
    ultimately show ?thesis
      using False by (simp add: AlignUp_def Let_def unat_plus_no_wrap m(2))
  qed
  moreover have "(unat v - unat v mod unat sz + unat sz) mod unat sz = 0"
    using d by (simp only: mod_add_self2)
  ultimately show "unat (AlignUp v sz) mod unat sz = 0" "unat v \<le> unat (AlignUp v sz)" "unat (AlignUp v sz) < unat v + unat sz"
    using lt assms(1) by (simp_all only: split: if_splits) linarith+
qed

lemma find_big_blocks_ok:
  assumes "heap_layout h" "0 < i" "i \<le> m_num_blocks h" "unat s mod 4096 = 0" "unat e mod 4096 = 0" "unat s < unat e" "unat e \<le> 2 ^ 62"
  shows "\<exists>b bs be j k. find_big_blocks i s e h = Some (b, bs, be) \<and> b < i \<and> j < k \<and>
    unat bs = j * bk_size (m_blocks h ! b) \<and> unat be = k * bk_size (m_blocks h ! b) \<and>
    unat s \<le> unat bs \<and> unat bs < unat s + bk_size (m_blocks h ! b) \<and> unat be \<le> unat e \<and> unat e < unat be + bk_size (m_blocks h ! b)"
  using assms(2,3)
proof (induction i)
  case (Suc i)
  let ?w = "Block_GetSize (m_blocks h ! i)" and ?S = "bk_size (m_blocks h ! i)"
  have i: "i < m_num_blocks h"
    using Suc.prems by simp
  note bw = block_size_word [OF assms(1) i]
  have up: "unat (AlignUp s ?w) mod ?S = 0" "unat s \<le> unat (AlignUp s ?w)" "unat (AlignUp s ?w) < unat s + ?S"
    using unat_AlignUp_bounds [of ?w s] bw assms(6,7) by simp_all
  have dn: "unat (AlignDown e ?w) = unat e - unat e mod ?S"
    by (simp add: unat_AlignDown bw(1))
  then have dn': "unat (AlignDown e ?w) mod ?S = 0" "unat (AlignDown e ?w) \<le> unat e" "unat e < unat (AlignDown e ?w) + ?S"
    using dividend_less_div_times [OF bk_size_pos(1), of "unat e" "m_blocks h ! i"]
    by (simp_all add: minus_mod_eq_div_mult add.commute)
  obtain j k where jk: "unat (AlignUp s ?w) = j * ?S" "unat (AlignDown e ?w) = k * ?S"
    using up(1) dn'(1) by (metis dvdE mod_0_imp_dvd mult.commute)
  have fb: "find_big_blocks (Suc i) s e h = (if AlignUp s ?w < AlignDown e ?w then Some (i, AlignUp s ?w, AlignDown e ?w)
      else find_big_blocks i s e h)"
    using heap_layoutD(2) [OF assms(1) i] by (simp add: Let_def)
  show ?case
  proof (cases "AlignUp s ?w < AlignDown e ?w")
    case True
    then have "j < k"
      by (simp add: word_less_nat_alt jk)
    with True fb up dn' jk show ?thesis
      by (intro exI [of _ i] exI [of _ "AlignUp s ?w"] exI [of _ "AlignDown e ?w"] exI [of _ j] exI [of _ k]) simp
  next
    case False
    have "i \<noteq> 0"
    proof
      assume 0: "i = 0"
      then have S: "?S = 4096"
        using size_0 [OF assms(1)] by simp
      have "unat (AlignUp s ?w) = unat s"
        using less_than_block [of "unat s" "unat (AlignUp s ?w)"] up assms(4) by (simp add: S)
      moreover have "unat (AlignDown e ?w) = unat e"
        using dn assms(5) by (simp add: S)
      ultimately show False
        using False assms(6) by (simp add: word_less_nat_alt)
    qed
    with Suc False fb show ?thesis
      by (auto intro: less_SucI)
  qed
qed simp


section \<open>Free\<close>

definition page_range :: "u64 \<Rightarrow> u64 \<Rightarrow> nat set" where
  "page_range addr num_pages = {unat addr div 4096..<unat addr div 4096 + unat num_pages}"

lemma page_range_end:
  assumes "heap_layout h" "unat addr mod 4096 = 0" "num_pages \<noteq> 0" "page_range addr num_pages \<subseteq> heap_pages h"
  shows "unat (addr + num_pages * PageSize) = unat addr + unat num_pages * 4096"
    "unat addr + unat num_pages * 4096 \<le> 2 ^ 62"
    "page_range addr num_pages = {unat addr div 4096..<unat (addr + num_pages * PageSize) div 4096}"
proof -
  have n: "0 < unat num_pages"
    using assms(3) by (simp add: unat_gt_0)
  then have "unat addr div 4096 + (unat num_pages - 1) \<in> heap_pages h"
    using assms(4) by (auto simp: page_range_def)
  from heap_end_bound [OF assms(1) this] n have "(unat addr div 4096 + unat num_pages) * 4096 \<le> 2 ^ 62"
    by simp
  moreover have a: "unat addr div 4096 * 4096 = unat addr"
    using assms(2) by auto
  ultimately show b: "unat addr + unat num_pages * 4096 \<le> 2 ^ 62"
    by (simp add: add_mult_distrib)
  then have m: "unat (num_pages * PageSize) = unat num_pages * 4096"
    by (subst unat_mult_no_wrap) (simp_all add: PageSize_def)
  then show e: "unat (addr + num_pages * PageSize) = unat addr + unat num_pages * 4096"
    using b by (subst unat_plus_no_wrap) simp_all
  show "page_range addr num_pages = {unat addr div 4096..<unat (addr + num_pages * PageSize) div 4096}"
    unfolding e page_range_def using assms(2) by (simp add: add.commute)
qed

lemma KPageHeap_Free_ok:
  assumes "heap_ok h" "unat addr mod 4096 = 0" "page_range addr num_pages \<subseteq> heap_pages h - free_heap_pages h"
  shows "\<exists>h'. KPageHeap_Free addr num_pages h = Some h' \<and> freed (page_range addr num_pages) h h'"
proof (cases "num_pages = 0")
  case True
  then show ?thesis
    using assms(1) by (simp add: KPageHeap_Free_def page_range_def freed_none)
next
  case False
  let ?e = "addr + num_pages * PageSize" and ?p = "\<lambda>a. unat a div 4096 :: nat"
  have l: "heap_layout h"
    using assms(1) by (simp add: heap_ok_def)
  have sub: "page_range addr num_pages \<subseteq> heap_pages h"
    using assms(3) by blast
  note e = page_range_end [OF l assms(2) False sub]
  have "0 < m_num_blocks h" "unat ?e mod 4096 = 0" "unat addr < unat ?e" "unat ?e \<le> 2 ^ 62"
    using l e(1,2) False assms(2) by (simp_all add: heap_layout_def unat_gt_0)
  then obtain b bs be j k where f: "find_big_blocks (m_num_blocks h) addr ?e h = Some (b, bs, be)" "b < m_num_blocks h" "j < k"
    "unat bs = j * bk_size (m_blocks h ! b)" "unat be = k * bk_size (m_blocks h ! b)"
    "unat addr \<le> unat bs" "unat bs < unat addr + bk_size (m_blocks h ! b)" "unat be \<le> unat ?e" "unat ?e < unat be + bk_size (m_blocks h ! b)"
    using find_big_blocks_ok [OF l, of "m_num_blocks h" addr ?e] assms(2) by auto
  have pg: "?p bs = j * zs h b" "?p be = k * zs h b"
    unfolding f(4,5) by (rule page_multiple [OF l f(2)])+
  have ord: "?p addr \<le> ?p bs" "?p bs \<le> ?p be" "?p be \<le> ?p ?e"
    using f(6,8) mult_le_mono1 [OF less_imp_le [OF f(3)], of "bk_size (m_blocks h ! b)"] f(4,5) by (simp_all add: div_le_mono)
  note todo = assms(3) [unfolded e(3)]
  have "{j * zs h b..<k * zs h b} \<subseteq> heap_pages h - free_heap_pages h"
    using free_subset [OF todo ord(1,3), of "{}"] by (simp add: pg)
  then obtain h1 where h1: "free_big_loop bs be (Block_GetSize (m_blocks h ! b)) b h = Some h1" "freed {?p bs..<?p be} h h1"
    using free_big_loop_ok [OF assms(1) f(2) less_imp_le [OF f(3)] f(4,5)] pg by auto
  note f1 = freed_facts [OF h1(2)] and s1 = same_layout_sizes [OF freed_facts(6) [OF h1(2)] l f(2)]
  have "{?p addr..<?p bs} \<subseteq> heap_pages h1 - free_heap_pages h1"
    unfolding f1(3,4) by (rule free_subset [OF todo]) (use ord in auto)
  moreover have "unat bs \<le> 2 ^ 62"
    using f(4,5,8) mult_le_mono1 [OF less_imp_le [OF f(3)], of "bk_size (m_blocks h ! b)"] e(1,2) by linarith
  ultimately obtain h2 where h2: "free_before b addr bs h1 = Some h2" "freed {?p addr..<?p bs} h1 h2"
    using free_before_ok [OF f1(1), of b addr bs j] f(2,4,6,7) f1(2) s1(1) assms(2) by auto
  note f2 = freed_facts [OF freed_trans [OF h1(2) h2(2)]]
    and s2 = same_layout_sizes [OF freed_facts(6) [OF freed_trans [OF h1(2) h2(2)]] l f(2)]
  have "{?p be..<?p ?e} \<subseteq> heap_pages h2 - free_heap_pages h2"
    unfolding f2(3,4) by (rule free_subset [OF todo]) (use ord in auto)
  then obtain h3 where h3: "free_after b be ?e h2 = Some h3" "freed {?p be..<?p ?e} h2 h3"
    using free_after_ok [OF f2(1), of b ?e be k] f(2,5,8,9) f2(2) s2(1) \<open>unat ?e mod 4096 = 0\<close> \<open>unat ?e \<le> 2 ^ 62\<close> by auto
  have "{?p bs..<?p be} \<union> {?p addr..<?p bs} \<union> {?p be..<?p ?e} = page_range addr num_pages"
    unfolding e(3) using ord by auto
  with freed_trans [OF freed_trans [OF h1(2) h2(2)] h3(2)] have "freed (page_range addr num_pages) h h3"
    by simp
  moreover have "KPageHeap_Free addr num_pages h = Some h3"
    using False f(1) heap_layoutD(2) [OF l f(2)] h1(1) h2(1) h3(1) by (simp add: KPageHeap_Free_def Let_def)
  ultimately show ?thesis
    by blast
qed

end
