(* ===== verification/KPageHeapAllocate.thy ===== *)
theory KPageHeapAllocate
  imports KPageHeapFree
begin

text \<open>
  Allocation: a search pops a free block of the first size that has one, gives back what is left of the block and
  returns an address whose pages were free; it fails only if no block of the wanted size is free.
\<close>

section \<open>Popping a block\<close>

lemma PopBlock_none: "block_shape b \<Longrightarrow> free_numbers b = {} \<Longrightarrow> PopBlock random b = Some (0, b)"
  by (simp add: PopBlock_def block_shape_def free_numbers_def page_bitmap.find_none)

lemma PopBlock_some:
  assumes "block_shape b" "free_numbers b \<noteq> {}" "\<forall>j \<in> free_numbers b. in_blocks b j"
  shows "\<exists>j a bm. PopBlock random b = Some (a, b\<lparr>m_bitmap := bm\<rparr>) \<and> unat a = j * bk_size b \<and> j \<in> free_numbers b \<and>
    block_shape (b\<lparr>m_bitmap := bm\<rparr>) \<and> free_numbers (b\<lparr>m_bitmap := bm\<rparr>) = free_numbers b - {j}"
proof -
  have "bitmap_ok (m_bitmap b)" "free_blocks (m_bitmap b) \<noteq> {}"
    using assms by (simp_all add: block_shape_def free_numbers_def)
  from page_bitmap.pop_ok [OF this, of random] obtain k b1 b2 where
    p: "FindFreeBlock random (m_bitmap b) = Some (int k, b1)" "ClearBit k b1 = Some b2" "bitmap_ok b2"
      "k \<in> free_blocks (m_bitmap b)" "free_blocks b2 = free_blocks (m_bitmap b) - {k}" "capacity b2 = capacity (m_bitmap b)"
    by blast
  let ?j = "first_block b + k" and ?S = "bk_size b"
  have j: "?j \<in> free_numbers b"
    using p(4) by (simp add: free_numbers_def)
  then have k: "k < unat (m_end_offset b)"
    using assms(3) by (auto simp: in_blocks_def)
  have e: "unat (bk_heap_address b) + unat (m_end_offset b) * ?S \<le> 2 ^ 63" "m_block_shift b < 64"
    using assms(1) by (simp_all add: block_shape_def)
  have kS: "k * ?S \<le> unat (m_end_offset b) * ?S"
    by (rule mult_le_mono1) (use k in simp)
  have uk: "unat (of_nat k :: u64) = k"
    using k unsigned_less [of "m_end_offset b", where 'a = nat] by (simp add: unat_of_nat)
  have "unat (push_bit (m_block_shift b) (of_nat k :: u64)) = k * ?S"
  proof -
    have "k * ?S \<le> 2 ^ 63"
      using kS e(1) by linarith
    then have "unat (of_nat k :: u64) * 2 ^ m_block_shift b < 2 ^ 64"
      unfolding uk bk_size_def by (rule le_less_trans) simp
    from unat_push_bit_no_wrap [OF e(2) this] show ?thesis
      unfolding uk bk_size_def .
  qed
  moreover from this have "unat (bk_heap_address b) + unat (push_bit (m_block_shift b) (of_nat k) :: u64) < 2 ^ 64"
    using le_less_trans [OF order_trans [OF add_left_mono [OF kS] e(1)], of "2 ^ 64"] by simp
  ultimately have "unat (bk_heap_address b + push_bit (m_block_shift b) (of_nat k)) = unat (bk_heap_address b) + k * ?S"
    using unat_plus_no_wrap [of "bk_heap_address b" "push_bit (m_block_shift b) (of_nat k)"] by (simp only: len64_eq)
  then have "unat (bk_heap_address b + push_bit (m_block_shift b) (of_nat k)) = ?j * ?S"
    by (simp add: add_mult_distrib first_block_address [OF assms(1)])
  moreover have "free_numbers (b\<lparr>m_bitmap := b2\<rparr>) = free_numbers b - {?j}"
    by (auto simp: free_numbers_update p(5) free_numbers_def)
  moreover have "PopBlock random b = Some (bk_heap_address b + push_bit (m_block_shift b) (of_nat k), b\<lparr>m_bitmap := b2\<rparr>)"
    using p(1,2) by (simp add: PopBlock_def)
  ultimately show ?thesis
    using j block_shape_update [OF assms(1) p(3,6)] by blast
qed

text \<open>What taking the free pages \<open>A\<close> achieves; the random generators may advance.\<close>

definition pages_taken :: "nat set \<Rightarrow> KPageHeap \<Rightarrow> KPageHeap \<Rightarrow> bool" where
  "pages_taken A h h' \<longleftrightarrow> heap_ok h' \<and> same_layout h h' \<and> A \<subseteq> free_heap_pages h \<and> free_heap_pages h' = free_heap_pages h - A"

lemma taken_freed:
  assumes "pages_taken A h h1" "freed B h1 h2" "B \<subseteq> A"
  shows "pages_taken (A - B) h h2"
  using assms by (auto simp: pages_taken_def freed_def intro: same_layout_trans)

lemma free_block_pages:
  assumes "heap_ok h" "i < m_num_blocks h" "j \<in> free_at h i"
  shows "block_pages (zs h) i j \<subseteq> free_heap_pages h" "block_pages (zs h) i j \<subseteq> heap_pages h"
proof -
  show "block_pages (zs h) i j \<subseteq> free_heap_pages h"
    using assms(2,3) by (auto simp: block_pages_def free_heap_pages_def cover_def)
  then show "block_pages (zs h) i j \<subseteq> heap_pages h"
    using assms(1) by (auto simp: heap_ok_def)
qed

lemma pop_heap_block:
  assumes "heap_ok h" "i < m_num_blocks h" "free_at h i \<noteq> {}"
  shows "\<exists>j a bm. PopBlock random (m_blocks h ! i) = Some (a, (m_blocks h ! i)\<lparr>m_bitmap := bm\<rparr>) \<and>
    unat a = j * bk_size (m_blocks h ! i) \<and> a \<noteq> 0 \<and> unat a + bk_size (m_blocks h ! i) \<le> 2 ^ 62 \<and>
    pages_taken {unat a div 4096..<unat a div 4096 + zs h i} h (set_bitmap i bm h)"
proof -
  let ?b = "m_blocks h ! i"
  have l: "heap_layout h" "exclusive (zs h) (m_num_blocks h) (free_at h)" "coalesced_blocks (zs h) (m_num_blocks h) (free_at h)"
    using assms(1) by (simp_all add: heap_ok_def)
  note D = heap_layoutD [OF l(1) assms(2)]
  have "\<forall>j \<in> free_numbers ?b. in_blocks ?b j"
    using heap_block_number(1) [OF l(1) assms(2)] free_block_pages(2) [OF assms(1,2)] by (simp add: free_at_def)
  then obtain j a bm where p: "PopBlock random ?b = Some (a, ?b\<lparr>m_bitmap := bm\<rparr>)" "unat a = j * bk_size ?b"
    "j \<in> free_at h i" "block_shape (?b\<lparr>m_bitmap := bm\<rparr>)" "free_numbers (?b\<lparr>m_bitmap := bm\<rparr>) = free_at h i - {j}"
    using PopBlock_some [OF D(1), of random] assms(3) by (auto simp: free_at_def)
  have cv: "cover (zs h) (m_num_blocks h) ((free_at h)(i := free_at h i - {j})) = free_heap_pages h - block_pages (zs h) i j"
    using cover_remove [OF l(2) assms(2), of "{j}"] p(3) by (simp add: free_heap_pages_def block_pages_def)
  have "exclusive (zs h) (m_num_blocks h) ((free_at h)(i := free_at h i - {j}))"
    by (rule exclusive_mono [OF l(2)]) auto
  moreover have "coalesced_blocks (zs h) (m_num_blocks h) ((free_at h)(i := free_at h i - {j}))"
    by (rule coalesced_mono [OF l(3)]) auto
  moreover have "free_heap_pages h - block_pages (zs h) i j \<subseteq> heap_pages h"
    using assms(1) by (auto simp: heap_ok_def)
  ultimately have "heap_ok (set_bitmap i bm h)" "free_heap_pages (set_bitmap i bm h) = free_heap_pages h - block_pages (zs h) i j"
    using heap_ok_set [OF assms(1,2) p(4,5)] unfolding cv by blast+
  then have "pages_taken (block_pages (zs h) i j) h (set_bitmap i bm h)"
    using free_block_pages(1) [OF assms(1,2) p(3)] set_bitmap_views(3) [OF D(2)] by (simp add: pages_taken_def)
  moreover have "block_pages (zs h) i j = {unat a div 4096..<unat a div 4096 + zs h i}"
    unfolding block_pages_range [OF l(1) assms(2)] p(2) page_multiple(2) [OF l(1) assms(2)] by (simp add: add.commute)
  moreover have "a \<noteq> 0" "unat a + bk_size ?b \<le> 2 ^ 62"
    using heap_block_number(2,3) [OF l(1) assms(2) free_block_pages(2) [OF assms(1,2) p(3)]] p(2) by (auto simp: add.commute)
  ultimately show ?thesis
    using p(1,2) by auto
qed


text \<open>A part of the pages that were taken is given back.\<close>

lemma give_back:
  assumes "heap_ok h" "pages_taken A h h1" "unat b mod 4096 = 0" "page_range b m \<subseteq> A"
  shows "\<exists>h2. KPageHeap_Free b m h1 = Some h2 \<and> pages_taken (A - page_range b m) h h2"
proof -
  have "heap_ok h1" "heap_pages h1 = heap_pages h" "A \<subseteq> free_heap_pages h" "free_heap_pages h1 = free_heap_pages h - A"
    "free_heap_pages h \<subseteq> heap_pages h"
    using assms(1,2) by (simp_all add: pages_taken_def same_layout_def heap_pages_def heap_ok_def [of h])
  then have "A \<subseteq> heap_pages h1 - free_heap_pages h1" "heap_ok h1"
    by auto
  then obtain h2 where "KPageHeap_Free b m h1 = Some h2" "freed (page_range b m) h1 h2"
    using KPageHeap_Free_ok [of h1 b m] assms(3,4) by blast
  with taken_freed [OF assms(2) _ assms(4)] show ?thesis
    by blast
qed

section \<open>Linear search\<close>

lemma zs_mono:
  assumes "heap_layout h" "i \<le> k" "k < m_num_blocks h"
  shows "zs h i \<le> zs h k" "bk_size (m_blocks h ! i) dvd bk_size (m_blocks h ! k)"
proof -
  have "zs h i \<le> zs h k \<and> bk_size (m_blocks h ! i) dvd bk_size (m_blocks h ! k)"
    using assms(2,3)
  proof (induction k)
    case (Suc k)
    show ?case
    proof (cases "i = Suc k")
      case False
      with Suc have IH: "zs h i \<le> zs h k" "bk_size (m_blocks h ! i) dvd bk_size (m_blocks h ! k)"
        by simp_all
      note r = next_ratio [OF assms(1) Suc.prems(2)]
      have "zs h (Suc k) = zs h k * ratio (zs h) k" "1 < ratio (zs h) k"
        using heap_nested [OF assms(1)] Suc.prems(2) by (simp_all add: nested_def)
      then have "zs h k \<le> zs h (Suc k)"
        by simp
      with IH r(1) show ?thesis
        by auto
    qed simp
  qed simp
  then show "zs h i \<le> zs h k" "bk_size (m_blocks h ! i) dvd bk_size (m_blocks h ! k)"
    by simp_all
qed

lemma linear_search_none:
  assumes "heap_ok h" "i + n = m_num_blocks h" "\<forall>k \<ge> i. k < m_num_blocks h \<longrightarrow> free_at h k = {}"
  shows "linear_search_loop n i needed h = Some (0, h)"
  using assms(2,3)
proof (induction n arbitrary: i)
  case (Suc n)
  have i: "i < m_num_blocks h"
    using Suc.prems(1) by simp
  note D = heap_layoutD [OF _ i]
  have "PopBlock False (m_blocks h ! i) = Some (0, m_blocks h ! i)"
    by (rule PopBlock_none) (use assms(1) D(1) Suc.prems(2) i in \<open>auto simp: heap_ok_def free_at_def\<close>)
  with Suc show ?case
    using D(2) assms(1) i by (simp add: heap_ok_def)
qed simp

lemma linear_search_some:
  assumes "heap_ok h" "i + n = m_num_blocks h" "s \<le> i" "\<exists>k \<ge> i. k < m_num_blocks h \<and> free_at h k \<noteq> {}"
  shows "\<exists>a h'. linear_search_loop n i (Block_GetSize (m_blocks h ! s)) h = Some (a, h') \<and> a \<noteq> 0 \<and>
    unat a mod bk_size (m_blocks h ! s) = 0 \<and> pages_taken {unat a div 4096..<unat a div 4096 + zs h s} h h'"
  using assms(2-4)
proof (induction n arbitrary: i)
  case 0
  then show ?case by auto
next
  case (Suc n)
  let ?S = "bk_size (m_blocks h ! i)" and ?T = "bk_size (m_blocks h ! s)"
  have i: "i < m_num_blocks h" and s: "s < m_num_blocks h" and l: "heap_layout h"
    using Suc.prems(1,2) assms(1) by (simp_all add: heap_ok_def)
  note D = heap_layoutD [OF l i] and mono = zs_mono [OF l Suc.prems(2) i]
  show ?case
  proof (cases "free_at h i = {}")
    case True
    then have "\<exists>k \<ge> Suc i. k < m_num_blocks h \<and> free_at h k \<noteq> {}"
      using Suc.prems(3) le_antisym not_less_eq_eq by blast
    with Suc.IH [of "Suc i"] Suc.prems(1,2) PopBlock_none [OF D(1), of False] True D(2) show ?thesis
      by (simp add: free_at_def)
  next
    case False
    obtain j a bm where p: "PopBlock False (m_blocks h ! i) = Some (a, (m_blocks h ! i)\<lparr>m_bitmap := bm\<rparr>)"
      "unat a = j * ?S" "a \<noteq> 0" "unat a + ?S \<le> 2 ^ 62" "pages_taken {unat a div 4096..<unat a div 4096 + zs h i} h (set_bitmap i bm h)"
      using pop_heap_block [OF assms(1) i False, of False] by blast
    have w: "unat (Block_GetSize (m_blocks h ! i)) = zs h i * 4096" "unat (Block_GetSize (m_blocks h ! s)) = zs h s * 4096"
      using block_size_word(1) [OF l] zs_pages [OF l] i s by simp_all
    have al: "unat a mod ?T = 0"
      using p(2) mono(2) by simp
    have run: "linear_search_loop (Suc n) i (Block_GetSize (m_blocks h ! s)) h =
        map_option (\<lambda>h2. (a, h2))
          (if Block_GetSize (m_blocks h ! s) < Block_GetSize (m_blocks h ! i)
           then KPageHeap_Free (a + Block_GetSize (m_blocks h ! s))
                  ((Block_GetSize (m_blocks h ! i) - Block_GetSize (m_blocks h ! s)) div PageSize) (set_bitmap i bm h)
           else Some (set_bitmap i bm h))"
      using p(1,3) D(2) by (simp add: Let_def set_bitmap_def Block_GetSize_def map_option_case split: option.split)
    show ?thesis
    proof (cases "zs h s < zs h i")
      case less: True
      let ?b = "a + Block_GetSize (m_blocks h ! s)" and ?m = "(Block_GetSize (m_blocks h ! i) - Block_GetSize (m_blocks h ! s)) div PageSize"
      have b: "unat ?b = unat a + zs h s * 4096"
        using p(4) w less zs_pages [OF l i] by (subst unat_plus_no_wrap) simp_all
      have m: "unat ?m = zs h i - zs h s"
        using w less by (simp add: PageSize_def unat_div_distrib unat_minus_no_wrap flip: diff_mult_distrib)
      have pr: "page_range ?b ?m = {unat a div 4096 + zs h s..<unat a div 4096 + zs h i}"
        using less unfolding page_range_def b m by (simp add: add.commute)
      have bm0: "unat ?b mod 4096 = 0"
        unfolding b p(2) using page_multiple(1) [OF l i, of j] by (simp only: mod_mult_self1)
      from give_back [OF assms(1) p(5) bm0, of ?m] obtain h2 where
        "KPageHeap_Free ?b ?m (set_bitmap i bm h) = Some h2"
        "pages_taken ({unat a div 4096..<unat a div 4096 + zs h i} - page_range ?b ?m) h h2"
        unfolding pr by auto
      moreover have "{unat a div 4096..<unat a div 4096 + zs h i} - page_range ?b ?m = {unat a div 4096..<unat a div 4096 + zs h s}"
        unfolding pr using less by auto
      moreover have "Block_GetSize (m_blocks h ! s) < Block_GetSize (m_blocks h ! i)"
        using less by (simp add: word_less_nat_alt w)
      ultimately show ?thesis
        using run al p(3) by auto
    next
      case False
      then have eq: "zs h s = zs h i"
        using mono(1) by simp
      then have "\<not> Block_GetSize (m_blocks h ! s) < Block_GetSize (m_blocks h ! i)"
        by (simp add: word_less_nat_alt w)
      then show ?thesis
        using run al p(3,5) eq by auto
    qed
  qed
qed

end
