(* ===== verification/KPageHeapRandom.thy ===== *)
theory KPageHeapRandom
  imports KPageHeapAllocate
begin

text \<open>
  Random allocation: which size is tried is a random choice among the sizes that have a free block, and the block
  is cut at a random multiple of the alignment.
\<close>

section \<open>Random numbers below a bound\<close>

lemma generate_random_bits_loop_total:
  "n < 32 \<Longrightarrow> \<exists>r' g'. generate_random_bits_loop n r g = Some (r', g')"
proof (induction n r g rule: generate_random_bits_loop.induct)
  case (1 n r g)
  show ?case
  proof (cases "n = 0")
    case False
    let ?g = "if m_bits_available g = 0 then RefreshEntropy g else g"
    let ?c = "min n (unat (m_bits_available ?g))"
    have c: "\<not> 32 \<le> ?c" "n - ?c < 32"
      using 1(2) by auto
    show ?thesis
      using 1(1) [OF False refl refl refl refl c(1) c(2)] c(1) False
      by (subst generate_random_bits_loop.simps) (simp add: Let_def)
  qed (subst generate_random_bits_loop.simps, simp)
qed

lemma bit_bound:
  assumes "bit (w :: u64) k"
  shows "2 ^ k \<le> unat w"
proof (rule ccontr)
  assume "\<not> 2 ^ k \<le> unat w"
  then have "unat (drop_bit k w) = 0"
    by (simp add: unat_drop_bit_div)
  then have "drop_bit k w = 0"
    by (simp only: unat_eq_zero)
  with assms show False
    by (simp add: bit_iff_odd_drop_bit)
qed

lemma GenerateRandom_ok:
  assumes "0 < unat mx" "unat mx < 2 ^ 30"
  shows "\<exists>r g'. GenerateRandom mx g = Some (r, g') \<and> unat r < unat mx"
proof -
  obtain j where j: "bit mx j" "j < 64"
    using assms(1) bit_imp_le_length [of mx] by (force simp: unat_gt_0 bit_eq_iff)
  then have "bit mx (63 - countl_zero mx)"
    using length_takeWhile_upt_first(2) [of "\<lambda>i. bit mx (63 - i)" "63 - j" 64] by (simp add: countl_zero_def)
  then have "(2 :: nat) ^ (63 - countl_zero mx) < 2 ^ 30"
    using bit_bound assms(2) le_less_trans by blast
  then have "63 - countl_zero mx < 30"
    by (rule power_less_imp_less_exp [rotated]) simp
  then have "1 + (64 - countl_zero mx) < 32"
    by simp
  from generate_random_bits_loop_total [OF this] obtain r g' where
    "generate_random_bits_loop (1 + (64 - countl_zero mx)) 0 g = Some (r, g')"
    by blast
  moreover have "mx \<noteq> 0"
    using assms(1) by auto
  moreover have "r - r div mx * mx = r mod mx"
    by (metis minus_div_mult_eq_mod)
  ultimately show ?thesis
    using assms(1) by (simp add: GenerateRandom_def GenerateRandomBits_def unat_mod_distrib)
qed


section \<open>The choice of a size\<close>

text \<open>
  The heaps of the kernel lie below \<open>2 ^ 40\<close>, so that the number of possible alignments fits in the 31 bits for which
  \<open>GenerateRandom\<close> is defined. The alignment is \<open>2 ^ q\<close> pages.
\<close>

definition heap_below :: "KPageHeap \<Rightarrow> bool" where
  "heap_below h \<longleftrightarrow> unat (ph_heap_address h) + unat (ph_heap_size h) \<le> 2 ^ 40"

lemma free_at_card:
  assumes "heap_ok h" "heap_below h" "i < m_num_blocks h"
  shows "card (free_at h i) * zs h i \<le> 2 ^ 28" "card (free_at h i) \<le> 2 ^ 28"
    "unat (Block_GetNumFreeBlocks (m_blocks h ! i)) = card (free_at h i)" "finite (free_at h i)"
proof -
  have l: "heap_layout h"
    using assms(1) by (simp add: heap_ok_def)
  have z: "0 < zs h i"
    using nested_pos [OF heap_nested [OF l] assms(3)] .
  show fin: "finite (free_at h i)"
    by (simp add: free_at_def free_numbers_def)
  have "free_at h i \<subseteq> {..<2 ^ 28 div zs h i}"
  proof
    fix j assume "j \<in> free_at h i"
    then have "block_pages (zs h) i j \<subseteq> heap_pages h"
      by (rule free_block_pages [OF assms(1,3)])
    then have "Suc j * zs h i - 1 \<in> heap_pages h"
      unfolding block_pages_range [OF l assms(3)] using z by (auto simp: subset_iff)
    then have "Suc j * zs h i - 1 < (unat (ph_heap_address h) + unat (ph_heap_size h)) div 4096"
      by (simp add: heap_pages_def)
    also have "\<dots> \<le> 2 ^ 40 div 4096"
      using assms(2) unfolding heap_below_def by (rule div_le_mono)
    finally have "Suc j * zs h i \<le> 2 ^ 28"
      using z by simp
    then have "Suc j \<le> 2 ^ 28 div zs h i"
      using z by (simp add: less_eq_div_iff_mult_less_eq)
    then show "j \<in> {..<2 ^ 28 div zs h i}"
      by simp
  qed
  then have "card (free_at h i) \<le> 2 ^ 28 div zs h i"
    using card_mono [of "{..<2 ^ 28 div zs h i}" "free_at h i"] by simp
  then show le: "card (free_at h i) * zs h i \<le> 2 ^ 28"
    using z by (simp add: less_eq_div_iff_mult_less_eq)
  moreover have "card (free_at h i) \<le> card (free_at h i) * zs h i"
    using z by simp
  ultimately show c: "card (free_at h i) \<le> 2 ^ 28"
    by (rule order_trans [rotated])
  have "card (free_at h i) = card (free_blocks (m_bitmap (m_blocks h ! i)))"
    by (simp add: free_at_def free_numbers_def card_image)
  moreover have "bitmap_ok (m_bitmap (m_blocks h ! i))"
    using heap_layoutD(1) [OF l assms(3)] by (simp add: block_shape_def)
  ultimately show "unat (Block_GetNumFreeBlocks (m_blocks h ! i)) = card (free_at h i)"
    using c by (simp add: Block_GetNumFreeBlocks_def bitmap_ok_def unat_of_nat)
qed

lemma alignments_in_ok:
  assumes "heap_ok h" "heap_below h" "i < m_num_blocks h" "12 \<le> sh" "unat needed \<le> bk_size (m_blocks h ! i)"
  shows "unat (alignments_in needed sh (m_blocks h ! i)) \<le> 2 ^ 29"
    "alignments_in needed sh (m_blocks h ! i) = 0 \<longleftrightarrow> free_at h i = {}"
proof -
  let ?S = "bk_size (m_blocks h ! i)" and ?w = "Block_GetSize (m_blocks h ! i)" and ?c = "card (free_at h i)"
  let ?x = "drop_bit sh (?w - needed)"
  have l: "heap_layout h"
    using assms(1) by (simp add: heap_ok_def)
  note c = free_at_card [OF assms(1-3)] and bw = block_size_word [OF l assms(3)]
  have "unat (?w - needed) = ?S - unat needed"
    using assms(5) by (simp add: unat_minus_no_wrap bw(1))
  then have "unat ?x = (?S - unat needed) div 2 ^ sh"
    by (simp add: unat_drop_bit_div)
  also have "\<dots> \<le> ?S div 4096"
  proof (rule order_trans [OF div_le_mono div_le_mono2])
    show "(4096 :: nat) \<le> 2 ^ sh"
      using power_increasing [OF assms(4), of "2 :: nat"] by simp
  qed simp_all
  finally have x: "unat ?x \<le> zs h i"
    by (simp add: zs_def)
  have z: "0 < zs h i" "zs h i \<le> 2 ^ 18"
    using nested_pos [OF heap_nested [OF l] assms(3)] zs_pages [OF l assms(3)] bw(2) by simp_all
  have u1: "unat (1 + ?x) = 1 + unat ?x"
    using x z(2) by (subst unat_plus_no_wrap) simp_all
  have "(1 + unat ?x) * ?c \<le> (2 * zs h i) * ?c"
    by (rule mult_le_mono1) (use x z(1) in simp)
  also have "\<dots> \<le> 2 ^ 29"
    using c(1) by (simp add: mult.commute)
  finally have p: "(1 + unat ?x) * ?c \<le> 2 ^ 29" .
  then have u: "unat (alignments_in needed sh (m_blocks h ! i)) = (1 + unat ?x) * ?c"
    unfolding alignments_in_def using unat_mult_no_wrap [of "1 + ?x" "Block_GetNumFreeBlocks (m_blocks h ! i)"] by (simp add: u1 c(3))
  with p show "unat (alignments_in needed sh (m_blocks h ! i)) \<le> 2 ^ 29"
    by simp
  have "alignments_in needed sh (m_blocks h ! i) = 0 \<longleftrightarrow> unat (alignments_in needed sh (m_blocks h ! i)) = 0"
    by (simp only: unat_eq_zero)
  then show "alignments_in needed sh (m_blocks h ! i) = 0 \<longleftrightarrow> free_at h i = {}"
    unfolding u using c(4) by (auto simp: card_eq_0_iff)
qed

text \<open>Both loops add the same numbers, so a number below the total falls on a size with a free block.\<close>

lemma max_blocks_loop_ok:
  assumes "heap_ok h" "heap_below h" "12 \<le> sh" "i + n = m_num_blocks h" "unat p < 4"
    and "\<forall>k \<ge> i. k < m_num_blocks h \<longrightarrow> unat needed \<le> bk_size (m_blocks h ! k)"
  shows "\<exists>m q. max_blocks_loop n i needed sh p h = Some (m, q) \<and> i \<le> m \<and> m \<le> m_num_blocks h \<and> (0 < n \<longrightarrow> i < m) \<and>
    p \<le> q \<and> unat q < 4 + 2 ^ 29 \<and> (q = 0 \<longrightarrow> (\<forall>k \<ge> i. k < m_num_blocks h \<longrightarrow> free_at h k = {})) \<and>
    (\<forall>rnd d. p \<le> rnd \<longrightarrow> rnd < q \<longrightarrow>
       (\<exists>k. pick_block_loop (m - i) i d rnd needed sh p h = Some k \<and> i \<le> k \<and> k < m \<and> free_at h k \<noteq> {}))"
  using assms(4-6)
proof (induction n arbitrary: i p)
  case 0
  then show ?case
    by (auto simp: not_less)
next
  case (Suc n)
  let ?a = "alignments_in needed sh (m_blocks h ! i)"
  have i: "i < m_num_blocks h" and l: "heap_layout h"
    using Suc.prems(1) assms(1) by (simp_all add: heap_ok_def)
  have ge: "array_get (m_blocks h) i = Some (m_blocks h ! i)"
    using heap_layoutD(2) [OF l i] by simp
  note a = alignments_in_ok [OF assms(1,2) i assms(3)] 
  have a: "unat ?a \<le> 2 ^ 29" "?a = 0 \<longleftrightarrow> free_at h i = {}"
    using a Suc.prems(3) i by simp_all
  have u: "unat (p + ?a) = unat p + unat ?a"
    using a(1) Suc.prems(2) by (subst unat_plus_no_wrap) simp_all
  have pick: "pick_block_loop (Suc r) i d rnd needed sh p h =
      (if rnd < p + ?a then Some i else pick_block_loop r (Suc i) d rnd needed sh (p + ?a) h)" for r d rnd
    using ge by (simp add: Let_def)
  have here: "free_at h i \<noteq> {}" if "p \<le> rnd" "rnd < p + ?a" for rnd
    using that a(2) by auto
  show ?case
  proof (cases "4 \<le> p + ?a")
    case True
    then have "max_blocks_loop (Suc n) i needed sh p h = Some (Suc i, p + ?a)" "p + ?a \<noteq> 0"
      using ge by (auto simp: Let_def MinimumPossibleAlignmentsForRandomAllocation_def)
    then show ?thesis
      using i u a(1) Suc.prems(2) pick [of 0] here by (intro exI [of _ "Suc i"] exI [of _ "p + ?a"]) (auto simp: word_le_nat_alt [of p])
  next
    case False
    then have run: "max_blocks_loop (Suc n) i needed sh p h = max_blocks_loop n (Suc i) needed sh (p + ?a) h"
      using ge by (simp add: Let_def MinimumPossibleAlignmentsForRandomAllocation_def)
    have "unat (p + ?a) < 4"
      using False by (simp add: word_le_nat_alt)
    with Suc.IH [of "Suc i" "p + ?a"] Suc.prems obtain m q where
      r: "max_blocks_loop n (Suc i) needed sh (p + ?a) h = Some (m, q)" "Suc i \<le> m" "m \<le> m_num_blocks h" "unat q < 4 + 2 ^ 29" "p + ?a \<le> q"
        "q = 0 \<longrightarrow> (\<forall>k \<ge> Suc i. k < m_num_blocks h \<longrightarrow> free_at h k = {})"
        "\<forall>rnd d. p + ?a \<le> rnd \<longrightarrow> rnd < q \<longrightarrow>
          (\<exists>k. pick_block_loop (m - Suc i) (Suc i) d rnd needed sh (p + ?a) h = Some k \<and> Suc i \<le> k \<and> k < m \<and> free_at h k \<noteq> {})"
      by auto
    have m: "m - i = Suc (m - Suc i)"
      using r(2) by simp
    have "\<exists>k. pick_block_loop (m - i) i d rnd needed sh p h = Some k \<and> i \<le> k \<and> k < m \<and> free_at h k \<noteq> {}"
      if "p \<le> rnd" "rnd < q" for rnd d
    proof (cases "rnd < p + ?a")
      case True
      then show ?thesis
        using here that(1) r(2) unfolding m pick by auto
    next
      case False
      then show ?thesis
        using r(7) that(2) Suc_leD unfolding m pick by (metis not_less)
    qed
    moreover have "p \<le> q"
      using r(5) u by (simp add: word_le_nat_alt)
    moreover have "free_at h k = {}" if "q = 0" "i \<le> k" "k < m_num_blocks h" for k
    proof (cases "k = i")
      case True
      have "unat (p + ?a) = 0"
        using r(5) that(1) by (simp add: word_le_nat_alt)
      then have "?a = 0"
        using u by (simp add: unat_eq_zero)
      with a(2) True show ?thesis
        by simp
    qed (use r(6) that in simp)
    ultimately show ?thesis
      using run r(1-4) by (intro exI [of _ m] exI [of _ q]) simp
  qed
qed


lemma rng_views [simp]:
  "heap_layout (h\<lparr>ph_rng := g\<rparr>) = heap_layout h" "zs (h\<lparr>ph_rng := g\<rparr>) = zs h" "free_at (h\<lparr>ph_rng := g\<rparr>) = free_at h"
  "heap_pages (h\<lparr>ph_rng := g\<rparr>) = heap_pages h" "free_heap_pages (h\<lparr>ph_rng := g\<rparr>) = free_heap_pages h"
  "heap_ok (h\<lparr>ph_rng := g\<rparr>) = heap_ok h" "same_layout k (h\<lparr>ph_rng := g\<rparr>) = same_layout k h"
  "same_layout (h\<lparr>ph_rng := g\<rparr>) k = same_layout h k"
  "pages_taken A k (h\<lparr>ph_rng := g\<rparr>) = pages_taken A k h" "pages_taken A (h\<lparr>ph_rng := g\<rparr>) k = pages_taken A h k"
proof -
  show v: "heap_layout (h\<lparr>ph_rng := g\<rparr>) = heap_layout h" "zs (h\<lparr>ph_rng := g\<rparr>) = zs h" "free_at (h\<lparr>ph_rng := g\<rparr>) = free_at h"
    "heap_pages (h\<lparr>ph_rng := g\<rparr>) = heap_pages h"
    by (auto simp: heap_layout_def zs_def [abs_def] free_at_def [abs_def] heap_pages_def)
  then show f: "free_heap_pages (h\<lparr>ph_rng := g\<rparr>) = free_heap_pages h"
    by (simp add: free_heap_pages_def)
  with v show o: "heap_ok (h\<lparr>ph_rng := g\<rparr>) = heap_ok h"
    by (simp add: heap_ok_def)
  show s: "same_layout k (h\<lparr>ph_rng := g\<rparr>) = same_layout k h" "same_layout (h\<lparr>ph_rng := g\<rparr>) k = same_layout h k"
    by (simp_all add: same_layout_def)
  from f o s show "pages_taken A k (h\<lparr>ph_rng := g\<rparr>) = pages_taken A k h" "pages_taken A (h\<lparr>ph_rng := g\<rparr>) k = pages_taken A h k"
    by (simp_all add: pages_taken_def)
qed

lemma choose_block_index_ok:
  assumes "heap_ok h" "heap_below h" "12 \<le> sh" "s < m_num_blocks h" "unat needed \<le> bk_size (m_blocks h ! s)"
  shows "\<forall>k \<ge> s. k < m_num_blocks h \<longrightarrow> free_at h k = {} \<Longrightarrow> choose_block_index s needed sh h = Some (s, h)"
    and "\<exists>k \<ge> s. k < m_num_blocks h \<and> free_at h k \<noteq> {} \<Longrightarrow>
      \<exists>k g. choose_block_index s needed sh h = Some (k, h\<lparr>ph_rng := g\<rparr>) \<and> s \<le> k \<and> k < m_num_blocks h \<and> free_at h k \<noteq> {}"
proof -
  have l: "heap_layout h"
    using assms(1) by (simp add: heap_ok_def)
  have big: "unat needed \<le> bk_size (m_blocks h ! k)" if "s \<le> k" "k < m_num_blocks h" for k
    using zs_mono(2) [OF l that] assms(5) by (meson bk_size_pos(1) dvd_imp_le order_trans)
  obtain m q where r: "max_blocks_loop (m_num_blocks h - s) s needed sh 0 h = Some (m, q)" "s < m" "m \<le> m_num_blocks h"
      "unat q < 4 + 2 ^ 29" "q = 0 \<longrightarrow> (\<forall>k \<ge> s. k < m_num_blocks h \<longrightarrow> free_at h k = {})"
      "\<forall>rnd d. rnd < q \<longrightarrow>
          (\<exists>k. pick_block_loop (m - s) s d rnd needed sh 0 h = Some k \<and> s \<le> k \<and> k < m \<and> free_at h k \<noteq> {})"
    using max_blocks_loop_ok [OF assms(1,2,3), of s "m_num_blocks h - s" 0 needed] big assms(4) by auto
  show "choose_block_index s needed sh h = Some (s, h)" if none: "\<forall>k \<ge> s. k < m_num_blocks h \<longrightarrow> free_at h k = {}"
  proof -
    have "q = 0"
      using r(3,6) none word_neq_0_conv by (metis less_le_trans)
    then show ?thesis
      by (simp add: choose_block_index_def r(1))
  qed
  assume "\<exists>k \<ge> s. k < m_num_blocks h \<and> free_at h k \<noteq> {}"
  then have q: "0 < q"
    using r(5) by (auto simp: word_neq_0_conv)
  show "\<exists>k g. choose_block_index s needed sh h = Some (k, h\<lparr>ph_rng := g\<rparr>) \<and> s \<le> k \<and> k < m_num_blocks h \<and> free_at h k \<noteq> {}"
  proof (cases "s + 1 < m")
    case True
    obtain rnd g where g: "GenerateRandom q (ph_rng h) = Some (rnd, g)" "rnd < q"
      using GenerateRandom_ok [of q "ph_rng h"] q r(4) by (auto simp: word_less_nat_alt)
    with r(6) obtain k where "pick_block_loop (m - s) s s rnd needed sh 0 h = Some k" "s \<le> k" "k < m" "free_at h k \<noteq> {}"
      by blast
    then show ?thesis
      using True q g(1) r(1,3) by (auto simp: choose_block_index_def)
  next
    case False
    then have "m = Suc s"
      using r(2) by simp
    with r(6) q have "free_at h s \<noteq> {}"
      by (metis le_antisym less_Suc_eq_le)
    moreover have "choose_block_index s needed sh h = Some (s, h\<lparr>ph_rng := ph_rng h\<rparr>)"
      using False by (simp add: choose_block_index_def r(1))
    ultimately show ?thesis
      using assms(4) by blast
  qed
qed

section \<open>The cut of a block\<close>

text \<open>Giving back pages, or nothing when the range is empty.\<close>

lemma give_back_if:
  assumes "heap_ok h" "pages_taken A h h1" "unat b mod 4096 = 0" "page_range b m \<subseteq> A" "c \<or> m = 0"
  shows "\<exists>h2. (if c then KPageHeap_Free b m h1 else Some h1) = Some h2 \<and> pages_taken (A - page_range b m) h h2"
proof (cases c)
  case True
  then show ?thesis
    using give_back [OF assms(1-4)] by simp
next
  case False
  then show ?thesis
    using assms(2,5) by (simp add: page_range_def)
qed

lemma cut_block_ok:
  assumes h: "heap_ok h" "pages_taken {unat a div 4096..<unat a div 4096 + z} h h1"
    and a: "unat a mod 4096 = 0" "unat a + z * 4096 \<le> 2 ^ 62" "z \<le> 2 ^ 18" "q \<le> 18"
    and n: "n \<le> z" "unat needed = n * 4096" "unat left = (z - n) * 4096"
  shows "\<exists>r h'. cut_block a left needed (q + 12) h1 = Some (r, h') \<and> unat a \<le> unat r \<and>
    (unat r - unat a) mod (2 ^ q * 4096) = 0 \<and> pages_taken {unat r div 4096..<unat r div 4096 + n} h h'"
proof (cases "z = n")
  case True
  then have "left = 0"
    using n(3) by (simp add: unat_eq_zero)
  then show ?thesis
    using h(2) True by (simp add: cut_block_def)
next
  case False
  let ?possible = "1 + drop_bit (q + 12) left"
  let ?A = "unat a div 4096"
  have d: "unat (drop_bit (q + 12) left) = (z - n) div 2 ^ q"
    by (simp only: unat_drop_bit_div n(3) power_add) simp
  have dl: "(z - n) div 2 ^ q \<le> 2 ^ 18"
    by (rule order_trans [OF div_le_dividend]) (use a(3) in simp)
  then have p: "unat ?possible = 1 + (z - n) div 2 ^ q"
    using d by (subst unat_plus_no_wrap) simp_all
  also have "\<dots> < 2 ^ 30"
    using dl by simp
  finally obtain rnd g where g: "GenerateRandom ?possible (ph_rng h1) = Some (rnd, g)" "unat rnd < unat ?possible"
    using GenerateRandom_ok [of ?possible "ph_rng h1"] p by auto
  define off where "off = push_bit (q + 12) rnd"
  define o' where "o' = unat rnd * 2 ^ q"
  have "unat rnd \<le> (z - n) div 2 ^ q"
    using g(2) p by simp
  then have "o' \<le> (z - n) div 2 ^ q * 2 ^ q"
    unfolding o'_def by (rule mult_le_mono1)
  then have o: "o' \<le> z - n"
    by (rule order_trans) simp
  have off: "unat off = o' * 4096"
  proof -
    have "unat rnd * 2 ^ (q + 12) = o' * 4096"
      by (simp add: o'_def power_add)
    moreover have "o' * 4096 < 2 ^ 64"
      using o a(3) by simp
    ultimately show ?thesis
      using unat_push_bit_no_wrap [of "q + 12" rnd] a(4) by (simp add: off_def)
  qed
  let ?b = "a + off + needed" and ?m = "(left - off) div PageSize"
  have r: "unat (a + off) = unat a + o' * 4096"
    using off o a(2) n(1) by (subst unat_plus_no_wrap) simp_all
  have b: "unat ?b = unat a + (o' + n) * 4096"
    using r o a(2) n by (subst unat_plus_no_wrap) simp_all
  have c1: "unat (off div PageSize) = o'"
    by (simp add: unat_div_distrib off PageSize_def)
  have "off \<le> left"
    using o by (simp add: word_le_nat_alt off n(3))
  then have m: "unat ?m = z - n - o'"
    by (simp add: unat_div_distrib unat_sub off n(3) PageSize_def flip: diff_mult_distrib)
  have r1: "page_range a (off div PageSize) = {?A..<?A + o'}"
    by (simp only: page_range_def c1)
  have r2: "page_range ?b ?m = {?A + o' + n..<?A + z}"
  proof -
    have "unat ?b div 4096 = ?A + (o' + n)"
      unfolding b by (simp only: div_mult_self1 zero_neq_numeral not_False_eq_True add.commute)
    moreover have "?A + (o' + n) + (z - n - o') = ?A + z"
      using o n(1) by simp
    ultimately show ?thesis
      unfolding page_range_def m by (simp only: add.assoc)
  qed
  have e1: "off \<noteq> 0 \<or> off div PageSize = 0"
    by auto
  have e2: "off \<noteq> left \<or> ?m = 0"
    by auto
  have "pages_taken {?A..<?A + z} h (h1\<lparr>ph_rng := g\<rparr>)"
    using h(2) by simp
  moreover have "page_range a (off div PageSize) \<subseteq> {?A..<?A + z}"
    unfolding r1 using o by auto
  ultimately obtain h2 where
    h2: "(if off \<noteq> 0 then KPageHeap_Free a (off div PageSize) (h1\<lparr>ph_rng := g\<rparr>) else Some (h1\<lparr>ph_rng := g\<rparr>)) = Some h2"
      "pages_taken ({?A..<?A + z} - {?A..<?A + o'}) h h2"
    using give_back_if [OF h(1) _ a(1) _ e1, unfolded r1] r1 by metis
  have "unat ?b mod 4096 = 0"
    unfolding b using a(1) by (simp only: mod_mult_self1)
  moreover have "page_range ?b ?m \<subseteq> {?A..<?A + z} - {?A..<?A + o'}"
    unfolding r2 by auto
  ultimately obtain h3 where
    h3: "(if off \<noteq> left then KPageHeap_Free ?b ?m h2 else Some h2) = Some h3"
      "pages_taken ({?A..<?A + z} - {?A..<?A + o'} - {?A + o' + n..<?A + z}) h h3"
    using give_back_if [OF h(1) h2(2) _ _ e2, unfolded r2] r2 by metis
  have "0 < left"
    using False n(1,3) by (simp add: word_less_nat_alt)
  then have "cut_block a left needed (q + 12) h1 = Some (a + off, h3)"
    by (simp only: cut_block_def Let_def g(1) off_def [symmetric] h2(1) h3(1) if_True Option.bind_lunit prod.case)
  moreover have "{?A..<?A + z} - {?A..<?A + o'} - {?A + o' + n..<?A + z} = {unat (a + off) div 4096..<unat (a + off) div 4096 + n}"
    unfolding r using o n(1) by auto
  moreover have "(unat (a + off) - unat a) mod (2 ^ q * 4096) = 0"
    unfolding r o'_def by (simp add: mult.assoc)
  moreover have "unat a \<le> unat (a + off)"
    by (simp add: r)
  ultimately show ?thesis
    using h3(2) by auto
qed


section \<open>Random allocation\<close>

lemma countr_zero_exp: "k < 64 \<Longrightarrow> countr_zero (2 ^ k :: u64) = k"
  using bit_countr_zero [of "2 ^ k :: u64"] by (simp add: bit_exp_iff exp_eq_zero_iff)

lemma align_shift:
  assumes "unat al = 2 ^ q" "q \<le> 18"
  shows "countr_zero (al * PageSize) = q + 12"
proof -
  have "al = 2 ^ q"
    using unat_push_bit_1 [of q] assms by (intro word_unat_eq_iff [THEN iffD2]) (simp add: push_bit_eq_mult)
  then have "al * PageSize = 2 ^ (q + 12)"
    by (simp add: power_add)
  then show ?thesis
    using assms(2) by (simp only: countr_zero_exp)
qed

lemma AllocateByRandom_ok:
  assumes h: "heap_ok h" "heap_below h" "s < m_num_blocks h"
    and n: "unat al = 2 ^ q" "2 ^ q \<le> zs h s" "unat n \<le> zs h s"
  shows "\<forall>k \<ge> s. k < m_num_blocks h \<longrightarrow> free_at h k = {} \<Longrightarrow> AllocateByRandom s n al h = Some (0, h)"
    and "\<exists>k \<ge> s. k < m_num_blocks h \<and> free_at h k \<noteq> {} \<Longrightarrow>
      \<exists>a h'. AllocateByRandom s n al h = Some (a, h') \<and> a \<noteq> 0 \<and> unat a mod (2 ^ q * 4096) = 0 \<and>
        pages_taken {unat a div 4096..<unat a div 4096 + unat n} h h'"
proof -
  have l: "heap_layout h"
    using h(1) by (simp add: heap_ok_def)
  have z18: "zs h k \<le> 2 ^ 18" if "k < m_num_blocks h" for k
    using zs_pages [OF l that] block_size_word(2) [OF l that] by simp
  have q: "q \<le> 18"
    using order_trans [OF n(2) z18 [OF h(3)]] by (rule power_le_imp_le_exp [rotated]) simp
  note sh = align_shift [OF n(1) q]
  have nd: "unat (n * PageSize) = unat n * 4096"
    using n(3) z18 [OF h(3)] by (subst unat_mult_no_wrap) simp_all
  have fits: "unat (n * PageSize) \<le> bk_size (m_blocks h ! s)"
    unfolding nd zs_pages [OF l h(3), symmetric] by (rule mult_le_mono1 [OF n(3)])
  note ch = choose_block_index_ok [OF h(1,2) _ h(3) fits, of "q + 12"]
  show "AllocateByRandom s n al h = Some (0, h)" if none: "\<forall>k \<ge> s. k < m_num_blocks h \<longrightarrow> free_at h k = {}"
  proof -
    have "PopBlock True (m_blocks h ! s) = Some (0, m_blocks h ! s)"
      by (rule PopBlock_none) (use heap_layoutD(1) [OF l h(3)] none h(3) in \<open>auto simp: free_at_def\<close>)
    then show ?thesis
      using ch(1) none heap_layoutD(2) [OF l h(3)] by (simp add: AllocateByRandom_def sh [simplified] Let_def)
  qed
  assume "\<exists>k \<ge> s. k < m_num_blocks h \<and> free_at h k \<noteq> {}"
  with ch(2) obtain k g where k: "choose_block_index s (n * PageSize) (q + 12) h = Some (k, h\<lparr>ph_rng := g\<rparr>)"
    "s \<le> k" "k < m_num_blocks h" "free_at h k \<noteq> {}"
    by auto
  let ?h = "h\<lparr>ph_rng := g\<rparr>" and ?S = "bk_size (m_blocks h ! k)"
  obtain j a bm where p: "PopBlock True (m_blocks h ! k) = Some (a, (m_blocks h ! k)\<lparr>m_bitmap := bm\<rparr>)" "unat a = j * ?S"
    "a \<noteq> 0" "unat a + ?S \<le> 2 ^ 62" "pages_taken {unat a div 4096..<unat a div 4096 + zs h k} ?h (set_bitmap k bm ?h)"
    using pop_heap_block [of ?h k True] h(1) k(3,4) unfolding rng_views by (simp del: split_paired_Ex) metis
  have zk: "zs h s \<le> zs h k" "bk_size (m_blocks h ! s) dvd ?S"
    by (rule zs_mono [OF l k(2,3)])+
  let ?left = "Block_GetSize (m_blocks h ! k) - n * PageSize"
  have le: "unat ?left = (zs h k - unat n) * 4096"
  proof -
    have "unat (n * PageSize) \<le> unat (Block_GetSize (m_blocks h ! k))"
      unfolding nd block_size_word(1) [OF l k(3)] zs_pages [OF l k(3), symmetric]
      by (rule mult_le_mono1) (use n(3) zk(1) in simp)
    then show ?thesis
      using nd block_size_word(1) [OF l k(3)] zs_pages [OF l k(3)] by (simp add: unat_minus_no_wrap diff_mult_distrib)
  qed
  have "\<exists>r h'. cut_block a ?left (n * PageSize) (q + 12) (set_bitmap k bm ?h) = Some (r, h') \<and> unat a \<le> unat r \<and>
    (unat r - unat a) mod (2 ^ q * 4096) = 0 \<and> pages_taken {unat r div 4096..<unat r div 4096 + unat n} h h'"
  proof (rule cut_block_ok [OF h(1) _ _ _ z18 [OF k(3)] q _ nd le])
    show "unat a mod 4096 = 0"
      unfolding p(2) by (rule page_multiple(1) [OF l k(3)])
  qed (use p(4,5) zs_pages [OF l k(3)] n(3) zk(1) in simp_all)
  then obtain r h' where r: "cut_block a ?left (n * PageSize) (q + 12) (set_bitmap k bm ?h) = Some (r, h')" "unat a \<le> unat r"
    "(unat r - unat a) mod (2 ^ q * 4096) = 0" "pages_taken {unat r div 4096..<unat r div 4096 + unat n} h h'"
    by (elim exE conjE) (rule that)
  have "2 ^ (q + 12) \<le> bk_size (m_blocks h ! s)"
    using n(2) zs_pages [OF l h(3)] by (simp add: power_add flip: zs_pages [OF l h(3)])
  then have "2 ^ (q + 12) dvd bk_size (m_blocks h ! s)"
    unfolding bk_size_def by (simp add: le_imp_power_dvd)
  then have "2 ^ q * 4096 dvd unat a"
    using zk(2) unfolding p(2) by (simp add: power_add) (meson dvd_mult dvd_trans)
  then have "unat r mod (2 ^ q * 4096) = 0"
    using r(2,3) by (metis dvd_add dvd_imp_mod_0 le_add_diff_inverse mod_0_imp_dvd)
  moreover have "r \<noteq> 0"
    using p(3) r(2) by (auto simp: unat_eq_zero)
  moreover have "AllocateByRandom s n al h = Some (r, h')"
    using k(1) heap_layoutD(2) [OF l k(3)] p(1,3) r(1)
    by (simp add: AllocateByRandom_def sh [simplified] Let_def set_bitmap_def Block_GetSize_def)
  ultimately show "\<exists>a h'. AllocateByRandom s n al h = Some (a, h') \<and> a \<noteq> 0 \<and> unat a mod (2 ^ q * 4096) = 0 \<and>
      pages_taken {unat a div 4096..<unat a div 4096 + unat n} h h'"
    using r(4) by (intro exI conjI)
qed

end
