(* ===== verification/KPageHeapInitialize.thy ===== *)
theory KPageHeapInitialize
  imports KPageHeapRandom
begin

text \<open>
  Initialisation: a heap that is given the management memory that \<open>CalculateManagementOverheadSize\<close> asks for
  satisfies the invariant and has no free page.
\<close>

section \<open>The management memory of a bitmap\<close>

lemma words_for_mono: "n \<le> m \<Longrightarrow> words_for n \<le> words_for m"
  by (simp add: words_for_eq div_le_mono)

lemma overhead_loop_Suc: "overhead_loop (Suc d) n 0 = words_for n + overhead_loop d (words_for n) 0"
  using overhead_loop_acc [of d "words_for n" "words_for n"] by (simp add: Let_def)

lemma overhead_loop_mono: "d \<le> e \<Longrightarrow> n \<le> m \<Longrightarrow> overhead_loop d n 0 \<le> overhead_loop e m 0"
proof (induction d arbitrary: e n m)
  case (Suc d)
  then obtain e' where e: "e = Suc e'" "d \<le> e'"
    by (auto simp: Suc_le_D dest: Suc_le_D)
  show ?case
    unfolding e(1) overhead_loop_Suc using Suc.IH [OF e(2)] words_for_mono [OF Suc.prems(2)] by (simp add: add_mono)
qed simp

lemma GetRequiredDepth_mono: "n \<le> m \<Longrightarrow> GetRequiredDepth n \<le> GetRequiredDepth m"
  using GetRequiredDepth_le [of n "GetRequiredDepth m"] GetRequiredDepth_bound [of m] by (simp add: le_less_trans)

lemma bitmap_overhead_mono:
  "n \<le> m \<Longrightarrow> KPageBitmap_CalculateManagementOverheadSize n \<le> KPageBitmap_CalculateManagementOverheadSize m"
  unfolding KPageBitmap_CalculateManagementOverheadSize_def by (simp add: overhead_loop_mono GetRequiredDepth_mono)

lemma overhead_loop_le: "overhead_loop d n 0 \<le> d * n"
proof (induction d arbitrary: n)
  case (Suc d)
  have w: "words_for n \<le> n"
    by (simp add: words_for_eq)
  have "overhead_loop d (words_for n) 0 \<le> d * n"
    using Suc.IH [of "words_for n"] mult_le_mono2 [OF w, of d] by (rule order_trans)
  with w show ?case
    unfolding overhead_loop_Suc by simp
qed simp

lemma bitmap_overhead_bound:
  assumes "n < 64 ^ MaxDepth"
  shows "KPageBitmap_CalculateManagementOverheadSize n \<le> 2 ^ 29"
proof -
  have "GetRequiredDepth n \<le> 4"
    using GetRequiredDepth_le [OF assms] by (simp add: MaxDepth_def)
  then have "GetRequiredDepth n * n \<le> 4 * 2 ^ 24"
    using assms by (intro mult_le_mono) (simp_all add: MaxDepth_def)
  then show ?thesis
    using overhead_loop_le [of "GetRequiredDepth n" n] by (simp add: KPageBitmap_CalculateManagementOverheadSize_def)
qed

lemma carve_storages_rest: "set (snd (carve_storages d n storage levels)) \<subseteq> set storage"
proof (induction d arbitrary: n storage levels)
  case (Suc d)
  show ?case
    using Suc [of "words_for n" "drop (words_for n) storage"] by (auto simp: Let_def dest: in_set_dropD)
qed simp

lemma KPageBitmap_Initialize_rest: "KPageBitmap_Initialize storage sz bm = Some (bm', rest) \<Longrightarrow> set rest \<subseteq> set storage"
  using carve_storages_rest [of "GetRequiredDepth sz" sz storage "[]"]
  by (auto simp: KPageBitmap_Initialize_def Let_def split: prod.splits)

section \<open>The blocks of one size\<close>

definition shift_ok :: "nat \<Rightarrow> nat \<Rightarrow> bool" where
  "shift_ok bs nbs \<longleftrightarrow> 12 \<le> bs \<and> bs \<le> 30 \<and> (nbs = 0 \<or> bs < nbs \<and> nbs \<le> bs + 5 \<and> nbs \<le> 30)"

definition align_of :: "nat \<Rightarrow> nat \<Rightarrow> nat" where
  "align_of bs nbs = (if nbs = 0 then 2 ^ bs else 2 ^ nbs)"

lemma align_of_facts:
  assumes "shift_ok bs nbs"
  shows "unat (if nbs \<noteq> 0 then push_bit nbs 1 else push_bit bs 1 :: u64) = align_of bs nbs"
    "2 ^ bs dvd align_of bs nbs" "align_of bs nbs \<le> 2 ^ 30" "0 < align_of bs nbs"
proof -
  show "unat (if nbs \<noteq> 0 then push_bit nbs 1 else push_bit bs 1 :: u64) = align_of bs nbs"
    using assms unat_push_bit_1 [of bs] unat_push_bit_1 [of nbs] by (auto simp: align_of_def shift_ok_def)
  show "2 ^ bs dvd align_of bs nbs"
    using assms by (auto simp: align_of_def shift_ok_def le_imp_power_dvd)
  show "align_of bs nbs \<le> 2 ^ 30"
    unfolding align_of_def using assms power_increasing [of bs 30 "2 :: nat"] power_increasing [of nbs 30 "2 :: nat"]
    by (auto simp: shift_ok_def)
  show "0 < align_of bs nbs"
    by (simp add: align_of_def)
qed

text \<open>The number of bits for which a block asks management memory.\<close>

definition management_bits :: "u64 \<Rightarrow> nat \<Rightarrow> nat \<Rightarrow> nat" where
  "management_bits sz bs nbs =
     (let aw = (if nbs \<noteq> 0 then push_bit nbs 1 else push_bit bs 1 :: u64) in unat ((aw * 2 + AlignUp sz aw) div push_bit bs 1))"

lemma Block_overhead:
  "Block_CalculateManagementOverheadSize sz bs nbs = KPageBitmap_CalculateManagementOverheadSize (management_bits sz bs nbs)"
  by (simp only: Block_CalculateManagementOverheadSize_def management_bits_def Let_def)

lemma management_bits_ok:
  assumes "shift_ok bs nbs" "unat sz \<le> 2 ^ 35"
  shows "(unat sz + 2 * align_of bs nbs) div 2 ^ bs \<le> management_bits sz bs nbs" "management_bits sz bs nbs < 64 ^ MaxDepth"
proof -
  define aw :: u64 where "aw = (if nbs \<noteq> 0 then push_bit nbs 1 else push_bit bs 1)"
  let ?A = "align_of bs nbs"
  note al = align_of_facts [OF assms(1), folded aw_def]
  have ub: "unat (push_bit bs 1 :: u64) = 2 ^ bs"
    using assms(1) by (intro unat_push_bit_1) (simp add: shift_ok_def)
  have up: "unat sz \<le> unat (AlignUp sz aw)" "unat (AlignUp sz aw) < unat sz + ?A"
    using unat_AlignUp_bounds [of aw sz] al assms(2) by simp_all
  have "unat (aw * 2) = ?A * 2"
    using al(1,3) by (subst unat_mult_no_wrap) simp_all
  then have m: "management_bits sz bs nbs = (?A * 2 + unat (AlignUp sz aw)) div 2 ^ bs"
    unfolding management_bits_def aw_def [symmetric] Let_def unat_div_distrib ub
    using up al(3) assms(2) by (subst unat_plus_no_wrap) simp_all
  show "(unat sz + 2 * ?A) div 2 ^ bs \<le> management_bits sz bs nbs"
    unfolding m using up(1) by (intro div_le_mono) simp
  have "management_bits sz bs nbs \<le> (?A * 2 + unat (AlignUp sz aw)) div 2 ^ 12"
    unfolding m using assms(1) by (intro div_le_mono2 power_increasing) (simp_all add: shift_ok_def)
  also have "\<dots> \<le> (2 ^ 31 + 2 ^ 35 + 2 ^ 30) div 2 ^ 12"
    using up al(3) assms(2) by (intro div_le_mono) simp
  finally show "management_bits sz bs nbs < 64 ^ MaxDepth"
    by (simp add: MaxDepth_def)
qed

lemma Block_Initialize_ok:
  assumes "shift_ok bs nbs" "0 < unat sz" "unat sz \<le> 2 ^ 35" "unat addr + unat sz \<le> 2 ^ 62"
    and "Block_CalculateManagementOverheadSize sz bs nbs \<le> 8 * length storage" "set storage \<subseteq> {0}"
  shows "\<exists>b' rest. Block_Initialize addr sz bs nbs storage b = Some (b', rest) \<and> block_shape b' \<and> free_numbers b' = {} \<and>
    m_block_shift b' = bs \<and> m_next_block_shift b' = nbs \<and> unat (bk_heap_address b') \<le> unat addr \<and>
    unat addr + unat sz \<le> unat (bk_heap_address b') + unat (m_end_offset b') * bk_size b' \<and>
    8 * length storage \<le> 8 * length rest + Block_CalculateManagementOverheadSize sz bs nbs \<and> set rest \<subseteq> {0}"
proof -
  define aw :: u64 where "aw = (if nbs \<noteq> 0 then push_bit nbs 1 else push_bit bs 1)"
  let ?A = "align_of bs nbs" and ?bs = "push_bit bs 1 :: u64"
  note al = align_of_facts [OF assms(1), folded aw_def]
  obtain c where c: "?A = 2 ^ bs * c" "0 < c"
    using al(2,4) by (auto elim!: dvdE)
  have ub: "unat ?bs = 2 ^ bs"
    using assms(1) by (intro unat_push_bit_1) (simp add: shift_ok_def)
  have ue: "unat (addr + sz) = unat addr + unat sz"
    using assms(4) by (subst unat_plus_no_wrap) simp_all
  let ?lo = "AlignDown addr aw" and ?hi = "AlignUp (addr + sz) aw"
  have lo: "unat ?lo mod ?A = 0" "unat ?lo \<le> unat addr" "unat addr < unat ?lo + ?A"
    using dividend_less_div_times [OF al(4), of "unat addr"]
    by (simp_all add: unat_AlignDown al(1) minus_mod_eq_div_mult add.commute)
  have hi: "unat ?hi mod ?A = 0" "unat addr + unat sz \<le> unat ?hi" "unat ?hi < unat addr + unat sz + ?A"
    using unat_AlignUp_bounds [of aw "addr + sz"] al assms(4) by (simp_all add: ue)
  obtain x y where xy: "unat ?lo = ?A * x" "unat ?hi = ?A * y"
    using lo(1) hi(1) by (metis dvdE mod_0_imp_dvd)
  have "?A * x < ?A * y"
    using lo(2) hi(2) assms(2) unfolding xy by linarith
  then have xly: "x < y"
    by simp
  have diff: "unat (?hi - ?lo) = ?A * (y - x)"
  proof -
    have "unat ?lo \<le> unat ?hi"
      using lo(2) hi(2) by linarith
    then show ?thesis
      using xy by (simp add: unat_minus_no_wrap diff_mult_distrib2)
  qed
  let ?eo = "(?hi - ?lo) div ?bs"
  have eo: "unat ?eo = c * (y - x)"
    unfolding unat_div_distrib diff ub c(1) mult.assoc by simp
  have eo_bytes: "unat ?eo * 2 ^ bs = unat ?hi - unat ?lo"
    unfolding eo xy c(1) by (simp add: diff_mult_distrib2 ac_simps)
  have "unat ?eo * 2 ^ bs \<le> unat sz + 2 * ?A"
    unfolding eo_bytes using lo hi assms(2) by linarith
  then have "unat ?eo \<le> (unat sz + 2 * ?A) div 2 ^ bs"
    by (simp add: less_eq_div_iff_mult_less_eq)
  then have le: "unat ?eo \<le> management_bits sz bs nbs"
    using management_bits_ok(1) [OF assms(1,3)] by (rule order_trans)
  have "unat ?eo < 64 ^ MaxDepth" "0 < unat ?eo"
    using le management_bits_ok(2) [OF assms(1,3)] eo c(2) xly by simp_all
  moreover have "KPageBitmap_CalculateManagementOverheadSize (unat ?eo) \<le> 8 * length storage"
    using bitmap_overhead_mono [OF le] assms(5) unfolding Block_overhead by (rule order_trans)
  ultimately obtain bm rest where bm: "KPageBitmap_Initialize storage (unat ?eo) (m_bitmap b) = Some (bm, rest)" "bitmap_ok bm"
    "free_blocks bm = {}" "unat ?eo \<le> capacity bm"
    "8 * length rest = 8 * length storage - KPageBitmap_CalculateManagementOverheadSize (unat ?eo)"
    using KPageBitmap_Initialize_ok [of "unat ?eo" storage "m_bitmap b"] assms(6) by auto
  let ?b = "b\<lparr>m_bitmap := bm, bk_heap_address := ?lo, m_end_offset := ?eo, m_block_shift := bs, m_next_block_shift := nbs\<rparr>"
  have ns: "next_size ?b = ?A" "bk_size ?b = 2 ^ bs"
    by (auto simp: next_size_def bk_size_def align_of_def)
  have "unat ?lo + unat ?eo * 2 ^ bs = unat ?hi"
    unfolding eo_bytes using lo(2) hi(2) by linarith
  moreover have "unat ?hi \<le> 2 ^ 63"
    using hi(3) assms(4) al(3) by simp
  moreover have "unat ?eo * 2 ^ bs mod ?A = 0"
    unfolding eo_bytes xy by (simp flip: diff_mult_distrib2)
  ultimately have "block_shape ?b" "unat addr + unat sz \<le> unat ?lo + unat ?eo * bk_size ?b"
    using assms(1) lo(1) hi(2) bm(2,4) unfolding block_shape_def ns by (simp_all add: shift_ok_def)
  moreover have "free_numbers ?b = {}"
    using bm(3) by (simp add: free_numbers_def)
  moreover have "8 * length storage \<le> 8 * length rest + Block_CalculateManagementOverheadSize sz bs nbs"
    using bm(5) bitmap_overhead_mono [OF le] unfolding Block_overhead by linarith
  moreover have "set rest \<subseteq> {0}"
    using KPageBitmap_Initialize_rest [OF bm(1)] assms(6) by blast
  moreover have "Block_Initialize addr sz bs nbs storage b = Some (?b, rest)"
    unfolding Block_Initialize_def Let_def aw_def [symmetric] bm(1) by simp
  ultimately show ?thesis
    using lo(2) by auto
qed


section \<open>The heap\<close>

text \<open>The shifts of the sizes in ascending order, as in \<open>MemoryBlockPageShifts\<close>.\<close>

definition next_shift :: "nat list \<Rightarrow> nat \<Rightarrow> nat" where
  "next_shift ss k = (if Suc k < length ss then ss ! Suc k else 0)"

definition shifts_ok :: "nat list \<Rightarrow> bool" where
  "shifts_ok ss \<longleftrightarrow> (\<forall>k < length ss. shift_ok (ss ! k) (next_shift ss k))"

lemma shifts_ok_Cons: "shifts_ok (s # ss) \<longleftrightarrow> shift_ok s (case ss of [] \<Rightarrow> 0 | n # _ \<Rightarrow> n) \<and> shifts_ok ss"
proof -
  have "shifts_ok (s # ss) \<longleftrightarrow> shift_ok s (next_shift (s # ss) 0) \<and> (\<forall>k < length ss. shift_ok (ss ! k) (next_shift ss k))"
    unfolding shifts_ok_def by (auto simp: less_Suc_eq_0_disj next_shift_def)
  moreover have "next_shift (s # ss) 0 = (case ss of [] \<Rightarrow> 0 | n # _ \<Rightarrow> n)"
    by (auto simp: next_shift_def split: list.split)
  ultimately show ?thesis
    by (simp add: shifts_ok_def)
qed

definition fresh_size :: "u64 \<Rightarrow> u64 \<Rightarrow> nat \<Rightarrow> nat \<Rightarrow> Block \<Rightarrow> bool" where
  "fresh_size addr sz bs nbs b \<longleftrightarrow>
     block_shape b \<and> free_numbers b = {} \<and> m_block_shift b = bs \<and> m_next_block_shift b = nbs \<and>
     unat (bk_heap_address b) \<le> unat addr \<and> unat addr + unat sz \<le> unat (bk_heap_address b) + unat (m_end_offset b) * bk_size b"

lemma initialize_blocks_ok:
  assumes "0 < unat sz" "unat sz \<le> 2 ^ 35" "unat addr + unat sz \<le> 2 ^ 62"
    and "shifts_ok ss" "i + length ss \<le> length (m_blocks h)" "overhead_of sz ss \<le> 8 * length storage" "set storage \<subseteq> {0}"
  shows "\<exists>bs rest. initialize_blocks addr sz ss i storage h = Some (h\<lparr>m_blocks := bs\<rparr>, rest) \<and> length bs = length (m_blocks h) \<and>
    (\<forall>k < i. bs ! k = m_blocks h ! k) \<and>
    (\<forall>k < length ss. fresh_size addr sz (ss ! k) (next_shift ss k) (bs ! (i + k))) \<and>
    8 * length storage \<le> 8 * length rest + overhead_of sz ss"
  using assms(4-7)
proof (induction ss arbitrary: i h storage)
  case Nil
  then show ?case
    by (intro exI [of _ "m_blocks h"] exI [of _ storage]) simp
next
  case (Cons s ss)
  let ?n = "case ss of [] \<Rightarrow> 0 | n # _ \<Rightarrow> n"
  have i: "array_get (m_blocks h) i = Some (m_blocks h ! i)" "i < length (m_blocks h)"
    using Cons.prems(2) by simp_all
  have sh: "shift_ok s ?n" "shifts_ok ss"
    using Cons.prems(1) by (simp_all add: shifts_ok_Cons)
  obtain b storage' where b: "Block_Initialize addr sz s ?n storage (m_blocks h ! i) = Some (b, storage')"
    "fresh_size addr sz s ?n b" "8 * length storage \<le> 8 * length storage' + Block_CalculateManagementOverheadSize sz s ?n"
    "set storage' \<subseteq> {0}"
    using Block_Initialize_ok [OF sh(1) assms(1-3), of storage "m_blocks h ! i"] Cons.prems(3,4) by (auto simp: fresh_size_def)
  let ?h = "h\<lparr>m_blocks := (m_blocks h)[i := b]\<rparr>"
  from Cons.IH [of "Suc i" ?h storage'] sh(2) Cons.prems(2,3) b(3,4) obtain bs rest where
    r: "initialize_blocks addr sz ss (Suc i) storage' ?h = Some (?h\<lparr>m_blocks := bs\<rparr>, rest)" "length bs = length (m_blocks h)"
      "\<forall>k < Suc i. bs ! k = (m_blocks h)[i := b] ! k"
      "\<forall>k < length ss. fresh_size addr sz (ss ! k) (next_shift ss k) (bs ! (Suc i + k))"
      "8 * length storage' \<le> 8 * length rest + overhead_of sz ss"
    by auto
  have "fresh_size addr sz ((s # ss) ! k) (next_shift (s # ss) k) (bs ! (i + k))" if "k < length (s # ss)" for k
  proof (cases k)
    case 0
    then show ?thesis
      using r(3) i(2) b(2) by (auto simp: next_shift_def split: list.splits)
  next
    case (Suc k')
    then show ?thesis
      using r(4) [rule_format, of k'] that by (simp add: next_shift_def split: if_splits)
  qed
  moreover have "initialize_blocks addr sz (s # ss) i storage h = Some (h\<lparr>m_blocks := bs\<rparr>, rest)"
    using i(1) b(1) r(1) by simp
  moreover have "\<forall>k < i. bs ! k = m_blocks h ! k"
    using r(3) by simp
  ultimately show ?case
    using r(2,5) b(3) by auto
qed

lemma fresh_heap_ok:
  assumes "0 < length ss" "length ss \<le> length (m_blocks h)" "ss ! 0 = 12" "m_num_blocks h = length ss"
    and "unat (ph_heap_address h) mod 4096 = 0" "unat (ph_heap_size h) mod 4096 = 0" "0 < unat (ph_heap_address h)"
      "unat (ph_heap_address h) + unat (ph_heap_size h) \<le> 2 ^ 62"
    and f: "\<forall>k < length ss. fresh_size (ph_heap_address h) (ph_heap_size h) (ss ! k) (next_shift ss k) (m_blocks h ! k)"
  shows "heap_ok h" "free_heap_pages h = {}"
proof -
  have l: "heap_layout h"
    using assms unfolding heap_layout_def by (simp add: fresh_size_def next_shift_def Let_def)
  have e: "free_at h i = {}" if "i < m_num_blocks h" for i
    using f that assms(4) by (simp add: free_at_def fresh_size_def)
  then show fe: "free_heap_pages h = {}"
    by (auto simp: free_heap_pages_def cover_def)
  have "exclusive (zs h) (m_num_blocks h) (free_at h)"
    using e by (auto simp: exclusive_def)
  moreover have "coalesced_blocks (zs h) (m_num_blocks h) (free_at h)"
    using e group_start [OF heap_nested [OF l]] unfolding coalesced_blocks_def by (metis Suc_lessD empty_iff subsetD)
  ultimately show "heap_ok h"
    using l fe by (simp add: heap_ok_def)
qed

lemma overhead_of_bound:
  assumes "shifts_ok ss" "unat sz \<le> 2 ^ 35"
  shows "overhead_of sz ss \<le> length ss * 2 ^ 29"
  using assms(1)
proof (induction ss)
  case (Cons s ss)
  let ?n = "case ss of [] \<Rightarrow> 0 | n # _ \<Rightarrow> n"
  have sh: "shift_ok s ?n" "shifts_ok ss"
    using Cons.prems by (simp_all add: shifts_ok_Cons)
  have "Block_CalculateManagementOverheadSize sz s ?n \<le> 2 ^ 29"
    unfolding Block_overhead by (rule bitmap_overhead_bound [OF management_bits_ok(2) [OF sh(1) assms(2)]])
  with Cons.IH [OF sh(2)] show ?case
    by simp
qed simp

lemma MemoryBlockPageShifts_ok: "shifts_ok MemoryBlockPageShifts" "length MemoryBlockPageShifts = 7" "MemoryBlockPageShifts ! 0 = 12"
  by (simp_all add: MemoryBlockPageShifts_def shifts_ok_Cons shift_ok_def) (simp add: shifts_ok_def)

lemma management_size_ok:
  assumes "unat sz \<le> 2 ^ 35"
  defines "m \<equiv> KPageHeap_CalculateManagementOverheadSize sz MemoryBlockPageShifts"
  shows "overhead_of sz MemoryBlockPageShifts \<le> 8 * unat (m div 8)" "unat m \<le> 2 ^ 32"
proof -
  let ?o = "overhead_of sz MemoryBlockPageShifts"
  have o: "?o \<le> 7 * 2 ^ 29"
    using overhead_of_bound [OF MemoryBlockPageShifts_ok(1) assms(1)] by (simp add: MemoryBlockPageShifts_ok(2))
  then have u: "unat (of_nat ?o :: u64) = ?o"
    by (simp add: unat_of_nat)
  have m: "unat m mod 4096 = 0" "?o \<le> unat m" "unat m < ?o + 4096"
    using unat_AlignUp_bounds [of PageSize "of_nat ?o"] o unfolding m_def KPageHeap_CalculateManagementOverheadSize_def
    by (simp_all add: u)
  then show "unat m \<le> 2 ^ 32"
    using o by simp
  have "unat m mod 8 = 0"
    using m(1) mod_mod_cancel [of 8 4096 "unat m"] by simp
  then show "?o \<le> 8 * unat (m div 8)"
    using m(2) div_mult_mod_eq [of "unat m" 8] by (simp add: unat_div_distrib mult.commute)
qed

lemma KPageHeap_Initialize_ok:
  assumes "length (m_blocks h) = NumMemoryBlockPageShifts" "unat address mod 4096 = 0" "unat sz mod 4096 = 0"
    and "0 < unat address" "0 < unat sz" "unat sz \<le> 2 ^ 35" "unat address + unat sz \<le> 2 ^ 62"
    and "msz = KPageHeap_CalculateManagementOverheadSize sz MemoryBlockPageShifts"
    and "unat dat + unat msz \<le> unat (maddr + msz)"
  shows "\<exists>h'. KPageHeap_Initialize dat address sz maddr msz MemoryBlockPageShifts h = Some h' \<and> heap_ok h' \<and>
    free_heap_pages h' = {} \<and> ph_heap_address h' = address \<and> ph_heap_size h' = sz \<and> m_num_blocks h' = NumMemoryBlockPageShifts \<and>
    map m_block_shift (m_blocks h') = MemoryBlockPageShifts"
proof -
  let ?h = "h\<lparr>ph_heap_address := address, ph_heap_size := sz, m_num_blocks := length MemoryBlockPageShifts\<rparr>"
  let ?st = "replicate (unat (msz div 8)) (0 :: u64)"
  note ms = management_size_ok [OF assms(6), folded assms(8)]
  have len: "0 + length MemoryBlockPageShifts \<le> length (m_blocks ?h)" "length (m_blocks ?h) = 7"
    using assms(1) by (simp_all add: MemoryBlockPageShifts_ok(2) NumMemoryBlockPageShifts_def)
  have zero: "set ?st \<subseteq> {0}"
    by auto
  obtain bs rest where r: "initialize_blocks address sz MemoryBlockPageShifts 0 ?st ?h = Some (?h\<lparr>m_blocks := bs\<rparr>, rest)"
    "length bs = length (m_blocks ?h)"
    "\<forall>k < length MemoryBlockPageShifts. fresh_size address sz (MemoryBlockPageShifts ! k) (next_shift MemoryBlockPageShifts k) (bs ! k)"
    using initialize_blocks_ok [OF assms(5,6,7) MemoryBlockPageShifts_ok(1) len(1) _ zero] ms(1) by auto
  let ?h' = "?h\<lparr>m_blocks := bs\<rparr>"
  have "heap_ok ?h'" "free_heap_pages ?h' = {}"
    using fresh_heap_ok [of MemoryBlockPageShifts ?h'] r(2,3) len MemoryBlockPageShifts_ok assms(2,3,4,7) by simp_all
  moreover have "map m_block_shift bs = MemoryBlockPageShifts"
    using r(2,3) len MemoryBlockPageShifts_ok(2) by (intro nth_equalityI) (simp_all add: fresh_size_def)
  moreover have "dat + of_nat (8 * (length ?st - length rest)) \<le> maddr + msz"
  proof -
    define u where "u = 8 * (length ?st - length rest)"
    have u: "u \<le> unat msz"
      by (simp add: u_def unat_div_distrib)
    then have "unat (of_nat u :: u64) = u"
      using ms(2) by (simp add: unat_of_nat)
    moreover have "unat dat + u < 2 ^ LENGTH(64)"
      using assms(9) u unsigned_less [of "maddr + msz", where 'a = nat] by simp
    ultimately have "dat + of_nat u \<le> maddr + msz"
      using assms(9) u by (simp add: word_le_nat_alt unat_plus_no_wrap)
    then show ?thesis
      by (simp only: u_def)
  qed
  ultimately show ?thesis
    using r(1) assms(2,3) MemoryBlockPageShifts_ok(2)
    by (intro exI [of _ ?h']) (simp add: KPageHeap_Initialize_def Let_def IsAligned_PageSize_iff [simplified] NumMemoryBlockPageShifts_def)
qed

end
