(* ===== verification/KPageHeapContract.thy ===== *)
theory KPageHeapContract
  imports KPageHeapInitialize
begin

text \<open>
  The contract of the page heap for its callers: what it counts, when an allocation succeeds, and the properties of
  \<open>Initialize\<close>, \<open>Free\<close>, \<open>AllocateBlock\<close> and \<open>AllocateAligned\<close>.
\<close>

section \<open>The number of free pages\<close>

lemma finite_div_image:
  assumes "finite A" "0 < (z :: nat)"
  shows "finite {p. p div z \<in> A}" "card {p. p div z \<in> A} = card A * z"
proof -
  have e: "{p. p div z \<in> A} = (\<Union>j \<in> A. {j * z..<j * z + z})"
  proof -
    have iff: "p \<in> {j * z..<j * z + z} \<longleftrightarrow> p div z = j" for p j
      using assms(2) by (auto simp: div_nat_eqI mult.commute intro: div_times_less_eq_dividend)
        (metis add.commute dividend_less_div_times mult.commute)
    show ?thesis
      by (rule set_eqI) (simp only: UN_iff mem_Collect_eq iff bex_simps, blast)
  qed
  show "finite {p. p div z \<in> A}"
    unfolding e using assms(1) by simp
  have "card (\<Union>j \<in> A. {j * z..<j * z + z}) = (\<Sum>j \<in> A. card {j * z..<j * z + z})"
  proof (rule card_UN_disjoint [OF assms(1)])
    show "\<forall>i \<in> A. \<forall>j \<in> A. i \<noteq> j \<longrightarrow> {i * z..<i * z + z} \<inter> {j * z..<j * z + z} = {}"
    proof (intro ballI impI)
      fix i j :: nat assume "i \<noteq> j"
      have "p div z = k" if "p \<in> {k * z..<k * z + z}" for p k
        using that by (auto intro: div_nat_eqI simp: mult.commute)
      with \<open>i \<noteq> j\<close> show "{i * z..<i * z + z} \<inter> {j * z..<j * z + z} = {}"
        by blast
    qed
  qed simp
  then show "card {p. p div z \<in> A} = card A * z"
    unfolding e by simp
qed

lemma cover_card:
  assumes "nested z n" "exclusive z n F" "\<forall>i < n. finite (F i)"
  shows "finite (cover z n F)" "card (cover z n F) = (\<Sum>i < n. card (F i) * z i)"
proof -
  have e: "cover z n F = (\<Union>i \<in> {..<n}. {p. p div z i \<in> F i})"
    by (auto simp: cover_def)
  have f: "finite {p. p div z i \<in> F i}" "card {p. p div z i \<in> F i} = card (F i) * z i" if "i < n" for i
    using finite_div_image assms(3) nested_pos [OF assms(1) that] that by blast+
  then show "finite (cover z n F)"
    unfolding e by simp
  have "card (\<Union>i \<in> {..<n}. {p. p div z i \<in> F i}) = (\<Sum>i < n. card {p. p div z i \<in> F i})"
    by (rule card_UN_disjoint) (use f(1) assms(2) in \<open>auto simp: exclusive_def\<close>)
  then show "card (cover z n F) = (\<Sum>i < n. card (F i) * z i)"
    unfolding e using f(2) by simp
qed

lemma size_pages:
  assumes "heap_layout h" "i < m_num_blocks h"
  shows "unat (Block_GetNumPages (m_blocks h ! i)) = zs h i" "zs h i = 2 ^ (m_block_shift (m_blocks h ! i) - 12)"
proof -
  show "unat (Block_GetNumPages (m_blocks h ! i)) = zs h i"
    using block_size_word(1) [OF assms] by (simp add: Block_GetNumPages_def unat_div_distrib PageSize_def zs_def)
  have "12 \<le> m_block_shift (m_blocks h ! i)"
    using heap_layoutD(1) [OF assms] by (simp add: block_shape_def)
  then show "zs h i = 2 ^ (m_block_shift (m_blocks h ! i) - 12)"
    using power_diff [of "2 :: nat" 12 "m_block_shift (m_blocks h ! i)"] by (simp add: zs_def bk_size_def)
qed

lemma num_free_pages_loop_ok:
  assumes "heap_layout h" "i + n \<le> m_num_blocks h"
  shows "num_free_pages_loop n i h = Some (of_nat (\<Sum>k = i..<i + n. card (free_at h k) * zs h k))"
  using assms(2)
proof (induction n arbitrary: i)
  case (Suc n)
  have i: "i < m_num_blocks h"
    using Suc.prems by simp
  note D = heap_layoutD [OF assms(1) i]
  have "Block_GetNumPages (m_blocks h ! i) = of_nat (zs h i)"
    by (simp flip: size_pages(1) [OF assms(1) i])
  moreover have "Block_GetNumFreeBlocks (m_blocks h ! i) = of_nat (card (free_at h i))"
    using D(1) by (simp add: Block_GetNumFreeBlocks_def block_shape_def bitmap_ok_def free_at_def free_numbers_def card_image)
  moreover have "{i..<i + Suc n} = insert i {Suc i..<Suc i + n}"
    by auto
  ultimately show ?case
    using Suc.IH [of "Suc i"] Suc.prems D(2) by (simp add: Block_GetNumFreePages_def)
qed simp

lemma GetNumFreePages_ok:
  assumes "heap_ok h"
  shows "GetNumFreePages h = Some (of_nat (card (free_heap_pages h)))" "finite (free_heap_pages h)"
proof -
  have l: "heap_layout h" "exclusive (zs h) (m_num_blocks h) (free_at h)"
    using assms by (simp_all add: heap_ok_def)
  have "\<forall>i < m_num_blocks h. finite (free_at h i)"
    by (simp add: free_at_def free_numbers_def)
  note c = cover_card [OF heap_nested [OF l(1)] l(2) this]
  show "finite (free_heap_pages h)"
    using c(1) by (simp add: free_heap_pages_def)
  show "GetNumFreePages h = Some (of_nat (card (free_heap_pages h)))"
    unfolding GetNumFreePages_def free_heap_pages_def c(2) using num_free_pages_loop_ok [OF l(1), of 0 "m_num_blocks h"]
    by (simp add: atLeast0LessThan)
qed

section \<open>When an allocation succeeds\<close>

lemma zs_dvd:
  assumes "heap_layout h" "i \<le> k" "k < m_num_blocks h"
  shows "zs h i dvd zs h k"
proof -
  have "i < m_num_blocks h"
    using assms(2,3) by simp
  then have "zs h i * 4096 dvd zs h k * 4096"
    using zs_mono(2) [OF assms] zs_pages [OF assms(1)] assms(3) by simp
  then show ?thesis
    by simp
qed

lemma some_block_free:
  assumes "heap_ok h" "i < m_num_blocks h"
  shows "(\<exists>k \<ge> i. k < m_num_blocks h \<and> free_at h k \<noteq> {}) \<longleftrightarrow> (\<exists>j. block_pages (zs h) i j \<subseteq> free_heap_pages h)"
proof
  have l: "heap_layout h" "coalesced_blocks (zs h) (m_num_blocks h) (free_at h)"
    using assms(1) by (simp_all add: heap_ok_def)
  show "\<exists>k \<ge> i. k < m_num_blocks h \<and> free_at h k \<noteq> {}" if "\<exists>j. block_pages (zs h) i j \<subseteq> free_heap_pages h"
    using that covered_block_above [OF heap_nested [OF l(1)] l(2) assms(2)] by (auto simp: free_heap_pages_def)
  assume "\<exists>k \<ge> i. k < m_num_blocks h \<and> free_at h k \<noteq> {}"
  then obtain k m where k: "i \<le> k" "k < m_num_blocks h" "m \<in> free_at h k"
    by blast
  obtain c where c: "zs h k = zs h i * c"
    using zs_dvd [OF l(1) k(1,2)] by (rule dvdE)
  have "p div zs h k = m" if "p div zs h i = m * c" for p
    using that c nested_pos [OF heap_nested [OF l(1)] k(2)] by (simp add: div_mult2_eq)
  then have "block_pages (zs h) i (m * c) \<subseteq> block_pages (zs h) k m"
    by (auto simp: block_pages_def)
  with free_block_pages(1) [OF assms(1) k(2,3)] show "\<exists>j. block_pages (zs h) i j \<subseteq> free_heap_pages h"
    by blast
qed

text \<open>The outcome of an allocation of \<open>n\<close> pages at an alignment (in bytes) from the blocks of size \<open>i\<close> and larger.\<close>

definition allocates :: "nat \<Rightarrow> nat \<Rightarrow> nat \<Rightarrow> KPageHeap \<Rightarrow> u64 \<times> KPageHeap \<Rightarrow> bool" where
  "allocates i n align h = (\<lambda>(a, h').
     heap_ok h' \<and> same_layout h h' \<and>
     (if \<exists>j. block_pages (zs h) i j \<subseteq> free_heap_pages h
      then a \<noteq> 0 \<and> unat a mod align = 0 \<and> {unat a div 4096..<unat a div 4096 + n} \<subseteq> free_heap_pages h \<and>
        free_heap_pages h' = free_heap_pages h - {unat a div 4096..<unat a div 4096 + n}
      else a = 0 \<and> h' = h))"

lemma allocatesI:
  assumes "heap_ok h" "i < m_num_blocks h"
    and "\<forall>k \<ge> i. k < m_num_blocks h \<longrightarrow> free_at h k = {} \<Longrightarrow> r = Some (0, h)"
    and "\<exists>k \<ge> i. k < m_num_blocks h \<and> free_at h k \<noteq> {} \<Longrightarrow>
      \<exists>a h'. r = Some (a, h') \<and> a \<noteq> 0 \<and> unat a mod align = 0 \<and> pages_taken {unat a div 4096..<unat a div 4096 + n} h h'"
  shows "\<exists>x. r = Some x \<and> allocates i n align h x"
proof (cases "\<exists>k \<ge> i. k < m_num_blocks h \<and> free_at h k \<noteq> {}")
  case True
  obtain a h' where "r = Some (a, h')" "a \<noteq> 0" "unat a mod align = 0"
    "pages_taken {unat a div 4096..<unat a div 4096 + n} h h'"
    using assms(4) [OF True] by (elim exE conjE) (rule that)
  moreover have "\<exists>j. block_pages (zs h) i j \<subseteq> free_heap_pages h"
    using True some_block_free [OF assms(1,2)] by blast
  ultimately show ?thesis
    by (intro exI [of _ "(a, h')"]) (simp add: allocates_def pages_taken_def)
next
  case False
  then have "\<forall>k \<ge> i. k < m_num_blocks h \<longrightarrow> free_at h k = {}"
    by simp
  then have "r = Some (0, h)"
    by (rule assms(3))
  moreover have "\<not> (\<exists>j. block_pages (zs h) i j \<subseteq> free_heap_pages h)"
    using False some_block_free [OF assms(1,2)] by blast
  ultimately show ?thesis
    using assms(1) by (intro exI [of _ "(0, h)"]) (simp add: allocates_def)
qed

lemma AllocateByLinearSearch_ok:
  assumes "heap_ok h" "i < m_num_blocks h"
  shows "\<exists>x. AllocateByLinearSearch i h = Some x \<and> allocates i (zs h i) (bk_size (m_blocks h ! i)) h x"
proof -
  have r: "AllocateByLinearSearch i h = linear_search_loop (m_num_blocks h - i) i (Block_GetSize (m_blocks h ! i)) h"
    using heap_layoutD(2) [of h i] assms by (simp add: AllocateByLinearSearch_def heap_ok_def)
  show ?thesis
    unfolding r
    by (rule allocatesI [OF assms])
      (use assms linear_search_none [OF assms(1), of i "m_num_blocks h - i"] linear_search_some [OF assms(1), of i "m_num_blocks h - i" i] in auto)
qed

lemma AllocateByRandom_allocates:
  assumes "heap_ok h" "heap_below h" "i < m_num_blocks h" "unat al = 2 ^ q" "2 ^ q \<le> zs h i" "unat n \<le> zs h i"
  shows "\<exists>x. AllocateByRandom i n al h = Some x \<and> allocates i (unat n) (2 ^ q * 4096) h x"
  by (rule allocatesI [OF assms(1,3)]) (rule AllocateByRandom_ok [OF assms]; assumption)+

lemma AllocateBlock_ok:
  assumes "heap_ok h" "heap_below h" "i < m_num_blocks h"
  shows "\<exists>x. AllocateBlock (int i) random h = Some x \<and> allocates i (zs h i) (bk_size (m_blocks h ! i)) h x"
proof (cases random)
  case True
  have l: "heap_layout h" "array_get (m_blocks h) i = Some (m_blocks h ! i)"
    using assms(1,3) heap_layoutD(2) [of h i] by (simp_all add: heap_ok_def)
  note z = size_pages [OF l(1) assms(3)]
  let ?p = "Block_GetNumPages (m_blocks h ! i)" and ?q = "m_block_shift (m_blocks h ! i) - 12"
  have u: "unat ?p = 2 ^ ?q"
    by (simp only: z)
  have "2 ^ ?q * 4096 = bk_size (m_blocks h ! i)"
    using zs_pages [OF l(1) assms(3)] z(2) by simp
  with AllocateByRandom_allocates [OF assms u, of ?p] True l(2) z show ?thesis
    by (simp add: AllocateBlock_def)
qed (use AllocateByLinearSearch_ok [OF assms(1,3)] in \<open>simp add: AllocateBlock_def\<close>)


section \<open>The heap with the block sizes of the kernel\<close>

definition kernel_heap :: "KPageHeap \<Rightarrow> bool" where
  "kernel_heap h \<longleftrightarrow> heap_ok h \<and> heap_below h \<and> m_num_blocks h = NumMemoryBlockPageShifts \<and>
     map m_block_shift (m_blocks h) = MemoryBlockPageShifts"

lemma kernel_heapD:
  assumes "kernel_heap h"
  shows "heap_ok h" "heap_below h" "m_num_blocks h = 7" "heap_layout h" "length (m_blocks h) = 7"
    "free_heap_pages h \<subseteq> heap_pages h"
  using assms MemoryBlockPageShifts_ok(2) length_map [of m_block_shift "m_blocks h"]
  by (auto simp: kernel_heap_def heap_ok_def NumMemoryBlockPageShifts_def simp del: length_map)

lemma kernel_heap_same_layout:
  assumes "kernel_heap h" "heap_ok h'" "same_layout h h'"
  shows "kernel_heap h'" "heap_pages h' = heap_pages h"
proof -
  have len: "length (m_blocks h') = length (m_blocks h)"
    using assms(3) by (simp add: same_layout_def)
  have "m_block_shift (m_blocks h' ! i) = m_block_shift (m_blocks h ! i)" if "i < length (m_blocks h)" for i
    using assms(3) that by (auto simp: same_layout_def)
  then have "map m_block_shift (m_blocks h') = map m_block_shift (m_blocks h)"
    using len by (intro nth_equalityI) simp_all
  then show "kernel_heap h'"
    using assms by (simp add: kernel_heap_def same_layout_def heap_below_def)
  show "heap_pages h' = heap_pages h"
    using assms(3) by (simp add: same_layout_def heap_pages_def)
qed

lemma GetBlockNumPages_ok:
  assumes "kernel_heap h" "GetBlockNumPages i = Some n"
  shows "i < m_num_blocks h" "unat n = zs h i" "unat n * 4096 = bk_size (m_blocks h ! i)"
proof -
  have i: "i < 7"
    using assms(2) by (simp add: GetBlockNumPages_def GetBlockSize_def array_get_def MemoryBlockPageShifts_ok(2) split: if_splits)
  with kernel_heapD(3) [OF assms(1)] show h: "i < m_num_blocks h"
    by simp
  have "m_block_shift (m_blocks h ! i) = MemoryBlockPageShifts ! i"
    using assms(1) i kernel_heapD(5) [OF assms(1)] nth_map [of i "m_blocks h" m_block_shift] by (simp add: kernel_heap_def)
  then have "n = Block_GetNumPages (m_blocks h ! i)"
    using assms(2) i MemoryBlockPageShifts_ok(2) by (simp add: GetBlockNumPages_def GetBlockSize_def Block_GetNumPages_def Block_GetSize_def)
  then show "unat n = zs h i"
    using size_pages(1) [OF kernel_heapD(4) [OF assms(1)] h] by simp
  then show "unat n * 4096 = bk_size (m_blocks h ! i)"
    using zs_pages [OF kernel_heapD(4) [OF assms(1)] h] by simp
qed

lemma GetAlignedBlockIndex_ok:
  assumes "0 \<le> GetAlignedBlockIndex n al"
  shows "\<exists>m. GetBlockNumPages (nat (GetAlignedBlockIndex n al)) = Some m \<and> n \<le> m \<and> al \<le> m"
proof -
  obtain i where i: "find (\<lambda>i. max n al \<le> push_bit (MemoryBlockPageShifts ! i) 1 div PageSize) [0..<NumMemoryBlockPageShifts] = Some i"
    "GetAlignedBlockIndex n al = int i"
    using assms by (auto simp: GetAlignedBlockIndex_def Let_def split: option.splits)
  then have "i < 7" "max n al \<le> push_bit (MemoryBlockPageShifts ! i) 1 div PageSize"
    by (auto simp: find_Some_iff NumMemoryBlockPageShifts_def)
  then show ?thesis
    using i(2) MemoryBlockPageShifts_ok(2) by (simp add: GetBlockNumPages_def GetBlockSize_def)
qed

text \<open>Both ways to allocate, in terms of the pages of the result.\<close>

lemma allocates_pages:
  assumes "kernel_heap h" "GetBlockNumPages i = Some m" "\<exists>x. r = Some x \<and> allocates i (unat n) align h x"
  shows "\<exists>a h'. r = Some (a, h') \<and> kernel_heap h' \<and> heap_pages h' = heap_pages h \<and>
    (if \<exists>j. {j * unat m..<Suc j * unat m} \<subseteq> free_heap_pages h
     then a \<noteq> 0 \<and> unat a mod align = 0 \<and> page_range a n \<subseteq> free_heap_pages h \<and>
       free_heap_pages h' = free_heap_pages h - page_range a n
     else a = 0 \<and> h' = h)"
proof -
  note g = GetBlockNumPages_ok [OF assms(1,2)]
  have "block_pages (zs h) i j = {j * unat m..<Suc j * unat m}" for j
    using block_pages_range [OF kernel_heapD(4) [OF assms(1)] g(1)] g(2) by simp
  moreover obtain a h' where "r = Some (a, h')" "allocates i (unat n) align h (a, h')"
    using assms(3) by auto
  moreover from this have "kernel_heap h'" "heap_pages h' = heap_pages h"
    using kernel_heap_same_layout [OF assms(1)] by (simp_all add: allocates_def)
  ultimately show ?thesis
    by (intro exI [of _ a] exI [of _ h']) (simp add: allocates_def page_range_def)
qed

lemma AllocateBlock_pages:
  assumes "kernel_heap h" "GetBlockNumPages i = Some n"
  shows "\<exists>a h'. AllocateBlock (int i) random h = Some (a, h') \<and> kernel_heap h' \<and> heap_pages h' = heap_pages h \<and>
    (if \<exists>j. {j * unat n..<Suc j * unat n} \<subseteq> free_heap_pages h
     then a \<noteq> 0 \<and> unat a mod (unat n * 4096) = 0 \<and> page_range a n \<subseteq> free_heap_pages h \<and>
       free_heap_pages h' = free_heap_pages h - page_range a n
     else a = 0 \<and> h' = h)"
  using AllocateBlock_ok [OF kernel_heapD(1,2) [OF assms(1)] GetBlockNumPages_ok(1) [OF assms], of random]
    GetBlockNumPages_ok(2,3) [OF assms]
  by (intro allocates_pages [OF assms]) simp

lemma AllocateAligned_pages:
  assumes "kernel_heap h" "0 \<le> GetAlignedBlockIndex n al" "unat al = 2 ^ q"
    and "GetBlockNumPages (nat (GetAlignedBlockIndex n al)) = Some m"
  shows "\<exists>a h'. AllocateAligned (GetAlignedBlockIndex n al) n al h = Some (a, h') \<and> kernel_heap h' \<and> heap_pages h' = heap_pages h \<and>
    (if \<exists>j. {j * unat m..<Suc j * unat m} \<subseteq> free_heap_pages h
     then a \<noteq> 0 \<and> unat a mod (2 ^ q * 4096) = 0 \<and> page_range a n \<subseteq> free_heap_pages h \<and>
       free_heap_pages h' = free_heap_pages h - page_range a n
     else a = 0 \<and> h' = h)"
proof (rule allocates_pages [OF assms(1,4)])
  note g = GetBlockNumPages_ok [OF assms(1,4)]
  have "unat n \<le> unat m" "unat al \<le> unat m"
    using GetAlignedBlockIndex_ok [OF assms(2)] assms(4) by (auto simp: word_le_nat_alt)
  then have "2 ^ q \<le> zs h (nat (GetAlignedBlockIndex n al))" "unat n \<le> zs h (nat (GetAlignedBlockIndex n al))"
    using assms(3) g(2) by simp_all
  from AllocateByRandom_allocates [OF kernel_heapD(1,2) [OF assms(1)] g(1) assms(3) this] show
    "\<exists>x. AllocateAligned (GetAlignedBlockIndex n al) n al h = Some x \<and>
       allocates (nat (GetAlignedBlockIndex n al)) (unat n) (2 ^ q * 4096) h x"
    using assms(2) by (simp add: AllocateAligned_def)
qed

lemma KPageHeap_Free_pages:
  assumes "kernel_heap h" "unat addr mod 4096 = 0" "page_range addr n \<subseteq> heap_pages h - free_heap_pages h"
  shows "\<exists>h' m. KPageHeap_Free addr n h = Some h' \<and> kernel_heap h' \<and> heap_pages h' = heap_pages h \<and>
    free_heap_pages h' = free_heap_pages h \<union> page_range addr n \<and>
    GetNumFreePages h = Some m \<and> GetNumFreePages h' = Some (m + n)"
proof -
  obtain h' where h': "KPageHeap_Free addr n h = Some h'" "freed (page_range addr n) h h'"
    using KPageHeap_Free_ok [OF kernel_heapD(1) [OF assms(1)] assms(2,3)] by blast
  note f = freed_facts [OF h'(2)]
  have "card (free_heap_pages h') = card (free_heap_pages h) + card (page_range addr n)"
    unfolding f(4) using assms(3) GetNumFreePages_ok(2) [OF kernel_heapD(1) [OF assms(1)]]
    by (intro card_Un_disjoint) (auto simp: page_range_def)
  then have "GetNumFreePages h' = Some (of_nat (card (free_heap_pages h)) + n)"
    using GetNumFreePages_ok(1) [OF f(1)] by (simp add: page_range_def)
  then show ?thesis
    using h'(1) f(3,4) kernel_heap_same_layout [OF assms(1) f(1,6)] GetNumFreePages_ok(1) [OF kernel_heapD(1) [OF assms(1)]]
    by blast
qed


section \<open>Allocators of pages\<close>

text \<open>
  The allocations that callers hold, as address and number of pages: together with the free pages they make up \<open>T\<close>, and no
  page belongs to two of them.
\<close>

definition held_ok :: "nat set \<Rightarrow> (u64 \<times> u64) list \<Rightarrow> nat set \<Rightarrow> bool" where
  "held_ok F held T \<longleftrightarrow>
     sorted_wrt (\<lambda>x y. case_prod page_range x \<inter> case_prod page_range y = {}) held \<and>
     (\<forall>x \<in> set held. unat (fst x) mod 4096 = 0 \<and> case_prod page_range x \<inter> F = {}) \<and>
     F \<union> (\<Union>x \<in> set held. case_prod page_range x) = T"

lemma held_ok_take:
  assumes "held_ok F held T" "unat a mod 4096 = 0" "page_range a n \<subseteq> F"
  shows "held_ok (F - page_range a n) ((a, n) # held) T"
  using assms unfolding held_ok_def by (auto simp: disjoint_iff)

lemma held_ok_give:
  assumes "held_ok F (xs @ (a, n) # ys) T"
  shows "held_ok (F \<union> page_range a n) (xs @ ys) T" "unat a mod 4096 = 0" "page_range a n \<inter> F = {}" "page_range a n \<subseteq> T"
  using assms unfolding held_ok_def sorted_wrt_append by (auto simp: disjoint_iff)

locale page_allocator =
  fixes inv :: "'h \<Rightarrow> bool"
    and free_set :: "'h \<Rightarrow> nat set"
    and pages :: "'h \<Rightarrow> nat set"
    and valid :: "'r \<Rightarrow> bool"
    and amount :: "'r \<Rightarrow> u64"
    and allocate :: "'r \<Rightarrow> 'h \<Rightarrow> (u64 \<times> 'h) option"
    and release :: "u64 \<Rightarrow> u64 \<Rightarrow> 'h \<Rightarrow> 'h option"
  assumes allocate_ok: "inv h \<Longrightarrow> valid r \<Longrightarrow>
      \<exists>a h'. allocate r h = Some (a, h') \<and> inv h' \<and> pages h' = pages h \<and>
        (a = 0 \<and> free_set h' = free_set h \<or>
         a \<noteq> 0 \<and> unat a mod 4096 = 0 \<and> page_range a (amount r) \<subseteq> free_set h \<and>
           free_set h' = free_set h - page_range a (amount r))"
    and release_ok: "inv h \<Longrightarrow> unat a mod 4096 = 0 \<Longrightarrow> page_range a n \<subseteq> pages h - free_set h \<Longrightarrow>
      \<exists>h'. release a n h = Some h' \<and> inv h' \<and> pages h' = pages h \<and> free_set h' = free_set h \<union> page_range a n"
    and free_inside: "inv h \<Longrightarrow> free_set h \<subseteq> pages h"
begin

lemma allocate_held:
  assumes "inv h" "valid r" "held_ok (free_set h) held T" "allocate r h = Some (a, h')"
  shows "inv h' \<and> pages h' = pages h \<and> held_ok (free_set h') (if a = 0 then held else (a, amount r) # held) T"
  using allocate_ok [OF assms(1,2)] assms(3,4) held_ok_take [OF assms(3)] by auto

lemma release_held:
  assumes "inv h" "held_ok (free_set h) (xs @ (a, n) # ys) T" "T \<subseteq> pages h"
  shows "\<exists>h'. release a n h = Some h' \<and> inv h' \<and> pages h' = pages h \<and> held_ok (free_set h') (xs @ ys) T"
proof -
  note g = held_ok_give [OF assms(2)]
  have "page_range a n \<subseteq> pages h - free_set h"
    using g(3,4) assms(3) by blast
  from release_ok [OF assms(1) g(2) this] g(1) show ?thesis
    by auto
qed

end

section \<open>Histories of the page heap\<close>

text \<open>What a caller asks for: a block of one of the sizes, or a number of pages at an alignment.\<close>

datatype heap_request = BlockRequest nat bool | AlignedRequest u64 u64

fun request_valid :: "heap_request \<Rightarrow> bool" where
  "request_valid (BlockRequest i random) \<longleftrightarrow> i < NumMemoryBlockPageShifts"
| "request_valid (AlignedRequest n al) \<longleftrightarrow> (\<exists>q < 64. unat al = 2 ^ q) \<and> 0 \<le> GetAlignedBlockIndex n al"

fun request_pages :: "heap_request \<Rightarrow> u64" where
  "request_pages (BlockRequest i random) = the (GetBlockNumPages i)"
| "request_pages (AlignedRequest n al) = n"

fun request_allocate :: "heap_request \<Rightarrow> KPageHeap \<Rightarrow> (u64 \<times> KPageHeap) option" where
  "request_allocate (BlockRequest i random) h = AllocateBlock (int i) random h"
| "request_allocate (AlignedRequest n al) h = AllocateAligned (GetAlignedBlockIndex n al) n al h"

inductive heap_step :: "KPageHeap \<times> (u64 \<times> u64) list \<Rightarrow> KPageHeap \<times> (u64 \<times> u64) list \<Rightarrow> bool" where
  allocate: "request_valid r \<Longrightarrow> request_allocate r h = Some (a, h') \<Longrightarrow>
    heap_step (h, held) (h', if a = 0 then held else (a, request_pages r) # held)"
| free: "KPageHeap_Free a n h = Some h' \<Longrightarrow> heap_step (h, xs @ (a, n) # ys) (h', xs @ ys)"

inductive_cases heap_step_elim: "heap_step s s'"

lemma mod_multiple_0: "(a :: nat) mod (m * 4096) = 0 \<Longrightarrow> a mod 4096 = 0"
  by (metis dvd_trans dvd_triv_right mod_0_imp_dvd mod_greater_zero_iff_not_dvd not_gr_zero)

lemma request_allocate_ok:
  assumes "kernel_heap h" "request_valid r"
  shows "\<exists>a h'. request_allocate r h = Some (a, h') \<and> kernel_heap h' \<and> heap_pages h' = heap_pages h \<and>
    (a = 0 \<and> free_heap_pages h' = free_heap_pages h \<or>
     a \<noteq> 0 \<and> unat a mod 4096 = 0 \<and> page_range a (request_pages r) \<subseteq> free_heap_pages h \<and>
       free_heap_pages h' = free_heap_pages h - page_range a (request_pages r))"
proof (cases r)
  case (BlockRequest i random)
  then obtain n where n: "GetBlockNumPages i = Some n"
    using assms(2) by (auto simp: GetBlockNumPages_def GetBlockSize_def NumMemoryBlockPageShifts_def MemoryBlockPageShifts_ok(2))
  obtain a h' where "AllocateBlock (int i) random h = Some (a, h')" "kernel_heap h'" "heap_pages h' = heap_pages h"
    "a \<noteq> 0 \<and> unat a mod (unat n * 4096) = 0 \<and> page_range a n \<subseteq> free_heap_pages h \<and>
       free_heap_pages h' = free_heap_pages h - page_range a n \<or> a = 0 \<and> h' = h"
    using AllocateBlock_pages [OF assms(1) n, of random] by (auto split: if_splits)
  then show ?thesis
    using BlockRequest n mod_multiple_0 [of "unat a" "unat n"] by (intro exI [of _ a] exI [of _ h']) auto
next
  case (AlignedRequest n al)
  then obtain q m where q: "0 \<le> GetAlignedBlockIndex n al" "unat al = 2 ^ q" "GetBlockNumPages (nat (GetAlignedBlockIndex n al)) = Some m"
    using assms(2) GetAlignedBlockIndex_ok [of n al] by auto
  obtain a h' where "AllocateAligned (GetAlignedBlockIndex n al) n al h = Some (a, h')" "kernel_heap h'" "heap_pages h' = heap_pages h"
    "a \<noteq> 0 \<and> unat a mod (2 ^ q * 4096) = 0 \<and> page_range a n \<subseteq> free_heap_pages h \<and>
       free_heap_pages h' = free_heap_pages h - page_range a n \<or> a = 0 \<and> h' = h"
    using AllocateAligned_pages [OF assms(1) q] by (auto split: if_splits)
  then show ?thesis
    using AlignedRequest mod_multiple_0 [of "unat a" "2 ^ q"] by (intro exI [of _ a] exI [of _ h']) auto
qed

interpretation kernel_pages: page_allocator kernel_heap free_heap_pages heap_pages request_valid request_pages request_allocate KPageHeap_Free
proof
  fix h a n
  show "kernel_heap h \<Longrightarrow> unat a mod 4096 = 0 \<Longrightarrow> page_range a n \<subseteq> heap_pages h - free_heap_pages h \<Longrightarrow>
      \<exists>h'. KPageHeap_Free a n h = Some h' \<and> kernel_heap h' \<and> heap_pages h' = heap_pages h \<and>
        free_heap_pages h' = free_heap_pages h \<union> page_range a n"
    using KPageHeap_Free_pages [of h a n] by metis
qed (simp_all add: request_allocate_ok kernel_heapD(6))

lemma heap_history:
  assumes "heap_step\<^sup>*\<^sup>* (h0, []) (h, held)" "kernel_heap h0"
  shows "kernel_heap h \<and> heap_pages h = heap_pages h0 \<and> held_ok (free_heap_pages h) held (free_heap_pages h0)"
  using assms(1)
proof (induction "(h, held)" arbitrary: h held rule: rtranclp_induct)
  case base
  then show ?case
    using assms(2) by (simp add: held_ok_def)
next
  case (step s)
  obtain h1 held1 where s: "s = (h1, held1)"
    by (cases s)
  note IH = step.hyps(3) [OF s]
  have T: "free_heap_pages h0 \<subseteq> heap_pages h1"
    using IH kernel_heapD(6) [OF assms(2)] by simp
  from step.hyps(2) [unfolded s] show ?case
  proof (cases rule: heap_step.cases)
    case (allocate r a)
    then show ?thesis
      using kernel_pages.allocate_held [of h1 r held1 "free_heap_pages h0" a h] IH by simp
  next
    case (free a n xs ys)
    then show ?thesis
      using kernel_pages.release_held [of h1 xs a n ys "free_heap_pages h0"] IH T by auto
  qed
qed


lemma KPageHeap_Initialize_pages:
  assumes "length (m_blocks h) = NumMemoryBlockPageShifts" "unat address mod 4096 = 0" "unat sz mod 4096 = 0"
    and "0 < unat address" "0 < unat sz" "unat sz \<le> 2 ^ 35" "unat address + unat sz \<le> 2 ^ 40"
    and "msz = KPageHeap_ManagementOverheadDefault sz" "unat dat + unat msz \<le> unat (maddr + msz)"
  shows "\<exists>h'. KPageHeap_InitializeDefault dat address sz maddr msz h = Some h' \<and> kernel_heap h' \<and>
    free_heap_pages h' = {} \<and> GetNumFreePages h' = Some 0 \<and>
    heap_pages h' = {unat address div 4096..<(unat address + unat sz) div 4096}"
proof -
  have "unat address + unat sz \<le> 2 ^ 62"
    by (rule order_trans [OF assms(7)]) simp
  from KPageHeap_Initialize_ok [OF assms(1-6) this assms(8) [unfolded KPageHeap_ManagementOverheadDefault_def] assms(9)] obtain h' where
    h': "KPageHeap_InitializeDefault dat address sz maddr msz h = Some h'" "heap_ok h'" "free_heap_pages h' = {}"
      "ph_heap_address h' = address" "ph_heap_size h' = sz" "m_num_blocks h' = NumMemoryBlockPageShifts"
      "map m_block_shift (m_blocks h') = MemoryBlockPageShifts"
    unfolding KPageHeap_InitializeDefault_def by blast
  moreover have "kernel_heap h'"
    using h'(2,4-7) assms(7) by (simp add: kernel_heap_def heap_below_def)
  moreover have "GetNumFreePages h' = Some 0"
    using GetNumFreePages_ok(1) [OF h'(2)] h'(3) by simp
  ultimately show ?thesis
    by (intro exI [of _ h']) (simp add: heap_pages_def)
qed

section \<open>Properties\<close>


text \<open>
  C23. Freeing a range of pages of the heap that are not free raises no assertion and ends: the free pages of the heap
  become exactly the old ones and those of the range, the blocks stay coalesced and disjoint, and the number of free pages grows by
  the number of pages of the range.
\<close>

theorem KPageHeap_Free_correct:
  assumes "kernel_heap h" "unat addr mod 4096 = 0" "page_range addr n \<subseteq> heap_pages h - free_heap_pages h"
  shows "\<exists>h' m. KPageHeap_Free addr n h = Some h' \<and> kernel_heap h' \<and> heap_pages h' = heap_pages h \<and>
    free_heap_pages h' = free_heap_pages h \<union> page_range addr n \<and>
    GetNumFreePages h = Some m \<and> GetNumFreePages h' = Some (m + n)"
  by (rule KPageHeap_Free_pages [OF assms])

text \<open>
  C24. Allocating a block of one of the sizes, by linear search or at random, raises no assertion. When some block of this size
  has only free pages, the result is the address of a block of free pages that is aligned to its size, and exactly its pages are no
  longer free; otherwise the result is zero and the heap is unchanged.
\<close>

theorem AllocateBlock_correct:
  assumes "kernel_heap h" "GetBlockNumPages i = Some n"
  shows "\<exists>a h'. AllocateBlock (int i) random h = Some (a, h') \<and> kernel_heap h' \<and> heap_pages h' = heap_pages h \<and>
    (if \<exists>j. {j * unat n..<Suc j * unat n} \<subseteq> free_heap_pages h
     then a \<noteq> 0 \<and> unat a mod (unat n * 4096) = 0 \<and> page_range a n \<subseteq> free_heap_pages h \<and>
       free_heap_pages h' = free_heap_pages h - page_range a n
     else a = 0 \<and> h' = h)"
  by (rule AllocateBlock_pages [OF assms])

text \<open>
  C25. Allocating a number of pages at an alignment that is a power of two, from the block size that \<open>GetAlignedBlockIndex\<close>
  chooses, raises no assertion. When some block of this size has only free pages, the result is an aligned address at which the pages
  were free, and exactly these pages are taken; otherwise the result is zero and the heap is unchanged.
\<close>

theorem AllocateAligned_correct:
  assumes "kernel_heap h" "0 \<le> GetAlignedBlockIndex n al" "unat al = 2 ^ q"
    and "GetBlockNumPages (nat (GetAlignedBlockIndex n al)) = Some m"
  shows "\<exists>a h'. AllocateAligned (GetAlignedBlockIndex n al) n al h = Some (a, h') \<and> kernel_heap h' \<and> heap_pages h' = heap_pages h \<and>
    (if \<exists>j. {j * unat m..<Suc j * unat m} \<subseteq> free_heap_pages h
     then a \<noteq> 0 \<and> unat a mod (2 ^ q * 4096) = 0 \<and> page_range a n \<subseteq> free_heap_pages h \<and>
       free_heap_pages h' = free_heap_pages h - page_range a n
     else a = 0 \<and> h' = h)"
  by (rule AllocateAligned_pages [OF assms])

text \<open>
  C22. After every history of allocations and of frees of held allocations, no page belongs to two held allocations, none
  that is held is free, the free and the held pages together are the pages that were free at the start, and freeing any held allocation
  succeeds.
\<close>

theorem page_heap_safe:
  assumes "kernel_heap h0" "heap_step\<^sup>*\<^sup>* (h0, []) (h, held)"
  shows "kernel_heap h \<and> sorted_wrt (\<lambda>(a, n) (b, m). page_range a n \<inter> page_range b m = {}) held \<and>
    free_heap_pages h \<union> (\<Union>(a, n) \<in> set held. page_range a n) = free_heap_pages h0 \<and>
    list_all (\<lambda>(a, n). page_range a n \<inter> free_heap_pages h = {} \<and> KPageHeap_Free a n h \<noteq> None) held"
proof -
  note H = heap_history [OF assms(2,1)]
  then have D: "held_ok (free_heap_pages h) held (free_heap_pages h0)" "free_heap_pages h0 \<subseteq> heap_pages h"
    using kernel_heapD(6) [OF assms(1)] by simp_all
  have "KPageHeap_Free a n h \<noteq> None" if mem: "(a, n) \<in> set held" for a n
  proof -
    obtain xs ys where "held = xs @ (a, n) # ys"
      using split_list [OF mem] by blast
    with kernel_pages.release_held [of h xs a n ys "free_heap_pages h0"] H D show ?thesis
      by auto
  qed
  then show ?thesis
    using H D(1) by (auto simp: held_ok_def list_all_iff case_prod_unfold)
qed

section \<open>Witnesses\<close>

definition sample_page_heap :: KPageHeap where
  "sample_page_heap =
     (let b = \<lparr>m_bitmap = \<lparr>m_bit_storages = [], m_bitmap_rng = empty_generator, m_num_bits = 0, m_used_depths = 0\<rparr>, bk_heap_address = 0,
               m_end_offset = 0, m_block_shift = 0, m_next_block_shift = 0\<rparr>
      in \<lparr>ph_heap_address = 0, ph_heap_size = 0, m_initial_used_size = 0, m_num_blocks = 0, m_blocks = replicate 7 b, ph_rng = empty_generator\<rparr>)"

definition sample_management :: u64 where
  "sample_management = KPageHeap_ManagementOverheadDefault 0x4000000"

text \<open>64 MiB at 2 GiB with the first 16 pages free.\<close>

definition started_heap :: "KPageHeap option" where
  "started_heap = do {
     h \<leftarrow> KPageHeap_InitializeDefault 0 0x80000000 0x4000000 0 sample_management sample_page_heap;
     KPageHeap_Free 0x80000000 16 h
   }"

lemma sample_heap_length: "length (m_blocks sample_page_heap) = NumMemoryBlockPageShifts"
  by (simp add: sample_page_heap_def Let_def NumMemoryBlockPageShifts_def)


lemma initialized_heap:
  "\<exists>h. KPageHeap_InitializeDefault 0 0x80000000 0x4000000 0 sample_management sample_page_heap = Some h \<and>
     kernel_heap h \<and> free_heap_pages h = {} \<and> heap_pages h = {0x80000..<0x84000}"
  using KPageHeap_Initialize_pages [OF sample_heap_length, of "0x80000000" "0x4000000" sample_management 0 0]
  by (auto simp: sample_management_def)

lemma sample_range: "page_range 0x80000000 16 = {0x80000..<0x80010}"
  by (simp add: page_range_def)

theorem KPageHeap_Free_correct_witness:
  "\<exists>h h'. KPageHeap_InitializeDefault 0 0x80000000 0x4000000 0 sample_management sample_page_heap = Some h \<and>
     KPageHeap_Free 0x80000000 16 h = Some h' \<and> free_heap_pages h' = {0x80000..<0x80010}"
proof -
  obtain h where h: "KPageHeap_InitializeDefault 0 0x80000000 0x4000000 0 sample_management sample_page_heap = Some h"
    "kernel_heap h" "free_heap_pages h = {}" "heap_pages h = {0x80000..<0x84000}"
    using initialized_heap by blast
  have "page_range 0x80000000 16 \<subseteq> heap_pages h - free_heap_pages h"
    by (simp add: h sample_range)
  from KPageHeap_Free_correct [OF h(2) _ this] h show ?thesis
    by (auto simp: sample_range)
qed

lemma started_heap_ok: "\<exists>h. started_heap = Some h \<and> kernel_heap h \<and> free_heap_pages h = {0x80000..<0x80010}"
proof -
  obtain h where h: "KPageHeap_InitializeDefault 0 0x80000000 0x4000000 0 sample_management sample_page_heap = Some h"
    "kernel_heap h" "free_heap_pages h = {}" "heap_pages h = {0x80000..<0x84000}"
    using initialized_heap by blast
  have "page_range 0x80000000 16 \<subseteq> heap_pages h - free_heap_pages h"
    by (simp add: h sample_range)
  from KPageHeap_Free_pages [OF h(2) _ this] h show ?thesis
    by (auto simp: sample_range started_heap_def)
qed

lemma sample_sizes: "GetBlockNumPages 0 = Some 1" "GetBlockNumPages 1 = Some 16" "GetAlignedBlockIndex 3 4 = 1"
  by (simp_all add: GetBlockNumPages_def GetBlockSize_def MemoryBlockPageShifts_def GetAlignedBlockIndex_def NumMemoryBlockPageShifts_def upt_rec
    max_def word_le_nat_alt)

theorem AllocateBlock_correct_witness:
  "\<exists>h a h'. started_heap = Some h \<and> AllocateBlock 1 False h = Some (a, h') \<and> a \<noteq> 0 \<and>
     page_range a 16 \<subseteq> {0x80000..<0x80010} \<and> free_heap_pages h' = {0x80000..<0x80010} - page_range a 16"
proof -
  obtain h where h: "started_heap = Some h" "kernel_heap h" "free_heap_pages h = {0x80000..<0x80010}"
    using started_heap_ok by blast
  have "\<exists>j. {j * unat (16 :: u64)..<Suc j * unat (16 :: u64)} \<subseteq> free_heap_pages h"
    unfolding h(3) by (rule exI [of _ "0x8000"]) simp
  with AllocateBlock_correct [OF h(2) sample_sizes(2), of False] h show ?thesis
    by auto
qed

theorem AllocateAligned_correct_witness:
  "\<exists>h a h'. started_heap = Some h \<and> AllocateAligned (GetAlignedBlockIndex 3 4) 3 4 h = Some (a, h') \<and> a \<noteq> 0 \<and>
     unat a mod 0x4000 = 0 \<and> page_range a 3 \<subseteq> {0x80000..<0x80010} \<and> free_heap_pages h' = {0x80000..<0x80010} - page_range a 3"
proof -
  obtain h where h: "started_heap = Some h" "kernel_heap h" "free_heap_pages h = {0x80000..<0x80010}"
    using started_heap_ok by blast
  have "\<exists>j. {j * unat (16 :: u64)..<Suc j * unat (16 :: u64)} \<subseteq> free_heap_pages h"
    unfolding h(3) by (rule exI [of _ "0x8000"]) simp
  with AllocateAligned_correct [OF h(2), of 3 4 2 16] h sample_sizes show ?thesis
    by auto
qed

theorem page_heap_safe_witness:
  "\<exists>h0 h a n. started_heap = Some h0 \<and> heap_step\<^sup>*\<^sup>* (h0, []) (h, [(a, n)]) \<and> n = 16 \<and>
     free_heap_pages h \<union> page_range a n = {0x80000..<0x80010} \<and> KPageHeap_Free a n h \<noteq> None"
proof -
  obtain h0 where h0: "started_heap = Some h0" "kernel_heap h0" "free_heap_pages h0 = {0x80000..<0x80010}"
    using started_heap_ok by blast
  have "\<exists>j. {j * unat (16 :: u64)..<Suc j * unat (16 :: u64)} \<subseteq> free_heap_pages h0"
    unfolding h0(3) by (rule exI [of _ "0x8000"]) simp
  then obtain a h where a: "AllocateBlock 1 False h0 = Some (a, h)" "a \<noteq> 0"
    using AllocateBlock_pages [OF h0(2) sample_sizes(2), of False] by auto
  have "heap_step (h0, []) (h, [(a, 16)])"
    using heap_step.allocate [of "BlockRequest 1 False" h0 a h "[]"] a sample_sizes(2) by (simp add: NumMemoryBlockPageShifts_def)
  then have "heap_step\<^sup>*\<^sup>* (h0, []) (h, [(a, 16)])"
    by blast
  from page_heap_safe [OF h0(2) this] this h0 show ?thesis
    by auto
qed

end
