(* ===== verification/Spec2Isabelle.thy ===== *)
theory Spec2Isabelle
  imports Prelude TinyMT KPageBitmap KDynamicPageManager KSlabHeap KMemoryBlock KMemoryBlockManager KResourceLimit
    KHandleTable MacroInterpreter BufferQueueCore BufferQueueConsumer
    BufferQueueProducer BufferQueue BufferQueueOrder BitSet KPriorityQueue KPriorityQueueRefinement
    KPriorityQueuePlacement KPriorityQueueHistory KScheduler KSchedulerQueue KSchedulerUpdate KSchedulerSafety
    PageTable KPageGroup KPageTableBase KPageTableGroups KPageTableLayout KPageTablePermissions
    KPageTableChecks KPageTableUpdates KPageTableLocks KPageHeap KPageHeapBlocks KPageHeapInvariant KPageHeapFree
    KPageHeapAllocate KPageHeapRandom KPageHeapInitialize KPageHeapContract
begin

text \<open>
  \<^bold>\<open>Verification of core logic of the Sudachi emulator\<close>

  Sudachi emulates a game console: guest code runs on emulated CPU cores under a reimplemented
  operating system kernel (\<^verbatim>\<open>src/src/core/hle/kernel\<close>), calls system services
  (\<^verbatim>\<open>src/src/core/hle/service\<close>) and drives an emulated GPU (\<^verbatim>\<open>src/src/video_core\<close>). This development
  models the parts that carry the logic of its own: the kernel's memory management from the free-page
  bitmap to the page table of a process, its handle table, resource limits and scheduler, the
  buffer queue of the display service and the interpreter of GPU macros. Host facilities (fibers, host
  memory, Vulkan, files, sockets) are behind explicit logs and arguments.

  \<^bold>\<open>Conventions.\<close> Fixed-width integers are words (\<open>u8\<close> to \<open>u64\<close>), so additions wrap as in C++. A definition
  returns \<open>None\<close> exactly where the source would fail an assertion, reach \<^verbatim>\<open>UNREACHABLE\<close>, or leave an array or a tree;
  error codes are the values of \<open>Result\<close>. C++ objects are records passed through the operations; arrays are
  lists read with \<open>array_get\<close>. Loops are structural recursions over what they traverse, or
  \<open>partial_function (option)\<close> where the source loops until a condition; for these the theorems prove that a result is
  returned. Calls into parts that are not modelled are appended to a log (\<open>memory_log\<close>, \<open>engine\<close> calls of
  the macro interpreter). What other threads do while a lock is released, and the random numbers of
  the host, are arguments (scripts and draws); a theorem quantifies over them.

  \<^bold>\<open>Theories and sources\<close> (paths under \<^verbatim>\<open>src/src\<close>; kernel files under \<^verbatim>\<open>core/hle/kernel\<close>).
  \<^item> \<open>Prelude\<close>: the integer types, the fault monad, \<open>Result\<close>, alignment (\<^verbatim>\<open>common/alignment.h\<close>), shared lemmas
    and the collection \<open>flag_simps\<close>.
  \<^item> \<open>TinyMT\<close> (\<^verbatim>\<open>common/tiny_mt.h\<close>): the random generator; its state is never zero.
  \<^item> \<open>KPageBitmap\<close> (\<^verbatim>\<open>k_page_bitmap.h\<close>): the multi-level free-page bitmap as nested lists of 64-bit words.
    Setting, clearing, searching (also with the random bit generator) and clearing ranges
    act as on a set of free pages, and the summary levels stay consistent.
  \<^item> \<open>KDynamicPageManager\<close>, \<open>KSlabHeap\<close> (\<^verbatim>\<open>k_dynamic_page_manager.h\<close>, \<^verbatim>\<open>k_slab_heap.h\<close>,
    \<^verbatim>\<open>k_dynamic_slab_heap.h\<close>, \<^verbatim>\<open>k_dynamic_resource_manager.h\<close>): page and object allocators of the kernel, which
    use the bitmap through the contract of the locale \<open>page_set\<close>.
  \<^item> \<open>KPageHeap\<close> (\<^verbatim>\<open>k_page_heap.h\<close>, \<^verbatim>\<open>k_page_heap.cpp\<close>): the heap of physical pages, seven sizes of blocks with one bitmap each.
    \<open>KPageHeapBlocks\<close> reads free blocks of nested sizes as a set of pages and gives the effect of pushing and popping a block,
    \<open>KPageHeapInvariant\<close> the invariant (blocks disjoint and coalesced) and \<open>FreeBlock\<close>, \<open>KPageHeapFree\<close>,
    \<open>KPageHeapAllocate\<close>, \<open>KPageHeapRandom\<close> and \<open>KPageHeapInitialize\<close> the operations, and \<open>KPageHeapContract\<close> the contract with callers
    (locale \<open>page_allocator\<close>, interpreted on the heap): after every history the held allocations are disjoint and account, with the
    free pages, for the pages that were free at the start.
  \<^item> \<open>KMemoryBlock\<close>, \<open>KMemoryBlockManager\<close> (\<^verbatim>\<open>k_memory_block.h\<close>, \<^verbatim>\<open>k_memory_block_manager.cpp\<close>): the blocks that
    tile an address space. The tree is a list sorted by address. The locale \<open>update_action\<close> states what an update
    needs of its test and its change; its lemma \<open>update_with_ok\<close> (splitting, updating, coalescing) is proved once and
    interpreted for the five updates of the source. A tree is read as a function from addresses to properties
    (\<open>page_at\<close>), and each update changes exactly the pages of its range.
  \<^item> \<open>KResourceLimit\<close>, \<open>KHandleTable\<close> (\<^verbatim>\<open>k_resource_limit.cpp\<close>, \<^verbatim>\<open>k_handle_table.cpp\<close>, \<^verbatim>\<open>k_auto_object.h\<close>): reservations with
    waiting, and the handle table, which refines a finite map from handles to objects (locale \<open>handle_space\<close>).
  \<^item> \<open>PageTable\<close> (\<^verbatim>\<open>common/page_table.cpp\<close>), \<open>KPageGroup\<close> (\<^verbatim>\<open>k_page_group.cpp\<close>): the page table of the emulated CPU
    and groups of physical pages.
  \<^item> \<open>KPageTableBase\<close>, \<open>KPageTableLayout\<close> (\<^verbatim>\<open>k_page_table_base.cpp\<close>, \<^verbatim>\<open>k_address_space_info.cpp\<close>): the state of a process
    page table, the random placement of its regions and the region queries; the placement never
    violates its assertions.
  \<^item> \<open>KPageTableGroups\<close>: \<^verbatim>\<open>MakePageGroup\<close> and \<^verbatim>\<open>IsValidPageGroup\<close>; a group identifies the physical pages of a range.
  \<^item> \<open>KPageTablePermissions\<close>, \<open>KPageTableChecks\<close>, \<open>KPageTableUpdates\<close>, \<open>KPageTableLocks\<close>: the state checks, setters and
    locks; the checks decide conditions on pages, the setters change exactly the checked pages and lose no block
    of the slab heap, unlocking undoes locking, and locked pages are refused.
  \<^item> \<open>BitSet\<close>, \<open>KPriorityQueue\<close>, \<open>KPriorityQueueRefinement\<close>, \<open>KPriorityQueuePlacement\<close>, \<open>KPriorityQueueHistory\<close>
    (\<^verbatim>\<open>common/bit_set.h\<close>, \<^verbatim>\<open>k_affinity_mask.h\<close>, \<^verbatim>\<open>k_priority_queue.h\<close>): the intrusive lists of the scheduler refine a table of
    lists; after every history each core offers its threads in the order of their priorities.
  \<^item> \<open>KScheduler\<close>, \<open>KSchedulerQueue\<close>, \<open>KSchedulerUpdate\<close>, \<open>KSchedulerSafety\<close> (\<^verbatim>\<open>k_scheduler.cpp\<close>,
    \<^verbatim>\<open>k_scheduler_lock.h\<close>, \<^verbatim>\<open>global_scheduler_context.cpp\<close>): the choice of the threads to run with migration to idle cores, and every
    operation that changes it; no history faults. The walks over the queue are an interpretation of the locale \<open>thread_walk\<close>.
  \<^item> \<open>BufferQueueCore\<close>, \<open>BufferQueueProducer\<close>, \<open>BufferQueueConsumer\<close>, \<open>BufferQueue\<close>, \<open>BufferQueueOrder\<close>
    (\<^verbatim>\<open>core/hle/service/nvnflinger\<close>): the buffer queue; its invariant under every interleaving of producer and consumer,
    the order of frames and the progress of dequeueing.
  \<^item> \<open>MacroInterpreter\<close> (\<^verbatim>\<open>video_core/macro\<close>): the GPU macro interpreter; what an execution keeps, when it ends, and
    arithmetic on double words.

  \<^bold>\<open>How the parts interact.\<close> The page manager and the page heap allocate from bitmaps; slab heaps are refilled from the page
  manager; an update allocator takes memory blocks from a slab heap for one update of the block manager;
  page table operations check the blocks of a range, take an update allocator, call the host memory
  and update the blocks. The theorems follow this chain: \<open>slab_ok\<close> carries the page manager's invariant,
  \<open>blocks_kept\<close> accounts for every block between tree and slab heap, and \<open>table_ready\<close> is what page table operations
  keep. The scheduler works on the priority queue through the placement invariant; producers and consumers of the buffer queue
  share one core record.

  \<^bold>\<open>Bounds.\<close> Sizes are those of the source: 64 priorities and 4 cores, 64 buffer slots, 1024 handles, at most two
  blocks per update, bitmaps of at most four levels (the depth is a parameter with its bound as hypothesis). Draw lists and
  scripts are finite lists; the theorems name how many values are needed. A page heap has at most 32 GiB and lies below \<open>2 ^ 40\<close>, so
  that its bitmaps have four levels and random numbers fit in the bits the generator can deliver; guest memory is far smaller. No theorem rests on fuel.

  \<^bold>\<open>Not modelled.\<close> Concurrency inside a lock's critical section is atomic in the model; the memory model of the host is not
  represented. Contents of guest memory, fibers and context switches, floating point, logging and settings, the other
  services, file systems and loaders, the shader recompiler, rendering back ends, audio, input, network and the frontends are left
  out: they are dominated by host interfaces or by data conversion. In the page table, mapping, unmapping and physical
  memory operations go through the host memory and are left out.
\<close>

end
